(* ===== verification/Qdma_Prelude.thy ===== *)
theory Qdma_Prelude
  imports Main "HOL-Library.Word"
begin

unbundle bit_operations_syntax

text \<open>
  Shared vocabulary of the development: the C integer types as words, the error numbers, the
  trace of interactions with the world outside the repository (device registers, kernel
  services, callbacks), and the generic lemmas on words, lists and traces.

  The device and the kernel are not part of the repository.  They are a parameter
  \<open>env\<close> of every definition that talks to them: each answer is a function of the whole
  history of interactions, so nothing is assumed about them beyond determinism in that
  history.  A trace lists its events newest first.
\<close>

section \<open>C types and error numbers\<close>

type_synonym u8 = "8 word"
type_synonym u16 = "16 word"
type_synonym u32 = "32 word"
type_synonym u64 = "64 word"

named_theorems errno_defs
named_theorems reg_defs
named_theorems trace_simps

definition EIO :: int where [errno_defs]: "EIO = 5"
definition EAGAIN :: int where [errno_defs]: "EAGAIN = 11"
definition ENOMEM :: int where [errno_defs]: "ENOMEM = 12"
definition EFAULT :: int where [errno_defs]: "EFAULT = 14"
definition EBUSY :: int where [errno_defs]: "EBUSY = 16"
definition EINVAL :: int where [errno_defs]: "EINVAL = 22"
definition ENOSPC :: int where [errno_defs]: "ENOSPC = 28"
definition ETIME :: int where [errno_defs]: "ETIME = 62"

text \<open>The library's own codes, \<open>qdma_error_codes\<close> of \<open>libqdma_export.h\<close>.\<close>

definition QDMA_OPERATION_SUCCESSFUL :: int where [errno_defs]: "QDMA_OPERATION_SUCCESSFUL = 0"
definition QDMA_ERR_INVALID_INPUT_PARAM :: int
  where [errno_defs]: "QDMA_ERR_INVALID_INPUT_PARAM = -5"
definition QDMA_ERR_INVALID_QIDX :: int where [errno_defs]: "QDMA_ERR_INVALID_QIDX = -7"
definition QDMA_ERR_INVALID_DESCQ_STATE :: int
  where [errno_defs]: "QDMA_ERR_INVALID_DESCQ_STATE = -8"
definition QDMA_ERR_DESCQ_FULL :: int where [errno_defs]: "QDMA_ERR_DESCQ_FULL = -11"
definition QDMA_ERR_DESCQ_IDX_ALREADY_ADDED :: int
  where [errno_defs]: "QDMA_ERR_DESCQ_IDX_ALREADY_ADDED = -12"
definition QDMA_ERR_OUT_OF_MEMORY :: int where [errno_defs]: "QDMA_ERR_OUT_OF_MEMORY = -14"
definition QDMA_ERR_INVALID_QDMA_DEVICE :: int
  where [errno_defs]: "QDMA_ERR_INVALID_QDMA_DEVICE = -15"
definition QDMA_ERR_INTERFACE_NOT_ENABLED_IN_DEVICE :: int
  where [errno_defs]: "QDMA_ERR_INTERFACE_NOT_ENABLED_IN_DEVICE = -16"

text \<open>
  What running C code comes to: it ends with a result, or it does something that C leaves undefined,
  such as an access outside an array or through a null pointer.
\<close>

datatype 'a outcome = Bad | Ok 'a

section \<open>The world outside: events, answers, traces\<close>

text \<open>Kernel threads are named by the array they stand in and their index.\<close>

datatype kthread = WrkThread nat | WbThread nat

text \<open>The calls of the PCI core that open and close a device.\<close>

datatype pci_call =
    PciRequestRegions | PciReleaseRegions
  | PciEnableDevice | PciDisableDevice
  | PciRelaxedOrdering | PciSetMaster
  | PciSetDmaMask nat | PciSetConsistentDmaMask nat   \<comment> \<open>bits of the mask\<close>
  | PciIomap int | PciIounmap                         \<comment> \<open>length; answer 0 is NULL\<close>

datatype event =
    ReadReg u32 u32                   \<comment> \<open>\<open>readl\<close>: offset, value read\<close>
  | WriteReg u32 u32                  \<comment> \<open>\<open>writel\<close>: offset, value written\<close>
  | Udelay u32
  | Wakeup kthread                    \<comment> \<open>\<open>wake_up_process\<close>\<close>
  | DmaAlloc u32 "u64 option"         \<comment> \<open>\<open>dma_alloc_coherent\<close>: bytes, bus address\<close>
  | DmaFree u32 u64                   \<comment> \<open>\<open>dma_free_coherent\<close>: bytes, bus address\<close>
  | Kalloc u32 bool                   \<comment> \<open>\<open>kzalloc\<close>/\<open>kmalloc\<close>: bytes, succeeded\<close>
  | Kfree
  | PageAlloc u8 "nat option"         \<comment> \<open>\<open>alloc_pages_node\<close>: order, page\<close>
  | PageFree nat u8
  | PageMap nat "u64 option"          \<comment> \<open>\<open>dma_map_page\<close>: page, bus address\<close>
  | PageUnmap u64
  | ReqCallback nat u32 int           \<comment> \<open>\<open>fp_done\<close>: request, bytes, status\<close>
  | ReqWake nat                       \<comment> \<open>\<open>wake_up(&cb->wq)\<close>\<close>
  | MemCpy nat u32 nat u32 u32        \<comment> \<open>\<open>memcpy\<close>: to page and offset, from page and offset, bytes\<close>
  | ScheduleWork nat
  | PacketCallback u32 u32 int        \<comment> \<open>\<open>fp_descq_c2h_packet\<close>: length, buffers, answer\<close>
  | TimerStart
  | TimerStop
  | SriovEnable nat int
  | SriovDisable
  | EnableMsix nat int              \<comment> \<open>\<open>pci_enable_msix\<close>: vectors, answer\<close>
  | DisableMsix
  | RequestIrq nat int              \<comment> \<open>\<open>request_threaded_irq\<close>: vector, answer\<close>
  | FreeIrq nat
  | UserIsr                         \<comment> \<open>the client's interrupt handlers\<close>
  | TopIsr
  | PciCall pci_call int            \<comment> \<open>call, answer\<close>
  | KthreadStart kthread bool       \<comment> \<open>\<open>kthread_create_on_node\<close>: thread, succeeded\<close>
  | KthreadStop kthread int         \<comment> \<open>\<open>kthread_stop\<close>: thread, answer\<close>

type_synonym trace = "event list"

record env =
  env_readl :: "trace \<Rightarrow> u32 \<Rightarrow> u32"
  env_dma_alloc :: "trace \<Rightarrow> u32 \<Rightarrow> u64 option"
  env_kalloc :: "trace \<Rightarrow> u32 \<Rightarrow> bool"
  env_page_alloc :: "trace \<Rightarrow> u8 \<Rightarrow> nat option"
  env_page_map :: "trace \<Rightarrow> nat \<Rightarrow> u64 option"
  env_packet :: "trace \<Rightarrow> u32 \<Rightarrow> u32 \<Rightarrow> int"
  env_sriov_enable :: "trace \<Rightarrow> nat \<Rightarrow> int"
  env_num_vf :: "trace \<Rightarrow> nat"
  env_msix_count :: "trace \<Rightarrow> nat"
  env_enable_msix :: "trace \<Rightarrow> nat \<Rightarrow> int"
  env_request_irq :: "trace \<Rightarrow> nat \<Rightarrow> int"
  env_map_error :: u64              \<comment> \<open>the address that stands for a failed mapping\<close>
  env_pci :: "trace \<Rightarrow> pci_call \<Rightarrow> int"
  env_bar_len :: "trace \<Rightarrow> int"
  env_num_cpus :: "trace \<Rightarrow> nat"
  env_kthread :: "trace \<Rightarrow> kthread \<Rightarrow> bool"
  env_kthread_stop :: "trace \<Rightarrow> kthread \<Rightarrow> int"

text \<open>
  A concrete environment for the witnesses: registers are memory (the last value written, 0
  before that), every allocation succeeds.
\<close>

fun last_written :: "trace \<Rightarrow> u32 \<Rightarrow> u32" where
  "last_written [] r = 0"
| "last_written (WriteReg r' v # tr) r = (if r' = r then v else last_written tr r)"
| "last_written (_ # tr) r = last_written tr r"

definition plain_env :: env where
  "plain_env = \<lparr>env_readl = last_written, env_dma_alloc = (\<lambda>tr n. Some 0x10000),
     env_kalloc = (\<lambda>tr n. True), env_page_alloc = (\<lambda>tr o'. Some (length tr)),
     env_page_map = (\<lambda>tr p. Some (0x1000 * of_nat p)), env_packet = (\<lambda>tr l n. 0),
     env_sriov_enable = (\<lambda>tr n. 0), env_num_vf = (\<lambda>tr. 0),
     env_msix_count = (\<lambda>tr. 4), env_enable_msix = (\<lambda>tr n. 0), env_request_irq = (\<lambda>tr i. 0),
     env_map_error = - 1, env_pci = (\<lambda>tr c. case c of PciIomap n \<Rightarrow> 1 | _ \<Rightarrow> 0),
     env_bar_len = (\<lambda>tr. 0x40000), env_num_cpus = (\<lambda>tr. 2),
     env_kthread = (\<lambda>tr t. True), env_kthread_stop = (\<lambda>tr t. 0)\<rparr>"

lemma plain_env_simps [simp]:
  "env_readl plain_env = last_written"
  "env_dma_alloc plain_env tr n = Some 0x10000"
  "env_kalloc plain_env tr n"
  "env_page_alloc plain_env tr ord = Some (length tr)"
  "env_page_map plain_env tr p = Some (0x1000 * of_nat p)"
  "env_packet plain_env tr l n = 0"
  "env_sriov_enable plain_env tr k = 0"
  "env_num_vf plain_env tr = 0"
  "env_msix_count plain_env tr = 4"
  "env_enable_msix plain_env tr k = 0"
  "env_request_irq plain_env tr k = 0"
  "env_map_error plain_env = - 1"
  "env_pci plain_env tr c = (case c of PciIomap n \<Rightarrow> 1 | _ \<Rightarrow> 0)"
  "env_bar_len plain_env tr = 0x40000"
  "env_num_cpus plain_env tr = 2"
  "env_kthread plain_env tr t"
  "env_kthread_stop plain_env tr t = 0"
  by (simp_all add: plain_env_def)

subsection \<open>Reads and writes of registers\<close>

text \<open>\<open>__read_reg\<close> and \<open>__write_reg\<close> of \<open>qdma_regs.h\<close>.\<close>

definition read_reg :: "env \<Rightarrow> u32 \<Rightarrow> trace \<Rightarrow> u32 \<times> trace" where
  "read_reg E reg tr = (let v = env_readl E tr reg in (v, ReadReg reg v # tr))"

definition write_reg :: "u32 \<Rightarrow> u32 \<Rightarrow> trace \<Rightarrow> trace" where
  "write_reg reg v tr = WriteReg reg v # tr"

text \<open>A loop over consecutive registers, 4 bytes apart.\<close>

fun write_regs :: "u32 \<Rightarrow> u32 list \<Rightarrow> trace \<Rightarrow> trace" where
  "write_regs reg [] tr = tr"
| "write_regs reg (v # vs) tr = write_regs (reg + 4) vs (write_reg reg v tr)"

fun read_regs :: "env \<Rightarrow> u32 \<Rightarrow> nat \<Rightarrow> trace \<Rightarrow> u32 list \<times> trace" where
  "read_regs E reg 0 tr = ([], tr)"
| "read_regs E reg (Suc n) tr =
     (let (v, tr1) = read_reg E reg tr; (vs, tr2) = read_regs E (reg + 4) n tr1
      in (v # vs, tr2))"

lemma length_read_regs [simp]: "length (fst (read_regs E reg n tr)) = n"
  by (induction n arbitrary: reg tr) (simp_all add: read_reg_def Let_def split_beta)

subsection \<open>What a trace says\<close>

text \<open>The register writes of a trace, oldest first.\<close>

fun writes_of :: "trace \<Rightarrow> (u32 \<times> u32) list" where
  "writes_of [] = []"
| "writes_of (WriteReg r v # tr) = writes_of tr @ [(r, v)]"
| "writes_of (_ # tr) = writes_of tr"

fun reads_of :: "u32 \<Rightarrow> trace \<Rightarrow> u32 list" where
  "reads_of r [] = []"
| "reads_of r (ReadReg r' v # tr) = reads_of r tr @ (if r' = r then [v] else [])"
| "reads_of r (_ # tr) = reads_of r tr"

lemma writes_of_append [trace_simps]: "writes_of (a @ b) = writes_of b @ writes_of a"
  by (induction a rule: writes_of.induct) simp_all

lemma writes_of_read_reg [trace_simps]: "writes_of (snd (read_reg E r tr)) = writes_of tr"
  by (simp add: read_reg_def Let_def)

lemma writes_of_write_reg [trace_simps]: "writes_of (write_reg r v tr) = writes_of tr @ [(r, v)]"
  by (simp add: write_reg_def)

lemma writes_of_read_regs [trace_simps]: "writes_of (snd (read_regs E r n tr)) = writes_of tr"
proof (induction n arbitrary: r tr)
  case (Suc n)
  show ?case
    using Suc.IH [of "r + 4" "snd (read_reg E r tr)"]
    by (simp add: Let_def split_beta trace_simps)
qed simp

lemma writes_of_write_regs [trace_simps]:
  "writes_of (write_regs r vs tr) =
     writes_of tr @ map (\<lambda>i. (r + 4 * of_nat i, vs ! i)) [0..<length vs]"
proof (induction vs arbitrary: r tr)
  case (Cons v vs)
  have "map (\<lambda>i. (r + 4 * of_nat i, (v # vs) ! i)) [0..<Suc (length vs)] =
      (r, v) # map (\<lambda>i. (r + 4 + 4 * of_nat i, vs ! i)) [0..<length vs]"
    by (simp add: upt_conv_Cons map_Suc_upt [symmetric] comp_def algebra_simps
        del: upt_Suc map_Suc_upt)
  with Cons.IH show ?case by (simp add: trace_simps)
qed simp

section \<open>Words and lists\<close>

lemma unat_less_iff: "(a :: u32) < b \<longleftrightarrow> unat a < unat b"
  by (rule word_less_nat_alt)

lemma unat_dec_less: "(w :: u32) \<noteq> 0 \<Longrightarrow> unat (w - 1) < unat w"
  by (metis diff_less gr_zeroI unat_eq_zero unat_minus_one zero_less_one)

lemma unat_add_no_overflow:
  "unat (a :: u32) + unat b < 2 ^ 32 \<Longrightarrow> unat (a + b) = unat a + unat b"
  by (simp add: unat_word_ariths)

lemma unat_u32_less: "unat (w :: u32) < 2 ^ 32"
  using unsigned_less [of w] by simp

lemma unat_sub_le: "(b :: u32) \<le> a \<Longrightarrow> unat (a - b) = unat a - unat b"
  by (rule unat_sub)

text \<open>What a loop that takes pieces of at most \<open>m\<close> bytes leaves decreases.\<close>

lemma min_piece_less:
  assumes "(tlen :: u32) \<noteq> 0" "m \<noteq> 0"
  shows "unat (tlen - min tlen m) < unat tlen"
proof -
  have "min tlen m \<le> tlen" "min tlen m \<noteq> 0" using assms by (auto simp: min_def)
  then have "0 < unat (min tlen m)" "unat (min tlen m) \<le> unat tlen"
    by (simp_all only: unat_gt_0 word_le_nat_alt not_False_eq_True)
  with \<open>min tlen m \<le> tlen\<close> show ?thesis by (simp only: unat_sub_le)
qed

lemma push_bit_1_AND_iff: "((w :: u32) AND push_bit n 1 \<noteq> 0) = bit w n"
  by (metis and_exp_eq_0_iff_not_bit push_bit_eq_mult mult_1)

lemma unat_of_nat_u32: "m < 2 ^ 32 \<Longrightarrow> unat (of_nat m :: u32) = m"
  by (simp add: unsigned_of_nat take_bit_nat_eq_self)

lemma take_bit_u32_self: "unat (w :: u32) < 2 ^ n \<Longrightarrow> take_bit n w = w"
  by (simp add: word_unat_eq_iff unsigned_take_bit_eq take_bit_nat_eq_self)

lemma bit_u32_small: "unat (w :: u32) < 2 ^ m \<Longrightarrow> bit w k \<Longrightarrow> k < m"
  by (metis bit_take_bit_iff take_bit_u32_self)

lemma drop_bit_u32_small: "unat (w :: u32) < 2 ^ m \<Longrightarrow> drop_bit m w = 0"
  by (metis take_bit_eq_self_iff_drop_bit_eq_0 take_bit_u32_self)

lemma drop_bit_push_bit_u32:
  assumes "unat (w :: u32) < 2 ^ m" "n + m \<le> 32"
  shows "drop_bit n (push_bit n w) = w"
  using assms by (intro bit_word_eqI)
    (auto simp: bit_drop_bit_eq bit_push_bit_iff dest: bit_u32_small)

text \<open>A field of \<open>m\<close> bits above \<open>n\<close> lower bits.\<close>

lemma field_low: "unat (a :: u32) < 2 ^ n \<Longrightarrow> take_bit n (a OR push_bit n b) = a"
  by (simp add: take_bit_push_bit take_bit_u32_self)

lemma field_high:
  assumes "unat (a :: u32) < 2 ^ n" "unat b < 2 ^ m" "n + m \<le> 32"
  shows "drop_bit n (a OR push_bit n b) = b"
  using assms by (simp add: drop_bit_u32_small drop_bit_push_bit_u32)

lemma fields3:
  assumes "unat (q :: u32) < 2 ^ k" "unat (p :: u32) < 2 ^ m" "unat (s :: u32) < 2 ^ j"
    and "a + j \<le> b" "b + m \<le> c" "c + k \<le> 32"
  shows "drop_bit c (push_bit c q OR push_bit b p OR push_bit a s) AND mask k = q"
    and "drop_bit b (push_bit c q OR push_bit b p OR push_bit a s) AND mask m = p"
    and "drop_bit a (push_bit c q OR push_bit b p OR push_bit a s) AND mask j = s"
proof -
  have "bit q n \<Longrightarrow> n < k" "bit p n \<Longrightarrow> n < m" "bit s n \<Longrightarrow> n < j" for n
    using assms bit_u32_small by blast+
  note bits = this
  have mono: "bit q n \<Longrightarrow> c + n < 32" "bit p n \<Longrightarrow> b + n < c" "bit s n \<Longrightarrow> a + n < b" for n
    using bits [of n] assms by linarith+
  show "drop_bit c (push_bit c q OR push_bit b p OR push_bit a s) AND mask k = q"
    using assms by (intro bit_word_eqI) (auto simp: bit_simps dest: bits mono)
  show "drop_bit b (push_bit c q OR push_bit b p OR push_bit a s) AND mask m = p"
    using assms by (intro bit_word_eqI) (auto simp: bit_simps dest: bits mono)
  show "drop_bit a (push_bit c q OR push_bit b p OR push_bit a s) AND mask j = s"
    using assms by (intro bit_word_eqI) (auto simp: bit_simps dest: bits mono)
qed

lemma list4: "length xs = 4 \<Longrightarrow> \<exists>a b c d. xs = [a, b, c, d]"
  by (simp add: numeral_eq_Suc length_Suc_conv) blast

section \<open>Registers that keep their value\<close>

lemma reg_step_inject:
  assumes "i < 2 ^ 29" "j < 2 ^ 29"
  shows "(r :: u32) + 4 * of_nat i = r + 4 * of_nat j \<longleftrightarrow> i = j"
proof
  assume "r + 4 * of_nat i = r + 4 * of_nat j"
  then have "(of_nat (4 * i) :: u32) = of_nat (4 * j)" by simp
  then have "unat (of_nat (4 * i) :: u32) = unat (of_nat (4 * j) :: u32)" by (rule arg_cong)
  moreover have "unat (of_nat (4 * i) :: u32) = 4 * i" "unat (of_nat (4 * j) :: u32) = 4 * j"
    using assms by (intro unat_of_nat_u32; simp)+
  ultimately show "i = j" by simp
qed simp

lemma last_written_write_regs_other:
  "list_all (\<lambda>i. a \<noteq> r + 4 * of_nat i) [0..<length vs]
    \<Longrightarrow> last_written (write_regs r vs tr) a = last_written tr a"
proof (induction vs arbitrary: r tr)
  case (Cons v vs)
  have all: "a \<noteq> r + 4 * of_nat i" if "i < length (v # vs)" for i
    using Cons.prems that by (simp add: list_all_iff del: upt_Suc)
  have "a \<noteq> r + 4 + 4 * of_nat i" if "i < length vs" for i
    using all [of "Suc i"] that by (simp add: algebra_simps)
  moreover have "a \<noteq> r" using all [of 0] by simp
  ultimately show ?case
    using Cons.IH [of "r + 4" "write_reg r v tr"] by (simp add: write_reg_def list_all_iff)
qed simp

lemma last_written_write_regs:
  assumes "i < length vs" "length vs \<le> 2 ^ 20"
  shows "last_written (write_regs r vs tr) (r + 4 * of_nat i) = vs ! i"
  using assms
proof (induction vs arbitrary: i r tr)
  case (Cons v vs)
  show ?case
  proof (cases i)
    case 0
    have "r \<noteq> r + 4 + 4 * of_nat j" if "j < length vs" for j
      using reg_step_inject [of 0 "Suc j" r] that Cons.prems by (simp add: algebra_simps)
    then have "last_written (write_regs (r + 4) vs (write_reg r v tr)) r
        = last_written (write_reg r v tr) r"
      by (intro last_written_write_regs_other) (simp add: list_all_iff)
    with 0 show ?thesis by (simp add: write_reg_def)
  next
    case (Suc j)
    then show ?thesis using Cons.IH [of j "r + 4" "write_reg r v tr"] Cons.prems
      by (simp add: algebra_simps)
  qed
qed simp

lemma read_regs_last_written:
  assumes "env_readl E = last_written"
  shows "fst (read_regs E r n tr) = map (\<lambda>i. last_written tr (r + 4 * of_nat i)) [0..<n]
    \<and> last_written (snd (read_regs E r n tr)) = last_written tr"
proof (induction n arbitrary: r tr)
  case (Suc n)
  have lw: "last_written (ReadReg r v # tr) = last_written tr" for v
    by (simp add: fun_eq_iff)
  have "map (\<lambda>i. last_written tr (r + 4 * of_nat i)) [0..<Suc n] =
      last_written tr r # map (\<lambda>i. last_written tr (r + 4 + 4 * of_nat i)) [0..<n]"
    by (simp add: upt_conv_Cons map_Suc_upt [symmetric] comp_def algebra_simps del: upt_Suc)
  with Suc.IH [of "r + 4" "snd (read_reg E r tr)"] show ?case
    by (simp add: read_reg_def Let_def split_beta assms lw)
qed simp

lemma unat_reg_step:
  assumes "i < n" "unat r + 4 * n \<le> 2 ^ 32"
  shows "unat ((r :: u32) + 4 * of_nat i) = unat r + 4 * i"
proof -
  have "unat (of_nat (4 * i) :: u32) = 4 * i"
    using assms by (intro unat_of_nat_u32) simp
  then have "unat (4 * of_nat i :: u32) = 4 * i" by simp
  then show ?thesis using assms by (subst unat_add_no_overflow) simp_all
qed

lemma last_written_write_regs_out:
  assumes "unat r + 4 * length vs \<le> 2 ^ 32" "unat a < unat r \<or> unat r + 4 * length vs \<le> unat a"
  shows "last_written (write_regs r vs tr) a = last_written tr a"
proof (rule last_written_write_regs_other)
  have "a \<noteq> r + 4 * of_nat i" if "i < length vs" for i
    using unat_reg_step [OF that assms(1)] assms(2) that by auto
  then show "list_all (\<lambda>i. a \<noteq> r + 4 * of_nat i) [0..<length vs]" by (simp add: list_all_iff)
qed

lemma read_regs_back:
  assumes "env_readl E = last_written" "length vs = n"
    and "\<And>i. i < n \<Longrightarrow> last_written tr (r + 4 * of_nat i) = vs ! i"
  shows "fst (read_regs E r n tr) = vs"
proof -
  have "fst (read_regs E r n tr) = map (\<lambda>i. last_written tr (r + 4 * of_nat i)) [0..<n]"
    using read_regs_last_written [OF assms(1)] by blast
  also have "\<dots> = map ((!) vs) [0..<length vs]"
    using assms by (intro map_cong) simp_all
  finally show ?thesis by (simp only: map_nth)
qed

lemma last_written_read_reg: "last_written (snd (read_reg E r t)) = last_written t"
  by (simp add: read_reg_def fun_eq_iff Let_def)

lemma last_written_read_regs:
  "env_readl E = last_written \<Longrightarrow> last_written (snd (read_regs E r n t)) = last_written t"
  using read_regs_last_written by blast

lemma zip_take_self: "zip (take (length ys) xs) ys = zip xs ys"
proof (induction ys arbitrary: xs)
  case (Cons y ys)
  then show ?case by (cases xs) simp_all
qed simp

lemma sint_of_nat_u32: "n < 2 ^ 31 \<Longrightarrow> sint (of_nat n :: u32) = int n"
  by transfer (simp add: signed_take_bit_int_eq_self)

lemma unat_ucast_u16: "unat (ucast (w :: u16) :: u32) = unat w"
proof -
  have "unat w < 2 ^ 16" using unsigned_less [of w] by simp
  then show ?thesis by (simp add: unsigned_ucast_eq take_bit_nat_eq_self)
qed

end
