(* ===== verification/Qdma_Types.thy ===== *)
theory Qdma_Types
  imports Qdma_Prelude
begin

text \<open>
  The driver's data: \<open>struct qdma_dev_conf\<close>, \<open>struct qdma_queue_conf\<close>, \<open>struct qdma_request\<close>
  and its scatter-gather list (\<open>libqdma_export.h\<close>), \<open>struct xlnx_dma_dev\<close> (\<open>xdev.h\<close>),
  \<open>struct qdma_descq\<close>, \<open>struct qdma_flq\<close> (\<open>qdma_descq.h\<close>) and the descriptors they point to
  (\<open>qdma_regs.h\<close>).

  Bit fields have their width as a word length, so that storing into one truncates as in C; a
  one-bit field is a \<open>bool\<close>, read into arithmetic by \<open>flag\<close>.  Pointers between structures
  become the structures' addresses (natural numbers, 0 for NULL) or indices; the locks, wait
  queues and the fields that only the C run-time needs are left out.
\<close>

type_synonym u4 = "4 word"
type_synonym u3 = "3 word"
type_synonym u2 = "2 word"

definition flag :: "bool \<Rightarrow> u32" where
  "flag b = (if b then 1 else 0)"

lemma flag_simps [simp]: "flag True = 1" "flag False = 0"
  by (simp_all add: flag_def)

section \<open>Configuration\<close>

record qdma_dev_conf =
  dc_pdev :: nat
  dc_qsets_max :: u16
  dc_poll_mode :: bool
  dc_intr_agg :: bool
  dc_isr_top_q_en :: bool
  dc_vf_max :: u8
  dc_intr_rngsz :: u8
  dc_msix_qvec_max :: u8
  dc_idx :: u8
  dc_qsets_base :: u32
  dc_master_pf :: bool
  dc_fp_user_isr :: bool            \<comment> \<open>\<open>fp_user_isr_handler\<close> is set\<close>
  dc_fp_isr_top_dev :: bool         \<comment> \<open>\<open>fp_q_isr_top_dev\<close> is set\<close>
  dc_bar_num_user :: int

record qdma_queue_conf =
  qc_qidx :: u16
  qc_st :: bool
  qc_c2h :: bool
  qc_irq_en :: bool
  qc_desc_rng_sz_idx :: u4
  qc_wbk_en :: bool
  qc_wbk_acc_en :: bool
  qc_wbk_pend_chk :: bool
  qc_bypass :: bool
  qc_pfetch_en :: bool
  qc_fetch_credit :: bool
  qc_c2h_buf_sz_idx :: u4
  qc_cmpl_rng_sz_idx :: u4
  qc_cmpl_desc_sz :: u2
  qc_cmpl_stat_en :: bool
  qc_cmpl_udd_en :: bool
  qc_cmpl_timer_idx :: u4
  qc_cmpl_cnt_th_idx :: u4
  qc_cmpl_trig_mode :: u3
  qc_cmpl_en_intr :: bool
  qc_fp_isr_top :: bool            \<comment> \<open>\<open>fp_descq_isr_top\<close> is set\<close>
  qc_fp_c2h_packet :: bool         \<comment> \<open>\<open>fp_descq_c2h_packet\<close> is set\<close>
  qc_rngsz :: u32
  qc_rngsz_wrb :: u32
  qc_c2h_bufsz :: u32

text \<open>\<open>struct global_csr_conf\<close> and \<open>struct qdma_cmpl_ctrl\<close>.\<close>

record global_csr_conf =
  csr_ring_sz :: "u32 list"
  csr_c2h_timer_cnt :: "u32 list"
  csr_c2h_cnt_th :: "u32 list"
  csr_c2h_buf_sz :: "u32 list"
  csr_wb_acc :: u32

record qdma_cmpl_ctrl =
  cc_cnt_th_idx :: u4
  cc_timer_idx :: u4
  cc_trigger_mode :: u3
  cc_en_stat_desc :: bool
  cc_cmpl_en_intr :: bool

section \<open>The device\<close>

text \<open>An interrupt aggregation ring (\<open>struct intr_coal_conf\<close>) with the ring it points to.\<close>

datatype intr_type = INTR_TYPE_ERROR | INTR_TYPE_USER | INTR_TYPE_DATA

record intr_ring_entry =
  ie_qid :: u32
  ie_coal_color :: bool
  ie_intr_type :: bool
  ie_error_int :: bool

record intr_coal_conf =
  ic_vec_id :: u16
  ic_num_entries :: u16
  ic_ring_bus :: u64
  ic_ring :: "intr_ring_entry list"
  ic_color :: u8
  ic_pidx :: u32
  ic_cidx :: u32

record vf_info =
  vf_func_id :: u16
  vf_qbase :: u16
  vf_qmax :: u16

record xlnx_dma_dev =
  xd_addr :: nat
  xd_conf :: qdma_dev_conf
  xd_flags :: u32
  xd_flr_prsnt :: bool
  xd_st_mode_en :: bool
  xd_mm_mode_en :: bool
  xd_vf_info :: "vf_info list"
  xd_vf_count :: u8
  xd_func_id :: u8
  xd_func_id_parent :: u8
  xd_pf_count :: u8
  xd_mm_channel_max :: u8
  xd_m_req :: "u32 list"
  xd_m_resp :: "u32 list"
  xd_num_vecs :: nat
  xd_intr_list_cnt :: "int list"
  xd_dvec_start_idx :: nat
  xd_intr_vec_map :: "intr_type list"
  xd_intr_coal_en :: bool
  xd_intr_coal_list :: "intr_coal_conf list"
  xd_qbase :: u16                  \<comment> \<open>of the \<open>struct qdma_dev\<close> behind \<open>dev_priv\<close>\<close>
  xd_qmax :: u16

text \<open>The hardware context of a queue, \<open>struct hw_descq_context\<close> (\<open>qdma_mbox.h\<close>).\<close>

record hw_descq_context =
  cx_sw :: "u32 list"
  cx_prefetch :: "u32 list"
  cx_wrb :: "u32 list"
  cx_hw :: "u32 list"
  cx_cr :: "u32 list"
  cx_qid2vec :: "u32 list"

definition zero_context :: hw_descq_context where
  "zero_context = \<lparr>cx_sw = replicate 4 0, cx_prefetch = replicate 2 0, cx_wrb = replicate 4 0,
     cx_hw = replicate 2 0, cx_cr = [0], cx_qid2vec = [0]\<rparr>"

section \<open>Requests and descriptor queues\<close>

record qdma_sw_sg =
  sg_pg :: nat
  sg_offset :: u32
  sg_len :: u32
  sg_dma_addr :: u64

text \<open>
  A request and the control block \<open>struct qdma_sgt_req_cb\<close> kept in its \<open>opaque\<close> field; the
  block's list head is the position of the request's address in the queue's two lists.
\<close>

record qdma_request =
  rq_fp_done :: bool
  rq_timeout_ms :: u32
  rq_count :: u32
  rq_ep_addr :: u64
  rq_write :: bool
  rq_dma_mapped :: bool
  rq_udd_len :: u8
  rq_sgcnt :: u16
  rq_sgl :: "qdma_sw_sg list"
  cb_desc_nr :: u32
  cb_offset :: u32
  cb_left :: u32
  cb_sg_offset :: u32
  cb_sg_idx :: u32
  cb_status :: int
  cb_done :: bool
  cb_unmap_needed :: bool

record qdma_mm_desc =
  mm_src_addr :: u64
  mm_flag_len :: u32
  mm_rsvd0 :: u32
  mm_dst_addr :: u64
  mm_rsvd1 :: u64

record qdma_h2c_desc =
  h2c_cdh_flags :: u16
  h2c_pld_len :: u16
  h2c_len :: u16
  h2c_flags :: u16
  h2c_src_addr :: u64

text \<open>The descriptor ring's memory, at the type the queue's direction and mode give it.\<close>

datatype desc_ring =
    NoDesc
  | MmDesc "qdma_mm_desc list"
  | H2cDesc "qdma_h2c_desc list"
  | C2hDesc "u64 list"

record qdma_sdesc_info =
  sd_valid :: bool
  sd_sop :: bool
  sd_eop :: bool
  sd_cidx :: u32

record qdma_flq =
  fl_size :: u32
  fl_pg_order :: u8
  fl_pg_shift :: u8
  fl_udd_cnt :: u32
  fl_pkt_cnt :: u32
  fl_pkt_dlen :: u32
  fl_avail :: u32
  fl_alloc_fail :: nat
  fl_mapping_err :: nat
  fl_cidx :: u32
  fl_pidx :: u32
  fl_pidx_pend :: u32
  fl_sdesc :: "qdma_sw_sg list"
  fl_sdesc_info :: "qdma_sdesc_info list"

text \<open>
  The writeback areas are written by the device: \<open>dq_desc_wb_cidx\<close> is \<open>desc_wb->cidx\<close>,
  \<open>dq_wrb_wb_pidx\<close> is \<open>desc_wrb_wb->pidx\<close>, and \<open>dq_desc_wrb\<close> is the completion ring, the
  first 64 bits of each entry (the user data behind them is only handed on).
  \<open>dq_desc_wrb_cur\<close> is the position, in entries, that \<open>desc_wrb_cur\<close> points to.
\<close>

record qdma_descq =
  dq_conf :: qdma_queue_conf
  dq_channel :: u8
  dq_err :: bool
  dq_enabled :: bool
  dq_inited :: bool
  dq_online :: bool
  dq_color :: bool
  dq_qidx_hw :: u32
  dq_intr_id :: nat
  dq_wrkthp :: "nat option"
  dq_wbthp :: "nat option"
  dq_work_list :: "nat list"
  dq_pend_list :: "nat list"
  dq_reqs :: "nat \<Rightarrow> qdma_request"
  dq_avail :: u32
  dq_pidx :: u32
  dq_cidx :: u32
  dq_credit :: u32
  dq_desc :: desc_ring
  dq_desc_bus :: u64
  dq_desc_wb_cidx :: u16
  dq_wb_entry_len :: u8
  dq_flq :: qdma_flq
  dq_pidx_wrb :: u32
  dq_cidx_wrb :: u32
  dq_cidx_wrb_pend :: u32
  dq_desc_wrb :: "u64 list option"
  dq_desc_wrb_cur :: nat
  dq_desc_wrb_bus :: u64
  dq_wrb_wb_pidx :: u16

section \<open>Zeroed structures\<close>

text \<open>What \<open>memset(.., 0, ..)\<close> and \<open>kzalloc\<close> leave.\<close>

definition zero_queue_conf :: qdma_queue_conf where
  "zero_queue_conf = \<lparr>qc_qidx = 0, qc_st = False, qc_c2h = False, qc_irq_en = False,
     qc_desc_rng_sz_idx = 0, qc_wbk_en = False, qc_wbk_acc_en = False, qc_wbk_pend_chk = False,
     qc_bypass = False, qc_pfetch_en = False, qc_fetch_credit = False, qc_c2h_buf_sz_idx = 0,
     qc_cmpl_rng_sz_idx = 0, qc_cmpl_desc_sz = 0, qc_cmpl_stat_en = False, qc_cmpl_udd_en = False,
     qc_cmpl_timer_idx = 0, qc_cmpl_cnt_th_idx = 0, qc_cmpl_trig_mode = 0,
     qc_cmpl_en_intr = False, qc_fp_isr_top = False, qc_fp_c2h_packet = False, qc_rngsz = 0,
     qc_rngsz_wrb = 0, qc_c2h_bufsz = 0\<rparr>"

definition zero_flq :: qdma_flq where
  "zero_flq = \<lparr>fl_size = 0, fl_pg_order = 0, fl_pg_shift = 0, fl_udd_cnt = 0, fl_pkt_cnt = 0,
     fl_pkt_dlen = 0, fl_avail = 0, fl_alloc_fail = 0, fl_mapping_err = 0, fl_cidx = 0,
     fl_pidx = 0, fl_pidx_pend = 0, fl_sdesc = [], fl_sdesc_info = []\<rparr>"

definition zero_request :: qdma_request where
  "zero_request = \<lparr>rq_fp_done = False, rq_timeout_ms = 0, rq_count = 0, rq_ep_addr = 0,
     rq_write = False, rq_dma_mapped = False, rq_udd_len = 0, rq_sgcnt = 0, rq_sgl = [],
     cb_desc_nr = 0, cb_offset = 0, cb_left = 0, cb_sg_offset = 0, cb_sg_idx = 0, cb_status = 0,
     cb_done = False, cb_unmap_needed = False\<rparr>"

definition zero_descq :: qdma_descq where
  "zero_descq = \<lparr>dq_conf = zero_queue_conf, dq_channel = 0, dq_err = False, dq_enabled = False,
     dq_inited = False, dq_online = False, dq_color = False, dq_qidx_hw = 0, dq_intr_id = 0,
     dq_wrkthp = None, dq_wbthp = None, dq_work_list = [], dq_pend_list = [],
     dq_reqs = (\<lambda>r. zero_request), dq_avail = 0, dq_pidx = 0, dq_cidx = 0, dq_credit = 0,
     dq_desc = NoDesc, dq_desc_bus = 0, dq_desc_wb_cidx = 0, dq_wb_entry_len = 0,
     dq_flq = zero_flq, dq_pidx_wrb = 0, dq_cidx_wrb = 0, dq_cidx_wrb_pend = 0,
     dq_desc_wrb = None, dq_desc_wrb_cur = 0, dq_desc_wrb_bus = 0, dq_wrb_wb_pidx = 0\<rparr>"

end
