(* ===== verification/Qdma_Regs.thy ===== *)
theory Qdma_Regs
  imports Qdma_Types
begin

text \<open>
  Register access of the physical function (\<open>libqdma/qdma_regs.c\<close>, \<open>qdma_regs.h\<close>): the
  control and status registers, register polling, the function-level reset, the device
  attributes, and the indirect context programming interface.  The handle check
  \<open>xdev_check_hndl\<close> of \<open>xdev.c\<close> that guards the exported functions is here too.
\<close>

section \<open>Register map and constants\<close>

definition QDMA_REG_GLBL_PF_BARLITE_INT :: u32
  where [reg_defs]: "QDMA_REG_GLBL_PF_BARLITE_INT = 0x104"
definition QDMA_REG_GLBL_MDMA_CHANNEL :: u32
  where [reg_defs]: "QDMA_REG_GLBL_MDMA_CHANNEL = 0x118"
definition QDMA_REG_GLBL_QMAX :: u32 where [reg_defs]: "QDMA_REG_GLBL_QMAX = 0x120"
definition QDMA_REG_FUNC_ID :: u32 where [reg_defs]: "QDMA_REG_FUNC_ID = 0x12C"
definition QDMA_REG_GLBL_MISC_CAP :: u32 where [reg_defs]: "QDMA_REG_GLBL_MISC_CAP = 0x134"
definition QDMA_REG_GLBL_RNG_SZ_BASE :: u32 where [reg_defs]: "QDMA_REG_GLBL_RNG_SZ_BASE = 0x204"
definition QDMA_REG_GLBL_WB_ACC :: u32 where [reg_defs]: "QDMA_REG_GLBL_WB_ACC = 0x250"
definition QDMA_REG_C2H_TIMER_CNT_BASE :: u32
  where [reg_defs]: "QDMA_REG_C2H_TIMER_CNT_BASE = 0xA00"
definition QDMA_REG_C2H_CNT_TH_BASE :: u32 where [reg_defs]: "QDMA_REG_C2H_CNT_TH_BASE = 0xA40"
definition QDMA_REG_C2H_BUF_SZ_BASE :: u32 where [reg_defs]: "QDMA_REG_C2H_BUF_SZ_BASE = 0xAB0"
definition QDMA_REG_TRQ_SEL_FMAP_BASE :: u32
  where [reg_defs]: "QDMA_REG_TRQ_SEL_FMAP_BASE = 0x400"
definition QDMA_REG_IND_CTXT_DATA_BASE :: u32
  where [reg_defs]: "QDMA_REG_IND_CTXT_DATA_BASE = 0x804"
definition QDMA_REG_IND_CTXT_MASK_BASE :: u32
  where [reg_defs]: "QDMA_REG_IND_CTXT_MASK_BASE = 0x814"
definition QDMA_REG_IND_CTXT_CMD :: u32 where [reg_defs]: "QDMA_REG_IND_CTXT_CMD = 0x824"
definition QDMA_REG_C2H_MM_CONTROL_BASE :: u32
  where [reg_defs]: "QDMA_REG_C2H_MM_CONTROL_BASE = 0x1004"
definition QDMA_REG_H2C_MM_CONTROL_BASE :: u32
  where [reg_defs]: "QDMA_REG_H2C_MM_CONTROL_BASE = 0x1204"
definition QDMA_REG_FLR_STATUS_PF :: u32 where [reg_defs]: "QDMA_REG_FLR_STATUS_PF = 0x2500"
definition QDMA_REG_FLR_STATUS_VF :: u32 where [reg_defs]: "QDMA_REG_FLR_STATUS_VF = 0x1100"
definition IND_CTXT_CMD_BUSY_MASK :: u32 where [reg_defs]: "IND_CTXT_CMD_BUSY_MASK = 1"

text \<open>The doorbell registers of a queue; a virtual function sees them elsewhere in its BAR.\<close>

datatype build = PF | VF

fun QDMA_REG_INT_CIDX_BASE :: "build \<Rightarrow> u32" where
  "QDMA_REG_INT_CIDX_BASE PF = 0x6400"
| "QDMA_REG_INT_CIDX_BASE VF = 0x3000"

fun QDMA_REG_H2C_PIDX_BASE :: "build \<Rightarrow> u32" where
  "QDMA_REG_H2C_PIDX_BASE PF = 0x6404"
| "QDMA_REG_H2C_PIDX_BASE VF = 0x3004"

fun QDMA_REG_C2H_PIDX_BASE :: "build \<Rightarrow> u32" where
  "QDMA_REG_C2H_PIDX_BASE PF = 0x6408"
| "QDMA_REG_C2H_PIDX_BASE VF = 0x3008"

fun QDMA_REG_WRB_CIDX_BASE :: "build \<Rightarrow> u32" where
  "QDMA_REG_WRB_CIDX_BASE PF = 0x640C"
| "QDMA_REG_WRB_CIDX_BASE VF = 0x300C"

definition QDMA_REG_PIDX_STEP :: u32 where [reg_defs]: "QDMA_REG_PIDX_STEP = 0x10"
definition QDMA_GLOBAL_CSR_ARRAY_SZ :: nat where [reg_defs]: "QDMA_GLOBAL_CSR_ARRAY_SZ = 16"
definition QDMA_VF_MAX :: nat where [reg_defs]: "QDMA_VF_MAX = 252"
definition QDMA_Q_PER_VF_MAX :: nat where [reg_defs]: "QDMA_Q_PER_VF_MAX = 8"

text \<open>The kernel's page size, that of the architectures the driver supports.\<close>

definition PAGE_SIZE :: u32 where [reg_defs]: "PAGE_SIZE = 4096"
definition PAGE_SHIFT :: nat where [reg_defs]: "PAGE_SHIFT = 12"

section \<open>The handle check\<close>

type_synonym xdev_list = "xlnx_dma_dev list"

definition xdev_find_by_pdev :: "xdev_list \<Rightarrow> nat \<Rightarrow> xlnx_dma_dev option" where
  "xdev_find_by_pdev devs pdev = List.find (\<lambda>x. dc_pdev (xd_conf x) = pdev) devs"

definition xdev_find_by_idx :: "xdev_list \<Rightarrow> u8 \<Rightarrow> xlnx_dma_dev option" where
  "xdev_find_by_idx devs idx = List.find (\<lambda>x. dc_idx (xd_conf x) = idx) devs"

definition xdev_check_hndl :: "xdev_list \<Rightarrow> nat \<Rightarrow> nat \<Rightarrow> int" where
  "xdev_check_hndl devs pdev hndl =
     (if pdev = 0 then - EINVAL
      else case xdev_find_by_pdev devs pdev of
        None \<Rightarrow> - EINVAL
      | Some xdev \<Rightarrow>
          if xd_addr xdev \<noteq> hndl then - EINVAL
          else if dc_pdev (xd_conf xdev) \<noteq> pdev then - EINVAL
          else 0)"

text \<open>The check as the exported functions use it, on the device behind their handle.\<close>

definition hndl_bad :: "xdev_list \<Rightarrow> xlnx_dma_dev \<Rightarrow> bool" where
  "hndl_bad devs xdev = (xdev_check_hndl devs (dc_pdev (xd_conf xdev)) (xd_addr xdev) < 0)"

lemma hndl_bad_iff:
  "hndl_bad devs xdev \<longleftrightarrow> \<not> (dc_pdev (xd_conf xdev) \<noteq> 0 \<and>
     (\<exists>x. xdev_find_by_pdev devs (dc_pdev (xd_conf xdev)) = Some x \<and> xd_addr x = xd_addr xdev))"
proof -
  have "dc_pdev (xd_conf x) = p" if "xdev_find_by_pdev devs p = Some x" for x p
    using that by (auto simp: xdev_find_by_pdev_def find_Some_iff)
  then show ?thesis
    by (auto simp: hndl_bad_def xdev_check_hndl_def errno_defs split: option.splits)
qed

section \<open>Configuration registers\<close>

text \<open>The error value is returned through an \<open>unsigned int\<close>.\<close>

definition qdma_device_read_config_register ::
  "env \<Rightarrow> xdev_list \<Rightarrow> xlnx_dma_dev \<Rightarrow> u32 \<Rightarrow> trace \<Rightarrow> u32 \<times> trace" where
  "qdma_device_read_config_register E devs xdev reg_addr tr =
     (if hndl_bad devs xdev then (of_int (- EINVAL), tr) else read_reg E reg_addr tr)"

definition qdma_device_write_config_register ::
  "xdev_list \<Rightarrow> xlnx_dma_dev \<Rightarrow> u32 \<Rightarrow> u32 \<Rightarrow> trace \<Rightarrow> trace" where
  "qdma_device_write_config_register devs xdev reg_addr val tr =
     (if hndl_bad devs xdev then tr else write_reg reg_addr val tr)"

definition qdma_csr_read_wbacc :: "env \<Rightarrow> trace \<Rightarrow> u32 \<times> trace" where
  "qdma_csr_read_wbacc E tr = read_reg E QDMA_REG_GLBL_WB_ACC tr"

definition qdma_csr_read_rngsz :: "env \<Rightarrow> trace \<Rightarrow> u32 list \<times> trace" where
  "qdma_csr_read_rngsz E tr = read_regs E QDMA_REG_GLBL_RNG_SZ_BASE QDMA_GLOBAL_CSR_ARRAY_SZ tr"

definition qdma_csr_read_bufsz :: "env \<Rightarrow> trace \<Rightarrow> u32 list \<times> trace" where
  "qdma_csr_read_bufsz E tr = read_regs E QDMA_REG_C2H_BUF_SZ_BASE QDMA_GLOBAL_CSR_ARRAY_SZ tr"

definition qdma_csr_read_timer_cnt :: "env \<Rightarrow> trace \<Rightarrow> u32 list \<times> trace" where
  "qdma_csr_read_timer_cnt E tr =
     read_regs E QDMA_REG_C2H_TIMER_CNT_BASE QDMA_GLOBAL_CSR_ARRAY_SZ tr"

definition qdma_csr_read_cnt_thresh :: "env \<Rightarrow> trace \<Rightarrow> u32 list \<times> trace" where
  "qdma_csr_read_cnt_thresh E tr =
     read_regs E QDMA_REG_C2H_CNT_TH_BASE QDMA_GLOBAL_CSR_ARRAY_SZ tr"

definition qdma_global_csr_get ::
  "env \<Rightarrow> xdev_list \<Rightarrow> xlnx_dma_dev \<Rightarrow> global_csr_conf \<Rightarrow> trace
     \<Rightarrow> int \<times> global_csr_conf \<times> trace" where
  "qdma_global_csr_get E devs xdev csr tr =
     (if hndl_bad devs xdev then (- EINVAL, csr, tr)
      else
        let (acc, tr) = qdma_csr_read_wbacc E tr;
            (rngsz, tr) = qdma_csr_read_rngsz E tr;
            (bufsz, tr) = qdma_csr_read_bufsz E tr;
            (tmr, tr) = qdma_csr_read_timer_cnt E tr;
            (cnt, tr) = qdma_csr_read_cnt_thresh E tr
        in (0, \<lparr>csr_ring_sz = rngsz, csr_c2h_timer_cnt = tmr, csr_c2h_cnt_th = cnt,
                csr_c2h_buf_sz = bufsz, csr_wb_acc = acc\<rparr>, tr))"

definition qdma_global_csr_set ::
  "xdev_list \<Rightarrow> xlnx_dma_dev \<Rightarrow> global_csr_conf \<Rightarrow> trace \<Rightarrow> int \<times> trace" where
  "qdma_global_csr_set devs xdev csr tr =
     (if hndl_bad devs xdev then (- EINVAL, tr)
      else if xd_func_id xdev \<noteq> 0 then (- EINVAL, tr)
      else
        let tr = write_reg QDMA_REG_GLBL_WB_ACC (csr_wb_acc csr) tr;
            tr = write_regs QDMA_REG_GLBL_RNG_SZ_BASE
                   (take QDMA_GLOBAL_CSR_ARRAY_SZ (csr_ring_sz csr)) tr;
            tr = write_regs QDMA_REG_C2H_BUF_SZ_BASE
                   (take QDMA_GLOBAL_CSR_ARRAY_SZ (csr_c2h_buf_sz csr)) tr;
            tr = write_regs QDMA_REG_C2H_TIMER_CNT_BASE
                   (take QDMA_GLOBAL_CSR_ARRAY_SZ (csr_c2h_timer_cnt csr)) tr;
            tr = write_regs QDMA_REG_C2H_CNT_TH_BASE
                   (take QDMA_GLOBAL_CSR_ARRAY_SZ (csr_c2h_cnt_th csr)) tr
        in (0, tr))"

text \<open>\<open>hw_set_global_csr\<close>: the defaults the master function programs at start.\<close>

definition hw_set_global_csr :: "trace \<Rightarrow> trace" where
  "hw_set_global_csr tr =
     (let tr = write_reg QDMA_REG_GLBL_WB_ACC 0x1 tr;
          tr = write_regs QDMA_REG_GLBL_RNG_SZ_BASE (replicate 16 (256 + 1)) tr;
          tr = write_regs QDMA_REG_C2H_BUF_SZ_BASE (replicate 16 PAGE_SIZE) tr;
          tr = write_regs QDMA_REG_C2H_TIMER_CNT_BASE (replicate 16 0x1) tr
      in write_regs QDMA_REG_C2H_CNT_TH_BASE (replicate 16 0x1) tr)"

section \<open>Polling a register\<close>

text \<open>
  \<open>hw_monitor_reg\<close>.  The C loop is \<open>do ... while (--count)\<close>, so the count that the
  division yields is decremented before it is tested: a count of 0 wraps around.
\<close>

function monitor_loop :: "env \<Rightarrow> u32 \<Rightarrow> u32 \<Rightarrow> u32 \<Rightarrow> u32 \<Rightarrow> u32 \<Rightarrow> trace \<Rightarrow> int \<times> trace" where
  "monitor_loop E reg msk val interval count tr =
     (let (v, tr) = read_reg E reg tr in
      if v AND msk = val then (1, tr)
      else
        let tr = Udelay interval # tr; count = count - 1 in
        if count \<noteq> 0 then monitor_loop E reg msk val interval count tr
        else
          let (v, tr) = read_reg E reg tr in
          if v AND msk = val then (1, tr) else (- EBUSY, tr))"
  by pat_completeness auto
termination
proof (relation "measure (\<lambda>(E, reg, msk, val, interval, count, tr). unat (count - 1))", goal_cases)
  case (2 E reg msk val interval count tr)
  then show ?case using unat_dec_less [of "count - 1"] by simp
qed simp

declare monitor_loop.simps [simp del]

definition hw_monitor_reg ::
  "env \<Rightarrow> u32 \<Rightarrow> u32 \<Rightarrow> u32 \<Rightarrow> u32 \<Rightarrow> u32 \<Rightarrow> trace \<Rightarrow> int \<times> trace" where
  "hw_monitor_reg E reg msk val interval_us timeout_us tr =
     (let interval_us = (if interval_us = 0 then 100 else interval_us);
          timeout_us = (if timeout_us = 0 then 500 * 1000 else timeout_us);
          count = timeout_us div interval_us
      in monitor_loop E reg msk val interval_us count tr)"

section \<open>Function-level reset and device attributes\<close>

fun QDMA_REG_FLR_STATUS :: "build \<Rightarrow> u32" where
  "QDMA_REG_FLR_STATUS PF = QDMA_REG_FLR_STATUS_PF"
| "QDMA_REG_FLR_STATUS VF = QDMA_REG_FLR_STATUS_VF"

definition qdma_device_flr_quirk_set ::
  "build \<Rightarrow> xdev_list \<Rightarrow> nat \<Rightarrow> xlnx_dma_dev \<Rightarrow> trace \<Rightarrow> int \<times> trace" where
  "qdma_device_flr_quirk_set b devs pdev xdev tr =
     (if \<not> xd_flr_prsnt xdev then (0, tr)
      else if xd_addr xdev = 0 \<or> xdev_check_hndl devs pdev (xd_addr xdev) < 0 then (- EINVAL, tr)
      else (0, write_reg (QDMA_REG_FLR_STATUS b) 0x1 tr))"

definition qdma_device_flr_quirk_check ::
  "env \<Rightarrow> build \<Rightarrow> xdev_list \<Rightarrow> nat \<Rightarrow> xlnx_dma_dev \<Rightarrow> trace \<Rightarrow> int \<times> trace" where
  "qdma_device_flr_quirk_check E b devs pdev xdev tr =
     (if \<not> xd_flr_prsnt xdev then (0, tr)
      else if xd_addr xdev = 0 \<or> xdev_check_hndl devs pdev (xd_addr xdev) < 0 then (- EINVAL, tr)
      else
        let (rv, tr) = hw_monitor_reg E (QDMA_REG_FLR_STATUS b) 0x1 0 500 (500 * 1000) tr in
        if rv < 0 then (0, snd (read_reg E (QDMA_REG_FLR_STATUS b) tr)) else (0, tr))"

definition qdma_device_flr_quirk ::
  "env \<Rightarrow> build \<Rightarrow> xdev_list \<Rightarrow> nat \<Rightarrow> xlnx_dma_dev \<Rightarrow> trace \<Rightarrow> int \<times> trace" where
  "qdma_device_flr_quirk E b devs pdev xdev tr =
     (let (rv, tr) = qdma_device_flr_quirk_set b devs pdev xdev tr in
      if rv < 0 then (rv, tr) else qdma_device_flr_quirk_check E b devs pdev xdev tr)"

text \<open>The four 6-bit fields of the BAR-lite register, one per physical function.\<close>

definition qdma_device_num_pfs_get ::
  "env \<Rightarrow> xlnx_dma_dev \<Rightarrow> trace \<Rightarrow> nat \<times> xlnx_dma_dev \<times> trace" where
  "qdma_device_num_pfs_get E xdev tr =
     (let (reg_val, tr) = read_reg E QDMA_REG_GLBL_PF_BARLITE_INT tr;
          count = 0;
          count = (if drop_bit 0 (reg_val AND 0x3F) \<noteq> 0 then Suc count else count);
          count = (if drop_bit 6 (reg_val AND 0xFC0) \<noteq> 0 then Suc count else count);
          count = (if drop_bit 12 (reg_val AND 0x3F000) \<noteq> 0 then Suc count else count);
          count = (if drop_bit 18 (reg_val AND 0xFC0000) \<noteq> 0 then Suc count else count)
      in (count, xdev\<lparr>xd_pf_count := of_nat count\<rparr>, tr))"

text \<open>
  \<open>qdma_device_attributes_get\<close>.  \<open>None\<close> is the division by zero that a device with no
  physical function reported would cause; \<open>totalvfs\<close> is the answer of
  \<open>pci_sriov_get_totalvfs\<close>.
\<close>

definition qdma_device_attributes_get ::
  "env \<Rightarrow> nat \<Rightarrow> xlnx_dma_dev \<Rightarrow> trace \<Rightarrow> (xlnx_dma_dev \<times> trace) option" where
  "qdma_device_attributes_get E totalvfs xdev tr =
     (let (v1, tr) = read_reg E QDMA_REG_GLBL_QMAX tr;
          (v2, xdev, tr) = qdma_device_num_pfs_get E xdev tr
      in
      if v2 = 0 then None
      else
        let qsets = (ucast (v1 div of_nat v2) :: u16);
            qsets = (if totalvfs * QDMA_Q_PER_VF_MAX > unat qsets then 0
                     else qsets - of_nat (totalvfs * QDMA_Q_PER_VF_MAX));
            (cap, tr) = read_reg E QDMA_REG_GLBL_MISC_CAP tr;
            (v1, tr) = read_reg E QDMA_REG_GLBL_MDMA_CHANNEL tr;
            mm_c2h = (v1 AND 0x100 \<noteq> 0);
            mm_h2c = (v1 AND 0x1 \<noteq> 0);
            st_c2h = (v1 AND 0x10000 \<noteq> 0);
            st_h2c = (v1 AND 0x20000 \<noteq> 0)
        in Some (xdev\<lparr>xd_conf := (xd_conf xdev)\<lparr>dc_qsets_max := qsets\<rparr>,
                      xd_mm_channel_max := 1,
                      xd_flr_prsnt := (drop_bit 1 (cap AND 0x2) \<noteq> 0),
                      xd_mm_mode_en := (mm_c2h \<and> mm_h2c),
                      xd_st_mode_en := (st_c2h \<and> st_h2c)\<rparr>, tr))"

section \<open>Engines and function map\<close>

definition mm_control_base :: "bool \<Rightarrow> u32" where
  "mm_control_base c2h = (if c2h then QDMA_REG_H2C_MM_CONTROL_BASE
                          else QDMA_REG_C2H_MM_CONTROL_BASE)"

definition hw_mm_channel_enable :: "u32 \<Rightarrow> bool \<Rightarrow> trace \<Rightarrow> trace" where
  "hw_mm_channel_enable channel c2h tr =
     write_reg (mm_control_base c2h + channel * 0x100) 0x1 tr"

definition hw_mm_channel_disable :: "u32 \<Rightarrow> bool \<Rightarrow> trace \<Rightarrow> trace" where
  "hw_mm_channel_disable channel c2h tr =
     write_reg (mm_control_base c2h + channel * 0x100) 0 tr"

definition hw_set_fmap :: "u8 \<Rightarrow> u32 \<Rightarrow> u32 \<Rightarrow> trace \<Rightarrow> trace" where
  "hw_set_fmap func_id qbase qmax tr =
     write_reg (QDMA_REG_TRQ_SEL_FMAP_BASE + ucast func_id * 0x4)
       (push_bit 0 qbase OR push_bit 11 qmax) tr"

section \<open>Indirect context programming\<close>

datatype ind_ctxt_cmd_op =
  QDMA_CTXT_CMD_CLR | QDMA_CTXT_CMD_WR | QDMA_CTXT_CMD_RD | QDMA_CTXT_CMD_INV

fun ctxt_op_code :: "ind_ctxt_cmd_op \<Rightarrow> u32" where
  "ctxt_op_code QDMA_CTXT_CMD_CLR = 0"
| "ctxt_op_code QDMA_CTXT_CMD_WR = 1"
| "ctxt_op_code QDMA_CTXT_CMD_RD = 2"
| "ctxt_op_code QDMA_CTXT_CMD_INV = 3"

datatype ind_ctxt_cmd_sel =
    QDMA_CTXT_SEL_SW_C2H | QDMA_CTXT_SEL_SW_H2C | QDMA_CTXT_SEL_HW_C2H | QDMA_CTXT_SEL_HW_H2C
  | QDMA_CTXT_SEL_CR_C2H | QDMA_CTXT_SEL_CR_H2C | QDMA_CTXT_SEL_WRB | QDMA_CTXT_SEL_PFTCH
  | QDMA_CTXT_SEL_COAL | QDMA_CTXT_SEL_PASID_RAM_LOW | QDMA_CTXT_SEL_PASID_RAM_HIGH
  | QDMA_CTXT_SEL_TIMER | QDMA_CTXT_SEL_QID2VEC

fun ctxt_sel_code :: "ind_ctxt_cmd_sel \<Rightarrow> u32" where
  "ctxt_sel_code QDMA_CTXT_SEL_SW_C2H = 0"
| "ctxt_sel_code QDMA_CTXT_SEL_SW_H2C = 1"
| "ctxt_sel_code QDMA_CTXT_SEL_HW_C2H = 2"
| "ctxt_sel_code QDMA_CTXT_SEL_HW_H2C = 3"
| "ctxt_sel_code QDMA_CTXT_SEL_CR_C2H = 4"
| "ctxt_sel_code QDMA_CTXT_SEL_CR_H2C = 5"
| "ctxt_sel_code QDMA_CTXT_SEL_WRB = 6"
| "ctxt_sel_code QDMA_CTXT_SEL_PFTCH = 7"
| "ctxt_sel_code QDMA_CTXT_SEL_COAL = 8"
| "ctxt_sel_code QDMA_CTXT_SEL_PASID_RAM_LOW = 9"
| "ctxt_sel_code QDMA_CTXT_SEL_PASID_RAM_HIGH = 10"
| "ctxt_sel_code QDMA_CTXT_SEL_TIMER = 11"
| "ctxt_sel_code QDMA_CTXT_SEL_QID2VEC = 12"

definition ctxt_cmd :: "u32 \<Rightarrow> ind_ctxt_cmd_op \<Rightarrow> ind_ctxt_cmd_sel \<Rightarrow> u32" where
  "ctxt_cmd qid_hw op sel =
     push_bit 7 qid_hw OR push_bit 5 (ctxt_op_code op) OR push_bit 1 (ctxt_sel_code sel)"

text \<open>
  \<open>hw_indirect_ctext_prog\<close>; the buffer \<open>data\<close> is \<open>None\<close> for a null pointer, and the
  second component of the result is the buffer afterwards.  On success the function returns
  what \<open>hw_monitor_reg\<close> returned, which is 1.
\<close>

definition ctxt_args_bad :: "ind_ctxt_cmd_op \<Rightarrow> u32 list option \<Rightarrow> nat \<Rightarrow> bool" where
  "ctxt_args_bad op data cnt \<longleftrightarrow>
     (op = QDMA_CTXT_CMD_WR \<or> op = QDMA_CTXT_CMD_RD) \<and> (cnt = 0 \<or> cnt > 4 \<or> data = None)"

definition ctxt_fill ::
  "ind_ctxt_cmd_op \<Rightarrow> u32 list option \<Rightarrow> nat \<Rightarrow> trace \<Rightarrow> trace" where
  "ctxt_fill op data cnt tr =
     (if op = QDMA_CTXT_CMD_WR \<or> op = QDMA_CTXT_CMD_RD then
        let tr = write_regs QDMA_REG_IND_CTXT_MASK_BASE (replicate 4 0xFFFFFFFF) tr in
        if op = QDMA_CTXT_CMD_WR then
          write_regs QDMA_REG_IND_CTXT_DATA_BASE
            (take cnt (the data) @ replicate (4 - cnt) 0) tr
        else tr
      else tr)"

definition ctxt_issue ::
  "env \<Rightarrow> u32 \<Rightarrow> ind_ctxt_cmd_op \<Rightarrow> ind_ctxt_cmd_sel \<Rightarrow> trace \<Rightarrow> int \<times> trace" where
  "ctxt_issue E qid_hw op sel tr =
     (let tr = write_reg QDMA_REG_IND_CTXT_CMD (ctxt_cmd qid_hw op sel) tr
      in hw_monitor_reg E QDMA_REG_IND_CTXT_CMD IND_CTXT_CMD_BUSY_MASK 0 100 (500 * 1000) tr)"

definition hw_indirect_ctext_prog ::
  "env \<Rightarrow> u32 \<Rightarrow> ind_ctxt_cmd_op \<Rightarrow> ind_ctxt_cmd_sel \<Rightarrow> u32 list option \<Rightarrow> nat \<Rightarrow> bool
     \<Rightarrow> trace \<Rightarrow> int \<times> u32 list option \<times> trace" where
  "hw_indirect_ctext_prog E qid_hw op sel data cnt verify tr =
     (if ctxt_args_bad op data cnt then (- EINVAL, data, tr)
      else
        let (rv, tr) = ctxt_issue E qid_hw op sel (ctxt_fill op data cnt tr) in
        if rv < 0 then (- EBUSY, data, tr)
        else if op = QDMA_CTXT_CMD_RD then
          let (vs, tr) = read_regs E QDMA_REG_IND_CTXT_DATA_BASE cnt tr
          in (rv, Some (vs @ drop cnt (the data)), tr)
        else if \<not> verify then (rv, data, tr)
        else
          let (rv, tr) = ctxt_issue E qid_hw QDMA_CTXT_CMD_RD sel tr in
          if rv < 0 then (rv, data, tr)
          else
            let (rd, tr) = read_regs E QDMA_REG_IND_CTXT_DATA_BASE cnt tr in
            if take cnt (the data) \<noteq> rd then (- EBUSY, data, tr) else (rv, data, tr))"

section \<open>What polling does\<close>

text \<open>The events of a poll that read the values \<open>vs\<close> (oldest first), newest first.\<close>

fun poll_events :: "u32 \<Rightarrow> u32 \<Rightarrow> u32 list \<Rightarrow> trace" where
  "poll_events reg interval [] = []"
| "poll_events reg interval [v] = [ReadReg reg v]"
| "poll_events reg interval (v # vs) = poll_events reg interval vs @ [Udelay interval, ReadReg reg v]"

text \<open>The reads a loop entered with \<open>count\<close> makes before its last look.\<close>

definition poll_limit :: "u32 \<Rightarrow> nat" where
  "poll_limit count = Suc (unat (count - 1))"

lemma poll_limit_zero: "poll_limit 0 = 2 ^ 32"
  by (simp add: poll_limit_def unsigned_minus_1_eq_mask mask_eq_exp_minus_1)

lemma poll_limit_pos: "count \<noteq> 0 \<Longrightarrow> poll_limit count = unat count"
  by (metis Suc_pred' poll_limit_def unat_gt_0 unat_minus_one)

lemma poll_limit_dec: "count - 1 \<noteq> 0 \<Longrightarrow> poll_limit count = Suc (poll_limit (count - 1))"
  by (metis poll_limit_def poll_limit_pos)

definition poll_result :: "env \<Rightarrow> u32 \<Rightarrow> u32 \<Rightarrow> u32 \<Rightarrow> u32 \<Rightarrow> nat \<Rightarrow> trace \<Rightarrow> int \<times> trace \<Rightarrow> bool" where
  "poll_result E reg msk val interval limit tr res \<longleftrightarrow>
     (\<exists>vs. vs \<noteq> [] \<and> snd res = poll_events reg interval vs @ tr
        \<and> list_all (\<lambda>v. v AND msk \<noteq> val) (butlast vs)
        \<and> (if last vs AND msk = val then fst res = 1 \<and> length vs \<le> Suc limit
           else fst res = - EBUSY \<and> length vs = Suc limit))"

lemma monitor_loop_result:
  "poll_result E reg msk val interval (poll_limit count) tr
     (monitor_loop E reg msk val interval count tr)"
proof (induction E reg msk val interval count tr rule: monitor_loop.induct)
  case (1 E reg msk val interval count tr)
  define v where "v = env_readl E tr reg"
  define tr1 where "tr1 = Udelay interval # ReadReg reg v # tr"
  have unf: "monitor_loop E reg msk val interval count tr =
      (if v AND msk = val then (1, ReadReg reg v # tr)
       else if count - 1 \<noteq> 0 then monitor_loop E reg msk val interval (count - 1) tr1
       else (if env_readl E tr1 reg AND msk = val then 1 else - EBUSY,
             ReadReg reg (env_readl E tr1 reg) # tr1))"
    by (subst monitor_loop.simps) (simp add: read_reg_def v_def tr1_def Let_def)
  consider "v AND msk = val" | "v AND msk \<noteq> val" "count - 1 \<noteq> 0"
    | "v AND msk \<noteq> val" "count - 1 = 0" by blast
  then show ?case
  proof cases
    case 1
    then show ?thesis unfolding poll_result_def unf by (intro exI [of _ "[v]"]) simp
  next
    case 2
    have "poll_result E reg msk val interval (poll_limit (count - 1)) tr1
        (monitor_loop E reg msk val interval (count - 1) tr1)"
      using 2 by (intro "1.IH" [of "read_reg E reg tr" v "ReadReg reg v # tr" tr1 "count - 1"])
        (simp_all add: read_reg_def v_def tr1_def Let_def)
    then obtain vs where vs: "vs \<noteq> []"
      and ev: "snd (monitor_loop E reg msk val interval (count - 1) tr1)
        = poll_events reg interval vs @ tr1"
      and rest: "list_all (\<lambda>v. v AND msk \<noteq> val) (butlast vs)"
        "if last vs AND msk = val
         then fst (monitor_loop E reg msk val interval (count - 1) tr1) = 1
           \<and> length vs \<le> Suc (poll_limit (count - 1))
         else fst (monitor_loop E reg msk val interval (count - 1) tr1) = - EBUSY
           \<and> length vs = Suc (poll_limit (count - 1))"
      unfolding poll_result_def by blast
    have "poll_events reg interval (v # vs) @ tr = poll_events reg interval vs @ tr1"
      using vs by (cases vs) (simp_all add: tr1_def)
    then show ?thesis
      unfolding poll_result_def unf using 2 vs ev rest
      by (intro exI [of _ "v # vs"]) (simp add: poll_limit_dec split: if_splits)
  next
    case 3
    then have "poll_limit count = 1" by (simp add: poll_limit_def)
    with 3 show ?thesis
      unfolding poll_result_def unf
      by (intro exI [of _ "[v, env_readl E tr1 reg]"]) (simp add: tr1_def)
  qed
qed

lemma hw_monitor_reg_idle:
  assumes "env_readl E tr reg AND msk = val"
  shows "hw_monitor_reg E reg msk val i t tr = (1, ReadReg reg (env_readl E tr reg) # tr)"
  unfolding hw_monitor_reg_def Let_def
  by (subst monitor_loop.simps) (simp add: read_reg_def assms Let_def)

lemma writes_of_poll_events [trace_simps]: "writes_of (poll_events reg i vs) = []"
  by (induction reg i vs rule: poll_events.induct) (simp_all add: writes_of_append)

lemma writes_of_hw_monitor_reg [trace_simps]:
  "writes_of (snd (hw_monitor_reg E reg msk val i t tr)) = writes_of tr"
proof -
  have "writes_of (snd (monitor_loop E reg msk val i' c tr)) = writes_of tr" for i' c
    using monitor_loop_result [of E reg msk val i' c tr]
    by (auto simp: poll_result_def trace_simps)
  then show ?thesis by (simp add: hw_monitor_reg_def Let_def)
qed

lemma hw_monitor_reg_values: "fst (hw_monitor_reg E reg msk val i t tr) \<in> {1, - EBUSY}"
proof -
  have "fst (monitor_loop E reg msk val i' c tr) \<in> {1, - EBUSY}" for i' c
    using monitor_loop_result [of E reg msk val i' c tr]
    by (auto simp: poll_result_def split: if_splits)
  then show ?thesis by (simp add: hw_monitor_reg_def Let_def)
qed

text \<open>
  \<open>hw_monitor_reg\<close> with a non-zero interval and timeout reads the register until the
  masked value matches and returns 1 exactly then; it returns \<open>-EBUSY\<close> only after
  \<open>timeout / interval\<close> delays and one read more, none of which matched; when the timeout is
  shorter than the interval the limit is \<open>2^32\<close> reads instead of 0.
\<close>

theorem hw_monitor_reg_outcome:
  assumes "interval \<noteq> 0" "timeout \<noteq> 0"
  shows "poll_result E reg msk val interval
    (if timeout < interval then 2 ^ 32 else unat timeout div unat interval) tr
    (hw_monitor_reg E reg msk val interval timeout tr)"
proof -
  have "poll_limit (timeout div interval) =
      (if timeout < interval then 2 ^ 32 else unat timeout div unat interval)"
  proof (cases "timeout < interval")
    case True
    then have "timeout div interval = 0"
      by (simp add: word_unat_eq_iff unat_div_distrib word_less_nat_alt)
    with True show ?thesis by (simp add: poll_limit_zero)
  next
    case False
    then have "unat timeout div unat interval \<noteq> 0"
      using assms by (simp add: word_less_nat_alt div_eq_0_iff unat_eq_0)
    then have "timeout div interval \<noteq> 0"
      by (metis unat_0 unat_div_distrib)
    with False show ?thesis by (simp add: poll_limit_pos unat_div_distrib)
  qed
  then show ?thesis
    using monitor_loop_result [of E reg msk val interval "timeout div interval" tr] assms
    by (simp add: hw_monitor_reg_def Let_def)
qed

theorem hw_monitor_reg_outcome_witness:
  "poll_result plain_env 8 1 0 100 5 [WriteReg 8 3] (hw_monitor_reg plain_env 8 1 0 100 500 [WriteReg 8 3])"
  using hw_monitor_reg_outcome [of 100 500 plain_env 8 1 0 "[WriteReg 8 3]"] by simp

section \<open>Setting and reading the control registers\<close>

lemmas csr_regs = QDMA_REG_GLBL_WB_ACC_def QDMA_REG_GLBL_RNG_SZ_BASE_def
  QDMA_REG_C2H_BUF_SZ_BASE_def QDMA_REG_C2H_TIMER_CNT_BASE_def QDMA_REG_C2H_CNT_TH_BASE_def

lemma csr_after_set:
  assumes "\<not> hndl_bad devs xdev" "xd_func_id xdev = 0"
    and "length (csr_ring_sz csr) = 16" "length (csr_c2h_buf_sz csr) = 16"
    and "length (csr_c2h_timer_cnt csr) = 16" "length (csr_c2h_cnt_th csr) = 16"
    and "qdma_global_csr_set devs xdev csr tr = (rv, tr')"
  shows "rv = 0 \<and> last_written tr' QDMA_REG_GLBL_WB_ACC = csr_wb_acc csr"
    and "i < 16 \<Longrightarrow> last_written tr' (QDMA_REG_GLBL_RNG_SZ_BASE + 4 * of_nat i) = csr_ring_sz csr ! i"
    and "i < 16 \<Longrightarrow> last_written tr' (QDMA_REG_C2H_BUF_SZ_BASE + 4 * of_nat i) = csr_c2h_buf_sz csr ! i"
    and "i < 16 \<Longrightarrow> last_written tr' (QDMA_REG_C2H_TIMER_CNT_BASE + 4 * of_nat i)
      = csr_c2h_timer_cnt csr ! i"
    and "i < 16 \<Longrightarrow> last_written tr' (QDMA_REG_C2H_CNT_TH_BASE + 4 * of_nat i) = csr_c2h_cnt_th csr ! i"
proof -
  have tr': "rv = 0" "tr' = write_regs 0xA40 (csr_c2h_cnt_th csr) (write_regs 0xA00 (csr_c2h_timer_cnt csr)
      (write_regs 0xAB0 (csr_c2h_buf_sz csr) (write_regs 0x204 (csr_ring_sz csr)
        (write_reg 0x250 (csr_wb_acc csr) tr))))"
    using assms by (simp_all add: qdma_global_csr_set_def Let_def csr_regs QDMA_GLOBAL_CSR_ARRAY_SZ_def)
  note out = last_written_write_regs_out last_written_write_regs
  show "rv = 0 \<and> last_written tr' QDMA_REG_GLBL_WB_ACC = csr_wb_acc csr"
    using assms(3-6) by (simp add: tr' csr_regs out write_reg_def)
  show "last_written tr' (QDMA_REG_GLBL_RNG_SZ_BASE + 4 * of_nat i) = csr_ring_sz csr ! i" if "i < 16"
    using assms(3-6) that unat_reg_step [of i 16 "0x204"]
    by (simp add: tr' csr_regs out)
  show "last_written tr' (QDMA_REG_C2H_BUF_SZ_BASE + 4 * of_nat i) = csr_c2h_buf_sz csr ! i" if "i < 16"
    using assms(3-6) that unat_reg_step [of i 16 "0xAB0"]
    by (simp add: tr' csr_regs out)
  show "last_written tr' (QDMA_REG_C2H_TIMER_CNT_BASE + 4 * of_nat i) = csr_c2h_timer_cnt csr ! i" if "i < 16"
    using assms(3-6) that unat_reg_step [of i 16 "0xA00"]
    by (simp add: tr' csr_regs out)
  show "last_written tr' (QDMA_REG_C2H_CNT_TH_BASE + 4 * of_nat i) = csr_c2h_cnt_th csr ! i" if "i < 16"
    using assms(3-6) that unat_reg_step [of i 16 "0xA40"]
    by (simp add: tr' csr_regs out)
qed

lemmas csr_get_defs = qdma_global_csr_get_def qdma_csr_read_wbacc_def
  qdma_csr_read_rngsz_def qdma_csr_read_bufsz_def qdma_csr_read_timer_cnt_def
  qdma_csr_read_cnt_thresh_def QDMA_GLOBAL_CSR_ARRAY_SZ_def

text \<open>
  On registers that keep the value written to them, \<open>qdma_global_csr_set\<close> by the master
  function succeeds and \<open>qdma_global_csr_get\<close> afterwards returns every one of the 65 values
  that were set.
\<close>

theorem csr_set_get:
  assumes "\<not> hndl_bad devs xdev" "xd_func_id xdev = 0" "env_readl E = last_written"
    and "length (csr_ring_sz csr) = 16" "length (csr_c2h_buf_sz csr) = 16"
    and "length (csr_c2h_timer_cnt csr) = 16" "length (csr_c2h_cnt_th csr) = 16"
  shows "case qdma_global_csr_set devs xdev csr tr of (rv, tr') \<Rightarrow>
    case qdma_global_csr_get E devs xdev csr0 tr' of (rv', csr', tr'') \<Rightarrow>
      rv = 0 \<and> rv' = 0 \<and> csr' = csr"
proof -
  obtain rv tr' where set: "qdma_global_csr_set devs xdev csr tr = (rv, tr')" by fastforce
  note after = csr_after_set [OF assms(1,2,4-7) set]
  have rd: "fst (read_regs E r n t) = vs"
    if "length vs = n" "last_written t = last_written tr'"
      "\<And>i. i < n \<Longrightarrow> last_written tr' (r + 4 * of_nat i) = vs ! i" for r n t vs
    using that by (intro read_regs_back assms(3)) simp_all
  have "fst (read_reg E QDMA_REG_GLBL_WB_ACC tr') = csr_wb_acc csr"
    using after(1) by (simp add: read_reg_def assms(3) Let_def)
  then show ?thesis
    using assms(1,4-7) after
    by (simp add: set csr_get_defs Let_def split_beta rd last_written_read_regs [OF assms(3)]
        last_written_read_reg)
qed

definition sample_dev :: xlnx_dma_dev where
  "sample_dev = \<lparr>xd_addr = 7, xd_conf = \<lparr>dc_pdev = 5, dc_qsets_max = 0, dc_poll_mode = False,
     dc_intr_agg = False, dc_isr_top_q_en = False, dc_vf_max = 0, dc_intr_rngsz = 0,
     dc_msix_qvec_max = 0, dc_idx = 0, dc_qsets_base = 0, dc_master_pf = True,
     dc_fp_user_isr = False, dc_fp_isr_top_dev = False, dc_bar_num_user = -1\<rparr>, xd_flags = 0, xd_flr_prsnt = True,
     xd_st_mode_en = True, xd_mm_mode_en = True, xd_vf_info = [], xd_vf_count = 0,
     xd_func_id = 0, xd_func_id_parent = 0, xd_pf_count = 0, xd_mm_channel_max = 1,
     xd_m_req = replicate 32 0, xd_m_resp = replicate 32 0, xd_num_vecs = 0,
     xd_intr_list_cnt = replicate 8 0, xd_dvec_start_idx = 0, xd_intr_vec_map = [],
     xd_intr_coal_en = False, xd_intr_coal_list = [], xd_qbase = 0, xd_qmax = 0\<rparr>"

lemma sample_dev_hndl: "\<not> hndl_bad [sample_dev] sample_dev"
  by (simp add: hndl_bad_iff sample_dev_def xdev_find_by_pdev_def)

definition sample_csr :: global_csr_conf where
  "sample_csr = \<lparr>csr_ring_sz = replicate 16 2049, csr_c2h_timer_cnt = replicate 16 5,
     csr_c2h_cnt_th = replicate 16 64, csr_c2h_buf_sz = replicate 16 4096, csr_wb_acc = 1\<rparr>"

theorem csr_set_get_witness:
  "case qdma_global_csr_set [sample_dev] sample_dev sample_csr [] of (rv, tr') \<Rightarrow>
    case qdma_global_csr_get plain_env [sample_dev] sample_dev sample_csr tr' of (rv', csr', tr'') \<Rightarrow>
      rv = 0 \<and> rv' = 0 \<and> csr' = sample_csr"
  by (rule csr_set_get [OF sample_dev_hndl]) (simp_all add: sample_dev_def sample_csr_def)

section \<open>Function map\<close>

text \<open>
  \<open>hw_set_fmap\<close> makes one register write, to the function's own map register; for a base
  below \<open>2^11\<close> and a count below \<open>2^12\<close> the two fields of the value are the base and the
  count, neither disturbs the other.
\<close>

theorem hw_set_fmap_fields:
  assumes "qbase < 2048" "qmax < 4096"
  shows "\<exists>v. hw_set_fmap func_id qbase qmax tr = WriteReg (0x400 + 4 * ucast func_id) v # tr
    \<and> v AND 0x7FF = qbase \<and> drop_bit 11 v AND 0xFFF = qmax"
proof -
  have m: "(0x7FF :: u32) = mask 11" "(0xFFF :: u32) = mask 12"
    by (simp_all add: mask_eq_exp_minus_1)
  have b: "unat qbase < 2 ^ 11" "unat qmax < 2 ^ 12"
    using assms by (simp_all add: word_less_nat_alt)
  then have "take_bit 11 (qbase OR push_bit 11 qmax) = qbase"
    "take_bit 12 (drop_bit 11 (qbase OR push_bit 11 qmax)) = qmax"
    by (simp_all only: field_low field_high take_bit_u32_self)
  then show ?thesis
    by (simp add: hw_set_fmap_def write_reg_def QDMA_REG_TRQ_SEL_FMAP_BASE_def m mult.commute
        take_bit_eq_mask del: take_bit_or)
qed

theorem hw_set_fmap_fields_witness:
  "\<exists>v. hw_set_fmap 3 1024 8 [] = [WriteReg (0x400 + 4 * ucast (3 :: u8)) v]
    \<and> v AND 0x7FF = 1024 \<and> drop_bit 11 v AND 0xFFF = 8"
  using hw_set_fmap_fields [of 1024 8 3 "[]"] by simp

section \<open>The context command and the device it drives\<close>

lemma ctxt_codes: "unat (ctxt_op_code op) < 4" "unat (ctxt_sel_code sel) < 16"
  by (cases op; simp) (cases sel; simp)

text \<open>The fields of the command word, by the masks of \<open>qdma_regs.h\<close>.\<close>

definition cmd_qid :: "u32 \<Rightarrow> u32" where "cmd_qid v = drop_bit 7 v AND 0x7FF"
definition cmd_op :: "u32 \<Rightarrow> u32" where "cmd_op v = drop_bit 5 v AND 0x3"
definition cmd_sel :: "u32 \<Rightarrow> u32" where "cmd_sel v = drop_bit 1 v AND 0xF"

lemma ctxt_cmd_fields:
  assumes "unat qid < 2 ^ 11"
  shows "cmd_qid (ctxt_cmd qid op sel) = qid" "cmd_op (ctxt_cmd qid op sel) = ctxt_op_code op"
    "cmd_sel (ctxt_cmd qid op sel) = ctxt_sel_code sel"
proof -
  have m: "(0x7FF :: u32) = mask 11" "(0x3 :: u32) = mask 2" "(0xF :: u32) = mask 4"
    by (simp_all add: mask_eq_exp_minus_1)
  have o2: "unat (ctxt_op_code op) < 2 ^ 2" and s4: "unat (ctxt_sel_code sel) < 2 ^ 4"
    using ctxt_codes(1) [of op] ctxt_codes(2) [of sel] by simp_all
  note f = fields3 [OF assms o2 s4, of 1 5 7]
  show "cmd_qid (ctxt_cmd qid op sel) = qid"
    unfolding cmd_qid_def ctxt_cmd_def m by (rule f) simp_all
  show "cmd_op (ctxt_cmd qid op sel) = ctxt_op_code op"
    unfolding cmd_op_def ctxt_cmd_def m by (rule f) simp_all
  show "cmd_sel (ctxt_cmd qid op sel) = ctxt_sel_code sel"
    unfolding cmd_sel_def ctxt_cmd_def m by (rule f) simp_all
qed

lemma ctxt_op_code_inject: "ctxt_op_code a = ctxt_op_code b \<longleftrightarrow> a = b"
  by (cases a; cases b) simp_all

lemma ctxt_sel_code_inject: "ctxt_sel_code a = ctxt_sel_code b \<longleftrightarrow> a = b"
  by (cases a; cases b) simp_all

text \<open>
  What the hardware does with the commands, as the driver relies on it: a context memory of
  four words per queue and kind; a write command stores the data registers under the mask, a
  read command loads them, a clear command zeroes the entry, and what an invalidation leaves is
  a parameter.  The state is a function of the trace.
\<close>

record ctxt_dev =
  cd_reg :: "u32 \<Rightarrow> u32"
  cd_mem :: "u32 \<Rightarrow> u32 \<Rightarrow> u32 list"

definition cd_data :: "ctxt_dev \<Rightarrow> u32 list" where
  "cd_data d = map (\<lambda>i. cd_reg d (0x804 + 4 * of_nat i)) [0..<4]"

definition cd_mask :: "ctxt_dev \<Rightarrow> u32 list" where
  "cd_mask d = map (\<lambda>i. cd_reg d (0x814 + 4 * of_nat i)) [0..<4]"

definition cd_command :: "(u32 list \<Rightarrow> u32 list) \<Rightarrow> u32 \<Rightarrow> ctxt_dev \<Rightarrow> ctxt_dev" where
  "cd_command ivd v d =
     (let sel = cmd_sel v; qid = cmd_qid v; old = cd_mem d sel qid;
          put = (\<lambda>ws. d\<lparr>cd_mem := (cd_mem d)(sel := (cd_mem d sel)(qid := ws))\<rparr>)
      in if cmd_op v = 0 then put (replicate 4 0)
         else if cmd_op v = 1 then
           put (map2 (OR) (map2 (AND) (cd_data d) (cd_mask d))
                          (map2 (AND) old (map NOT (cd_mask d))))
         else if cmd_op v = 2 then
           d\<lparr>cd_reg := (cd_reg d)(0x804 := old ! 0, 0x808 := old ! 1, 0x80C := old ! 2, 0x810 := old ! 3)\<rparr>
         else put (ivd old))"

fun ctxt_dev_of :: "(u32 list \<Rightarrow> u32 list) \<Rightarrow> trace \<Rightarrow> ctxt_dev" where
  "ctxt_dev_of ivd [] = \<lparr>cd_reg = (\<lambda>r. 0), cd_mem = (\<lambda>sel qid. replicate 4 0)\<rparr>"
| "ctxt_dev_of ivd (WriteReg r v # tr) =
     (if r = 0x824 then cd_command ivd v (ctxt_dev_of ivd tr)
      else (ctxt_dev_of ivd tr)\<lparr>cd_reg := (cd_reg (ctxt_dev_of ivd tr))(r := v)\<rparr>)"
| "ctxt_dev_of ivd (_ # tr) = ctxt_dev_of ivd tr"

text \<open>The environment of such a device: commands finish by the time they are polled.\<close>

definition ctxt_device :: "(u32 list \<Rightarrow> u32 list) \<Rightarrow> env \<Rightarrow> bool" where
  "ctxt_device ivd E \<longleftrightarrow> (\<forall>ws. length ws = 4 \<longrightarrow> length (ivd ws) = 4) \<and>
     (\<forall>tr. env_readl E tr 0x824 AND 1 = 0) \<and>
     (\<forall>tr r. r \<in> {0x804, 0x808, 0x80C, 0x810} \<longrightarrow> env_readl E tr r = cd_reg (ctxt_dev_of ivd tr) r)"

lemma length_cd [simp]: "length (cd_data d) = 4" "length (cd_mask d) = 4"
  by (simp_all add: cd_data_def cd_mask_def)

lemma length_cd_mem:
  assumes "\<forall>ws. length ws = 4 \<longrightarrow> length (ivd ws) = 4"
  shows "length (cd_mem (ctxt_dev_of ivd tr) sel qid) = 4"
proof (induction tr)
  case (Cons e tr)
  then show ?case using assms by (cases e) (auto simp: cd_command_def Let_def)
qed simp


subsection \<open>Steps of the device\<close>

lemma ctxt_dev_read [simp]: "ctxt_dev_of ivd (ReadReg r v # tr) = ctxt_dev_of ivd tr"
  by simp

lemma ctxt_dev_read_regs: "ctxt_dev_of ivd (snd (read_regs E r n tr)) = ctxt_dev_of ivd tr"
proof (induction n arbitrary: r tr)
  case (Suc n)
  then show ?case
    using Suc.IH [of "r + 4" "snd (read_reg E r tr)"]
    by (simp add: read_reg_def Let_def split_beta)
qed simp

lemma ctxt_dev_issue:
  assumes "ctxt_device ivd E"
  shows "\<exists>v. ctxt_issue E qid op sel tr = (1, ReadReg 0x824 v # WriteReg 0x824 (ctxt_cmd qid op sel) # tr)"
  using assms
  by (auto simp: ctxt_issue_def ctxt_device_def hw_monitor_reg_idle write_reg_def
      QDMA_REG_IND_CTXT_CMD_def IND_CTXT_CMD_BUSY_MASK_def Let_def)

lemma ctxt_dev_rd_mem:
  assumes "unat qid < 2 ^ 11"
  shows "cd_mem (cd_command ivd (ctxt_cmd qid QDMA_CTXT_CMD_RD sel) d) = cd_mem d"
  by (simp add: cd_command_def Let_def ctxt_cmd_fields [OF assms])

text \<open>Filling mask and data and issuing the write command stores the data.\<close>

definition ctxt_padded :: "u32 list \<Rightarrow> nat \<Rightarrow> u32 list" where
  "ctxt_padded data cnt = take cnt data @ replicate (4 - cnt) 0"

lemma length_ctxt_padded:
  "\<lbrakk>cnt \<le> 4; cnt \<le> length data\<rbrakk> \<Longrightarrow> length (ctxt_padded data cnt) = 4"
  by (simp add: ctxt_padded_def)

lemma ctxt_fill_wr:
  assumes "length (ctxt_padded data cnt) = 4"
  shows "cd_data (ctxt_dev_of ivd (ctxt_fill QDMA_CTXT_CMD_WR (Some data) cnt tr)) = ctxt_padded data cnt"
    and "cd_mask (ctxt_dev_of ivd (ctxt_fill QDMA_CTXT_CMD_WR (Some data) cnt tr)) = replicate 4 0xFFFFFFFF"
proof -
  obtain a b c d where w: "ctxt_padded data cnt = [a, b, c, d]"
    using list4 [OF assms] by blast
  have r: "replicate 4 (0xFFFFFFFF :: u32) = [0xFFFFFFFF, 0xFFFFFFFF, 0xFFFFFFFF, 0xFFFFFFFF]"
    by (simp add: numeral_eq_Suc)
  have fill: "ctxt_fill QDMA_CTXT_CMD_WR (Some data) cnt tr =
      write_regs 0x804 [a, b, c, d] (write_regs 0x814 (replicate 4 0xFFFFFFFF) tr)"
    using w by (simp add: ctxt_fill_def ctxt_padded_def Let_def QDMA_REG_IND_CTXT_MASK_BASE_def
        QDMA_REG_IND_CTXT_DATA_BASE_def)
  show "cd_data (ctxt_dev_of ivd (ctxt_fill QDMA_CTXT_CMD_WR (Some data) cnt tr)) = ctxt_padded data cnt"
    unfolding w fill r by (simp add: cd_data_def write_reg_def upt_rec)
  show "cd_mask (ctxt_dev_of ivd (ctxt_fill QDMA_CTXT_CMD_WR (Some data) cnt tr)) = replicate 4 0xFFFFFFFF"
    unfolding fill r by (simp add: cd_mask_def write_reg_def upt_rec)
qed

lemma ctxt_masked_store:
  assumes "length ws = 4" "length old = 4"
  shows "map2 (OR) (map2 (AND) ws (replicate 4 (0xFFFFFFFF :: u32)))
    (map2 (AND) old (map NOT (replicate 4 0xFFFFFFFF))) = ws"
proof -
  obtain a b c d where "ws = [a, b, c, d]" using list4 [OF assms(1)] by blast
  moreover obtain e f g h where "old = [e, f, g, h]" using list4 [OF assms(2)] by blast
  moreover have "replicate 4 (0xFFFFFFFF :: u32) = [- 1, - 1, - 1, - 1]"
  proof -
    have m1: "(0xFFFFFFFF :: u32) = - 1" by simp
    show ?thesis unfolding m1 by (simp add: numeral_eq_Suc)
  qed
  ultimately show ?thesis by simp
qed

lemma ctxt_write_stores:
  assumes dev: "\<forall>ws. length ws = 4 \<longrightarrow> length (ivd ws) = 4"
    and "unat qid < 2 ^ 11" "length (ctxt_padded data cnt) = 4"
  shows "cd_mem (ctxt_dev_of ivd (WriteReg 0x824 (ctxt_cmd qid QDMA_CTXT_CMD_WR sel) #
      ctxt_fill QDMA_CTXT_CMD_WR (Some data) cnt tr)) (ctxt_sel_code sel) qid = ctxt_padded data cnt"
  using ctxt_fill_wr [OF assms(3)] ctxt_masked_store [OF assms(3) length_cd_mem [OF dev]]
  by (simp add: cd_command_def Let_def ctxt_cmd_fields [OF assms(2)])

text \<open>Issuing the read command and reading the data registers yields the stored entry.\<close>

lemma ctxt_read_loads:
  assumes dev: "ctxt_device ivd E" and "unat qid < 2 ^ 11" "n \<le> 4"
    and ent: "cd_mem (ctxt_dev_of ivd tr) (ctxt_sel_code sel) qid = ws" "length ws = 4"
    and tr': "ctxt_dev_of ivd tr' = ctxt_dev_of ivd (WriteReg 0x824 (ctxt_cmd qid QDMA_CTXT_CMD_RD sel) # tr)"
  shows "fst (read_regs E 0x804 n tr') = take n ws"
proof -
  obtain a b c d where w: "ws = [a, b, c, d]" using list4 [OF ent(2)] by blast
  have reg: "env_readl E t r = cd_reg (ctxt_dev_of ivd tr') r"
    if "ctxt_dev_of ivd t = ctxt_dev_of ivd tr'" "r \<in> {0x804, 0x808, 0x80C, 0x810}" for t r
    using dev that unfolding ctxt_device_def by metis
  have vals: "cd_reg (ctxt_dev_of ivd tr') 0x804 = a" "cd_reg (ctxt_dev_of ivd tr') 0x808 = b"
    "cd_reg (ctxt_dev_of ivd tr') 0x80C = c" "cd_reg (ctxt_dev_of ivd tr') 0x810 = d"
    using ent w by (simp_all add: tr' cd_command_def Let_def ctxt_cmd_fields [OF assms(2)])
  have "n \<in> {0, 1, 2, 3, 4}" using assms(3) by auto
  then show ?thesis
    by (auto simp: w numeral_eq_Suc read_reg_def Let_def reg vals)
qed

subsection \<open>The programming function against the device\<close>

lemmas ctxt_data_regs = QDMA_REG_IND_CTXT_DATA_BASE_def QDMA_REG_IND_CTXT_MASK_BASE_def

lemma ctext_prog_wr:
  assumes dev: "ctxt_device ivd E" and "unat qid < 2 ^ 11"
    and "1 \<le> cnt" "cnt \<le> 4" "cnt \<le> length data"
  shows "\<exists>tr'. hw_indirect_ctext_prog E qid QDMA_CTXT_CMD_WR sel (Some data) cnt verify tr
      = (1, Some data, tr')
    \<and> cd_mem (ctxt_dev_of ivd tr') (ctxt_sel_code sel) qid = ctxt_padded data cnt"
proof -
  define tf where "tf = ctxt_fill QDMA_CTXT_CMD_WR (Some data) cnt tr"
  define ws where "ws = ctxt_padded data cnt"
  have len: "length ws = 4" and dev1: "\<forall>ws. length ws = 4 \<longrightarrow> length (ivd ws) = 4"
    using assms by (simp_all add: ws_def length_ctxt_padded ctxt_device_def)
  obtain v where iss: "ctxt_issue E qid QDMA_CTXT_CMD_WR sel tf
      = (1, ReadReg 0x824 v # WriteReg 0x824 (ctxt_cmd qid QDMA_CTXT_CMD_WR sel) # tf)"
    using ctxt_dev_issue [OF dev] by blast
  define t1 where "t1 = ReadReg 0x824 v # WriteReg 0x824 (ctxt_cmd qid QDMA_CTXT_CMD_WR sel) # tf"
  have ent: "cd_mem (ctxt_dev_of ivd t1) (ctxt_sel_code sel) qid = ws"
    unfolding t1_def tf_def ws_def ctxt_dev_read
    using dev1 assms(2) len by (intro ctxt_write_stores) (simp_all add: ws_def)
  obtain v' where iss2: "ctxt_issue E qid QDMA_CTXT_CMD_RD sel t1
      = (1, ReadReg 0x824 v' # WriteReg 0x824 (ctxt_cmd qid QDMA_CTXT_CMD_RD sel) # t1)"
    using ctxt_dev_issue [OF dev] by blast
  define t2 where "t2 = ReadReg 0x824 v' # WriteReg 0x824 (ctxt_cmd qid QDMA_CTXT_CMD_RD sel) # t1"
  have rd: "fst (read_regs E 0x804 cnt t2) = take cnt data"
    using ctxt_read_loads [OF dev assms(2,4) ent len, of t2] assms
    by (simp add: t2_def ws_def ctxt_padded_def)
  have ent2: "cd_mem (ctxt_dev_of ivd (snd (read_regs E 0x804 cnt t2))) (ctxt_sel_code sel) qid = ws"
    using ent by (simp add: ctxt_dev_read_regs t2_def ctxt_dev_rd_mem [OF assms(2)])
  have ok: "\<not> ctxt_args_bad QDMA_CTXT_CMD_WR (Some data) cnt"
    using assms by (simp add: ctxt_args_bad_def)
  show ?thesis
    using ok iss iss2 rd ent ent2
    by (simp add: hw_indirect_ctext_prog_def Let_def split_beta ctxt_data_regs
        flip: tf_def t1_def t2_def ws_def)
qed

lemma ctext_prog_rd:
  assumes dev: "ctxt_device ivd E" and "unat qid < 2 ^ 11"
    and "1 \<le> n" "n \<le> 4"
    and ent: "cd_mem (ctxt_dev_of ivd tr) (ctxt_sel_code sel) qid = ws" "length ws = 4"
  shows "\<exists>tr'. hw_indirect_ctext_prog E qid QDMA_CTXT_CMD_RD sel (Some buf) n verify tr
      = (1, Some (take n ws @ drop n buf), tr')
    \<and> cd_mem (ctxt_dev_of ivd tr') = cd_mem (ctxt_dev_of ivd tr)"
proof -
  define tf where "tf = ctxt_fill QDMA_CTXT_CMD_RD (Some buf) n tr"
  have r: "replicate 4 (0xFFFFFFFF :: u32) = [0xFFFFFFFF, 0xFFFFFFFF, 0xFFFFFFFF, 0xFFFFFFFF]"
    by (simp add: numeral_eq_Suc)
  have mem: "cd_mem (ctxt_dev_of ivd tf) = cd_mem (ctxt_dev_of ivd tr)"
    unfolding tf_def ctxt_fill_def r by (simp add: ctxt_data_regs write_reg_def)
  obtain v where iss: "ctxt_issue E qid QDMA_CTXT_CMD_RD sel tf
      = (1, ReadReg 0x824 v # WriteReg 0x824 (ctxt_cmd qid QDMA_CTXT_CMD_RD sel) # tf)"
    using ctxt_dev_issue [OF dev] by blast
  define t1 where "t1 = ReadReg 0x824 v # WriteReg 0x824 (ctxt_cmd qid QDMA_CTXT_CMD_RD sel) # tf"
  have rd: "fst (read_regs E 0x804 n t1) = take n ws"
    using ctxt_read_loads [OF dev assms(2,4), of tf sel ws t1] mem ent by (simp add: t1_def)
  have mem1: "cd_mem (ctxt_dev_of ivd (snd (read_regs E 0x804 n t1))) = cd_mem (ctxt_dev_of ivd tr)"
    using mem by (simp add: ctxt_dev_read_regs t1_def ctxt_dev_rd_mem [OF assms(2)])
  have ok: "\<not> ctxt_args_bad QDMA_CTXT_CMD_RD (Some buf) n"
    using assms by (simp add: ctxt_args_bad_def)
  show ?thesis
    using ok iss rd mem1
    by (simp add: hw_indirect_ctext_prog_def Let_def split_beta ctxt_data_regs
        flip: tf_def t1_def)
qed

text \<open>
  On a device with a context memory, \<open>hw_indirect_ctext_prog\<close> writing \<open>cnt\<close> words of a
  context with verification succeeds, and reading the same context of the same queue back
  returns the words that were written, the rest of the four being zero.
\<close>

theorem ctext_prog_roundtrip:
  assumes "ctxt_device ivd E" "unat qid < 2 ^ 11"
    and "1 \<le> cnt" "cnt \<le> 4" "cnt \<le> length data" "1 \<le> n" "n \<le> 4" "length buf = n"
  shows "case hw_indirect_ctext_prog E qid QDMA_CTXT_CMD_WR sel (Some data) cnt True tr of
      (rv, _, tr1) \<Rightarrow>
    case hw_indirect_ctext_prog E qid QDMA_CTXT_CMD_RD sel (Some buf) n False tr1 of
      (rv', buf', tr2) \<Rightarrow>
    rv = 1 \<and> rv' = 1 \<and> buf' = Some (take n (take cnt data @ replicate (4 - cnt) 0))"
proof -
  obtain tr1 where wr: "hw_indirect_ctext_prog E qid QDMA_CTXT_CMD_WR sel (Some data) cnt True tr
      = (1, Some data, tr1)"
    and ent: "cd_mem (ctxt_dev_of ivd tr1) (ctxt_sel_code sel) qid = ctxt_padded data cnt"
    using ctext_prog_wr [OF assms(1-5)] by blast
  obtain tr2 where "hw_indirect_ctext_prog E qid QDMA_CTXT_CMD_RD sel (Some buf) n False tr1
      = (1, Some (take n (ctxt_padded data cnt) @ drop n buf), tr2)"
    using ctext_prog_rd [OF assms(1,2,6,7) ent] assms length_ctxt_padded by blast
  with wr assms(8) show ?thesis by (simp add: ctxt_padded_def)
qed

definition ctxt_env :: env where
  "ctxt_env = plain_env\<lparr>env_readl := (\<lambda>tr r. if r = 0x824 then 0 else cd_reg (ctxt_dev_of id tr) r)\<rparr>"

lemma ctxt_env_device: "ctxt_device id ctxt_env"
  by (simp add: ctxt_device_def ctxt_env_def)

theorem ctext_prog_roundtrip_witness:
  "case hw_indirect_ctext_prog ctxt_env 3 QDMA_CTXT_CMD_WR QDMA_CTXT_SEL_PFTCH (Some [7, 8]) 2 True [] of
      (rv, _, tr1) \<Rightarrow>
    case hw_indirect_ctext_prog ctxt_env 3 QDMA_CTXT_CMD_RD QDMA_CTXT_SEL_PFTCH (Some [1, 1, 1]) 3 False tr1 of
      (rv', buf', tr2) \<Rightarrow> rv = 1 \<and> rv' = 1 \<and> buf' = Some [7, 8, 0]"
proof -
  have data: "take 3 (take 2 [7, 8] @ replicate (4 - 2) 0) = [7, 8, 0 :: u32]"
    by (simp add: numeral_eq_Suc)
  show ?thesis
    unfolding data [symmetric]
    by (rule ctext_prog_roundtrip [OF ctxt_env_device]) simp_all
qed

section \<open>Programming contexts on any device\<close>

lemma ctxt_issue_writes:
  "writes_of (snd (ctxt_issue E qid op sel tr)) = writes_of tr @ [(0x824, ctxt_cmd qid op sel)]"
  by (simp add: ctxt_issue_def trace_simps QDMA_REG_IND_CTXT_CMD_def)

lemma ctxt_issue_values: "fst (ctxt_issue E qid op sel tr) \<in> {1, - EBUSY}"
  unfolding ctxt_issue_def Let_def by (rule hw_monitor_reg_values)

text \<open>The writes that set up a command: all mask bits, then the four data words.\<close>

definition ctxt_setup_writes :: "ind_ctxt_cmd_op \<Rightarrow> u32 list option \<Rightarrow> nat \<Rightarrow> (u32 \<times> u32) list" where
  "ctxt_setup_writes op data cnt =
     (if op = QDMA_CTXT_CMD_WR \<or> op = QDMA_CTXT_CMD_RD
      then [(0x814, 0xFFFFFFFF), (0x818, 0xFFFFFFFF), (0x81C, 0xFFFFFFFF), (0x820, 0xFFFFFFFF)] else [])
     @ (if op = QDMA_CTXT_CMD_WR
        then zip [0x804, 0x808, 0x80C, 0x810] (ctxt_padded (the data) cnt) else [])"

lemma ctxt_fill_writes:
  assumes "\<not> ctxt_args_bad op data cnt" "op = QDMA_CTXT_CMD_WR \<longrightarrow> cnt \<le> length (the data)"
  shows "writes_of (ctxt_fill op data cnt tr) = writes_of tr @ ctxt_setup_writes op data cnt"
proof -
  have r: "replicate 4 (0xFFFFFFFF :: u32) = [0xFFFFFFFF, 0xFFFFFFFF, 0xFFFFFFFF, 0xFFFFFFFF]"
    by (simp add: numeral_eq_Suc)
  show ?thesis
  proof (cases "op = QDMA_CTXT_CMD_WR")
    case True
    then have "length (ctxt_padded (the data) cnt) = 4"
      using assms by (intro length_ctxt_padded) (simp_all add: ctxt_args_bad_def)
    then obtain a b c d where w: "ctxt_padded (the data) cnt = [a, b, c, d]"
      using list4 by blast
    then have w': "take cnt (the data) @ replicate (4 - cnt) 0 = [a, b, c, d]"
      by (simp add: ctxt_padded_def)
    show ?thesis
      unfolding ctxt_fill_def ctxt_setup_writes_def r w w' using True
      by (simp add: ctxt_data_regs write_reg_def)
  next
    case False
    then show ?thesis
      unfolding ctxt_fill_def ctxt_setup_writes_def r by (simp add: ctxt_data_regs write_reg_def)
  qed
qed

text \<open>
  Whatever the device answers, \<open>hw_indirect_ctext_prog\<close> writes nothing for a bad buffer
  or count (and returns \<open>-EINVAL\<close>), and otherwise exactly the set-up registers of the
  operation, the command, and, when the write was accepted and is to be verified, one read
  command.
\<close>

theorem ctext_prog_writes:
  assumes "op = QDMA_CTXT_CMD_WR \<longrightarrow> cnt \<le> length (the data)"
  shows "case hw_indirect_ctext_prog E qid op sel data cnt verify tr of (rv, data', tr') \<Rightarrow>
    if ctxt_args_bad op data cnt then rv = - EINVAL \<and> data' = data \<and> tr' = tr
    else writes_of tr' = writes_of tr @ ctxt_setup_writes op data cnt @ [(0x824, ctxt_cmd qid op sel)]
      @ (if verify \<and> op \<noteq> QDMA_CTXT_CMD_RD
           \<and> fst (ctxt_issue E qid op sel (ctxt_fill op data cnt tr)) = 1
         then [(0x824, ctxt_cmd qid QDMA_CTXT_CMD_RD sel)] else [])"
proof (cases "ctxt_args_bad op data cnt")
  case True
  then show ?thesis by (simp add: hw_indirect_ctext_prog_def)
next
  case False
  obtain w where w: "ctxt_fill op data cnt tr = w"
    and fill: "writes_of w = writes_of tr @ ctxt_setup_writes op data cnt"
    using ctxt_fill_writes [OF False assms, of tr] by blast
  show ?thesis
    using False ctxt_issue_values [of E qid op sel w]
    by (auto simp: hw_indirect_ctext_prog_def w Let_def split_beta ctxt_issue_writes fill
        writes_of_read_regs errno_defs)
qed

text \<open>
  \<open>hw_indirect_ctext_prog\<close> reports success of a verified write only when the device
  handed the very words back: the last thing it did was to read the data registers, and they
  held the words to be written.
\<close>

theorem ctext_prog_verified:
  assumes "hw_indirect_ctext_prog E qid QDMA_CTXT_CMD_WR sel (Some data) cnt True tr = (rv, data', tr')"
    and "rv \<ge> 0"
  shows "rv = 1 \<and> 1 \<le> cnt \<and> cnt \<le> 4 \<and> data' = Some data
    \<and> (\<exists>tr1. read_regs E 0x804 cnt tr1 = (take cnt data, tr'))"
proof -
  define t where "t = ctxt_fill QDMA_CTXT_CMD_WR (Some data) cnt tr"
  define i1 where "i1 = ctxt_issue E qid QDMA_CTXT_CMD_WR sel t"
  define i2 where "i2 = ctxt_issue E qid QDMA_CTXT_CMD_RD sel (snd i1)"
  have vals: "fst i1 \<in> {1, - EBUSY}" "fst i2 \<in> {1, - EBUSY}"
    unfolding i1_def i2_def by (rule ctxt_issue_values)+
  have args: "\<not> ctxt_args_bad QDMA_CTXT_CMD_WR (Some data) cnt"
    using assms by (auto simp: hw_indirect_ctext_prog_def errno_defs)
  then have "1 \<le> cnt \<and> cnt \<le> 4" by (auto simp: ctxt_args_bad_def)
  moreover have prog: "hw_indirect_ctext_prog E qid QDMA_CTXT_CMD_WR sel (Some data) cnt True tr =
      (if fst i1 < 0 then (- EBUSY, Some data, snd i1)
       else if fst i2 < 0 then (fst i2, Some data, snd i2)
       else if take cnt data \<noteq> fst (read_regs E 0x804 cnt (snd i2))
         then (- EBUSY, Some data, snd (read_regs E 0x804 cnt (snd i2)))
         else (fst i2, Some data, snd (read_regs E 0x804 cnt (snd i2))))"
    using args
    by (simp add: hw_indirect_ctext_prog_def Let_def split_beta ctxt_data_regs t_def i1_def i2_def)
  ultimately show ?thesis
    using assms vals by (auto simp: errno_defs split: if_splits intro: exI [of _ "snd i2"])
qed

theorem ctext_prog_verified_witness:
  "\<exists>rv data' tr'. hw_indirect_ctext_prog ctxt_env 3 QDMA_CTXT_CMD_WR QDMA_CTXT_SEL_PFTCH
      (Some [7, 8]) 2 True [] = (rv, data', tr')
    \<and> (\<exists>tr1. read_regs ctxt_env 0x804 2 tr1 = (take 2 [7, 8], tr'))"
proof -
  obtain tr' where wr: "hw_indirect_ctext_prog ctxt_env 3 QDMA_CTXT_CMD_WR QDMA_CTXT_SEL_PFTCH
      (Some [7, 8]) 2 True [] = (1, Some [7, 8], tr')"
    using ctext_prog_wr [OF ctxt_env_device, of 3 2 "[7, 8]" QDMA_CTXT_SEL_PFTCH True "[]"] by auto
  from ctext_prog_verified [OF wr] show ?thesis using wr by auto
qed

theorem ctext_prog_writes_witness:
  "case hw_indirect_ctext_prog ctxt_env 3 QDMA_CTXT_CMD_CLR QDMA_CTXT_SEL_WRB None 0 False []
    of (rv, data', tr') \<Rightarrow> writes_of tr' = [(0x824, ctxt_cmd 3 QDMA_CTXT_CMD_CLR QDMA_CTXT_SEL_WRB)]"
  using ctext_prog_writes [where op = QDMA_CTXT_CMD_CLR and cnt = 0 and data = None and E = ctxt_env
      and qid = 3 and sel = QDMA_CTXT_SEL_WRB and verify = False and tr = "[]"]
  by (simp add: ctxt_args_bad_def ctxt_setup_writes_def split_beta)

section \<open>Device attributes and engines\<close>

text \<open>
  The engine control functions write the H2C engine's register for a C2H channel and the
  other way round, as the register names of \<open>qdma_regs.h\<close> tell.
\<close>

lemma mm_channel_enable_swapped:
  "hw_mm_channel_enable 0 True tr = WriteReg QDMA_REG_H2C_MM_CONTROL_BASE 1 # tr"
  "hw_mm_channel_enable 0 False tr = WriteReg QDMA_REG_C2H_MM_CONTROL_BASE 1 # tr"
  by (simp_all add: hw_mm_channel_enable_def mm_control_base_def write_reg_def)

text \<open>
  \<open>qdma_device_attributes_get\<close> divides the queues among the physical functions that the
  device reports: it fails (by a division by zero) only when there is none, the share that is
  left after 8 queues for each possible virtual function never underflows, and a mode is
  enabled only when both its directions are.
\<close>

theorem attributes_get_shares:
  assumes "unat (env_readl E tr QDMA_REG_GLBL_QMAX) < 2 ^ 16"
  shows "case qdma_device_attributes_get E totalvfs xdev tr of
      None \<Rightarrow> fst (qdma_device_num_pfs_get E xdev (snd (read_reg E QDMA_REG_GLBL_QMAX tr))) = 0
    | Some (xdev', tr') \<Rightarrow>
        let share = unat (env_readl E tr QDMA_REG_GLBL_QMAX)
              div fst (qdma_device_num_pfs_get E xdev (snd (read_reg E QDMA_REG_GLBL_QMAX tr)))
        in unat (dc_qsets_max (xd_conf xdev')) = (if 8 * totalvfs > share then 0 else share - 8 * totalvfs)
          \<and> unat (xd_pf_count xdev') \<le> 4 \<and> writes_of tr' = writes_of tr"
proof -
  define q where "q = env_readl E tr QDMA_REG_GLBL_QMAX"
  have rd: "read_reg E QDMA_REG_GLBL_QMAX tr = (q, ReadReg QDMA_REG_GLBL_QMAX q # tr)"
    by (simp add: read_reg_def q_def Let_def)
  obtain n x2 tr2 where n: "qdma_device_num_pfs_get E xdev (ReadReg QDMA_REG_GLBL_QMAX q # tr) = (n, x2, tr2)"
    by (metis prod_cases3)
  have n4: "n \<le> 4" and x2: "xd_pf_count x2 = of_nat n" and w2: "writes_of tr2 = writes_of tr"
    using n by (auto simp: qdma_device_num_pfs_get_def Let_def split_beta trace_simps split: if_splits)
  have nn: "unat (of_nat n :: u32) = n" "unat (of_nat n :: u8) = n"
    using n4 by (simp_all add: unsigned_of_nat take_bit_nat_eq_self)
  have le: "unat q div n \<le> unat q" by simp
  then have small: "unat q div n < 2 ^ 16" using assms by (simp only: q_def)
  then have share: "unat (ucast (q div of_nat n) :: u16) = unat q div n"
    by (simp add: unsigned_ucast_eq unat_div_distrib nn take_bit_nat_eq_self)
  have sub: "unat ((ucast (q div of_nat n) :: u16) - of_nat (8 * totalvfs)) = unat q div n - 8 * totalvfs"
    if "8 * totalvfs \<le> unat q div n"
  proof -
    have "8 * totalvfs < 2 ^ 16"
      using that small by linarith
    then have "unat (of_nat (8 * totalvfs) :: u16) = 8 * totalvfs"
      by (simp add: unsigned_of_nat take_bit_nat_eq_self del: of_nat_mult)
    moreover from this have "of_nat (8 * totalvfs) \<le> (ucast (q div of_nat n) :: u16)"
      using that by (simp add: word_le_nat_alt share del: of_nat_mult)
    ultimately show ?thesis by (simp only: unat_sub share)
  qed
  show ?thesis
    using n4 w2 nn sub
    by (auto simp: qdma_device_attributes_get_def Let_def rd n split_beta x2 share
        QDMA_Q_PER_VF_MAX_def trace_simps mult.commute [of _ 8] simp flip: q_def
        simp del: of_nat_mult)
qed

theorem attributes_get_shares_witness:
  "case qdma_device_attributes_get plain_env 4 sample_dev [WriteReg 0x104 0x41, WriteReg 0x120 512] of
      None \<Rightarrow> False
    | Some (xdev', tr') \<Rightarrow> unat (dc_qsets_max (xd_conf xdev')) = 224"
  using attributes_get_shares [where E = plain_env and totalvfs = 4 and xdev = sample_dev
      and tr = "[WriteReg 0x104 0x41, WriteReg 0x120 512]"]
  by (simp add: qdma_device_num_pfs_get_def read_reg_def Let_def split_beta reg_defs
      split: option.splits flip: numeral_2_eq_2) fastforce

end
