(* ===== verification/Qdma_Context.thy ===== *)
theory Qdma_Context
  imports Qdma_Regs
begin

text \<open>
  The hardware contexts of queues and interrupt rings (\<open>libqdma/qdma_context.c\<close>, the
  physical function's side): how the software, prefetch, writeback, vector and interrupt
  aggregation contexts are laid out in words, and how they are cleared, programmed and read
  through the indirect interface of \<open>Qdma_Regs\<close>.
\<close>

section \<open>Layout\<close>

definition PCI_DMA_H :: "u64 \<Rightarrow> u64" where
  "PCI_DMA_H addr = drop_bit 16 (drop_bit 16 addr)"

definition PCI_DMA_L :: "u64 \<Rightarrow> u64" where
  "PCI_DMA_L addr = addr AND 0xffffffff"

definition QDMA_DATA_VEC_PER_PF_MAX :: nat where "QDMA_DATA_VEC_PER_PF_MAX = 1"
definition XDEV_NUM_IRQ_MAX :: nat where "XDEV_NUM_IRQ_MAX = 8"

text \<open>One entry of the interrupt aggregation context, two words.\<close>

definition intr_context_words :: "xlnx_dma_dev \<Rightarrow> intr_coal_conf \<Rightarrow> u32 list" where
  "intr_context_words xdev entry =
     (let bus_64 = push_bit 20 (PCI_DMA_H (ic_ring_bus entry))
                     OR drop_bit 12 (PCI_DMA_L (ic_ring_bus entry));
          v = (ucast (bus_64 AND 0x7FFFFF) :: u32);
          w0 = push_bit 0 1 OR push_bit 1 (ucast (ic_vec_id entry))
                 OR push_bit 9 (v AND 0x7FFFFF) OR push_bit 8 1;
          v = (ucast (drop_bit 23 bus_64 AND 0x1FFFFFFF) :: u32);
          w1 = push_bit 0 (v AND 0x1FFFFFFF) OR push_bit 1 (ucast (dc_intr_rngsz (xd_conf xdev)))
      in [w0, w1])"

fun fill_intr_context :: "xlnx_dma_dev \<Rightarrow> nat list \<Rightarrow> u32 list \<Rightarrow> u32 list" where
  "fill_intr_context xdev [] data = data"
| "fill_intr_context xdev (i # is) data =
     (let ws = intr_context_words xdev (xd_intr_coal_list xdev ! i)
      in fill_intr_context xdev is (data[2 * i := ws ! 0, 2 * i + 1 := ws ! 1]))"

definition make_intr_context :: "xlnx_dma_dev \<Rightarrow> u32 list \<Rightarrow> int \<times> u32 list" where
  "make_intr_context xdev data =
     (if \<not> xd_intr_coal_en xdev then (0, replicate (length data) 0)
      else if length data < 2 * QDMA_DATA_VEC_PER_PF_MAX then (- EINVAL, data)
      else (0, fill_intr_context xdev [0..<QDMA_DATA_VEC_PER_PF_MAX] (replicate (length data) 0)))"

definition make_sw_context :: "xlnx_dma_dev \<Rightarrow> qdma_descq \<Rightarrow> u32 list \<Rightarrow> int \<times> u32 list" where
  "make_sw_context xdev descq data =
     (if length data < 4 then (- EINVAL, data)
      else
        let conf = dq_conf descq;
            d3 = (ucast (PCI_DMA_H (dq_desc_bus descq)) :: u32);
            d2 = (ucast (PCI_DMA_L (dq_desc_bus descq)) :: u32);
            d1 = push_bit 0 1 OR push_bit 12 (ucast (qc_desc_rng_sz_idx conf))
                   OR push_bit 3 (flag (qc_wbk_acc_en conf))
                   OR push_bit 2 (flag (qc_wbk_pend_chk conf))
                   OR push_bit 4 (ucast (xd_func_id xdev))
                   OR push_bit 18 (flag (qc_bypass conf))
                   OR push_bit 20 (flag (qc_wbk_en conf))
                   OR push_bit 21 (flag (qc_irq_en conf));
            d1 = (if \<not> qc_st conf then
                    d1 OR (push_bit 16 2 OR push_bit 19 (ucast (dq_channel descq)))
                  else if qc_c2h conf then
                    d1 OR (push_bit 1 (flag (qc_fetch_credit conf)) OR push_bit 16 0)
                  else d1 OR push_bit 16 1)
        in (0, (replicate (length data) 0)[3 := d3, 2 := d2, 1 := d1, 0 := 0]))"

definition make_prefetch_context :: "qdma_descq \<Rightarrow> u32 list \<Rightarrow> int \<times> u32 list" where
  "make_prefetch_context descq data =
     (if length data < 2 then (- EINVAL, data)
      else
        let conf = dq_conf descq;
            data = (replicate (length data) 0)[1 := push_bit 13 1];
            data = (if qc_pfetch_en conf then
                      data[0 := push_bit 0 (flag (qc_bypass conf))
                             OR push_bit 1 (ucast (qc_c2h_buf_sz_idx conf))
                             OR push_bit 27 (flag (qc_pfetch_en conf))]
                    else data)
        in (0, data))"

definition make_wrb_context :: "xlnx_dma_dev \<Rightarrow> qdma_descq \<Rightarrow> u32 list \<Rightarrow> int \<times> u32 list" where
  "make_wrb_context xdev descq data =
     (if length data < 4 then (- EINVAL, data)
      else
        let conf = dq_conf descq;
            bus_64 = push_bit 26 (PCI_DMA_H (dq_desc_wrb_bus descq))
                       OR drop_bit 6 (PCI_DMA_L (dq_desc_wrb_bus descq));
            v = (ucast (bus_64 AND 0xF) :: u32);
            d0 = push_bit 0 (flag (qc_cmpl_stat_en conf))
                   OR push_bit 1 (flag (qc_irq_en conf))
                   OR push_bit 2 (ucast (qc_cmpl_trig_mode conf))
                   OR push_bit 5 (ucast (xd_func_id xdev) AND 0xFF)
                   OR push_bit 17 (ucast (qc_cmpl_timer_idx conf))
                   OR push_bit 13 (ucast (qc_cmpl_cnt_th_idx conf))
                   OR push_bit 23 1
                   OR push_bit 24 (ucast (qc_cmpl_rng_sz_idx conf))
                   OR push_bit 28 (v AND 0xF);
            d1 = ucast (drop_bit 4 bus_64 AND 0xFFFFFFFF);
            v = (ucast (drop_bit 36 bus_64 AND 0x3FFFFF) :: u32);
            d2 = push_bit 0 (v AND 0x3FFFFF) OR push_bit 22 (ucast (qc_cmpl_desc_sz conf));
            d3 = push_bit 24 1
        in (0, (replicate (length data) 0)[0 := d0, 1 := d1, 2 := d2, 3 := d3]))"

section \<open>The ring of an interrupt vector\<close>

text \<open>\<open>get_intr_ring_index\<close> of \<open>qdma_intr.c\<close>.\<close>

definition get_intr_ring_index :: "xlnx_dma_dev \<Rightarrow> u32 \<Rightarrow> u32" where
  "get_intr_ring_index xdev vector_index =
     (vector_index - of_nat (xd_dvec_start_idx xdev))
       + ucast (xd_func_id xdev) * of_nat QDMA_DATA_VEC_PER_PF_MAX"

text \<open>
  \<open>make_qid2vec_context\<close> changes one direction's vector in the word it reads from the device.
\<close>

definition make_qid2vec_context ::
  "env \<Rightarrow> xlnx_dma_dev \<Rightarrow> qdma_descq \<Rightarrow> trace \<Rightarrow> int \<times> u32 list \<times> trace" where
  "make_qid2vec_context E xdev descq tr =
     (case hw_indirect_ctext_prog E (dq_qidx_hw descq) QDMA_CTXT_CMD_RD QDMA_CTXT_SEL_QID2VEC
             (Some [0]) 1 False tr of
        (rv, buf, tr) \<Rightarrow>
          if rv < 0 then (rv, the buf, tr)
          else
            let (shift, coal_shift) = (if qc_c2h (dq_conf descq) then (0, 8) else (9, 17));
                d = the buf ! 0 AND NOT (push_bit shift 0xFF);
                d = (if xd_intr_coal_en xdev then
                       (d OR push_bit coal_shift 1)
                         OR push_bit shift (get_intr_ring_index xdev (of_nat (dq_intr_id descq)))
                     else d OR push_bit shift (of_nat (dq_intr_id descq)))
            in (rv, [d], tr))"

section \<open>Clearing, programming and reading\<close>

text \<open>
  A sequence of programming commands on one queue, abandoned at the first error; the code
  spells out each call followed by \<open>if (rv < 0) return rv\<close>.
\<close>

type_synonym ctxt_step =
  "ind_ctxt_cmd_op \<times> ind_ctxt_cmd_sel \<times> u32 list option \<times> nat \<times> bool"

fun ctxt_steps :: "env \<Rightarrow> u32 \<Rightarrow> ctxt_step list \<Rightarrow> trace \<Rightarrow> int \<times> trace" where
  "ctxt_steps E qid_hw [] tr = (0, tr)"
| "ctxt_steps E qid_hw ((op, sel, data, cnt, verify) # steps) tr =
     (case hw_indirect_ctext_prog E qid_hw op sel data cnt verify tr of
        (rv, _, tr) \<Rightarrow> if rv < 0 then (rv, tr) else ctxt_steps E qid_hw steps tr)"

definition clear_steps :: "bool \<Rightarrow> bool \<Rightarrow> bool \<Rightarrow> ctxt_step list" where
  "clear_steps st c2h clr =
     [(if clr then QDMA_CTXT_CMD_CLR else QDMA_CTXT_CMD_INV,
       if c2h then QDMA_CTXT_SEL_SW_C2H else QDMA_CTXT_SEL_SW_H2C, None, 0, False),
      (QDMA_CTXT_CMD_CLR, if c2h then QDMA_CTXT_SEL_HW_C2H else QDMA_CTXT_SEL_HW_H2C, None, 0, False),
      (QDMA_CTXT_CMD_CLR, if c2h then QDMA_CTXT_SEL_CR_C2H else QDMA_CTXT_SEL_CR_H2C, None, 0, False)]
     @ (if st \<and> c2h then
          [(QDMA_CTXT_CMD_CLR, QDMA_CTXT_SEL_PFTCH, None, 0, False),
           (QDMA_CTXT_CMD_CLR, QDMA_CTXT_SEL_WRB, None, 0, False)]
        else [])"

definition qdma_descq_context_clear ::
  "env \<Rightarrow> u32 \<Rightarrow> bool \<Rightarrow> bool \<Rightarrow> bool \<Rightarrow> trace \<Rightarrow> int \<times> trace" where
  "qdma_descq_context_clear E qid_hw st c2h clr tr = ctxt_steps E qid_hw (clear_steps st c2h clr) tr"

definition program_steps :: "bool \<Rightarrow> bool \<Rightarrow> hw_descq_context \<Rightarrow> ctxt_step list" where
  "program_steps st c2h context =
     [(QDMA_CTXT_CMD_WR, if c2h then QDMA_CTXT_SEL_SW_C2H else QDMA_CTXT_SEL_SW_H2C,
       Some (cx_sw context), 4, True),
      (QDMA_CTXT_CMD_WR, QDMA_CTXT_SEL_QID2VEC, Some (cx_qid2vec context), 1, True)]
     @ (if \<not> st \<or> \<not> c2h then []
        else [(QDMA_CTXT_CMD_WR, QDMA_CTXT_SEL_PFTCH, Some (cx_prefetch context), 2, True),
              (QDMA_CTXT_CMD_WR, QDMA_CTXT_SEL_WRB, Some (cx_wrb context), 4, True)])"

definition qdma_descq_context_program ::
  "env \<Rightarrow> u32 \<Rightarrow> bool \<Rightarrow> bool \<Rightarrow> hw_descq_context \<Rightarrow> trace \<Rightarrow> int \<times> trace" where
  "qdma_descq_context_program E qid_hw st c2h context tr =
     (let (rv, tr) = qdma_descq_context_clear E qid_hw st c2h True tr in
      if rv < 0 then (rv, tr) else ctxt_steps E qid_hw (program_steps st c2h context) tr)"

definition qdma_descq_context_setup ::
  "env \<Rightarrow> xlnx_dma_dev \<Rightarrow> qdma_descq \<Rightarrow> trace \<Rightarrow> int \<times> trace" where
  "qdma_descq_context_setup E xdev descq tr =
     (let conf = dq_conf descq;
          (rv, tr) = qdma_descq_context_clear E (dq_qidx_hw descq) (qc_st conf) (qc_c2h conf) True tr
      in if rv < 0 then (rv, tr)
      else
        let context = zero_context;
            context = context\<lparr>cx_sw := snd (make_sw_context xdev descq (cx_sw context))\<rparr>;
            (_, q2v, tr) = make_qid2vec_context E xdev descq tr;
            context = context\<lparr>cx_qid2vec := q2v\<rparr>;
            context =
              (if qc_st conf \<and> qc_c2h conf then
                 context\<lparr>cx_prefetch := snd (make_prefetch_context descq (cx_prefetch context)),
                         cx_wrb := snd (make_wrb_context xdev descq (cx_wrb context))\<rparr>
               else context)
        in qdma_descq_context_program E (dq_qidx_hw descq) (qc_st conf) (qc_c2h conf) context tr)"

text \<open>One context read; the buffer starts at zero, the result is read into it.\<close>

definition ctxt_read ::
  "env \<Rightarrow> u32 \<Rightarrow> ind_ctxt_cmd_sel \<Rightarrow> nat \<Rightarrow> trace \<Rightarrow> int \<times> u32 list \<times> trace" where
  "ctxt_read E qid_hw sel n tr =
     (case hw_indirect_ctext_prog E qid_hw QDMA_CTXT_CMD_RD sel (Some (replicate n 0)) n False tr of
        (rv, buf, tr) \<Rightarrow> (rv, the buf, tr))"

definition qdma_descq_context_read ::
  "env \<Rightarrow> u32 \<Rightarrow> bool \<Rightarrow> bool \<Rightarrow> trace \<Rightarrow> int \<times> hw_descq_context \<times> trace" where
  "qdma_descq_context_read E qid_hw st c2h tr =
     (let c = zero_context;
          (rv, b, tr) = ctxt_read E qid_hw (if c2h then QDMA_CTXT_SEL_SW_C2H else QDMA_CTXT_SEL_SW_H2C) 4 tr;
          c = c\<lparr>cx_sw := b\<rparr>
      in if rv < 0 then (rv, c, tr) else
      let (rv, b, tr) = ctxt_read E qid_hw (if c2h then QDMA_CTXT_SEL_HW_C2H else QDMA_CTXT_SEL_HW_H2C) 2 tr;
          c = c\<lparr>cx_hw := b\<rparr>
      in if rv < 0 then (rv, c, tr) else
      let (rv, b, tr) = ctxt_read E qid_hw (if c2h then QDMA_CTXT_SEL_CR_C2H else QDMA_CTXT_SEL_CR_H2C) 1 tr;
          c = c\<lparr>cx_cr := b\<rparr>
      in if rv < 0 then (rv, c, tr) else
      let (rv, b, tr) = ctxt_read E qid_hw QDMA_CTXT_SEL_QID2VEC 1 tr;
          c = c\<lparr>cx_qid2vec := b\<rparr>
      in if rv < 0 then (rv, c, tr) else
      if st \<and> c2h then
        let (rv, b, tr) = ctxt_read E qid_hw QDMA_CTXT_SEL_WRB 4 tr;
            c = c\<lparr>cx_wrb := b\<rparr>
        in if rv < 0 then (rv, c, tr) else
        let (rv, b, tr) = ctxt_read E qid_hw QDMA_CTXT_SEL_PFTCH 2 tr;
            c = c\<lparr>cx_prefetch := b\<rparr>
        in if rv < 0 then (rv, c, tr) else (0, c, tr)
      else (0, c, tr))"

definition qdma_intr_context_read ::
  "env \<Rightarrow> u32 \<Rightarrow> trace \<Rightarrow> int \<times> u32 list \<times> trace" where
  "qdma_intr_context_read E ring_index tr =
     (let (rv, b, tr) = ctxt_read E ring_index QDMA_CTXT_SEL_COAL 4 tr
      in if rv < 0 then (rv, b, tr) else (0, b, tr))"

fun intr_context_loop ::
  "env \<Rightarrow> xlnx_dma_dev \<Rightarrow> u32 list \<Rightarrow> nat list \<Rightarrow> trace \<Rightarrow> int \<times> trace" where
  "intr_context_loop E xdev data [] tr = (0, tr)"
| "intr_context_loop E xdev data (i # is) tr =
     (let ring_index = get_intr_ring_index xdev (of_nat (i + xd_dvec_start_idx xdev));
          (rv, tr) = ctxt_steps E ring_index
            [(QDMA_CTXT_CMD_CLR, QDMA_CTXT_SEL_COAL, None, 4, False),
             (QDMA_CTXT_CMD_WR, QDMA_CTXT_SEL_COAL, Some (drop (2 * i) data), 2, True),
             (QDMA_CTXT_CMD_RD, QDMA_CTXT_SEL_COAL, Some (replicate 4 0), 4, True)] tr
      in if rv < 0 then (rv, tr) else intr_context_loop E xdev data is tr)"

definition qdma_intr_context_setup :: "env \<Rightarrow> xlnx_dma_dev \<Rightarrow> trace \<Rightarrow> int \<times> trace" where
  "qdma_intr_context_setup E xdev tr =
     (if \<not> xd_intr_coal_en xdev then (0, tr)
      else
        let (rv, data) = make_intr_context xdev (replicate (2 * QDMA_DATA_VEC_PER_PF_MAX) 0)
        in if rv < 0 then (rv, tr)
           else intr_context_loop E xdev data [0..<QDMA_DATA_VEC_PER_PF_MAX] tr)"

section \<open>Commands as updates of the context memory\<close>

definition ctxt_put :: "u32 \<Rightarrow> u32 \<Rightarrow> u32 list \<Rightarrow> (u32 \<Rightarrow> u32 \<Rightarrow> u32 list) \<Rightarrow> u32 \<Rightarrow> u32 \<Rightarrow> u32 list" where
  "ctxt_put sel qid ws mem = mem(sel := (mem sel)(qid := ws))"

lemma ctxt_put_same [simp]: "ctxt_put sel qid ws mem sel qid = ws"
  by (simp add: ctxt_put_def)

lemma ctxt_put_other [simp]: "sel' \<noteq> sel \<or> qid' \<noteq> qid \<Longrightarrow> ctxt_put sel qid ws mem sel' qid' = mem sel' qid'"
  by (auto simp: ctxt_put_def)

lemma cd_mem_issue:
  assumes "ctxt_device ivd E" "unat qid < 2 ^ 11"
    and "ctxt_issue E qid op sel tr = (rv, tr')"
  shows "rv = 1"
    and "cd_mem (ctxt_dev_of ivd tr') = cd_mem (cd_command ivd (ctxt_cmd qid op sel) (ctxt_dev_of ivd tr))"
  using ctxt_dev_issue [OF assms(1), of qid op sel tr] assms(3) by auto

lemma cd_mem_command_wr:
  assumes "unat qid < 2 ^ 11" "cd_data d = ws" "cd_mask d = replicate 4 0xFFFFFFFF"
    "length (cd_mem d (ctxt_sel_code sel) qid) = 4"
  shows "cd_mem (cd_command ivd (ctxt_cmd qid QDMA_CTXT_CMD_WR sel) d)
    = ctxt_put (ctxt_sel_code sel) qid ws (cd_mem d)"
  using assms ctxt_masked_store [of ws "cd_mem d (ctxt_sel_code sel) qid"] length_cd(1) [of d]
  by (simp add: cd_command_def Let_def ctxt_cmd_fields ctxt_put_def)

lemma cd_mem_command_clr:
  assumes "unat qid < 2 ^ 11"
  shows "cd_mem (cd_command ivd (ctxt_cmd qid QDMA_CTXT_CMD_CLR sel) d)
    = ctxt_put (ctxt_sel_code sel) qid (replicate 4 0) (cd_mem d)"
  by (simp add: cd_command_def Let_def ctxt_cmd_fields [OF assms] ctxt_put_def)

lemma cd_mem_fill:
  assumes "op = QDMA_CTXT_CMD_WR \<longrightarrow> length (ctxt_padded (the data) cnt) = 4"
  shows "cd_mem (ctxt_dev_of ivd (ctxt_fill op data cnt tr)) = cd_mem (ctxt_dev_of ivd tr)"
proof -
  have r: "replicate 4 (0xFFFFFFFF :: u32) = [0xFFFFFFFF, 0xFFFFFFFF, 0xFFFFFFFF, 0xFFFFFFFF]"
    by (simp add: numeral_eq_Suc)
  show ?thesis
  proof (cases "op = QDMA_CTXT_CMD_WR")
    case True
    then obtain a b c d where "ctxt_padded (the data) cnt = [a, b, c, d]"
      using assms list4 by blast
    then have w': "take cnt (the data) @ replicate (4 - cnt) 0 = [a, b, c, d]"
      by (simp add: ctxt_padded_def)
    show ?thesis
      unfolding ctxt_fill_def r w' using True by (simp add: ctxt_data_regs write_reg_def)
  next
    case False
    then show ?thesis
      unfolding ctxt_fill_def r by (simp add: ctxt_data_regs write_reg_def)
  qed
qed

lemma ctext_prog_wr_mem:
  assumes dev: "ctxt_device ivd E" and q: "unat qid < 2 ^ 11"
    and "1 \<le> cnt" "cnt \<le> 4" "cnt \<le> length data"
  shows "\<exists>tr'. hw_indirect_ctext_prog E qid QDMA_CTXT_CMD_WR sel (Some data) cnt True tr
      = (1, Some data, tr')
    \<and> cd_mem (ctxt_dev_of ivd tr')
      = ctxt_put (ctxt_sel_code sel) qid (ctxt_padded data cnt) (cd_mem (ctxt_dev_of ivd tr))"
proof -
  obtain tr' where p: "hw_indirect_ctext_prog E qid QDMA_CTXT_CMD_WR sel (Some data) cnt True tr
      = (1, Some data, tr')"
    using ctext_prog_wr [OF assms] by blast
  define tf where "tf = ctxt_fill QDMA_CTXT_CMD_WR (Some data) cnt tr"
  have len: "length (ctxt_padded data cnt) = 4"
    using assms by (simp add: length_ctxt_padded)
  obtain t1 where i1: "ctxt_issue E qid QDMA_CTXT_CMD_WR sel tf = (1, t1)"
    using cd_mem_issue(1) [OF dev q] by (metis surj_pair)
  obtain t2 where i2: "ctxt_issue E qid QDMA_CTXT_CMD_RD sel t1 = (1, t2)"
    using cd_mem_issue(1) [OF dev q] by (metis surj_pair)
  have "tr' = snd (read_regs E 0x804 cnt t2)"
    using p i1 i2 assms(3-5)
    by (simp add: hw_indirect_ctext_prog_def ctxt_args_bad_def Let_def split_beta ctxt_data_regs
        errno_defs flip: tf_def split: if_splits)
  moreover have "length (cd_mem (ctxt_dev_of ivd tf) (ctxt_sel_code sel) qid) = 4"
    using dev by (intro length_cd_mem) (simp add: ctxt_device_def)
  ultimately show ?thesis
    using p ctxt_fill_wr [OF len, of ivd tr] len cd_mem_issue(2) [OF dev q i1]
      cd_mem_issue(2) [OF dev q i2] cd_mem_fill [of QDMA_CTXT_CMD_WR "Some data" cnt ivd tr]
    by (simp add: ctxt_dev_read_regs ctxt_dev_rd_mem [OF q] cd_mem_command_wr [OF q _ _] flip: tf_def)
qed

lemma ctext_prog_clr_mem:
  assumes dev: "ctxt_device ivd E" and q: "unat qid < 2 ^ 11"
  shows "\<exists>tr'. hw_indirect_ctext_prog E qid QDMA_CTXT_CMD_CLR sel data cnt False tr = (1, data, tr')
    \<and> cd_mem (ctxt_dev_of ivd tr')
      = ctxt_put (ctxt_sel_code sel) qid (replicate 4 0) (cd_mem (ctxt_dev_of ivd tr))"
proof -
  obtain t1 where i1: "ctxt_issue E qid QDMA_CTXT_CMD_CLR sel tr = (1, t1)"
    using cd_mem_issue(1) [OF dev q] by (metis surj_pair)
  then show ?thesis
    using cd_mem_issue(2) [OF dev q i1]
    by (simp add: hw_indirect_ctext_prog_def ctxt_args_bad_def ctxt_fill_def
        cd_mem_command_clr [OF q])
qed

text \<open>A sequence of clears and verified writes runs through, and updates the memory in order.\<close>

fun step_put :: "u32 \<Rightarrow> ctxt_step \<Rightarrow> (u32 \<Rightarrow> u32 \<Rightarrow> u32 list) \<Rightarrow> u32 \<Rightarrow> u32 \<Rightarrow> u32 list" where
  "step_put qid (op, sel, data, cnt, verify) mem =
     ctxt_put (ctxt_sel_code sel) qid
       (if op = QDMA_CTXT_CMD_CLR then replicate 4 0 else ctxt_padded (the data) cnt) mem"

fun step_ok :: "ctxt_step \<Rightarrow> bool" where
  "step_ok (op, sel, data, cnt, verify) =
     (op = QDMA_CTXT_CMD_CLR \<and> \<not> verify
      \<or> op = QDMA_CTXT_CMD_WR \<and> verify \<and> data \<noteq> None \<and> 1 \<le> cnt \<and> cnt \<le> 4 \<and> cnt \<le> length (the data))"

lemma ctxt_steps_mem:
  assumes dev: "ctxt_device ivd E" and q: "unat qid < 2 ^ 11"
  shows "list_all step_ok steps \<Longrightarrow> \<exists>tr'. ctxt_steps E qid steps tr = (0, tr')
    \<and> cd_mem (ctxt_dev_of ivd tr') = fold (step_put qid) steps (cd_mem (ctxt_dev_of ivd tr))"
proof (induction steps arbitrary: tr)
  case (Cons s steps)
  obtain op sel data cnt verify where s: "s = (op, sel, data, cnt, verify)" by (metis prod_cases5)
  have "\<exists>t1. hw_indirect_ctext_prog E qid op sel data cnt verify tr = (1, data, t1)
      \<and> cd_mem (ctxt_dev_of ivd t1) = step_put qid s (cd_mem (ctxt_dev_of ivd tr))"
    using Cons.prems ctext_prog_clr_mem [OF dev q, of sel data cnt tr]
      ctext_prog_wr_mem [OF dev q, of cnt "the data" sel tr]
    by (auto simp: s)
  then obtain t1 where "hw_indirect_ctext_prog E qid op sel data cnt verify tr = (1, data, t1)"
    "cd_mem (ctxt_dev_of ivd t1) = step_put qid s (cd_mem (ctxt_dev_of ivd tr))" by blast
  then show ?case using Cons.IH [of t1] Cons.prems by (simp add: s)
qed simp

lemma ctxt_read_mem:
  assumes "ctxt_device ivd E" "unat qid < 2 ^ 11" "1 \<le> n" "n \<le> 4"
  shows "\<exists>tr'. ctxt_read E qid sel n tr
      = (1, take n (cd_mem (ctxt_dev_of ivd tr) (ctxt_sel_code sel) qid), tr')
    \<and> cd_mem (ctxt_dev_of ivd tr') = cd_mem (ctxt_dev_of ivd tr)"
proof -
  have "length (cd_mem (ctxt_dev_of ivd tr) (ctxt_sel_code sel) qid) = 4"
    using assms by (intro length_cd_mem) (simp add: ctxt_device_def)
  then show ?thesis
    using ctext_prog_rd [OF assms, of tr sel _ "replicate n 0" False] by (auto simp: ctxt_read_def)
qed

section \<open>Programming and reading a queue's contexts\<close>

lemma step_ok_clear: "list_all step_ok (clear_steps st c2h True)"
  by (simp add: clear_steps_def)

lemma step_ok_program:
  "\<lbrakk>length (cx_sw c) = 4; length (cx_qid2vec c) = 1; length (cx_prefetch c) = 2; length (cx_wrb c) = 4\<rbrakk>
    \<Longrightarrow> list_all step_ok (program_steps st c2h c)"
  by (simp add: program_steps_def)

lemma context_clear_mem:
  assumes "ctxt_device ivd E" "unat qid < 2 ^ 11"
  shows "\<exists>tr'. qdma_descq_context_clear E qid st c2h True tr = (0, tr')
    \<and> cd_mem (ctxt_dev_of ivd tr') = fold (step_put qid) (clear_steps st c2h True) (cd_mem (ctxt_dev_of ivd tr))"
  using ctxt_steps_mem [OF assms step_ok_clear] by (simp add: qdma_descq_context_clear_def)

lemma context_program_mem:
  assumes "ctxt_device ivd E" "unat qid < 2 ^ 11"
    "length (cx_sw c) = 4" "length (cx_qid2vec c) = 1" "length (cx_prefetch c) = 2" "length (cx_wrb c) = 4"
  shows "\<exists>tr'. qdma_descq_context_program E qid st c2h c tr = (0, tr')
    \<and> cd_mem (ctxt_dev_of ivd tr') = fold (step_put qid) (clear_steps st c2h True @ program_steps st c2h c)
        (cd_mem (ctxt_dev_of ivd tr))"
proof -
  obtain t1 where "qdma_descq_context_clear E qid st c2h True tr = (0, t1)"
    "cd_mem (ctxt_dev_of ivd t1) = fold (step_put qid) (clear_steps st c2h True) (cd_mem (ctxt_dev_of ivd tr))"
    using context_clear_mem [OF assms(1,2)] by blast
  then show ?thesis
    using ctxt_steps_mem [OF assms(1,2) step_ok_program [OF assms(3-6)], where tr = t1]
    by (simp add: qdma_descq_context_program_def)
qed

lemma context_read_mem:
  assumes "ctxt_device ivd E" "unat qid < 2 ^ 11"
  shows "\<exists>tr'. qdma_descq_context_read E qid st c2h tr = (0,
      (let m = (\<lambda>sel n. take n (cd_mem (ctxt_dev_of ivd tr) (ctxt_sel_code sel) qid))
       in \<lparr>cx_sw = m (if c2h then QDMA_CTXT_SEL_SW_C2H else QDMA_CTXT_SEL_SW_H2C) 4,
           cx_prefetch = (if st \<and> c2h then m QDMA_CTXT_SEL_PFTCH 2 else replicate 2 0),
           cx_wrb = (if st \<and> c2h then m QDMA_CTXT_SEL_WRB 4 else replicate 4 0),
           cx_hw = m (if c2h then QDMA_CTXT_SEL_HW_C2H else QDMA_CTXT_SEL_HW_H2C) 2,
           cx_cr = m (if c2h then QDMA_CTXT_SEL_CR_C2H else QDMA_CTXT_SEL_CR_H2C) 1,
           cx_qid2vec = m QDMA_CTXT_SEL_QID2VEC 1\<rparr>), tr')
    \<and> cd_mem (ctxt_dev_of ivd tr') = cd_mem (ctxt_dev_of ivd tr)"
proof -
  define M where "M = cd_mem (ctxt_dev_of ivd tr)"
  note rd = ctxt_read_mem [OF assms]
  let ?sw = "if c2h then QDMA_CTXT_SEL_SW_C2H else QDMA_CTXT_SEL_SW_H2C"
  let ?hw = "if c2h then QDMA_CTXT_SEL_HW_C2H else QDMA_CTXT_SEL_HW_H2C"
  let ?cr = "if c2h then QDMA_CTXT_SEL_CR_C2H else QDMA_CTXT_SEL_CR_H2C"
  obtain t1 where 1: "ctxt_read E qid ?sw 4 tr = (1, take 4 (M (ctxt_sel_code ?sw) qid), t1)"
    "cd_mem (ctxt_dev_of ivd t1) = M"
    using rd [of 4 ?sw tr] by (auto simp: M_def)
  obtain t2 where 2: "ctxt_read E qid ?hw 2 t1 = (1, take 2 (M (ctxt_sel_code ?hw) qid), t2)"
    "cd_mem (ctxt_dev_of ivd t2) = M"
    using rd [of 2 ?hw t1] 1(2) by auto
  obtain t3 where 3: "ctxt_read E qid ?cr 1 t2 = (1, take 1 (M (ctxt_sel_code ?cr) qid), t3)"
    "cd_mem (ctxt_dev_of ivd t3) = M"
    using rd [of 1 ?cr t2] 2(2) by auto
  obtain t4 where 4: "ctxt_read E qid QDMA_CTXT_SEL_QID2VEC 1 t3
      = (1, take 1 (M (ctxt_sel_code QDMA_CTXT_SEL_QID2VEC) qid), t4)"
    "cd_mem (ctxt_dev_of ivd t4) = M"
    using rd [of 1 QDMA_CTXT_SEL_QID2VEC t3] 3(2) by auto
  obtain t5 where 5: "ctxt_read E qid QDMA_CTXT_SEL_WRB 4 t4
      = (1, take 4 (M (ctxt_sel_code QDMA_CTXT_SEL_WRB) qid), t5)"
    "cd_mem (ctxt_dev_of ivd t5) = M"
    using rd [of 4 QDMA_CTXT_SEL_WRB t4] 4(2) by auto
  obtain t6 where 6: "ctxt_read E qid QDMA_CTXT_SEL_PFTCH 2 t5
      = (1, take 2 (M (ctxt_sel_code QDMA_CTXT_SEL_PFTCH) qid), t6)"
    "cd_mem (ctxt_dev_of ivd t6) = M"
    using rd [of 2 QDMA_CTXT_SEL_PFTCH t5] 5(2) by auto
  show ?thesis
    unfolding M_def [symmetric] qdma_descq_context_read_def Let_def 1(1) prod.case 2(1) 3(1) 4(1) 5(1) 6(1)
    using 4(2) 6(2) by (simp add: zero_context_def)
qed

lemma context_program_readback:
  assumes "ctxt_device ivd E" "unat qid < 2 ^ 11"
    "length (cx_sw c) = 4" "length (cx_qid2vec c) = 1" "length (cx_prefetch c) = 2" "length (cx_wrb c) = 4"
  shows "case qdma_descq_context_program E qid st c2h c tr of (rv, tr1) \<Rightarrow>
    case qdma_descq_context_read E qid st c2h tr1 of (rv', c', tr2) \<Rightarrow>
      rv = 0 \<and> rv' = 0 \<and>
      c' = c\<lparr>cx_hw := [0, 0], cx_cr := [0],
             cx_prefetch := if st \<and> c2h then cx_prefetch c else [0, 0],
             cx_wrb := if st \<and> c2h then cx_wrb c else [0, 0, 0, 0]\<rparr>"
proof -
  obtain t1 where p: "qdma_descq_context_program E qid st c2h c tr = (0, t1)"
    and m: "cd_mem (ctxt_dev_of ivd t1)
      = fold (step_put qid) (clear_steps st c2h True @ program_steps st c2h c) (cd_mem (ctxt_dev_of ivd tr))"
    using context_program_mem [OF assms] by blast
  have r: "replicate 4 (0 :: u32) = [0, 0, 0, 0]" "replicate 2 (0 :: u32) = [0, 0]" "replicate 3 (0 :: u32) = [0, 0, 0]"
    by (simp_all add: numeral_eq_Suc)
  show ?thesis
    unfolding p prod.case
    using context_read_mem [OF assms(1,2), of st c2h t1] assms(3-6)
    by (cases st; cases c2h)
      (auto simp: m clear_steps_def program_steps_def ctxt_padded_def Let_def r split_beta)
qed

text \<open>
  On a device with a context memory, \<open>qdma_descq_context_program\<close> succeeds and
  \<open>qdma_descq_context_read\<close> of the same queue then returns the programmed software, vector,
  and (for a streaming C2H queue) prefetch and writeback contexts, with the hardware and credit
  contexts cleared.
\<close>

theorem context_program_read:
  assumes "ctxt_device ivd E" "unat qid < 2 ^ 11"
    "length (cx_sw c) = 4" "length (cx_qid2vec c) = 1" "length (cx_prefetch c) = 2" "length (cx_wrb c) = 4"
  shows "case qdma_descq_context_program E qid st c2h c tr of (rv, tr1) \<Rightarrow>
    case qdma_descq_context_read E qid st c2h tr1 of (rv', c', tr2) \<Rightarrow>
      rv = 0 \<and> rv' = 0 \<and>
      c' = c\<lparr>cx_hw := [0, 0], cx_cr := [0],
             cx_prefetch := if st \<and> c2h then cx_prefetch c else [0, 0],
             cx_wrb := if st \<and> c2h then cx_wrb c else [0, 0, 0, 0]\<rparr>"
  by (rule context_program_readback [OF assms])

theorem context_program_read_witness:
  "case qdma_descq_context_program ctxt_env 5 False True (zero_context\<lparr>cx_sw := [0, 1, 2, 3]\<rparr>) [] of (rv, tr1) \<Rightarrow>
    case qdma_descq_context_read ctxt_env 5 False True tr1 of (rv', c', tr2) \<Rightarrow>
      rv = 0 \<and> rv' = 0 \<and> cx_sw c' = [0, 1, 2, 3]"
proof -
  have "unat (5 :: u32) < 2 ^ 11" by simp
  from context_program_read [OF ctxt_env_device this, where c = "zero_context\<lparr>cx_sw := [0, 1, 2, 3]\<rparr>"
      and st = False and c2h = True and tr = "[]"]
  show ?thesis by (auto simp: zero_context_def)
qed

section \<open>What the context words say\<close>

lemma bit_flag [simp]: "bit (flag b) n \<longleftrightarrow> b \<and> n = 0"
  by (auto simp: flag_def bit_1_iff)

lemma bit_flag_field: "bit (push_bit m (flag b) :: u32) n \<longleftrightarrow> n = m \<and> m < 32 \<and> b"
  by (auto simp: bit_push_bit_iff)

lemma bit_one_field: "bit (push_bit m 1 :: u32) n \<longleftrightarrow> n = m \<and> m < 32"
  using bit_flag_field [of m True n] by simp

lemma bit_field:
  "bit (push_bit k (ucast (x :: 'b :: len word)) :: u32) n
    \<longleftrightarrow> k \<le> n \<and> n < k + LENGTH('b) \<and> n < 32 \<and> bit x (n - k)"
  by (auto simp: bit_push_bit_iff bit_ucast_iff dest: bit_imp_le_length)

lemmas bit_fields = bit_or_iff bit_flag_field bit_one_field bit_field

lemma extract_field:
  assumes "\<And>k. k < m \<Longrightarrow> bit (w :: u32) (s + k) = bit (x :: 'b :: len word) k" "LENGTH('b) = m" "m \<le> 32"
  shows "drop_bit s w AND mask m = ucast x"
proof (rule bit_word_eqI)
  fix n
  show "bit (drop_bit s w AND mask m) n = bit (ucast x :: u32) n"
    using assms(1) [of n] assms(2,3) bit_imp_le_length [of x n]
    by (auto simp: bit_drop_bit_eq bit_and_iff bit_mask_iff bit_ucast_iff)
qed

lemma dma_halves: "push_bit 32 (ucast (ucast (PCI_DMA_H a) :: u32)) OR ucast (ucast (PCI_DMA_L a) :: u32) = (a :: u64)"
proof (rule bit_word_eqI)
  fix n assume n: "n < LENGTH(64)"
  have m: "(0xffffffff :: u64) = mask 32" by (simp add: mask_eq_exp_minus_1)
  show "bit (push_bit 32 (ucast (ucast (PCI_DMA_H a) :: u32)) OR ucast (ucast (PCI_DMA_L a) :: u32) :: u64) n = bit a n"
    using n by (cases "n < 32") (auto simp: PCI_DMA_H_def PCI_DMA_L_def m bit_simps)
qed

definition sw_word1 :: "xlnx_dma_dev \<Rightarrow> qdma_descq \<Rightarrow> u32" where
  "sw_word1 xdev q = snd (make_sw_context xdev q (replicate 4 0)) ! 1"

lemma sw_word1_fields:
  assumes "dq_channel q = 0 \<or> dq_channel q = 1"
  shows "sw_word1 xdev q =
      push_bit 0 1 OR push_bit 12 (ucast (qc_desc_rng_sz_idx (dq_conf q)))
      OR push_bit 3 (flag (qc_wbk_acc_en (dq_conf q))) OR push_bit 2 (flag (qc_wbk_pend_chk (dq_conf q)))
      OR push_bit 4 (ucast (xd_func_id xdev)) OR push_bit 18 (flag (qc_bypass (dq_conf q)))
      OR push_bit 20 (flag (qc_wbk_en (dq_conf q))) OR push_bit 21 (flag (qc_irq_en (dq_conf q)))
      OR push_bit 17 (flag (\<not> qc_st (dq_conf q)))
      OR push_bit 19 (flag (\<not> qc_st (dq_conf q) \<and> dq_channel q = 1))
      OR push_bit 1 (flag (qc_st (dq_conf q) \<and> qc_c2h (dq_conf q) \<and> qc_fetch_credit (dq_conf q)))
      OR push_bit 16 (flag (qc_st (dq_conf q) \<and> \<not> qc_c2h (dq_conf q)))"
proof -
  have p: "push_bit 16 2 = (push_bit 17 1 :: u32)" by simp
  show ?thesis
    using assms unfolding sw_word1_def make_sw_context_def Let_def p
    by (cases "qc_st (dq_conf q)"; cases "qc_c2h (dq_conf q)"; elim disjE)
      (simp_all add: ac_simps)
qed

lemmas sw_word1_bits = arg_cong [OF sw_word1_fields, where f = "\<lambda>w. bit w n" for n, unfolded bit_fields]

text \<open>
  The software context of a queue, read back by the hardware's field layout: words 3 and
  2 are the descriptor ring's bus address, and in word 1 the queue-enable bit, the credit,
  pending-check and accumulation flags, the function, the ring size index, the descriptor size
  code of the queue's kind, and the bypass, channel, writeback and interrupt bits each stand in
  their own field.
\<close>

theorem sw_context_fields:
  assumes "dq_channel q = 0 \<or> dq_channel q = 1"
  shows "case make_sw_context xdev q (replicate 4 0) of (rv, d) \<Rightarrow>
      rv = 0 \<and> length d = 4 \<and> d ! 0 = 0
    \<and> push_bit 32 (ucast (d ! 3)) OR ucast (d ! 2) = dq_desc_bus q
    \<and> bit (d ! 1) 0
    \<and> bit (d ! 1) 1 = (qc_st (dq_conf q) \<and> qc_c2h (dq_conf q) \<and> qc_fetch_credit (dq_conf q))
    \<and> bit (d ! 1) 2 = qc_wbk_pend_chk (dq_conf q) \<and> bit (d ! 1) 3 = qc_wbk_acc_en (dq_conf q)
    \<and> drop_bit 4 (d ! 1) AND 0xFF = ucast (xd_func_id xdev)
    \<and> drop_bit 12 (d ! 1) AND 0xF = ucast (qc_desc_rng_sz_idx (dq_conf q))
    \<and> bit (d ! 1) 16 = (qc_st (dq_conf q) \<and> \<not> qc_c2h (dq_conf q)) \<and> bit (d ! 1) 17 = (\<not> qc_st (dq_conf q))
    \<and> bit (d ! 1) 18 = qc_bypass (dq_conf q)
    \<and> bit (d ! 1) 19 = (\<not> qc_st (dq_conf q) \<and> dq_channel q = 1)
    \<and> bit (d ! 1) 20 = qc_wbk_en (dq_conf q) \<and> bit (d ! 1) 21 = qc_irq_en (dq_conf q)"
proof -
  have m: "(0xFF :: u32) = mask 8" "(0xF :: u32) = mask 4"
    by (simp_all add: mask_eq_exp_minus_1)
  define d where "d = snd (make_sw_context xdev q (replicate 4 0))"
  have d: "make_sw_context xdev q (replicate 4 0) = (0, d)" "length d = 4" "d ! 0 = 0"
    "d ! 3 = ucast (PCI_DMA_H (dq_desc_bus q))" "d ! 2 = ucast (PCI_DMA_L (dq_desc_bus q))"
    "d ! 1 = sw_word1 xdev q"
    by (simp_all add: d_def sw_word1_def) (simp_all add: make_sw_context_def Let_def)
  have bits: "bit (d ! 1) n = bit (sw_word1 xdev q) n" for n
    by (simp only: d)
  note bits = this [unfolded sw_word1_bits [OF assms]]
  have f: "drop_bit 4 (d ! 1) AND 0xFF = ucast (xd_func_id xdev)"
    unfolding m by (rule extract_field) (simp_all only: bits, simp_all)
  have r: "drop_bit 12 (d ! 1) AND 0xF = ucast (qc_desc_rng_sz_idx (dq_conf q))"
    unfolding m by (rule extract_field) (simp_all only: bits, simp_all)
  show ?thesis
    using f r bits [of 0] bits [of 1] bits [of 2] bits [of 3] bits [of 16] bits [of 17] bits [of 18]
      bits [of 19] bits [of 20] bits [of 21]
    by (simp add: d(1-5) dma_halves)
qed

text \<open>
  The writeback context of a streaming C2H queue spreads the completion ring's bus address
  over three words without losing a bit: put together again, the pieces are the address without
  its low six bits; the ring size, counter and timer indices, the trigger mode, the function and
  the flags are in their fields, and the colour and valid bits are set.
\<close>

theorem wrb_context_fields:
  "case make_wrb_context xdev q (replicate 4 0) of (rv, d) \<Rightarrow>
      rv = 0 \<and> length d = 4
    \<and> (ucast (drop_bit 28 (d ! 0)) OR push_bit 4 (ucast (d ! 1))
        OR push_bit 36 (ucast (take_bit 22 (d ! 2)))) = drop_bit 6 (dq_desc_wrb_bus q)
    \<and> drop_bit 24 (d ! 0) AND 0xF = ucast (qc_cmpl_rng_sz_idx (dq_conf q))
    \<and> drop_bit 17 (d ! 0) AND 0xF = ucast (qc_cmpl_timer_idx (dq_conf q))
    \<and> drop_bit 13 (d ! 0) AND 0xF = ucast (qc_cmpl_cnt_th_idx (dq_conf q))
    \<and> drop_bit 5 (d ! 0) AND 0xFF = ucast (xd_func_id xdev)
    \<and> drop_bit 2 (d ! 0) AND 0x7 = ucast (qc_cmpl_trig_mode (dq_conf q))
    \<and> bit (d ! 0) 0 = qc_cmpl_stat_en (dq_conf q) \<and> bit (d ! 0) 1 = qc_irq_en (dq_conf q)
    \<and> bit (d ! 0) 23 \<and> drop_bit 22 (d ! 2) = ucast (qc_cmpl_desc_sz (dq_conf q))
    \<and> bit (d ! 3) 24"
proof -
  have m: "(0xFF :: u32) = mask 8" "(0xF :: u32) = mask 4" "(0x7 :: u32) = mask 3"
    "(0xF :: u64) = mask 4" "(0xFFFFFFFF :: u64) = mask 32" "(0x3FFFFF :: u64) = mask 22"
    "(0x3FFFFF :: u32) = mask 22" "(0xffffffff :: u64) = mask 32"
    by (simp_all add: mask_eq_exp_minus_1)
  define d where "d = snd (make_wrb_context xdev q (replicate 4 0))"
  define B where "B = (push_bit 26 (PCI_DMA_H (dq_desc_wrb_bus q))
                       OR drop_bit 6 (PCI_DMA_L (dq_desc_wrb_bus q)))"
  have d: "make_wrb_context xdev q (replicate 4 0) = (0, d)" "length d = 4"
    by (simp_all add: d_def make_wrb_context_def Let_def)
  have B: "B = drop_bit 6 (dq_desc_wrb_bus q)"
    unfolding B_def PCI_DMA_H_def PCI_DMA_L_def m
  proof (rule bit_word_eqI)
    fix n
    show "bit (push_bit 26 (drop_bit 16 (drop_bit 16 (dq_desc_wrb_bus q))) OR
        drop_bit 6 (dq_desc_wrb_bus q AND mask 32)) n = bit (drop_bit 6 (dq_desc_wrb_bus q)) n"
      by (cases "n < 26") (auto simp: bit_simps dest: bit_imp_le_length)
  qed
  have w0: "d ! 0 = push_bit 0 (flag (qc_cmpl_stat_en (dq_conf q)))
      OR push_bit 1 (flag (qc_irq_en (dq_conf q)))
      OR push_bit 2 (ucast (qc_cmpl_trig_mode (dq_conf q))) OR push_bit 5 (ucast (xd_func_id xdev))
      OR push_bit 17 (ucast (qc_cmpl_timer_idx (dq_conf q)))
      OR push_bit 13 (ucast (qc_cmpl_cnt_th_idx (dq_conf q))) OR push_bit 23 1
      OR push_bit 24 (ucast (qc_cmpl_rng_sz_idx (dq_conf q))) OR push_bit 28 (ucast (ucast B :: u4))"
  proof -
    have "ucast (B AND mask 4) AND mask 4 = (ucast (ucast B :: u4) :: u32)"
      by (rule bit_word_eqI) (auto simp: bit_simps)
    moreover have "ucast (xd_func_id xdev) AND mask 8 = (ucast (xd_func_id xdev) :: u32)"
      by (rule bit_word_eqI) (auto simp: bit_simps dest: bit_imp_le_length)
    ultimately show ?thesis
      unfolding d_def make_wrb_context_def Let_def B_def [symmetric] m by simp
  qed
  note d0 = arg_cong [OF w0, where f = "\<lambda>w. bit w n" for n, unfolded bit_fields]
  have d1: "bit (d ! 1) n \<longleftrightarrow> n < 32 \<and> bit B (n + 4)" for n
    unfolding d_def make_wrb_context_def Let_def B_def [symmetric] m
    by (auto simp: bit_simps add.commute)
  have d2: "bit (d ! 2) n \<longleftrightarrow> n < 22 \<and> bit B (n + 36)
      \<or> 22 \<le> n \<and> n < 24 \<and> bit (qc_cmpl_desc_sz (dq_conf q)) (n - 22)" for n
    unfolding d_def make_wrb_context_def Let_def B_def [symmetric] m
    by (auto simp: bit_simps add.commute dest: bit_imp_le_length)
  have d3: "bit (d ! 3) 24"
    unfolding d_def make_wrb_context_def Let_def by (simp add: bit_simps)
  have Bz: "bit B n \<Longrightarrow> n < 58" for n
    by (auto simp: B bit_simps dest: bit_imp_le_length)
  have b28: "drop_bit 28 (d ! 0) = ucast (ucast B :: u4)"
    by (rule bit_word_eqI) (auto simp: bit_drop_bit_eq d0 bit_ucast_iff dest: bit_imp_le_length)
  have base: "(ucast (drop_bit 28 (d ! 0)) OR push_bit 4 (ucast (d ! 1))
      OR push_bit 36 (ucast (take_bit 22 (d ! 2)))) = drop_bit 6 (dq_desc_wrb_bus q)"
    unfolding B [symmetric] b28
  proof (rule bit_word_eqI)
    fix n
    show "bit (ucast (ucast (ucast B :: u4) :: u32) OR push_bit 4 (ucast (d ! 1))
      OR push_bit 36 (ucast (take_bit 22 (d ! 2))) :: u64) n = bit B n"
      using Bz [of n] by (cases "n < 4"; cases "n < 36") (auto simp: bit_simps d1 [unfolded One_nat_def] d2)
  qed
  have dz: "drop_bit 22 (d ! 2) = ucast (qc_cmpl_desc_sz (dq_conf q))"
    by (rule bit_word_eqI) (auto simp: bit_drop_bit_eq d2 bit_ucast_iff dest: bit_imp_le_length)
  have f: "drop_bit 24 (d ! 0) AND mask 4 = ucast (qc_cmpl_rng_sz_idx (dq_conf q))"
    "drop_bit 17 (d ! 0) AND mask 4 = ucast (qc_cmpl_timer_idx (dq_conf q))"
    "drop_bit 13 (d ! 0) AND mask 4 = ucast (qc_cmpl_cnt_th_idx (dq_conf q))"
    "drop_bit 5 (d ! 0) AND mask 8 = ucast (xd_func_id xdev)"
    "drop_bit 2 (d ! 0) AND mask 3 = ucast (qc_cmpl_trig_mode (dq_conf q))"
    by (rule extract_field; (simp only: d0)?; simp)+
  show ?thesis
    unfolding d(1) prod.case m using f dz base d3 d(2) d0 [of 0] d0 [of 1] d0 [of 23] by simp
qed

theorem sw_context_fields_witness:
  "case make_sw_context sample_dev (zero_descq\<lparr>dq_desc_bus := 0x123456789000\<rparr>) (replicate 4 0) of (rv, d) \<Rightarrow>
    rv = 0 \<and> push_bit 32 (ucast (d ! 3)) OR ucast (d ! 2) = (0x123456789000 :: u64)"
proof -
  let ?q = "zero_descq\<lparr>dq_desc_bus := 0x123456789000\<rparr>"
  have ch: "dq_channel ?q = 0 \<or> dq_channel ?q = 1" by (simp add: zero_descq_def)
  have bus: "dq_desc_bus ?q = 0x123456789000" by simp
  from sw_context_fields [OF ch, of sample_dev] show ?thesis
    unfolding bus split_beta by (elim conjE) (intro conjI)
qed

text \<open>
  The interrupt aggregation context: for a vector below 64 and ring size code 0 the two
  words hold the ring's bus address without its low twelve bits, the vector, and the valid and
  colour bits.
\<close>

theorem intr_context_base:
  assumes "ic_vec_id e < 64" "dc_intr_rngsz (xd_conf xdev) = 0"
  shows "case intr_context_words xdev e of ws \<Rightarrow>
      ucast (drop_bit 9 (ws ! 0)) OR push_bit 23 (ucast (take_bit 29 (ws ! 1))) = drop_bit 12 (ic_ring_bus e)
    \<and> drop_bit 1 (ws ! 0) AND 0x3F = ucast (ic_vec_id e) \<and> bit (ws ! 0) 0 \<and> bit (ws ! 0) 8"
proof -
  have m: "(0x7FFFFF :: u64) = mask 23" "(0x7FFFFF :: u32) = mask 23" "(0x1FFFFFFF :: u64) = mask 29"
    "(0x1FFFFFFF :: u32) = mask 29" "(0xffffffff :: u64) = mask 32" "(0x3F :: u32) = mask 6"
    by (simp_all add: mask_eq_exp_minus_1)
  define B where "B = (push_bit 20 (PCI_DMA_H (ic_ring_bus e)) OR drop_bit 12 (PCI_DMA_L (ic_ring_bus e)))"
  have B: "B = drop_bit 12 (ic_ring_bus e)"
    unfolding B_def PCI_DMA_H_def PCI_DMA_L_def m
  proof (rule bit_word_eqI)
    fix n
    show "bit (push_bit 20 (drop_bit 16 (drop_bit 16 (ic_ring_bus e))) OR
        drop_bit 12 (ic_ring_bus e AND mask 32)) n = bit (drop_bit 12 (ic_ring_bus e)) n"
      by (cases "n < 20") (auto simp: bit_simps dest: bit_imp_le_length)
  qed
  define ws where "ws = intr_context_words xdev e"
  define v where "v = (ucast (ic_vec_id e) :: 6 word)"
  have v: "ucast (ic_vec_id e) = (ucast v :: u32)"
  proof (rule bit_word_eqI)
    fix n
    have "unat (ic_vec_id e) < 2 ^ 6"
      using assms(1) by (simp add: word_less_nat_alt)
    then have "bit (ic_vec_id e) k \<Longrightarrow> k < 6" for k
      by (metis bit_take_bit_iff unsigned_take_bit_eq take_bit_nat_eq_self word_unat_eq_iff)
    then show "bit (ucast (ic_vec_id e) :: u32) n = bit (ucast v :: u32) n"
      by (auto simp: v_def bit_ucast_iff dest: bit_imp_le_length)
  qed
  have w0: "ws ! 0 = push_bit 0 1 OR push_bit 1 (ucast v) OR push_bit 9 (ucast (ucast B :: 23 word)) OR push_bit 8 1"
  proof -
    have "ucast (B AND mask 23) AND mask 23 = (ucast (ucast B :: 23 word) :: u32)"
      by (rule bit_word_eqI) (auto simp: bit_simps)
    then show ?thesis
      unfolding ws_def intr_context_words_def Let_def B_def [symmetric] m v by simp
  qed
  note b0 = arg_cong [OF w0, where f = "\<lambda>w. bit w n" for n, unfolded bit_fields]
  have b1: "bit (ws ! 1) n \<longleftrightarrow> n < 29 \<and> bit B (n + 23)" for n
    unfolding ws_def intr_context_words_def Let_def B_def [symmetric] m
    using assms(2) by (auto simp: bit_simps add.commute)
  have Bz: "bit B n \<Longrightarrow> n < 52" for n
    by (auto simp: B bit_simps dest: bit_imp_le_length)
  have "drop_bit 9 (ws ! 0) = ucast (ucast B :: 23 word)"
  proof (rule bit_word_eqI)
    fix n
    show "bit (drop_bit 9 (ws ! 0)) n = bit (ucast (ucast B :: 23 word) :: u32) n"
      unfolding bit_drop_bit_eq comp_def b0
      using bit_imp_le_length [of "ucast B :: 23 word" n] by (auto simp: bit_ucast_iff)
  qed
  then have base: "ucast (drop_bit 9 (ws ! 0)) OR push_bit 23 (ucast (take_bit 29 (ws ! 1)))
      = drop_bit 12 (ic_ring_bus e)"
  proof (simp only: B [symmetric], intro bit_word_eqI)
    fix n
    show "bit (ucast (ucast (ucast B :: 23 word) :: u32) OR push_bit 23 (ucast (take_bit 29 (ws ! 1))) :: u64) n
        = bit B n"
      using Bz [of n] by (cases "n < 23") (auto simp: bit_simps b1 [unfolded One_nat_def])
  qed
  have vec: "drop_bit 1 (ws ! 0) AND mask 6 = ucast v"
    by (rule extract_field; (simp only: b0)?; simp)
  show ?thesis
    using base vec b0 [of 0] b0 [of 8] by (simp add: m v flip: ws_def)
qed

theorem intr_context_base_witness:
  "case intr_context_words sample_dev \<lparr>ic_vec_id = 2, ic_num_entries = 512, ic_ring_bus = 0xABCDE000,
      ic_ring = [], ic_color = 1, ic_pidx = 0, ic_cidx = 0\<rparr> of ws \<Rightarrow>
    ucast (drop_bit 9 (ws ! 0)) OR push_bit 23 (ucast (take_bit 29 (ws ! 1))) = (0xABCDE :: u64)"
  using intr_context_base [of "\<lparr>ic_vec_id = 2, ic_num_entries = 512, ic_ring_bus = 0xABCDE000,
      ic_ring = [], ic_color = 1, ic_pidx = 0, ic_cidx = 0\<rparr>" sample_dev]
  by (simp add: sample_dev_def)

text \<open>
  The ring size code is or'ed into the word that holds the high part of the address, at bit 1
  (\<open>S_INT_COAL_W1_VEC_SIZE\<close>): with code 1 a ring at address 0 is given to the device as one
  at a different address.
\<close>

lemma intr_context_overlap:
  "case intr_context_words (sample_dev\<lparr>xd_conf := (xd_conf sample_dev)\<lparr>dc_intr_rngsz := 1\<rparr>\<rparr>)
      \<lparr>ic_vec_id = 2, ic_num_entries = 512, ic_ring_bus = 0, ic_ring = [], ic_color = 1, ic_pidx = 0, ic_cidx = 0\<rparr>
    of ws \<Rightarrow> take_bit 29 (ws ! 1) = 2"
  by (simp add: intr_context_words_def PCI_DMA_H_def PCI_DMA_L_def)

text \<open>
  C30.  On a device with a context memory, \<open>qdma_descq_context_setup\<close> succeeds, and what the
  driver then reads back for the queue is the software context it made from the queue's state,
  cleared hardware and credit contexts, and for a streaming C2H queue the prefetch and
  writeback contexts made from the queue's state.
\<close>

theorem context_setup_installs:
  assumes "ctxt_device ivd E" "unat (dq_qidx_hw q) < 2 ^ 11"
  shows "case qdma_descq_context_setup E xdev q tr of (rv, tr1) \<Rightarrow>
    case qdma_descq_context_read E (dq_qidx_hw q) (qc_st (dq_conf q)) (qc_c2h (dq_conf q)) tr1 of (rv', c, tr2) \<Rightarrow>
      rv = 0 \<and> rv' = 0 \<and> cx_sw c = snd (make_sw_context xdev q (replicate 4 0))
      \<and> cx_hw c = [0, 0] \<and> cx_cr c = [0]
      \<and> cx_prefetch c = (if qc_st (dq_conf q) \<and> qc_c2h (dq_conf q)
          then snd (make_prefetch_context q (replicate 2 0)) else [0, 0])
      \<and> cx_wrb c = (if qc_st (dq_conf q) \<and> qc_c2h (dq_conf q)
          then snd (make_wrb_context xdev q (replicate 4 0)) else [0, 0, 0, 0])"
proof -
  let ?st = "qc_st (dq_conf q)" and ?c2h = "qc_c2h (dq_conf q)"
  obtain t1 where cl: "qdma_descq_context_clear E (dq_qidx_hw q) ?st ?c2h True tr = (0, t1)"
    using context_clear_mem [OF assms] by blast
  obtain t2 where rd: "hw_indirect_ctext_prog E (dq_qidx_hw q) QDMA_CTXT_CMD_RD QDMA_CTXT_SEL_QID2VEC
      (Some [0]) 1 False t1 = (1, Some (take 1 (cd_mem (ctxt_dev_of ivd t1)
        (ctxt_sel_code QDMA_CTXT_SEL_QID2VEC) (dq_qidx_hw q)) @ drop 1 [0]), t2)"
    using ctext_prog_rd [OF assms, of 1 t1 QDMA_CTXT_SEL_QID2VEC _ "[0]" False] assms(1)
      length_cd_mem [of ivd t1 "ctxt_sel_code QDMA_CTXT_SEL_QID2VEC" "dq_qidx_hw q"]
    by (auto simp: ctxt_device_def)
  obtain v where q2v: "make_qid2vec_context E xdev q t1 = (1, [v], t2)"
    unfolding make_qid2vec_context_def rd prod.case by (simp add: Let_def split_beta)
  define c where "c = zero_context\<lparr>cx_sw := snd (make_sw_context xdev q (replicate 4 0)), cx_qid2vec := [v],
      cx_prefetch := if ?st \<and> ?c2h then snd (make_prefetch_context q (replicate 2 0)) else [0, 0],
      cx_wrb := if ?st \<and> ?c2h then snd (make_wrb_context xdev q (replicate 4 0)) else [0, 0, 0, 0]\<rparr>"
  have r: "replicate 4 (0 :: u32) = [0, 0, 0, 0]" "replicate 2 (0 :: u32) = [0, 0]"
    by (simp_all add: numeral_eq_Suc)
  have su: "qdma_descq_context_setup E xdev q tr
      = qdma_descq_context_program E (dq_qidx_hw q) ?st ?c2h c t2"
    by (simp add: qdma_descq_context_setup_def cl q2v Let_def zero_context_def c_def r)
  have len: "length (cx_sw c) = 4" "length (cx_qid2vec c) = 1" "length (cx_prefetch c) = 2" "length (cx_wrb c) = 4"
    by (simp_all add: c_def make_sw_context_def make_prefetch_context_def make_wrb_context_def Let_def)
  show ?thesis
    unfolding su
    using context_program_readback [OF assms len, where st = ?st and c2h = ?c2h and tr = t2]
    by (auto simp: c_def split_beta)
qed

theorem context_setup_installs_witness:
  "case qdma_descq_context_setup ctxt_env sample_dev (zero_descq\<lparr>dq_desc_bus := 0x5000\<rparr>) [] of (rv, tr1) \<Rightarrow>
    case qdma_descq_context_read ctxt_env 0 False False tr1 of (rv', c, tr2) \<Rightarrow>
      rv = 0 \<and> rv' = 0 \<and> cx_sw c = snd (make_sw_context sample_dev (zero_descq\<lparr>dq_desc_bus := 0x5000\<rparr>) (replicate 4 0))"
  using context_setup_installs [OF ctxt_env_device, where q = "zero_descq\<lparr>dq_desc_bus := 0x5000\<rparr>"
      and xdev = sample_dev and tr = "[]"]
  by (auto simp: zero_descq_def zero_queue_conf_def)

end
