(* ===== verification/Qdma_Msg.thy ===== *)
theory Qdma_Msg
  imports Qdma_Context
begin

text \<open>
  The messages of the mailbox between a virtual and the physical function
  (\<open>libqdma/qdma_mbox.h\<close>).  \<open>struct mbox_msg\<close> is a union over 32 words; a message is the list of
  its words, the header is read from and written into word 0, and each body has an accessor per
  field and a setter, so that a field written through one member of the union is read through
  another exactly where the memory overlaps.
\<close>

section \<open>The header\<close>

definition MBOX_MSG_REG_MAX :: nat where [reg_defs]: "MBOX_MSG_REG_MAX = 32"

type_synonym mbox_msg = "u32 list"

record mbox_msg_hdr =
  mh_op :: u4
  mh_sent :: bool
  mh_rcv :: bool
  mh_ack :: bool
  mh_wait :: bool
  mh_src :: u8
  mh_dst :: u8
  mh_status :: u8

definition hdr_word :: "mbox_msg_hdr \<Rightarrow> u32" where
  "hdr_word h = ucast (mh_op h) OR push_bit 4 (flag (mh_sent h)) OR push_bit 5 (flag (mh_rcv h))
     OR push_bit 6 (flag (mh_ack h)) OR push_bit 7 (flag (mh_wait h)) OR push_bit 8 (ucast (mh_src h))
     OR push_bit 16 (ucast (mh_dst h)) OR push_bit 24 (ucast (mh_status h))"

definition word_hdr :: "u32 \<Rightarrow> mbox_msg_hdr" where
  "word_hdr w = \<lparr>mh_op = ucast w, mh_sent = bit w 4, mh_rcv = bit w 5, mh_ack = bit w 6,
     mh_wait = bit w 7, mh_src = ucast (drop_bit 8 w), mh_dst = ucast (drop_bit 16 w),
     mh_status = ucast (drop_bit 24 w)\<rparr>"

definition msg_hdr :: "mbox_msg \<Rightarrow> mbox_msg_hdr" where
  "msg_hdr m = word_hdr (m ! 0)"

definition upd_hdr :: "(mbox_msg_hdr \<Rightarrow> mbox_msg_hdr) \<Rightarrow> mbox_msg \<Rightarrow> mbox_msg" where
  "upd_hdr f m = m[0 := hdr_word (f (msg_hdr m))]"

text \<open>What \<open>memset(&m, 0, sizeof(m))\<close> leaves.\<close>

definition zero_msg :: mbox_msg where
  "zero_msg = replicate MBOX_MSG_REG_MAX 0"

datatype mbox_msg_op =
    MBOX_OP_HELLO | MBOX_OP_BYE | MBOX_OP_RESET | MBOX_OP_FMAP | MBOX_OP_CSR | MBOX_OP_INTR_CTXT
  | MBOX_OP_QCTXT_WRT | MBOX_OP_QCTXT_RD | MBOX_OP_QCTXT_CLR

fun mbox_op_code :: "mbox_msg_op \<Rightarrow> u4" where
  "mbox_op_code MBOX_OP_HELLO = 1"
| "mbox_op_code MBOX_OP_BYE = 2"
| "mbox_op_code MBOX_OP_RESET = 3"
| "mbox_op_code MBOX_OP_FMAP = 4"
| "mbox_op_code MBOX_OP_CSR = 5"
| "mbox_op_code MBOX_OP_INTR_CTXT = 6"
| "mbox_op_code MBOX_OP_QCTXT_WRT = 7"
| "mbox_op_code MBOX_OP_QCTXT_RD = 8"
| "mbox_op_code MBOX_OP_QCTXT_CLR = 9"

text \<open>The case labels of the receivers' \<open>switch\<close>; \<open>None\<close> is a value without a label.\<close>

definition mbox_op_of :: "u4 \<Rightarrow> mbox_msg_op option" where
  "mbox_op_of c = find (\<lambda>op. mbox_op_code op = c)
     [MBOX_OP_HELLO, MBOX_OP_BYE, MBOX_OP_RESET, MBOX_OP_FMAP, MBOX_OP_CSR, MBOX_OP_INTR_CTXT,
      MBOX_OP_QCTXT_WRT, MBOX_OP_QCTXT_RD, MBOX_OP_QCTXT_CLR]"

section \<open>The bodies\<close>

text \<open>\<open>struct mbox_msg_fmap\<close>: \<open>qbase\<close> is word 1, \<open>qmax\<close> word 2.\<close>

definition fmap_qbase :: "mbox_msg \<Rightarrow> u32" where "fmap_qbase m = m ! 1"
definition fmap_qmax :: "mbox_msg \<Rightarrow> u32" where "fmap_qmax m = m ! 2"

text \<open>\<open>struct mbox_msg_csr\<close>: \<open>type\<close> is word 1, \<open>v\<close> words 2 to 17, \<open>wb_acc\<close> word 18.\<close>

datatype mbox_csr_type = CSR_UNDEFINED | CSR_RNGSZ | CSR_BUFSZ | CSR_TIMER_CNT | CSR_CNT_TH

fun csr_type_code :: "mbox_csr_type \<Rightarrow> u32" where
  "csr_type_code CSR_UNDEFINED = 0"
| "csr_type_code CSR_RNGSZ = 1"
| "csr_type_code CSR_BUFSZ = 2"
| "csr_type_code CSR_TIMER_CNT = 3"
| "csr_type_code CSR_CNT_TH = 4"

definition csr_type_of :: "u32 \<Rightarrow> mbox_csr_type option" where
  "csr_type_of c = find (\<lambda>t. csr_type_code t = c) [CSR_RNGSZ, CSR_BUFSZ, CSR_TIMER_CNT, CSR_CNT_TH]"

definition csr_msg_type :: "mbox_msg \<Rightarrow> u32" where "csr_msg_type m = m ! 1"
definition csr_msg_v :: "mbox_msg \<Rightarrow> u32 list" where "csr_msg_v m = take 16 (drop 2 m)"
definition csr_msg_wb_acc :: "mbox_msg \<Rightarrow> u32" where "csr_msg_wb_acc m = m ! 18"

definition set_csr_v :: "u32 list \<Rightarrow> mbox_msg \<Rightarrow> mbox_msg" where
  "set_csr_v v m = take 2 m @ v @ drop 18 m"

text \<open>
  \<open>struct mbox_msg_qctxt\<close>: the flags are bits of byte 0 of word 1, \<open>qid\<close> its upper half, and
  the context words 2 to 15.
\<close>

definition qctxt_c2h :: "mbox_msg \<Rightarrow> bool" where "qctxt_c2h m = bit (m ! 1) 2"
definition qctxt_st :: "mbox_msg \<Rightarrow> bool" where "qctxt_st m = bit (m ! 1) 3"
definition qctxt_qid :: "mbox_msg \<Rightarrow> u16" where "qctxt_qid m = ucast (drop_bit 16 (m ! 1))"

definition qctxt_word1 :: "bool \<Rightarrow> bool \<Rightarrow> bool \<Rightarrow> bool \<Rightarrow> u16 \<Rightarrow> u32" where
  "qctxt_word1 clear verify c2h st qid =
     flag clear OR push_bit 1 (flag verify) OR push_bit 2 (flag c2h) OR push_bit 3 (flag st)
       OR push_bit 16 (ucast qid)"

definition qctxt_context :: "mbox_msg \<Rightarrow> hw_descq_context" where
  "qctxt_context m = \<lparr>cx_sw = take 4 (drop 2 m), cx_prefetch = take 2 (drop 6 m),
     cx_wrb = take 4 (drop 8 m), cx_hw = take 2 (drop 12 m), cx_cr = take 1 (drop 14 m),
     cx_qid2vec = take 1 (drop 15 m)\<rparr>"

definition context_words :: "hw_descq_context \<Rightarrow> u32 list" where
  "context_words c = cx_sw c @ cx_prefetch c @ cx_wrb c @ cx_hw c @ cx_cr c @ cx_qid2vec c"

definition set_qctxt_context :: "hw_descq_context \<Rightarrow> mbox_msg \<Rightarrow> mbox_msg" where
  "set_qctxt_context c m = take 2 m @ context_words c @ drop 16 m"

text \<open>\<open>struct mbox_msg_intr_ctxt\<close>: \<open>clear\<close>, \<open>vec_base\<close> and \<open>vec_cnt\<close> in word 1, \<open>w\<close> from word 2.\<close>

definition intr_ctxt_word1 :: "bool \<Rightarrow> u8 \<Rightarrow> u8 \<Rightarrow> u32" where
  "intr_ctxt_word1 clear vec_base vec_cnt =
     flag clear OR push_bit 16 (ucast vec_base) OR push_bit 24 (ucast vec_cnt)"

definition set_intr_w :: "u32 list \<Rightarrow> mbox_msg \<Rightarrow> mbox_msg" where
  "set_intr_w w m = take 2 m @ w @ drop (2 + length w) m"

section \<open>Reading back what was written\<close>

text \<open>A context whose arrays have the lengths of the C structure.\<close>

definition context_ok :: "hw_descq_context \<Rightarrow> bool" where
  "context_ok c \<longleftrightarrow> length (cx_sw c) = 4 \<and> length (cx_prefetch c) = 2 \<and> length (cx_wrb c) = 4
     \<and> length (cx_hw c) = 2 \<and> length (cx_cr c) = 1 \<and> length (cx_qid2vec c) = 1"

lemma bit_ucast_u8: "bit (ucast (w :: u8) :: u32) n \<longleftrightarrow> n < 8 \<and> bit w n"
  by (auto simp: bit_ucast_iff dest: bit_imp_le_length)

lemma bit_ucast_u4: "bit (ucast (w :: u4) :: u32) n \<longleftrightarrow> n < 4 \<and> bit w n"
  by (auto simp: bit_ucast_iff dest: bit_imp_le_length)

lemma bit_ucast_u16: "bit (ucast (w :: u16) :: u32) n \<longleftrightarrow> n < 16 \<and> bit w n"
  by (auto simp: bit_ucast_iff dest: bit_imp_le_length)

lemmas bit_hdr = bit_or_iff bit_push_bit_iff bit_ucast_u8 bit_ucast_u4 bit_ucast_u16

lemma bit_hdr_word:
  "bit (hdr_word h) n =
     (if n < 4 then bit (mh_op h) n else if n = 4 then mh_sent h else if n = 5 then mh_rcv h
      else if n = 6 then mh_ack h else if n = 7 then mh_wait h
      else if n < 16 then bit (mh_src h) (n - 8) else if n < 24 then bit (mh_dst h) (n - 16)
      else bit (mh_status h) (n - 24))"
proof -
  have high: "bit (mh_status h) (n - 24) \<Longrightarrow> 24 \<le> n \<Longrightarrow> n < 32"
    using bit_imp_le_length [of "mh_status h" "n - 24"] by simp
  then show ?thesis
    unfolding hdr_word_def by (auto simp: bit_hdr)
qed

lemma word_hdr_hdr_word [simp]: "word_hdr (hdr_word h) = h"
proof -
  have "ucast (hdr_word h) = mh_op h"
    by (rule bit_word_eqI) (simp add: bit_ucast_iff bit_hdr_word)
  moreover have "ucast (drop_bit 8 (hdr_word h)) = mh_src h" "ucast (drop_bit 16 (hdr_word h)) = mh_dst h"
    "ucast (drop_bit 24 (hdr_word h)) = mh_status h"
    by (rule bit_word_eqI; simp add: bit_ucast_iff bit_drop_bit_eq bit_hdr_word)+
  ultimately show ?thesis by (simp add: word_hdr_def bit_hdr_word)
qed

lemma hdr_word_word_hdr [simp]: "hdr_word (word_hdr w) = w"
  by (rule bit_word_eqI)
    (auto simp: bit_hdr_word word_hdr_def bit_ucast_iff bit_drop_bit_eq not_less dest: bit_imp_le_length)

lemma msg_hdr_upd [simp]: "m \<noteq> [] \<Longrightarrow> msg_hdr (upd_hdr f m) = f (msg_hdr m)"
  by (simp add: msg_hdr_def upd_hdr_def)

lemma length_upd_hdr [simp]: "length (upd_hdr f m) = length m"
  by (simp add: upd_hdr_def)

lemma upd_hdr_body [simp]: "i \<noteq> 0 \<Longrightarrow> upd_hdr f m ! i = m ! i"
  by (simp add: upd_hdr_def)

lemma drop_upd_hdr [simp]: "0 < n \<Longrightarrow> drop n (upd_hdr f m) = drop n m"
  by (simp add: upd_hdr_def)

lemma upd_hdr_id: "m \<noteq> [] \<Longrightarrow> f (msg_hdr m) = msg_hdr m \<Longrightarrow> upd_hdr f m = m"
  by (simp add: upd_hdr_def msg_hdr_def)

lemma mbox_op_of_code [simp]: "mbox_op_of (mbox_op_code op) = Some op"
  by (cases op) (simp_all add: mbox_op_of_def)

lemma csr_type_of_code: "csr_type_of (csr_type_code t) = (if t = CSR_UNDEFINED then None else Some t)"
  by (cases t) (simp_all add: csr_type_of_def)

lemma length_context_words: "context_ok c \<Longrightarrow> length (context_words c) = 14"
  by (simp add: context_ok_def context_words_def)

lemma length_set_qctxt [simp]:
  "context_ok c \<Longrightarrow> length m = MBOX_MSG_REG_MAX \<Longrightarrow> length (set_qctxt_context c m) = MBOX_MSG_REG_MAX"
  by (simp add: set_qctxt_context_def length_context_words MBOX_MSG_REG_MAX_def)

lemma bit_qctxt_word1:
  "bit (qctxt_word1 clear verify c2h st qid) n =
     (if n = 0 then clear else if n = 1 then verify else if n = 2 then c2h else if n = 3 then st
      else 16 \<le> n \<and> bit qid (n - 16))"
proof -
  have "bit qid (n - 16) \<Longrightarrow> 16 \<le> n \<Longrightarrow> n < 32"
    using bit_imp_le_length [of qid "n - 16"] by simp
  then show ?thesis unfolding qctxt_word1_def bit_hdr bit_flag by auto
qed

lemma qctxt_word1_qid: "ucast (drop_bit 16 (qctxt_word1 clear verify c2h st qid)) = qid"
  by (rule bit_word_eqI) (simp add: bit_ucast_iff bit_drop_bit_eq bit_qctxt_word1)

lemma qctxt_context_set:
  assumes "context_ok c" "2 \<le> length m"
  shows "qctxt_context (set_qctxt_context c m) = c"
  using assms by (simp add: qctxt_context_def set_qctxt_context_def context_words_def context_ok_def)

end
