(* ===== verification/Qdma_Sriov.thy ===== *)
theory Qdma_Sriov
  imports Qdma_Regs
begin

text \<open>
  The physical function's table of virtual functions (\<open>libqdma/qdma_sriov.c\<close>, PF build):
  enabling and disabling SR-IOV, and registering, mapping and dropping a virtual function on
  behalf of its mailbox messages.  The interface \<open>vf_registry\<close> is what the mailbox handler
  needs of the table: a partial map from function to queue range.
\<close>

section \<open>Enabling and disabling\<close>

definition QDMA_FUNC_ID_INVALID :: u16 where "QDMA_FUNC_ID_INVALID = 256"

definition xdev_sriov_disable :: "xlnx_dma_dev \<Rightarrow> trace \<Rightarrow> xlnx_dma_dev \<times> trace" where
  "xdev_sriov_disable xdev tr =
     (let tr = SriovDisable # tr;
          tr = (if xd_vf_info xdev \<noteq> [] then Kfree # tr else tr)
      in (xdev\<lparr>xd_vf_info := [], xd_vf_count := 0\<rparr>, TimerStop # tr))"

text \<open>
  The memory for the table is not cleared: \<open>mem\<close> is what it holds when it is handed out.
\<close>

definition xdev_sriov_enable ::
  "env \<Rightarrow> (nat \<Rightarrow> vf_info) \<Rightarrow> nat \<Rightarrow> xlnx_dma_dev \<Rightarrow> trace \<Rightarrow> int \<times> xlnx_dma_dev \<times> trace" where
  "xdev_sriov_enable E mem num_vfs xdev tr =
     (let current_vfs = env_num_vf E tr
      in if current_vfs \<noteq> 0 then (int current_vfs, xdev, tr)
      else
        let bytes = of_nat num_vfs * 8;
            ok = env_kalloc E tr bytes;
            tr = Kalloc bytes ok # tr
        in if \<not> ok then (- ENOMEM, xdev, tr)
        else
          let vf = map (\<lambda>i. (mem i)\<lparr>vf_func_id := QDMA_FUNC_ID_INVALID\<rparr>) [0..<num_vfs];
              xdev = xdev\<lparr>xd_vf_count := of_nat num_vfs, xd_vf_info := vf\<rparr>;
              rv = env_sriov_enable E tr num_vfs;
              tr = SriovEnable num_vfs rv # tr
          in if rv \<noteq> 0 then
               let (xdev, tr) = xdev_sriov_disable xdev tr in (0, xdev, tr)
             else (int num_vfs, xdev, TimerStart # tr))"

definition qdma_device_sriov_config ::
  "env \<Rightarrow> (nat \<Rightarrow> vf_info) \<Rightarrow> xdev_list \<Rightarrow> nat \<Rightarrow> xlnx_dma_dev option \<Rightarrow> nat \<Rightarrow> trace
     \<Rightarrow> int \<times> xlnx_dma_dev option \<times> trace" where
  "qdma_device_sriov_config E mem devs pdev dev_hndl num_vfs tr =
     (case dev_hndl of
        None \<Rightarrow> (- EINVAL, None, tr)
      | Some xdev \<Rightarrow>
          let rv = xdev_check_hndl devs pdev (xd_addr xdev)
          in if rv < 0 then (rv, Some xdev, tr)
          else if num_vfs = 0 then
            let (xdev, tr) = xdev_sriov_disable xdev tr in (0, Some xdev, tr)
          else
            let (rv, xdev, tr) = xdev_sriov_enable E mem num_vfs xdev tr
            in if rv < 0 then (rv, Some xdev, tr) else (int (unat (xd_vf_count xdev)), Some xdev, tr))"

section \<open>The table\<close>

fun vf_offline_loop :: "nat \<Rightarrow> u8 \<Rightarrow> vf_info list \<Rightarrow> vf_info list" where
  "vf_offline_loop (Suc n) func_id (vf # vfs) =
     (if vf_func_id vf = ucast func_id
      then \<lparr>vf_func_id = QDMA_FUNC_ID_INVALID, vf_qbase = 0, vf_qmax = 0\<rparr> else vf)
     # vf_offline_loop n func_id vfs"
| "vf_offline_loop _ func_id vfs = vfs"

definition xdev_sriov_vf_offline :: "u8 \<Rightarrow> xlnx_dma_dev \<Rightarrow> xlnx_dma_dev" where
  "xdev_sriov_vf_offline func_id xdev =
     xdev\<lparr>xd_vf_info := vf_offline_loop (unat (xd_vf_count xdev)) func_id (xd_vf_info xdev)\<rparr>"

text \<open>The first entry that satisfies a condition is changed; the flag says whether there is one.\<close>

fun vf_update_first ::
  "nat \<Rightarrow> (vf_info \<Rightarrow> bool) \<Rightarrow> (vf_info \<Rightarrow> vf_info) \<Rightarrow> vf_info list \<Rightarrow> bool \<times> vf_info list" where
  "vf_update_first (Suc n) P f (vf # vfs) =
     (if P vf then (True, f vf # vfs)
      else let (found, vfs) = vf_update_first n P f vfs in (found, vf # vfs))"
| "vf_update_first _ P f vfs = (False, vfs)"

definition xdev_sriov_vf_online :: "u8 \<Rightarrow> xlnx_dma_dev \<Rightarrow> int \<times> xlnx_dma_dev" where
  "xdev_sriov_vf_online func_id xdev =
     (let (found, vfs) = vf_update_first (unat (xd_vf_count xdev))
            (\<lambda>vf. vf_func_id vf = QDMA_FUNC_ID_INVALID) (\<lambda>vf. vf\<lparr>vf_func_id := ucast func_id\<rparr>)
            (xd_vf_info xdev)
      in (if found then 0 else - EINVAL, xdev\<lparr>xd_vf_info := vfs\<rparr>))"

definition xdev_sriov_vf_fmap :: "u8 \<Rightarrow> u16 \<Rightarrow> u16 \<Rightarrow> xlnx_dma_dev \<Rightarrow> int \<times> xlnx_dma_dev" where
  "xdev_sriov_vf_fmap func_id qbase qmax xdev =
     (let (found, vfs) = vf_update_first (unat (xd_vf_count xdev))
            (\<lambda>vf. vf_func_id vf = ucast func_id) (\<lambda>vf. vf\<lparr>vf_qbase := qbase, vf_qmax := qmax\<rparr>)
            (xd_vf_info xdev)
      in (if found then 0 else - EINVAL, xdev\<lparr>xd_vf_info := vfs\<rparr>))"

section \<open>The interface\<close>

locale vf_registry =
  fixes ok :: "'s \<Rightarrow> bool"
    and lookup :: "'s \<Rightarrow> u8 \<Rightarrow> (u16 \<times> u16) option"
    and online :: "u8 \<Rightarrow> 's \<Rightarrow> int \<times> 's"
    and offline :: "u8 \<Rightarrow> 's \<Rightarrow> 's"
    and fmap :: "u8 \<Rightarrow> u16 \<Rightarrow> u16 \<Rightarrow> 's \<Rightarrow> int \<times> 's"
  assumes ok_online: "ok s \<Longrightarrow> ok (snd (online f s))"
    and ok_offline: "ok s \<Longrightarrow> ok (offline f s)"
    and ok_fmap: "ok s \<Longrightarrow> ok (snd (fmap f b m s))"
    and online_others: "ok s \<Longrightarrow> g \<noteq> f \<Longrightarrow> lookup (snd (online f s)) g = lookup s g"
    and online_known: "ok s \<Longrightarrow> fst (online f s) = 0 \<Longrightarrow> lookup (snd (online f s)) f \<noteq> None"
    and online_full: "fst (online f s) \<noteq> 0 \<Longrightarrow> snd (online f s) = s"
    and offline_lookup: "ok s \<Longrightarrow> lookup (offline f s) = (lookup s)(f := None)"
    and fmap_known: "ok s \<Longrightarrow> lookup s f \<noteq> None \<Longrightarrow>
      fst (fmap f b m s) = 0 \<and> lookup (snd (fmap f b m s)) = (lookup s)(f \<mapsto> (b, m))"
    and fmap_unknown: "ok s \<Longrightarrow> lookup s f = None \<Longrightarrow> fst (fmap f b m s) \<noteq> 0 \<and> snd (fmap f b m s) = s"
begin

lemma online_new:
  assumes "ok s" "fst (online f s) = 0"
  shows "\<exists>v. lookup (snd (online f s)) = (lookup s)(f \<mapsto> v)"
  using online_others [OF assms(1)] online_known [OF assms] by (auto simp: fun_eq_iff)

text \<open>What a function asked for is what the table says, until it leaves.\<close>

lemma online_fmap:
  assumes "ok s" "fst (online f s) = 0"
  shows "fst (fmap f b m (snd (online f s))) = 0"
    "lookup (snd (fmap f b m (snd (online f s)))) = (lookup s)(f \<mapsto> (b, m))"
  using online_new [OF assms] fmap_known [OF ok_online [OF assms(1)], of f f b m] by auto

lemma whole_life:
  assumes "ok s" "lookup s f = None" "fst (online f s) = 0"
  shows "lookup (offline f (snd (fmap f b m (snd (online f s))))) = lookup s"
  using online_fmap(2) [OF assms(1,3), of b m] assms
  by (simp add: offline_lookup ok_fmap ok_online fun_upd_idem)

text \<open>The operations of one function do not touch another.\<close>

lemma others_fmap: "\<lbrakk>ok s; g \<noteq> f\<rbrakk> \<Longrightarrow> lookup (snd (fmap f b m s)) g = lookup s g"
  using fmap_known [of s f b m] fmap_unknown [of s f b m] by (cases "lookup s f = None") auto

lemma others_offline: "\<lbrakk>ok s; g \<noteq> f\<rbrakk> \<Longrightarrow> lookup (offline f s) g = lookup s g"
  by (simp add: offline_lookup)

end

section \<open>The table provides the interface\<close>

definition vf_table_ok :: "xlnx_dma_dev \<Rightarrow> bool" where
  "vf_table_ok xdev \<longleftrightarrow> length (xd_vf_info xdev) = unat (xd_vf_count xdev)"

fun vf_find :: "vf_info list \<Rightarrow> u8 \<Rightarrow> (u16 \<times> u16) option" where
  "vf_find [] f = None"
| "vf_find (vf # vfs) f = (if vf_func_id vf = ucast f then Some (vf_qbase vf, vf_qmax vf) else vf_find vfs f)"

definition vf_lookup :: "xlnx_dma_dev \<Rightarrow> u8 \<Rightarrow> (u16 \<times> u16) option" where
  "vf_lookup xdev f = vf_find (xd_vf_info xdev) f"

lemma unat_ucast_u8: "unat (ucast (f :: u8) :: u16) = unat f" "unat f < 256"
proof -
  show l: "unat f < 256" using unsigned_less [of f] by simp
  then show "unat (ucast (f :: u8) :: u16) = unat f"
    by (simp add: unsigned_ucast_eq take_bit_nat_eq_self)
qed

lemma ucast_u8_inject: "(ucast (f :: u8) :: u16) = ucast g \<longleftrightarrow> f = g"
  by (simp add: word_unat_eq_iff unat_ucast_u8)

lemma ucast_u8_valid: "(ucast (f :: u8) :: u16) \<noteq> QDMA_FUNC_ID_INVALID"
proof
  assume "(ucast f :: u16) = QDMA_FUNC_ID_INVALID"
  then have "unat (ucast f :: u16) = 256" by (simp add: QDMA_FUNC_ID_INVALID_def)
  then show False using unat_ucast_u8 [of f] by simp
qed

lemma vf_offline_find:
  "vf_find (vf_offline_loop (length vfs) f vfs) g = (if g = f then None else vf_find vfs g)"
proof (induction vfs)
  case (Cons vf vfs)
  then show ?case
    using ucast_u8_valid [of g] by (simp add: ucast_u8_inject) metis
qed simp

lemma length_vf_offline [simp]: "length (vf_offline_loop n f vfs) = length vfs"
  by (induction n f vfs rule: vf_offline_loop.induct) simp_all

lemma length_vf_update_first [simp]: "length (snd (vf_update_first n P g vfs)) = length vfs"
  by (induction n P g vfs rule: vf_update_first.induct) (simp_all add: split_beta)

lemma vf_update_first_none: "\<not> fst (vf_update_first n P g vfs) \<Longrightarrow> snd (vf_update_first n P g vfs) = vfs"
  by (induction n P g vfs rule: vf_update_first.induct) (auto simp: split_beta split: if_splits)

lemma vf_online_other:
  "g \<noteq> f \<Longrightarrow> vf_find (snd (vf_update_first (length vfs) (\<lambda>vf. vf_func_id vf = QDMA_FUNC_ID_INVALID)
     (\<lambda>vf. vf\<lparr>vf_func_id := ucast f\<rparr>) vfs)) g = vf_find vfs g"
  by (induction vfs) (simp_all add: split_beta ucast_u8_inject ucast_u8_valid [THEN not_sym])

lemma vf_online_find:
  "fst (vf_update_first (length vfs) (\<lambda>vf. vf_func_id vf = QDMA_FUNC_ID_INVALID)
     (\<lambda>vf. vf\<lparr>vf_func_id := ucast f\<rparr>) vfs)
   \<Longrightarrow> vf_find (snd (vf_update_first (length vfs) (\<lambda>vf. vf_func_id vf = QDMA_FUNC_ID_INVALID)
     (\<lambda>vf. vf\<lparr>vf_func_id := ucast f\<rparr>) vfs)) f \<noteq> None"
  by (induction vfs) (auto simp: split_beta split: if_splits)

lemma vf_fmap_found:
  "fst (vf_update_first (length vfs) (\<lambda>vf. vf_func_id vf = ucast f) g vfs) = (vf_find vfs f \<noteq> None)"
  by (induction vfs) (simp_all add: split_beta)

lemma vf_fmap_find:
  assumes "vf_find vfs f \<noteq> None"
  shows "vf_find (snd (vf_update_first (length vfs) (\<lambda>vf. vf_func_id vf = ucast f)
      (\<lambda>vf. vf\<lparr>vf_qbase := b, vf_qmax := m\<rparr>) vfs)) = (vf_find vfs)(f \<mapsto> (b, m))"
  using assms
proof (induction vfs)
  case (Cons vf vfs)
  then show ?case
    by (cases "vf_func_id vf = ucast f") (simp_all add: split_beta fun_eq_iff ucast_u8_inject)
qed simp

interpretation vft: vf_registry vf_table_ok vf_lookup xdev_sriov_vf_online xdev_sriov_vf_offline xdev_sriov_vf_fmap
proof (unfold_locales, goal_cases)
  case (1 s f)
  then show ?case by (simp add: vf_table_ok_def xdev_sriov_vf_online_def split_beta)
next
  case (2 s f)
  then show ?case by (simp add: vf_table_ok_def xdev_sriov_vf_offline_def)
next
  case (3 s f b m)
  then show ?case by (simp add: vf_table_ok_def xdev_sriov_vf_fmap_def split_beta)
next
  case (4 s g f)
  then show ?case
    using vf_online_other [of g f "xd_vf_info s"]
    by (simp add: vf_lookup_def vf_table_ok_def xdev_sriov_vf_online_def split_beta)
next
  case (5 s f)
  then show ?case
    using vf_online_find [of "xd_vf_info s" f]
    by (simp add: vf_lookup_def vf_table_ok_def xdev_sriov_vf_online_def split_beta EINVAL_def split: if_splits)
next
  case (6 f s)
  then show ?case
    using vf_update_first_none [of "unat (xd_vf_count s)"]
    by (simp add: xdev_sriov_vf_online_def split_beta split: if_splits)
next
  case (7 s f)
  then show ?case
    using vf_offline_find [of "xd_vf_info s" f]
    by (simp add: vf_lookup_def [abs_def] vf_table_ok_def xdev_sriov_vf_offline_def fun_eq_iff)
next
  case (8 s f b m)
  have "fst (vf_update_first (length (xd_vf_info s)) (\<lambda>vf. vf_func_id vf = ucast f) g (xd_vf_info s))" for g
    using 8(2) by (simp add: vf_fmap_found vf_lookup_def)
  with 8 show ?case
    using vf_fmap_find [where vfs = "xd_vf_info s" and f = f and b = b and m = m]
    by (simp add: vf_lookup_def [abs_def] vf_table_ok_def xdev_sriov_vf_fmap_def split_beta)
next
  case (9 s f b m)
  have "\<not> fst (vf_update_first (length (xd_vf_info s)) (\<lambda>vf. vf_func_id vf = ucast f) g (xd_vf_info s))" for g
    using 9(2) by (simp add: vf_fmap_found vf_lookup_def)
  with 9(1) show ?case
    by (simp add: vf_table_ok_def xdev_sriov_vf_fmap_def split_beta vf_update_first_none EINVAL_def)
qed

text \<open>
  C21.  The table of virtual functions implements a partial map from function to queue range: a
  new function that finds a free slot appears without disturbing the others, setting the range
  of a known function changes that function only, of an unknown one nothing, and dropping a
  function removes it.  Registering, mapping and dropping a new function leaves the map as it
  was.
\<close>

theorem vf_table_refines_map:
  assumes "vf_table_ok xdev"
  shows "vf_lookup (xdev_sriov_vf_offline f xdev) = (vf_lookup xdev)(f := None) \<and>
    (case xdev_sriov_vf_fmap f b m xdev of (rv, xdev') \<Rightarrow>
       rv = (if vf_lookup xdev f = None then - EINVAL else 0) \<and>
       vf_lookup xdev' = (if rv = 0 then (vf_lookup xdev)(f \<mapsto> (b, m)) else vf_lookup xdev)) \<and>
    (case xdev_sriov_vf_online f xdev of (rv, xdev') \<Rightarrow>
       (rv = 0 \<longrightarrow> vf_lookup xdev' f \<noteq> None) \<and>
       (rv = 0 \<and> vf_lookup xdev f = None \<longrightarrow>
          vf_lookup (xdev_sriov_vf_offline f (snd (xdev_sriov_vf_fmap f b m xdev'))) = vf_lookup xdev) \<and>
       (\<forall>g. g \<noteq> f \<longrightarrow> vf_lookup xdev' g = vf_lookup xdev g))"
proof (intro conjI)
  show "vf_lookup (xdev_sriov_vf_offline f xdev) = (vf_lookup xdev)(f := None)"
    by (rule vft.offline_lookup [OF assms])
  have "fst (xdev_sriov_vf_fmap f b m xdev) = 0 \<or> fst (xdev_sriov_vf_fmap f b m xdev) = - EINVAL"
    by (simp add: xdev_sriov_vf_fmap_def split_beta)
  then show "case xdev_sriov_vf_fmap f b m xdev of (rv, xdev') \<Rightarrow>
      rv = (if vf_lookup xdev f = None then - EINVAL else 0) \<and>
      vf_lookup xdev' = (if rv = 0 then (vf_lookup xdev)(f \<mapsto> (b, m)) else vf_lookup xdev)"
    using vft.fmap_known [OF assms, of f b m] vft.fmap_unknown [OF assms, of f b m]
    by (cases "vf_lookup xdev f = None") (auto simp: split_beta)
  show "case xdev_sriov_vf_online f xdev of (rv, xdev') \<Rightarrow>
      (rv = 0 \<longrightarrow> vf_lookup xdev' f \<noteq> None) \<and>
      (rv = 0 \<and> vf_lookup xdev f = None \<longrightarrow>
         vf_lookup (xdev_sriov_vf_offline f (snd (xdev_sriov_vf_fmap f b m xdev'))) = vf_lookup xdev) \<and>
      (\<forall>g. g \<noteq> f \<longrightarrow> vf_lookup xdev' g = vf_lookup xdev g)"
    using vft.online_known [OF assms] vft.whole_life [OF assms] vft.online_others [OF assms]
    by (simp add: split_beta)
qed

definition sample_vf_dev :: xlnx_dma_dev where
  "sample_vf_dev = sample_dev\<lparr>xd_vf_count := 1, xd_vf_info := [\<lparr>vf_func_id = 5, vf_qbase = 40, vf_qmax = 8\<rparr>]\<rparr>"

theorem vf_table_refines_map_witness:
  "vf_lookup (xdev_sriov_vf_offline 5 sample_vf_dev) = (vf_lookup sample_vf_dev)(5 := None)"
proof -
  have "vf_table_ok sample_vf_dev" by (simp add: vf_table_ok_def sample_vf_dev_def)
  from vf_table_refines_map [OF this, of 5] show ?thesis by (rule conjunct1)
qed

text \<open>A function that registers twice takes the first free slot and loses its queue range.\<close>

lemma vf_online_twice:
  assumes "0 < xd_vf_count xdev" "xd_vf_info xdev = \<lparr>vf_func_id = QDMA_FUNC_ID_INVALID, vf_qbase = 0, vf_qmax = 0\<rparr> # vfs"
  shows "vf_lookup (snd (xdev_sriov_vf_online f xdev)) f = Some (0, 0)"
proof -
  obtain n where "unat (xd_vf_count xdev) = Suc n"
    using assms(1) by (cases "unat (xd_vf_count xdev)") (simp_all add: word_gt_0 unat_eq_zero)
  then show ?thesis by (simp add: xdev_sriov_vf_online_def vf_lookup_def assms(2))
qed

end
