(* ===== verification/Qdma_Mbox.thy ===== *)
theory Qdma_Mbox
  imports Qdma_Msg Qdma_Sriov
begin

text \<open>
  The mailbox (\<open>libqdma/qdma_mbox.c\<close>): sending and reading one message through the registers,
  for both builds, and the physical function's service of the messages of its virtual functions.
  The service loop ends when the mailbox is empty, so it is a partial function: \<open>None\<close> is a
  loop that never ends.
\<close>

section \<open>Registers\<close>

fun MBOX_BASE :: "build \<Rightarrow> u32" where
  "MBOX_BASE VF = 0x1000"
| "MBOX_BASE PF = 0x2400"

definition MBOX_FN_STATUS :: u32 where [reg_defs]: "MBOX_FN_STATUS = 0x0"
definition F_MBOX_FN_STATUS_IN_MSG :: u32 where [reg_defs]: "F_MBOX_FN_STATUS_IN_MSG = 0x1"
definition F_MBOX_FN_STATUS_OUT_MSG :: u32 where [reg_defs]: "F_MBOX_FN_STATUS_OUT_MSG = 0x2"
definition F_MBOX_FN_STATUS_ACK :: u32 where [reg_defs]: "F_MBOX_FN_STATUS_ACK = 0x4"
definition G_MBOX_FN_STATUS_SRC :: "u32 \<Rightarrow> u32" where "G_MBOX_FN_STATUS_SRC v = drop_bit 4 v AND 0xFF"
definition MBOX_FN_CMD :: u32 where [reg_defs]: "MBOX_FN_CMD = 0x4"
definition F_MBOX_FN_CMD_SND :: u32 where [reg_defs]: "F_MBOX_FN_CMD_SND = 0x1"
definition F_MBOX_FN_CMD_RCV :: u32 where [reg_defs]: "F_MBOX_FN_CMD_RCV = 0x2"
definition MBOX_FN_TARGET :: u32 where [reg_defs]: "MBOX_FN_TARGET = 0xC"
definition V_MBOX_FN_TARGET_ID :: "u32 \<Rightarrow> u32" where "V_MBOX_FN_TARGET_ID x = x AND 0xFF"
definition MBOX_PF_ACK_BASE :: u32 where [reg_defs]: "MBOX_PF_ACK_BASE = 0x20"
definition MBOX_PF_ACK_COUNT :: nat where [reg_defs]: "MBOX_PF_ACK_COUNT = 8"
definition MBOX_IN_MSG_BASE :: u32 where [reg_defs]: "MBOX_IN_MSG_BASE = 0x800"
definition MBOX_OUT_MSG_BASE :: u32 where [reg_defs]: "MBOX_OUT_MSG_BASE = 0xc00"
definition QDMA_PF_MAX :: u32 where "QDMA_PF_MAX = 4"
definition XDEV_FLAG_OFFLINE :: u32 where "XDEV_FLAG_OFFLINE = 0x1"

section \<open>Sending and reading\<close>

definition pf_mbox_clear_func_ack :: "u8 \<Rightarrow> trace \<Rightarrow> trace" where
  "pf_mbox_clear_func_ack func_id tr =
     (let idx = func_id div 32; bit = func_id mod 32
      in write_reg (MBOX_BASE PF + MBOX_PF_ACK_BASE + ucast idx * 4) (push_bit (unat bit) 1) tr)"

definition mbox_send ::
  "env \<Rightarrow> build \<Rightarrow> mbox_msg \<Rightarrow> bool \<Rightarrow> trace \<Rightarrow> int \<times> mbox_msg \<times> trace" where
  "mbox_send E b m wait tr =
     (let fn_id = mh_dst (msg_hdr m);
          m = upd_hdr (mh_sent_update (\<lambda>_. False)) m;
          tr = (if b = PF
                then write_reg (MBOX_BASE b + MBOX_FN_TARGET) (V_MBOX_FN_TARGET_ID (ucast fn_id)) tr
                else tr);
          (rv, tr) = (if wait
                      then hw_monitor_reg E (MBOX_BASE b + MBOX_FN_STATUS) F_MBOX_FN_STATUS_OUT_MSG 0
                             100 (1000 * 1000) tr
                      else (0, tr))
      in if rv < 0 then (- EAGAIN, m, snd (read_reg E (MBOX_BASE b + MBOX_FN_STATUS) tr))
      else
        let (v, tr) = read_reg E (MBOX_BASE b + MBOX_FN_STATUS) tr
        in if v AND F_MBOX_FN_STATUS_OUT_MSG \<noteq> 0 then (- EAGAIN, m, tr)
        else
          let tr = write_regs (MBOX_BASE b + MBOX_OUT_MSG_BASE) m tr;
              tr = (if b = PF then pf_mbox_clear_func_ack fn_id tr else tr);
              tr = write_reg (MBOX_BASE b + MBOX_FN_CMD) F_MBOX_FN_CMD_SND tr
          in (0, upd_hdr (mh_sent_update (\<lambda>_. True)) m, tr))"

definition mbox_read ::
  "env \<Rightarrow> build \<Rightarrow> mbox_msg \<Rightarrow> bool \<Rightarrow> trace \<Rightarrow> int \<times> mbox_msg \<times> trace" where
  "mbox_read E b m wait tr =
     (let m = upd_hdr (mh_rcv_update (\<lambda>_. False)) m;
          (rv, tr) = (if wait
                      then hw_monitor_reg E (MBOX_BASE b + MBOX_FN_STATUS) F_MBOX_FN_STATUS_IN_MSG
                             F_MBOX_FN_STATUS_IN_MSG 1000 (1000 * 1000) tr
                      else (0, tr))
      in if rv < 0 then (- EAGAIN, m, tr)
      else
        let (v, tr) = read_reg E (MBOX_BASE b + MBOX_FN_STATUS) tr
        in if v AND F_MBOX_FN_STATUS_IN_MSG = 0 then (- EAGAIN, m, tr)
        else
          let from_id = G_MBOX_FN_STATUS_SRC v;
              tr = (if b = PF then write_reg (MBOX_BASE b + MBOX_FN_TARGET) from_id tr else tr);
              (m, tr) = read_regs E (MBOX_BASE b + MBOX_IN_MSG_BASE) MBOX_MSG_REG_MAX tr;
              m = (if b = PF \<and> from_id \<noteq> ucast (mh_src (msg_hdr m))
                   then upd_hdr (mh_src_update (\<lambda>_. ucast from_id)) m else m)
          in (0, m, write_reg (MBOX_BASE b + MBOX_FN_CMD) F_MBOX_FN_CMD_RCV tr))"

section \<open>The physical function\<close>

fun clear_ack_loop :: "env \<Rightarrow> nat \<Rightarrow> u32 \<Rightarrow> trace \<Rightarrow> trace" where
  "clear_ack_loop E 0 reg tr = tr"
| "clear_ack_loop E (Suc n) reg tr =
     (let (v, tr) = read_reg E reg tr
      in clear_ack_loop E n (reg + 4) (if v = 0 then tr else write_reg reg v tr))"

definition pf_mbox_clear_ack :: "env \<Rightarrow> trace \<Rightarrow> trace" where
  "pf_mbox_clear_ack E tr =
     (let (v, tr) = read_reg E (MBOX_BASE PF + MBOX_FN_STATUS) tr
      in if v AND F_MBOX_FN_STATUS_ACK = 0 then tr
         else clear_ack_loop E MBOX_PF_ACK_COUNT (MBOX_BASE PF + MBOX_PF_ACK_BASE) tr)"

text \<open>The queue range of a function that leaves its base to the physical function.\<close>

definition default_qbase :: "xlnx_dma_dev \<Rightarrow> u8 \<Rightarrow> u32" where
  "default_qbase xdev src =
     dc_qsets_base (xd_conf xdev) + ucast (dc_qsets_max (xd_conf xdev))
       + (ucast src - QDMA_PF_MAX) * of_nat QDMA_Q_PER_VF_MAX"

definition pf_op_fmap ::
  "xlnx_dma_dev \<Rightarrow> mbox_msg \<Rightarrow> trace \<Rightarrow> xlnx_dma_dev \<times> mbox_msg \<times> trace" where
  "pf_op_fmap xdev m tr =
     (let src = mh_src (msg_hdr m);
          m = (if fmap_qbase m = 0 then m[1 := default_qbase xdev src] else m);
          tr = hw_set_fmap src (fmap_qbase m) (fmap_qmax m) tr;
          (_, xdev) = xdev_sriov_vf_fmap src (ucast (fmap_qbase m)) (ucast (fmap_qmax m)) xdev
      in (xdev, m, tr))"

definition pf_csr_read :: "env \<Rightarrow> mbox_csr_type \<Rightarrow> trace \<Rightarrow> u32 list \<times> trace" where
  "pf_csr_read E t tr =
     (case t of CSR_RNGSZ \<Rightarrow> qdma_csr_read_rngsz E tr
      | CSR_BUFSZ \<Rightarrow> qdma_csr_read_bufsz E tr
      | CSR_TIMER_CNT \<Rightarrow> qdma_csr_read_timer_cnt E tr
      | CSR_CNT_TH \<Rightarrow> qdma_csr_read_cnt_thresh E tr
      | CSR_UNDEFINED \<Rightarrow> ([], tr))"

definition pf_op_csr :: "env \<Rightarrow> mbox_msg \<Rightarrow> u8 \<Rightarrow> trace \<Rightarrow> mbox_msg \<times> u8 \<times> trace" where
  "pf_op_csr E m status tr =
     (case csr_type_of (csr_msg_type m) of
        None \<Rightarrow> (m, of_int (- EINVAL), tr)
      | Some t \<Rightarrow>
          let (v, tr) = pf_csr_read E t tr;
              m = set_csr_v v m;
              (acc, tr) = qdma_csr_read_wbacc E tr
          in (m[18 := acc], status, tr))"

text \<open>The \<open>switch\<close>: the result code, the status, the table, the message that is sent back.\<close>

definition pf_op ::
  "env \<Rightarrow> xlnx_dma_dev \<Rightarrow> mbox_msg \<Rightarrow> u8 \<Rightarrow> trace \<Rightarrow> int \<times> u8 \<times> xlnx_dma_dev \<times> mbox_msg \<times> trace" where
  "pf_op E xdev m status tr =
     (let src = mh_src (msg_hdr m);
          qid = ucast (qctxt_qid m); st = qctxt_st m; c2h = qctxt_c2h m
      in case mbox_op_of (mh_op (msg_hdr m)) of
           Some MBOX_OP_HELLO \<Rightarrow> (0, status, snd (xdev_sriov_vf_online src xdev), m, tr)
         | Some MBOX_OP_BYE \<Rightarrow> (0, status, xdev_sriov_vf_offline src xdev, m, hw_set_fmap src 0 0 tr)
         | Some MBOX_OP_FMAP \<Rightarrow>
             let (xdev, m, tr) = pf_op_fmap xdev m tr in (0, status, xdev, m, tr)
         | Some MBOX_OP_CSR \<Rightarrow>
             let (m, status, tr) = pf_op_csr E m status tr in (0, status, xdev, m, tr)
         | Some MBOX_OP_INTR_CTXT \<Rightarrow> (- EINVAL, status, xdev, m, tr)
         | Some MBOX_OP_QCTXT_CLR \<Rightarrow>
             let (rv, tr) = qdma_descq_context_clear E qid st c2h False tr in (rv, status, xdev, m, tr)
         | Some MBOX_OP_QCTXT_RD \<Rightarrow>
             let (rv, c, tr) = qdma_descq_context_read E qid st c2h tr
             in (rv, status, xdev, set_qctxt_context c m, tr)
         | Some MBOX_OP_QCTXT_WRT \<Rightarrow>
             let (rv, tr) = qdma_descq_context_clear E qid st c2h True tr
             in if rv < 0 then (rv, status, xdev, m, tr)
                else let (rv, tr) = qdma_descq_context_program E qid st c2h (qctxt_context m) tr
                     in (rv, status, xdev, m, tr)
         | _ \<Rightarrow> (0, of_int (- 2), xdev, m, tr))"

definition reply_hdr :: "xlnx_dma_dev \<Rightarrow> u8 \<Rightarrow> mbox_msg_hdr \<Rightarrow> mbox_msg_hdr" where
  "reply_hdr xdev status h = h\<lparr>mh_dst := mh_src h, mh_src := xd_func_id xdev, mh_ack := True, mh_status := status\<rparr>"

text \<open>
  One message.  The first component says whether the loop goes on, the third is the variable
  \<open>status\<close>, which the code declares outside the loop and never resets.
\<close>

definition pf_serve ::
  "env \<Rightarrow> xlnx_dma_dev \<Rightarrow> mbox_msg \<Rightarrow> u8 \<Rightarrow> trace \<Rightarrow> bool \<times> mbox_msg \<times> u8 \<times> xlnx_dma_dev \<times> trace" where
  "pf_serve E xdev m status tr =
     (if mh_ack (msg_hdr m) then (True, m, status, xdev, tr)
      else
        let (rv, status, xdev, m, tr) = pf_op E xdev m status tr
        in if mh_wait (msg_hdr m) then
          let status = (if rv < 0 \<and> status = 0 then of_int (- 1) else status);
              m = upd_hdr (reply_hdr xdev status) m;
              (rv, m, tr) = mbox_send E PF m True tr
          in if rv < 0 then (False, m, status, xdev, tr)
             else (xd_flags xdev AND XDEV_FLAG_OFFLINE = 0, m, status, xdev, tr)
        else (xd_flags xdev AND XDEV_FLAG_OFFLINE = 0, m, status, xdev, tr))"

partial_function (option) pf_loop ::
  "env \<Rightarrow> xlnx_dma_dev \<Rightarrow> mbox_msg \<Rightarrow> u8 \<Rightarrow> trace \<Rightarrow> (xlnx_dma_dev \<times> trace) option" where
  "pf_loop E xdev m status tr =
     (case mbox_read E PF m False tr of
        (rv, m, tr) \<Rightarrow>
          if rv \<noteq> 0 then Some (xdev, tr)
          else (case pf_serve E xdev m status tr of
                  (go, m, status, xdev, tr) \<Rightarrow>
                    if go then pf_loop E xdev m status tr else Some (xdev, tr)))"

definition qdma_mbox_timer_start :: "trace \<Rightarrow> trace" where
  "qdma_mbox_timer_start tr = TimerStart # tr"

definition qdma_mbox_timer_stop :: "trace \<Rightarrow> trace" where
  "qdma_mbox_timer_stop tr = TimerStop # tr"

text \<open>
  The timer's handler.  The message is a local variable without initial value: \<open>m\<close> is what
  the stack holds.
\<close>

definition qdma_mbox_proc ::
  "env \<Rightarrow> mbox_msg \<Rightarrow> xlnx_dma_dev \<Rightarrow> trace \<Rightarrow> (xlnx_dma_dev \<times> trace) option" where
  "qdma_mbox_proc E m xdev tr =
     (if xd_addr xdev = 0 \<or> dc_pdev (xd_conf xdev) = 0 then Some (xdev, tr)
      else
        (case pf_loop E xdev m 0 (pf_mbox_clear_ack E tr) of
           None \<Rightarrow> None
         | Some (xdev, tr) \<Rightarrow>
             Some (xdev, if xd_flags xdev AND XDEV_FLAG_OFFLINE \<noteq> 0 then qdma_mbox_timer_stop tr
                         else qdma_mbox_timer_start tr)))"

definition qdma_mbox_timer_init :: "env \<Rightarrow> build \<Rightarrow> trace \<Rightarrow> trace" where
  "qdma_mbox_timer_init E b tr =
     (case b of
        VF \<Rightarrow>
          let (v, tr) = read_reg E (MBOX_BASE VF + MBOX_FN_STATUS) tr
          in if v AND F_MBOX_FN_STATUS_IN_MSG = 0
             then write_reg (MBOX_BASE VF + MBOX_FN_CMD) F_MBOX_FN_CMD_RCV tr else tr
      | PF \<Rightarrow> pf_mbox_clear_ack E tr)"

section \<open>What the services write\<close>

text \<open>How often the physical function has taken a message out of its mailbox.\<close>

definition rcvd :: "trace \<Rightarrow> nat" where
  "rcvd tr = length (filter (\<lambda>w. w = (0x2404, 2)) (writes_of tr))"

named_theorems rcvd_simps

lemma ucast_u8_u32: "unat (ucast (f :: u8) :: u32) = unat f"
  using unat_ucast_u8(2) [of f] by (simp add: unsigned_ucast_eq take_bit_nat_eq_self)

lemma reg_neq: "unat (a :: u32) \<noteq> unat b \<Longrightarrow> a \<noteq> b"
  by auto

lemma ucast_u8_back: "(ucast (ucast (f :: u8) :: u32) :: u8) = f"
  by (rule bit_word_eqI) (simp add: bit_ucast_iff)

lemma rcvd_trace [rcvd_simps]:
  "rcvd (snd (read_reg E r tr)) = rcvd tr"
  "rcvd (snd (read_regs E r n tr)) = rcvd tr"
  "rcvd (snd (hw_monitor_reg E r msk v i t tr)) = rcvd tr"
  "rcvd (write_reg r v tr) = rcvd tr + (if r = 0x2404 \<and> v = 2 then 1 else 0)"
  by (simp_all add: rcvd_def trace_simps)

lemma rcvd_write_regs:
  assumes "unat r + 4 * length vs \<le> 2 ^ 32" "unat r + 4 * length vs \<le> 0x2404 \<or> 0x2404 < unat r"
  shows "rcvd (write_regs r vs tr) = rcvd tr"
proof -
  have "r + 4 * of_nat i \<noteq> 0x2404" if "i < length vs" for i
    using unat_reg_step [OF that assms(1)] assms(2) that by auto
  then show ?thesis
    by (simp add: rcvd_def writes_of_write_regs filter_empty_conv)
qed

lemma rcvd_ctxt_issue [rcvd_simps]: "rcvd (snd (ctxt_issue E qid op sel tr)) = rcvd tr"
  by (simp add: ctxt_issue_def rcvd_simps QDMA_REG_IND_CTXT_CMD_def)

lemma rcvd_ctxt_fill:
  assumes "\<not> ctxt_args_bad op data cnt"
  shows "rcvd (ctxt_fill op data cnt tr) = rcvd tr"
proof (cases "op = QDMA_CTXT_CMD_WR")
  case True
  then have "cnt \<le> 4" using assms by (auto simp: ctxt_args_bad_def)
  then have "length (take cnt (the data) @ replicate (4 - cnt) 0) \<le> 4" by simp
  with True show ?thesis
    by (simp add: ctxt_fill_def Let_def rcvd_write_regs ctxt_data_regs)
qed (simp add: ctxt_fill_def Let_def rcvd_write_regs ctxt_data_regs)

lemma rcvd_ctext_prog [rcvd_simps]:
  "rcvd (snd (snd (hw_indirect_ctext_prog E qid op sel data cnt verify tr))) = rcvd tr"
  by (simp add: hw_indirect_ctext_prog_def Let_def split_beta rcvd_simps rcvd_ctxt_fill)

lemma rcvd_ctxt_steps [rcvd_simps]: "rcvd (snd (ctxt_steps E qid steps tr)) = rcvd tr"
proof (induction steps arbitrary: tr)
  case (Cons s steps)
  obtain op sel data cnt verify where s: "s = (op, sel, data, cnt, verify)" by (cases s) auto
  show ?case by (simp add: s split_beta rcvd_simps Cons.IH)
qed simp

lemma rcvd_context [rcvd_simps]:
  "rcvd (snd (qdma_descq_context_clear E qid st c2h clr tr)) = rcvd tr"
  "rcvd (snd (qdma_descq_context_program E qid st c2h c tr)) = rcvd tr"
  by (simp_all add: qdma_descq_context_clear_def qdma_descq_context_program_def Let_def split_beta rcvd_simps)

lemma rcvd_ctxt_read [rcvd_simps]: "rcvd (snd (snd (ctxt_read E qid sel n tr))) = rcvd tr"
  by (simp add: ctxt_read_def split_beta rcvd_simps)

lemma rcvd_context_read [rcvd_simps]: "rcvd (snd (snd (qdma_descq_context_read E qid st c2h tr))) = rcvd tr"
  by (simp add: qdma_descq_context_read_def Let_def split_beta rcvd_simps)

lemma rcvd_csr [rcvd_simps]:
  "rcvd (snd (pf_csr_read E t tr)) = rcvd tr" "rcvd (snd (qdma_csr_read_wbacc E tr)) = rcvd tr"
  by (cases t)
    (simp_all add: pf_csr_read_def qdma_csr_read_rngsz_def qdma_csr_read_bufsz_def
      qdma_csr_read_timer_cnt_def qdma_csr_read_cnt_thresh_def qdma_csr_read_wbacc_def rcvd_simps)

lemma rcvd_clear_ack: "rcvd (pf_mbox_clear_ack E tr) = rcvd tr"
proof -
  have "rcvd (clear_ack_loop E n reg tr) = rcvd tr"
    if "0x2404 < unat reg" "unat reg + 4 * n \<le> 2 ^ 32 - 4" for n reg tr
    using that
  proof (induction E n reg tr rule: clear_ack_loop.induct)
    case (2 E n reg tr)
    have "reg \<noteq> 0x2404" using 2(2) by auto
    moreover have "unat (reg + 4) = unat reg + 4"
      using 2(3) by (subst unat_add_no_overflow) simp_all
    ultimately show ?case
      using 2 by (simp add: split_beta rcvd_simps)
  qed simp
  then show ?thesis
    by (simp add: pf_mbox_clear_ack_def Let_def split_beta rcvd_simps reg_defs)
qed

lemma fmap_reg: "QDMA_REG_TRQ_SEL_FMAP_BASE + ucast (f :: u8) * 0x4 \<noteq> 0x2404"
proof -
  have f: "unat f < 256" by (rule unat_ucast_u8)
  have "unat (QDMA_REG_TRQ_SEL_FMAP_BASE + ucast f * 0x4) = 0x400 + unat f * 4"
    using f by (simp add: QDMA_REG_TRQ_SEL_FMAP_BASE_def unat_word_ariths ucast_u8_u32)
  then show ?thesis using f by auto
qed

lemma rcvd_fmap [rcvd_simps]: "rcvd (hw_set_fmap f qbase qmax tr) = rcvd tr"
  by (simp add: hw_set_fmap_def rcvd_simps fmap_reg)

lemma rcvd_pf_op: "(rv, status', xdev', m', tr') = pf_op E xdev m status tr \<Longrightarrow> rcvd tr' = rcvd tr"
  by (auto simp: pf_op_def pf_op_fmap_def pf_op_csr_def Let_def split_beta rcvd_simps
      split: option.splits mbox_msg_op.splits if_splits)

section \<open>All messages are served\<close>

text \<open>
  The hardware of the physical function's mailbox, as its register description has it:
  \<open>msgs\<close> are the messages on their way with the functions that sent them, in order.  The status
  register shows a message until all are taken out, with its sender, and the incoming registers
  show its words; taking one out is the \<open>RCV\<close> command.  The outgoing mailbox is free.
\<close>

definition mbox_inbox :: "env \<Rightarrow> (u8 \<times> mbox_msg) list \<Rightarrow> bool" where
  "mbox_inbox E msgs \<longleftrightarrow>
     (\<forall>(src, w) \<in> set msgs. length w = MBOX_MSG_REG_MAX) \<and>
     (\<forall>tr. env_readl E tr 0x2400 AND 2 = 0
        \<and> (env_readl E tr 0x2400 AND 1 = 0 \<longleftrightarrow> length msgs \<le> rcvd tr)
        \<and> (rcvd tr < length msgs \<longrightarrow>
             G_MBOX_FN_STATUS_SRC (env_readl E tr 0x2400) = ucast (fst (msgs ! rcvd tr))
             \<and> (\<forall>i < 32. env_readl E tr (0x2C00 + 4 * of_nat i) = snd (msgs ! rcvd tr) ! i)))"

text \<open>The message the service sees: the sender is the one the hardware names.\<close>

definition delivered :: "u8 \<times> mbox_msg \<Rightarrow> mbox_msg" where
  "delivered p = upd_hdr (mh_src_update (\<lambda>_. fst p)) (snd p)"

lemma read_regs_shown:
  assumes "\<And>tr'. rcvd tr' = rcvd tr \<Longrightarrow> \<forall>i < n. env_readl E tr' (r + 4 * of_nat i) = ws ! i" "length ws = n"
  shows "fst (read_regs E r n tr) = ws"
  using assms
proof (induction n arbitrary: r ws tr)
  case (Suc n)
  obtain w ws' where ws: "ws = w # ws'" using Suc.prems(2) by (cases ws) auto
  define tr1 where "tr1 = snd (read_reg E r tr)"
  have tr1: "rcvd tr1 = rcvd tr" by (simp add: tr1_def rcvd_simps)
  have "env_readl E tr r = w" using Suc.prems(1) [of tr] by (auto simp: ws dest: spec [of _ 0])
  moreover have "fst (read_regs E (r + 4) n tr1) = ws'"
  proof (rule Suc.IH)
    fix tr' assume "rcvd tr' = rcvd tr1"
    then have all: "\<forall>i < Suc n. env_readl E tr' (r + 4 * of_nat i) = ws ! i"
      using Suc.prems(1) tr1 by simp
    show "\<forall>i < n. env_readl E tr' (r + 4 + 4 * of_nat i) = ws' ! i"
    proof (intro allI impI)
      fix i assume "i < n"
      then show "env_readl E tr' (r + 4 + 4 * of_nat i) = ws' ! i"
        using all [rule_format, of "Suc i"] by (simp add: ws algebra_simps)
    qed
  qed (use Suc.prems(2) ws in simp)
  ultimately show ?case
    by (simp add: ws tr1_def read_reg_def Let_def split_beta)
qed simp

lemma mbox_read_inbox:
  assumes "mbox_inbox E msgs"
  obtains (some) tr' where "rcvd tr < length msgs" "rcvd tr' = Suc (rcvd tr)"
      "mbox_read E PF m False tr = (0, delivered (msgs ! rcvd tr), tr')"
    | (none) tr' m' where "length msgs \<le> rcvd tr" "rcvd tr' = rcvd tr"
      "mbox_read E PF m False tr = (- EAGAIN, m', tr')"
proof -
  define v where "v = env_readl E tr 0x2400"
  define tr1 where "tr1 = ReadReg 0x2400 v # tr"
  have rd: "read_reg E (0x2400 + MBOX_FN_STATUS) tr = (v, tr1)"
    by (simp add: read_reg_def v_def tr1_def MBOX_FN_STATUS_def Let_def)
  have tr1: "rcvd tr1 = rcvd tr" by (simp add: tr1_def rcvd_def)
  show thesis
  proof (cases "rcvd tr < length msgs")
    case True
    let ?p = "msgs ! rcvd tr"
    have in_set: "?p \<in> set msgs" using True by simp
    have v: "v AND 1 \<noteq> 0" "G_MBOX_FN_STATUS_SRC v = ucast (fst ?p)"
      using assms True unfolding mbox_inbox_def v_def by (auto simp: not_le)
    have len: "length (snd ?p) = 32"
      using assms in_set unfolding mbox_inbox_def MBOX_MSG_REG_MAX_def by (cases ?p) auto
    define tr2 where "tr2 = write_reg (MBOX_BASE PF + MBOX_FN_TARGET) (ucast (fst ?p)) tr1"
    have tr2: "rcvd tr2 = rcvd tr" by (simp add: tr2_def rcvd_simps tr1 MBOX_FN_TARGET_def)
    have words: "fst (read_regs E (MBOX_BASE PF + MBOX_IN_MSG_BASE) 32 tr2) = snd ?p"
    proof (rule read_regs_shown)
      fix tr' assume "rcvd tr' = rcvd tr2"
      then show "\<forall>i < 32. env_readl E tr' (MBOX_BASE PF + MBOX_IN_MSG_BASE + 4 * of_nat i) = snd ?p ! i"
        using assms True unfolding mbox_inbox_def tr2 by (simp add: MBOX_IN_MSG_BASE_def)
    qed (rule len)
    define tr3 where "tr3 = snd (read_regs E (MBOX_BASE PF + MBOX_IN_MSG_BASE) 32 tr2)"
    have regs: "read_regs E (0x2400 + MBOX_IN_MSG_BASE) 32 (write_reg (0x2400 + MBOX_FN_TARGET) (ucast (fst ?p)) tr1)
        = (snd ?p, tr3)"
      using words by (intro prod_eqI) (simp_all add: tr2_def tr3_def)
    have m: "(if ucast (fst ?p) \<noteq> (ucast (mh_src (msg_hdr (snd ?p))) :: u32)
         then upd_hdr (mh_src_update (\<lambda>_. ucast (ucast (fst ?p) :: u32))) (snd ?p) else snd ?p) = delivered ?p"
    proof -
      have "(ucast a :: u32) = ucast b \<longleftrightarrow> a = b" for a b :: u8
        using ucast_u8_u32 [of a] ucast_u8_u32 [of b] by (auto simp: word_unat_eq_iff)
      moreover have "(ucast (ucast (fst ?p) :: u32) :: u8) = fst ?p" by (rule ucast_u8_back)
      moreover have "snd ?p \<noteq> []" using len by auto
      ultimately show ?thesis
        by (simp add: delivered_def upd_hdr_id)
    qed
    show thesis
    proof (rule some [OF True, where tr' = "write_reg (MBOX_BASE PF + MBOX_FN_CMD) F_MBOX_FN_CMD_RCV tr3"])
      show "rcvd (write_reg (MBOX_BASE PF + MBOX_FN_CMD) F_MBOX_FN_CMD_RCV tr3) = Suc (rcvd tr)"
        by (simp add: rcvd_simps tr3_def tr2 MBOX_FN_CMD_def F_MBOX_FN_CMD_RCV_def)
      show "mbox_read E PF m False tr = (0, delivered ?p, write_reg (MBOX_BASE PF + MBOX_FN_CMD) F_MBOX_FN_CMD_RCV tr3)"
        using v m
        by (simp add: mbox_read_def rd Let_def regs F_MBOX_FN_STATUS_IN_MSG_def MBOX_MSG_REG_MAX_def
            split del: if_split)
    qed
  next
    case False
    then have "v AND 1 = 0" using assms unfolding mbox_inbox_def v_def by simp
    then show thesis
      using none [of tr1 "upd_hdr (mh_rcv_update (\<lambda>_. False)) m"] False tr1
      by (simp add: mbox_read_def rd F_MBOX_FN_STATUS_IN_MSG_def)
  qed
qed

lemma mbox_send_idle:
  assumes "\<And>tr. env_readl E tr (MBOX_BASE b) AND 2 = 0" "length m = MBOX_MSG_REG_MAX"
  shows "fst (mbox_send E b m wait tr) = 0"
    "fst (snd (mbox_send E b m wait tr)) = upd_hdr (mh_sent_update (\<lambda>_. True)) m"
proof -
  have "(0 :: int) \<le> fst (hw_monitor_reg E r 2 0 i t tr)" if "r = MBOX_BASE b" for r i t tr
    using assms(1) [of tr] that by (simp add: hw_monitor_reg_idle)
  then have idle: "\<not> fst (hw_monitor_reg E (MBOX_BASE b) 2 0 i t tr) < 0" for i t tr
    by (simp add: not_less)
  have "upd_hdr (mh_sent_update (\<lambda>_. True)) (upd_hdr (mh_sent_update (\<lambda>_. False)) m)
      = upd_hdr (mh_sent_update (\<lambda>_. True)) m"
    using assms(2) by (simp add: upd_hdr_def msg_hdr_def MBOX_MSG_REG_MAX_def)
  then show "fst (mbox_send E b m wait tr) = 0"
    "fst (snd (mbox_send E b m wait tr)) = upd_hdr (mh_sent_update (\<lambda>_. True)) m"
    by (simp_all add: mbox_send_def Let_def split_beta read_reg_def idle assms(1) MBOX_FN_STATUS_def
        F_MBOX_FN_STATUS_OUT_MSG_def)
qed

lemma func_ack_reg:
  "unat (MBOX_BASE PF + MBOX_PF_ACK_BASE + ucast ((f :: u8) div 32) * 4) = 0x2420 + 4 * unat (f div 32)"
  "unat (f div 32) < 8"
proof -
  show lt: "unat (f div 32) < 8"
    using unat_ucast_u8(2) [of f] by (simp add: unat_div less_mult_imp_div_less)
  then have "unat (ucast (f div 32) * 4 :: u32) = 4 * unat (f div 32)"
    by (simp add: unat_word_ariths unsigned_ucast_eq take_bit_nat_eq_self)
  then show "unat (MBOX_BASE PF + MBOX_PF_ACK_BASE + ucast (f div 32) * 4) = 0x2420 + 4 * unat (f div 32)"
    using lt unfolding MBOX_BASE.simps MBOX_PF_ACK_BASE_def by (subst unat_add_no_overflow) simp_all
qed

lemma rcvd_func_ack [rcvd_simps]: "rcvd (pf_mbox_clear_func_ack f tr) = rcvd tr"
proof -
  have "MBOX_BASE PF + MBOX_PF_ACK_BASE + ucast (f div 32) * 4 \<noteq> 0x2404"
    by (rule reg_neq, unfold func_ack_reg) simp
  then show ?thesis
    unfolding pf_mbox_clear_func_ack_def Let_def rcvd_trace by simp
qed

lemma rcvd_mbox_send:
  assumes "length m = MBOX_MSG_REG_MAX"
  shows "rcvd (snd (snd (mbox_send E PF m wait tr))) = rcvd tr"
proof -
  have regs: "rcvd (write_regs 0x3000 (upd_hdr f m) tr) = rcvd tr" for f tr
    using assms by (intro rcvd_write_regs) (simp_all add: MBOX_MSG_REG_MAX_def)
  show ?thesis
    by (simp add: mbox_send_def Let_def split_beta rcvd_simps regs reg_defs)
qed

text \<open>What a message does to the table of virtual functions.\<close>

definition vf_effect :: "u8 \<times> mbox_msg \<Rightarrow> xlnx_dma_dev \<Rightarrow> xlnx_dma_dev" where
  "vf_effect p xdev =
     (let (src, m) = p
      in if mh_ack (msg_hdr m) then xdev
      else case mbox_op_of (mh_op (msg_hdr m)) of
             Some MBOX_OP_HELLO \<Rightarrow> snd (xdev_sriov_vf_online src xdev)
           | Some MBOX_OP_BYE \<Rightarrow> xdev_sriov_vf_offline src xdev
           | Some MBOX_OP_FMAP \<Rightarrow>
               snd (xdev_sriov_vf_fmap src
                 (ucast (if fmap_qbase m = 0 then default_qbase xdev src else fmap_qbase m))
                 (ucast (fmap_qmax m)) xdev)
           | _ \<Rightarrow> xdev)"

lemma delivered_fields:
  assumes "length (snd p) = MBOX_MSG_REG_MAX"
  shows "mh_src (msg_hdr (delivered p)) = fst p" "mh_op (msg_hdr (delivered p)) = mh_op (msg_hdr (snd p))"
    "mh_ack (msg_hdr (delivered p)) = mh_ack (msg_hdr (snd p))"
    "mh_wait (msg_hdr (delivered p)) = mh_wait (msg_hdr (snd p))"
    "length (delivered p) = MBOX_MSG_REG_MAX" "fmap_qbase (delivered p) = fmap_qbase (snd p)"
    "fmap_qmax (delivered p) = fmap_qmax (snd p)"
proof -
  have "snd p \<noteq> []" using assms by (auto simp: MBOX_MSG_REG_MAX_def)
  then show "mh_src (msg_hdr (delivered p)) = fst p" "mh_op (msg_hdr (delivered p)) = mh_op (msg_hdr (snd p))"
    "mh_ack (msg_hdr (delivered p)) = mh_ack (msg_hdr (snd p))"
    "mh_wait (msg_hdr (delivered p)) = mh_wait (msg_hdr (snd p))"
    "length (delivered p) = MBOX_MSG_REG_MAX" "fmap_qbase (delivered p) = fmap_qbase (snd p)"
    "fmap_qmax (delivered p) = fmap_qmax (snd p)"
    using assms by (simp_all add: delivered_def fmap_qbase_def fmap_qmax_def)
qed

lemma length_pf_csr_read: "t \<noteq> CSR_UNDEFINED \<Longrightarrow> length (fst (pf_csr_read E t tr)) = 16"
  by (cases t)
    (simp_all add: pf_csr_read_def qdma_csr_read_rngsz_def qdma_csr_read_bufsz_def
      qdma_csr_read_timer_cnt_def qdma_csr_read_cnt_thresh_def QDMA_GLOBAL_CSR_ARRAY_SZ_def)

lemma csr_type_of_defined: "csr_type_of c = Some t \<Longrightarrow> t \<noteq> CSR_UNDEFINED"
  by (auto simp: csr_type_of_def split: if_splits)

lemma length_ctext_prog_rd:
  assumes "length ws = n"
  shows "length (the (fst (snd (hw_indirect_ctext_prog E qid QDMA_CTXT_CMD_RD sel (Some ws) n v tr)))) = n"
  using assms by (simp add: hw_indirect_ctext_prog_def Let_def split_beta)

lemma length_ctxt_read [simp]: "length (fst (snd (ctxt_read E qid sel n tr))) = n"
  by (simp add: ctxt_read_def split_beta length_ctext_prog_rd)

lemma context_read_ok: "context_ok (fst (snd (qdma_descq_context_read E qid st c2h tr)))"
  by (simp add: qdma_descq_context_read_def Let_def split_beta zero_context_def context_ok_def)

lemma fmap_words:
  assumes "length m = MBOX_MSG_REG_MAX"
  shows "fmap_qbase (m[1 := x]) = x" "fmap_qmax (m[1 := x]) = fmap_qmax m"
  using assms by (simp_all add: fmap_qbase_def fmap_qmax_def MBOX_MSG_REG_MAX_def)

lemma length_pf_op:
  assumes "length m = MBOX_MSG_REG_MAX" "pf_op E xdev m status tr = (rv, status', xdev', m', tr')"
  shows "length m' = MBOX_MSG_REG_MAX"
proof -
  have csr: "length (set_csr_v (fst (pf_csr_read E t tr)) m) = MBOX_MSG_REG_MAX" if "t \<noteq> CSR_UNDEFINED" for t tr
    using that assms(1) by (simp add: set_csr_v_def length_pf_csr_read MBOX_MSG_REG_MAX_def)
  show ?thesis
    using assms csr
    by (auto simp: pf_op_def pf_op_fmap_def pf_op_csr_def Let_def split_beta context_read_ok
        dest: csr_type_of_defined split: option.splits mbox_msg_op.splits if_splits)
qed

lemma pf_op_effect:
  assumes "length (snd p) = MBOX_MSG_REG_MAX" "\<not> mh_ack (msg_hdr (snd p))"
    "pf_op E xdev (delivered p) status tr = (rv, status', xdev', m', tr')"
  shows "xdev' = vf_effect p xdev"
  using assms(2,3)
  by (auto simp: pf_op_def vf_effect_def delivered_fields [OF assms(1)] Let_def split_beta pf_op_fmap_def
      fmap_words [unfolded One_nat_def] split: option.splits mbox_msg_op.splits if_splits)

lemma vf_effect_frame:
  "xd_flags (vf_effect p xdev) = xd_flags xdev" "xd_conf (vf_effect p xdev) = xd_conf xdev"
  "xd_func_id (vf_effect p xdev) = xd_func_id xdev" "vf_table_ok xdev \<Longrightarrow> vf_table_ok (vf_effect p xdev)"
  by (cases p; simp add: vf_effect_def xdev_sriov_vf_online_def xdev_sriov_vf_offline_def
      xdev_sriov_vf_fmap_def vf_table_ok_def split_beta split: option.split mbox_msg_op.split)+

lemma pf_serve_inbox:
  assumes inbox: "mbox_inbox E msgs" and p: "p \<in> set msgs" and on: "xd_flags xdev AND XDEV_FLAG_OFFLINE = 0"
  obtains m' status' tr' where
    "pf_serve E xdev (delivered p) status tr = (True, m', status', vf_effect p xdev, tr')" "rcvd tr' = rcvd tr"
proof -
  have len: "length (snd p) = MBOX_MSG_REG_MAX"
    using inbox p by (cases p) (auto simp: mbox_inbox_def)
  show thesis
  proof (cases "mh_ack (msg_hdr (snd p))")
    case True
    then show thesis
      using that [of "delivered p" status tr]
      by (simp add: pf_serve_def delivered_fields [OF len] vf_effect_def split_beta)
  next
    case False
    obtain rv st xdev' m tr1 where op: "pf_op E xdev (delivered p) status tr = (rv, st, xdev', m, tr1)"
      by (metis prod_cases5)
    have m: "length m = MBOX_MSG_REG_MAX"
      by (rule length_pf_op [OF delivered_fields(5) [OF len] op])
    have xdev': "xdev' = vf_effect p xdev" by (rule pf_op_effect [OF len False op])
    have tr1: "rcvd tr1 = rcvd tr" using rcvd_pf_op [OF op [symmetric]] .
    have go: "xd_flags xdev' AND XDEV_FLAG_OFFLINE = 0" by (simp add: xdev' vf_effect_frame on)
    define s where "s = (if rv < 0 \<and> st = 0 then of_int (- 1) else st)"
    define m2 where "m2 = upd_hdr (reply_hdr xdev' s) m"
    have out: "env_readl E t (MBOX_BASE PF) AND 2 = 0" for t
      using inbox by (simp add: mbox_inbox_def)
    have m2: "length m2 = MBOX_MSG_REG_MAX" using m by (simp add: m2_def)
    obtain m3 tr2 where send: "mbox_send E PF m2 True tr1 = (0, m3, tr2)"
      using mbox_send_idle(1) [OF out m2, of True tr1] by (metis prod.collapse)
    have "rcvd tr2 = rcvd tr" using rcvd_mbox_send [OF m2, of E True tr1] by (simp add: send tr1)
    moreover have "pf_serve E xdev (delivered p) status tr =
        (if mh_wait (msg_hdr m) then (True, m3, s, xdev', tr2) else (True, m, st, xdev', tr1))"
      using False send
      by (simp add: pf_serve_def delivered_fields [OF len] op go flip: s_def m2_def)
    ultimately show thesis
      using that tr1 unfolding xdev' by (cases "mh_wait (msg_hdr m)") auto
  qed
qed

lemma pf_loop_inbox:
  assumes inbox: "mbox_inbox E msgs"
  shows "xd_flags xdev AND XDEV_FLAG_OFFLINE = 0 \<Longrightarrow>
    \<exists>tr'. pf_loop E xdev m status tr = Some (fold vf_effect (drop (rcvd tr) msgs) xdev, tr')
      \<and> rcvd tr' = max (rcvd tr) (length msgs)"
proof (induction "length msgs - rcvd tr" arbitrary: xdev m status tr)
  case 0
  then have "\<not> rcvd tr < length msgs" by simp
  then obtain tr' m' where "mbox_read E PF m False tr = (- EAGAIN, m', tr')" "rcvd tr' = rcvd tr"
    by - (rule mbox_read_inbox [OF inbox, where tr = tr and m = m], auto)
  with 0 show ?case by (subst pf_loop.simps) (simp add: EAGAIN_def)
next
  case (Suc n)
  then have lt: "rcvd tr < length msgs" by simp
  then obtain tr1 where read: "mbox_read E PF m False tr = (0, delivered (msgs ! rcvd tr), tr1)"
    and tr1: "rcvd tr1 = Suc (rcvd tr)"
    by - (rule mbox_read_inbox [OF inbox, where tr = tr and m = m], auto)
  let ?p = "msgs ! rcvd tr"
  have "?p \<in> set msgs" using lt by simp
  then obtain m2 st tr2 where serve:
      "pf_serve E xdev (delivered ?p) status tr1 = (True, m2, st, vf_effect ?p xdev, tr2)"
      and tr2: "rcvd tr2 = rcvd tr1"
    using pf_serve_inbox [OF inbox _ Suc.prems] by metis
  have "\<exists>tr'. pf_loop E (vf_effect ?p xdev) m2 st tr2
        = Some (fold vf_effect (drop (rcvd tr2) msgs) (vf_effect ?p xdev), tr')
      \<and> rcvd tr' = max (rcvd tr2) (length msgs)"
    using Suc.hyps(2) tr1 tr2 Suc.prems by (intro Suc.hyps(1)) (simp_all add: vf_effect_frame)
  moreover have "drop (rcvd tr) msgs = ?p # drop (Suc (rcvd tr)) msgs"
    using lt by (rule Cons_nth_drop_Suc [symmetric])
  ultimately show ?case
    using lt by (subst pf_loop.simps) (auto simp: read serve tr1 tr2)
qed

lemma vf_effect_other:
  assumes "vf_table_ok xdev" "fst p \<noteq> f"
  shows "vf_lookup (vf_effect p xdev) f = vf_lookup xdev f"
  using assms
  by (cases p)
    (auto simp: vf_effect_def vft.online_others vft.others_offline vft.others_fmap
      split: option.split mbox_msg_op.split)

lemma vf_effect_gone:
  assumes "vf_table_ok xdev" "vf_lookup xdev f = None" "mbox_op_of (mh_op (msg_hdr (snd p))) \<noteq> Some MBOX_OP_HELLO"
  shows "vf_lookup (vf_effect p xdev) f = None"
proof (cases "fst p = f")
  case True
  then show ?thesis
    using assms vft.fmap_unknown [OF assms(1,2)] vft.offline_lookup [OF assms(1), of f]
    by (cases p) (auto simp: vf_effect_def split: option.split mbox_msg_op.split)
qed (simp add: vf_effect_other assms)

lemma fold_vf_effect_ok: "vf_table_ok xdev \<Longrightarrow> vf_table_ok (fold vf_effect ps xdev)"
  by (induction ps arbitrary: xdev) (simp_all add: vf_effect_frame)

lemma fold_vf_effect_gone:
  assumes "vf_table_ok xdev" "vf_lookup xdev f = None"
    "\<forall>p \<in> set ps. fst p = f \<longrightarrow> mbox_op_of (mh_op (msg_hdr (snd p))) \<noteq> Some MBOX_OP_HELLO"
  shows "vf_lookup (fold vf_effect ps xdev) f = None"
  using assms
proof (induction ps arbitrary: xdev)
  case (Cons p ps)
  have "vf_lookup (vf_effect p xdev) f = None"
    using Cons.prems vf_effect_gone [of xdev f p] vf_effect_other [of xdev p f] by (cases "fst p = f") auto
  then show ?case using Cons by (simp add: vf_effect_frame)
qed simp

lemma vf_effect_bye:
  assumes "vf_table_ok xdev" "\<not> mh_ack (msg_hdr m)" "mh_op (msg_hdr m) = mbox_op_code MBOX_OP_BYE"
  shows "vf_lookup (vf_effect (f, m) xdev) f = None"
  using assms vft.offline_lookup [OF assms(1), of f] mbox_op_of_code [of MBOX_OP_BYE]
  by (simp add: vf_effect_def)

text \<open>
  C17.  The physical function's mailbox service returns once every pending message has been taken
  out, provided the outgoing mailbox is free and the device is not offline: the table of virtual
  functions has then seen each message once, in order, and the timer is running again.  A
  function whose last word was \<open>BYE\<close> is not in the table.
\<close>

theorem pf_mailbox_serves_all:
  assumes inbox: "mbox_inbox E msgs" and dev: "xd_addr xdev \<noteq> 0" "dc_pdev (xd_conf xdev) \<noteq> 0"
    and on: "xd_flags xdev AND XDEV_FLAG_OFFLINE = 0" and ok: "vf_table_ok xdev"
  shows "\<exists>xdev' tr'. qdma_mbox_proc E m xdev tr = Some (xdev', TimerStart # tr')
    \<and> xdev' = fold vf_effect (drop (rcvd tr) msgs) xdev
    \<and> rcvd tr' = max (rcvd tr) (length msgs)
    \<and> (\<forall>pre f w post. drop (rcvd tr) msgs = pre @ (f, w) # post
         \<longrightarrow> \<not> mh_ack (msg_hdr w) \<longrightarrow> mh_op (msg_hdr w) = mbox_op_code MBOX_OP_BYE
         \<longrightarrow> (\<forall>p \<in> set post. fst p = f \<longrightarrow> mbox_op_of (mh_op (msg_hdr (snd p))) \<noteq> Some MBOX_OP_HELLO)
         \<longrightarrow> vf_lookup xdev' f = None)"
proof -
  let ?xdev = "fold vf_effect (drop (rcvd tr) msgs) xdev"
  have gone: "vf_lookup ?xdev f = None"
    if "drop (rcvd tr) msgs = pre @ (f, w) # post" "\<not> mh_ack (msg_hdr w)"
      "mh_op (msg_hdr w) = mbox_op_code MBOX_OP_BYE"
      "\<forall>p \<in> set post. fst p = f \<longrightarrow> mbox_op_of (mh_op (msg_hdr (snd p))) \<noteq> Some MBOX_OP_HELLO"
    for pre f w post
    using that(1) fold_vf_effect_ok [OF ok, of pre] vf_effect_bye [OF _ that(2,3)] that(4)
    by (auto intro!: fold_vf_effect_gone simp: vf_effect_frame)
  have clr: "rcvd (pf_mbox_clear_ack E tr) = rcvd tr" by (rule rcvd_clear_ack)
  obtain tr' where loop: "pf_loop E xdev m 0 (pf_mbox_clear_ack E tr) = Some (?xdev, tr')"
    and tr': "rcvd tr' = max (rcvd tr) (length msgs)"
    using pf_loop_inbox [OF inbox on, of m 0 "pf_mbox_clear_ack E tr"] unfolding clr by blast
  have "xd_flags (fold vf_effect ps x) = xd_flags x" for ps x
    by (induction ps arbitrary: x) (simp_all add: vf_effect_frame)
  then have "qdma_mbox_proc E m xdev tr = Some (?xdev, TimerStart # tr')"
    using dev on by (simp add: qdma_mbox_proc_def loop qdma_mbox_timer_start_def)
  with tr' gone show ?thesis by blast
qed

text \<open>A mailbox with memory for its other registers, for the witnesses.\<close>

definition inbox_env :: "(u8 \<times> mbox_msg) list \<Rightarrow> env" where
  "inbox_env msgs = plain_env\<lparr>env_readl := \<lambda>tr r.
     if r = 0x2400 then (if rcvd tr < length msgs then 1 OR push_bit 4 (ucast (fst (msgs ! rcvd tr))) else 0)
     else if 0x2C00 \<le> r \<and> r < 0x2C80 \<and> rcvd tr < length msgs
       then snd (msgs ! rcvd tr) ! (unat (r - 0x2C00) div 4)
     else last_written tr r\<rparr>"

lemma inbox_env_inbox:
  assumes "\<forall>(src, w) \<in> set msgs. length w = MBOX_MSG_REG_MAX"
  shows "mbox_inbox (inbox_env msgs) msgs"
proof -
  have m: "(0xFF :: u32) = mask 8" by (simp add: mask_eq_exp_minus_1)
  have src: "G_MBOX_FN_STATUS_SRC (1 OR push_bit 4 (ucast (f :: u8))) = ucast f" for f
    unfolding G_MBOX_FN_STATUS_SRC_def m
    by (rule bit_word_eqI)
      (auto simp: bit_and_iff bit_drop_bit_eq bit_or_iff bit_push_bit_iff bit_ucast_u8 bit_1_iff bit_mask_iff)
  have b: "(1 OR push_bit 4 x) AND 2 = (0 :: u32)" "(1 OR push_bit 4 x) AND 1 = (1 :: u32)" for x :: u32
    by (rule bit_word_eqI; auto simp: bit_and_iff bit_or_iff bit_push_bit_iff bit_1_iff bit_2_iff)+
  have reg: "0x2C00 + 4 * of_nat i \<noteq> (0x2400 :: u32)" "(0x2C00 :: u32) \<le> 0x2C00 + 4 * of_nat i"
    "0x2C00 + 4 * of_nat i < (0x2C80 :: u32)" "unat (4 * of_nat i :: u32) div 4 = i"
    if "i < 32" for i
  proof -
    have u: "unat (0x2C00 + 4 * of_nat i :: u32) = 0x2C00 + 4 * i"
      using that unat_reg_step [of i 32 "0x2C00"] by simp
    show "0x2C00 + 4 * of_nat i \<noteq> (0x2400 :: u32)"
      by (rule reg_neq, unfold u) simp
    from u show "(0x2C00 :: u32) \<le> 0x2C00 + 4 * of_nat i"
      "0x2C00 + 4 * of_nat i < (0x2C80 :: u32)"
      using that by (auto simp: word_le_nat_alt word_less_nat_alt)
    show "unat (4 * of_nat i :: u32) div 4 = i"
      using unat_reg_step [of i 32 0] that by simp
  qed
  show ?thesis
    using assms unfolding mbox_inbox_def
    by (simp add: inbox_env_def b src reg not_le)
qed

theorem pf_mailbox_serves_all_witness:
  "\<exists>xdev' tr'. qdma_mbox_proc (inbox_env [(5, upd_hdr (mh_op_update (\<lambda>_. 2)) zero_msg)]) zero_msg sample_vf_dev []
     = Some (xdev', TimerStart # tr') \<and> vf_lookup xdev' 5 = None"
proof -
  let ?w = "upd_hdr (mh_op_update (\<lambda>_. 2)) zero_msg"
  have ne: "zero_msg \<noteq> []" by (simp add: zero_msg_def MBOX_MSG_REG_MAX_def)
  have hdr: "\<not> mh_ack (msg_hdr ?w)" "mh_op (msg_hdr ?w) = mbox_op_code MBOX_OP_BYE"
    unfolding msg_hdr_upd [OF ne] by (simp_all add: msg_hdr_def zero_msg_def MBOX_MSG_REG_MAX_def word_hdr_def)
  have r: "rcvd [] = 0" by (simp add: rcvd_def)
  have "mbox_inbox (inbox_env [(5, ?w)]) [(5, ?w)]"
    by (rule inbox_env_inbox) (simp add: zero_msg_def)
  from pf_mailbox_serves_all [OF this, of sample_vf_dev zero_msg "[]"] obtain xdev' tr' where
    run: "qdma_mbox_proc (inbox_env [(5, ?w)]) zero_msg sample_vf_dev [] = Some (xdev', TimerStart # tr')"
    and bye: "\<forall>pre f w post. [(5, ?w)] = pre @ (f, w) # post
         \<longrightarrow> \<not> mh_ack (msg_hdr w) \<longrightarrow> mh_op (msg_hdr w) = mbox_op_code MBOX_OP_BYE
         \<longrightarrow> (\<forall>p \<in> set post. fst p = f \<longrightarrow> mbox_op_of (mh_op (msg_hdr (snd p))) \<noteq> Some MBOX_OP_HELLO)
         \<longrightarrow> vf_lookup xdev' f = None"
    by (auto simp: sample_vf_dev_def sample_dev_def vf_table_ok_def r XDEV_FLAG_OFFLINE_def)
  have "vf_lookup xdev' 5 = None"
    using bye [rule_format, of "[]" 5 ?w "[]"] hdr by simp
  with run show ?thesis by blast
qed

section \<open>What arrives is what was sent\<close>

fun peer :: "build \<Rightarrow> build" where
  "peer PF = VF"
| "peer VF = PF"

lemma mbox_send_words:
  assumes sent: "mbox_send E b m wait tr = (0, m', tr')" and len: "length m = MBOX_MSG_REG_MAX" and i: "i < 32"
  shows "last_written tr' (MBOX_BASE b + MBOX_OUT_MSG_BASE + 4 * of_nat i) = upd_hdr (mh_sent_update (\<lambda>_. False)) m ! i"
proof -
  let ?a = "MBOX_BASE b + MBOX_OUT_MSG_BASE + 4 * of_nat i" and ?m = "upd_hdr (mh_sent_update (\<lambda>_. False)) m"
  obtain t where tr': "tr' = write_reg (MBOX_BASE b + MBOX_FN_CMD) F_MBOX_FN_CMD_SND
      (if b = PF then pf_mbox_clear_func_ack (mh_dst (msg_hdr m)) (write_regs (MBOX_BASE b + MBOX_OUT_MSG_BASE) ?m t)
       else write_regs (MBOX_BASE b + MBOX_OUT_MSG_BASE) ?m t)"
    using sent by (auto simp: mbox_send_def Let_def split_beta EAGAIN_def split: if_splits)
  have a: "unat ?a = unat (MBOX_BASE b) + 0xC00 + 4 * i"
    using i unat_reg_step [of i 32 "MBOX_BASE b + MBOX_OUT_MSG_BASE"]
    by (cases b) (simp_all add: MBOX_OUT_MSG_BASE_def)
  have cmd: "MBOX_BASE b + MBOX_FN_CMD \<noteq> ?a"
    by (rule reg_neq, unfold a) (cases b; simp add: MBOX_FN_CMD_def)
  have ack: "MBOX_BASE PF + MBOX_PF_ACK_BASE + ucast (f div 32) * 4 \<noteq> ?a" if "b = PF" for f :: u8
    by (rule reg_neq, unfold a func_ack_reg) (use that func_ack_reg(2) [of f] in simp)
  have "last_written (write_regs (MBOX_BASE b + MBOX_OUT_MSG_BASE) ?m t) ?a = ?m ! i"
    using i len by (intro last_written_write_regs) (simp_all add: MBOX_MSG_REG_MAX_def)
  then show ?thesis
    using cmd ack unfolding tr' pf_mbox_clear_func_ack_def Let_def write_reg_def by (cases b) simp_all
qed

text \<open>A receiver whose mailbox shows a message reads it, waiting or not.\<close>

lemma mbox_read_shown:
  assumes status: "\<And>t. env_readl E t (MBOX_BASE b) AND 1 = 1"
      "\<And>t. G_MBOX_FN_STATUS_SRC (env_readl E t (MBOX_BASE b)) = ucast (src :: u8)"
    and words: "\<And>t i. i < 32 \<Longrightarrow> env_readl E t (MBOX_BASE b + MBOX_IN_MSG_BASE + 4 * of_nat i) = w ! i"
    and len: "length w = MBOX_MSG_REG_MAX"
  shows "fst (mbox_read E b m wait tr) = 0
    \<and> fst (snd (mbox_read E b m wait tr)) = upd_hdr (\<lambda>h. h\<lparr>mh_src := if b = PF then src else mh_src h\<rparr>) w"
proof -
  have poll: "\<not> fst (hw_monitor_reg E (MBOX_BASE b) 1 1 i t tr) < 0" for i t tr
    by (subst hw_monitor_reg_idle) (simp_all add: status)
  have regs: "fst (read_regs E (MBOX_BASE b + MBOX_IN_MSG_BASE) MBOX_MSG_REG_MAX t) = w" for t
    using words len by (intro read_regs_shown) (simp_all add: MBOX_MSG_REG_MAX_def)
  have inj: "(ucast a :: u32) = ucast b \<longleftrightarrow> a = b" for a b :: u8
    using ucast_u8_u32 [of a] ucast_u8_u32 [of b] by (auto simp: word_unat_eq_iff)
  have ne: "w \<noteq> []" using len by (auto simp: MBOX_MSG_REG_MAX_def)
  have st: "fst (read_reg E (MBOX_BASE b) t) AND 1 = 1"
    "G_MBOX_FN_STATUS_SRC (fst (read_reg E (MBOX_BASE b) t)) = ucast src" for t
    using status by (simp_all add: read_reg_def Let_def)
  have id: "upd_hdr (\<lambda>h. h) w = w" "upd_hdr (mh_src_update (\<lambda>_. mh_src (msg_hdr w))) w = w"
    using ne by (simp_all add: upd_hdr_id)
  show ?thesis
    using id poll st regs
    by (cases b)
      (simp_all add: mbox_read_def Let_def split_beta MBOX_FN_STATUS_def F_MBOX_FN_STATUS_IN_MSG_def
        inj ucast_u8_back del: MBOX_BASE.simps)
qed

text \<open>
  C18.  A message that one side sent is the message the other side reads: when the receiver's
  incoming registers show what the sender's outgoing registers were last written with, every
  word arrives, except that the \<open>sent\<close> flag is clear and that the physical function sees as
  sender the function the hardware names.
\<close>

theorem mbox_transport:
  assumes len: "length m = MBOX_MSG_REG_MAX" and sent: "mbox_send Es b m wait ts = (0, m', ts')"
    and status: "\<And>t. env_readl Er t (MBOX_BASE (peer b)) AND 1 = 1"
      "\<And>t. G_MBOX_FN_STATUS_SRC (env_readl Er t (MBOX_BASE (peer b))) = ucast (src :: u8)"
    and wire: "\<And>t i. i < 32 \<Longrightarrow> env_readl Er t (MBOX_BASE (peer b) + MBOX_IN_MSG_BASE + 4 * of_nat i)
      = last_written ts' (MBOX_BASE b + MBOX_OUT_MSG_BASE + 4 * of_nat i)"
  shows "fst (mbox_read Er (peer b) m0 wait' tr) = 0
    \<and> fst (snd (mbox_read Er (peer b) m0 wait' tr))
      = upd_hdr (\<lambda>h. h\<lparr>mh_sent := False, mh_src := if b = VF then src else mh_src h\<rparr>) m"
proof -
  let ?w = "upd_hdr (mh_sent_update (\<lambda>_. False)) m"
  have ne: "m \<noteq> []" using len by (auto simp: MBOX_MSG_REG_MAX_def)
  have "env_readl Er t (MBOX_BASE (peer b) + MBOX_IN_MSG_BASE + 4 * of_nat i) = ?w ! i" if "i < 32" for t i
    using wire [OF that] mbox_send_words [OF sent len that] by simp
  from mbox_read_shown [OF status this] len have "fst (mbox_read Er (peer b) m0 wait' tr) = 0
    \<and> fst (snd (mbox_read Er (peer b) m0 wait' tr))
      = upd_hdr (\<lambda>h. h\<lparr>mh_src := if peer b = PF then src else mh_src h\<rparr>) ?w"
    by simp
  moreover have "upd_hdr g (upd_hdr f m) = upd_hdr (g \<circ> f) m" for f g
    using ne by (simp add: upd_hdr_def msg_hdr_def)
  ultimately show ?thesis by (cases b) (simp_all add: comp_def)
qed

text \<open>A mailbox that always shows the same message, from function 9.\<close>

definition shown_env :: "build \<Rightarrow> mbox_msg \<Rightarrow> env" where
  "shown_env b w = plain_env\<lparr>env_readl := \<lambda>tr r.
     if r = MBOX_BASE b then 0x91
     else if unat (MBOX_BASE b + MBOX_IN_MSG_BASE) \<le> unat r then w ! ((unat r - unat (MBOX_BASE b + MBOX_IN_MSG_BASE)) div 4)
     else last_written tr r\<rparr>"

lemma shown_env_simps:
  "env_readl (shown_env b w) t (MBOX_BASE b) = 0x91"
  "i < 32 \<Longrightarrow> env_readl (shown_env b w) t (MBOX_BASE b + MBOX_IN_MSG_BASE + 4 * of_nat i) = w ! i"
proof -
  show "env_readl (shown_env b w) t (MBOX_BASE b) = 0x91" by (simp add: shown_env_def)
  assume i: "i < 32"
  have u: "unat (MBOX_BASE b + MBOX_IN_MSG_BASE + 4 * of_nat i) = unat (MBOX_BASE b + MBOX_IN_MSG_BASE) + 4 * i"
    using i by (intro unat_reg_step) (cases b; simp add: MBOX_IN_MSG_BASE_def)+
  have "MBOX_BASE b + MBOX_IN_MSG_BASE + 4 * of_nat i \<noteq> MBOX_BASE b"
    by (rule reg_neq, unfold u) (cases b; simp add: MBOX_IN_MSG_BASE_def)
  then show "env_readl (shown_env b w) t (MBOX_BASE b + MBOX_IN_MSG_BASE + 4 * of_nat i) = w ! i"
    unfolding shown_env_def by (simp add: u)
qed

theorem mbox_transport_witness:
  "fst (snd (mbox_read (shown_env PF zero_msg) PF [] False [])) = upd_hdr (mh_src_update (\<lambda>_. 9)) zero_msg"
proof -
  have len: "length zero_msg = MBOX_MSG_REG_MAX" by (simp add: zero_msg_def)
  have idle: "env_readl plain_env tr (MBOX_BASE VF) AND 2 = 0" if "writes_of tr = []" for tr
    using that by (induction tr rule: writes_of.induct) simp_all
  define s where "s = mbox_send plain_env VF zero_msg False []"
  have s0: "fst s = 0"
    by (simp add: s_def mbox_send_def Let_def split_beta read_reg_def MBOX_FN_STATUS_def F_MBOX_FN_STATUS_OUT_MSG_def)
  then have send: "mbox_send plain_env VF zero_msg False [] = (0, fst (snd s), snd (snd s))"
    by (simp add: s_def prod_eq_iff)
  have z: "upd_hdr (mh_sent_update (\<lambda>_. False)) zero_msg = zero_msg"
    by (rule upd_hdr_id) (simp_all add: zero_msg_def MBOX_MSG_REG_MAX_def msg_hdr_def word_hdr_def)
  have wire: "env_readl (shown_env PF zero_msg) t (MBOX_BASE (peer VF) + MBOX_IN_MSG_BASE + 4 * of_nat i)
      = last_written (snd (snd s)) (MBOX_BASE VF + MBOX_OUT_MSG_BASE + 4 * of_nat i)" if "i < 32" for t i
    using mbox_send_words [OF send len that] shown_env_simps(2) [OF that, of PF zero_msg t] z by simp
  have status: "env_readl (shown_env PF zero_msg) t (MBOX_BASE (peer VF)) AND 1 = 1"
    "G_MBOX_FN_STATUS_SRC (env_readl (shown_env PF zero_msg) t (MBOX_BASE (peer VF))) = ucast (9 :: u8)" for t
    using shown_env_simps(1) [of PF zero_msg t] by (simp_all add: G_MBOX_FN_STATUS_SRC_def)
  have "upd_hdr (\<lambda>h. h\<lparr>mh_sent := False, mh_src := 9\<rparr>) zero_msg = upd_hdr (mh_src_update (\<lambda>_. 9)) zero_msg"
    by (simp add: upd_hdr_def zero_msg_def MBOX_MSG_REG_MAX_def msg_hdr_def word_hdr_def)
  with mbox_transport [OF len send status wire, of "[]" False "[]"] show ?thesis by simp
qed

section \<open>Answers\<close>

definition status_error :: "mbox_msg \<Rightarrow> u8 option" where
  "status_error m =
     (case mbox_op_of (mh_op (msg_hdr m)) of
        None \<Rightarrow> Some (of_int (- 2))
      | Some MBOX_OP_RESET \<Rightarrow> Some (of_int (- 2))
      | Some MBOX_OP_CSR \<Rightarrow> if csr_type_of (csr_msg_type m) = None then Some (of_int (- EINVAL)) else None
      | _ \<Rightarrow> None)"

lemma pf_op_status:
  "pf_op E xdev m status tr = (rv, st, xdev', m', tr') \<Longrightarrow>
     st = (case status_error m of Some e \<Rightarrow> e | None \<Rightarrow> status)"
  by (auto simp: pf_op_def status_error_def pf_op_csr_def Let_def split_beta
      split: option.splits mbox_msg_op.splits if_splits)

lemma pf_op_hdr:
  assumes "length m = MBOX_MSG_REG_MAX" "pf_op E xdev m status tr = (rv, st, xdev', m', tr')"
  shows "msg_hdr m' = msg_hdr m"
proof -
  have "take 2 m ! 0 = m ! 0" "take 2 m \<noteq> []" using assms(1) by (auto simp: MBOX_MSG_REG_MAX_def)
  then have "set_csr_v v m ! 0 = m ! 0" "set_qctxt_context c m ! 0 = m ! 0" for v c
    using assms(1) by (auto simp: set_csr_v_def set_qctxt_context_def nth_append MBOX_MSG_REG_MAX_def)
  then show ?thesis
    using assms(2)
    by (auto simp: pf_op_def msg_hdr_def pf_op_fmap_def pf_op_csr_def Let_def split_beta
        split: option.splits mbox_msg_op.splits if_splits)
qed



section \<open>Default queue ranges\<close>

lemma unat_default_qbase:
  assumes "4 \<le> src" "unat (dc_qsets_base (xd_conf xdev)) + unat (dc_qsets_max (xd_conf xdev)) + 2016 \<le> 2 ^ 16"
  shows "unat (default_qbase xdev src) =
    unat (dc_qsets_base (xd_conf xdev)) + unat (dc_qsets_max (xd_conf xdev)) + 8 * (unat src - 4)"
proof -
  have "unat (4 :: u8) \<le> unat src" using assms(1) by (simp only: word_le_nat_alt)
  then have s: "4 \<le> unat src" "unat src < 256" using unat_ucast_u8(2) [of src] by simp_all
  have "(4 :: u32) \<le> ucast src"
    using s by (simp add: word_le_nat_alt ucast_u8_u32)
  then have "unat (ucast src - 4 :: u32) = unat src - 4"
    by (simp add: unat_sub_le ucast_u8_u32)
  then have "unat (ucast src - 4 :: u32) * 8 < 2 ^ 32" and n: "unat (ucast src - 4 :: u32) = unat src - 4"
    using s by simp_all
  then have "unat ((ucast src - 4) * 8 :: u32) = unat (ucast src - 4 :: u32) * unat (8 :: u32)"
    by (subst unat_mult_lem [THEN iffD1]) simp_all
  then have d: "unat ((ucast src - QDMA_PF_MAX) * of_nat QDMA_Q_PER_VF_MAX) = 8 * (unat src - 4)"
    unfolding QDMA_PF_MAX_def QDMA_Q_PER_VF_MAX_def n by simp
  have "unat (dc_qsets_base (xd_conf xdev) + ucast (dc_qsets_max (xd_conf xdev)) :: u32)
      = unat (dc_qsets_base (xd_conf xdev)) + unat (dc_qsets_max (xd_conf xdev))"
    using assms(2) by (subst unat_add_no_overflow) (simp_all add: unat_ucast_u16)
  then show ?thesis
    unfolding default_qbase_def using assms(2) d s
    by (subst unat_add_no_overflow) simp_all
qed

lemma ranges8_disjoint: "f \<noteq> g \<Longrightarrow> {a + 8 * f ..< a + 8 * f + 8} \<inter> {a + 8 * g ..< a + 8 * g + (8 :: nat)} = {}"
proof (rule ccontr)
  assume "f \<noteq> g" "{a + 8 * f ..< a + 8 * f + 8} \<inter> {a + 8 * g ..< a + 8 * g + 8} \<noteq> {}"
  then obtain x where "a + 8 * f \<le> x" "x < a + 8 * f + 8" "a + 8 * g \<le> x" "x < a + 8 * g + 8" by auto
  then show False using \<open>f \<noteq> g\<close> by presburger
qed


definition fmap_msg :: mbox_msg where
  "fmap_msg = upd_hdr (\<lambda>h. h\<lparr>mh_op := mbox_op_code MBOX_OP_FMAP, mh_src := 5\<rparr>) (zero_msg[2 := 8])"



end
