(* ===== verification/Qdma_Mbox_Vf.thy ===== *)
theory Qdma_Mbox_Vf
  imports Qdma_Mbox
begin

text \<open>
  The virtual function's side of the mailbox (the \<open>__QDMA_VF__\<close> build of
  \<open>libqdma/qdma_mbox.c\<close>, \<open>qdma_regs.c\<close>, \<open>qdma_context.c\<close>, \<open>qdma_sriov.c\<close> and
  \<open>qdma_device.c\<close>): receiving, sending with and without an answer, and the requests the driver
  makes of the physical function.  \<open>None\<close> is a receive loop that never ends.
\<close>

section \<open>Receiving\<close>

definition vf_learn_id :: "mbox_msg_hdr \<Rightarrow> xlnx_dma_dev \<Rightarrow> xlnx_dma_dev" where
  "vf_learn_id h xdev =
     (if xd_func_id xdev = 0 then xdev\<lparr>xd_func_id := mh_dst h, xd_func_id_parent := mh_src h\<rparr> else xdev)"

text \<open>A message that is not an answer; the first component is the result of the send, if any.\<close>

definition vf_answer ::
  "env \<Rightarrow> xlnx_dma_dev \<Rightarrow> mbox_msg \<Rightarrow> u8 \<Rightarrow> trace \<Rightarrow> int \<times> mbox_msg \<times> u8 \<times> trace" where
  "vf_answer E xdev m status tr =
     (let status = (case mbox_op_of (mh_op (msg_hdr m)) of Some MBOX_OP_RESET \<Rightarrow> status | _ \<Rightarrow> of_int (- 2))
      in if mh_wait (msg_hdr m) then
           let (rv, m, tr) = mbox_send E VF (upd_hdr (reply_hdr xdev status) m) True tr
           in (rv, m, status, tr)
         else (0, m, status, tr))"

text \<open>
  \<open>mbox_proc_rcv\<close>: \<open>cnt\<close> and \<open>status\<close> are its local variables.  It returns the error of a
  failed answer, otherwise the number of messages.
\<close>

partial_function (option) vf_rcv_loop ::
  "env \<Rightarrow> nat \<Rightarrow> bool \<Rightarrow> nat \<Rightarrow> u8 \<Rightarrow> xlnx_dma_dev \<Rightarrow> trace \<Rightarrow> (int \<times> xlnx_dma_dev \<times> trace) option" where
  "vf_rcv_loop E budget wait cnt status xdev tr =
     (case mbox_read E VF (xd_m_resp xdev) wait tr of
        (rd, m, tr) \<Rightarrow>
          if rd \<noteq> 0 then Some (int cnt, xdev\<lparr>xd_m_resp := m\<rparr>, tr)
          else if mh_ack (msg_hdr m) then
            let xdev = vf_learn_id (msg_hdr m) (xdev\<lparr>xd_m_resp := m\<rparr>);
                xdev = (if mh_wait (msg_hdr m) then xdev\<lparr>xd_m_req := m\<rparr> else xdev)
            in if budget \<noteq> 0 \<and> budget \<le> Suc cnt then Some (int (Suc cnt), xdev, tr)
               else vf_rcv_loop E budget wait (Suc cnt) status xdev tr
          else
            (case vf_answer E xdev m status tr of
               (rv, m, status, tr) \<Rightarrow>
                 if rv < 0 then Some (rv, xdev\<lparr>xd_m_resp := m\<rparr>, tr)
                 else if xd_flags xdev AND XDEV_FLAG_OFFLINE \<noteq> 0 \<or> budget \<noteq> 0 \<and> budget \<le> Suc cnt
                 then Some (int (Suc cnt), xdev\<lparr>xd_m_resp := m\<rparr>, tr)
                 else vf_rcv_loop E budget wait (Suc cnt) status (xdev\<lparr>xd_m_resp := m\<rparr>) tr))"

definition mbox_proc_rcv ::
  "env \<Rightarrow> xlnx_dma_dev \<Rightarrow> nat \<Rightarrow> bool \<Rightarrow> trace \<Rightarrow> (int \<times> xlnx_dma_dev \<times> trace) option" where
  "mbox_proc_rcv E xdev budget wait tr = vf_rcv_loop E budget wait 0 0 xdev tr"

definition vf_mbox_proc :: "env \<Rightarrow> xlnx_dma_dev \<Rightarrow> trace \<Rightarrow> (xlnx_dma_dev \<times> trace) option" where
  "vf_mbox_proc E xdev tr =
     (if xd_addr xdev = 0 \<or> dc_pdev (xd_conf xdev) = 0 then Some (xdev, tr)
      else
        (case mbox_proc_rcv E xdev 0 False tr of
           None \<Rightarrow> None
         | Some (_, xdev, tr) \<Rightarrow>
             Some (xdev, if xd_flags xdev AND XDEV_FLAG_OFFLINE \<noteq> 0 then qdma_mbox_timer_stop tr
                         else qdma_mbox_timer_start tr)))"

section \<open>Sending\<close>

text \<open>The status of an answer is a \<open>char\<close>.\<close>

definition hdr_status :: "mbox_msg_hdr \<Rightarrow> int" where
  "hdr_status h = sint (mh_status h)"

definition qdma_mbox_send_msg ::
  "env \<Rightarrow> xlnx_dma_dev \<Rightarrow> mbox_msg \<Rightarrow> bool \<Rightarrow> trace \<Rightarrow> (int \<times> mbox_msg \<times> xlnx_dma_dev \<times> trace) option" where
  "qdma_mbox_send_msg E xdev m wait_resp tr =
     (let m = upd_hdr (\<lambda>h. if wait_resp then h\<lparr>mh_ack := False, mh_wait := True\<rparr> else h\<lparr>mh_wait := False\<rparr>) m;
          (rv, m, tr) = mbox_send E VF m True tr
      in if rv < 0 \<or> \<not> wait_resp then Some (rv, m, xdev, tr)
      else
        (case mbox_proc_rcv E (xdev\<lparr>xd_m_req := zero_msg\<rparr>) 1 True tr of
           None \<Rightarrow> None
         | Some (rv, xdev, tr) \<Rightarrow>
             if rv \<le> 0 then Some (rv, m, xdev, tr)
             else
               let hdr = msg_hdr (xd_m_req xdev)
               in Some (if mh_op hdr = mh_op (msg_hdr m) \<and> mh_ack hdr then hdr_status hdr else - ETIME,
                        m, xdev, tr)))"

section \<open>Requests\<close>

definition vf_request :: "mbox_msg_op \<Rightarrow> mbox_msg" where
  "vf_request op = upd_hdr (mh_op_update (\<lambda>_. mbox_op_code op)) zero_msg"

text \<open>A request that names its function and parent.\<close>

definition vf_own_request :: "xlnx_dma_dev \<Rightarrow> mbox_msg_op \<Rightarrow> mbox_msg" where
  "vf_own_request xdev op =
     upd_hdr (\<lambda>h. h\<lparr>mh_src := xd_func_id xdev, mh_dst := xd_func_id_parent xdev\<rparr>) (vf_request op)"

text \<open>
  \<open>xdev_sriov_vf_online\<close> and \<open>_offline\<close> of the VF build: a negative result is handed on, any
  other is 0.
\<close>

definition vf_notify :: "env \<Rightarrow> mbox_msg_op \<Rightarrow> xlnx_dma_dev \<Rightarrow> trace \<Rightarrow> (int \<times> xlnx_dma_dev \<times> trace) option" where
  "vf_notify E op xdev tr =
     map_option (\<lambda>(rv, m, xdev, tr). (if rv < 0 then rv else 0, xdev, tr))
       (qdma_mbox_send_msg E xdev (vf_request op) False tr)"

definition vf_xdev_sriov_vf_offline :: "env \<Rightarrow> xlnx_dma_dev \<Rightarrow> trace \<Rightarrow> (int \<times> xlnx_dma_dev \<times> trace) option" where
  "vf_xdev_sriov_vf_offline E xdev tr = vf_notify E MBOX_OP_BYE xdev tr"

definition vf_xdev_sriov_vf_online :: "env \<Rightarrow> xlnx_dma_dev \<Rightarrow> trace \<Rightarrow> (int \<times> xlnx_dma_dev \<times> trace) option" where
  "vf_xdev_sriov_vf_online E xdev tr = vf_notify E MBOX_OP_HELLO xdev tr"

text \<open>The values and the writeback accumulation are stored only on success.\<close>

definition qdma_csr_msg ::
  "env \<Rightarrow> xlnx_dma_dev \<Rightarrow> mbox_csr_type \<Rightarrow> u32 list \<Rightarrow> u32 \<Rightarrow> trace
     \<Rightarrow> (int \<times> u32 list \<times> u32 \<times> xlnx_dma_dev \<times> trace) option" where
  "qdma_csr_msg E xdev type val wb_acc tr =
     (if type = CSR_UNDEFINED then Some (- EINVAL, val, wb_acc, xdev, tr)
      else
        map_option (\<lambda>(rv, m, xdev, tr).
          if rv < 0 then (rv, val, wb_acc, xdev, tr)
          else if hdr_status (msg_hdr (xd_m_req xdev)) \<noteq> 0
          then (hdr_status (msg_hdr (xd_m_req xdev)), val, wb_acc, xdev, tr)
          else (0, csr_msg_v (xd_m_req xdev), csr_msg_wb_acc (xd_m_req xdev), xdev, tr))
        (qdma_mbox_send_msg E xdev ((vf_request MBOX_OP_CSR)[1 := csr_type_code type]) True tr))"

definition vf_global_csr_get ::
  "env \<Rightarrow> xdev_list \<Rightarrow> xlnx_dma_dev \<Rightarrow> global_csr_conf \<Rightarrow> trace
     \<Rightarrow> (int \<times> global_csr_conf \<times> xlnx_dma_dev \<times> trace) option" where
  "vf_global_csr_get E devs xdev csr tr =
     (if hndl_bad devs xdev then Some (- EINVAL, csr, xdev, tr)
      else Option.bind (qdma_csr_msg E xdev CSR_RNGSZ (csr_ring_sz csr) (csr_wb_acc csr) tr)
        (\<lambda>(rv, v, acc, xdev, tr). let csr = csr\<lparr>csr_ring_sz := v, csr_wb_acc := acc\<rparr> in
      if rv < 0 then Some (rv, csr, xdev, tr)
      else Option.bind (qdma_csr_msg E xdev CSR_BUFSZ (csr_c2h_buf_sz csr) (csr_wb_acc csr) tr)
        (\<lambda>(rv, v, acc, xdev, tr). let csr = csr\<lparr>csr_c2h_buf_sz := v, csr_wb_acc := acc\<rparr> in
      if rv < 0 then Some (rv, csr, xdev, tr)
      else Option.bind (qdma_csr_msg E xdev CSR_TIMER_CNT (csr_c2h_timer_cnt csr) (csr_wb_acc csr) tr)
        (\<lambda>(rv, v, acc, xdev, tr). let csr = csr\<lparr>csr_c2h_timer_cnt := v, csr_wb_acc := acc\<rparr> in
      if rv < 0 then Some (rv, csr, xdev, tr)
      else Option.bind (qdma_csr_msg E xdev CSR_CNT_TH (csr_c2h_cnt_th csr) (csr_wb_acc csr) tr)
        (\<lambda>(rv, v, acc, xdev, tr). let csr = csr\<lparr>csr_c2h_cnt_th := v, csr_wb_acc := acc\<rparr> in
      if rv < 0 then Some (rv, csr, xdev, tr) else Some (0, csr, xdev, tr))))))"

definition vf_global_csr_set :: "xdev_list \<Rightarrow> xlnx_dma_dev \<Rightarrow> int" where
  "vf_global_csr_set devs xdev = (if hndl_bad devs xdev then - EINVAL else - EINVAL)"

text \<open>What the callers make of the answer: its status, or \<open>-EINVAL\<close> when there is none.\<close>

definition ack_status :: "xlnx_dma_dev \<Rightarrow> int" where
  "ack_status xdev =
     (if mh_ack (msg_hdr (xd_m_req xdev)) then hdr_status (msg_hdr (xd_m_req xdev)) else - EINVAL)"

definition vf_descq_context_clear ::
  "env \<Rightarrow> xlnx_dma_dev \<Rightarrow> u32 \<Rightarrow> bool \<Rightarrow> bool \<Rightarrow> bool \<Rightarrow> trace \<Rightarrow> (int \<times> xlnx_dma_dev \<times> trace) option" where
  "vf_descq_context_clear E xdev qid_hw st c2h clr tr =
     map_option (\<lambda>(rv, m, xdev, tr). (if rv < 0 then rv else ack_status xdev, xdev, tr))
       (qdma_mbox_send_msg E xdev
          ((vf_own_request xdev MBOX_OP_QCTXT_CLR)[1 := qctxt_word1 False False c2h st (ucast qid_hw)]) True tr)"

definition vf_descq_context_read ::
  "env \<Rightarrow> xlnx_dma_dev \<Rightarrow> u32 \<Rightarrow> bool \<Rightarrow> bool \<Rightarrow> hw_descq_context \<Rightarrow> trace
     \<Rightarrow> (int \<times> hw_descq_context \<times> xlnx_dma_dev \<times> trace) option" where
  "vf_descq_context_read E xdev qid_hw st c2h context tr =
     map_option (\<lambda>(rv, m, xdev, tr).
        if rv < 0 then (rv, context, xdev, tr)
        else if ack_status xdev \<noteq> 0 then (ack_status xdev, context, xdev, tr)
        else (0, qctxt_context m, xdev, tr))
       (qdma_mbox_send_msg E xdev
          ((vf_own_request xdev MBOX_OP_QCTXT_RD)[1 := qctxt_word1 False False c2h st (ucast qid_hw)]) True tr)"

definition vf_setup_msg :: "xlnx_dma_dev \<Rightarrow> qdma_descq \<Rightarrow> mbox_msg" where
  "vf_setup_msg xdev descq =
     (let conf = dq_conf descq;
          c = zero_context\<lparr>cx_sw := snd (make_sw_context xdev descq (replicate 4 0))\<rparr>;
          c = (if qc_st conf \<and> qc_c2h conf
               then c\<lparr>cx_prefetch := snd (make_prefetch_context descq (replicate 2 0)),
                      cx_wrb := snd (make_wrb_context xdev descq (replicate 4 0))\<rparr>
               else c)
      in set_qctxt_context c
           ((vf_own_request xdev MBOX_OP_QCTXT_WRT)
              [1 := qctxt_word1 True True (qc_c2h conf) (qc_st conf) (ucast (dq_qidx_hw descq))]))"

definition vf_descq_context_setup ::
  "env \<Rightarrow> xlnx_dma_dev \<Rightarrow> qdma_descq \<Rightarrow> trace \<Rightarrow> (int \<times> xlnx_dma_dev \<times> trace) option" where
  "vf_descq_context_setup E xdev descq tr =
     map_option (\<lambda>(rv, m, xdev, tr). (if rv < 0 then rv else ack_status xdev, xdev, tr))
       (qdma_mbox_send_msg E xdev (vf_setup_msg xdev descq) True tr)"

text \<open>
  The interrupt contexts, seven vectors to a message.  As in the code, a message for \<open>copy\<close>
  vectors takes \<open>copy\<close> words of the two-word contexts.
\<close>

partial_function (option) vf_intr_context_loop ::
  "env \<Rightarrow> u32 list \<Rightarrow> nat \<Rightarrow> xlnx_dma_dev \<Rightarrow> trace \<Rightarrow> (int \<times> xlnx_dma_dev \<times> trace) option" where
  "vf_intr_context_loop E data i xdev tr =
     (let copy = min (xd_num_vecs xdev - i) 7;
          m = set_intr_w (take copy (drop (2 * i) data))
                ((vf_own_request xdev MBOX_OP_INTR_CTXT)[1 := intr_ctxt_word1 True (of_nat i) (of_nat copy)])
      in case qdma_mbox_send_msg E xdev m True tr of
           None \<Rightarrow> None
         | Some (rv, m, xdev, tr) \<Rightarrow>
             if rv < 0 then Some (rv, xdev, tr)
             else if ack_status xdev \<noteq> 0 then Some (ack_status xdev, xdev, tr)
             else if i + copy < xd_num_vecs xdev then vf_intr_context_loop E data (i + copy) xdev tr
             else Some (0, xdev, tr))"

definition vf_intr_context_setup ::
  "env \<Rightarrow> xlnx_dma_dev \<Rightarrow> trace \<Rightarrow> (int \<times> xlnx_dma_dev \<times> trace) option" where
  "vf_intr_context_setup E xdev tr =
     (if \<not> xd_intr_coal_en xdev then Some (0, xdev, tr)
      else
        let (rv, data) = make_intr_context xdev (replicate (2 * XDEV_NUM_IRQ_MAX) 0)
        in if rv < 0 then Some (rv, xdev, tr) else vf_intr_context_loop E data 0 xdev tr)"

text \<open>
  \<open>device_set_qrange\<close>: the answer tells the function its number and the base of its queues.
\<close>

definition vf_device_set_qrange ::
  "env \<Rightarrow> xlnx_dma_dev \<Rightarrow> qdma_descq list \<Rightarrow> qdma_descq list \<Rightarrow> trace
     \<Rightarrow> (int \<times> xlnx_dma_dev \<times> qdma_descq list \<times> qdma_descq list \<times> trace) option" where
  "vf_device_set_qrange E xdev h2c c2h tr =
     map_option (\<lambda>(rv, m, xdev, tr).
        if rv < 0 then (rv, xdev, h2c, c2h, tr)
        else
          let hdr = msg_hdr (xd_m_req xdev);
              base = fmap_qbase (xd_m_req xdev);
              xdev = xdev\<lparr>xd_func_id := mh_dst hdr, xd_func_id_parent := mh_src hdr,
                          xd_conf := (xd_conf xdev)\<lparr>dc_qsets_base := base\<rparr>, xd_qbase := ucast base\<rparr>;
              n = unat (xd_qmax xdev);
              shift = (\<lambda>descq. descq\<lparr>dq_qidx_hw := dq_qidx_hw descq + ucast (xd_qbase xdev)\<rparr>)
          in (0, xdev, map shift (take n h2c) @ drop n h2c, map shift (take n c2h) @ drop n c2h, tr))
       (qdma_mbox_send_msg E xdev
          ((vf_request MBOX_OP_FMAP)[1 := ucast (xd_qbase xdev), 2 := ucast (xd_qmax xdev)]) True tr)"

section \<open>Requests return\<close>

lemma status_bits:
  assumes "v AND 3 = (c :: u32)"
  shows "v AND 2 = c AND 2" "v AND 1 = c AND 1"
  using assms by (auto simp: and.assoc)

lemma upd_hdr_upd: "m \<noteq> [] \<Longrightarrow> upd_hdr f (upd_hdr g m) = upd_hdr (\<lambda>h. f (g h)) m"
  by (simp add: upd_hdr_def msg_hdr_def)

lemma upd_hdr_nil [simp]: "upd_hdr f m = [] \<longleftrightarrow> m = []"
  by (simp add: upd_hdr_def)

lemma mbox_send_msg:
  assumes "m \<noteq> []" "mbox_send E b m wait tr = (rv, m', tr')"
  shows "rv = 0 \<or> rv = - EAGAIN" "m' = upd_hdr (mh_sent_update (\<lambda>_. rv = 0)) m"
  using assms
  by (auto simp: mbox_send_def Let_def split_beta upd_hdr_upd EAGAIN_def split: if_splits)

lemma vf_answer_result:
  assumes "m \<noteq> []"
  shows "fst (vf_answer E xdev m status tr) = 0 \<or> fst (vf_answer E xdev m status tr) = - EAGAIN"
proof -
  have "fst (mbox_send E VF m2 True tr) = 0 \<or> fst (mbox_send E VF m2 True tr) = - EAGAIN" if "m2 \<noteq> []" for m2
    using mbox_send_msg(1) [OF that, of E VF True tr] by (metis prod.collapse)
  then show ?thesis using assms by (simp add: vf_answer_def Let_def split_beta)
qed

lemma mbox_read_result:
  "fst (mbox_read E b m wait tr) = 0 \<and> length (fst (snd (mbox_read E b m wait tr))) = MBOX_MSG_REG_MAX
   \<or> fst (mbox_read E b m wait tr) = - EAGAIN"
  by (simp add: mbox_read_def Let_def split_beta)

text \<open>One message at most is received while a request waits for its answer.\<close>

lemma vf_rcv_one:
  "\<exists>rv xdev' tr'. mbox_proc_rcv E xdev 1 True tr = Some (rv, xdev', tr')
    \<and> (rv = 0 \<and> xd_m_req xdev' = xd_m_req xdev \<or> rv = 1 \<or> rv = - EAGAIN \<and> xd_m_req xdev' = xd_m_req xdev)"
proof -
  obtain rd m t where rd: "mbox_read E VF (xd_m_resp xdev) True tr = (rd, m, t)" by (metis prod_cases3)
  show ?thesis
  proof (cases "rd = 0 \<and> \<not> mh_ack (msg_hdr m)")
    case True
    then have ne: "m \<noteq> []"
      using mbox_read_result [of E VF "xd_m_resp xdev" True tr] by (auto simp: rd MBOX_MSG_REG_MAX_def EAGAIN_def)
    obtain rv m2 s t2 where an: "vf_answer E (xdev) m 0 t = (rv, m2, s, t2)" by (metis prod_cases4)
    show ?thesis
      unfolding mbox_proc_rcv_def
      by (subst vf_rcv_loop.simps)
        (use True vf_answer_result [OF ne, of E xdev 0 t] in \<open>auto simp: rd an EAGAIN_def\<close>)
  next
    case False
    then show ?thesis
      unfolding mbox_proc_rcv_def
      by (subst vf_rcv_loop.simps) (auto simp: rd Let_def)
  qed
qed

lemma vf_send_outcome:
  assumes "m \<noteq> []"
  shows "\<exists>rv m' xdev' tr'. qdma_mbox_send_msg E xdev m wait_resp tr = Some (rv, m', xdev', tr')
    \<and> drop 1 m' = drop 1 m
    \<and> (rv = - EAGAIN \<or> rv = - ETIME
       \<or> rv = 0 \<and> (wait_resp \<longrightarrow> xd_m_req xdev' = zero_msg)
       \<or> wait_resp \<and> rv = hdr_status (msg_hdr (xd_m_req xdev')) \<and> mh_ack (msg_hdr (xd_m_req xdev'))
          \<and> mh_op (msg_hdr (xd_m_req xdev')) = mh_op (msg_hdr m))"
proof -
  let ?m = "upd_hdr (\<lambda>h. if wait_resp then h\<lparr>mh_ack := False, mh_wait := True\<rparr> else h\<lparr>mh_wait := False\<rparr>) m"
  obtain rv m2 t where send: "mbox_send E VF ?m True tr = (rv, m2, t)" by (metis prod_cases3)
  have ne: "?m \<noteq> []" using assms by simp
  note m2 = mbox_send_msg [OF ne send]
  have op: "mh_op (msg_hdr m2) = mh_op (msg_hdr m)" "drop 1 m2 = drop 1 m"
    using assms unfolding m2(2) by simp_all
  obtain rv' xdev' t' where rcv: "mbox_proc_rcv E (xdev\<lparr>xd_m_req := zero_msg\<rparr>) 1 True t = Some (rv', xdev', t')"
    and res: "rv' = 0 \<and> xd_m_req xdev' = zero_msg \<or> rv' = 1 \<or> rv' = - EAGAIN"
    using vf_rcv_one [of E "xdev\<lparr>xd_m_req := zero_msg\<rparr>" t] by auto
  have run: "qdma_mbox_send_msg E xdev m wait_resp tr =
      (if rv < 0 \<or> \<not> wait_resp then Some (rv, m2, xdev, t)
       else if rv' \<le> 0 then Some (rv', m2, xdev', t')
       else Some (if mh_op (msg_hdr (xd_m_req xdev')) = mh_op (msg_hdr m2) \<and> mh_ack (msg_hdr (xd_m_req xdev'))
                  then hdr_status (msg_hdr (xd_m_req xdev')) else - ETIME, m2, xdev', t'))"
    by (simp only: qdma_mbox_send_msg_def Let_def send prod.case rcv option.case)
  show ?thesis
    unfolding run using m2(1) op res
    by (cases "rv < 0 \<or> \<not> wait_resp") (auto simp: EAGAIN_def)
qed

lemma vf_send_body:
  assumes "m \<noteq> []"
  shows "\<exists>rv m' xdev' tr'. qdma_mbox_send_msg E xdev m wait_resp tr = Some (rv, m', xdev', tr') \<and> drop 1 m' = drop 1 m"
  using vf_send_outcome [OF assms] by blast

text \<open>
  C23.  A virtual function's request always returns.  Its result is an error of the transport, the
  status of the answer, or 0; when it waits and nothing arrives in time, it is 0 too, and the
  place of the answer is zeroed.
\<close>

theorem vf_request_returns:
  assumes "m \<noteq> []"
  shows "\<exists>rv m' xdev' tr'. qdma_mbox_send_msg E xdev m wait_resp tr = Some (rv, m', xdev', tr')
    \<and> drop 1 m' = drop 1 m
    \<and> (rv = - EAGAIN \<or> rv = - ETIME
       \<or> rv = 0 \<and> (wait_resp \<longrightarrow> xd_m_req xdev' = zero_msg)
       \<or> wait_resp \<and> rv = hdr_status (msg_hdr (xd_m_req xdev')) \<and> mh_ack (msg_hdr (xd_m_req xdev'))
          \<and> mh_op (msg_hdr (xd_m_req xdev')) = mh_op (msg_hdr m))"
  by (rule vf_send_outcome [OF assms])

theorem vf_request_returns_witness:
  "\<exists>rv m' xdev' tr'. qdma_mbox_send_msg plain_env sample_vf_dev zero_msg True [] = Some (rv, m', xdev', tr')
    \<and> drop 1 m' = drop 1 zero_msg"
proof -
  have "zero_msg \<noteq> []" by (simp add: zero_msg_def MBOX_MSG_REG_MAX_def)
  from vf_request_returns [OF this, of plain_env sample_vf_dev True "[]"] show ?thesis by blast
qed

text \<open>
  A virtual function that asks for the register values of the device while the physical
  function does not answer is told that it succeeded and is given zeros: \<open>qdma_csr_msg\<close> looks
  at the status of an answer that never came.
\<close>

theorem vf_csr_silence_is_success:
  assumes silent: "\<And>t. env_readl E t (MBOX_BASE VF) AND 3 = 0" and hndl: "\<not> hndl_bad devs xdev"
  shows "\<exists>xdev' tr'. vf_global_csr_get E devs xdev csr tr =
    Some (0, \<lparr>csr_ring_sz = replicate 16 0, csr_c2h_timer_cnt = replicate 16 0, csr_c2h_cnt_th = replicate 16 0,
              csr_c2h_buf_sz = replicate 16 0, csr_wb_acc = 0\<rparr>, xdev', tr')"
proof -
  have bits: "env_readl E t (MBOX_BASE VF) AND 2 = 0" "env_readl E t (MBOX_BASE VF) AND 1 = 0" for t
    using status_bits [OF silent [of t]] by simp_all
  have "\<exists>x t. qdma_csr_msg E xd type val acc tr0 = Some (0, replicate 16 0, 0, x, t)"
    if "type \<noteq> CSR_UNDEFINED" for type val acc tr0 xd
  proof -
    let ?m = "(vf_request MBOX_OP_CSR)[1 := csr_type_code type]"
    let ?m1 = "upd_hdr (\<lambda>h. h\<lparr>mh_ack := False, mh_wait := True\<rparr>) ?m"
    have len: "length ?m1 = MBOX_MSG_REG_MAX" by (simp add: vf_request_def zero_msg_def)
    obtain m2 t where send: "mbox_send E VF ?m1 True tr0 = (0, m2, t)"
      using mbox_send_idle(1) [where b = VF, OF bits(1) len, of True tr0] by (metis prod.collapse)
    have "fst (mbox_read E VF r True t) = - EAGAIN" for r
      using bits(2)
      by (simp add: mbox_read_def Let_def split_beta read_reg_def MBOX_FN_STATUS_def F_MBOX_FN_STATUS_IN_MSG_def)
    then obtain m3 t3 where rd: "mbox_read E VF (xd_m_resp xd) True t = (- EAGAIN, m3, t3)"
      by (metis prod.collapse)
    have rcv: "mbox_proc_rcv E (xd\<lparr>xd_m_req := zero_msg\<rparr>) 1 True t
        = Some (0, xd\<lparr>xd_m_req := zero_msg, xd_m_resp := m3\<rparr>, t3)"
      unfolding mbox_proc_rcv_def by (subst vf_rcv_loop.simps) (simp add: rd EAGAIN_def)
    have "qdma_mbox_send_msg E xd ?m True tr0 = Some (0, m2, xd\<lparr>xd_m_req := zero_msg, xd_m_resp := m3\<rparr>, t3)"
      using send by (simp add: qdma_mbox_send_msg_def rcv [unfolded One_nat_def])
    then show ?thesis
      using that
      by (simp add: qdma_csr_msg_def hdr_status_def msg_hdr_def zero_msg_def MBOX_MSG_REG_MAX_def word_hdr_def
          csr_msg_v_def csr_msg_wb_acc_def)
  qed
  note msg = this
  obtain x1 t1 where 1: "qdma_csr_msg E xdev CSR_RNGSZ (csr_ring_sz csr) (csr_wb_acc csr) tr
      = Some (0, replicate 16 0, 0, x1, t1)" using msg by blast
  obtain x2 t2 where 2: "qdma_csr_msg E x1 CSR_BUFSZ (csr_c2h_buf_sz csr) 0 t1
      = Some (0, replicate 16 0, 0, x2, t2)" using msg by blast
  obtain x3 t3 where 3: "qdma_csr_msg E x2 CSR_TIMER_CNT (csr_c2h_timer_cnt csr) 0 t2
      = Some (0, replicate 16 0, 0, x3, t3)" using msg by blast
  obtain x4 t4 where 4: "qdma_csr_msg E x3 CSR_CNT_TH (csr_c2h_cnt_th csr) 0 t3
      = Some (0, replicate 16 0, 0, x4, t4)" using msg by blast
  show ?thesis
    using hndl by (cases csr) (use 1 2 3 4 in \<open>simp add: vf_global_csr_get_def Let_def\<close>)
qed

definition silent_env :: env where
  "silent_env = plain_env\<lparr>env_readl := \<lambda>tr r. 0\<rparr>"

theorem vf_csr_silence_is_success_witness:
  "\<exists>csr' xdev' tr'. vf_global_csr_get silent_env [sample_dev] sample_dev sample_csr [] = Some (0, csr', xdev', tr')
     \<and> csr_ring_sz csr' = replicate 16 0"
proof -
  have "env_readl silent_env t (MBOX_BASE VF) AND 3 = 0" for t by (simp add: silent_env_def)
  from vf_csr_silence_is_success [OF this sample_dev_hndl, of sample_csr "[]"]
  show ?thesis by force
qed

text \<open>
  A virtual function that reads a queue's context and is told that it succeeded is given a
  context of zeros, whatever the physical function answered: the code copies the context out of
  its own request instead of the answer.
\<close>

theorem vf_context_read_is_zero:
  assumes "vf_descq_context_read E xdev qid_hw st c2h context tr = Some (0, c, xdev', tr')"
  shows "c = zero_context"
proof -
  let ?m = "(vf_own_request xdev MBOX_OP_QCTXT_RD)[1 := qctxt_word1 False False c2h st (ucast qid_hw)]"
  have body: "drop 2 ?m = replicate 30 0"
    by (simp add: vf_own_request_def vf_request_def zero_msg_def MBOX_MSG_REG_MAX_def)
  have ne: "?m \<noteq> []" by (simp add: vf_own_request_def vf_request_def zero_msg_def MBOX_MSG_REG_MAX_def)
  obtain rv m' x t where send: "qdma_mbox_send_msg E xdev ?m True tr = Some (rv, m', x, t)"
    and m': "drop 1 m' = drop 1 ?m"
    using vf_send_body [OF ne, of E xdev True tr] by blast
  have words: "drop n m' = replicate (32 - n) 0" if "2 \<le> n" for n
  proof -
    define k where "k = n - 2"
    have k: "n = k + 2" using that by (simp add: k_def)
    have "drop n m' = drop k (drop 1 (drop 1 m'))" by (simp add: k)
    also have "\<dots> = drop k (drop 2 ?m)" unfolding m' by simp
    also have "\<dots> = replicate (32 - n) 0" unfolding body k by simp
    finally show ?thesis .
  qed
  have "c = qctxt_context m'"
    using assms unfolding vf_descq_context_read_def send by (auto split: if_splits)
  also have "\<dots> = zero_context"
    by (simp add: qctxt_context_def words zero_context_def)
  finally show ?thesis .
qed

text \<open>
  C20.  What a virtual function asks for its queue is what the physical function does: served on a
  device with a context memory, the set-up message ends in the software context and, for a
  streaming C2H queue, the prefetch and completion contexts that the virtual function made from
  its queue; the vector context, which the message leaves at zero, is zero.
\<close>

theorem vf_setup_served:
  assumes dev: "ctxt_device ivd E" and q: "unat (dq_qidx_hw q) < 2 ^ 11"
  defines "st \<equiv> qc_st (dq_conf q)" and "c2h \<equiv> qc_c2h (dq_conf q)"
  shows "case pf_op E pf (delivered (f, vf_setup_msg vf q)) status tr of (rv, status', pf', m', tr1) \<Rightarrow>
    case qdma_descq_context_read E (dq_qidx_hw q) st c2h tr1 of (rv', c, tr2) \<Rightarrow>
      rv = 0 \<and> status' = status \<and> pf' = pf \<and> rv' = 0
      \<and> cx_sw c = snd (make_sw_context vf q (replicate 4 0)) \<and> cx_qid2vec c = [0]
      \<and> (st \<and> c2h \<longrightarrow> cx_prefetch c = snd (make_prefetch_context q (replicate 2 0))
           \<and> cx_wrb c = snd (make_wrb_context vf q (replicate 4 0)))"
proof -
  let ?w = "(vf_own_request vf MBOX_OP_QCTXT_WRT)[1 := qctxt_word1 True True c2h st (ucast (dq_qidx_hw q))]"
  define c where "c = (if st \<and> c2h
      then zero_context\<lparr>cx_sw := snd (make_sw_context vf q (replicate 4 0)),
             cx_prefetch := snd (make_prefetch_context q (replicate 2 0)),
             cx_wrb := snd (make_wrb_context vf q (replicate 4 0))\<rparr>
      else zero_context\<lparr>cx_sw := snd (make_sw_context vf q (replicate 4 0))\<rparr>)"
  have msg: "vf_setup_msg vf q = set_qctxt_context c ?w"
    by (simp add: vf_setup_msg_def Let_def c_def st_def c2h_def)
  have c: "length (cx_sw c) = 4" "length (cx_qid2vec c) = 1" "length (cx_prefetch c) = 2" "length (cx_wrb c) = 4"
    "context_ok c"
    by (simp_all add: c_def context_ok_def zero_context_def make_sw_context_def make_prefetch_context_def
        make_wrb_context_def Let_def)
  have len: "length ?w = MBOX_MSG_REG_MAX" by (simp add: vf_own_request_def vf_request_def zero_msg_def)
  have ne: "set_qctxt_context c ?w \<noteq> []" using length_set_qctxt [OF c(5) len] by (auto simp: MBOX_MSG_REG_MAX_def)
  have first: "set_qctxt_context c ?w ! 0 = ?w ! 0" "set_qctxt_context c ?w ! 1 = ?w ! 1"
    using len by (simp_all add: set_qctxt_context_def nth_append MBOX_MSG_REG_MAX_def)
  have zne: "zero_msg \<noteq> []" by (simp add: zero_msg_def MBOX_MSG_REG_MAX_def)
  have op: "mbox_op_of (mh_op (msg_hdr (set_qctxt_context c ?w))) = Some MBOX_OP_QCTXT_WRT"
    unfolding msg_hdr_def first by (simp add: vf_own_request_def vf_request_def zne flip: msg_hdr_def del: mbox_op_code.simps)
  have w1: "?w ! 1 = qctxt_word1 True True c2h st (ucast (dq_qidx_hw q))"
    using len by (simp add: MBOX_MSG_REG_MAX_def vf_own_request_def)
  have q16: "ucast (ucast (dq_qidx_hw q) :: u16) = dq_qidx_hw q"
    by (rule bit_word_eqI) (use bit_u32_small [OF q] in \<open>fastforce simp: bit_ucast_iff\<close>)
  define d where "d = delivered (f, set_qctxt_context c ?w)"
  have fields: "mbox_op_of (mh_op (msg_hdr d)) = Some MBOX_OP_QCTXT_WRT" "qctxt_st d = st" "qctxt_c2h d = c2h"
    "ucast (qctxt_qid d) = dq_qidx_hw q" "qctxt_context d = c"
    using op ne first(2) qctxt_context_set [OF c(5), of ?w] len
    by (simp_all add: d_def delivered_def qctxt_st_def qctxt_c2h_def qctxt_qid_def w1 [simplified] bit_qctxt_word1
        qctxt_word1_qid q16 qctxt_context_def MBOX_MSG_REG_MAX_def)
  obtain t1 where cl: "qdma_descq_context_clear E (dq_qidx_hw q) st c2h True tr = (0, t1)"
    using context_clear_mem [OF dev q] by blast
  have run: "pf_op E pf d status tr
      = (case qdma_descq_context_program E (dq_qidx_hw q) st c2h c t1 of (rv, tr) \<Rightarrow> (rv, status, pf, d, tr))"
    by (simp add: pf_op_def Let_def fields cl)
  have r: "replicate 2 (0 :: u32) = [0, 0]" "replicate 4 (0 :: u32) = [0, 0, 0, 0]" by (simp_all add: numeral_eq_Suc)
  show ?thesis
    unfolding msg d_def [symmetric] run
    using context_program_readback [OF dev q c(1-4), where st = st and c2h = c2h and tr = t1]
    by (auto simp: split_beta c_def zero_context_def r)
qed

theorem vf_setup_served_witness:
  "case pf_op ctxt_env sample_dev (delivered (5, vf_setup_msg sample_dev (zero_descq\<lparr>dq_desc_bus := 0x5000\<rparr>))) 0 []
     of (rv, status', pf', m', tr1) \<Rightarrow>
    case qdma_descq_context_read ctxt_env 0 False False tr1 of (rv', c, tr2) \<Rightarrow>
      rv = 0 \<and> cx_sw c = snd (make_sw_context sample_dev (zero_descq\<lparr>dq_desc_bus := 0x5000\<rparr>) (replicate 4 0))"
  using vf_setup_served [OF ctxt_env_device, where q = "zero_descq\<lparr>dq_desc_bus := 0x5000\<rparr>"
      and vf = sample_dev and pf = sample_dev and tr = "[]" and f = 5 and status = 0]
  by (simp add: zero_descq_def zero_queue_conf_def split_beta)

lemma vf_request_answered:
  assumes idle: "\<And>t. env_readl E t (MBOX_BASE VF) AND 3 = 1"
    and words: "\<And>t i. i < 32 \<Longrightarrow> env_readl E t (MBOX_BASE VF + MBOX_IN_MSG_BASE + 4 * of_nat i) = w ! i"
    and len: "length w = MBOX_MSG_REG_MAX" "length m = MBOX_MSG_REG_MAX"
    and ack: "mh_ack (msg_hdr w)" "mh_wait (msg_hdr w)"
  shows "\<exists>m' xdev' tr'. qdma_mbox_send_msg E xdev m True tr
      = Some (if mh_op (msg_hdr w) = mh_op (msg_hdr m) then hdr_status (msg_hdr w) else - ETIME, m', xdev', tr')
    \<and> drop 1 m' = drop 1 m \<and> xd_m_req xdev' = w"
proof -
  let ?m = "upd_hdr (\<lambda>h. h\<lparr>mh_ack := False, mh_wait := True\<rparr>) m"
  have ne: "m \<noteq> []" "?m \<noteq> []" using len by (auto simp: MBOX_MSG_REG_MAX_def)
  have bits1: "env_readl E t (MBOX_BASE VF) AND 1 = 1" for t
    by (rule status_bits(2) [OF idle [of t], unfolded and.idem])
  have bits2: "env_readl E t (MBOX_BASE VF) AND 2 = 0" for t
    using status_bits(1) [OF idle [of t]] by simp
  note bits = bits2 bits1
  have len1: "length ?m = MBOX_MSG_REG_MAX" using len by simp
  obtain m2 t where send: "mbox_send E VF ?m True tr = (0, m2, t)"
    using mbox_send_idle(1) [where b = VF, OF bits(1) len1, of True tr] by (metis prod.collapse)
  have m2: "m2 = upd_hdr (mh_sent_update (\<lambda>_. True)) ?m"
    using mbox_send_msg(2) [OF ne(2) send] by simp
  have poll: "\<not> fst (hw_monitor_reg E (MBOX_BASE VF) 1 1 i l t) < 0" for i l t
    by (subst hw_monitor_reg_idle) (simp_all add: bits del: MBOX_BASE.simps)
  have st: "fst (read_reg E (MBOX_BASE VF) t) AND 1 = 1" for t
    using bits by (simp add: read_reg_def Let_def del: MBOX_BASE.simps)
  have "fst (read_regs E (MBOX_BASE VF + MBOX_IN_MSG_BASE) MBOX_MSG_REG_MAX t) = w" for t
    using words len by (intro read_regs_shown) (simp_all add: MBOX_MSG_REG_MAX_def)
  then have "fst (mbox_read E VF r True t) = 0" "fst (snd (mbox_read E VF r True t)) = w" for r
    using poll st
    by (simp_all add: mbox_read_def Let_def split_beta MBOX_FN_STATUS_def F_MBOX_FN_STATUS_IN_MSG_def
        del: MBOX_BASE.simps)
  then obtain t3 where rd: "mbox_read E VF (xd_m_resp xdev) True t = (0, w, t3)"
    by (metis prod.collapse)
  define x where "x = (vf_learn_id (msg_hdr w) (xdev\<lparr>xd_m_req := zero_msg, xd_m_resp := w\<rparr>))\<lparr>xd_m_req := w\<rparr>"
  have rcv: "mbox_proc_rcv E (xdev\<lparr>xd_m_req := zero_msg\<rparr>) 1 True t = Some (1, x, t3)"
    unfolding mbox_proc_rcv_def by (subst vf_rcv_loop.simps) (simp add: rd ack x_def)
  have x: "xd_m_req x = w" by (simp add: x_def)
  have run: "qdma_mbox_send_msg E xdev m True tr = Some
      (if mh_op (msg_hdr (xd_m_req x)) = mh_op (msg_hdr m2) \<and> mh_ack (msg_hdr (xd_m_req x))
       then hdr_status (msg_hdr (xd_m_req x)) else - ETIME, m2, x, t3)"
    by (simp add: qdma_mbox_send_msg_def send rcv [unfolded One_nat_def] Let_def)
  have "mh_op (msg_hdr m2) = mh_op (msg_hdr m)" "drop 1 m2 = drop 1 m"
    using ne by (simp_all add: m2)
  then show ?thesis by (simp add: run x ack)
qed

text \<open>An answer of the physical function to a context read, with a context of ones.\<close>

definition sample_answer :: mbox_msg where
  "sample_answer = upd_hdr (\<lambda>h. h\<lparr>mh_op := mbox_op_code MBOX_OP_QCTXT_RD, mh_ack := True, mh_wait := True\<rparr>)
     (replicate 32 0)"

theorem vf_context_read_is_zero_witness:
  "\<exists>c xdev' tr'. vf_descq_context_read (shown_env VF sample_answer) sample_dev 3 True True
     (zero_context\<lparr>cx_cr := [7]\<rparr>) [] = Some (0, c, xdev', tr') \<and> c = zero_context"
proof -
  let ?m = "(vf_own_request sample_dev MBOX_OP_QCTXT_RD)[1 := qctxt_word1 False False True True (ucast (3 :: u32))]"
  have m: "length ?m = MBOX_MSG_REG_MAX" by (simp add: vf_own_request_def vf_request_def zero_msg_def)
  have w: "length sample_answer = MBOX_MSG_REG_MAX" by (simp add: sample_answer_def MBOX_MSG_REG_MAX_def)
  have ne: "(replicate 32 0 :: mbox_msg) \<noteq> []" "zero_msg \<noteq> []" "vf_request MBOX_OP_QCTXT_RD \<noteq> []"
    by (simp_all add: zero_msg_def MBOX_MSG_REG_MAX_def vf_request_def)
  have hdr: "mh_ack (msg_hdr sample_answer)" "mh_wait (msg_hdr sample_answer)"
    "mh_op (msg_hdr sample_answer) = mbox_op_code MBOX_OP_QCTXT_RD" "hdr_status (msg_hdr sample_answer) = 0"
    unfolding sample_answer_def hdr_status_def msg_hdr_upd [OF ne(1)] by (simp_all add: msg_hdr_def word_hdr_def)
  have "msg_hdr ?m = msg_hdr (vf_own_request sample_dev MBOX_OP_QCTXT_RD)" by (simp add: msg_hdr_def)
  then have op: "mh_op (msg_hdr ?m) = mbox_op_code MBOX_OP_QCTXT_RD"
    unfolding vf_own_request_def msg_hdr_upd [OF ne(3)] by (simp add: vf_request_def ne(2))
  have "env_readl (shown_env VF sample_answer) t (MBOX_BASE VF) AND 3 = 1" for t
    unfolding shown_env_simps by simp
  from vf_request_answered [OF this shown_env_simps(2) w m hdr(1,2), of sample_dev "[]"]
  obtain m' x t where send: "qdma_mbox_send_msg (shown_env VF sample_answer) sample_dev ?m True [] = Some (0, m', x, t)"
    and x: "xd_m_req x = sample_answer"
    unfolding hdr op by auto
  have "vf_descq_context_read (shown_env VF sample_answer) sample_dev 3 True True (zero_context\<lparr>cx_cr := [7]\<rparr>) []
      = Some (0, qctxt_context m', x, t)"
    by (simp only: vf_descq_context_read_def send option.map prod.case) (simp add: ack_status_def x hdr)
  with vf_context_read_is_zero [OF this] show ?thesis by blast
qed

end
