(* ===== verification/Qdma_Ring.thy ===== *)
theory Qdma_Ring
  imports Qdma_Prelude
begin

text \<open>
  The index arithmetic of every ring of the driver (\<open>ring_idx_delta\<close>, \<open>ring_idx_incr\<close>,
  \<open>ring_idx_decr\<close> of \<open>libqdma/qdma_descq.h\<close>) on 32-bit unsigned values, and the
  interface \<open>ring_index\<close> under which the queues use it: addition and subtraction
  modulo the ring size.
\<close>

section \<open>The three index functions\<close>

definition ring_idx_delta :: "u32 \<Rightarrow> u32 \<Rightarrow> u32 \<Rightarrow> u32" where
  "ring_idx_delta new old rngsz = (if new \<ge> old then new - old else new + (rngsz - old))"

definition ring_idx_incr :: "u32 \<Rightarrow> u32 \<Rightarrow> u32 \<Rightarrow> u32" where
  "ring_idx_incr idx cnt rngsz =
     (let idx = idx + cnt in if idx \<ge> rngsz then idx - rngsz else idx)"

definition ring_idx_decr :: "u32 \<Rightarrow> u32 \<Rightarrow> u32 \<Rightarrow> u32" where
  "ring_idx_decr idx cnt rngsz = (if idx \<ge> cnt then idx - cnt else rngsz - (cnt - idx))"

section \<open>The interface: arithmetic modulo the ring size\<close>

locale ring_index =
  fixes incr :: "'i \<Rightarrow> 'i \<Rightarrow> 'i \<Rightarrow> 'i"
    and decr :: "'i \<Rightarrow> 'i \<Rightarrow> 'i \<Rightarrow> 'i"
    and delta :: "'i \<Rightarrow> 'i \<Rightarrow> 'i \<Rightarrow> 'i"
    and val :: "'i \<Rightarrow> nat"
    and limit :: nat
  assumes val_inject: "val a = val b \<Longrightarrow> a = b"
    and val_incr: "\<lbrakk>val i < val n; val c \<le> val n; val n \<le> limit\<rbrakk>
      \<Longrightarrow> val (incr i c n) = (val i + val c) mod val n"
    and val_decr: "\<lbrakk>val i < val n; val c \<le> val n; val n \<le> limit\<rbrakk>
      \<Longrightarrow> val (decr i c n) = (val i + (val n - val c)) mod val n"
    and val_delta: "\<lbrakk>val i < val n; val j < val n; val n \<le> limit\<rbrakk>
      \<Longrightarrow> val (delta i j n) = (val i + (val n - val j)) mod val n"
begin

text \<open>The laws without the remainder, the form in which linear arithmetic uses them.\<close>

lemma val_incr_if:
  assumes "val i < val n" "val c \<le> val n" "val n \<le> limit"
  shows "val (incr i c n) =
    (if val i + val c < val n then val i + val c else val i + val c - val n)"
  using assms by (simp add: val_incr mod_if)

lemma val_decr_if:
  assumes "val i < val n" "val c \<le> val n" "val n \<le> limit"
  shows "val (decr i c n) = (if val c \<le> val i then val i - val c else val n - val c + val i)"
  using assms by (auto simp: val_decr mod_if)

lemma val_delta_if:
  assumes "val i < val n" "val j < val n" "val n \<le> limit"
  shows "val (delta i j n) = (if val j \<le> val i then val i - val j else val n - val j + val i)"
  using assms by (auto simp: val_delta mod_if)

lemma incr_in_range: "\<lbrakk>val i < val n; val c \<le> val n; val n \<le> limit\<rbrakk> \<Longrightarrow> val (incr i c n) < val n"
  by (simp add: val_incr)

lemma decr_in_range: "\<lbrakk>val i < val n; val c \<le> val n; val n \<le> limit\<rbrakk> \<Longrightarrow> val (decr i c n) < val n"
  by (simp add: val_decr)

lemma delta_in_range: "\<lbrakk>val i < val n; val j < val n; val n \<le> limit\<rbrakk> \<Longrightarrow> val (delta i j n) < val n"
  by (simp add: val_delta)

lemma delta_self: "\<lbrakk>val i < val n; val n \<le> limit\<rbrakk> \<Longrightarrow> val (delta i i n) = 0"
  by (simp add: val_delta_if)

lemma delta_incr:
  assumes "val i < val n" "val c < val n" "val n \<le> limit"
  shows "delta (incr i c n) i n = c"
  using assms incr_in_range [of i n c]
  by (intro val_inject) (auto simp: val_delta_if val_incr_if)

lemma incr_delta:
  assumes "val i < val n" "val j < val n" "val n \<le> limit"
  shows "incr j (delta i j n) n = i"
  using assms delta_in_range [of i n j]
  by (intro val_inject) (auto simp: val_delta_if val_incr_if)

lemma incr_incr:
  assumes "val i < val n" "val c \<le> val n" "val d \<le> val n" "val e \<le> val n"
    "val e = val c + val d" "val n \<le> limit"
  shows "incr (incr i c n) d n = incr i e n"
  using assms by (intro val_inject) (simp add: val_incr mod_add_left_eq add.assoc)

lemma decr_incr:
  assumes "val i < val n" "val c \<le> val n" "val n \<le> limit"
  shows "decr (incr i c n) c n = i"
  using assms incr_in_range [of i n c]
  by (intro val_inject) (auto simp: val_decr_if val_incr_if)

text \<open>Moving the producer on by \<open>c\<close> leaves \<open>c\<close> more entries between the indices.\<close>

lemma delta_incr_add:
  assumes "val p < val n" "val q < val n" "val c \<le> val n" "val n \<le> limit"
    and "val (delta p q n) + val c < val n"
  shows "val (delta (incr p c n) q n) = val (delta p q n) + val c"
  using assms incr_in_range [of p n c]
  by (auto simp: val_delta_if val_incr_if split: if_splits)

text \<open>Moving the consumer on to \<open>r\<close>, inside the occupied part, gives up what it passed.\<close>

lemma delta_consume:
  assumes "val p < val n" "val q < val n" "val r < val n" "val n \<le> limit"
    and "val (delta r q n) \<le> val (delta p q n)"
  shows "val (delta p r n) = val (delta p q n) - val (delta r q n)"
  using assms by (auto simp: val_delta_if split: if_splits)

end

section \<open>The code's functions provide the interface\<close>

lemma unat_ring_idx_incr:
  assumes "unat i < unat n" "unat c \<le> unat n" "unat n \<le> 2 ^ 31"
  shows "unat (ring_idx_incr i c n) = (unat i + unat c) mod unat n"
proof -
  have s: "unat (i + c) = unat i + unat c"
    using assms by (simp add: unat_add_no_overflow)
  show ?thesis
  proof (cases "n \<le> i + c")
    case True
    then have "unat n \<le> unat i + unat c" by (simp add: word_le_nat_alt s)
    with True assms show ?thesis
      by (simp add: ring_idx_incr_def Let_def unat_sub_le s mod_if)
  next
    case False
    then have "unat i + unat c < unat n" by (simp add: word_le_nat_alt s)
    with False show ?thesis by (simp add: ring_idx_incr_def Let_def s)
  qed
qed

lemma unat_ring_idx_decr:
  assumes "unat i < unat n" "unat c \<le> unat n" "unat n \<le> 2 ^ 31"
  shows "unat (ring_idx_decr i c n) = (unat i + (unat n - unat c)) mod unat n"
proof (cases "c \<le> i")
  case True
  then have "unat c \<le> unat i" by (simp add: word_le_nat_alt)
  with True assms show ?thesis
    by (simp add: ring_idx_decr_def unat_sub_le mod_if)
next
  case False
  then have less: "unat i < unat c" by (simp add: word_le_nat_alt)
  then have d: "unat (c - i) = unat c - unat i"
    by (simp add: unat_sub_le word_le_nat_alt)
  then have "unat (n - (c - i)) = unat n - (unat c - unat i)"
    using assms by (simp add: unat_sub_le word_le_nat_alt)
  with False less assms show ?thesis by (simp add: ring_idx_decr_def)
qed

lemma unat_ring_idx_delta:
  assumes "unat i < unat n" "unat j < unat n" "unat n \<le> 2 ^ 31"
  shows "unat (ring_idx_delta i j n) = (unat i + (unat n - unat j)) mod unat n"
proof (cases "j \<le> i")
  case True
  then have "unat j \<le> unat i" by (simp add: word_le_nat_alt)
  with True assms show ?thesis
    by (simp add: ring_idx_delta_def unat_sub_le mod_if)
next
  case False
  then have less: "unat i < unat j" by (simp add: word_le_nat_alt)
  have "unat (n - j) = unat n - unat j"
    using assms by (simp add: unat_sub_le word_le_nat_alt)
  then have "unat (i + (n - j)) = unat i + (unat n - unat j)"
    using assms less by (simp add: unat_add_no_overflow)
  with False less assms show ?thesis by (simp add: ring_idx_delta_def)
qed

interpretation ring: ring_index ring_idx_incr ring_idx_decr ring_idx_delta unat "2 ^ 31"
proof (unfold_locales, goal_cases)
  case (1 a b)
  then show ?case by (simp add: word_unat_eq_iff)
next
  case (2 i n c)
  then show ?case by (rule unat_ring_idx_incr)
next
  case (3 i n c)
  then show ?case by (rule unat_ring_idx_decr)
next
  case (4 i n j)
  then show ?case by (rule unat_ring_idx_delta)
qed

text \<open>The same facts for one step, the \<open>++idx == size\<close> wrap the loops use.\<close>

definition ring_next :: "u32 \<Rightarrow> u32 \<Rightarrow> u32" where
  "ring_next idx rngsz = (if idx + 1 = rngsz then 0 else idx + 1)"

lemma ring_next_incr:
  assumes "idx < rngsz" "unat rngsz \<le> 2 ^ 31"
  shows "ring_next idx rngsz = ring_idx_incr idx 1 rngsz"
proof -
  have "unat (idx + 1) = unat idx + 1"
    using assms by (simp add: unat_add_no_overflow unat_less_iff)
  then have "rngsz \<le> idx + 1 \<longleftrightarrow> idx + 1 = rngsz"
    using assms(1) by (auto simp: word_le_nat_alt unat_less_iff word_unat_eq_iff)
  then show ?thesis by (auto simp: ring_next_def ring_idx_incr_def Let_def)
qed

text \<open>
  For a ring of at most \<open>2^31\<close> entries and indices inside it, the three index
  functions are inverse to each other: the distance travelled by an increment is the
  increment, an increment by the distance reaches the other index, and a decrement undoes an
  increment; the results stay inside the ring and nothing wraps at 32 bits.
\<close>

theorem ring_idx_inverse:
  assumes "i < n" "j < n" "c < n" "unat n \<le> 2 ^ 31"
  shows "ring_idx_delta (ring_idx_incr i c n) i n = c
    \<and> ring_idx_incr j (ring_idx_delta i j n) n = i
    \<and> ring_idx_decr (ring_idx_incr i c n) c n = i
    \<and> ring_idx_incr i c n < n \<and> ring_idx_decr i c n < n \<and> ring_idx_delta i j n < n"
  using assms by (simp add: unat_less_iff ring.delta_incr ring.incr_delta ring.decr_incr
      ring.incr_in_range ring.decr_in_range ring.delta_in_range)

theorem ring_idx_inverse_witness:
  "ring_idx_delta (ring_idx_incr 6 5 8) 6 8 = 5 \<and> ring_idx_incr 7 (ring_idx_delta 6 7 8) 8 = 6"
  using ring_idx_inverse [of 6 8 7 5] by simp

end
