(* ===== verification/Qdma_Descq.thy ===== *)
theory Qdma_Descq
  imports Qdma_Ring Qdma_Context
begin

text \<open>
  The descriptor queue (\<open>libqdma/qdma_descq.c\<close>, \<open>qdma_descq.h\<close>): the doorbells, posting
  a memory-mapped or streaming H2C request's scatter-gather list as descriptors, completing
  requests from the credits the device writes back, and the choice of an interrupt vector.
  Requests are named by their address; the queue's two lists hold these names and
  \<open>dq_reqs\<close> holds their contents.
\<close>

section \<open>Doorbells\<close>

definition intr_cidx_update :: "build \<Rightarrow> qdma_descq \<Rightarrow> u32 \<Rightarrow> trace \<Rightarrow> trace" where
  "intr_cidx_update b descq sw_cidx tr =
     (let cidx = 0;
          cidx = cidx OR push_bit 0 sw_cidx;
          cidx = (if qc_c2h (dq_conf descq) then cidx OR push_bit 16 1 else cidx)
      in write_reg (QDMA_REG_INT_CIDX_BASE b + ucast (qc_qidx (dq_conf descq)) * QDMA_REG_PIDX_STEP) cidx tr)"

definition descq_h2c_pidx_update :: "build \<Rightarrow> qdma_descq \<Rightarrow> u32 \<Rightarrow> trace \<Rightarrow> trace" where
  "descq_h2c_pidx_update b descq pidx tr =
     write_reg (QDMA_REG_H2C_PIDX_BASE b + ucast (qc_qidx (dq_conf descq)) * QDMA_REG_PIDX_STEP)
       (pidx OR push_bit 16 (flag (qc_irq_en (dq_conf descq)))) tr"

definition descq_c2h_pidx_update :: "build \<Rightarrow> qdma_descq \<Rightarrow> u32 \<Rightarrow> trace \<Rightarrow> trace" where
  "descq_c2h_pidx_update b descq pidx tr =
     write_reg (QDMA_REG_C2H_PIDX_BASE b + ucast (qc_qidx (dq_conf descq)) * QDMA_REG_PIDX_STEP)
       (pidx OR push_bit 16 (flag (qc_irq_en (dq_conf descq)))) tr"

text \<open>The counter threshold index is shifted by the timer's shift, as in the code.\<close>

definition wrb_cidx_value :: "qdma_queue_conf \<Rightarrow> u32 \<Rightarrow> u32" where
  "wrb_cidx_value conf cidx =
     cidx OR (push_bit 28 (flag (qc_irq_en conf)) OR push_bit 27 (flag (qc_cmpl_stat_en conf))
       OR push_bit 24 (ucast (qc_cmpl_trig_mode conf)) OR push_bit 20 (ucast (qc_cmpl_timer_idx conf))
       OR push_bit 20 (ucast (qc_cmpl_cnt_th_idx conf)))"

definition descq_wrb_cidx_update :: "build \<Rightarrow> qdma_descq \<Rightarrow> u32 \<Rightarrow> trace \<Rightarrow> trace" where
  "descq_wrb_cidx_update b descq cidx tr =
     write_reg (QDMA_REG_WRB_CIDX_BASE b + ucast (qc_qidx (dq_conf descq)) * QDMA_REG_PIDX_STEP)
       (wrb_cidx_value (dq_conf descq) cidx) tr"

definition pidx_update :: "build \<Rightarrow> qdma_descq \<Rightarrow> trace \<Rightarrow> trace" where
  "pidx_update b descq tr =
     (if qc_c2h (dq_conf descq) then descq_c2h_pidx_update b descq (dq_pidx descq) tr
      else descq_h2c_pidx_update b descq (dq_pidx descq) tr)"

section \<open>Scatter-gather lists and requests\<close>

text \<open>
  \<open>sgl_find_offset\<close>: the return value, the entry found and the offset left through
  \<open>*sg_offset\<close> (the bytes that remain of the entry).
\<close>

fun find_offset_loop :: "qdma_sw_sg list \<Rightarrow> nat \<Rightarrow> u32 \<Rightarrow> u32 \<Rightarrow> int \<times> nat \<times> u32" where
  "find_offset_loop [] i len offset = (- EINVAL, 0, 0)"
| "find_offset_loop (sg # sgs) i len offset =
     (let len = len + sg_len sg in
      if len = offset then (int (Suc i), Suc i, 0)
      else if len > offset then (int i, i, len - offset)
      else find_offset_loop sgs (Suc i) len offset)"

definition sgl_find_offset :: "qdma_sw_sg list \<Rightarrow> nat \<Rightarrow> u32 \<Rightarrow> int \<times> nat \<times> u32" where
  "sgl_find_offset sgl sgcnt offset = find_offset_loop (take sgcnt sgl) 0 0 offset"

definition upd_req :: "nat \<Rightarrow> (qdma_request \<Rightarrow> qdma_request) \<Rightarrow> qdma_descq \<Rightarrow> qdma_descq" where
  "upd_req r f descq = descq\<lparr>dq_reqs := (dq_reqs descq)(r := f (dq_reqs descq r))\<rparr>"

definition list_del_req :: "nat \<Rightarrow> qdma_descq \<Rightarrow> qdma_descq" where
  "list_del_req r descq = descq\<lparr>dq_work_list := remove1 r (dq_work_list descq),
     dq_pend_list := remove1 r (dq_pend_list descq)\<rparr>"

definition req_submitted :: "nat \<Rightarrow> qdma_descq \<Rightarrow> qdma_descq" where
  "req_submitted r descq =
     (let descq = list_del_req r descq in descq\<lparr>dq_pend_list := dq_pend_list descq @ [r]\<rparr>)"

definition wake_wb :: "qdma_descq \<Rightarrow> trace \<Rightarrow> trace" where
  "wake_wb descq tr = (case dq_wbthp descq of None \<Rightarrow> tr | Some t \<Rightarrow> Wakeup (WbThread t) # tr)"

section \<open>Posting a memory-mapped request\<close>

definition QDMA_DESC_BLEN_MAX :: u32 where "QDMA_DESC_BLEN_MAX = 2 ^ 28 - 1"

definition mm_desc :: "bool \<Rightarrow> u64 \<Rightarrow> u64 \<Rightarrow> u32 \<Rightarrow> qdma_mm_desc" where
  "mm_desc c2h ep_addr addr len =
     \<lparr>mm_src_addr = (if c2h then ep_addr else addr), mm_flag_len = len OR push_bit 28 1,
      mm_rsvd0 = 0, mm_dst_addr = (if c2h then addr else ep_addr), mm_rsvd1 = 0\<rparr>"

text \<open>The variables of the two nested loops; \<open>ml_end\<close> is the slot \<open>desc_end\<close> points to.\<close>

record mm_loop =
  ml_ring :: "qdma_mm_desc list"
  ml_pidx :: u32
  ml_ep_addr :: u64
  ml_data_cnt :: u32
  ml_desc_cnt :: u32
  ml_end :: "u32 option"

definition mm_post :: "bool \<Rightarrow> u32 \<Rightarrow> u64 \<Rightarrow> u32 \<Rightarrow> mm_loop \<Rightarrow> mm_loop" where
  "mm_post c2h rngsz addr len s =
     \<lparr>ml_ring = (ml_ring s)[unat (ml_pidx s) := mm_desc c2h (ml_ep_addr s) addr len],
      ml_pidx = ring_next (ml_pidx s) rngsz,
      ml_ep_addr = ml_ep_addr s + ucast len,
      ml_data_cnt = ml_data_cnt s + len,
      ml_desc_cnt = ml_desc_cnt s + 1,
      ml_end = Some (ml_pidx s)\<rparr>"

function mm_entry_loop :: "bool \<Rightarrow> u32 \<Rightarrow> u32 \<Rightarrow> u64 \<Rightarrow> u32 \<Rightarrow> mm_loop \<Rightarrow> mm_loop" where
  "mm_entry_loop c2h rngsz desc_max addr tlen s =
     (if tlen = 0 then s
      else
        let len = min tlen QDMA_DESC_BLEN_MAX;
            s = mm_post c2h rngsz addr len s
        in if ml_desc_cnt s = desc_max then s
           else mm_entry_loop c2h rngsz desc_max (addr + ucast len) (tlen - len) s)"
  by pat_completeness auto
termination
proof (relation "measure (\<lambda>(c2h, rngsz, desc_max, addr, tlen, s). unat tlen)", goal_cases)
  case (2 c2h rngsz desc_max addr tlen s len s')
  then show ?case by (auto intro!: min_piece_less simp: QDMA_DESC_BLEN_MAX_def)
qed simp

declare mm_entry_loop.simps [simp del]

fun mm_sgl_loop :: "bool \<Rightarrow> u32 \<Rightarrow> u32 \<Rightarrow> qdma_sw_sg list \<Rightarrow> u32 \<Rightarrow> mm_loop \<Rightarrow> mm_loop" where
  "mm_sgl_loop c2h rngsz desc_max [] sg_off s = s"
| "mm_sgl_loop c2h rngsz desc_max (sg # sgs) sg_off s =
     (if ml_desc_cnt s < desc_max then
        let tlen = sg_len sg;
            addr = sg_dma_addr sg;
            (sg_off, tlen, addr) =
              (if sg_off \<noteq> 0 then let sg_off = 0 in (sg_off, tlen - sg_off, addr + ucast sg_off)
               else (sg_off, tlen, addr));
            s = mm_entry_loop c2h rngsz desc_max addr tlen s
        in mm_sgl_loop c2h rngsz desc_max sgs sg_off s
      else s)"

fun mm_ring :: "desc_ring \<Rightarrow> qdma_mm_desc list" where
  "mm_ring (MmDesc r) = r"
| "mm_ring _ = []"

definition or_flag_len :: "u32 \<Rightarrow> u32 \<Rightarrow> qdma_mm_desc list \<Rightarrow> qdma_mm_desc list" where
  "or_flag_len slot v ring =
     ring[unat slot := (ring ! unat slot)\<lparr>mm_flag_len := mm_flag_len (ring ! unat slot) OR v\<rparr>]"

text \<open>Where a request continues: the entry and the offset, or \<open>None\<close> for out of range.\<close>

definition req_resume :: "qdma_request \<Rightarrow> (nat \<times> u32) option" where
  "req_resume req =
     (if cb_offset req \<noteq> 0 then
        let (rv, i, off) = sgl_find_offset (rq_sgl req) (unat (rq_sgcnt req)) (cb_offset req)
        in if rv < 0 \<or> rv \<ge> int (unat (rq_sgcnt req)) then None else Some (i, off)
      else Some (0, 0))"

definition descq_mm_proc_request ::
  "build \<Rightarrow> nat \<Rightarrow> qdma_descq \<Rightarrow> trace \<Rightarrow> int \<times> qdma_descq \<times> trace" where
  "descq_mm_proc_request b r descq tr =
     (let req = dq_reqs descq r;
          c2h = qc_c2h (dq_conf descq);
          rngsz = qc_rngsz (dq_conf descq);
          desc_max = dq_avail descq
      in if desc_max = 0 then (0, descq, tr)
      else case req_resume req of
        None \<Rightarrow> (- EINVAL, descq, tr)
      | Some (i, sg_off) \<Rightarrow>
          let s = mm_sgl_loop c2h rngsz desc_max (drop i (take (unat (rq_sgcnt req)) (rq_sgl req))) sg_off
                    \<lparr>ml_ring = mm_ring (dq_desc descq), ml_pidx = dq_pidx descq,
                     ml_ep_addr = rq_ep_addr req + ucast (cb_offset req),
                     ml_data_cnt = 0, ml_desc_cnt = 0, ml_end = None\<rparr>
          in (case ml_end s of
               None \<Rightarrow> (- EIO, descq, tr)
             | Some desc_end \<Rightarrow>
                 let ring = or_flag_len desc_end (push_bit 30 1) (ml_ring s);
                     ring = or_flag_len (dq_pidx descq) (push_bit 29 1) ring;
                     descq = descq\<lparr>dq_desc := MmDesc ring, dq_pidx := ml_pidx s,
                                   dq_avail := dq_avail descq - ml_desc_cnt s\<rparr>;
                     descq = upd_req r (\<lambda>q. q\<lparr>cb_desc_nr := cb_desc_nr q + ml_desc_cnt s,
                                               cb_offset := cb_offset q + ml_data_cnt s\<rparr>) descq;
                     descq = (if cb_offset (dq_reqs descq r) = rq_count (dq_reqs descq r)
                              then req_submitted r descq else descq);
                     tr = pidx_update b descq tr
                 in (0, descq, wake_wb descq tr)))"

section \<open>Posting a streaming H2C request\<close>

fun h2c_ring :: "desc_ring \<Rightarrow> qdma_h2c_desc list" where
  "h2c_ring (H2cDesc r) = r"
| "h2c_ring _ = []"

record h2c_loop =
  hl_ring :: "qdma_h2c_desc list"
  hl_pidx :: u32
  hl_data_cnt :: u32
  hl_desc_cnt :: u32
  hl_trace :: trace

definition or_h2c_flags :: "u32 \<Rightarrow> u16 \<Rightarrow> qdma_h2c_desc list \<Rightarrow> qdma_h2c_desc list" where
  "or_h2c_flags slot v ring =
     ring[unat slot := (ring ! unat slot)\<lparr>h2c_flags := h2c_flags (ring ! unat slot) OR v\<rparr>]"

text \<open>One descriptor; its flag words keep what the slot held before.\<close>

definition h2c_post ::
  "build \<Rightarrow> qdma_descq \<Rightarrow> u64 \<Rightarrow> u32 \<Rightarrow> bool \<Rightarrow> h2c_loop \<Rightarrow> h2c_loop" where
  "h2c_post b descq addr len is_last s =
     (let d = hl_ring s ! unat (hl_pidx s);
          d = d\<lparr>h2c_src_addr := addr, h2c_len := ucast len, h2c_pld_len := ucast len,
                h2c_cdh_flags := h2c_cdh_flags d OR 13\<rparr>;
          d = (if is_last then d\<lparr>h2c_flags := h2c_flags d OR 2\<rparr> else d);
          pidx = ring_next (hl_pidx s) (qc_rngsz (dq_conf descq))
      in \<lparr>hl_ring = (hl_ring s)[unat (hl_pidx s) := d], hl_pidx = pidx,
          hl_data_cnt = hl_data_cnt s + len, hl_desc_cnt = hl_desc_cnt s + 1,
          hl_trace = descq_h2c_pidx_update b descq pidx (hl_trace s)\<rparr>)"

text \<open>The \<open>do ... while (tlen)\<close> loop over one entry: it posts at least one descriptor.\<close>

function h2c_entry_loop ::
  "build \<Rightarrow> qdma_descq \<Rightarrow> u32 \<Rightarrow> bool \<Rightarrow> u64 \<Rightarrow> u32 \<Rightarrow> h2c_loop \<Rightarrow> h2c_loop" where
  "h2c_entry_loop b descq desc_max is_last addr tlen s =
     (let len = min tlen PAGE_SIZE;
          s = h2c_post b descq addr len is_last s;
          tlen = tlen - len
      in if hl_desc_cnt s = desc_max then s
         else if tlen \<noteq> 0 then h2c_entry_loop b descq desc_max is_last (addr + ucast len) tlen s
         else s)"
  by pat_completeness auto
termination
proof (relation "measure (\<lambda>(b, descq, desc_max, is_last, addr, tlen, s). unat tlen)", goal_cases)
  case (2 b descq desc_max is_last addr tlen s len s' tlen')
  then show ?case using min_piece_less [of tlen PAGE_SIZE] by (cases "tlen = 0") (auto simp: PAGE_SIZE_def)
qed simp

declare h2c_entry_loop.simps [simp del]

fun h2c_sgl_loop ::
  "build \<Rightarrow> qdma_descq \<Rightarrow> u32 \<Rightarrow> nat \<Rightarrow> qdma_sw_sg list \<Rightarrow> nat \<Rightarrow> u32 \<Rightarrow> h2c_loop \<Rightarrow> h2c_loop" where
  "h2c_sgl_loop b descq desc_max sg_max [] i sg_off s = s"
| "h2c_sgl_loop b descq desc_max sg_max (sg # sgs) i sg_off s =
     (if hl_desc_cnt s < desc_max then
        let tlen = sg_len sg;
            addr = sg_dma_addr sg;
            (sg_off, tlen, addr) =
              (if sg_off \<noteq> 0 then let sg_off = 0 in (sg_off, tlen - sg_off, addr + ucast sg_off)
               else (sg_off, tlen, addr));
            s = h2c_entry_loop b descq desc_max (Suc i = sg_max) addr tlen s
        in h2c_sgl_loop b descq desc_max sg_max sgs (Suc i) sg_off s
      else s)"

definition descq_proc_st_h2c_request ::
  "build \<Rightarrow> nat \<Rightarrow> qdma_descq \<Rightarrow> trace \<Rightarrow> int \<times> qdma_descq \<times> trace" where
  "descq_proc_st_h2c_request b r descq tr =
     (let req = dq_reqs descq r;
          desc_max = dq_avail descq;
          sg_max = unat (rq_sgcnt req)
      in if desc_max = 0 then (0, descq, tr)
      else case req_resume req of
        None \<Rightarrow> (- EINVAL, descq, tr)
      | Some (i, sg_off) \<Rightarrow>
          let ring = h2c_ring (dq_desc descq);
              ring = (if cb_offset req \<noteq> 0 then ring else or_h2c_flags (dq_pidx descq) 1 ring);
              s = h2c_sgl_loop b descq desc_max sg_max (drop i (take sg_max (rq_sgl req))) i sg_off
                    \<lparr>hl_ring = ring, hl_pidx = dq_pidx descq, hl_data_cnt = 0, hl_desc_cnt = 0,
                     hl_trace = tr\<rparr>;
              descq = descq\<lparr>dq_desc := H2cDesc (hl_ring s), dq_pidx := hl_pidx s,
                            dq_avail := dq_avail descq - hl_desc_cnt s\<rparr>;
              descq = upd_req r (\<lambda>q. q\<lparr>cb_desc_nr := cb_desc_nr q + hl_desc_cnt s,
                                        cb_offset := cb_offset q + hl_data_cnt s\<rparr>) descq;
              descq = (if cb_offset (dq_reqs descq r) = rq_count (dq_reqs descq r)
                       then req_submitted r descq else descq)
          in (0, descq, wake_wb descq (hl_trace s)))"

text \<open>\<open>qdma_descq_proc_sgt_request\<close>.\<close>

definition qdma_descq_proc_sgt_request ::
  "build \<Rightarrow> nat \<Rightarrow> qdma_descq \<Rightarrow> trace \<Rightarrow> int \<times> qdma_descq \<times> trace" where
  "qdma_descq_proc_sgt_request b r descq tr =
     (if \<not> qc_st (dq_conf descq) then descq_mm_proc_request b r descq tr
      else if qc_st (dq_conf descq) \<and> \<not> qc_c2h (dq_conf descq)
        then descq_proc_st_h2c_request b r descq tr
      else (- 1, descq, tr))"

section \<open>Completing requests\<close>

text \<open>
  \<open>sgl_unmap\<close> (\<open>libqdma_export.c\<close>): the walk stops at an entry without a page.
\<close>

fun sgl_unmap_loop :: "qdma_sw_sg list \<Rightarrow> trace \<Rightarrow> qdma_sw_sg list \<times> trace" where
  "sgl_unmap_loop [] tr = ([], tr)"
| "sgl_unmap_loop (sg # sgs) tr =
     (if sg_pg sg = 0 then (sg # sgs, tr)
      else
        let (sg, tr) = (if sg_dma_addr sg \<noteq> 0
                        then (sg\<lparr>sg_dma_addr := 0\<rparr>, PageUnmap (sg_dma_addr sg - ucast (sg_offset sg)) # tr)
                        else (sg, tr));
            (sgs, tr) = sgl_unmap_loop sgs tr
        in (sg # sgs, tr))"

definition sgl_unmap :: "qdma_request \<Rightarrow> trace \<Rightarrow> qdma_request \<times> trace" where
  "sgl_unmap req tr =
     (let n = unat (rq_sgcnt req);
          (sgl, tr) = sgl_unmap_loop (take n (rq_sgl req)) tr
      in (req\<lparr>rq_sgl := sgl @ drop n (rq_sgl req)\<rparr>, tr))"

definition qdma_sgt_req_done :: "nat \<Rightarrow> int \<Rightarrow> qdma_descq \<Rightarrow> trace \<Rightarrow> qdma_descq \<times> trace" where
  "qdma_sgt_req_done r error descq tr =
     (let descq = list_del_req r descq;
          (descq, tr) =
            (if cb_unmap_needed (dq_reqs descq r)
             then let (req, tr) = sgl_unmap (dq_reqs descq r) tr
                  in (upd_req r (\<lambda>q. req\<lparr>cb_unmap_needed := False\<rparr>) descq, tr)
             else (descq, tr));
          req = dq_reqs descq r
      in if rq_fp_done req then
           let error = (if cb_offset req \<noteq> rq_count req then - EINVAL else error)
           in (upd_req r (\<lambda>q. q\<lparr>cb_status := error, cb_done := True\<rparr>) descq,
               ReqCallback r (cb_offset req) error # tr)
         else
           (upd_req r (\<lambda>q. q\<lparr>cb_status := error, cb_done := True\<rparr>) descq, ReqWake r # tr))"

fun update_pend_loop :: "nat list \<Rightarrow> u32 \<Rightarrow> qdma_descq \<Rightarrow> trace \<Rightarrow> u32 \<times> qdma_descq \<times> trace" where
  "update_pend_loop [] credit descq tr = (credit, descq, tr)"
| "update_pend_loop (r # rs) credit descq tr =
     (let nr = cb_desc_nr (dq_reqs descq r);
          (credit, descq, tr) =
            (if credit \<ge> nr then
               let (descq, tr) = qdma_sgt_req_done r 0 descq tr in (credit - nr, descq, tr)
             else (0, upd_req r (\<lambda>q. q\<lparr>cb_desc_nr := cb_desc_nr q - credit\<rparr>) descq, tr))
      in if credit = 0 then (credit, descq, tr) else update_pend_loop rs credit descq tr)"

definition req_update_pend :: "u32 \<Rightarrow> qdma_descq \<Rightarrow> trace \<Rightarrow> qdma_descq \<times> trace" where
  "req_update_pend credit descq tr =
     (let credit = credit + dq_credit descq;
          (credit, descq, tr) = update_pend_loop (dq_pend_list descq) credit descq tr
      in (descq\<lparr>dq_credit := credit\<rparr>, tr))"

definition descq_wb_credit :: "u32 \<Rightarrow> qdma_descq \<Rightarrow> u32 \<times> qdma_descq" where
  "descq_wb_credit cidx q =
     (if cidx = dq_cidx q then (0, q)
      else
        let n = (if cidx < dq_cidx q then (qc_rngsz (dq_conf q) - dq_cidx q) + cidx
                 else cidx - dq_cidx q)
        in (n, q\<lparr>dq_cidx := cidx, dq_avail := dq_avail q + n\<rparr>))"

definition descq_mm_n_h2c_wb :: "build \<Rightarrow> qdma_descq \<Rightarrow> trace \<Rightarrow> int \<times> qdma_descq \<times> trace" where
  "descq_mm_n_h2c_wb b descq tr =
     (if dq_pidx descq = dq_cidx descq then (0, descq, tr)
      else
        let cidx_hw = ucast (dq_desc_wb_cidx descq) in
        if cidx_hw = dq_cidx descq then (0, descq, tr)
        else
          let (cr, descq) = descq_wb_credit cidx_hw descq;
              tr = (if dq_work_list descq \<noteq> [] \<and> dq_avail descq \<noteq> 0
                    then (case dq_wrkthp descq of None \<Rightarrow> tr | Some t \<Rightarrow> Wakeup (WrkThread t) # tr)
                    else tr);
              (descq, tr) = req_update_pend cr descq tr
          in (0, descq, pidx_update b descq tr))"

section \<open>Descriptor memory and interrupt vectors\<close>

definition get_desc_size :: "qdma_descq \<Rightarrow> u32" where
  "get_desc_size descq =
     (if \<not> qc_st (dq_conf descq) then 32 else if qc_c2h (dq_conf descq) then 8 else 16)"

definition get_desc_wb_size :: "qdma_descq \<Rightarrow> u32" where
  "get_desc_wb_size descq = 8"

definition desc_ring_alloc :: "env \<Rightarrow> u32 \<Rightarrow> u32 \<Rightarrow> u32 \<Rightarrow> trace \<Rightarrow> u64 option \<times> trace" where
  "desc_ring_alloc E ring_sz desc_sz wb_sz tr =
     (let len = ring_sz * desc_sz + wb_sz; p = env_dma_alloc E tr len in (p, DmaAlloc len p # tr))"

definition desc_ring_free :: "u32 \<Rightarrow> u32 \<Rightarrow> u32 \<Rightarrow> u64 \<Rightarrow> trace \<Rightarrow> trace" where
  "desc_ring_free ring_sz desc_sz wb_sz bus tr = DmaFree (ring_sz * desc_sz + wb_sz) bus # tr"

definition desc_free_irq :: "qdma_descq \<Rightarrow> xlnx_dma_dev \<Rightarrow> xlnx_dma_dev" where
  "desc_free_irq descq xdev =
     (if xd_num_vecs xdev = 0 then xdev
      else
        let c = xd_intr_list_cnt xdev ! dq_intr_id descq
        in if c \<noteq> 0 then xdev\<lparr>xd_intr_list_cnt := (xd_intr_list_cnt xdev)[dq_intr_id descq := c - 1]\<rparr>
           else xdev)"

fun alloc_irq_loop :: "int list \<Rightarrow> nat list \<Rightarrow> int \<Rightarrow> nat \<Rightarrow> int \<times> nat" where
  "alloc_irq_loop cnts [] mn idx = (mn, idx)"
| "alloc_irq_loop cnts (i # is) mn idx =
     (let (mn, idx) = (if cnts ! i < mn then (cnts ! i, i) else (mn, idx))
      in if mn = 0 then (mn, idx) else alloc_irq_loop cnts is mn idx)"

definition desc_alloc_irq :: "qdma_descq \<Rightarrow> xlnx_dma_dev \<Rightarrow> qdma_descq \<times> xlnx_dma_dev" where
  "desc_alloc_irq descq xdev =
     (if xd_num_vecs xdev = 0 then (descq, xdev)
      else
        let start = xd_dvec_start_idx xdev;
            cnts = xd_intr_list_cnt xdev;
            (idx, xdev) =
              (if \<not> xd_intr_coal_en xdev then
                 let (mn, idx) = alloc_irq_loop cnts [start..<xd_num_vecs xdev] (cnts ! start) start
                 in (idx, xdev\<lparr>xd_intr_list_cnt := cnts[idx := cnts ! idx + 1]\<rparr>)
               else (start, xdev))
        in (descq\<lparr>dq_intr_id := idx\<rparr>, xdev))"

section \<open>What posting a memory-mapped request does\<close>

text \<open>The pieces of at most \<open>QDMA_DESC_BLEN_MAX\<close> bytes into which an entry is cut.\<close>

function chunk_entry :: "u64 \<Rightarrow> u32 \<Rightarrow> (u64 \<times> u32) list" where
  "chunk_entry addr tlen =
     (if tlen = 0 then []
      else let len = min tlen QDMA_DESC_BLEN_MAX
           in (addr, len) # chunk_entry (addr + ucast len) (tlen - len))"
  by pat_completeness auto
termination
proof (relation "measure (\<lambda>(addr, tlen). unat tlen)", goal_cases)
  case (2 addr tlen len)
  then show ?case by (auto intro!: min_piece_less simp: QDMA_DESC_BLEN_MAX_def)
qed simp

declare chunk_entry.simps [simp del]

definition mm_chunks :: "qdma_sw_sg list \<Rightarrow> (u64 \<times> u32) list" where
  "mm_chunks sgs = concat (map (\<lambda>sg. chunk_entry (sg_dma_addr sg) (sg_len sg)) sgs)"

definition mm_post_all :: "bool \<Rightarrow> u32 \<Rightarrow> (u64 \<times> u32) list \<Rightarrow> mm_loop \<Rightarrow> mm_loop" where
  "mm_post_all c2h rngsz cs = fold (\<lambda>(a, l). mm_post c2h rngsz a l) cs"

lemma mm_post_all_simps [simp]:
  "mm_post_all c2h rngsz [] s = s"
  "mm_post_all c2h rngsz ((a, l) # cs) s = mm_post_all c2h rngsz cs (mm_post c2h rngsz a l s)"
  "mm_post_all c2h rngsz (cs @ ds) s = mm_post_all c2h rngsz ds (mm_post_all c2h rngsz cs s)"
  by (simp_all add: mm_post_all_def)

lemma mm_post_all_cnt: "ml_desc_cnt (mm_post_all c2h rngsz cs s) = ml_desc_cnt s + of_nat (length cs)"
  by (induction cs arbitrary: s) (auto simp: mm_post_def)

lemma mm_entry_loop_chunks:
  assumes "ml_desc_cnt s < desc_max"
  shows "mm_entry_loop c2h rngsz desc_max addr tlen s
    = mm_post_all c2h rngsz (take (unat desc_max - unat (ml_desc_cnt s)) (chunk_entry addr tlen)) s"
  using assms
proof (induction c2h rngsz desc_max addr tlen s rule: mm_entry_loop.induct)
  case (1 c2h rngsz desc_max addr tlen s)
  show ?case
  proof (cases "tlen = 0")
    case True
    then show ?thesis by (simp add: mm_entry_loop.simps [of _ _ _ _ 0] chunk_entry.simps [of _ 0])
  next
    case False
    define len where "len = min tlen QDMA_DESC_BLEN_MAX"
    define s1 where "s1 = mm_post c2h rngsz addr len s"
    have cnt: "unat (ml_desc_cnt s1) = unat (ml_desc_cnt s) + 1"
      using "1.prems" unat_u32_less [of desc_max]
      by (simp add: s1_def mm_post_def unat_add_no_overflow unat_less_iff)
    have chunk: "chunk_entry addr tlen = (addr, len) # chunk_entry (addr + ucast len) (tlen - len)"
      using False by (subst chunk_entry.simps) (simp add: Let_def len_def)
    obtain m where m: "unat desc_max - unat (ml_desc_cnt s) = Suc m"
      using "1.prems" by (metis Suc_diff_Suc unat_less_iff)
    have unf: "mm_entry_loop c2h rngsz desc_max addr tlen s =
        (if ml_desc_cnt s1 = desc_max then s1
         else mm_entry_loop c2h rngsz desc_max (addr + ucast len) (tlen - len) s1)"
      using False by (subst mm_entry_loop.simps) (simp add: Let_def len_def s1_def)
    show ?thesis
    proof (cases "ml_desc_cnt s1 = desc_max")
      case True
      then have "m = 0" using m cnt by simp
      then show ?thesis unfolding unf chunk m using True by (simp add: s1_def)
    next
      case neq: False
      then have less: "ml_desc_cnt s1 < desc_max"
        using "1.prems" cnt by (simp add: unat_less_iff word_unat_eq_iff)
      have "mm_entry_loop c2h rngsz desc_max (addr + ucast len) (tlen - len) s1
        = mm_post_all c2h rngsz (take (unat desc_max - unat (ml_desc_cnt s1))
            (chunk_entry (addr + ucast len) (tlen - len))) s1"
        using "1.IH" [OF False len_def s1_def neq less] .
      moreover have "unat desc_max - unat (ml_desc_cnt s1) = m"
        using m cnt by simp
      ultimately show ?thesis unfolding unf chunk m using neq by (simp add: s1_def)
    qed
  qed
qed

lemma mm_post_all_cnt_unat:
  assumes "unat (ml_desc_cnt s) + length cs < 2 ^ 32"
  shows "unat (ml_desc_cnt (mm_post_all c2h rngsz cs s)) = unat (ml_desc_cnt s) + length cs"
proof -
  have "unat (of_nat (length cs) :: u32) = length cs"
    using assms by (intro unat_of_nat_u32) simp
  then show ?thesis using assms by (simp add: mm_post_all_cnt unat_add_no_overflow)
qed

text \<open>The offset into the first entry is dropped (it is reset before it is used).\<close>

lemma mm_sgl_loop_chunks:
  assumes "ml_desc_cnt s \<le> desc_max"
  shows "mm_sgl_loop c2h rngsz desc_max sgs sg_off s
    = mm_post_all c2h rngsz (take (unat desc_max - unat (ml_desc_cnt s)) (mm_chunks sgs)) s"
  using assms
proof (induction sgs arbitrary: sg_off s)
  case Nil
  then show ?case by (simp add: mm_chunks_def)
next
  case (Cons sg sgs)
  define cs where "cs = chunk_entry (sg_dma_addr sg) (sg_len sg)"
  define n where "n = unat desc_max - unat (ml_desc_cnt s)"
  show ?case
  proof (cases "ml_desc_cnt s < desc_max")
    case False
    then have "n = 0" using Cons.prems by (simp add: n_def word_le_nat_alt unat_less_iff)
    with False show ?thesis by (simp add: n_def)
  next
    case True
    define s1 where "s1 = mm_entry_loop c2h rngsz desc_max (sg_dma_addr sg) (sg_len sg) s"
    have s1: "s1 = mm_post_all c2h rngsz (take n cs) s"
      using mm_entry_loop_chunks [OF True] by (simp add: s1_def n_def cs_def)
    have "unat (ml_desc_cnt s) + length (take n cs) < 2 ^ 32"
      using Cons.prems unat_u32_less [of desc_max] by (simp add: n_def word_le_nat_alt)
    then have cnt: "unat (ml_desc_cnt s1) = unat (ml_desc_cnt s) + length (take n cs)"
      unfolding s1 by (rule mm_post_all_cnt_unat)
    then have le: "ml_desc_cnt s1 \<le> desc_max"
      using Cons.prems by (simp add: n_def word_le_nat_alt)
    have off: "mm_sgl_loop c2h rngsz desc_max (sg # sgs) sg_off s
        = mm_sgl_loop c2h rngsz desc_max sgs 0 s1"
      using True by (simp add: s1_def Let_def)
    have "unat desc_max - unat (ml_desc_cnt s1) = n - length cs"
      using cnt by (simp add: n_def min_def)
    then show ?thesis
      unfolding off Cons.IH [OF le]
      by (simp add: s1 n_def [symmetric] mm_chunks_def cs_def [symmetric])
  qed
qed

text \<open>Writing a list of entries into consecutive slots of a ring.\<close>

fun ring_put :: "u32 \<Rightarrow> 'a list \<Rightarrow> u32 \<Rightarrow> 'a list \<Rightarrow> 'a list" where
  "ring_put rngsz ring pidx [] = ring"
| "ring_put rngsz ring pidx (d # ds) = ring_put rngsz (ring[unat pidx := d]) (ring_next pidx rngsz) ds"

definition ring_slot :: "u32 \<Rightarrow> u32 \<Rightarrow> nat \<Rightarrow> nat" where
  "ring_slot rngsz pidx k = (unat pidx + k) mod unat rngsz"

lemma ring_next_props:
  assumes "pidx < rngsz" "unat rngsz \<le> 2 ^ 31"
  shows "ring_next pidx rngsz < rngsz" "unat (ring_next pidx rngsz) = ring_slot rngsz pidx 1"
proof -
  have c: "unat (1 :: u32) \<le> unat rngsz" "unat pidx < unat rngsz"
    using assms by (auto simp: unat_less_iff)
  note n = ring.val_incr [OF c(2) c(1) assms(2)]
  show "unat (ring_next pidx rngsz) = ring_slot rngsz pidx 1"
    using assms n by (simp add: ring_next_incr ring_slot_def)
  then show "ring_next pidx rngsz < rngsz"
    using c by (simp add: unat_less_iff ring_slot_def)
qed

lemma ring_slot_next:
  assumes "pidx < rngsz" "unat rngsz \<le> 2 ^ 31"
  shows "ring_slot rngsz (ring_next pidx rngsz) k = ring_slot rngsz pidx (Suc k)"
  using ring_next_props(2) [OF assms] unfolding ring_slot_def by (simp only: mod_add_left_eq) simp

lemma length_ring_put [simp]: "length (ring_put rngsz ring pidx ds) = length ring"
  by (induction rngsz ring pidx ds rule: ring_put.induct) simp_all

lemma ring_slot_inject:
  assumes "j < unat rngsz" "k < unat rngsz"
  shows "ring_slot rngsz p j = ring_slot rngsz p k \<longleftrightarrow> j = k"
proof -
  have less: "j' = k'" if "(a + j') mod n = (a + k') mod n" "k' \<le> j'" "j' < n" for a n j' k' :: nat
  proof -
    have "n dvd (a + j') - (a + k')"
      using that(1,2) by (simp only: mod_eq_dvd_iff_nat [of "a + k'" "a + j'" n] add_le_mono le_refl)
    then have "n dvd j' - k'" by simp
    then show ?thesis using that(2,3) by (auto dest: dvd_imp_le)
  qed
  show ?thesis
    using assms less [of "unat p" j "unat rngsz" k] less [of "unat p" k "unat rngsz" j]
    by (cases "k \<le> j") (auto simp: ring_slot_def)
qed

lemma ring_put_other:
  assumes "\<forall>k < length ds. ring_slot rngsz pidx k \<noteq> i" "pidx < rngsz" "unat rngsz \<le> 2 ^ 31"
  shows "ring_put rngsz ring pidx ds ! i = ring ! i"
  using assms
proof (induction rngsz ring pidx ds rule: ring_put.induct)
  case (2 rngsz ring pidx d ds)
  have "\<forall>k < length ds. ring_slot rngsz (ring_next pidx rngsz) k \<noteq> i"
    using 2(2) by (auto simp: ring_slot_next [OF 2(3,4)])
  moreover have "unat pidx \<noteq> i"
    using 2(2,3) by (auto simp: ring_slot_def unat_less_iff dest: spec [of _ 0])
  ultimately show ?case
    using 2(1) [OF _ ring_next_props(1) [OF 2(3,4)] 2(4)] by simp
qed simp

lemma ring_put_nth:
  assumes "length ds \<le> unat rngsz" "pidx < rngsz" "unat rngsz \<le> 2 ^ 31" "length ring = unat rngsz"
    "k < length ds"
  shows "ring_put rngsz ring pidx ds ! ring_slot rngsz pidx k = ds ! k"
  using assms
proof (induction rngsz ring pidx ds arbitrary: k rule: ring_put.induct)
  case (2 rngsz ring pidx d ds)
  show ?case
  proof (cases k)
    case 0
    have slot: "ring_slot rngsz pidx 0 = unat pidx"
      using 2(3) by (simp add: ring_slot_def unat_less_iff)
    have "\<forall>j < length ds. ring_slot rngsz (ring_next pidx rngsz) j \<noteq> unat pidx"
      using 2(2) ring_slot_inject [of "Suc _" rngsz 0 pidx]
      by (auto simp: ring_slot_next [OF 2(3,4)] slot [symmetric])
    then have "ring_put rngsz (ring[unat pidx := d]) (ring_next pidx rngsz) ds ! unat pidx
        = ring[unat pidx := d] ! unat pidx"
      using ring_next_props(1) [OF 2(3,4)] 2(4) by (rule ring_put_other)
    then show ?thesis
      using 0 2(3,5) by (simp add: slot unat_less_iff)
  next
    case (Suc j)
    then show ?thesis
      using 2 ring_next_props(1) [OF 2(3,4)] by (simp add: ring_slot_next [OF 2(3,4), symmetric])
  qed
qed simp

text \<open>The descriptors for a list of pieces, before the packet flags.\<close>

fun mm_plan :: "bool \<Rightarrow> u64 \<Rightarrow> (u64 \<times> u32) list \<Rightarrow> qdma_mm_desc list" where
  "mm_plan c2h ep [] = []"
| "mm_plan c2h ep ((a, l) # cs) = mm_desc c2h ep a l # mm_plan c2h (ep + ucast l) cs"

lemma length_mm_plan [simp]: "length (mm_plan c2h ep cs) = length cs"
  by (induction c2h ep cs rule: mm_plan.induct) simp_all

lemma mm_post_all_ring:
  "ml_ring (mm_post_all c2h rngsz cs s)
    = ring_put rngsz (ml_ring s) (ml_pidx s) (mm_plan c2h (ml_ep_addr s) cs)"
  by (induction cs arbitrary: s) (auto simp: mm_post_def)

lemma mm_post_all_data:
  "ml_data_cnt (mm_post_all c2h rngsz cs s) = ml_data_cnt s + sum_list (map snd cs)"
  by (induction cs arbitrary: s) (auto simp: mm_post_def)

lemma mm_post_all_pidx:
  assumes "ml_pidx s < rngsz" "unat rngsz \<le> 2 ^ 31"
  shows "unat (ml_pidx (mm_post_all c2h rngsz cs s)) = ring_slot rngsz (ml_pidx s) (length cs)
    \<and> ml_end (mm_post_all c2h rngsz cs s)
      = (if cs = [] then ml_end s else Some (of_nat (ring_slot rngsz (ml_pidx s) (length cs - 1))))"
  using assms
proof (induction cs arbitrary: s)
  case Nil
  then show ?case by (simp add: ring_slot_def unat_less_iff)
next
  case (Cons c cs)
  obtain a l where c: "c = (a, l)" by fastforce
  define s1 where "s1 = mm_post c2h rngsz a l s"
  have p1: "ml_pidx s1 = ring_next (ml_pidx s) rngsz" "ml_end s1 = Some (ml_pidx s)"
    by (simp_all add: s1_def mm_post_def)
  have lt: "ml_pidx s1 < rngsz" using ring_next_props(1) Cons.prems by (simp add: p1)
  have slot: "ring_slot rngsz (ml_pidx s1) k = ring_slot rngsz (ml_pidx s) (Suc k)" for k
    unfolding p1 using Cons.prems by (rule ring_slot_next)
  have "of_nat (ring_slot rngsz (ml_pidx s) 0) = ml_pidx s"
    using Cons.prems(1) by (simp add: ring_slot_def unat_less_iff)
  then show ?case
    using Cons.IH [OF lt Cons.prems(2)] p1(2) slot
    by (cases cs) (auto simp: c simp flip: s1_def)
qed

section \<open>The ring invariant\<close>

text \<open>
  The indices lie in the ring, and the free entries and the entries between the consumer and
  the producer add up to one less than the ring (one entry always stays free).
\<close>

definition ring_inv :: "qdma_descq \<Rightarrow> bool" where
  "ring_inv q \<longleftrightarrow> unat (qc_rngsz (dq_conf q)) \<le> 2 ^ 31 \<and> dq_pidx q < qc_rngsz (dq_conf q)
     \<and> dq_cidx q < qc_rngsz (dq_conf q)
     \<and> unat (dq_avail q) + unat (ring_idx_delta (dq_pidx q) (dq_cidx q) (qc_rngsz (dq_conf q))) + 1
         = unat (qc_rngsz (dq_conf q))"

lemma ring_inv_advance:
  assumes "ring_inv q" "n \<le> unat (dq_avail q)"
    and "unat p' = ring_slot (qc_rngsz (dq_conf q)) (dq_pidx q) n" "a' = dq_avail q - of_nat n"
    and "dq_conf q' = dq_conf q" "dq_pidx q' = p'" "dq_cidx q' = dq_cidx q" "dq_avail q' = a'"
  shows "ring_inv q' \<and> unat a' = unat (dq_avail q) - n"
proof -
  let ?N = "qc_rngsz (dq_conf q)"
  have inv: "unat ?N \<le> 2 ^ 31" "unat (dq_pidx q) < unat ?N" "unat (dq_cidx q) < unat ?N"
    "unat (dq_avail q) + unat (ring_idx_delta (dq_pidx q) (dq_cidx q) ?N) + 1 = unat ?N"
    using assms(1) by (simp_all add: ring_inv_def unat_less_iff)
  have n: "unat (of_nat n :: u32) = n"
    using assms(2) unat_u32_less [of "dq_avail q"] by (intro unat_of_nat_u32) simp
  have a': "unat a' = unat (dq_avail q) - n"
    using assms(2,4) n by (simp add: unat_sub_le word_le_nat_alt)
  have "p' = ring_idx_incr (dq_pidx q) (of_nat n) ?N"
    using ring.val_incr [of "dq_pidx q" ?N "of_nat n"] inv assms(2,3) n
    by (simp add: word_unat_eq_iff ring_slot_def)
  then have "unat (ring_idx_delta p' (dq_cidx q) ?N)
      = unat (ring_idx_delta (dq_pidx q) (dq_cidx q) ?N) + n"
    using ring.delta_incr_add [of "dq_pidx q" ?N "dq_cidx q" "of_nat n"] inv assms(2) n by simp
  moreover have "unat p' < unat ?N" using inv assms(3) by (simp add: ring_slot_def)
  ultimately show ?thesis
    using inv assms(2,5-8) a' by (simp add: ring_inv_def unat_less_iff)
qed

section \<open>The posted request\<close>

text \<open>The descriptors of a request as they stand in the ring, packet flags included.\<close>

definition mm_posted :: "bool \<Rightarrow> u64 \<Rightarrow> (u64 \<times> u32) list \<Rightarrow> nat \<Rightarrow> qdma_mm_desc" where
  "mm_posted c2h ep cs k =
     (let d = mm_plan c2h ep cs ! k;
          v = (if Suc k = length cs then mm_flag_len d OR push_bit 30 1 else mm_flag_len d)
      in d\<lparr>mm_flag_len := if k = 0 then v OR push_bit 29 1 else v\<rparr>)"

lemma or_flag_len_nth:
  "unat slot < length ring \<Longrightarrow> or_flag_len slot v ring ! i
    = (if i = unat slot then (ring ! i)\<lparr>mm_flag_len := mm_flag_len (ring ! i) OR v\<rparr> else ring ! i)"
  by (simp add: or_flag_len_def)

lemma or_flag_len_other: "i \<noteq> unat slot \<Longrightarrow> or_flag_len slot v ring ! i = ring ! i"
  by (simp add: or_flag_len_def)

lemma length_or_flag_len [simp]: "length (or_flag_len slot v ring) = length ring"
  by (simp add: or_flag_len_def)

lemma flagged_ring:
  fixes c2h :: bool and ep :: u64 and cs :: "(u64 \<times> u32) list"
  assumes "length cs \<le> unat N" "p < N" "unat N \<le> 2 ^ 31" "length ring = unat N" "cs \<noteq> []"
  defines "R \<equiv> or_flag_len p (push_bit 29 1)
      (or_flag_len (of_nat (ring_slot N p (length cs - 1))) (push_bit 30 1)
        (ring_put N ring p (mm_plan c2h ep cs)))"
  shows "length R = unat N"
    and "k < length cs \<Longrightarrow> R ! ring_slot N p k = mm_posted c2h ep cs k"
    and "\<forall>k < length cs. ring_slot N p k \<noteq> i \<Longrightarrow> R ! i = ring ! i"
proof -
  let ?n = "length cs"
  have Npos: "0 < unat N" using assms(2) by (simp add: unat_less_iff)
  have lt: "ring_slot N p k < unat N" for k using Npos by (simp add: ring_slot_def)
  have last: "unat (of_nat (ring_slot N p (?n - 1)) :: u32) = ring_slot N p (?n - 1)"
    using lt [of "?n - 1"] assms(3) by (intro unat_of_nat_u32) simp
  have first: "unat p = ring_slot N p 0" using assms(2) by (simp add: ring_slot_def unat_less_iff)
  have n0: "0 < ?n" using assms(5) by simp
  show "length R = unat N" by (simp add: R_def or_flag_len_def assms(4))
  show "R ! ring_slot N p k = mm_posted c2h ep cs k" if "k < ?n"
  proof -
    have nth: "ring_put N ring p (mm_plan c2h ep cs) ! ring_slot N p j = mm_plan c2h ep cs ! j"
      if "j < ?n" for j using ring_put_nth [of "mm_plan c2h ep cs" N p ring j] that assms(1-4) by simp
    have eqs: "ring_slot N p k = ring_slot N p (?n - 1) \<longleftrightarrow> Suc k = ?n"
      "ring_slot N p k = ring_slot N p 0 \<longleftrightarrow> k = 0"
      using that n0 assms(1) by (subst ring_slot_inject; auto)+
    have up: "unat (of_nat (ring_slot N p (?n - 1)) :: u32) < unat N" "unat p < unat N"
      unfolding last first by (rule lt)+
    define G where "G = ring_put N ring p (mm_plan c2h ep cs)"
    have G: "length G = unat N" "G ! ring_slot N p k = mm_plan c2h ep cs ! k"
      using nth [OF that] assms(4) by (simp_all add: G_def)
    have "R ! ring_slot N p k =
        (let d = (if Suc k = ?n then (mm_plan c2h ep cs ! k)\<lparr>mm_flag_len := mm_flag_len (mm_plan c2h ep cs ! k) OR push_bit 30 1\<rparr>
                  else mm_plan c2h ep cs ! k)
         in if k = 0 then d\<lparr>mm_flag_len := mm_flag_len d OR push_bit 29 1\<rparr> else d)"
      unfolding R_def G_def [symmetric] Let_def
      by (simp only: or_flag_len_nth length_or_flag_len G lt last first eqs)
    also have "\<dots> = mm_posted c2h ep cs k"
      by (cases "mm_plan c2h ep cs ! k"; cases "k = 0"; cases "Suc k = ?n")
        (simp_all add: mm_posted_def Let_def)
    finally show ?thesis .
  qed
  show "R ! i = ring ! i" if "\<forall>k < ?n. ring_slot N p k \<noteq> i"
  proof -
    have "ring_slot N p (?n - 1) \<noteq> i" "ring_slot N p 0 \<noteq> i" using that n0 by simp_all
    then have "i \<noteq> ring_slot N p (?n - 1)" "i \<noteq> ring_slot N p 0" by blast+
    moreover have "ring_put N ring p (mm_plan c2h ep cs) ! i = ring ! i"
      using that assms(2,3) by (intro ring_put_other) simp_all
    ultimately show ?thesis
      unfolding R_def by (simp only: or_flag_len_other last first not_False_eq_True)
  qed
qed

text \<open>The pieces a call posts: as many as there are free descriptors.\<close>

definition mm_cut :: "qdma_descq \<Rightarrow> qdma_request \<Rightarrow> nat \<Rightarrow> (u64 \<times> u32) list" where
  "mm_cut q req i = take (unat (dq_avail q)) (mm_chunks (drop i (take (unat (rq_sgcnt req)) (rq_sgl req))))"

definition advance_req :: "nat \<Rightarrow> nat \<Rightarrow> u32 \<Rightarrow> qdma_descq \<Rightarrow> qdma_descq" where
  "advance_req r n data q =
     (let q = upd_req r (\<lambda>req. req\<lparr>cb_desc_nr := cb_desc_nr req + of_nat n, cb_offset := cb_offset req + data\<rparr>) q
      in if cb_offset (dq_reqs q r) = rq_count (dq_reqs q r) then req_submitted r q else q)"

lemma advance_req_simps [simp]:
  "dq_conf (advance_req r n d q) = dq_conf q" "dq_pidx (advance_req r n d q) = dq_pidx q"
  "dq_cidx (advance_req r n d q) = dq_cidx q" "dq_avail (advance_req r n d q) = dq_avail q"
  "dq_desc (advance_req r n d q) = dq_desc q" "dq_wbthp (advance_req r n d q) = dq_wbthp q"
  by (simp_all add: advance_req_def upd_req_def req_submitted_def list_del_req_def Let_def)

lemma mm_proc_request_eq:
  fixes q r
  defines "req \<equiv> dq_reqs q r" and "N \<equiv> qc_rngsz (dq_conf q)" and "c2h \<equiv> qc_c2h (dq_conf q)"
  assumes "ring_inv q" "dq_avail q \<noteq> 0" "dq_desc q = MmDesc ring"
    and res: "req_resume req = Some (i, off)" and ne: "mm_cut q req i \<noteq> []"
  defines "cs \<equiv> mm_cut q req i"
  defines "R \<equiv> or_flag_len (dq_pidx q) (push_bit 29 1)
      (or_flag_len (of_nat (ring_slot N (dq_pidx q) (length cs - 1))) (push_bit 30 1)
        (ring_put N ring (dq_pidx q) (mm_plan c2h (rq_ep_addr req + ucast (cb_offset req)) cs)))"
  shows "\<exists>p'. unat p' = ring_slot N (dq_pidx q) (length cs)
    \<and> (let q' = advance_req r (length cs) (sum_list (map snd cs))
              (q\<lparr>dq_desc := MmDesc R, dq_pidx := p', dq_avail := dq_avail q - of_nat (length cs)\<rparr>)
       in descq_mm_proc_request b r q tr = (0, q', wake_wb q' (pidx_update b q' tr)))"
proof -
  define s0 where "s0 = \<lparr>ml_ring = mm_ring (dq_desc q), ml_pidx = dq_pidx q,
      ml_ep_addr = rq_ep_addr req + ucast (cb_offset req),
      ml_data_cnt = 0, ml_desc_cnt = 0, ml_end = None\<rparr>"
  define s where "s = mm_post_all c2h N cs s0"
  have loop: "mm_sgl_loop c2h N (dq_avail q) (drop i (take (unat (rq_sgcnt req)) (rq_sgl req))) off s0 = s"
    using mm_sgl_loop_chunks [of s0 "dq_avail q"]
    by (simp add: s_def cs_def mm_cut_def s0_def)
  have p: "unat (ml_pidx s) = ring_slot N (dq_pidx q) (length cs)"
    "ml_end s = Some (of_nat (ring_slot N (dq_pidx q) (length cs - 1)))"
    using mm_post_all_pidx [of s0 N c2h cs] assms(4) ne
    by (simp_all add: s_def s0_def ring_inv_def N_def cs_def)
  have c: "ml_desc_cnt s = of_nat (length cs)" "ml_data_cnt s = sum_list (map snd cs)"
    "ml_ring s = ring_put N ring (dq_pidx q) (mm_plan c2h (rq_ep_addr req + ucast (cb_offset req)) cs)"
    using assms(6) by (simp_all add: s_def s0_def mm_post_all_cnt mm_post_all_data mm_post_all_ring)
  have "descq_mm_proc_request b r q tr =
      (let q' = advance_req r (length cs) (sum_list (map snd cs))
          (q\<lparr>dq_desc := MmDesc R, dq_pidx := ml_pidx s, dq_avail := dq_avail q - of_nat (length cs)\<rparr>)
       in (0, q', wake_wb q' (pidx_update b q' tr)))"
    unfolding descq_mm_proc_request_def Let_def req_def [symmetric]
      N_def [symmetric] c2h_def [symmetric] res option.case prod.case s0_def [symmetric] loop p(2)
    using assms(5) by (simp add: c advance_req_def Let_def R_def)
  with p(1) show ?thesis by (intro exI [of _ "ml_pidx s"]) (simp add: Let_def)
qed

definition pidx_doorbell :: "build \<Rightarrow> qdma_queue_conf \<Rightarrow> u32" where
  "pidx_doorbell b conf =
     (if qc_c2h conf then QDMA_REG_C2H_PIDX_BASE b else QDMA_REG_H2C_PIDX_BASE b) + 0x10 * ucast (qc_qidx conf)"

lemma writes_of_pidx_update [trace_simps]:
  "writes_of (pidx_update b q tr) = writes_of tr @
     [(pidx_doorbell b (dq_conf q), dq_pidx q OR push_bit 16 (flag (qc_irq_en (dq_conf q))))]"
  by (simp add: pidx_update_def pidx_doorbell_def descq_c2h_pidx_update_def descq_h2c_pidx_update_def
      QDMA_REG_PIDX_STEP_def trace_simps mult.commute)

lemma writes_of_wake_wb [trace_simps]: "writes_of (wake_wb q tr) = writes_of tr"
  by (simp add: wake_wb_def split: option.split)

lemma advance_req_req:
  "cb_desc_nr (dq_reqs (advance_req r n d q) r) = cb_desc_nr (dq_reqs q r) + of_nat n"
  "cb_offset (dq_reqs (advance_req r n d q) r) = cb_offset (dq_reqs q r) + d"
  "rq_count (dq_reqs (advance_req r n d q) r) = rq_count (dq_reqs q r)"
  "r' \<noteq> r \<Longrightarrow> dq_reqs (advance_req r n d q) r' = dq_reqs q r'"
  by (simp_all add: advance_req_def upd_req_def req_submitted_def list_del_req_def Let_def)

lemma advance_req_lists:
  "dq_pend_list (advance_req r n d q) =
     (if cb_offset (dq_reqs q r) + d = rq_count (dq_reqs q r) then remove1 r (dq_pend_list q) @ [r]
      else dq_pend_list q)"
  "dq_work_list (advance_req r n d q) =
     (if cb_offset (dq_reqs q r) + d = rq_count (dq_reqs q r) then remove1 r (dq_work_list q)
      else dq_work_list q)"
  by (simp_all add: advance_req_def upd_req_def req_submitted_def list_del_req_def Let_def)

text \<open>
  C14.  \<open>descq_mm_proc_request\<close> on a fresh request: of the pieces into which the scatter-gather
  list is cut (at most \<open>QDMA_DESC_BLEN_MAX\<close> bytes each) it posts as many as there are free
  descriptors, into consecutive slots of the ring from the producer index on, each with its
  address, its device address and length, the first marked as start and the last as end of the
  packet; every other slot is left alone; the producer index, the count of free descriptors and
  the request's descriptor count and offset move by exactly what was posted; the ring invariant
  is kept, and the doorbell is rung once with the new index.
\<close>

theorem mm_proc_request_posts:
  assumes "ring_inv q" "dq_avail q \<noteq> 0" "dq_desc q = MmDesc ring"
    and "length ring = unat (qc_rngsz (dq_conf q))" "cb_offset (dq_reqs q r) = 0"
    and "mm_cut q (dq_reqs q r) 0 \<noteq> []"
  shows "case descq_mm_proc_request b r q tr of (rv, q', tr') \<Rightarrow>
    let cs = mm_cut q (dq_reqs q r) 0; n = length cs;
        slot = ring_slot (qc_rngsz (dq_conf q)) (dq_pidx q)
    in rv = 0 \<and> ring_inv q' \<and> unat (dq_avail q') = unat (dq_avail q) - n
      \<and> unat (dq_pidx q') = slot n
      \<and> (\<forall>k < n. mm_ring (dq_desc q') ! slot k
            = mm_posted (qc_c2h (dq_conf q)) (rq_ep_addr (dq_reqs q r)) cs k)
      \<and> (\<forall>i. (\<forall>k < n. slot k \<noteq> i) \<longrightarrow> mm_ring (dq_desc q') ! i = ring ! i)
      \<and> cb_desc_nr (dq_reqs q' r) = cb_desc_nr (dq_reqs q r) + of_nat n
      \<and> cb_offset (dq_reqs q' r) = sum_list (map snd cs)
      \<and> writes_of tr' = writes_of tr @
          [(pidx_doorbell b (dq_conf q), dq_pidx q' OR push_bit 16 (flag (qc_irq_en (dq_conf q))))]"
proof -
  define req where "req = dq_reqs q r"
  define cs where "cs = mm_cut q req 0"
  define N where "N = qc_rngsz (dq_conf q)"
  have res: "req_resume (dq_reqs q r) = Some (0, 0)" by (simp add: req_resume_def assms(5))
  have ep: "rq_ep_addr req + ucast (cb_offset req) = rq_ep_addr req"
    by (simp add: req_def assms(5))
  define R where "R = or_flag_len (dq_pidx q) (push_bit 29 1)
      (or_flag_len (of_nat (ring_slot N (dq_pidx q) (length cs - 1))) (push_bit 30 1)
        (ring_put N ring (dq_pidx q) (mm_plan (qc_c2h (dq_conf q)) (rq_ep_addr req) cs)))"
  obtain p' where p': "unat p' = ring_slot N (dq_pidx q) (length cs)"
    and run: "descq_mm_proc_request b r q tr =
      (let q' = advance_req r (length cs) (sum_list (map snd cs))
          (q\<lparr>dq_desc := MmDesc R, dq_pidx := p', dq_avail := dq_avail q - of_nat (length cs)\<rparr>)
       in (0, q', wake_wb q' (pidx_update b q' tr)))"
    using mm_proc_request_eq [OF assms(1-3) res assms(6), where b = b and tr = tr,
      folded req_def, folded cs_def, folded N_def, unfolded ep, folded R_def]
    unfolding Let_def by blast
  have n: "length cs \<le> unat (dq_avail q)" "cs \<noteq> []"
    using assms(6) by (simp_all add: cs_def mm_cut_def req_def)
  have N: "unat N \<le> 2 ^ 31" "dq_pidx q < N" "length ring = unat N" "length cs \<le> unat N"
    using assms(1,4) n by (simp_all add: ring_inv_def N_def)
  note ring = flagged_ring [OF N(4,2,1,3) n(2), where c2h = "qc_c2h (dq_conf q)" and ep = "rq_ep_addr req",
      folded R_def]
  define q' where "q' = advance_req r (length cs) (sum_list (map snd cs))
          (q\<lparr>dq_desc := MmDesc R, dq_pidx := p', dq_avail := dq_avail q - of_nat (length cs)\<rparr>)"
  have inv: "ring_inv q' \<and> unat (dq_avail q - of_nat (length cs)) = unat (dq_avail q) - length cs"
    using assms(1) n(1) p' [unfolded N_def] refl by (rule ring_inv_advance) (simp_all add: q'_def)
  show ?thesis
    unfolding run Let_def prod.case req_def [symmetric] cs_def [symmetric] N_def [symmetric]
      q'_def [symmetric]
    using inv ring(2,3) p' assms(5)
    by (simp add: trace_simps) (simp add: q'_def advance_req_req req_def)
qed

lemma chunk_entry_small:
  assumes "tlen \<noteq> 0" "tlen \<le> QDMA_DESC_BLEN_MAX"
  shows "chunk_entry addr tlen = [(addr, tlen)]"
  using assms by (subst chunk_entry.simps) (simp add: Let_def min_def chunk_entry.simps [of _ 0])

definition sample_request :: qdma_request where
  "sample_request = zero_request\<lparr>rq_count := 300, rq_ep_addr := 0x4000, rq_sgcnt := 2, rq_fp_done := True,
     rq_sgl := [\<lparr>sg_pg = 1, sg_offset = 0, sg_len = 100, sg_dma_addr = 0x1000\<rparr>,
                \<lparr>sg_pg = 2, sg_offset = 0, sg_len = 200, sg_dma_addr = 0x2000\<rparr>]\<rparr>"

definition sample_mm_queue :: qdma_descq where
  "sample_mm_queue = zero_descq\<lparr>dq_conf := zero_queue_conf\<lparr>qc_rngsz := 8, qc_qidx := 3\<rparr>,
     dq_pidx := 7, dq_cidx := 5, dq_avail := 5, dq_work_list := [9],
     dq_desc := MmDesc (replicate 8 (mm_desc False 0 0 0)), dq_reqs := (\<lambda>r. sample_request)\<rparr>"

lemma sample_mm_inv:
  "ring_inv sample_mm_queue" "dq_avail sample_mm_queue \<noteq> 0"
  "dq_desc sample_mm_queue = MmDesc (replicate 8 (mm_desc False 0 0 0))"
  "length (replicate 8 (mm_desc False 0 0 0)) = unat (qc_rngsz (dq_conf sample_mm_queue))"
  "cb_offset (dq_reqs sample_mm_queue 9) = 0"
  by (simp_all add: sample_mm_queue_def ring_inv_def zero_queue_conf_def ring_idx_delta_def
      sample_request_def zero_request_def)

lemma sample_mm_cut: "mm_cut sample_mm_queue (dq_reqs sample_mm_queue 9) 0 = [(0x1000, 100), (0x2000, 200)]"
  by (simp add: mm_cut_def mm_chunks_def sample_mm_queue_def sample_request_def chunk_entry_small
      QDMA_DESC_BLEN_MAX_def)

theorem mm_proc_request_posts_witness:
  "case descq_mm_proc_request PF 9 sample_mm_queue [] of (rv, q', tr') \<Rightarrow>
    rv = 0 \<and> ring_inv q' \<and> unat (dq_pidx q') = 1 \<and> cb_offset (dq_reqs q' 9) = 300"
proof -
  have "ring_slot (qc_rngsz (dq_conf sample_mm_queue)) (dq_pidx sample_mm_queue) 2 = 1"
    by (simp add: sample_mm_queue_def ring_slot_def)
  then show ?thesis
    using mm_proc_request_posts [OF sample_mm_inv, where b = PF and tr = "[]"]
    by (auto simp: sample_mm_cut Let_def numeral_2_eq_2)
qed

text \<open>The pieces of an entry cover it: consecutive addresses, and lengths that add up.\<close>

fun contiguous :: "u64 \<Rightarrow> (u64 \<times> u32) list \<Rightarrow> bool" where
  "contiguous a [] = True"
| "contiguous a ((a', l) # cs) = (a' = a \<and> l \<noteq> 0 \<and> l \<le> QDMA_DESC_BLEN_MAX \<and> contiguous (a + ucast l) cs)"

lemma chunk_entry_covers:
  "contiguous addr (chunk_entry addr tlen) \<and> sum_list (map snd (chunk_entry addr tlen)) = tlen"
proof (induction addr tlen rule: chunk_entry.induct)
  case (1 addr tlen)
  show ?case
  proof (cases "tlen = 0")
    case True
    then show ?thesis by (simp add: chunk_entry.simps [of _ 0])
  next
    case False
    define len where "len = min tlen QDMA_DESC_BLEN_MAX"
    have "len \<noteq> 0" "len \<le> QDMA_DESC_BLEN_MAX"
      using False by (auto simp: len_def QDMA_DESC_BLEN_MAX_def min_def)
    with "1.IH" [OF False len_def] show ?thesis
      using False by (subst (1 2) chunk_entry.simps) (simp add: Let_def flip: len_def)
  qed
qed

lemma mm_chunks_sum: "sum_list (map snd (mm_chunks sgs)) = sum_list (map sg_len sgs)"
  by (induction sgs) (simp_all add: mm_chunks_def chunk_entry_covers)

text \<open>
  A fresh memory-mapped request whose pieces fit into the free descriptors is posted whole
  by one call: its offset reaches the sum of its entries' lengths, and when that is the
  request's count (the entries are as long as they should be) the request leaves the work list
  and becomes the last of the pending list, while no other request is touched.
\<close>

theorem mm_proc_request_complete:
  assumes "ring_inv q" "dq_avail q \<noteq> 0" "dq_desc q = MmDesc ring" "cb_offset (dq_reqs q r) = 0"
    and "sgs = take (unat (rq_sgcnt (dq_reqs q r))) (rq_sgl (dq_reqs q r))"
    and "mm_chunks sgs \<noteq> []" "length (mm_chunks sgs) \<le> unat (dq_avail q)"
    and "sum_list (map sg_len sgs) = rq_count (dq_reqs q r)"
  shows "case descq_mm_proc_request b r q tr of (rv, q', tr') \<Rightarrow>
      rv = 0 \<and> cb_offset (dq_reqs q' r) = rq_count (dq_reqs q' r)
    \<and> cb_desc_nr (dq_reqs q' r) = cb_desc_nr (dq_reqs q r) + of_nat (length (mm_chunks sgs))
    \<and> dq_work_list q' = remove1 r (dq_work_list q)
    \<and> dq_pend_list q' = remove1 r (dq_pend_list q) @ [r]
    \<and> (\<forall>r'. r' \<noteq> r \<longrightarrow> dq_reqs q' r' = dq_reqs q r')"
proof -
  have res: "req_resume (dq_reqs q r) = Some (0, 0)" by (simp add: req_resume_def assms(4))
  have cut: "mm_cut q (dq_reqs q r) 0 = mm_chunks sgs"
    using assms(5,7) by (simp add: mm_cut_def)
  have ne: "mm_cut q (dq_reqs q r) 0 \<noteq> []" using assms(6) by (simp add: cut)
  show ?thesis
    using mm_proc_request_eq [OF assms(1-3) res ne, where b = b and tr = tr] assms(4,8)
    unfolding Let_def cut by (elim exE conjE)
      (simp add: advance_req_req advance_req_lists mm_chunks_sum)
qed

theorem mm_proc_request_complete_witness:
  "case descq_mm_proc_request PF 9 sample_mm_queue [] of (rv, q', tr') \<Rightarrow>
    rv = 0 \<and> dq_work_list q' = [] \<and> dq_pend_list q' = [9]"
proof -
  let ?sgs = "take (unat (rq_sgcnt (dq_reqs sample_mm_queue 9))) (rq_sgl (dq_reqs sample_mm_queue 9))"
  have ch: "mm_chunks ?sgs = [(0x1000, 100), (0x2000, 200)]"
    by (simp add: mm_chunks_def sample_mm_queue_def sample_request_def chunk_entry_small QDMA_DESC_BLEN_MAX_def)
  have "case descq_mm_proc_request PF 9 sample_mm_queue [] of (rv, q', tr') \<Rightarrow>
      rv = 0 \<and> dq_work_list q' = remove1 9 (dq_work_list sample_mm_queue)
    \<and> dq_pend_list q' = remove1 9 (dq_pend_list sample_mm_queue) @ [9]"
    using mm_proc_request_complete [OF sample_mm_inv(1-3,5) refl, where b = PF and tr = "[]"]
    unfolding ch by (auto simp: sample_mm_queue_def sample_request_def)
  then show ?thesis by (simp add: sample_mm_queue_def zero_descq_def split_beta)
qed

section \<open>Completing requests in order\<close>

text \<open>The requests that a trace reports as finished, oldest first.\<close>

fun completions :: "trace \<Rightarrow> nat list" where
  "completions [] = []"
| "completions (ReqCallback r n e # tr) = completions tr @ [r]"
| "completions (ReqWake r # tr) = completions tr @ [r]"
| "completions (_ # tr) = completions tr"

lemma sgl_unmap_loop_trace:
  "completions (snd (sgl_unmap_loop sgs tr)) = completions tr"
  "writes_of (snd (sgl_unmap_loop sgs tr)) = writes_of tr"
  "length (fst (sgl_unmap_loop sgs tr)) = length sgs"
  by (induction sgs tr rule: sgl_unmap_loop.induct) (auto simp: split_beta Let_def)

lemma sgl_unmap_same [simp]:
  "completions (snd (sgl_unmap req tr)) = completions tr" "writes_of (snd (sgl_unmap req tr)) = writes_of tr"
  "rq_fp_done (fst (sgl_unmap req tr)) = rq_fp_done req" "cb_offset (fst (sgl_unmap req tr)) = cb_offset req"
  "rq_count (fst (sgl_unmap req tr)) = rq_count req" "cb_desc_nr (fst (sgl_unmap req tr)) = cb_desc_nr req"
  "cb_left (fst (sgl_unmap req tr)) = cb_left req" "length (rq_sgl (fst (sgl_unmap req tr))) = length (rq_sgl req)"
  by (simp_all add: sgl_unmap_def Let_def split_beta sgl_unmap_loop_trace)

lemma sgt_req_done_facts:
  assumes "qdma_sgt_req_done r e q tr = (q', tr')"
  shows "dq_pend_list q' = remove1 r (dq_pend_list q)" "dq_work_list q' = remove1 r (dq_work_list q)"
    "r' \<noteq> r \<Longrightarrow> dq_reqs q' r' = dq_reqs q r'" "cb_done (dq_reqs q' r)"
    "cb_desc_nr (dq_reqs q' r) = cb_desc_nr (dq_reqs q r)"
    "cb_status (dq_reqs q' r)
      = (if rq_fp_done (dq_reqs q r) \<and> cb_offset (dq_reqs q r) \<noteq> rq_count (dq_reqs q r) then - EINVAL else e)"
    "dq_conf q' = dq_conf q" "dq_pidx q' = dq_pidx q" "dq_cidx q' = dq_cidx q" "dq_avail q' = dq_avail q"
    "dq_credit q' = dq_credit q" "dq_desc q' = dq_desc q"
    "completions tr' = completions tr @ [r]" "writes_of tr' = writes_of tr"
  using assms
  by (auto simp: qdma_sgt_req_done_def Let_def upd_req_def list_del_req_def split_beta split: if_splits)

text \<open>
  How credits are spent on a queue of requests that wait for \<open>ds\<close> descriptors: the number of
  requests that finish, what the rest still wait for, and the credits left over.
\<close>

fun spend_credit :: "nat \<Rightarrow> nat list \<Rightarrow> nat \<times> nat list \<times> nat" where
  "spend_credit c [] = (0, [], c)"
| "spend_credit c (d # ds) =
     (if d \<le> c then
        (if c - d = 0 then (1, ds, 0)
         else let (k, rest, left) = spend_credit (c - d) ds in (Suc k, rest, left))
      else (0, (d - c) # ds, 0))"

lemma spend_credit_conserves:
  "spend_credit c ds = (k, rest, left) \<Longrightarrow>
     sum_list ds + left = sum_list rest + c \<and> k \<le> length ds \<and> length rest = length ds - k
     \<and> (rest \<noteq> [] \<longrightarrow> left = 0)"
  by (induction c ds arbitrary: k rest left rule: spend_credit.induct)
    (auto split: if_splits prod.splits)

definition pend_nr :: "qdma_descq \<Rightarrow> nat \<Rightarrow> nat" where
  "pend_nr q r = unat (cb_desc_nr (dq_reqs q r))"

lemma update_pend_loop_spends:
  assumes "dq_pend_list q = rs" "distinct rs"
    and "spend_credit (unat credit) (map (pend_nr q) rs) = (k, rest, left)"
  shows "\<exists>q' tr' credit'. update_pend_loop rs credit q tr = (credit', q', tr')
    \<and> unat credit' = left \<and> dq_pend_list q' = drop k rs \<and> map (pend_nr q') (drop k rs) = rest
    \<and> (\<forall>r \<in> set (take k rs). cb_done (dq_reqs q' r))
    \<and> (\<forall>r. r \<notin> set rs \<longrightarrow> dq_reqs q' r = dq_reqs q r)
    \<and> (\<forall>r \<in> set (drop k rs). cb_done (dq_reqs q' r) = cb_done (dq_reqs q r))
    \<and> completions tr' = completions tr @ take k rs \<and> writes_of tr' = writes_of tr
    \<and> dq_conf q' = dq_conf q \<and> dq_pidx q' = dq_pidx q \<and> dq_cidx q' = dq_cidx q \<and> dq_avail q' = dq_avail q"
  using assms
proof (induction rs arbitrary: credit q tr k rest left)
  case Nil
  then show ?case by auto
next
  case (Cons r rs)
  define nr where "nr = cb_desc_nr (dq_reqs q r)"
  have nr: "pend_nr q r = unat nr" by (simp add: pend_nr_def nr_def)
  show ?case
  proof (cases "nr \<le> credit")
    case False
    then have lt: "unat credit < unat nr" by (simp add: word_le_nat_alt)
    then have "k = 0" "left = 0" "rest = (unat nr - unat credit) # map (pend_nr q) rs"
      using Cons.prems(3) by (auto simp: nr)
    moreover have "unat (nr - credit) = unat nr - unat credit"
      using lt by (simp add: unat_sub_le word_le_nat_alt)
    moreover have "map (pend_nr (upd_req r f q)) rs = map (pend_nr q) rs" for f
      using Cons.prems(2) by (intro map_cong) (auto simp: pend_nr_def upd_req_def)
    ultimately show ?thesis
      using False Cons.prems(1) by (simp add: Let_def nr_def [symmetric])
        (auto simp: upd_req_def pend_nr_def nr_def)
  next
    case True
    obtain q1 tr1 where d: "qdma_sgt_req_done r 0 q tr = (q1, tr1)" by fastforce
    note F = sgt_req_done_facts [OF d]
    have pend1: "dq_pend_list q1 = rs" using Cons.prems(1) by (simp add: F(1))
    have same: "dq_reqs q1 x = dq_reqs q x" if "x \<in> set rs" for x
      using that Cons.prems(2) F(3) [of x] by auto
    have out: "dq_reqs q1 x = dq_reqs q x" if "x \<noteq> r" for x
      using F(3) [OF that] .
    have nr1: "map (pend_nr q1) rs = map (pend_nr q) rs"
      using Cons.prems(2) by (intro map_cong refl) (metis F(3) distinct.simps(2) pend_nr_def)
    have sub: "unat (credit - nr) = unat credit - unat nr"
      using True by (simp add: unat_sub_le)
    have le: "unat nr \<le> unat credit" using True by (simp add: word_le_nat_alt)
    show ?thesis
    proof (cases "credit - nr = 0")
      case True': True
      then have "unat credit - unat nr = 0" using sub by simp
      then have "k = 1" "rest = map (pend_nr q) rs" "left = 0"
        using Cons.prems(3) le by (auto simp: nr)
      then show ?thesis
        using True True' d F(4,7-10,13,14) same pend1 nr1 out by (auto simp: Let_def nr_def [symmetric])
    next
      case False
      then have nz: "unat credit - unat nr \<noteq> 0" using sub by (metis unat_eq_zero)
      obtain k' where s: "spend_credit (unat credit - unat nr) (map (pend_nr q) rs) = (k', rest, left)"
        and k: "k = Suc k'"
        using Cons.prems(3) le nz by (auto simp: nr split: prod.splits)
      have "distinct rs" using Cons.prems(2) by simp
      from Cons.IH [OF pend1 this, of "credit - nr" k' rest left tr1] s
      obtain q' tr' credit' where ih: "update_pend_loop rs (credit - nr) q1 tr1 = (credit', q', tr')"
        "unat credit' = left" "dq_pend_list q' = drop k' rs" "map (pend_nr q') (drop k' rs) = rest"
        "\<forall>r \<in> set (take k' rs). cb_done (dq_reqs q' r)"
        "\<forall>r. r \<notin> set rs \<longrightarrow> dq_reqs q' r = dq_reqs q1 r"
        "\<forall>r \<in> set (drop k' rs). cb_done (dq_reqs q' r) = cb_done (dq_reqs q1 r)"
        "completions tr' = completions tr1 @ take k' rs" "writes_of tr' = writes_of tr1"
        "dq_conf q' = dq_conf q1" "dq_pidx q' = dq_pidx q1" "dq_cidx q' = dq_cidx q1" "dq_avail q' = dq_avail q1"
        by (auto simp: sub nr1)
      have nin: "r \<notin> set rs" "r \<notin> set (drop k' rs)"
        using Cons.prems(2) by (auto dest: in_set_dropD)
      then have "cb_done (dq_reqs q' r)" using ih(6) F(4) by simp
      then have A: "\<forall>x \<in> set (take k (r # rs)). cb_done (dq_reqs q' x)"
        using ih(5) by (simp add: k)
      have B: "\<forall>x. x \<notin> set (r # rs) \<longrightarrow> dq_reqs q' x = dq_reqs q x"
        using ih(6) out by simp
      have C: "\<forall>x \<in> set (drop k (r # rs)). cb_done (dq_reqs q' x) = cb_done (dq_reqs q x)"
        using ih(7) same by (auto simp: k dest: in_set_dropD)
      have "update_pend_loop (r # rs) credit q tr = (credit', q', tr')"
        using True False d ih(1) by (simp add: Let_def nr_def [symmetric])
      then show ?thesis
        using A B C ih(2-4,8-13) F(7-10,13,14) by (intro exI conjI) (assumption | simp add: k)+
    qed
  qed
qed

text \<open>
  C15.  \<open>req_update_pend\<close> spends the new and the saved credits on the pending requests in order:
  exactly the requests at the front that their sum covers are finished (reported once each, in
  queue order, and taken off the list), the next one waits for what it still lacks, the saved
  credit is what no request could use, and no credit is lost or invented: what the requests
  waited for before plus the credit left equals what they wait for after plus the credit given.
\<close>

theorem req_update_pend_in_order:
  assumes "distinct (dq_pend_list q)" "unat credit + unat (dq_credit q) < 2 ^ 32"
  shows "case req_update_pend credit q tr of (q', tr') \<Rightarrow>
    \<exists>k. k \<le> length (dq_pend_list q) \<and> dq_pend_list q' = drop k (dq_pend_list q)
      \<and> completions tr' = completions tr @ take k (dq_pend_list q)
      \<and> spend_credit (unat credit + unat (dq_credit q)) (map (pend_nr q) (dq_pend_list q))
          = (k, map (pend_nr q') (dq_pend_list q'), unat (dq_credit q'))
      \<and> sum_list (map (pend_nr q) (dq_pend_list q)) + unat (dq_credit q')
          = sum_list (map (pend_nr q') (dq_pend_list q')) + (unat credit + unat (dq_credit q))
      \<and> (dq_pend_list q' \<noteq> [] \<longrightarrow> dq_credit q' = 0)
      \<and> dq_avail q' = dq_avail q \<and> dq_pidx q' = dq_pidx q \<and> dq_cidx q' = dq_cidx q"
proof -
  let ?rs = "dq_pend_list q"
  have c: "unat (credit + dq_credit q) = unat credit + unat (dq_credit q)"
    using assms(2) by (rule unat_add_no_overflow)
  obtain k rest left where s: "spend_credit (unat (credit + dq_credit q)) (map (pend_nr q) ?rs) = (k, rest, left)"
    by (metis prod_cases3)
  note cons = spend_credit_conserves [OF s]
  obtain q' tr' credit' where u: "update_pend_loop ?rs (credit + dq_credit q) q tr = (credit', q', tr')"
    "unat credit' = left" "dq_pend_list q' = drop k ?rs" "map (pend_nr q') (drop k ?rs) = rest"
    "completions tr' = completions tr @ take k ?rs"
    "dq_pidx q' = dq_pidx q" "dq_cidx q' = dq_cidx q" "dq_avail q' = dq_avail q"
    using update_pend_loop_spends [OF refl assms(1) s, of tr] by blast
  have nr: "pend_nr (q'\<lparr>dq_credit := credit'\<rparr>) = pend_nr q'" by (simp add: pend_nr_def fun_eq_iff)
  have "drop k ?rs \<noteq> [] \<longrightarrow> credit' = 0"
    using cons u(2,4) by (metis length_0_conv length_map unat_eq_zero)
  then show ?thesis
    using cons u s by (auto simp: req_update_pend_def Let_def nr c intro!: exI [of _ k])
qed

theorem req_update_pend_in_order_witness:
  "case req_update_pend 5 (sample_mm_queue\<lparr>dq_pend_list := [1, 2],
      dq_reqs := (\<lambda>r. sample_request\<lparr>cb_desc_nr := 3, cb_offset := 300\<rparr>)\<rparr>) [] of (q', tr') \<Rightarrow>
    dq_pend_list q' = [2] \<and> completions tr' = [1]"
proof -
  let ?q = "sample_mm_queue\<lparr>dq_pend_list := [1, 2],
      dq_reqs := (\<lambda>r. sample_request\<lparr>cb_desc_nr := 3, cb_offset := 300\<rparr>)\<rparr>"
  have "distinct (dq_pend_list ?q)" "unat (5 :: u32) + unat (dq_credit ?q) < 2 ^ 32" "dq_credit ?q = 0"
    by (simp_all add: sample_mm_queue_def zero_descq_def)
  from req_update_pend_in_order [OF this(1,2), of "[]"] this(3) show ?thesis
    by (auto simp: pend_nr_def)
qed

section \<open>The device's progress\<close>

lemma req_update_pend_frame:
  assumes "req_update_pend credit q tr = (q', tr')"
  shows "dq_conf q' = dq_conf q" "dq_pidx q' = dq_pidx q" "dq_cidx q' = dq_cidx q" "dq_avail q' = dq_avail q"
    "writes_of tr' = writes_of tr"
proof -
  have loop: "dq_conf q' = dq_conf q \<and> dq_pidx q' = dq_pidx q \<and> dq_cidx q' = dq_cidx q
      \<and> dq_avail q' = dq_avail q \<and> writes_of tr' = writes_of tr"
    if "update_pend_loop rs credit q tr = (c', q', tr')" for rs credit q tr c' q' tr'
    using that
  proof (induction rs arbitrary: credit q tr)
    case (Cons r rs)
    obtain q1 tr1 where d: "qdma_sgt_req_done r 0 q tr = (q1, tr1)" by fastforce
    note F = sgt_req_done_facts(7-10,14) [OF d]
    show ?case
    proof (cases "cb_desc_nr (dq_reqs q r) \<le> credit")
      case True
      show ?thesis
      proof (cases "credit - cb_desc_nr (dq_reqs q r) = 0")
        case True': True
        then show ?thesis using Cons.prems True d F by (simp add: Let_def)
      next
        case False
        then show ?thesis using Cons.prems True d F Cons.IH by (simp add: Let_def)
      qed
    next
      case False
      then show ?thesis using Cons.prems by (auto simp: Let_def upd_req_def)
    qed
  qed simp
  show "dq_conf q' = dq_conf q" "dq_pidx q' = dq_pidx q" "dq_cidx q' = dq_cidx q" "dq_avail q' = dq_avail q"
    "writes_of tr' = writes_of tr"
    using assms loop by (auto simp: req_update_pend_def Let_def split: prod.splits)
qed

text \<open>The consumer index that the device reports lies between the old one and the producer.\<close>

definition wb_in_flight :: "qdma_descq \<Rightarrow> u32 \<Rightarrow> bool" where
  "wb_in_flight q c \<longleftrightarrow> c < qc_rngsz (dq_conf q) \<and>
     unat (ring_idx_delta c (dq_cidx q) (qc_rngsz (dq_conf q)))
       \<le> unat (ring_idx_delta (dq_pidx q) (dq_cidx q) (qc_rngsz (dq_conf q)))"

lemma descq_wb_credit_delta:
  assumes "ring_inv q" "c < qc_rngsz (dq_conf q)"
  shows "descq_wb_credit c q = (ring_idx_delta c (dq_cidx q) (qc_rngsz (dq_conf q)),
     q\<lparr>dq_cidx := c, dq_avail := dq_avail q + ring_idx_delta c (dq_cidx q) (qc_rngsz (dq_conf q))\<rparr>)"
proof (cases "c = dq_cidx q")
  case True
  then show ?thesis by (simp add: descq_wb_credit_def ring_idx_delta_def)
next
  case False
  then show ?thesis by (auto simp: descq_wb_credit_def ring_idx_delta_def Let_def add.commute)
qed

lemma ring_inv_consume:
  assumes "ring_inv q" "wb_in_flight q c"
  defines "d \<equiv> ring_idx_delta c (dq_cidx q) (qc_rngsz (dq_conf q))"
  assumes "dq_conf q' = dq_conf q" "dq_pidx q' = dq_pidx q" "dq_cidx q' = c" "dq_avail q' = dq_avail q + d"
  shows "ring_inv q'" "unat (dq_avail q') = unat (dq_avail q) + unat d"
proof -
  let ?N = "qc_rngsz (dq_conf q)"
  let ?o = "unat (ring_idx_delta (dq_pidx q) (dq_cidx q) ?N)"
  have inv: "unat ?N \<le> 2 ^ 31" "unat (dq_pidx q) < unat ?N" "unat (dq_cidx q) < unat ?N"
    "unat (dq_avail q) + ?o + 1 = unat ?N" "unat c < unat ?N" "unat d \<le> ?o"
    using assms(1,2) by (simp_all add: ring_inv_def wb_in_flight_def unat_less_iff d_def)
  have a: "unat (dq_avail q + d) = unat (dq_avail q) + unat d"
    using inv by (intro unat_add_no_overflow) simp
  then show "unat (dq_avail q') = unat (dq_avail q) + unat d" by (simp add: assms)
  have "unat (ring_idx_delta (dq_pidx q) c ?N) = ?o - unat d"
    using ring.delta_consume [of "dq_pidx q" ?N "dq_cidx q" c] inv by (simp add: d_def)
  then show "ring_inv q'"
    using inv a by (simp add: ring_inv_def assms unat_less_iff)
qed

text \<open>
  C16.  Handling the device's writeback of a memory-mapped or H2C queue
  (\<open>descq_mm_n_h2c_wb\<close>), for a consumer index inside the outstanding part of the ring: the
  queue takes over the index, exactly the descriptors passed over become free, the ring
  invariant is kept, and (when there is anything new) the producer doorbell is rung once more.
\<close>

theorem wb_frees_consumed:
  assumes "ring_inv q" "wb_in_flight q (ucast (dq_desc_wb_cidx q))"
  shows "case descq_mm_n_h2c_wb b q tr of (rv, q', tr') \<Rightarrow>
      rv = 0 \<and> ring_inv q' \<and> dq_cidx q' = ucast (dq_desc_wb_cidx q) \<and> dq_pidx q' = dq_pidx q
    \<and> unat (dq_avail q') = unat (dq_avail q)
        + unat (ring_idx_delta (ucast (dq_desc_wb_cidx q)) (dq_cidx q) (qc_rngsz (dq_conf q)))
    \<and> writes_of tr' = writes_of tr @
        (if ucast (dq_desc_wb_cidx q) = dq_cidx q then []
         else [(pidx_doorbell b (dq_conf q), dq_pidx q OR push_bit 16 (flag (qc_irq_en (dq_conf q))))])"
proof -
  define c where "c = (ucast (dq_desc_wb_cidx q) :: u32)"
  let ?N = "qc_rngsz (dq_conf q)"
  have lt: "c < ?N" using assms(2) by (simp add: wb_in_flight_def c_def)
  show ?thesis
  proof (cases "c = dq_cidx q")
    case True
    then show ?thesis
      using assms(1) by (auto simp: descq_mm_n_h2c_wb_def Let_def ring_idx_delta_def simp flip: c_def)
  next
    case False
    define d where "d = ring_idx_delta c (dq_cidx q) ?N"
    define q1 where "q1 = q\<lparr>dq_cidx := c, dq_avail := dq_avail q + d\<rparr>"
    have cr: "descq_wb_credit c q = (d, q1)"
      using descq_wb_credit_delta [OF assms(1) lt] by (simp add: d_def q1_def)
    have inv: "unat ?N \<le> 2 ^ 31" "unat (dq_pidx q) < unat ?N" "unat (dq_cidx q) < unat ?N" "unat c < unat ?N"
      using assms(1) lt by (simp_all add: ring_inv_def unat_less_iff)
    have busy: "dq_pidx q \<noteq> dq_cidx q"
    proof
      assume eq: "dq_pidx q = dq_cidx q"
      then have "unat d = 0"
        using assms(2) ring.delta_self [of "dq_cidx q" ?N] inv by (simp add: wb_in_flight_def c_def d_def)
      then have "d = 0" by (simp add: unat_eq_zero)
      then have "c = dq_cidx q"
        using ring.incr_delta [of c ?N "dq_cidx q"] inv
        by (simp add: d_def ring_idx_incr_def word_le_nat_alt)
      with False show False by simp
    qed
    obtain q2 tr2 where u: "req_update_pend d q1 (if dq_work_list q1 \<noteq> [] \<and> dq_avail q1 \<noteq> 0
        then (case dq_wrkthp q1 of None \<Rightarrow> tr | Some t \<Rightarrow> Wakeup (WrkThread t) # tr) else tr) = (q2, tr2)"
      by fastforce
    note fr = req_update_pend_frame [OF u]
    have run: "descq_mm_n_h2c_wb b q tr = (0, q2, pidx_update b q2 tr2)"
      using busy False u by (simp add: descq_mm_n_h2c_wb_def Let_def cr flip: c_def)
    have w: "writes_of tr2 = writes_of tr"
      using fr(5) by (auto split: if_splits option.splits)
    have "ring_inv q2" "unat (dq_avail q2) = unat (dq_avail q) + unat d"
      using ring_inv_consume [OF assms(1), of c q2] assms(2) fr
      by (simp_all add: c_def [symmetric] q1_def flip: d_def)
    then show ?thesis
      unfolding run using fr w False
      by (simp add: q1_def trace_simps flip: c_def d_def)
  qed
qed

theorem wb_frees_consumed_witness:
  "case descq_mm_n_h2c_wb PF (sample_mm_queue\<lparr>dq_desc_wb_cidx := 6\<rparr>) [] of (rv, q', tr') \<Rightarrow>
    rv = 0 \<and> ring_inv q' \<and> dq_cidx q' = 6 \<and> unat (dq_avail q') = 6"
proof -
  let ?q = "sample_mm_queue\<lparr>dq_desc_wb_cidx := 6\<rparr>"
  have "ring_inv ?q" "wb_in_flight ?q (ucast (dq_desc_wb_cidx ?q))"
    by (simp_all add: sample_mm_queue_def ring_inv_def zero_queue_conf_def ring_idx_delta_def wb_in_flight_def)
  from wb_frees_consumed [OF this, where b = PF and tr = "[]"] show ?thesis
    by (auto simp: sample_mm_queue_def zero_queue_conf_def ring_idx_delta_def)
qed

section \<open>Interrupt vectors\<close>

lemma alloc_irq_loop_least:
  assumes "alloc_irq_loop cnts is mn idx = (m, i)" "mn = cnts ! idx" "\<forall>j \<in> set (idx # is). 0 \<le> cnts ! j"
  shows "m = cnts ! i \<and> i \<in> set (idx # is) \<and> (\<forall>j \<in> set (idx # is). cnts ! i \<le> cnts ! j)"
  using assms
proof (induction cnts "is" mn idx rule: alloc_irq_loop.induct)
  case (2 cnts j js mn idx)
  then show ?case by (auto simp: Let_def split: if_splits) fastforce+
qed simp

text \<open>
  Without interrupt aggregation \<open>desc_alloc_irq\<close> gives the queue a data vector that
  serves no more queues than any other data vector, and counts the queue on that vector only.
\<close>

theorem alloc_irq_least_loaded:
  assumes "xd_dvec_start_idx xdev < xd_num_vecs xdev" "xd_num_vecs xdev \<le> length (xd_intr_list_cnt xdev)"
    and "\<forall>j < xd_num_vecs xdev. 0 \<le> xd_intr_list_cnt xdev ! j" "\<not> xd_intr_coal_en xdev"
  shows "case desc_alloc_irq q xdev of (q', xdev') \<Rightarrow>
    let i = dq_intr_id q'; c = xd_intr_list_cnt xdev
    in xd_dvec_start_idx xdev \<le> i \<and> i < xd_num_vecs xdev
     \<and> (\<forall>j. xd_dvec_start_idx xdev \<le> j \<and> j < xd_num_vecs xdev \<longrightarrow> c ! i \<le> c ! j)
     \<and> xd_intr_list_cnt xdev' = c[i := c ! i + 1]"
proof -
  let ?s = "xd_dvec_start_idx xdev" and ?n = "xd_num_vecs xdev" and ?c = "xd_intr_list_cnt xdev"
  obtain m i where l: "alloc_irq_loop ?c [?s..<?n] (?c ! ?s) ?s = (m, i)" by fastforce
  have "i \<in> set (?s # [?s..<?n]) \<and> (\<forall>j \<in> set (?s # [?s..<?n]). ?c ! i \<le> ?c ! j)"
    using alloc_irq_loop_least [OF l refl] assms(1,3) by auto
  then show ?thesis
    using assms(1,4) l by (auto simp: desc_alloc_irq_def Let_def)
qed

theorem alloc_irq_least_loaded_witness:
  "case desc_alloc_irq zero_descq (sample_dev\<lparr>xd_num_vecs := 4, xd_dvec_start_idx := 1,
      xd_intr_list_cnt := [0, 3, 1, 2, 0, 0, 0, 0]\<rparr>) of (q', xdev') \<Rightarrow> 1 \<le> dq_intr_id q' \<and> dq_intr_id q' < 4"
proof -
  let ?x = "sample_dev\<lparr>xd_num_vecs := 4, xd_dvec_start_idx := 1, xd_intr_list_cnt := [0, 3, 1, 2, 0, 0, 0, 0]\<rparr>"
  have "\<forall>j < xd_num_vecs ?x. 0 \<le> xd_intr_list_cnt ?x ! j"
    by (simp add: numeral_eq_Suc All_less_Suc)
  from alloc_irq_least_loaded [OF _ _ this, of zero_descq] show ?thesis
    by (auto simp: sample_dev_def Let_def)
qed

section \<open>The completion doorbell\<close>

text \<open>
  The value written to the completion doorbell puts the counter threshold where the timer index
  belongs (\<open>V_WRB_CIDX_UPD_TIMER_IDX\<close> is used for both): the counter field stays that of the
  consumer index, and the timer field is the two or'ed.
\<close>

lemma wrb_cidx_value_counter:
  "wrb_cidx_value (zero_queue_conf\<lparr>qc_cmpl_cnt_th_idx := 5, qc_cmpl_timer_idx := 2\<rparr>) 0 = 0x700000"
  by (simp add: wrb_cidx_value_def zero_queue_conf_def)

section \<open>What posting a streaming H2C request does\<close>

text \<open>The pieces of at most a page; an empty entry still takes one descriptor.\<close>

function page_pieces :: "u64 \<Rightarrow> u32 \<Rightarrow> (u64 \<times> u32) list" where
  "page_pieces addr tlen =
     (let len = min tlen PAGE_SIZE
      in (addr, len) # (if tlen - len \<noteq> 0 then page_pieces (addr + ucast len) (tlen - len) else []))"
  by pat_completeness auto
termination
proof (relation "measure (\<lambda>(addr, tlen). unat tlen)", goal_cases)
  case (2 addr tlen len)
  then show ?case using min_piece_less [of tlen PAGE_SIZE] by (cases "tlen = 0") (auto simp: PAGE_SIZE_def)
qed simp

declare page_pieces.simps [simp del]

type_synonym h2c_piece = "(u64 \<times> u32) \<times> bool"

fun h2c_pieces :: "nat \<Rightarrow> nat \<Rightarrow> qdma_sw_sg list \<Rightarrow> h2c_piece list" where
  "h2c_pieces sg_max i [] = []"
| "h2c_pieces sg_max i (sg # sgs) =
     map (\<lambda>p. (p, Suc i = sg_max)) (page_pieces (sg_dma_addr sg) (sg_len sg)) @ h2c_pieces sg_max (Suc i) sgs"

definition h2c_post_all :: "build \<Rightarrow> qdma_descq \<Rightarrow> h2c_piece list \<Rightarrow> h2c_loop \<Rightarrow> h2c_loop" where
  "h2c_post_all b q ps = fold (\<lambda>((a, l), e). h2c_post b q a l e) ps"

lemma h2c_post_all_simps [simp]:
  "h2c_post_all b q [] s = s"
  "h2c_post_all b q (((a, l), e) # ps) s = h2c_post_all b q ps (h2c_post b q a l e s)"
  "h2c_post_all b q (ps @ qs) s = h2c_post_all b q qs (h2c_post_all b q ps s)"
  by (simp_all add: h2c_post_all_def)

lemma h2c_post_all_cnt: "hl_desc_cnt (h2c_post_all b q ps s) = hl_desc_cnt s + of_nat (length ps)"
  by (induction ps arbitrary: s) (auto simp: h2c_post_def Let_def)

lemma h2c_post_all_data: "hl_data_cnt (h2c_post_all b q ps s) = hl_data_cnt s + sum_list (map (snd \<circ> fst) ps)"
  by (induction ps arbitrary: s) (auto simp: h2c_post_def Let_def)

lemma h2c_entry_loop_pieces:
  assumes "hl_desc_cnt s < desc_max"
  shows "h2c_entry_loop b q desc_max e addr tlen s
    = h2c_post_all b q (take (unat desc_max - unat (hl_desc_cnt s)) (map (\<lambda>p. (p, e)) (page_pieces addr tlen))) s"
  using assms
proof (induction b q desc_max e addr tlen s rule: h2c_entry_loop.induct)
  case (1 b q desc_max e addr tlen s)
  define len where "len = min tlen PAGE_SIZE"
  define s1 where "s1 = h2c_post b q addr len e s"
  have cnt: "unat (hl_desc_cnt s1) = unat (hl_desc_cnt s) + 1"
    using "1.prems" unat_u32_less [of desc_max]
    by (simp add: s1_def h2c_post_def Let_def unat_add_no_overflow unat_less_iff)
  have pieces: "page_pieces addr tlen
      = (addr, len) # (if tlen - len \<noteq> 0 then page_pieces (addr + ucast len) (tlen - len) else [])"
    by (subst page_pieces.simps) (simp add: Let_def len_def)
  obtain m where m: "unat desc_max - unat (hl_desc_cnt s) = Suc m"
    using "1.prems" by (metis Suc_diff_Suc unat_less_iff)
  have unf: "h2c_entry_loop b q desc_max e addr tlen s =
      (if hl_desc_cnt s1 = desc_max then s1
       else if tlen - len \<noteq> 0 then h2c_entry_loop b q desc_max e (addr + ucast len) (tlen - len) s1 else s1)"
    by (subst h2c_entry_loop.simps) (simp add: Let_def len_def s1_def)
  show ?case
  proof (cases "hl_desc_cnt s1 = desc_max")
    case True
    then have "m = 0" using m cnt by simp
    then show ?thesis unfolding unf pieces m using True by (simp add: s1_def)
  next
    case neq: False
    show ?thesis
    proof (cases "tlen - len = 0")
      case True
      then show ?thesis unfolding unf pieces m using neq by (simp add: s1_def)
    next
      case False
      have less: "hl_desc_cnt s1 < desc_max"
        using "1.prems" cnt neq by (simp add: unat_less_iff word_unat_eq_iff)
      have "h2c_entry_loop b q desc_max e (addr + ucast len) (tlen - len) s1
        = h2c_post_all b q (take (unat desc_max - unat (hl_desc_cnt s1))
            (map (\<lambda>p. (p, e)) (page_pieces (addr + ucast len) (tlen - len)))) s1"
        using "1.IH" [OF len_def s1_def refl neq False less] .
      moreover have "unat desc_max - unat (hl_desc_cnt s1) = m" using m cnt by simp
      ultimately show ?thesis unfolding unf pieces m using neq False by (simp add: s1_def)
    qed
  qed
qed

lemma h2c_sgl_loop_pieces:
  assumes "hl_desc_cnt s \<le> desc_max"
  shows "h2c_sgl_loop b q desc_max sg_max sgs i off s
    = h2c_post_all b q (take (unat desc_max - unat (hl_desc_cnt s)) (h2c_pieces sg_max i sgs)) s"
  using assms
proof (induction sgs arbitrary: i off s)
  case (Cons sg sgs)
  define ps where "ps = map (\<lambda>p. (p, Suc i = sg_max)) (page_pieces (sg_dma_addr sg) (sg_len sg))"
  define n where "n = unat desc_max - unat (hl_desc_cnt s)"
  show ?case
  proof (cases "hl_desc_cnt s < desc_max")
    case False
    then have "n = 0" using Cons.prems by (simp add: n_def word_le_nat_alt unat_less_iff)
    with False show ?thesis by (simp add: n_def)
  next
    case True
    define s1 where "s1 = h2c_entry_loop b q desc_max (Suc i = sg_max) (sg_dma_addr sg) (sg_len sg) s"
    have s1: "s1 = h2c_post_all b q (take n ps) s"
      using h2c_entry_loop_pieces [OF True] by (simp add: s1_def n_def ps_def)
    have "length (take n ps) \<le> unat desc_max" by (simp add: n_def)
    then have "unat (of_nat (length (take n ps)) :: u32) = length (take n ps)"
      using unat_u32_less [of desc_max] by (intro unat_of_nat_u32) linarith
    moreover have "unat (hl_desc_cnt s) + length (take n ps) < 2 ^ 32"
      using Cons.prems unat_u32_less [of desc_max] by (simp add: n_def word_le_nat_alt)
    ultimately have cnt: "unat (hl_desc_cnt s1) = unat (hl_desc_cnt s) + length (take n ps)"
      unfolding s1 h2c_post_all_cnt by (subst unat_add_no_overflow) simp_all
    then have le: "hl_desc_cnt s1 \<le> desc_max"
      using Cons.prems by (simp add: n_def word_le_nat_alt)
    have off: "h2c_sgl_loop b q desc_max sg_max (sg # sgs) i off s
        = h2c_sgl_loop b q desc_max sg_max sgs (Suc i) 0 s1"
      using True by (simp add: s1_def Let_def)
    have "unat desc_max - unat (hl_desc_cnt s1) = n - length ps"
      using cnt by (simp add: n_def min_def)
    then show ?thesis
      unfolding off Cons.IH [OF le] by (simp add: s1 n_def [symmetric] ps_def [symmetric])
  qed
qed simp

text \<open>The slot of a piece; its flag words keep the bits the slot had.\<close>

definition h2c_fill :: "h2c_piece \<Rightarrow> qdma_h2c_desc \<Rightarrow> qdma_h2c_desc" where
  "h2c_fill p d =
     (case p of ((a, l), e) \<Rightarrow>
        \<lparr>h2c_cdh_flags = h2c_cdh_flags d OR 13, h2c_pld_len = ucast l, h2c_len = ucast l,
         h2c_flags = (if e then h2c_flags d OR 2 else h2c_flags d), h2c_src_addr = a\<rparr>)"

lemma h2c_post_all_ring:
  assumes "length ps \<le> unat N" "hl_pidx s < N" "unat N \<le> 2 ^ 31" "length (hl_ring s) = unat N"
    and "N = qc_rngsz (dq_conf q)"
  shows "unat (hl_pidx (h2c_post_all b q ps s)) = ring_slot N (hl_pidx s) (length ps)
    \<and> length (hl_ring (h2c_post_all b q ps s)) = unat N
    \<and> (\<forall>k < length ps. hl_ring (h2c_post_all b q ps s) ! ring_slot N (hl_pidx s) k
          = h2c_fill (ps ! k) (hl_ring s ! ring_slot N (hl_pidx s) k))
    \<and> (\<forall>j. (\<forall>k < length ps. ring_slot N (hl_pidx s) k \<noteq> j) \<longrightarrow> hl_ring (h2c_post_all b q ps s) ! j = hl_ring s ! j)"
  using assms
proof (induction ps arbitrary: s)
  case Nil
  then show ?case by (simp add: ring_slot_def unat_less_iff)
next
  case (Cons p ps)
  obtain a l e where p: "p = ((a, l), e)" by (metis surj_pair)
  define s1 where "s1 = h2c_post b q a l e s"
  have first: "unat (hl_pidx s) = ring_slot N (hl_pidx s) 0" "unat (hl_pidx s) < unat N"
    using Cons.prems(2) by (simp_all add: ring_slot_def unat_less_iff)
  have s1: "hl_pidx s1 = ring_next (hl_pidx s) N"
    "hl_ring s1 = (hl_ring s)[ring_slot N (hl_pidx s) 0 := h2c_fill p (hl_ring s ! ring_slot N (hl_pidx s) 0)]"
    unfolding first(1) [symmetric]
    by (cases "hl_ring s ! unat (hl_pidx s)"; simp add: s1_def h2c_post_def h2c_fill_def Let_def p Cons.prems(5))+
  have lt: "hl_pidx s1 < N" using ring_next_props(1) Cons.prems(2,3) by (simp add: s1)
  have slot: "ring_slot N (hl_pidx s1) k = ring_slot N (hl_pidx s) (Suc k)" for k
    unfolding s1 using Cons.prems(2,3) by (rule ring_slot_next)
  have ih: "unat (hl_pidx (h2c_post_all b q ps s1)) = ring_slot N (hl_pidx s1) (length ps)
    \<and> length (hl_ring (h2c_post_all b q ps s1)) = unat N
    \<and> (\<forall>k < length ps. hl_ring (h2c_post_all b q ps s1) ! ring_slot N (hl_pidx s1) k
          = h2c_fill (ps ! k) (hl_ring s1 ! ring_slot N (hl_pidx s1) k))
    \<and> (\<forall>j. (\<forall>k < length ps. ring_slot N (hl_pidx s1) k \<noteq> j) \<longrightarrow> hl_ring (h2c_post_all b q ps s1) ! j = hl_ring s1 ! j)"
    using Cons.prems lt by (intro Cons.IH) (simp_all add: s1)
  have ne: "ring_slot N (hl_pidx s) (Suc k) \<noteq> ring_slot N (hl_pidx s) 0" if "k < length ps" for k
    using ring_slot_inject [of "Suc k" N 0 "hl_pidx s"] that Cons.prems(1) by simp
  have run: "h2c_post_all b q (p # ps) s = h2c_post_all b q ps s1" by (simp add: p s1_def)
  have at: "hl_ring (h2c_post_all b q ps s1) ! ring_slot N (hl_pidx s) k
      = h2c_fill ((p # ps) ! k) (hl_ring s ! ring_slot N (hl_pidx s) k)" if "k < length (p # ps)" for k
  proof (cases k)
    case 0
    have "\<forall>k < length ps. ring_slot N (hl_pidx s1) k \<noteq> ring_slot N (hl_pidx s) 0"
      using ne by (simp add: slot)
    then show ?thesis using ih first Cons.prems(4) 0 by (simp add: s1(2))
  next
    case (Suc j)
    then show ?thesis using ih that ne [of j] by (simp add: slot s1(2))
  qed
  have other: "hl_ring (h2c_post_all b q ps s1) ! j = hl_ring s ! j"
    if "\<forall>k < length (p # ps). ring_slot N (hl_pidx s) k \<noteq> j" for j
  proof -
    have "ring_slot N (hl_pidx s) 0 \<noteq> j" using that by simp
    moreover have "\<forall>k < length ps. ring_slot N (hl_pidx s1) k \<noteq> j" using that by (auto simp: slot)
    ultimately show ?thesis using ih by (simp add: s1(2))
  qed
  show ?case unfolding run using ih at other by (simp add: slot)
qed

lemma h2c_post_all_writes:
  "writes_of (hl_trace (h2c_post_all b q ps s)) = writes_of (hl_trace s) @
     map (\<lambda>k. (QDMA_REG_H2C_PIDX_BASE b + 0x10 * ucast (qc_qidx (dq_conf q)),
               hl_pidx (h2c_post_all b q (take (Suc k) ps) s) OR push_bit 16 (flag (qc_irq_en (dq_conf q)))))
       [0..<length ps]"
proof (induction ps rule: rev_induct)
  case (snoc p ps)
  obtain a l e where p: "p = ((a, l), e)" by (metis surj_pair)
  have "writes_of (hl_trace (h2c_post_all b q (ps @ [p]) s)) = writes_of (hl_trace (h2c_post_all b q ps s)) @
      [(QDMA_REG_H2C_PIDX_BASE b + 0x10 * ucast (qc_qidx (dq_conf q)),
        hl_pidx (h2c_post_all b q (ps @ [p]) s) OR push_bit 16 (flag (qc_irq_en (dq_conf q))))]"
    by (simp add: p h2c_post_def Let_def descq_h2c_pidx_update_def trace_simps QDMA_REG_PIDX_STEP_def mult.commute)
  then show ?case using snoc by (simp del: h2c_post_all_simps)
qed simp

definition h2c_cut :: "qdma_descq \<Rightarrow> qdma_request \<Rightarrow> h2c_piece list" where
  "h2c_cut q req = take (unat (dq_avail q)) (h2c_pieces (unat (rq_sgcnt req)) 0 (take (unat (rq_sgcnt req)) (rq_sgl req)))"

text \<open>
  C28.  \<open>descq_proc_st_h2c_request\<close> on a fresh request posts the scatter-gather list in pieces of
  at most a page, as many as there are free descriptors, into consecutive slots from the
  producer index on: each slot gets the piece's address and length and the fixed header flags,
  the first the start-of-packet bit and those of the last entry the end-of-packet bit, added to
  the flag bits that the slot already had; other slots are left alone, the producer index, the
  free descriptors and the request advance by what was posted, the ring invariant is kept, and
  the H2C doorbell is rung once per descriptor.
\<close>

theorem h2c_proc_request_posts:
  assumes "ring_inv q" "dq_avail q \<noteq> 0" "dq_desc q = H2cDesc ring"
    and "length ring = unat (qc_rngsz (dq_conf q))" "cb_offset (dq_reqs q r) = 0"
  shows "case descq_proc_st_h2c_request b r q tr of (rv, q', tr') \<Rightarrow>
    let ps = h2c_cut q (dq_reqs q r); n = length ps;
        slot = ring_slot (qc_rngsz (dq_conf q)) (dq_pidx q);
        old = or_h2c_flags (dq_pidx q) 1 ring
    in rv = 0 \<and> ring_inv q' \<and> unat (dq_avail q') = unat (dq_avail q) - n
      \<and> unat (dq_pidx q') = slot n
      \<and> (\<forall>k < n. h2c_ring (dq_desc q') ! slot k = h2c_fill (ps ! k) (old ! slot k))
      \<and> (\<forall>j. (\<forall>k < n. slot k \<noteq> j) \<longrightarrow> h2c_ring (dq_desc q') ! j = old ! j)
      \<and> cb_desc_nr (dq_reqs q' r) = cb_desc_nr (dq_reqs q r) + of_nat n
      \<and> cb_offset (dq_reqs q' r) = sum_list (map (snd \<circ> fst) ps)
      \<and> length (writes_of tr') = length (writes_of tr) + n"
proof -
  define req where "req = dq_reqs q r"
  define ps where "ps = h2c_cut q req"
  define N where "N = qc_rngsz (dq_conf q)"
  define old where "old = or_h2c_flags (dq_pidx q) 1 ring"
  define s0 where "s0 = \<lparr>hl_ring = old, hl_pidx = dq_pidx q, hl_data_cnt = 0, hl_desc_cnt = 0, hl_trace = tr\<rparr>"
  define s where "s = h2c_post_all b q ps s0"
  have res: "req_resume req = Some (0, 0)" by (simp add: req_resume_def req_def assms(5))
  have loop: "h2c_sgl_loop b q (dq_avail q) (unat (rq_sgcnt req)) (take (unat (rq_sgcnt req)) (rq_sgl req)) 0 0 s0 = s"
    using h2c_sgl_loop_pieces [of s0 "dq_avail q"] by (simp add: s_def ps_def h2c_cut_def s0_def)
  have n: "length ps \<le> unat (dq_avail q)" by (simp add: ps_def h2c_cut_def)
  have N: "unat N \<le> 2 ^ 31" "dq_pidx q < N" "length old = unat N" "length ps \<le> unat N"
    using assms(1,4) n by (simp_all add: ring_inv_def N_def old_def or_h2c_flags_def)
  have ring: "unat (hl_pidx s) = ring_slot N (dq_pidx q) (length ps)"
    "\<forall>k < length ps. hl_ring s ! ring_slot N (dq_pidx q) k = h2c_fill (ps ! k) (old ! ring_slot N (dq_pidx q) k)"
    "\<forall>j. (\<forall>k < length ps. ring_slot N (dq_pidx q) k \<noteq> j) \<longrightarrow> hl_ring s ! j = old ! j"
    using h2c_post_all_ring [of ps N s0 q b] N by (simp_all add: s0_def s_def N_def)
  have c: "hl_desc_cnt s = of_nat (length ps)" "hl_data_cnt s = sum_list (map (snd \<circ> fst) ps)"
    "length (writes_of (hl_trace s)) = length (writes_of tr) + length ps"
    by (simp_all add: s_def h2c_post_all_cnt h2c_post_all_data h2c_post_all_writes) (simp_all add: s0_def)
  define q' where "q' = advance_req r (length ps) (sum_list (map (snd \<circ> fst) ps))
      (q\<lparr>dq_desc := H2cDesc (hl_ring s), dq_pidx := hl_pidx s, dq_avail := dq_avail q - of_nat (length ps)\<rparr>)"
  have run: "descq_proc_st_h2c_request b r q tr = (0, q', wake_wb q' (hl_trace s))"
    unfolding descq_proc_st_h2c_request_def Let_def req_def [symmetric] res option.case prod.case
    using assms(2,3,5) loop
    by (simp add: s0_def old_def [symmetric] q'_def advance_req_def Let_def c req_def)
  have inv: "ring_inv q' \<and> unat (dq_avail q - of_nat (length ps)) = unat (dq_avail q) - length ps"
    using assms(1) n(1) ring(1) [unfolded N_def] refl by (rule ring_inv_advance) (simp_all add: q'_def)
  show ?thesis
    unfolding run Let_def prod.case req_def [symmetric] ps_def [symmetric] N_def [symmetric] old_def [symmetric]
    using inv ring c(3) assms(5)
    by (simp add: trace_simps) (simp add: q'_def advance_req_req req_def)
qed

definition sample_h2c_queue :: qdma_descq where
  "sample_h2c_queue = sample_mm_queue\<lparr>dq_desc := H2cDesc (replicate 8
     \<lparr>h2c_cdh_flags = 0, h2c_pld_len = 0, h2c_len = 0, h2c_flags = 0, h2c_src_addr = 0\<rparr>)\<rparr>"

theorem h2c_proc_request_posts_witness:
  "case descq_proc_st_h2c_request PF 9 sample_h2c_queue [] of (rv, q', tr') \<Rightarrow> rv = 0 \<and> ring_inv q'"
proof -
  have "ring_inv sample_h2c_queue" "dq_avail sample_h2c_queue \<noteq> 0"
    "dq_desc sample_h2c_queue = H2cDesc (replicate 8
       \<lparr>h2c_cdh_flags = 0, h2c_pld_len = 0, h2c_len = 0, h2c_flags = 0, h2c_src_addr = 0\<rparr>)"
    "length (replicate 8 (\<lparr>h2c_cdh_flags = 0, h2c_pld_len = 0, h2c_len = 0, h2c_flags = 0, h2c_src_addr = 0\<rparr>))
       = unat (qc_rngsz (dq_conf sample_h2c_queue))"
    "cb_offset (dq_reqs sample_h2c_queue 9) = 0"
    by (simp_all add: sample_h2c_queue_def sample_mm_queue_def ring_inv_def zero_queue_conf_def
        ring_idx_delta_def sample_request_def zero_request_def)
  from h2c_proc_request_posts [OF this, where b = PF and tr = "[]"] show ?thesis
    by (auto simp: Let_def)
qed

text \<open>
  A descriptor in the middle of a packet keeps the end-of-packet bit that an earlier use of its
  slot left there.
\<close>

lemma h2c_stale_flags:
  "bit (h2c_flags (h2c_fill ((a, l), False)
     \<lparr>h2c_cdh_flags = 13, h2c_pld_len = 1, h2c_len = 1, h2c_flags = 2, h2c_src_addr = 0\<rparr>)) 1"
  by (simp add: h2c_fill_def)

end
