(* ===== verification/Qdma_Flq.thy ===== *)
theory Qdma_Flq
  imports Qdma_Descq "HOL-Library.Multiset"
begin

unbundle bit_operations_syntax

text \<open>
  The free list of receive buffers of a streaming C2H queue (\<open>libqdma/qdma_st_c2h.c\<close>,
  default build): mapping pages into its slots, giving them back, refilling consumed slots.

  The free list's circular chain of \<open>next\<close> pointers is the list of its slots with the last
  slot followed by slot 0.
\<close>

section \<open>The receive buffers\<close>

text \<open>The slots, the descriptors the device reads, and the trace.\<close>

record flq_mem =
  fm_sdesc :: "qdma_sw_sg list"
  fm_desc :: "u64 list"
  fm_trace :: trace

definition flq_page_len :: "u8 \<Rightarrow> u32" where
  "flq_page_len pg_order = push_bit (unat pg_order) PAGE_SIZE"

definition flq_unmap_one :: "nat \<Rightarrow> flq_mem \<Rightarrow> flq_mem" where
  "flq_unmap_one i m =
     (let sdesc = fm_sdesc m ! i in
      if sg_dma_addr sdesc \<noteq> 0 then
        m\<lparr>fm_desc := (fm_desc m)[i := 0], fm_trace := PageUnmap (sg_dma_addr sdesc) # fm_trace m,
          fm_sdesc := (fm_sdesc m)[i := sdesc\<lparr>sg_dma_addr := 0\<rparr>]\<rparr>
      else m)"

definition flq_free_one :: "u8 \<Rightarrow> nat \<Rightarrow> flq_mem \<Rightarrow> flq_mem" where
  "flq_free_one pg_order i m =
     (if sg_pg (fm_sdesc m ! i) \<noteq> 0 then
        let m = flq_unmap_one i m;
            sdesc = fm_sdesc m ! i
        in m\<lparr>fm_trace := PageFree (sg_pg sdesc) pg_order # fm_trace m,
             fm_sdesc := (fm_sdesc m)[i := sdesc\<lparr>sg_pg := 0\<rparr>]\<rparr>
      else m)"

definition flq_fill_one :: "env \<Rightarrow> u8 \<Rightarrow> nat \<Rightarrow> flq_mem \<Rightarrow> int \<times> flq_mem" where
  "flq_fill_one E pg_order i m =
     (let p = env_page_alloc E (fm_trace m) pg_order;
          m = m\<lparr>fm_trace := PageAlloc pg_order p # fm_trace m\<rparr>
      in case p of
        None \<Rightarrow> (- ENOMEM, m)
      | Some pg \<Rightarrow>
          let mapping = env_page_map E (fm_trace m) pg;
              m = m\<lparr>fm_trace := PageMap pg mapping # fm_trace m\<rparr>
          in (case mapping of
               None \<Rightarrow> (- EINVAL, m\<lparr>fm_trace := PageFree pg pg_order # fm_trace m\<rparr>)
             | Some a \<Rightarrow>
                 (0, m\<lparr>fm_sdesc := (fm_sdesc m)[i := (fm_sdesc m ! i)\<lparr>sg_pg := pg, sg_dma_addr := a,
                          sg_len := flq_page_len pg_order, sg_offset := 0\<rparr>],
                       fm_desc := (fm_desc m)[i := a]\<rparr>)))"

fun c2h_ring :: "desc_ring \<Rightarrow> u64 list" where
  "c2h_ring (C2hDesc r) = r"
| "c2h_ring _ = []"

fun set_c2h_ring :: "u64 list \<Rightarrow> desc_ring \<Rightarrow> desc_ring" where
  "set_c2h_ring r (C2hDesc _) = C2hDesc r"
| "set_c2h_ring r d = d"

definition flq_mem_of :: "qdma_descq \<Rightarrow> trace \<Rightarrow> flq_mem" where
  "flq_mem_of descq tr =
     \<lparr>fm_sdesc = fl_sdesc (dq_flq descq), fm_desc = c2h_ring (dq_desc descq), fm_trace = tr\<rparr>"

definition put_flq_mem :: "flq_mem \<Rightarrow> qdma_descq \<Rightarrow> qdma_descq" where
  "put_flq_mem m descq =
     descq\<lparr>dq_flq := (dq_flq descq)\<lparr>fl_sdesc := fm_sdesc m\<rparr>,
           dq_desc := set_c2h_ring (fm_desc m) (dq_desc descq)\<rparr>"

text \<open>
  Freeing: nothing to walk when \<open>flq->sdesc\<close> is NULL.  The descriptors are the ones
  \<open>flq->desc\<close> points to; when the ring has been freed before, the model drops the writes.
\<close>

definition descq_flq_free_resource :: "qdma_descq \<Rightarrow> trace \<Rightarrow> qdma_descq \<times> trace" where
  "descq_flq_free_resource descq tr =
     (let flq = dq_flq descq;
          m = (if fl_sdesc flq = [] then flq_mem_of descq tr
               else fold (flq_free_one (fl_pg_order flq)) [0..<unat (fl_size flq)] (flq_mem_of descq tr));
          descq = put_flq_mem m descq;
          tr = (if fl_sdesc flq = [] then fm_trace m else Kfree # fm_trace m)
      in (descq\<lparr>dq_flq := zero_flq\<rparr>, tr))"

fun flq_fill_loop :: "env \<Rightarrow> u8 \<Rightarrow> nat list \<Rightarrow> flq_mem \<Rightarrow> int \<times> flq_mem" where
  "flq_fill_loop E pg_order [] m = (0, m)"
| "flq_fill_loop E pg_order (i # is) m =
     (let (rv, m) = flq_fill_one E pg_order i m
      in if rv < 0 then (rv, m) else flq_fill_loop E pg_order is m)"

definition zero_sg :: qdma_sw_sg where
  "zero_sg = \<lparr>sg_pg = 0, sg_offset = 0, sg_len = 0, sg_dma_addr = 0\<rparr>"

definition zero_sdesc_info :: qdma_sdesc_info where
  "zero_sdesc_info = \<lparr>sd_valid = False, sd_sop = False, sd_eop = False, sd_cidx = 0\<rparr>"

definition descq_flq_alloc_resource ::
  "env \<Rightarrow> qdma_descq \<Rightarrow> trace \<Rightarrow> int \<times> qdma_descq \<times> trace" where
  "descq_flq_alloc_resource E descq tr =
     (let flq = dq_flq descq;
          bytes = fl_size flq * 48;
          ok = env_kalloc E tr bytes;
          tr = Kalloc bytes ok # tr
      in if \<not> ok then (- ENOMEM, descq, tr)
      else
        let n = unat (fl_size flq);
            descq = descq\<lparr>dq_flq := flq\<lparr>fl_sdesc := replicate n zero_sg,
                                         fl_sdesc_info := replicate n zero_sdesc_info\<rparr>\<rparr>;
            (rv, m) = flq_fill_loop E (fl_pg_order flq) [0..<n] (flq_mem_of descq tr);
            descq = put_flq_mem m descq
        in if rv < 0 then
             let (descq, tr) = descq_flq_free_resource descq (fm_trace m) in (rv, descq, tr)
           else (0, descq\<lparr>dq_cidx_wrb_pend := 0\<rparr>, fm_trace m))"

section \<open>Refilling\<close>

definition upd_flq :: "(qdma_flq \<Rightarrow> qdma_flq) \<Rightarrow> qdma_descq \<Rightarrow> qdma_descq" where
  "upd_flq f descq = descq\<lparr>dq_flq := f (dq_flq descq)\<rparr>"

text \<open>One slot: its new contents, or \<open>False\<close> when no page could be put there.\<close>

definition flq_refill_slot ::
  "env \<Rightarrow> bool \<Rightarrow> nat \<Rightarrow> qdma_descq \<Rightarrow> trace \<Rightarrow> bool \<times> qdma_descq \<times> trace" where
  "flq_refill_slot E recycle idx descq tr =
     (let flq = dq_flq descq;
          order = fl_pg_order flq
      in if recycle then
           (True, upd_flq (\<lambda>f. f\<lparr>fl_sdesc := (fl_sdesc f)[idx := (fl_sdesc f ! idx)\<lparr>sg_len := flq_page_len order, sg_offset := 0\<rparr>]\<rparr>) descq, tr)
         else
           let m = flq_unmap_one idx (flq_mem_of descq tr);
               (rv, m) = flq_fill_one E order idx m;
               descq = put_flq_mem m descq
           in if rv < 0 then
                (False, upd_flq (\<lambda>f. if rv = - ENOMEM then f\<lparr>fl_alloc_fail := fl_alloc_fail f + 1\<rparr>
                                     else f\<lparr>fl_mapping_err := fl_mapping_err f + 1\<rparr>) descq, fm_trace m)
              else (True, descq, fm_trace m))"

fun flq_refill_loop ::
  "env \<Rightarrow> bool \<Rightarrow> nat \<Rightarrow> nat \<Rightarrow> nat \<Rightarrow> qdma_descq \<Rightarrow> trace \<Rightarrow> nat \<times> qdma_descq \<times> trace" where
  "flq_refill_loop E recycle 0 i idx descq tr = (i, descq, tr)"
| "flq_refill_loop E recycle (Suc n) i idx descq tr =
     (let idx = (if idx = unat (fl_size (dq_flq descq)) then 0 else idx);
          (ok, descq, tr) = flq_refill_slot E recycle idx descq tr
      in if \<not> ok then (i, descq, tr)
      else
        let descq = upd_flq (\<lambda>f. f\<lparr>fl_sdesc_info := (fl_sdesc_info f)[idx := (fl_sdesc_info f ! idx)\<lparr>sd_valid := False, sd_sop := False, sd_eop := False\<rparr>]\<rparr>) descq;
            descq = descq\<lparr>dq_avail := dq_avail descq + 1\<rparr>
        in flq_refill_loop E recycle n (Suc i) (Suc idx) descq tr)"

definition qdma_flq_refill ::
  "env \<Rightarrow> qdma_descq \<Rightarrow> u32 \<Rightarrow> u32 \<Rightarrow> bool \<Rightarrow> trace \<Rightarrow> nat \<times> qdma_descq \<times> trace" where
  "qdma_flq_refill E descq idx cnt recycle tr =
     flq_refill_loop E recycle (unat cnt) 0 (unat idx) descq tr"

definition next_sdesc :: "qdma_flq \<Rightarrow> nat \<Rightarrow> nat" where
  "next_sdesc flq k = (if Suc k = unat (fl_size flq) then 0 else Suc k)"

text \<open>Recycling buffers leaves the trace alone.\<close>

lemma refill_recycle_trace: "snd (snd (flq_refill_loop E True n i idx q tr)) = tr"
  by (induction n arbitrary: i idx q) (simp_all add: Let_def flq_refill_slot_def)

section \<open>What the operations leave alone\<close>

text \<open>The free list operations only touch the free list, the ring and the count of free entries.\<close>

definition outside_flq :: "qdma_descq \<Rightarrow> qdma_descq" where
  "outside_flq q = q\<lparr>dq_flq := zero_flq, dq_desc := NoDesc, dq_avail := 0\<rparr>"

named_theorems flq_frame

lemma outside_upd_flq [flq_frame]: "outside_flq (upd_flq f q) = outside_flq q"
  by (simp add: outside_flq_def upd_flq_def)

lemma outside_put_flq_mem [flq_frame]: "outside_flq (put_flq_mem m q) = outside_flq q"
  by (simp add: outside_flq_def put_flq_mem_def)

lemma outside_avail [flq_frame]: "outside_flq (q\<lparr>dq_avail := a\<rparr>) = outside_flq q"
  by (simp add: outside_flq_def)

lemma outside_refill_slot [flq_frame]:
  "outside_flq (fst (snd (flq_refill_slot E recycle idx q tr))) = outside_flq q"
  by (simp add: flq_refill_slot_def Let_def split_beta flq_frame)

lemma outside_refill_loop [flq_frame]:
  "outside_flq (fst (snd (flq_refill_loop E recycle n i idx q tr))) = outside_flq q"
proof (induction n arbitrary: i idx q tr)
  case (Suc n)
  then show ?case by (simp add: Let_def split_beta flq_frame)
qed simp

lemma outside_flq_fields:
  assumes "outside_flq q' = outside_flq q"
  shows "dq_reqs q' = dq_reqs q" "dq_conf q' = dq_conf q" "dq_pidx q' = dq_pidx q"
    "dq_color q' = dq_color q" "dq_cidx_wrb q' = dq_cidx_wrb q" "dq_desc_wrb q' = dq_desc_wrb q"
    "dq_desc_wrb_cur q' = dq_desc_wrb_cur q" "dq_err q' = dq_err q"
    "dq_cidx_wrb_pend q' = dq_cidx_wrb_pend q" "dq_pend_list q' = dq_pend_list q"
    "dq_work_list q' = dq_work_list q"
  using arg_cong [OF assms, of dq_reqs] arg_cong [OF assms, of dq_conf]
    arg_cong [OF assms, of dq_pidx] arg_cong [OF assms, of dq_color]
    arg_cong [OF assms, of dq_cidx_wrb] arg_cong [OF assms, of dq_desc_wrb]
    arg_cong [OF assms, of dq_desc_wrb_cur] arg_cong [OF assms, of dq_err]
    arg_cong [OF assms, of dq_cidx_wrb_pend] arg_cong [OF assms, of dq_pend_list]
    arg_cong [OF assms, of dq_work_list]
  by (simp_all add: outside_flq_def)

section \<open>Pages and mappings are not lost\<close>

text \<open>What has been taken from the kernel and given back: pages, and mappings by address.\<close>

fun taken :: "trace \<Rightarrow> (nat + u64) multiset" where
  "taken [] = {#}"
| "taken (PageAlloc _ (Some p) # tr) = add_mset (Inl p) (taken tr)"
| "taken (PageMap _ (Some a) # tr) = add_mset (Inr a) (taken tr)"
| "taken (_ # tr) = taken tr"

fun given_back :: "trace \<Rightarrow> (nat + u64) multiset" where
  "given_back [] = {#}"
| "given_back (PageFree p _ # tr) = add_mset (Inl p) (given_back tr)"
| "given_back (PageUnmap a # tr) = add_mset (Inr a) (given_back tr)"
| "given_back (_ # tr) = given_back tr"

definition slot_holds :: "qdma_sw_sg \<Rightarrow> (nat + u64) multiset" where
  "slot_holds sd = (if sg_pg sd \<noteq> 0 then {#Inl (sg_pg sd)#} else {#})
     + (if sg_dma_addr sd \<noteq> 0 then {#Inr (sg_dma_addr sd)#} else {#})"

definition held :: "qdma_sw_sg list \<Rightarrow> (nat + u64) multiset" where
  "held sds = sum_list (map slot_holds sds)"

lemma held_update:
  "i < length sds \<Longrightarrow> held (sds[i := sd]) + slot_holds (sds ! i) = held sds + slot_holds sd"
proof (induction sds arbitrary: i)
  case (Cons s sds)
  then show ?case by (cases i) (auto simp: held_def ac_simps)
qed simp

text \<open>The books balance: what was taken is held in the slots or was given back.\<close>

definition books :: "(nat + u64) multiset \<Rightarrow> (nat + u64) multiset \<Rightarrow> flq_mem \<Rightarrow> bool" where
  "books A B m \<longleftrightarrow> taken (fm_trace m) + B = given_back (fm_trace m) + held (fm_sdesc m) + A"

definition env_nonnull :: "env \<Rightarrow> bool" where
  "env_nonnull E \<longleftrightarrow> (\<forall>tr ord p. env_page_alloc E tr ord = Some p \<longrightarrow> p \<noteq> 0)
     \<and> (\<forall>tr p a. env_page_map E tr p = Some a \<longrightarrow> a \<noteq> 0)"

lemma env_nonnullD:
  assumes "env_nonnull E"
  shows "env_page_alloc E tr ord = Some p \<Longrightarrow> p \<noteq> 0" "env_page_map E tr p = Some a \<Longrightarrow> a \<noteq> 0"
  using assms by (auto simp: env_nonnull_def)

text \<open>A slot as \<open>flq_fill_one\<close> leaves it.\<close>

definition full_slot :: "u8 \<Rightarrow> flq_mem \<Rightarrow> nat \<Rightarrow> bool" where
  "full_slot ord m i \<longleftrightarrow> (let sd = fm_sdesc m ! i in
     sg_pg sd \<noteq> 0 \<and> sg_dma_addr sd \<noteq> 0 \<and> fm_desc m ! i = sg_dma_addr sd
     \<and> sg_len sd = flq_page_len ord \<and> sg_offset sd = 0)"

definition empty_slot :: "flq_mem \<Rightarrow> nat \<Rightarrow> bool" where
  "empty_slot m i \<longleftrightarrow> sg_pg (fm_sdesc m ! i) = 0 \<and> sg_dma_addr (fm_sdesc m ! i) = 0"

lemma flq_fill_one_cases:
  assumes "env_nonnull E" "i < length (fm_sdesc m)" "i < length (fm_desc m)" "empty_slot m i" "books A B m"
    and "flq_fill_one E ord i m = (rv, m')"
  shows "books A B m'" "length (fm_sdesc m') = length (fm_sdesc m)" "length (fm_desc m') = length (fm_desc m)"
    "rv = 0 \<and> full_slot ord m' i \<or> (rv = - ENOMEM \<or> rv = - EINVAL) \<and> fm_sdesc m' = fm_sdesc m"
    "j \<noteq> i \<Longrightarrow> fm_sdesc m' ! j = fm_sdesc m ! j \<and> fm_desc m' ! j = fm_desc m ! j"
proof -
  have hold: "slot_holds (fm_sdesc m ! i) = {#}" using assms(4) by (simp add: slot_holds_def empty_slot_def)
  note upd = held_update [OF assms(2), unfolded hold]
  show "books A B m'"
    using assms(5,6) upd env_nonnullD [OF assms(1)]
    by (auto simp: flq_fill_one_def Let_def books_def slot_holds_def split: option.splits)
  show "length (fm_sdesc m') = length (fm_sdesc m)" "length (fm_desc m') = length (fm_desc m)"
    "rv = 0 \<and> full_slot ord m' i \<or> (rv = - ENOMEM \<or> rv = - EINVAL) \<and> fm_sdesc m' = fm_sdesc m"
    "j \<noteq> i \<Longrightarrow> fm_sdesc m' ! j = fm_sdesc m ! j \<and> fm_desc m' ! j = fm_desc m ! j"
    using assms env_nonnullD [OF assms(1)]
    by (auto simp: flq_fill_one_def Let_def full_slot_def split: option.splits)
qed

lemma flq_fill_loop_cases:
  assumes "env_nonnull E" "distinct ixs" "length (fm_desc m) = length (fm_sdesc m)"
    and "\<forall>i \<in> set ixs. i < length (fm_sdesc m) \<and> empty_slot m i" "books A B m"
    and "flq_fill_loop E ord ixs m = (rv, m')"
  shows "books A B m' \<and> length (fm_sdesc m') = length (fm_sdesc m) \<and> length (fm_desc m') = length (fm_desc m)
    \<and> (rv = 0 \<and> (\<forall>i \<in> set ixs. full_slot ord m' i) \<or> rv = - ENOMEM \<or> rv = - EINVAL)
    \<and> (\<forall>j. j \<notin> set ixs \<longrightarrow> fm_sdesc m' ! j = fm_sdesc m ! j \<and> fm_desc m' ! j = fm_desc m ! j)
    \<and> (\<forall>j \<in> set ixs. full_slot ord m' j \<or> empty_slot m' j)"
  using assms(2-)
proof (induction ixs arbitrary: m)
  case Nil
  then show ?case by simp
next
  case (Cons i ixs)
  obtain rv1 m1 where one: "flq_fill_one E ord i m = (rv1, m1)" by fastforce
  have i: "i < length (fm_sdesc m)" "i < length (fm_desc m)" "empty_slot m i" using Cons.prems by auto
  note c = flq_fill_one_cases [OF assms(1) i Cons.prems(4) one]
  have same: "empty_slot m1 j = empty_slot m j" if "j \<noteq> i" for j
    using c(5) [OF that] by (simp add: empty_slot_def)
  show ?case
  proof (cases "rv1 < 0")
    case True
    then have res: "rv = rv1" "m' = m1" using Cons.prems(5) by (simp_all add: one)
    have "rv1 \<noteq> 0" using True by simp
    then have "rv1 = - ENOMEM \<or> rv1 = - EINVAL" "fm_sdesc m1 = fm_sdesc m" using c(4) by auto
    moreover have "\<forall>j \<in> set (i # ixs). empty_slot m1 j"
      using \<open>fm_sdesc m1 = fm_sdesc m\<close> Cons.prems(3) by (simp add: empty_slot_def)
    ultimately show ?thesis using c(1-3,5) unfolding res by auto
  next
    case False
    then have full: "full_slot ord m1 i" using c(4) by (auto simp: ENOMEM_def EINVAL_def)
    have "flq_fill_loop E ord ixs m1 = (rv, m')" using Cons.prems(5) False by (simp add: one)
    moreover have "\<forall>j \<in> set ixs. j < length (fm_sdesc m1) \<and> empty_slot m1 j"
    proof
      fix j
      assume "j \<in> set ixs"
      then have "j \<noteq> i" "j < length (fm_sdesc m)" "empty_slot m j" using Cons.prems(1,3) by auto
      then show "j < length (fm_sdesc m1) \<and> empty_slot m1 j" using same c(2) by simp
    qed
    ultimately have ih: "books A B m' \<and> length (fm_sdesc m') = length (fm_sdesc m1)
        \<and> length (fm_desc m') = length (fm_desc m1)
        \<and> (rv = 0 \<and> (\<forall>i \<in> set ixs. full_slot ord m' i) \<or> rv = - ENOMEM \<or> rv = - EINVAL)
        \<and> (\<forall>j. j \<notin> set ixs \<longrightarrow> fm_sdesc m' ! j = fm_sdesc m1 ! j \<and> fm_desc m' ! j = fm_desc m1 ! j)
        \<and> (\<forall>j \<in> set ixs. full_slot ord m' j \<or> empty_slot m' j)"
      using Cons.prems(1,2) c(1-3) by (intro Cons.IH) auto
    moreover have "full_slot ord m' i"
      using ih full Cons.prems(1) by (auto simp: full_slot_def)
    moreover have "\<forall>j. j \<notin> set (i # ixs) \<longrightarrow> fm_sdesc m' ! j = fm_sdesc m ! j \<and> fm_desc m' ! j = fm_desc m ! j"
      using ih c(5) by simp
    ultimately show ?thesis using c(2,3) by auto
  qed
qed

lemma flq_free_one_cases:
  fixes ord :: u8
  assumes "i < length (fm_sdesc m)" "books A B m" "sg_pg (fm_sdesc m ! i) = 0 \<longrightarrow> empty_slot m i"
  defines "m' \<equiv> flq_free_one ord i m"
  shows "books A B m'" "length (fm_sdesc m') = length (fm_sdesc m)" "empty_slot m' i"
    "j \<noteq> i \<Longrightarrow> fm_sdesc m' ! j = fm_sdesc m ! j"
proof -
  let ?sd = "fm_sdesc m ! i"
  have free: "fm_sdesc m' = (if sg_pg ?sd \<noteq> 0 then (fm_sdesc m)[i := ?sd\<lparr>sg_dma_addr := 0, sg_pg := 0\<rparr>] else fm_sdesc m)"
    "fm_trace m' = (if sg_pg ?sd \<noteq> 0 then PageFree (sg_pg ?sd) ord #
       (if sg_dma_addr ?sd \<noteq> 0 then [PageUnmap (sg_dma_addr ?sd)] else []) else []) @ fm_trace m"
    using assms(1) by (cases ?sd; simp add: m'_def flq_free_one_def flq_unmap_one_def Let_def)+
  have u: "held ((fm_sdesc m)[i := ?sd\<lparr>sg_dma_addr := 0, sg_pg := 0\<rparr>]) + slot_holds ?sd = held (fm_sdesc m)"
    using held_update [OF assms(1)] by (simp add: slot_holds_def)
  show "books A B m'"
    using assms(2) u [symmetric] by (auto simp: books_def free slot_holds_def ac_simps)
  show "length (fm_sdesc m') = length (fm_sdesc m)" "empty_slot m' i"
    "j \<noteq> i \<Longrightarrow> fm_sdesc m' ! j = fm_sdesc m ! j"
    using assms(1,3) by (auto simp: free empty_slot_def)
qed

lemma flq_free_all:
  fixes ord :: u8
  assumes "distinct ixs" "\<forall>i \<in> set ixs. i < length (fm_sdesc m)
      \<and> (sg_pg (fm_sdesc m ! i) = 0 \<longrightarrow> empty_slot m i)" "books A B m"
  defines "m' \<equiv> fold (flq_free_one ord) ixs m"
  shows "books A B m' \<and> length (fm_sdesc m') = length (fm_sdesc m) \<and> (\<forall>i \<in> set ixs. empty_slot m' i)
    \<and> (\<forall>j. j \<notin> set ixs \<longrightarrow> fm_sdesc m' ! j = fm_sdesc m ! j)"
  using assms(1-3) unfolding m'_def
proof (induction ixs arbitrary: m)
  case (Cons i ixs)
  define m1 where "m1 = flq_free_one ord i m"
  have "i < length (fm_sdesc m)" "sg_pg (fm_sdesc m ! i) = 0 \<longrightarrow> empty_slot m i"
    using Cons.prems(2) by auto
  note c = flq_free_one_cases [where ord = ord, OF this(1) Cons.prems(3) this(2), folded m1_def]
  have "\<forall>j \<in> set ixs. j < length (fm_sdesc m1) \<and> (sg_pg (fm_sdesc m1 ! j) = 0 \<longrightarrow> empty_slot m1 j)"
  proof
    fix j
    assume "j \<in> set ixs"
    then have "j \<noteq> i" "j < length (fm_sdesc m)" "sg_pg (fm_sdesc m ! j) = 0 \<longrightarrow> empty_slot m j"
      using Cons.prems(1,2) by auto
    then show "j < length (fm_sdesc m1) \<and> (sg_pg (fm_sdesc m1 ! j) = 0 \<longrightarrow> empty_slot m1 j)"
      using c(2) c(4) [of j] by (simp add: empty_slot_def)
  qed
  then have ih: "books A B (fold (flq_free_one ord) ixs m1)
      \<and> length (fm_sdesc (fold (flq_free_one ord) ixs m1)) = length (fm_sdesc m1)
      \<and> (\<forall>i \<in> set ixs. empty_slot (fold (flq_free_one ord) ixs m1) i)
      \<and> (\<forall>j. j \<notin> set ixs \<longrightarrow> fm_sdesc (fold (flq_free_one ord) ixs m1) ! j = fm_sdesc m1 ! j)"
    using Cons.prems(1) c(1) by (intro Cons.IH) auto
  moreover have "empty_slot (fold (flq_free_one ord) ixs m1) i"
    using ih c(3) Cons.prems(1) by (simp add: empty_slot_def)
  ultimately show ?case using c(2,4) by (auto simp: m1_def [symmetric])
qed simp

lemma held_empty:
  "\<forall>i < length (fm_sdesc m). empty_slot m i \<Longrightarrow> held (fm_sdesc m) = {#}"
proof -
  assume "\<forall>i < length (fm_sdesc m). empty_slot m i"
  then have "\<forall>sd \<in> set (fm_sdesc m). slot_holds sd = {#}"
    by (auto simp: in_set_conv_nth empty_slot_def slot_holds_def)
  then have "map slot_holds (fm_sdesc m) = map (\<lambda>sd. {#}) (fm_sdesc m)" by simp
  then show ?thesis unfolding held_def by (simp only: sum_list_0)
qed

section \<open>Allocating and freeing the free list\<close>

lemma put_flq_mem_simps [simp]:
  "dq_flq (put_flq_mem m q) = (dq_flq q)\<lparr>fl_sdesc := fm_sdesc m\<rparr>"
  "dq_desc q = C2hDesc ds \<Longrightarrow> dq_desc (put_flq_mem m q) = C2hDesc (fm_desc m)"
  by (simp_all add: put_flq_mem_def)

lemma flq_free_resource_books:
  assumes "length (fl_sdesc (dq_flq q)) = unat (fl_size (dq_flq q))" "fl_sdesc (dq_flq q) \<noteq> []"
    and "\<forall>i < length (fl_sdesc (dq_flq q)). sg_pg (fl_sdesc (dq_flq q) ! i) = 0
      \<longrightarrow> sg_dma_addr (fl_sdesc (dq_flq q) ! i) = 0"
    and "taken tr + B = given_back tr + held (fl_sdesc (dq_flq q)) + A"
    and "descq_flq_free_resource q tr = (q', tr')"
  shows "taken tr' + B = given_back tr' + A" "dq_flq q' = zero_flq"
proof -
  define ord where "ord = fl_pg_order (dq_flq q)"
  define m where "m = fold (flq_free_one ord) [0..<unat (fl_size (dq_flq q))] (flq_mem_of q tr)"
  have "books A B m \<and> length (fm_sdesc m) = length (fm_sdesc (flq_mem_of q tr))
      \<and> (\<forall>i \<in> set [0..<unat (fl_size (dq_flq q))]. empty_slot m i)"
    using flq_free_all [where ord = ord and m = "flq_mem_of q tr" and ixs = "[0..<unat (fl_size (dq_flq q))]"
        and A = A and B = B] assms(1,3,4)
    by (simp add: m_def flq_mem_of_def empty_slot_def books_def)
  then have m: "books A B m" "held (fm_sdesc m) = {#}"
    using assms(1) by (auto intro!: held_empty simp: flq_mem_of_def)
  have "tr' = Kfree # fm_trace m" and q': "q' = (put_flq_mem m q)\<lparr>dq_flq := zero_flq\<rparr>"
    using assms(2,5) by (auto simp: descq_flq_free_resource_def Let_def m_def ord_def)
  then show "taken tr' + B = given_back tr' + A" "dq_flq q' = zero_flq"
    using m by (simp_all add: books_def)
qed

text \<open>
  Filling the free list is all or nothing: on success every slot holds a page and its mapping,
  the descriptor at the same index holds that bus address, and the slot offers the whole page;
  on failure every page and every mapping taken on the way has been given back and the free
  list is empty.  The books balance in both cases.
\<close>

lemma flq_alloc_all_or_nothing:
  assumes "env_nonnull E" "fl_size (dq_flq q) \<noteq> 0"
    and "dq_desc q = C2hDesc ds" "length ds = unat (fl_size (dq_flq q))"
    and "fl_sdesc (dq_flq q) = []"
  shows "case descq_flq_alloc_resource E q tr of (rv, q', tr') \<Rightarrow>
    taken tr' + given_back tr = given_back tr' + held (fl_sdesc (dq_flq q')) + taken tr \<and>
    (if rv = 0 then length (fl_sdesc (dq_flq q')) = unat (fl_size (dq_flq q)) \<and>
       (\<forall>i < unat (fl_size (dq_flq q)). let sd = fl_sdesc (dq_flq q') ! i in
          sg_pg sd \<noteq> 0 \<and> sg_dma_addr sd \<noteq> 0 \<and> c2h_ring (dq_desc q') ! i = sg_dma_addr sd
          \<and> sg_len sd = flq_page_len (fl_pg_order (dq_flq q)) \<and> sg_offset sd = 0)
     else (rv = - ENOMEM \<or> rv = - EINVAL) \<and> fl_sdesc (dq_flq q') = [])"
proof -
  define n where "n = unat (fl_size (dq_flq q))"
  define ord where "ord = fl_pg_order (dq_flq q)"
  define tr1 where "tr1 = Kalloc (fl_size (dq_flq q) * 48) (env_kalloc E tr (fl_size (dq_flq q) * 48)) # tr"
  define q1 where "q1 = q\<lparr>dq_flq := (dq_flq q)\<lparr>fl_sdesc := replicate n zero_sg,
      fl_sdesc_info := replicate n zero_sdesc_info\<rparr>\<rparr>"
  have n: "0 < n" using assms(2) by (simp add: n_def unat_gt_0)
  have tr1: "taken tr1 = taken tr" "given_back tr1 = given_back tr" by (simp_all add: tr1_def)
  show ?thesis
  proof (cases "env_kalloc E tr (fl_size (dq_flq q) * 48)")
    case False
    then show ?thesis
      using assms(5) by (simp add: descq_flq_alloc_resource_def Let_def held_def ENOMEM_def ac_simps)
  next
    case True
    define m0 where "m0 = flq_mem_of q1 tr1"
    obtain rv m where loop: "flq_fill_loop E ord [0..<n] m0 = (rv, m)" by fastforce
    have m0: "fm_sdesc m0 = replicate n zero_sg" "fm_desc m0 = ds" "fm_trace m0 = tr1"
      using assms(3) by (simp_all add: m0_def flq_mem_of_def q1_def)
    have "held (replicate n zero_sg) = {#}"
      by (induction n) (simp_all add: held_def slot_holds_def zero_sg_def)
    then have b0: "books (taken tr) (given_back tr) m0"
      by (simp add: books_def m0 tr1 ac_simps)
    have l: "books (taken tr) (given_back tr) m" "length (fm_sdesc m) = n" "length (fm_desc m) = n"
      "rv = 0 \<and> (\<forall>i \<in> set [0..<n]. full_slot ord m i) \<or> rv = - ENOMEM \<or> rv = - EINVAL"
      "\<forall>j \<in> set [0..<n]. full_slot ord m j \<or> empty_slot m j"
      using flq_fill_loop_cases [OF assms(1) _ _ _ b0 loop] assms(4)
      by (simp_all add: m0 n_def [symmetric] empty_slot_def zero_sg_def)
    have run: "descq_flq_alloc_resource E q tr =
        (if rv < 0 then let (q2, tr2) = descq_flq_free_resource (put_flq_mem m q1) (fm_trace m) in (rv, q2, tr2)
         else (0, (put_flq_mem m q1)\<lparr>dq_cidx_wrb_pend := 0\<rparr>, fm_trace m))"
      using True loop
      by (simp add: descq_flq_alloc_resource_def Let_def n_def ord_def tr1_def q1_def m0_def)
    show ?thesis
    proof (cases "rv < 0")
      case True
      obtain q2 tr2 where f: "descq_flq_free_resource (put_flq_mem m q1) (fm_trace m) = (q2, tr2)" by fastforce
      have "\<forall>i < n. sg_pg (fm_sdesc m ! i) = 0 \<longrightarrow> sg_dma_addr (fm_sdesc m ! i) = 0"
      proof (intro allI impI)
        fix i
        assume "i < n" "sg_pg (fm_sdesc m ! i) = 0"
        moreover from this have "full_slot ord m i \<or> empty_slot m i" using l(5) by simp
        ultimately show "sg_dma_addr (fm_sdesc m ! i) = 0"
          by (auto simp: full_slot_def empty_slot_def Let_def)
      qed
      moreover have "fm_sdesc m \<noteq> []" using l(2) n by auto
      ultimately have "taken tr2 + given_back tr = given_back tr2 + taken tr" "dq_flq q2 = zero_flq"
        using flq_free_resource_books [OF _ _ _ _ f, of "given_back tr" "taken tr"] l(1,2) n
        by (simp_all add: q1_def n_def [symmetric] books_def)
      moreover have "rv \<noteq> 0" "rv = - ENOMEM \<or> rv = - EINVAL" using True l(4) by auto
      ultimately show ?thesis
        unfolding run f using True by (simp add: held_def zero_flq_def)
    next
      case False
      then have "\<forall>i < n. full_slot ord m i" using l(4) by (auto simp: ENOMEM_def EINVAL_def)
      moreover have "dq_desc q1 = C2hDesc ds" using assms(3) by (simp add: q1_def)
      ultimately show ?thesis
        unfolding run using False l(1,2)
        by (auto simp: books_def full_slot_def Let_def n_def [symmetric] ord_def [symmetric] ac_simps)
    qed
  qed
qed

text \<open>An environment that hands out pages and bus addresses different from 0.\<close>

definition page_env :: env where
  "page_env = plain_env\<lparr>env_page_alloc := (\<lambda>tr o'. Some (Suc (length tr))),
     env_page_map := (\<lambda>tr p. if p = 3 then None else Some 0x1000)\<rparr>"

lemma page_env_nonnull: "env_nonnull page_env"
  by (simp add: env_nonnull_def page_env_def plain_env_def)

end
