(* ===== verification/Qdma_C2h_Read.thy ===== *)
theory Qdma_C2h_Read
  imports Qdma_Flq
begin

unbundle bit_operations_syntax

text \<open>
  Copying received data out to requests (\<open>descq_st_c2h_read\<close> and
  \<open>qdma_c2h_packets_proc_dflt\<close> of \<open>libqdma/qdma_st_c2h.c\<close>).  The contents of pages are
  not modelled; each \<open>memcpy\<close> is an event of the trace.
\<close>

section \<open>Copying received data to a request\<close>

record c2h_copy =
  cr_tsgs :: "qdma_sw_sg list"     \<comment> \<open>\<open>tsg\<close> and what follows it\<close>
  cr_tsgoff :: u32
  cr_foff :: u32
  cr_copied :: u32
  cr_j :: u32
  cr_trace :: trace

definition copy_step :: "nat \<Rightarrow> u32 \<Rightarrow> u32 \<Rightarrow> qdma_sw_sg \<Rightarrow> c2h_copy \<Rightarrow> c2h_copy" where
  "copy_step pg faddr n tsg s =
     (let s = s\<lparr>cr_foff := cr_foff s + n, cr_tsgoff := cr_tsgoff s + n, cr_copied := cr_copied s + n,
                cr_trace := MemCpy (sg_pg tsg) (sg_offset tsg + cr_tsgoff s) pg faddr n # cr_trace s\<rparr>
      in if cr_tsgoff s = sg_len tsg
         then s\<lparr>cr_tsgs := tl (cr_tsgs s), cr_tsgoff := 0, cr_j := cr_j s + 1\<rparr> else s)"

lemma copy_step_tsgs:
  "cr_tsgs (copy_step pg faddr n tsg s) =
     (if cr_tsgoff s + n = sg_len tsg then tl (cr_tsgs s) else cr_tsgs s)"
  by (simp add: copy_step_def Let_def)

text \<open>The inner loop: one receive buffer of \<open>flen\<close> bytes.\<close>

function copy_buf :: "nat \<Rightarrow> u32 \<Rightarrow> u32 \<Rightarrow> c2h_copy \<Rightarrow> c2h_copy" where
  "copy_buf pg faddr flen s =
     (case cr_tsgs s of
        [] \<Rightarrow> s
      | tsg # _ \<Rightarrow>
          if flen = 0 then s
          else
            let n = min flen (sg_len tsg - cr_tsgoff s)
            in copy_buf pg (faddr + n) (flen - n) (copy_step pg faddr n tsg s))"
  by pat_completeness auto
termination
proof (relation "measure (\<lambda>(pg, faddr, flen, s). unat flen + length (cr_tsgs s))", goal_cases)
  case (2 pg faddr flen s tsg tsgs n)
  have le: "n \<le> flen" using 2 by simp
  show ?case
  proof (cases "n = 0")
    case True
    then have "sg_len tsg - cr_tsgoff s = 0"
      using 2 by (metis min_def)
    then have "cr_tsgoff s = sg_len tsg" by simp
    then show ?thesis using True 2(1) by (simp add: copy_step_tsgs)
  next
    case False
    then have "unat (flen - n) < unat flen"
      using le by (simp add: unat_sub_le unat_less_iff [symmetric] word_le_nat_alt)
        (metis diff_less unat_eq_zero word_le_nat_alt bot_nat_0.not_eq_extremum le_zero_eq)
    moreover have "length (cr_tsgs (copy_step pg faddr n tsg s)) \<le> length (cr_tsgs s)"
      by (simp add: copy_step_tsgs)
    ultimately show ?thesis by simp
  qed
qed simp

declare copy_buf.simps [simp del]

text \<open>A buffer that was not copied in full leaves no request memory to copy to.\<close>

lemma copy_step_foff: "cr_foff (copy_step pg faddr n tsg s) = cr_foff s + n"
  by (simp add: copy_step_def Let_def)

lemma copy_buf_foff:
  "cr_tsgs (copy_buf pg faddr flen s) = [] \<or> cr_foff (copy_buf pg faddr flen s) = cr_foff s + flen"
proof (induction pg faddr flen s rule: copy_buf.induct)
  case (1 pg faddr flen s)
  show ?case
  proof (cases "cr_tsgs s")
    case Nil
    then show ?thesis by (simp add: copy_buf.simps [of _ _ _ s])
  next
    case (Cons tsg tsgs)
    show ?thesis
    proof (cases "flen = 0")
      case True
      then show ?thesis using Cons by (simp add: copy_buf.simps [of _ _ _ s])
    next
      case False
      show ?thesis
        using "1.IH" [OF Cons False refl] Cons False
        by (simp add: copy_buf.simps [of _ _ flen s] Let_def copy_step_foff)
    qed
  qed
qed

text \<open>The outer loop over the buffers; \<open>fsg\<close> is the slot the pointer of that name is at.\<close>

definition eop_cidx :: "qdma_sdesc_info \<Rightarrow> u32 \<Rightarrow> u32" where
  "eop_cidx sinfo wrb_pend = (if sd_eop sinfo then sd_cidx sinfo else wrb_pend)"

function read_loop ::
  "qdma_flq \<Rightarrow> u32 \<Rightarrow> u32 \<Rightarrow> u32 \<Rightarrow> nat \<Rightarrow> u32 \<Rightarrow> u32 \<Rightarrow> c2h_copy \<Rightarrow> u32 \<times> nat \<times> u32 \<times> c2h_copy" where
  "read_loop flq rngsz fsgcnt i fsg pidx wrb_pend s =
     (if i < fsgcnt \<and> cr_tsgs s \<noteq> [] then
        let s' = copy_buf (sg_pg (fl_sdesc flq ! fsg)) 0 (sg_len (fl_sdesc flq ! fsg)) (s\<lparr>cr_foff := 0\<rparr>)
        in if cr_foff s' = sg_len (fl_sdesc flq ! fsg) then
             read_loop flq rngsz fsgcnt (i + 1) (next_sdesc flq fsg) (ring_idx_incr pidx 1 rngsz)
               (eop_cidx (fl_sdesc_info flq ! unat pidx) wrb_pend) (s'\<lparr>cr_foff := 0\<rparr>)
           else read_loop flq rngsz fsgcnt i fsg pidx wrb_pend s'
      else (i, fsg, wrb_pend, s))"
  by pat_completeness auto
termination
proof (relation "measure (\<lambda>(flq, rngsz, fsgcnt, i, fsg, pidx, wp, s).
      2 * (unat fsgcnt - unat i) + (if cr_tsgs s = [] then 0 else 1))", goal_cases)
  case (2 flq rngsz fsgcnt i fsg pidx wrb_pend s s')
  have "unat (i + 1) = unat i + 1"
    using 2(1) unat_u32_less [of fsgcnt] by (simp add: unat_add_no_overflow unat_less_iff)
  moreover have "unat i < unat fsgcnt" using 2(1) by (simp add: unat_less_iff)
  ultimately show ?case using 2(1) by (auto simp del: mult_Suc_right)
next
  case (3 flq rngsz fsgcnt i fsg pidx wrb_pend s s')
  then have "cr_tsgs s' = []"
    using copy_buf_foff [of "sg_pg (fl_sdesc flq ! fsg)" 0 "sg_len (fl_sdesc flq ! fsg)" "s\<lparr>cr_foff := 0\<rparr>"] by auto
  then show ?case using 3 by simp
qed simp

declare read_loop.simps [simp del]

text \<open>The statements after the loop, from its results.\<close>

definition c2h_read_refill ::
  "env \<Rightarrow> bool \<Rightarrow> u32 \<Rightarrow> nat \<Rightarrow> u32 \<Rightarrow> qdma_descq \<Rightarrow> trace \<Rightarrow> qdma_descq \<times> trace" where
  "c2h_read_refill E refill i fsg foff descq tr =
     (let (descq, tr) = (if refill \<and> i \<noteq> 0
                         then snd (qdma_flq_refill E descq (fl_pidx_pend (dq_flq descq)) i True tr)
                         else (descq, tr));
          descq = upd_flq (\<lambda>f. f\<lparr>fl_pidx_pend := ring_idx_incr (fl_pidx_pend f) i (fl_size f)\<rparr>) descq;
          descq = (if foff \<noteq> 0 then
                     upd_flq (\<lambda>f. f\<lparr>fl_sdesc := (fl_sdesc f)[fsg := (fl_sdesc f ! fsg)
                       \<lparr>sg_offset := sg_offset (fl_sdesc f ! fsg) + foff,
                        sg_len := sg_len (fl_sdesc f ! fsg) - foff\<rparr>]\<rparr>) descq
                   else descq)
      in (descq, tr))"

definition c2h_read_finish ::
  "build \<Rightarrow> nat \<Rightarrow> bool \<Rightarrow> c2h_copy \<Rightarrow> qdma_descq \<Rightarrow> trace \<Rightarrow> int \<times> qdma_descq \<times> trace" where
  "c2h_read_finish b r update_pidx s descq tr =
     (let tr = (if update_pidx then
                  descq_wrb_cidx_update b descq (dq_cidx_wrb_pend descq)
                    (descq_c2h_pidx_update b descq
                      (ring_idx_decr (fl_pidx_pend (dq_flq descq)) 1 (fl_size (dq_flq descq))) tr)
                else tr);
          descq = upd_req r (\<lambda>q. q\<lparr>cb_sg_idx := cr_j s, cb_sg_offset := cr_tsgoff s,
                                   cb_left := cb_left q - cr_copied s\<rparr>) descq;
          descq = upd_flq (\<lambda>f. f\<lparr>fl_pkt_dlen := fl_pkt_dlen f - cr_copied s\<rparr>) descq
      in (sint (cr_copied s), descq, tr))"

definition read_init :: "qdma_request \<Rightarrow> trace \<Rightarrow> c2h_copy" where
  "read_init req tr = \<lparr>cr_tsgs = drop (unat (cb_sg_idx req)) (rq_sgl req),
     cr_tsgoff = cb_sg_offset req, cr_foff = 0, cr_copied = 0, cr_j = cb_sg_idx req, cr_trace = tr\<rparr>"

definition descq_st_c2h_read ::
  "build \<Rightarrow> env \<Rightarrow> nat \<Rightarrow> bool \<Rightarrow> bool \<Rightarrow> qdma_descq \<Rightarrow> trace \<Rightarrow> int \<times> qdma_descq \<times> trace" where
  "descq_st_c2h_read b E r update_pidx refill descq tr =
     (let req = dq_reqs descq r;
          flq = dq_flq descq;
          pidx = fl_pidx_pend flq;
          fsgcnt = ring_idx_delta (dq_pidx descq) pidx (fl_size flq)
      in if fsgcnt = 0 then (0, descq, tr)
      else if cb_sg_idx req \<noteq> 0 \<and> drop (unat (cb_sg_idx req)) (rq_sgl req) = [] then (- EINVAL, descq, tr)
      else
        let (i, fsg, wrb_pend, s) =
              read_loop flq (qc_rngsz (dq_conf descq)) fsgcnt 0 (unat pidx) pidx
                (dq_cidx_wrb_pend descq) (read_init req tr);
            descq = descq\<lparr>dq_cidx_wrb_pend := wrb_pend\<rparr>;
            (descq, tr) = c2h_read_refill E refill i fsg (cr_foff s) descq (cr_trace s)
        in c2h_read_finish b r update_pidx s descq tr)"

text \<open>Hand data to the pending requests, oldest first (\<open>qdma_c2h_packets_proc_dflt\<close>).\<close>

fun packets_loop :: "build \<Rightarrow> env \<Rightarrow> nat list \<Rightarrow> qdma_descq \<Rightarrow> trace \<Rightarrow> qdma_descq \<times> trace" where
  "packets_loop b E [] descq tr = (descq, tr)"
| "packets_loop b E (r # rs) descq tr =
     (if cb_left (dq_reqs descq r) = 0 then qdma_sgt_req_done r 0 descq tr
      else
        let (rv, descq, tr) = descq_st_c2h_read b E r False False descq tr;
            (descq, tr) = (if rv < 0 then qdma_sgt_req_done r rv descq tr else (descq, tr))
        in if cb_left (dq_reqs descq r) = 0 then
             let (descq, tr) = qdma_sgt_req_done r 0 descq tr in packets_loop b E rs descq tr
           else (descq, tr))"

definition qdma_c2h_packets_proc_dflt ::
  "build \<Rightarrow> env \<Rightarrow> qdma_descq \<Rightarrow> trace \<Rightarrow> int \<times> qdma_descq \<times> trace" where
  "qdma_c2h_packets_proc_dflt b E descq tr =
     (let (descq, tr) = packets_loop b E (dq_pend_list descq) descq tr in (0, descq, tr))"

section \<open>What reading copies\<close>

text \<open>Bytes are named by page and offset; a copy pairs destinations with sources.\<close>

definition page_bytes :: "nat \<Rightarrow> u32 \<Rightarrow> nat \<Rightarrow> (nat \<times> u32) list" where
  "page_bytes pg off n = map (\<lambda>k. (pg, off + of_nat k)) [0..<n]"

definition sg_bytes :: "qdma_sw_sg \<Rightarrow> (nat \<times> u32) list" where
  "sg_bytes sg = page_bytes (sg_pg sg) (sg_offset sg) (unat (sg_len sg))"

fun copies_of :: "trace \<Rightarrow> ((nat \<times> u32) \<times> (nat \<times> u32)) list" where
  "copies_of [] = []"
| "copies_of (MemCpy dp d sp so n # tr) =
     copies_of tr @ zip (page_bytes dp d (unat n)) (page_bytes sp so (unat n))"
| "copies_of (_ # tr) = copies_of tr"

definition dst_bytes :: "c2h_copy \<Rightarrow> (nat \<times> u32) list" where
  "dst_bytes s = drop (unat (cr_tsgoff s)) (concat (map sg_bytes (cr_tsgs s)))"

definition tsgoff_ok :: "c2h_copy \<Rightarrow> bool" where
  "tsgoff_ok s \<longleftrightarrow> (case cr_tsgs s of [] \<Rightarrow> cr_tsgoff s = 0 | t # _ \<Rightarrow> cr_tsgoff s \<le> sg_len t)"

lemma length_page_bytes [simp]: "length (page_bytes pg off n) = n"
  by (simp add: page_bytes_def)

lemma length_sg_bytes [simp]: "length (sg_bytes sg) = unat (sg_len sg)"
  by (simp add: sg_bytes_def)

lemma page_bytes_0 [simp]: "page_bytes pg off 0 = []"
  by (simp add: page_bytes_def)

lemma page_bytes_split:
  assumes "m \<le> n"
  shows "page_bytes pg off n = page_bytes pg off m @ page_bytes pg (off + of_nat m) (n - m)"
proof -
  have "[0..<n] = [0..<m] @ [m..<m + (n - m)]" using assms by (metis le_add_diff_inverse upt_add_eq_append zero_le)
  moreover have "[m..<m + (n - m)] = map (\<lambda>k. k + m) [0..<n - m]"
    using assms by (simp add: map_add_upt)
  ultimately show ?thesis by (simp add: page_bytes_def comp_def add_ac)
qed

lemma take_page_bytes: "m \<le> n \<Longrightarrow> take m (page_bytes pg off n) = page_bytes pg off m"
  by (simp add: page_bytes_split [of m n])

lemma drop_page_bytes: "m \<le> n \<Longrightarrow> drop m (page_bytes pg off n) = page_bytes pg (off + of_nat m) (n - m)"
  by (simp add: page_bytes_split [of m n])

text \<open>One step of the inner loop.\<close>

lemma copy_step_bytes:
  fixes pg :: nat and faddr :: u32
  assumes "cr_tsgs s = tsg # tsgs" "cr_tsgoff s \<le> sg_len tsg" "n \<le> sg_len tsg - cr_tsgoff s"
  defines "s' \<equiv> copy_step pg faddr n tsg s"
  shows "copies_of (cr_trace s') = copies_of (cr_trace s)
      @ zip (take (unat n) (dst_bytes s)) (page_bytes pg faddr (unat n))"
    and "dst_bytes s' = drop (unat n) (dst_bytes s)"
    and "unat n \<le> length (dst_bytes s)"
    and "cr_copied s' = cr_copied s + n" "cr_foff s' = cr_foff s + n" "tsgoff_ok s'"
proof -
  have le: "unat (cr_tsgoff s) \<le> unat (sg_len tsg)" "unat n \<le> unat (sg_len tsg) - unat (cr_tsgoff s)"
    using assms(2,3) by (simp_all add: word_le_nat_alt unat_sub_le)
  have add: "unat (cr_tsgoff s + n) = unat (cr_tsgoff s) + unat n"
    using le unat_u32_less [of "sg_len tsg"] by (intro unat_add_no_overflow) simp
  have dst: "dst_bytes s = page_bytes (sg_pg tsg) (sg_offset tsg + cr_tsgoff s)
      (unat (sg_len tsg) - unat (cr_tsgoff s)) @ concat (map sg_bytes tsgs)"
    using le by (simp add: dst_bytes_def assms(1) sg_bytes_def drop_page_bytes)
  show "unat n \<le> length (dst_bytes s)" using le by (simp add: dst)
  show "copies_of (cr_trace s') = copies_of (cr_trace s)
      @ zip (take (unat n) (dst_bytes s)) (page_bytes pg faddr (unat n))"
    using le by (simp add: s'_def copy_step_def Let_def dst take_page_bytes)
  show "tsgoff_ok s'"
    using le add assms(1,2)
    by (auto simp: s'_def copy_step_def Let_def tsgoff_ok_def word_le_nat_alt split: list.splits)
  show "dst_bytes s' = drop (unat n) (dst_bytes s)"
  proof (cases "cr_tsgoff s + n = sg_len tsg")
    case True
    then have "unat (cr_tsgoff s) + unat n = unat (sg_len tsg)" using add by simp
    then show ?thesis
      using True le
      by (simp add: s'_def copy_step_def Let_def dst_bytes_def assms(1) add.commute [of "unat n"])
  next
    case False
    then show ?thesis
      using le add
      by (simp add: s'_def copy_step_def Let_def dst_bytes_def assms(1) add.commute)
  qed
  show "cr_copied s' = cr_copied s + n" "cr_foff s' = cr_foff s + n"
    by (simp_all add: s'_def copy_step_def Let_def)
qed

lemma copy_buf_bytes:
  fixes pg :: nat and faddr flen :: u32
  assumes "tsgoff_ok s"
  defines "s' \<equiv> copy_buf pg faddr flen s"
    and "k \<equiv> min (unat flen) (length (dst_bytes s))"
  shows "copies_of (cr_trace s') = copies_of (cr_trace s)
      @ zip (dst_bytes s) (page_bytes pg faddr (unat flen))
    \<and> dst_bytes s' = drop k (dst_bytes s) \<and> tsgoff_ok s'
    \<and> cr_copied s' = cr_copied s + of_nat k \<and> cr_foff s' = cr_foff s + of_nat k"
  using assms(1) unfolding s'_def k_def
proof (induction pg faddr flen s rule: copy_buf.induct)
  case (1 pg faddr flen s)
  show ?case
  proof (cases "cr_tsgs s")
    case Nil
    then show ?thesis
      using "1.prems" by (simp add: copy_buf.simps [of _ _ _ s] dst_bytes_def)
  next
    case (Cons tsg tsgs)
    show ?thesis
    proof (cases "flen = 0")
      case True
      then show ?thesis using Cons "1.prems" by (simp add: copy_buf.simps [of _ _ _ s])
    next
      case False
      define n where "n = min flen (sg_len tsg - cr_tsgoff s)"
      define s1 where "s1 = copy_step pg faddr n tsg s"
      have n: "n \<le> flen" "n \<le> sg_len tsg - cr_tsgoff s" by (simp_all add: n_def)
      have ok: "cr_tsgoff s \<le> sg_len tsg" using "1.prems" Cons by (simp add: tsgoff_ok_def)
      note st = copy_step_bytes(1,2,4-6) [where pg = pg and faddr = faddr, OF Cons ok n(2), folded s1_def]
      have len: "unat n \<le> length (dst_bytes s)" using Cons ok n(2) by (rule copy_step_bytes(3))
      have un: "unat (flen - n) = unat flen - unat n" "unat n \<le> unat flen"
        using n by (simp_all add: unat_sub_le word_le_nat_alt)
      have run: "copy_buf pg faddr flen s = copy_buf pg (faddr + n) (flen - n) s1"
        using Cons False by (simp add: copy_buf.simps [of _ _ flen s] Let_def n_def s1_def)
      note ih = "1.IH" [OF Cons False n_def, folded s1_def, OF st(5)]
      have zip: "zip (take (unat n) (dst_bytes s)) (page_bytes pg faddr (unat n))
          @ zip (drop (unat n) (dst_bytes s)) (page_bytes pg (faddr + n) (unat flen - unat n))
        = zip (dst_bytes s) (page_bytes pg faddr (unat flen))"
        using len un(2) page_bytes_split [of "unat n" "unat flen" pg faddr]
        by (simp add: zip_append2)
      have k: "unat n + min (unat flen - unat n) (length (dst_bytes s) - unat n)
          = min (unat flen) (length (dst_bytes s))"
        using len un(2) by simp
      have w: "n + of_nat (min (unat flen - unat n) (length (dst_bytes s) - unat n))
          = of_nat (min (unat flen) (length (dst_bytes s)))"
        unfolding k [symmetric] by simp
      show ?thesis
        unfolding run
        using ih zip w k by (simp add: st un(1) add.assoc add.commute [of "min _ _"])
    qed
  qed
qed

lemma copy_foff_update [simp]:
  "dst_bytes (s\<lparr>cr_foff := x\<rparr>) = dst_bytes s" "tsgoff_ok (s\<lparr>cr_foff := x\<rparr>) = tsgoff_ok s"
  by (auto simp: dst_bytes_def tsgoff_ok_def split: list.splits)

text \<open>The bytes of \<open>n\<close> receive buffers from slot \<open>fsg\<close> on.\<close>

definition buf_bytes :: "qdma_sw_sg \<Rightarrow> (nat \<times> u32) list" where
  "buf_bytes sd = page_bytes (sg_pg sd) 0 (unat (sg_len sd))"

lemma length_buf_bytes [simp]: "length (buf_bytes sd) = unat (sg_len sd)"
  by (simp add: buf_bytes_def)

fun src_bytes :: "qdma_flq \<Rightarrow> nat \<Rightarrow> nat \<Rightarrow> (nat \<times> u32) list" where
  "src_bytes flq fsg 0 = []"
| "src_bytes flq fsg (Suc n) = buf_bytes (fl_sdesc flq ! fsg) @ src_bytes flq (next_sdesc flq fsg) n"

text \<open>What the outer loop leaves, having used up \<open>d\<close> buffers.\<close>

definition read_result ::
  "qdma_flq \<Rightarrow> u32 \<Rightarrow> nat \<Rightarrow> nat \<Rightarrow> c2h_copy \<Rightarrow> u32 \<times> nat \<times> u32 \<times> c2h_copy \<Rightarrow> nat \<Rightarrow> bool" where
  "read_result flq i fsg m s res d \<longleftrightarrow>
     (case res of (i', fsg', wp', s') \<Rightarrow>
        let D = dst_bytes s; S = src_bytes flq fsg m; k = min (length D) (length S)
        in d \<le> m \<and> i' = i + of_nat d \<and> fsg' = (next_sdesc flq ^^ d) fsg
          \<and> copies_of (cr_trace s') = copies_of (cr_trace s) @ zip D S
          \<and> dst_bytes s' = drop k D \<and> tsgoff_ok s' \<and> cr_copied s' = cr_copied s + of_nat k
          \<and> k = length (src_bytes flq fsg d) + unat (cr_foff s'))"

lemma read_loop_result:
  assumes "tsgoff_ok s" "cr_foff s = 0"
  shows "\<exists>d. read_result flq i fsg (unat fsgcnt - unat i) s
      (read_loop flq rngsz fsgcnt i fsg pidx wrb_pend s) d"
  using assms
proof (induction flq rngsz fsgcnt i fsg pidx wrb_pend s rule: read_loop.induct)
  case (1 flq rngsz fsgcnt i fsg pidx wrb_pend s)
  define m where "m = unat fsgcnt - unat i"
  show ?case
  proof (cases "i < fsgcnt \<and> cr_tsgs s \<noteq> []")
    case False
    then have res: "read_loop flq rngsz fsgcnt i fsg pidx wrb_pend s = (i, fsg, wrb_pend, s)"
      by (subst read_loop.simps) auto
    have "m = 0 \<or> dst_bytes s = []"
      using False by (auto simp: m_def unat_less_iff dst_bytes_def)
    then have "read_result flq i fsg m s (i, fsg, wrb_pend, s) 0"
      using "1.prems" by (auto simp: read_result_def)
    then show ?thesis unfolding res m_def ..
  next
    case True
    define sd where "sd = fl_sdesc flq ! fsg"
    define s1 where "s1 = copy_buf (sg_pg sd) 0 (sg_len sd) (s\<lparr>cr_foff := 0\<rparr>)"
    define k1 where "k1 = min (unat (sg_len sd)) (length (dst_bytes s))"
    have d0: "dst_bytes (s\<lparr>cr_foff := 0\<rparr>) = dst_bytes s" "tsgoff_ok (s\<lparr>cr_foff := 0\<rparr>)"
      using "1.prems" by simp_all
    have s1: "copies_of (cr_trace s1) = copies_of (cr_trace s) @ zip (dst_bytes s) (buf_bytes sd)"
      "dst_bytes s1 = drop k1 (dst_bytes s)" "tsgoff_ok s1" "cr_copied s1 = cr_copied s + of_nat k1"
      "cr_foff s1 = of_nat k1"
      using copy_buf_bytes [OF d0(2), of "sg_pg sd" 0 "sg_len sd"]
      by (simp_all add: s1_def k1_def d0(1) buf_bytes_def)
    have uk1: "unat (cr_foff s1) = k1"
      using unat_u32_less [of "sg_len sd"] unfolding s1(5) by (intro unat_of_nat_u32) (simp add: k1_def)
    obtain m' where m': "m = Suc m'"
      using True by (metis Suc_diff_Suc m_def unat_less_iff)
    have S: "src_bytes flq fsg m = buf_bytes sd @ src_bytes flq (next_sdesc flq fsg) m'"
      by (simp add: m' sd_def)
    show ?thesis
    proof (cases "cr_foff s1 = sg_len sd")
      case full: True
      then have k1: "k1 = unat (sg_len sd)" using uk1 by simp
      then have le: "unat (sg_len sd) \<le> length (dst_bytes s)" by (simp add: k1_def)
      define s2 where "s2 = s1\<lparr>cr_foff := 0\<rparr>"
      have s2: "tsgoff_ok s2" "cr_foff s2 = 0" "dst_bytes s2 = dst_bytes s1"
        "cr_trace s2 = cr_trace s1" "cr_copied s2 = cr_copied s1"
        using s1(3) by (simp_all add: s2_def)
      have ui: "unat (i + 1) = unat i + 1"
        using True unat_u32_less [of fsgcnt] by (simp add: unat_add_no_overflow unat_less_iff)
      then have mm: "unat fsgcnt - unat (i + 1) = m'" using m' by (simp add: m_def)
      define res where "res = read_loop flq rngsz fsgcnt (i + 1) (next_sdesc flq fsg)
          (ring_idx_incr pidx 1 rngsz) (eop_cidx (fl_sdesc_info flq ! unat pidx) wrb_pend) s2"
      obtain d where d: "read_result flq (i + 1) (next_sdesc flq fsg) m' s2 res d"
        using "1.IH"(1) [OF True s1_def [unfolded sd_def] full [unfolded sd_def]] s2(1,2)
        unfolding s2_def [symmetric] mm res_def [symmetric] by blast
      have run: "read_loop flq rngsz fsgcnt i fsg pidx wrb_pend s = res"
        using True full
        by (subst read_loop.simps) (simp add: Let_def res_def s2_def s1_def sd_def)
      have z: "zip (dst_bytes s) (buf_bytes sd)
          @ zip (drop k1 (dst_bytes s)) (src_bytes flq (next_sdesc flq fsg) m')
        = zip (dst_bytes s) (src_bytes flq fsg m)"
        using le k1 zip_take_self [of "buf_bytes sd" "dst_bytes s"] by (simp add: S zip_append2)
      have "read_result flq i fsg m s res (Suc d)"
      proof -
        obtain i' fsg' wp' s' where r: "res = (i', fsg', wp', s')" by (cases res)
        define K where "K = min (length (dst_bytes s) - k1) (length (src_bytes flq (next_sdesc flq fsg) m'))"
        have k: "min (length (dst_bytes s)) (length (src_bytes flq fsg m)) = k1 + K"
          using le k1 by (simp add: S K_def)
        have d': "d \<le> m'" "i' = i + 1 + of_nat d" "fsg' = (next_sdesc flq ^^ d) (next_sdesc flq fsg)"
          "copies_of (cr_trace s') = copies_of (cr_trace s) @ zip (dst_bytes s) (src_bytes flq fsg m)"
          "dst_bytes s' = drop K (drop k1 (dst_bytes s))" "tsgoff_ok s'"
          "cr_copied s' = cr_copied s + of_nat k1 + of_nat K"
          "K = length (src_bytes flq (next_sdesc flq fsg) d) + unat (cr_foff s')"
          using d unfolding read_result_def r s2 s1(1,2,4) prod.case Let_def K_def z [symmetric]
          by simp_all
        show ?thesis
          unfolding read_result_def r prod.case Let_def k
          using d' k1 by (simp add: m' sd_def funpow_swap1 add_ac)
      qed
      then show ?thesis unfolding run m_def [symmetric] ..
    next
      case part: False
      then have "cr_tsgs s1 = []"
        using copy_buf_foff [of "sg_pg sd" 0 "sg_len sd" "s\<lparr>cr_foff := 0\<rparr>"] by (simp add: s1_def)
      then have res: "read_loop flq rngsz fsgcnt i fsg pidx wrb_pend s = (i, fsg, wrb_pend, s1)"
        using True part
        by (subst read_loop.simps) (simp add: Let_def s1_def sd_def read_loop.simps [of _ _ _ _ _ _ _ "copy_buf _ _ _ _"])
      have "k1 \<noteq> unat (sg_len sd)" using part s1(5) by auto
      then have k1: "k1 = length (dst_bytes s)" "length (dst_bytes s) < unat (sg_len sd)"
        by (auto simp: k1_def)
      have "zip (dst_bytes s) (buf_bytes sd) = zip (dst_bytes s) (src_bytes flq fsg m)"
        using k1 zip_take_self [of "buf_bytes sd" "dst_bytes s"] by (simp add: S zip_append2)
      then have "read_result flq i fsg m s (i, fsg, wrb_pend, s1) 0"
        using s1 k1 uk1 by (simp add: read_result_def S)
      then show ?thesis unfolding res m_def ..
    qed
  qed
qed

text \<open>The entry counter tells where the request's remaining memory starts.\<close>

definition at_entry :: "qdma_sw_sg list \<Rightarrow> c2h_copy \<Rightarrow> bool" where
  "at_entry sgl s \<longleftrightarrow> cr_tsgs s = drop (unat (cr_j s)) sgl"

lemma at_entry_foff [simp]: "at_entry sgl (s\<lparr>cr_foff := x\<rparr>) = at_entry sgl s"
  by (simp add: at_entry_def)

lemma copy_step_entry:
  assumes "at_entry sgl s" "cr_tsgs s = tsg # tsgs" "length sgl < 2 ^ 32"
  shows "at_entry sgl (copy_step pg faddr n tsg s)"
proof -
  have j: "unat (cr_j s) < length sgl"
    using assms(1,2) by (metis at_entry_def drop_all list.distinct(1) not_le)
  then have "unat (cr_j s + 1) = Suc (unat (cr_j s))"
    using assms(3) by (simp add: unat_add_no_overflow)
  then show ?thesis
    using assms(1) by (simp add: copy_step_def Let_def at_entry_def drop_Suc tl_drop)
qed

lemma copy_buf_entry:
  "at_entry sgl s \<Longrightarrow> length sgl < 2 ^ 32 \<Longrightarrow> at_entry sgl (copy_buf pg faddr flen s)"
proof (induction pg faddr flen s rule: copy_buf.induct)
  case (1 pg faddr flen s)
  show ?case
  proof (cases "cr_tsgs s = [] \<or> flen = 0")
    case True
    then show ?thesis
      using "1.prems" by (auto simp: copy_buf.simps [of pg faddr _ s] split: list.splits)
  next
    case False
    then obtain tsg tsgs where t: "cr_tsgs s = tsg # tsgs" by (cases "cr_tsgs s") auto
    with False show ?thesis
      using "1.IH" [OF t] copy_step_entry [OF _ t] "1.prems"
      by (simp add: copy_buf.simps [of pg faddr _ s] Let_def)
  qed
qed

lemma read_loop_entry:
  "at_entry sgl s \<Longrightarrow> length sgl < 2 ^ 32 \<Longrightarrow>
    at_entry sgl (snd (snd (snd (read_loop flq rngsz fsgcnt i fsg pidx wrb_pend s))))"
proof (induction flq rngsz fsgcnt i fsg pidx wrb_pend s rule: read_loop.induct)
  case (1 flq rngsz fsgcnt i fsg pidx wrb_pend s)
  define s1 where
    "s1 = copy_buf (sg_pg (fl_sdesc flq ! fsg)) 0 (sg_len (fl_sdesc flq ! fsg)) (s\<lparr>cr_foff := 0\<rparr>)"
  have s1: "at_entry sgl s1" using "1.prems" by (simp add: s1_def copy_buf_entry)
  consider (stop) "\<not> (i < fsgcnt \<and> cr_tsgs s \<noteq> [])"
    | (full) "i < fsgcnt \<and> cr_tsgs s \<noteq> []" "cr_foff s1 = sg_len (fl_sdesc flq ! fsg)"
    | (part) "i < fsgcnt \<and> cr_tsgs s \<noteq> []" "cr_foff s1 \<noteq> sg_len (fl_sdesc flq ! fsg)"
    by blast
  then show ?case
  proof cases
    case stop
    then show ?thesis using "1.prems" by (subst read_loop.simps) auto
  next
    case full
    then show ?thesis
      using "1.IH"(1) [OF full(1) s1_def full(2)] s1 "1.prems"
      by (subst read_loop.simps) (simp add: Let_def flip: s1_def)
  next
    case part
    then show ?thesis
      using "1.IH"(2) [OF part(1) s1_def part(2)] s1 "1.prems"
      by (subst read_loop.simps) (simp add: Let_def flip: s1_def)
  qed
qed

text \<open>The memory a request has still to receive.\<close>

definition req_dst :: "qdma_request \<Rightarrow> (nat \<times> u32) list" where
  "req_dst req = drop (unat (cb_sg_offset req))
     (concat (map sg_bytes (drop (unat (cb_sg_idx req)) (rq_sgl req))))"

definition req_dst_ok :: "qdma_request \<Rightarrow> bool" where
  "req_dst_ok req \<longleftrightarrow> length (rq_sgl req) < 2 ^ 32 \<and>
     (case drop (unat (cb_sg_idx req)) (rq_sgl req) of
        [] \<Rightarrow> cb_sg_idx req = 0 \<and> cb_sg_offset req = 0
      | t # _ \<Rightarrow> cb_sg_offset req \<le> sg_len t)"

text \<open>The buffers received and not yet read.\<close>

definition ready_src :: "qdma_descq \<Rightarrow> (nat \<times> u32) list" where
  "ready_src q = (let f = dq_flq q in
     src_bytes f (unat (fl_pidx_pend f)) (unat (ring_idx_delta (dq_pidx q) (fl_pidx_pend f) (fl_size f))))"

text \<open>The effect of a read on the request and the trace, from the loop's result.\<close>

lemma copies_of_doorbells [simp]:
  "copies_of (descq_wrb_cidx_update b q c tr) = copies_of tr"
  "copies_of (descq_c2h_pidx_update b q c tr) = copies_of tr"
  "copies_of (descq_h2c_pidx_update b q c tr) = copies_of tr"
  by (simp_all add: descq_wrb_cidx_update_def descq_c2h_pidx_update_def
      descq_h2c_pidx_update_def write_reg_def)

lemma outside_read_refill [flq_frame]:
  "outside_flq (fst (c2h_read_refill E refill i fsg foff q tr)) = outside_flq q"
  by (simp add: c2h_read_refill_def Let_def split_beta flq_frame qdma_flq_refill_def)

lemma read_refill_trace: "snd (c2h_read_refill E refill i fsg foff q tr) = tr"
  by (simp add: c2h_read_refill_def Let_def split_beta qdma_flq_refill_def refill_recycle_trace)

lemma read_finish_effect:
  assumes "c2h_read_finish b r u s q tr = (rv, q', tr')"
  shows "rv = sint (cr_copied s)" "copies_of tr' = copies_of tr"
    "dq_reqs q' r = (dq_reqs q r)\<lparr>cb_sg_idx := cr_j s, cb_sg_offset := cr_tsgoff s,
       cb_left := cb_left (dq_reqs q r) - cr_copied s\<rparr>"
  using assms by (auto simp: c2h_read_finish_def Let_def upd_flq_def upd_req_def)

lemma st_c2h_read_effect:
  fixes q :: qdma_descq and r :: nat and tr :: trace
  defines "req \<equiv> dq_reqs q r" and "flq \<equiv> dq_flq q"
  defines "n \<equiv> ring_idx_delta (dq_pidx q) (fl_pidx_pend flq) (fl_size flq)"
  assumes "n \<noteq> 0" "cb_sg_idx req = 0 \<or> drop (unat (cb_sg_idx req)) (rq_sgl req) \<noteq> []"
    and "read_loop flq (qc_rngsz (dq_conf q)) n 0 (unat (fl_pidx_pend flq)) (fl_pidx_pend flq)
      (dq_cidx_wrb_pend q) (read_init req tr) = (i, fsg, wp, s)"
    and "descq_st_c2h_read b E r u f q tr = (rv, q', tr')"
  shows "rv = sint (cr_copied s)" "copies_of tr' = copies_of (cr_trace s)"
    "dq_reqs q' r = req\<lparr>cb_sg_idx := cr_j s, cb_sg_offset := cr_tsgoff s,
       cb_left := cb_left req - cr_copied s\<rparr>"
proof -
  define q1 where "q1 = q\<lparr>dq_cidx_wrb_pend := wp\<rparr>"
  obtain q2 tr2 where X: "c2h_read_refill E f i fsg (cr_foff s) q1 (cr_trace s) = (q2, tr2)"
    by fastforce
  have "outside_flq q2 = outside_flq q1"
    using outside_read_refill [of E f i fsg "cr_foff s" q1 "cr_trace s"] by (simp add: X)
  from outside_flq_fields(1) [OF this] have reqs: "dq_reqs q2 = dq_reqs q" by (simp add: q1_def)
  have tr2: "tr2 = cr_trace s"
    using read_refill_trace [of E f i fsg "cr_foff s" q1 "cr_trace s"] by (simp add: X)
  have run: "c2h_read_finish b r u s q2 tr2 = (rv, q', tr')"
  proof -
    have "\<not> (cb_sg_idx req \<noteq> 0 \<and> drop (unat (cb_sg_idx req)) (rq_sgl req) = [])"
      using assms(5) by blast
    then have "descq_st_c2h_read b E r u f q tr = c2h_read_finish b r u s q2 tr2"
      unfolding descq_st_c2h_read_def Let_def req_def [symmetric] flq_def [symmetric]
        n_def [symmetric] assms(6) prod.case q1_def [symmetric] X
      using assms(4) by (simp only: if_False not_False_eq_True)
    then show ?thesis using assms(7) by simp
  qed
  note e = read_finish_effect [OF run, unfolded reqs tr2, folded req_def]
  show "rv = sint (cr_copied s)" "copies_of tr' = copies_of (cr_trace s)"
    "dq_reqs q' r = req\<lparr>cb_sg_idx := cr_j s, cb_sg_offset := cr_tsgoff s,
       cb_left := cb_left req - cr_copied s\<rparr>" by (fact e)+
qed

section \<open>Properties\<close>


text \<open>A queue of four slots with two buffers received, and a request for four bytes.\<close>

definition sample_c2h_request :: qdma_request where
  "sample_c2h_request = zero_request\<lparr>rq_count := 4, rq_sgcnt := 1, cb_left := 4,
     rq_sgl := [\<lparr>sg_pg = 50, sg_offset = 8, sg_len = 4, sg_dma_addr = 0\<rparr>]\<rparr>"

definition sample_c2h_queue :: qdma_descq where
  "sample_c2h_queue = zero_descq\<lparr>
     dq_conf := zero_queue_conf\<lparr>qc_st := True, qc_c2h := True, qc_rngsz := 4, qc_rngsz_wrb := 4\<rparr>,
     dq_color := True, dq_pend_list := [9], dq_reqs := (\<lambda>r. sample_c2h_request), dq_avail := 1,
     dq_pidx := 2, dq_desc := C2hDesc [0x1000, 0x2000, 0x3000, 0x4000],
     dq_desc_wrb := Some [0x3A, 0x00, 0x00, 0x00], dq_wrb_wb_pidx := 1,
     dq_flq := zero_flq\<lparr>fl_size := 4, fl_pg_shift := 12, fl_pkt_dlen := 5,
       fl_sdesc := [\<lparr>sg_pg = 10, sg_offset = 0, sg_len = 3, sg_dma_addr = 0x1000\<rparr>,
                    \<lparr>sg_pg = 11, sg_offset = 0, sg_len = 2, sg_dma_addr = 0x2000\<rparr>,
                    \<lparr>sg_pg = 12, sg_offset = 0, sg_len = 0x1000, sg_dma_addr = 0x3000\<rparr>,
                    \<lparr>sg_pg = 13, sg_offset = 0, sg_len = 0x1000, sg_dma_addr = 0x4000\<rparr>],
       fl_sdesc_info := [\<lparr>sd_valid = True, sd_sop = True, sd_eop = False, sd_cidx = 1\<rparr>,
                         \<lparr>sd_valid = True, sd_sop = False, sd_eop = True, sd_cidx = 1\<rparr>,
                         zero_sdesc_info, zero_sdesc_info]\<rparr>\<rparr>"

lemmas sample_c2h_defs = sample_c2h_queue_def sample_c2h_request_def zero_descq_def zero_queue_conf_def
  zero_flq_def zero_request_def

lemma src_bytes_2: "src_bytes flq fsg 2 = buf_bytes (fl_sdesc flq ! fsg)
    @ buf_bytes (fl_sdesc flq ! next_sdesc flq fsg)"
  by (simp add: numeral_2_eq_2)

lemma sample_c2h_bytes:
  "req_dst sample_c2h_request = [(50, 8), (50, 9), (50, 10), (50, 11)]"
  "ready_src sample_c2h_queue = [(10, 0), (10, 1), (10, 2), (11, 0), (11, 1)]"
  by (simp_all add: sample_c2h_defs req_dst_def ready_src_def sg_bytes_def buf_bytes_def page_bytes_def
      ring_idx_delta_def next_sdesc_def Let_def src_bytes_2 upt_conv_Cons)


end
