(* ===== verification/Qdma_Phase.thy ===== *)
theory Qdma_Phase
  imports Main
begin

text \<open>
  Rings whose entries carry a colour bit: the device writes each entry with the colour of its
  current round, the driver keeps the colour it expects and flips it when its index wraps.
  The completion ring of a streaming C2H queue (\<open>qdma_st_c2h.c\<close>) and the interrupt
  aggregation ring (\<open>qdma_intr.c\<close>) are such rings.  The interface \<open>phase_ring\<close> is
  what a consumer's step has to do; positions are counted from the start of time, so that
  position \<open>n\<close> is slot \<open>n mod N\<close> of round \<open>n div N\<close>.
\<close>

section \<open>Colours and positions\<close>

text \<open>Index \<open>i\<close> and colour \<open>c\<close> of a ring of \<open>N\<close> entries stand for position \<open>n\<close>.\<close>

definition phase_at :: "nat \<Rightarrow> nat \<Rightarrow> bool \<Rightarrow> nat \<Rightarrow> bool" where
  "phase_at N i c n \<longleftrightarrow> 0 < N \<and> i = n mod N \<and> c = even (n div N)"

text \<open>
  The colour found in slot \<open>k\<close> when the device has written \<open>p\<close> entries into memory that
  was zeroed at first.
\<close>

definition written_color :: "nat \<Rightarrow> nat \<Rightarrow> nat \<Rightarrow> bool" where
  "written_color N p k = (if k < p mod N then even (p div N) else odd (p div N))"

lemma phase_at_less: "phase_at N i c n \<Longrightarrow> i < N"
  by (simp add: phase_at_def)

lemma phase_at_Suc:
  assumes "phase_at N i c n"
  shows "phase_at N (if Suc i = N then 0 else Suc i) (if Suc i = N then \<not> c else c) (Suc n)"
proof (cases "Suc i = N")
  case True
  then have "Suc n mod N = 0" "Suc n div N = Suc (n div N)"
    using assms by (auto simp: phase_at_def mod_Suc div_Suc)
  then show ?thesis using assms True by (simp add: phase_at_def)
next
  case False
  then have "Suc n mod N = Suc i" "Suc n div N = n div N"
    using assms by (auto simp: phase_at_def mod_Suc div_Suc)
  then show ?thesis using assms False by (simp add: phase_at_def)
qed

text \<open>
  With at most a ring's length between driver and device, the expected colour stands in the
  driver's slot exactly when the device has written past the driver's position.
\<close>

lemma written_color_new:
  assumes "0 < N" "n \<le> p" "p \<le> n + N"
  shows "written_color N p (n mod N) = even (n div N) \<longleftrightarrow> n < p"
proof -
  consider "p div N = n div N" "n mod N \<le> p mod N" | "p div N = Suc (n div N)" "p mod N \<le> n mod N"
  proof -
    have p: "p = p div N * N + p mod N" "n = n div N * N + n mod N" by simp_all
    have m: "p mod N < N" "n mod N < N" using assms(1) by simp_all
    have "n div N \<le> p div N" using assms(2) by (rule div_le_mono)
    moreover have "p div N \<le> Suc (n div N)"
      using div_le_mono [OF assms(3), of N] assms(1) by (simp add: div_add_self2)
    ultimately consider "p div N = n div N" | "p div N = Suc (n div N)" by linarith
    then show ?thesis
    proof cases
      case 1
      then have "p div N * N = n div N * N" by simp
      then have "n mod N \<le> p mod N" using p assms(2) by linarith
      then show ?thesis using 1 that by blast
    next
      case 2
      then have "p div N * N = n div N * N + N" by simp
      then have "p mod N \<le> n mod N" using p assms(3) by linarith
      then show ?thesis using 2 that by blast
    qed
  qed
  then show ?thesis
  proof cases
    case 1
    have "n < p \<longleftrightarrow> n mod N < p mod N"
      using 1 by (metis add_less_cancel_left div_mult_mod_eq)
    then show ?thesis using 1 by (simp add: written_color_def)
  next
    case 2
    then have "n < p" by (metis div_le_mono lessI not_le)
    then show ?thesis using 2 by (simp add: written_color_def)
  qed
qed

section \<open>The interface of a consumer\<close>

locale phase_ring =
  fixes size_of :: "'s \<Rightarrow> nat"
    and idx :: "'s \<Rightarrow> nat"
    and col :: "'s \<Rightarrow> bool"
    and advance :: "'s \<Rightarrow> 's"
  assumes size_advance: "size_of (advance s) = size_of s"
    and idx_advance: "idx s < size_of s \<Longrightarrow>
      idx (advance s) = (if Suc (idx s) = size_of s then 0 else Suc (idx s))"
    and col_advance: "idx s < size_of s \<Longrightarrow>
      col (advance s) = (if Suc (idx s) = size_of s then \<not> col s else col s)"
begin

lemma at_advance:
  assumes "phase_at (size_of s) (idx s) (col s) n"
  shows "phase_at (size_of (advance s)) (idx (advance s)) (col (advance s)) (Suc n)"
  using phase_at_Suc [OF assms] phase_at_less [OF assms]
  by (simp add: size_advance idx_advance col_advance)

lemma at_advances:
  assumes "phase_at (size_of s) (idx s) (col s) n"
  shows "phase_at (size_of ((advance ^^ k) s)) (idx ((advance ^^ k) s)) (col ((advance ^^ k) s)) (n + k)"
  using assms by (induction k) (simp_all add: at_advance)

text \<open>A full round brings the index back and flips the colour.\<close>

lemma full_round:
  assumes "phase_at (size_of s) (idx s) (col s) n"
  shows "idx ((advance ^^ size_of s) s) = idx s" "col ((advance ^^ size_of s) s) = (\<not> col s)"
proof -
  have size: "size_of ((advance ^^ k) s) = size_of s" for k
    by (induction k) (simp_all add: size_advance)
  show "idx ((advance ^^ size_of s) s) = idx s" "col ((advance ^^ size_of s) s) = (\<not> col s)"
    using at_advances [OF assms, of "size_of s"] assms by (auto simp: size phase_at_def div_add_self2)
qed

text \<open>What the consumer sees of a device that has written \<open>p\<close> entries.\<close>

lemma sees_new:
  assumes "phase_at (size_of s) (idx s) (col s) n" "n \<le> p" "p \<le> n + size_of s"
  shows "written_color (size_of s) p (idx s) = col s \<longleftrightarrow> n < p"
  using assms written_color_new [of "size_of s" n p] by (simp add: phase_at_def)

end

section \<open>Distances\<close>

lemma slot_distance:
  fixes n p N :: nat
  assumes "n \<le> p" "p < n + N"
  shows "(p mod N + (N - n mod N)) mod N = p - n"
proof -
  have N: "0 < N" using assms by simp
  obtain d where d: "p = n + d" "d < N" using assms by (auto simp: le_iff_add)
  have le: "n mod N \<le> N" using N by (simp add: less_imp_le)
  have "(p mod N + (N - n mod N)) mod N = (n + d + (N - n mod N)) mod N"
    by (simp add: d mod_add_left_eq)
  also have "n + d + (N - n mod N) = d + Suc (n div N) * N"
  proof -
    have "n div N * N + n mod N = n" by simp
    with le show ?thesis unfolding mult_Suc by linarith
  qed
  also have "\<dots> mod N = d"
    using d(2) by (simp del: mult_Suc)
  finally show ?thesis by (simp add: d)
qed

end
