(* ===== verification/Qdma_St_C2h.thy ===== *)
theory Qdma_St_C2h
  imports Qdma_C2h_Read Qdma_Phase
begin

unbundle bit_operations_syntax

text \<open>
  The completion ring of a streaming C2H queue (\<open>libqdma/qdma_st_c2h.c\<close>, default build):
  parsing the device's entries, receiving packets into the free list, and the processing of
  a batch of completions.
\<close>

section \<open>The completion ring\<close>

definition wrb_next :: "qdma_descq \<Rightarrow> qdma_descq" where
  "wrb_next descq =
     (let descq = descq\<lparr>dq_desc_wrb_cur := dq_desc_wrb_cur descq + 1, dq_cidx_wrb := dq_cidx_wrb descq + 1\<rparr>
      in if dq_cidx_wrb descq = qc_rngsz_wrb (dq_conf descq)
         then descq\<lparr>dq_cidx_wrb := 0, dq_color := \<not> dq_color descq, dq_desc_wrb_cur := 0\<rparr>
         else descq)"

record cmpl_info =
  ci_format :: bool
  ci_color :: bool
  ci_err :: bool
  ci_desc_used :: bool
  ci_len :: u16
  ci_pidx :: u32
  ci_entry :: nat

definition is_new_cmpl_entry :: "qdma_descq \<Rightarrow> cmpl_info \<Rightarrow> bool" where
  "is_new_cmpl_entry descq cmpl \<longleftrightarrow> ci_color cmpl = dq_color descq"

definition wrb_entry :: "qdma_descq \<Rightarrow> nat \<Rightarrow> u64" where
  "wrb_entry descq k = (case dq_desc_wrb descq of None \<Rightarrow> 0 | Some es \<Rightarrow> es ! k)"

definition parse_entry :: "u64 \<Rightarrow> nat \<Rightarrow> cmpl_info" where
  "parse_entry w k =
     (let format = bit w 0; desc_used = bit w 3
      in \<lparr>ci_format = format, ci_color = bit w 1, ci_err = bit w 2, ci_desc_used = desc_used,
          ci_len = (if \<not> format \<and> desc_used then ucast (drop_bit 4 w AND 0xFFFF) else 0),
          ci_pidx = 0, ci_entry = k\<rparr>)"

definition parse_cmpl_entry :: "qdma_descq \<Rightarrow> int \<times> cmpl_info \<times> qdma_descq" where
  "parse_cmpl_entry descq =
     (let cmpl = parse_entry (wrb_entry descq (dq_desc_wrb_cur descq)) (dq_desc_wrb_cur descq)
      in if ci_err cmpl \<or> ci_format cmpl \<or> (\<not> ci_desc_used cmpl \<and> \<not> qc_cmpl_udd_en (dq_conf descq))
         then (- EINVAL, cmpl, descq\<lparr>dq_err := True\<rparr>)
         else (0, cmpl, descq))"

section \<open>Receiving\<close>

definition upd_sdesc :: "nat \<Rightarrow> (qdma_sw_sg \<Rightarrow> qdma_sw_sg) \<Rightarrow> qdma_descq \<Rightarrow> qdma_descq" where
  "upd_sdesc k g = upd_flq (\<lambda>f. f\<lparr>fl_sdesc := (fl_sdesc f)[k := g (fl_sdesc f ! k)]\<rparr>)"

definition upd_sinfo :: "nat \<Rightarrow> (qdma_sdesc_info \<Rightarrow> qdma_sdesc_info) \<Rightarrow> qdma_descq \<Rightarrow> qdma_descq" where
  "upd_sinfo k g = upd_flq (\<lambda>f. f\<lparr>fl_sdesc_info := (fl_sdesc_info f)[k := g (fl_sdesc_info f ! k)]\<rparr>)"

lemma dq_conf_upd_slots [simp]:
  "dq_conf (upd_flq f q) = dq_conf q" "dq_conf (upd_sdesc k g q) = dq_conf q"
  "dq_conf (upd_sinfo k h q) = dq_conf q"
  by (simp_all add: upd_flq_def upd_sdesc_def upd_sinfo_def)

fun mark_loop :: "nat \<Rightarrow> nat \<Rightarrow> u32 \<Rightarrow> qdma_descq \<Rightarrow> qdma_descq" where
  "mark_loop 0 k cidx descq = descq"
| "mark_loop (Suc n) k cidx descq =
     mark_loop n (next_sdesc (dq_flq descq) k) cidx
       (upd_sinfo k (\<lambda>d. d\<lparr>sd_valid := True, sd_cidx := cidx\<rparr>) descq)"

definition pkt_desc_nr :: "qdma_flq \<Rightarrow> u32 \<Rightarrow> u32" where
  "pkt_desc_nr flq len =
     (let pg_shift = unat (fl_pg_shift flq); pg_mask = push_bit pg_shift 1 - 1
      in if len \<noteq> 0 then drop_bit pg_shift (len + pg_mask) else 1)"

definition rcv_pkt ::
  "env \<Rightarrow> u32 \<Rightarrow> cmpl_info \<Rightarrow> qdma_descq \<Rightarrow> trace \<Rightarrow> int \<times> cmpl_info \<times> qdma_descq \<times> trace" where
  "rcv_pkt E len cmpl descq tr =
     (let pidx = ci_pidx cmpl;
          pg_mask = push_bit (unat (fl_pg_shift (dq_flq descq))) 1 - 1;
          rngsz = qc_rngsz (dq_conf descq);
          fl_nr = pkt_desc_nr (dq_flq descq) len;
          last = ring_idx_incr pidx (fl_nr - 1) rngsz;
          descq = descq\<lparr>dq_avail := dq_avail descq - fl_nr\<rparr>;
          descq = (if len \<noteq> 0 then
                     let last_len = len AND pg_mask
                     in if last_len \<noteq> 0 then upd_sdesc (unat last) (\<lambda>d. d\<lparr>sg_len := last_len\<rparr>) descq
                        else descq
                   else upd_sdesc (unat last) (\<lambda>d. d\<lparr>sg_len := 0\<rparr>) descq);
          cmpl' = cmpl\<lparr>ci_pidx := ring_idx_incr last 1 rngsz\<rparr>
      in if qc_fp_c2h_packet (dq_conf descq) then
           let rv = env_packet E tr len fl_nr;
               tr = PacketCallback len fl_nr rv # tr
           in if rv < 0 then (rv, cmpl, descq, tr)
              else (0, cmpl', upd_flq (\<lambda>f. f\<lparr>fl_pidx_pend := last\<rparr>)
                                (descq\<lparr>dq_cidx_wrb_pend := dq_cidx_wrb descq\<rparr>), tr)
         else
           let cidx_next = ring_idx_incr (dq_cidx_wrb descq) 1 (qc_rngsz_wrb (dq_conf descq));
               descq = mark_loop (unat fl_nr) (unat pidx) cidx_next descq;
               descq = upd_sinfo (unat pidx) (\<lambda>d. d\<lparr>sd_sop := True\<rparr>) descq;
               descq = upd_sinfo (unat last) (\<lambda>d. d\<lparr>sd_eop := True\<rparr>) descq;
               descq = upd_flq (\<lambda>f. f\<lparr>fl_pkt_dlen := fl_pkt_dlen f + len\<rparr>) descq;
               descq = (if qc_cmpl_udd_en (dq_conf descq)
                        then upd_flq (\<lambda>f. f\<lparr>fl_udd_cnt := fl_udd_cnt f + 1\<rparr>) descq else descq)
           in (0, cmpl', descq, tr))"

definition rcv_udd_only ::
  "env \<Rightarrow> cmpl_info \<Rightarrow> qdma_descq \<Rightarrow> trace \<Rightarrow> int \<times> cmpl_info \<times> qdma_descq \<times> trace" where
  "rcv_udd_only E cmpl descq tr =
     (if qc_fp_c2h_packet (dq_conf descq) then
        let rv = env_packet E tr 0 0 in (rv, cmpl, descq, PacketCallback 0 0 rv # tr)
      else (0, cmpl, upd_flq (\<lambda>f. f\<lparr>fl_udd_cnt := fl_udd_cnt f + 1\<rparr>) descq, tr))"

text \<open>
  The completion loop for at most \<open>n\<close> entries: an error to return at once, the entries
  processed, the producer index reached.
\<close>

fun cmpl_loop ::
  "env \<Rightarrow> nat \<Rightarrow> nat \<Rightarrow> u32 \<Rightarrow> qdma_descq \<Rightarrow> trace \<Rightarrow> int option \<times> nat \<times> u32 \<times> qdma_descq \<times> trace" where
  "cmpl_loop E 0 proc_cnt pidx descq tr = (None, proc_cnt, pidx, descq, tr)"
| "cmpl_loop E (Suc n) proc_cnt pidx descq tr =
     (let (rv, cmpl, descq) = parse_cmpl_entry descq
      in if rv < 0 then (Some rv, proc_cnt, pidx, descq, tr)
      else if \<not> is_new_cmpl_entry descq cmpl then (None, proc_cnt, pidx, descq, tr)
      else
        let cmpl = cmpl\<lparr>ci_pidx := pidx\<rparr>;
            (rv, cmpl, descq, tr) =
              (if ci_desc_used cmpl then rcv_pkt E (ucast (ci_len cmpl)) cmpl descq tr
               else if qc_cmpl_udd_en (dq_conf descq) then rcv_udd_only E cmpl descq tr
               else (rv, cmpl, descq, tr))
        in if rv < 0 then (None, proc_cnt, pidx, descq, tr)
           else cmpl_loop E n (Suc proc_cnt) (ci_pidx cmpl) (wrb_next descq) tr)"

text \<open>What follows the loop once an entry has been processed.\<close>

definition cmpl_finish ::
  "build \<Rightarrow> env \<Rightarrow> u32 \<Rightarrow> u32 \<Rightarrow> u32 \<Rightarrow> qdma_descq \<Rightarrow> trace \<Rightarrow> qdma_descq \<times> trace" where
  "cmpl_finish b E pidx_wrb pidx pidx_pend descq tr =
     (let descq = descq\<lparr>dq_pidx_wrb := pidx_wrb, dq_pidx := pidx\<rparr>;
          uld_handler = qc_fp_c2h_packet (dq_conf descq);
          (descq, tr) = (if \<not> uld_handler then snd (qdma_c2h_packets_proc_dflt b E descq tr)
                         else (descq, tr));
          flq = dq_flq descq;
          (descq, tr) =
            (if fl_pidx_pend flq \<noteq> pidx_pend then
               let cnt = ring_idx_delta (fl_pidx_pend flq) pidx_pend (fl_size flq);
                   (_, descq, tr) = qdma_flq_refill E descq pidx_pend cnt (\<not> uld_handler) tr;
                   cnt = ring_idx_decr (fl_pidx_pend (dq_flq descq)) 1 (fl_size (dq_flq descq))
               in (descq, descq_c2h_pidx_update b descq cnt tr)
             else (descq, tr))
      in (descq, descq_wrb_cidx_update b descq (dq_cidx_wrb_pend descq) tr))"

definition descq_process_completion_st_c2h ::
  "build \<Rightarrow> env \<Rightarrow> int \<Rightarrow> qdma_descq \<Rightarrow> trace \<Rightarrow> int \<times> qdma_descq \<times> trace" where
  "descq_process_completion_st_c2h b E budget descq tr =
     (if dq_err descq then (0, descq, tr)
      else if \<not> qc_fp_c2h_packet (dq_conf descq) \<and> dq_pend_list descq = [] \<and> dq_work_list descq = []
        then (0, descq, tr)
      else
        let pidx_wrb = ucast (dq_wrb_wb_pidx descq);
            pend = sint (ring_idx_delta pidx_wrb (dq_cidx_wrb descq) (qc_rngsz_wrb (dq_conf descq)));
            pidx_pend = fl_pidx_pend (dq_flq descq)
        in if pend = 0 then (0, descq, tr)
        else
          let budget = (if budget = 0 \<or> budget > pend then pend else budget);
              (err, proc_cnt, pidx, descq, tr) = cmpl_loop E (nat budget) 0 (dq_pidx descq) descq tr
          in (case err of
                Some rv \<Rightarrow> (rv, descq, tr)
              | None \<Rightarrow>
                  if proc_cnt \<noteq> 0 then
                    let (descq, tr) = cmpl_finish b E pidx_wrb pidx pidx_pend descq tr in (0, descq, tr)
                  else (0, descq, tr)))"

section \<open>Consuming the completion ring\<close>

definition wrb_size :: "qdma_descq \<Rightarrow> nat" where
  "wrb_size q = unat (qc_rngsz_wrb (dq_conf q))"

lemma wrb_next_fields:
  "dq_conf (wrb_next q) = dq_conf q" "dq_desc_wrb (wrb_next q) = dq_desc_wrb q"
  "dq_err (wrb_next q) = dq_err q"
  by (simp_all add: wrb_next_def Let_def)

lemma wrb_next_idx:
  assumes "unat (dq_cidx_wrb q) < wrb_size q"
  shows "unat (dq_cidx_wrb (wrb_next q)) =
      (if Suc (unat (dq_cidx_wrb q)) = wrb_size q then 0 else Suc (unat (dq_cidx_wrb q)))"
    and "dq_color (wrb_next q) = (if Suc (unat (dq_cidx_wrb q)) = wrb_size q then \<not> dq_color q else dq_color q)"
    and "dq_desc_wrb_cur (wrb_next q) =
      (if Suc (unat (dq_cidx_wrb q)) = wrb_size q then 0 else Suc (dq_desc_wrb_cur q))"
proof -
  have "unat (dq_cidx_wrb q + 1) = Suc (unat (dq_cidx_wrb q))"
    using assms unat_u32_less [of "qc_rngsz_wrb (dq_conf q)"]
    by (simp add: unat_add_no_overflow wrb_size_def)
  then have "dq_cidx_wrb q + 1 = qc_rngsz_wrb (dq_conf q) \<longleftrightarrow> Suc (unat (dq_cidx_wrb q)) = wrb_size q"
    "unat (dq_cidx_wrb q + 1) = Suc (unat (dq_cidx_wrb q))"
    by (simp_all add: wrb_size_def word_unat_eq_iff)
  then show "unat (dq_cidx_wrb (wrb_next q)) =
      (if Suc (unat (dq_cidx_wrb q)) = wrb_size q then 0 else Suc (unat (dq_cidx_wrb q)))"
    "dq_color (wrb_next q) = (if Suc (unat (dq_cidx_wrb q)) = wrb_size q then \<not> dq_color q else dq_color q)"
    "dq_desc_wrb_cur (wrb_next q) =
      (if Suc (unat (dq_cidx_wrb q)) = wrb_size q then 0 else Suc (dq_desc_wrb_cur q))"
    by (simp_all add: wrb_next_def Let_def)
qed

interpretation wrb: phase_ring wrb_size "\<lambda>q. unat (dq_cidx_wrb q)" dq_color wrb_next
  by unfold_locales (simp_all add: wrb_next_idx wrb_next_fields wrb_size_def)

text \<open>The queue stands at position \<open>n\<close> of its completion ring, entry pointer included.\<close>

definition cmpl_at :: "qdma_descq \<Rightarrow> nat \<Rightarrow> bool" where
  "cmpl_at q n \<longleftrightarrow> phase_at (wrb_size q) (unat (dq_cidx_wrb q)) (dq_color q) n
     \<and> dq_desc_wrb_cur q = n mod wrb_size q"

lemma cmpl_at_wrb_next: "cmpl_at q n \<Longrightarrow> cmpl_at (wrb_next q) (Suc n)"
  using wrb.at_advance [of q n] wrb_next_idx(1,3) [of q]
  by (auto simp: cmpl_at_def phase_at_def dest: phase_at_less)

text \<open>What receiving and reading leave alone.\<close>

definition cmpl_part :: "qdma_descq \<Rightarrow> qdma_queue_conf \<times> u32 \<times> bool \<times> u64 list option \<times> nat \<times> bool" where
  "cmpl_part q = (dq_conf q, dq_cidx_wrb q, dq_color q, dq_desc_wrb q, dq_desc_wrb_cur q, dq_err q)"

named_theorems cmpl_frame

lemma cmpl_part_outside:
  assumes "outside_flq q' = outside_flq q"
  shows "cmpl_part q' = cmpl_part q"
  by (simp add: cmpl_part_def outside_flq_fields [OF assms])

lemma cmpl_part_updates [cmpl_frame]:
  "cmpl_part (upd_flq f q) = cmpl_part q"
  "cmpl_part (upd_sdesc k g q) = cmpl_part q"
  "cmpl_part (upd_sinfo k h q) = cmpl_part q"
  "cmpl_part (upd_req r m q) = cmpl_part q"
  "cmpl_part (q\<lparr>dq_avail := a\<rparr>) = cmpl_part q"
  "cmpl_part (q\<lparr>dq_pidx := x\<rparr>) = cmpl_part q"
  "cmpl_part (q\<lparr>dq_pidx_wrb := x\<rparr>) = cmpl_part q"
  "cmpl_part (q\<lparr>dq_cidx_wrb_pend := x\<rparr>) = cmpl_part q"
  "cmpl_part (list_del_req r q) = cmpl_part q"
  by (simp_all add: cmpl_part_def upd_flq_def upd_sdesc_def upd_sinfo_def upd_req_def list_del_req_def)

lemma cmpl_part_mark [cmpl_frame]: "cmpl_part (mark_loop n k c q) = cmpl_part q"
  by (induction n arbitrary: k q) (simp_all add: cmpl_frame)

lemma cmpl_part_rcv_pkt [cmpl_frame]:
  "cmpl_part (fst (snd (snd (rcv_pkt E len c q tr)))) = cmpl_part q"
  by (simp add: rcv_pkt_def Let_def cmpl_frame)

lemma cmpl_part_rcv_udd [cmpl_frame]:
  "cmpl_part (fst (snd (snd (rcv_udd_only E c q tr)))) = cmpl_part q"
  by (simp add: rcv_udd_only_def Let_def cmpl_frame)

lemma cmpl_part_req_done [cmpl_frame]: "cmpl_part (fst (qdma_sgt_req_done r e q tr)) = cmpl_part q"
  by (simp add: qdma_sgt_req_done_def Let_def split_beta cmpl_frame)

lemma cmpl_part_refill [cmpl_frame]: "cmpl_part (fst (snd (qdma_flq_refill E q i n rc tr))) = cmpl_part q"
  unfolding qdma_flq_refill_def by (rule cmpl_part_outside) (rule outside_refill_loop)

lemma cmpl_part_read_refill [cmpl_frame]:
  "cmpl_part (fst (c2h_read_refill E rf i fsg foff q tr)) = cmpl_part q"
  by (rule cmpl_part_outside) (rule outside_read_refill)

lemma cmpl_part_read_finish [cmpl_frame]:
  "cmpl_part (fst (snd (c2h_read_finish b r u s q tr))) = cmpl_part q"
  by (simp add: c2h_read_finish_def Let_def cmpl_frame)

lemma cmpl_part_read [cmpl_frame]:
  "cmpl_part (fst (snd (descq_st_c2h_read b E r u rf q tr))) = cmpl_part q"
  by (simp add: descq_st_c2h_read_def Let_def split_beta cmpl_frame)

lemma cmpl_part_packets [cmpl_frame]: "cmpl_part (fst (packets_loop b E rs q tr)) = cmpl_part q"
proof (induction rs arbitrary: q tr)
  case (Cons r rs)
  then show ?case by (simp add: Let_def split_beta cmpl_frame)
qed simp

lemma cmpl_part_finish [cmpl_frame]:
  "cmpl_part (fst (cmpl_finish b E pw p pp q tr)) = cmpl_part q"
  by (simp add: cmpl_finish_def qdma_c2h_packets_proc_dflt_def Let_def split_beta cmpl_frame)

text \<open>
  The loop consumes a run of entries of the expected colours; it goes on as long as the
  entries are good and, when packets have no handler, only stops at an old entry.
\<close>

definition entry_color :: "qdma_descq \<Rightarrow> nat \<Rightarrow> bool" where
  "entry_color q m = bit (wrb_entry q (m mod wrb_size q)) 1"

definition good_entry :: "qdma_descq \<Rightarrow> nat \<Rightarrow> bool" where
  "good_entry q m \<longleftrightarrow> (let w = wrb_entry q (m mod wrb_size q) in
     \<not> bit w 0 \<and> \<not> bit w 2 \<and> (bit w 3 \<or> qc_cmpl_udd_en (dq_conf q)))"

lemma cmpl_part_fields:
  assumes "cmpl_part q' = cmpl_part q"
  shows "dq_conf q' = dq_conf q" "dq_err q' = dq_err q" "wrb_size q' = wrb_size q"
    "wrb_entry q' = wrb_entry q" "entry_color q' = entry_color q" "good_entry q' = good_entry q"
    "cmpl_at q' = cmpl_at q"
proof -
  have f: "dq_conf q' = dq_conf q" "dq_err q' = dq_err q" "dq_cidx_wrb q' = dq_cidx_wrb q"
    "dq_color q' = dq_color q" "dq_desc_wrb q' = dq_desc_wrb q" "dq_desc_wrb_cur q' = dq_desc_wrb_cur q"
    using assms by (simp_all add: cmpl_part_def)
  show "dq_conf q' = dq_conf q" "dq_err q' = dq_err q" "wrb_size q' = wrb_size q" by (simp_all add: f wrb_size_def)
  moreover have "wrb_entry q' = wrb_entry q" by (simp add: fun_eq_iff wrb_entry_def f)
  ultimately show "wrb_entry q' = wrb_entry q" "entry_color q' = entry_color q"
    "good_entry q' = good_entry q" "cmpl_at q' = cmpl_at q"
    by (simp_all add: fun_eq_iff entry_color_def good_entry_def cmpl_at_def f)
qed

lemma wrb_next_entries:
  "wrb_entry (wrb_next q) = wrb_entry q" "wrb_size (wrb_next q) = wrb_size q"
  "entry_color (wrb_next q) = entry_color q" "good_entry (wrb_next q) = good_entry q"
proof -
  show "wrb_entry (wrb_next q) = wrb_entry q" by (simp add: fun_eq_iff wrb_entry_def wrb_next_fields)
  moreover show "wrb_size (wrb_next q) = wrb_size q" by (simp add: wrb_size_def wrb_next_fields)
  ultimately show "entry_color (wrb_next q) = entry_color q" "good_entry (wrb_next q) = good_entry q"
    by (simp_all add: fun_eq_iff entry_color_def good_entry_def wrb_next_fields)
qed

lemma parse_at:
  assumes "cmpl_at q n" "parse_cmpl_entry q = (rv, cmpl, q')"
  shows "ci_color cmpl = entry_color q n" "cmpl_part q' = cmpl_part q \<or> rv < 0"
    "rv < 0 \<longleftrightarrow> \<not> good_entry q n" "rv < 0 \<longrightarrow> rv = - EINVAL \<and> q' = q\<lparr>dq_err := True\<rparr>"
    "\<not> rv < 0 \<longrightarrow> rv = 0 \<and> q' = q" "\<not> rv < 0 \<Longrightarrow> \<not> ci_desc_used cmpl \<Longrightarrow> qc_cmpl_udd_en (dq_conf q)"
  using assms
  by (auto simp: parse_cmpl_entry_def Let_def parse_entry_def entry_color_def good_entry_def cmpl_at_def
      EINVAL_def split: if_splits)

text \<open>One entry, from parsing to moving on.\<close>

definition cmpl_recv ::
  "env \<Rightarrow> cmpl_info \<Rightarrow> int \<Rightarrow> qdma_descq \<Rightarrow> trace \<Rightarrow> int \<times> cmpl_info \<times> qdma_descq \<times> trace" where
  "cmpl_recv E cmpl rv q tr =
     (if ci_desc_used cmpl then rcv_pkt E (ucast (ci_len cmpl)) cmpl q tr
      else if qc_cmpl_udd_en (dq_conf q) then rcv_udd_only E cmpl q tr
      else (rv, cmpl, q, tr))"

lemma cmpl_part_recv: "cmpl_recv E c rv q tr = (rv', c', q', tr') \<Longrightarrow> cmpl_part q' = cmpl_part q"
  using cmpl_part_rcv_pkt [of E "ucast (ci_len c)" c q tr] cmpl_part_rcv_udd [of E c q tr]
  by (auto simp: cmpl_recv_def split: if_splits)

lemma cmpl_recv_ok:
  "\<not> qc_fp_c2h_packet (dq_conf q) \<Longrightarrow> fst (cmpl_recv E c 0 q tr) = 0"
  by (simp add: cmpl_recv_def rcv_pkt_def rcv_udd_only_def Let_def)

lemma cmpl_loop_Suc:
  assumes "cmpl_at q n" "good_entry q n" "entry_color q n = even (n div wrb_size q)"
  shows "\<exists>cmpl rv c' q1 tr1. cmpl_recv E cmpl 0 q tr = (rv, c', q1, tr1) \<and> cmpl_part q1 = cmpl_part q
    \<and> cmpl_loop E (Suc m) cnt pidx q tr =
      (if rv < 0 then (None, cnt, pidx, q1, tr1)
       else cmpl_loop E m (Suc cnt) (ci_pidx c') (wrb_next q1) tr1)"
proof -
  obtain rv0 cmpl q0 where p: "parse_cmpl_entry q = (rv0, cmpl, q0)" by (metis prod_cases3)
  note pa = parse_at [OF assms(1) p]
  have ok: "rv0 = 0" "q0 = q" "ci_color cmpl = dq_color q"
    using pa assms by (auto simp: cmpl_at_def phase_at_def)
  define c where "c = cmpl\<lparr>ci_pidx := pidx\<rparr>"
  obtain rv c' q1 tr1 where r: "cmpl_recv E c 0 q tr = (rv, c', q1, tr1)" by (metis prod_cases4)
  have "cmpl_loop E (Suc m) cnt pidx q tr =
      (if rv < 0 then (None, cnt, pidx, q1, tr1)
       else cmpl_loop E m (Suc cnt) (ci_pidx c') (wrb_next q1) tr1)"
    using ok r by (simp add: p is_new_cmpl_entry_def Let_def c_def [symmetric] flip: cmpl_recv_def)
  then show ?thesis using r cmpl_part_recv [OF r] by blast
qed

lemma cmpl_loop_run:
  assumes "cmpl_at q n" "cmpl_loop E m cnt pidx q tr = (err, cnt', pidx', q', tr')"
  shows "\<exists>k \<le> m. cnt' = cnt + k \<and> cmpl_at q' (n + k) \<and> dq_conf q' = dq_conf q
    \<and> wrb_entry q' = wrb_entry q
    \<and> (\<forall>j < k. entry_color q (n + j) = even ((n + j) div wrb_size q) \<and> good_entry q (n + j))
    \<and> (case err of Some rv \<Rightarrow> rv = - EINVAL \<and> dq_err q' \<and> k < m \<and> \<not> good_entry q (n + k)
       | None \<Rightarrow> dq_err q' = dq_err q \<and>
          (qc_fp_c2h_packet (dq_conf q) \<or> k = m
            \<or> entry_color q (n + k) \<noteq> even ((n + k) div wrb_size q)))"
  using assms
proof (induction m arbitrary: n cnt pidx q tr)
  case 0
  then show ?case by auto
next
  case (Suc m)
  note at = Suc.prems(1)
  show ?case
  proof (cases "good_entry q n \<and> entry_color q n = even (n div wrb_size q)")
    case False
    obtain rv0 cmpl q0 where p: "parse_cmpl_entry q = (rv0, cmpl, q0)" by (metis prod_cases3)
    note pa = parse_at [OF at p]
    show ?thesis
    proof (cases "good_entry q n")
      case False
      then have bad: "rv0 = - EINVAL" "q0 = q\<lparr>dq_err := True\<rparr>" "rv0 < 0" using pa by auto
      have "cmpl_at (q\<lparr>dq_err := True\<rparr>) n" "wrb_entry (q\<lparr>dq_err := True\<rparr>) = wrb_entry q"
        using at by (simp_all add: cmpl_at_def wrb_size_def wrb_entry_def fun_eq_iff)
      then show ?thesis
        using Suc.prems(2) bad False by (auto simp: p EINVAL_def intro!: exI [of _ 0])
    next
      case True
      with False pa have "rv0 = 0" "q0 = q" "ci_color cmpl \<noteq> dq_color q"
        using at by (auto simp: cmpl_at_def phase_at_def)
      moreover have "entry_color q n \<noteq> even (n div wrb_size q)" using True False by blast
      ultimately show ?thesis
        using Suc.prems at by (auto simp: p is_new_cmpl_entry_def intro!: exI [of _ 0])
    qed
  next
    case True
    then obtain cmpl rv c' q1 tr1 where r: "cmpl_recv E cmpl 0 q tr = (rv, c', q1, tr1)"
      and part: "cmpl_part q1 = cmpl_part q" and run: "cmpl_loop E (Suc m) cnt pidx q tr =
        (if rv < 0 then (None, cnt, pidx, q1, tr1)
         else cmpl_loop E m (Suc cnt) (ci_pidx c') (wrb_next q1) tr1)"
      using cmpl_loop_Suc [OF at] by meson
    note f = cmpl_part_fields [OF part]
    show ?thesis
    proof (cases "rv < 0")
      case True
      then have "qc_fp_c2h_packet (dq_conf q)" using cmpl_recv_ok [of q E cmpl tr] r by auto
      moreover have "err = None" "cnt' = cnt" "q1 = q'"
        using Suc.prems(2) True unfolding run by simp_all
      ultimately show ?thesis using f at by (auto intro!: exI [of _ 0])
    next
      case False
      define q2 where "q2 = wrb_next q1"
      have f2: "dq_conf q2 = dq_conf q" "wrb_entry q2 = wrb_entry q" "wrb_size q2 = wrb_size q"
        "entry_color q2 = entry_color q" "good_entry q2 = good_entry q" "dq_err q2 = dq_err q"
        by (simp_all add: q2_def wrb_next_entries wrb_next_fields f)
      have "cmpl_at q2 (Suc n)" using at f by (simp add: q2_def cmpl_at_wrb_next)
      moreover have "cmpl_loop E m (Suc cnt) (ci_pidx c') q2 tr1 = (err, cnt', pidx', q', tr')"
        using Suc.prems(2) False unfolding run q2_def by simp
      ultimately obtain k where k: "k \<le> m" "cnt' = Suc cnt + k" "cmpl_at q' (Suc n + k)"
        "dq_conf q' = dq_conf q" "wrb_entry q' = wrb_entry q"
        "\<forall>j < k. entry_color q (Suc n + j) = even ((Suc n + j) div wrb_size q) \<and> good_entry q (Suc n + j)"
        "case err of Some rv \<Rightarrow> rv = - EINVAL \<and> dq_err q' \<and> k < m \<and> \<not> good_entry q (Suc n + k)
         | None \<Rightarrow> dq_err q' = dq_err q \<and> (qc_fp_c2h_packet (dq_conf q) \<or> k = m
            \<or> entry_color q (Suc n + k) \<noteq> even ((Suc n + k) div wrb_size q))"
        using Suc.IH [of q2 "Suc n" "Suc cnt" "ci_pidx c'" tr1] unfolding f2 by blast
      have "\<forall>j < Suc k. entry_color q (n + j) = even ((n + j) div wrb_size q) \<and> good_entry q (n + j)"
        using k(6) \<open>good_entry q n \<and> _\<close> by (auto simp: less_Suc_eq_0_disj)
      then show ?thesis
        using k by (intro exI [of _ "Suc k"]) (auto split: option.splits)
    qed
  qed
qed

text \<open>Where the device's producer index puts it, and how many entries a call may take.\<close>

definition cmpl_pending :: "qdma_descq \<Rightarrow> nat" where
  "cmpl_pending q = unat (ring_idx_delta (ucast (dq_wrb_wb_pidx q)) (dq_cidx_wrb q) (qc_rngsz_wrb (dq_conf q)))"

definition cmpl_active :: "qdma_descq \<Rightarrow> bool" where
  "cmpl_active q \<longleftrightarrow> \<not> dq_err q \<and>
     (qc_fp_c2h_packet (dq_conf q) \<or> dq_pend_list q \<noteq> [] \<or> dq_work_list q \<noteq> [])"

definition cmpl_budget :: "int \<Rightarrow> nat \<Rightarrow> nat" where
  "cmpl_budget budget pend = nat (if budget = 0 \<or> budget > int pend then int pend else budget)"

lemma process_completion_eq:
  assumes "cmpl_active q" "cmpl_pending q \<noteq> 0" "cmpl_pending q < 2 ^ 31"
  shows "descq_process_completion_st_c2h b E budget q tr =
    (case cmpl_loop E (cmpl_budget budget (cmpl_pending q)) 0 (dq_pidx q) q tr of
       (err, cnt, pidx, q1, tr1) \<Rightarrow>
         (case err of Some rv \<Rightarrow> (rv, q1, tr1)
          | None \<Rightarrow> if cnt \<noteq> 0 then (0, cmpl_finish b E (ucast (dq_wrb_wb_pidx q)) pidx (fl_pidx_pend (dq_flq q)) q1 tr1)
                    else (0, q1, tr1)))"
proof -
  define pend where "pend = ring_idx_delta (ucast (dq_wrb_wb_pidx q)) (dq_cidx_wrb q) (qc_rngsz_wrb (dq_conf q))"
  have s: "sint pend = int (cmpl_pending q)"
    using sint_of_nat_u32 [OF assms(3)] by (simp add: cmpl_pending_def pend_def)
  have "\<not> dq_err q" "\<not> (\<not> qc_fp_c2h_packet (dq_conf q) \<and> dq_pend_list q = [] \<and> dq_work_list q = [])"
    using assms(1) by (auto simp: cmpl_active_def)
  then show ?thesis
    using assms(2) unfolding descq_process_completion_st_c2h_def Let_def pend_def [symmetric] s
    by (auto simp: cmpl_budget_def split: prod.splits option.splits)
qed

lemma process_completion_idle:
  assumes "\<not> cmpl_active q \<or> cmpl_pending q = 0"
  shows "descq_process_completion_st_c2h b E budget q tr = (0, q, tr)"
proof (cases "cmpl_pending q = 0")
  case True
  then have "ring_idx_delta (ucast (dq_wrb_wb_pidx q)) (dq_cidx_wrb q) (qc_rngsz_wrb (dq_conf q)) = 0"
    by (simp add: cmpl_pending_def unat_eq_zero)
  then show ?thesis by (simp add: descq_process_completion_st_c2h_def Let_def)
next
  case False
  then show ?thesis using assms by (auto simp: descq_process_completion_st_c2h_def cmpl_active_def)
qed

lemma cmpl_budget_le: "cmpl_budget b p \<le> p" "0 < b \<Longrightarrow> cmpl_budget b p \<le> nat b"
  by (auto simp: cmpl_budget_def)

lemma completion_run:
  assumes "cmpl_at q n" "cmpl_active q" "cmpl_pending q \<noteq> 0" "cmpl_pending q < 2 ^ 31"
    and "descq_process_completion_st_c2h b E budget q tr = (rv, q', tr')"
  shows "\<exists>k \<le> cmpl_budget budget (cmpl_pending q). cmpl_at q' (n + k) \<and> dq_conf q' = dq_conf q
    \<and> wrb_entry q' = wrb_entry q
    \<and> (\<forall>j < k. entry_color q (n + j) = even ((n + j) div wrb_size q) \<and> good_entry q (n + j))
    \<and> (if rv < 0 then rv = - EINVAL \<and> dq_err q' \<and> k < cmpl_budget budget (cmpl_pending q)
           \<and> \<not> good_entry q (n + k)
       else rv = 0 \<and> \<not> dq_err q' \<and> (qc_fp_c2h_packet (dq_conf q) \<or> k = cmpl_budget budget (cmpl_pending q)
            \<or> entry_color q (n + k) \<noteq> even ((n + k) div wrb_size q)))"
proof -
  obtain err cnt pidx q1 tr1 where loop:
    "cmpl_loop E (cmpl_budget budget (cmpl_pending q)) 0 (dq_pidx q) q tr = (err, cnt, pidx, q1, tr1)"
    by (metis prod_cases5)
  note eq = process_completion_eq [OF assms(2-4), of b E budget tr, unfolded assms(5) loop prod.case]
  have part: "cmpl_part q' = cmpl_part q1"
    using eq cmpl_part_finish [of b E "ucast (dq_wrb_wb_pidx q)" pidx "fl_pidx_pend (dq_flq q)" q1 tr1]
    by (auto split: option.splits if_splits) (metis fst_conv)
  note f = cmpl_part_fields [OF part]
  have rv: "rv = (case err of Some e \<Rightarrow> e | None \<Rightarrow> 0)"
    using eq by (auto split: option.splits if_splits)
  have "\<not> dq_err q" using assms(2) by (simp add: cmpl_active_def)
  with cmpl_loop_run [OF assms(1) loop] show ?thesis
    unfolding f rv by (cases err) (auto simp: EINVAL_def)
qed

text \<open>
  C12.  The completion ring and its colour: a call only takes entries the device has written in
  the current round and that carry no error, never more than announced or budgeted; the index,
  the colour and the entry pointer always stand for one position of the ring and move forward
  together.  A call that meets a bad entry says \<open>-EINVAL\<close> and marks the queue.
\<close>

theorem st_c2h_completion_safe:
  assumes "cmpl_at q n" "cmpl_pending q < 2 ^ 31"
  shows "case descq_process_completion_st_c2h b E budget q tr of (rv, q', tr') \<Rightarrow>
    \<exists>k. k \<le> cmpl_pending q \<and> (0 < budget \<longrightarrow> k \<le> nat budget) \<and> cmpl_at q' (n + k)
      \<and> (\<forall>j < k. entry_color q (n + j) = even ((n + j) div wrb_size q) \<and> good_entry q (n + j))
      \<and> (rv = 0 \<or> rv = - EINVAL \<and> dq_err q' \<and> \<not> good_entry q (n + k))"
proof -
  obtain rv q' tr' where run: "descq_process_completion_st_c2h b E budget q tr = (rv, q', tr')"
    by (metis prod_cases3)
  show ?thesis
  proof (cases "cmpl_active q \<and> cmpl_pending q \<noteq> 0")
    case False
    then have "rv = 0" "q' = q" using process_completion_idle [of q b E budget tr] run by auto
    then show ?thesis using assms by (auto simp: run intro!: exI [of _ 0])
  next
    case True
    then obtain k where k: "k \<le> cmpl_budget budget (cmpl_pending q)" "cmpl_at q' (n + k)"
      "\<forall>j < k. entry_color q (n + j) = even ((n + j) div wrb_size q) \<and> good_entry q (n + j)"
      "rv = 0 \<or> rv = - EINVAL \<and> dq_err q' \<and> \<not> good_entry q (n + k)"
      using completion_run [OF assms(1) _ _ assms(2) run] by (metis (no_types, lifting))
    moreover have "k \<le> cmpl_pending q" "0 < budget \<longrightarrow> k \<le> nat budget"
      using k(1) cmpl_budget_le [of budget "cmpl_pending q"] by auto
    ultimately show ?thesis unfolding run prod.case by blast
  qed
qed

text \<open>
  C13.  The driver catches up with the device: when the device has written the entries up to
  position \<open>p\<close>, each in the colour of its round and without error, and announced them, a
  queue without a packet handler that has requests waiting takes exactly the entries up to
  \<open>p\<close>, or as many as the budget allows, and reports success.
\<close>

theorem st_c2h_completion_catches_up:
  assumes "cmpl_at q n" "n < p" "p < n + wrb_size q" "wrb_size q \<le> 2 ^ 31"
    and "unat (dq_wrb_wb_pidx q) = p mod wrb_size q"
    and "\<forall>m. entry_color q m = written_color (wrb_size q) p (m mod wrb_size q)"
    and "\<forall>m. n \<le> m \<and> m < p \<longrightarrow> good_entry q m"
    and "\<not> dq_err q" "\<not> qc_fp_c2h_packet (dq_conf q)" "dq_pend_list q \<noteq> []" "0 \<le> budget"
  shows "case descq_process_completion_st_c2h b E budget q tr of (rv, q', tr') \<Rightarrow>
    rv = 0 \<and> \<not> dq_err q' \<and> cmpl_at q' (if budget = 0 then p else min p (n + nat budget))"
proof -
  define N where "N = wrb_size q"
  have N: "0 < N" "unat (dq_cidx_wrb q) = n mod N"
    using assms(1) by (auto simp: cmpl_at_def phase_at_def N_def)
  have uc: "unat (ucast (dq_wrb_wb_pidx q) :: u32) = unat (dq_wrb_wb_pidx q)"
    by (rule unat_ucast_u16)
  have "cmpl_pending q = (p mod N + (N - n mod N)) mod N"
    unfolding cmpl_pending_def N_def wrb_size_def
    using N assms(4,5) uc by (subst unat_ring_idx_delta) (simp_all add: wrb_size_def N_def)
  also have "\<dots> = p - n" using assms(2,3) by (intro slot_distance) (simp_all add: N_def)
  finally have pend: "cmpl_pending q = p - n" .
  have "cmpl_active q" using assms(8,10) by (simp add: cmpl_active_def)
  moreover have "p - n < 2 ^ 31" using assms(2-4) by simp
  moreover obtain rv q' tr' where run: "descq_process_completion_st_c2h b E budget q tr = (rv, q', tr')"
    by (metis prod_cases3)
  ultimately obtain k where k: "k \<le> cmpl_budget budget (p - n)" "cmpl_at q' (n + k)"
    "if rv < 0 then rv = - EINVAL \<and> dq_err q' \<and> k < cmpl_budget budget (p - n) \<and> \<not> good_entry q (n + k)
     else rv = 0 \<and> \<not> dq_err q' \<and> (k = cmpl_budget budget (p - n)
          \<or> entry_color q (n + k) \<noteq> even ((n + k) div wrb_size q))"
    using completion_run [OF assms(1), of b E budget tr rv q' tr', unfolded pend] assms(2,9)
    by (metis (no_types, lifting) diff_is_0_eq not_le)
  have le: "k \<le> p - n" using k(1) cmpl_budget_le(1) [of budget "p - n"] by simp
  have new: "entry_color q (n + k) = even ((n + k) div wrb_size q)" "good_entry q (n + k)" if "k < p - n"
  proof -
    have "n + k < p" using that by simp
    then show "entry_color q (n + k) = even ((n + k) div wrb_size q)"
      using written_color_new [of N "n + k" p] N assms(3,6) by (simp add: N_def)
    show "good_entry q (n + k)" using assms(7) that by simp
  qed
  have ok: "\<not> rv < 0" using k(3) new(2) cmpl_budget_le(1) [of budget "p - n"] by (auto split: if_splits)
  have kb: "k = cmpl_budget budget (p - n)"
  proof (cases "k < p - n")
    case True
    then show ?thesis using k(3) ok new(1) by auto
  next
    case False
    then show ?thesis using k(1) cmpl_budget_le(1) [of budget "p - n"] by simp
  qed
  have "n + k = (if budget = 0 then p else min p (n + nat budget))"
    using assms(2,11) unfolding kb cmpl_budget_def by auto
  then show ?thesis using k(2,3) ok by (auto simp: run)
qed

text \<open>The sample queue's completion ring: one good entry, written in the first round.\<close>

lemma sample_c2h_cmpl:
  "cmpl_at sample_c2h_queue 0" "wrb_size sample_c2h_queue = 4" "cmpl_pending sample_c2h_queue = 1"
  "wrb_entry sample_c2h_queue = (\<lambda>k. [0x3A, 0, 0, 0] ! k)"
  "entry_color sample_c2h_queue m = written_color 4 1 (m mod 4)"
  "good_entry sample_c2h_queue 0" "\<not> dq_err sample_c2h_queue"
  "\<not> qc_fp_c2h_packet (dq_conf sample_c2h_queue)" "dq_pend_list sample_c2h_queue = [9]"
  "dq_wrb_wb_pidx sample_c2h_queue = 1"
proof -
  show w: "wrb_size sample_c2h_queue = 4" by (simp add: wrb_size_def sample_c2h_defs)
  show e: "wrb_entry sample_c2h_queue = (\<lambda>k. [0x3A, 0, 0, 0] ! k)"
    by (simp add: fun_eq_iff wrb_entry_def sample_c2h_queue_def)
  show "cmpl_at sample_c2h_queue 0"
    by (simp add: cmpl_at_def w phase_at_def) (simp add: sample_c2h_defs)
  show "cmpl_pending sample_c2h_queue = 1"
    by (simp add: cmpl_pending_def ring_idx_delta_def sample_c2h_defs)
  have "m mod 4 = 0 \<or> m mod 4 = 1 \<or> m mod 4 = 2 \<or> m mod 4 = 3" by arith
  then show "entry_color sample_c2h_queue m = written_color 4 1 (m mod 4)"
    by (auto simp: entry_color_def w e written_color_def)
  show "good_entry sample_c2h_queue 0" by (simp add: good_entry_def w e)
  show "\<not> dq_err sample_c2h_queue" "\<not> qc_fp_c2h_packet (dq_conf sample_c2h_queue)"
    "dq_pend_list sample_c2h_queue = [9]" "dq_wrb_wb_pidx sample_c2h_queue = 1"
    by (simp_all add: sample_c2h_defs)
qed

theorem st_c2h_completion_safe_witness:
  "case descq_process_completion_st_c2h PF plain_env 0 sample_c2h_queue [] of (rv, q', tr') \<Rightarrow>
    \<exists>k \<le> 1. cmpl_at q' k"
  using st_c2h_completion_safe [OF sample_c2h_cmpl(1), where b = PF and E = plain_env and budget = 0 and tr = "[]"]
  by (auto simp: sample_c2h_cmpl(3))

theorem st_c2h_completion_catches_up_witness:
  "case descq_process_completion_st_c2h PF plain_env 0 sample_c2h_queue [] of (rv, q', tr') \<Rightarrow>
    rv = 0 \<and> \<not> dq_err q' \<and> cmpl_at q' 1"
  using st_c2h_completion_catches_up [OF sample_c2h_cmpl(1), where p = 1 and b = PF and E = plain_env
      and budget = 0 and tr = "[]"]
  by (auto simp: sample_c2h_cmpl(2-10))

text \<open>
  A completion entry with the error bit or the format without a length halts the queue,
  whatever its colour: the call returns \<open>-EINVAL\<close>, marks the queue and changes nothing else,
  and every later call returns at once and leaves the queue and the device alone.
\<close>

theorem st_c2h_error_halts:
  assumes "cmpl_active q" "cmpl_pending q \<noteq> 0" "cmpl_pending q < 2 ^ 31" "0 \<le> budget"
    and "bit (wrb_entry q (dq_desc_wrb_cur q)) 2 \<or> bit (wrb_entry q (dq_desc_wrb_cur q)) 0"
  shows "descq_process_completion_st_c2h b E budget q tr = (- EINVAL, q\<lparr>dq_err := True\<rparr>, tr)
    \<and> descq_process_completion_st_c2h b E budget' (q\<lparr>dq_err := True\<rparr>) tr' = (0, q\<lparr>dq_err := True\<rparr>, tr')"
proof
  obtain m where m: "cmpl_budget budget (cmpl_pending q) = Suc m"
    using assms(2,4) by (cases "cmpl_budget budget (cmpl_pending q)") (auto simp: cmpl_budget_def split: if_splits)
  define cmpl where "cmpl = fst (snd (parse_cmpl_entry q))"
  have p: "parse_cmpl_entry q = (- EINVAL, cmpl, q\<lparr>dq_err := True\<rparr>)"
    using assms(5) unfolding cmpl_def by (auto simp: parse_cmpl_entry_def Let_def parse_entry_def)
  have "cmpl_loop E (Suc m) 0 (dq_pidx q) q tr = (Some (- EINVAL), 0, dq_pidx q, q\<lparr>dq_err := True\<rparr>, tr)"
    unfolding cmpl_loop.simps p by (simp add: EINVAL_def)
  then show "descq_process_completion_st_c2h b E budget q tr = (- EINVAL, q\<lparr>dq_err := True\<rparr>, tr)"
    unfolding process_completion_eq [OF assms(1-3)] m by simp
  show "descq_process_completion_st_c2h b E budget' (q\<lparr>dq_err := True\<rparr>) tr' = (0, q\<lparr>dq_err := True\<rparr>, tr')"
    by (rule process_completion_idle) (simp add: cmpl_active_def)
qed

theorem st_c2h_error_halts_witness:
  "fst (descq_process_completion_st_c2h PF plain_env 0
    (sample_c2h_queue\<lparr>dq_desc_wrb := Some [4, 0, 0, 0]\<rparr>) []) = - EINVAL"
proof -
  let ?q = "sample_c2h_queue\<lparr>dq_desc_wrb := Some [4, 0, 0, 0]\<rparr>"
  have "cmpl_active ?q" "cmpl_pending ?q = 1" "bit (wrb_entry ?q (dq_desc_wrb_cur ?q)) 2"
    by (simp_all add: cmpl_active_def cmpl_pending_def wrb_entry_def ring_idx_delta_def sample_c2h_defs)
  then show ?thesis
    using st_c2h_error_halts [of ?q 0 PF plain_env "[]" 0 "[]"] by simp
qed

end
