(* ===== verification/Qdma_Queue.thy ===== *)
theory Qdma_Queue
  imports Qdma_St_C2h
begin

unbundle bit_operations_syntax

text \<open>
  The life of a descriptor queue (\<open>libqdma/qdma_descq.c\<close>): its initial state, configuration,
  the memory it needs, programming it into the device, servicing its writebacks and cleaning up.
  Functions that also change the device take and return the \<open>xlnx_dma_dev\<close> behind
  \<open>descq->xdev\<close>.
\<close>

section \<open>Initial state and configuration\<close>

definition qdma_descq_init :: "xlnx_dma_dev \<Rightarrow> u32 \<Rightarrow> u32 \<Rightarrow> qdma_descq" where
  "qdma_descq_init xdev idx_hw idx_sw =
     zero_descq\<lparr>dq_channel := 0, dq_qidx_hw := ucast (xd_qbase xdev) + idx_hw,
       dq_conf := (dq_conf zero_descq)\<lparr>qc_qidx := ucast idx_sw\<rparr>\<rparr>"

text \<open>The queue's name is not modelled.\<close>

definition qdma_descq_config ::
  "xlnx_dma_dev \<Rightarrow> qdma_queue_conf \<Rightarrow> bool \<Rightarrow> qdma_descq \<Rightarrow> qdma_descq" where
  "qdma_descq_config xdev qconf reconfig descq =
     (if \<not> reconfig then descq\<lparr>dq_conf := qconf\<rparr>
      else descq\<lparr>dq_conf := (dq_conf descq)
       \<lparr>qc_desc_rng_sz_idx := qc_desc_rng_sz_idx qconf, qc_cmpl_rng_sz_idx := qc_cmpl_rng_sz_idx qconf,
        qc_c2h_buf_sz_idx := qc_c2h_buf_sz_idx qconf, qc_irq_en := xd_num_vecs xdev \<noteq> 0,
        qc_wbk_en := qc_wbk_en qconf, qc_wbk_acc_en := qc_wbk_acc_en qconf,
        qc_wbk_pend_chk := qc_wbk_pend_chk qconf, qc_cmpl_stat_en := qc_cmpl_stat_en qconf,
        qc_cmpl_trig_mode := qc_cmpl_trig_mode qconf, qc_cmpl_timer_idx := qc_cmpl_timer_idx qconf,
        qc_fetch_credit := qc_fetch_credit qconf, qc_cmpl_cnt_th_idx := qc_cmpl_cnt_th_idx qconf,
        qc_bypass := qc_bypass qconf, qc_pfetch_en := qc_pfetch_en qconf,
        qc_cmpl_udd_en := qc_cmpl_udd_en qconf, qc_cmpl_desc_sz := qc_cmpl_desc_sz qconf\<rparr>\<rparr>)"

text \<open>
  The sizes of the queue from the device's registers.  The completion ring's size is read at
  the descriptor ring's index, as in the code.
\<close>

definition complete_conf :: "global_csr_conf \<Rightarrow> qdma_queue_conf \<Rightarrow> qdma_queue_conf" where
  "complete_conf csr qconf = qconf
     \<lparr>qc_rngsz := csr_ring_sz csr ! unat (qc_desc_rng_sz_idx qconf) - 1,
      qc_rngsz_wrb := csr_ring_sz csr ! unat (qc_desc_rng_sz_idx qconf) - 1,
      qc_c2h_bufsz := csr_c2h_buf_sz csr ! unat (qc_c2h_buf_sz_idx qconf)\<rparr>"

definition zero_csr :: global_csr_conf where
  "zero_csr = \<lparr>csr_ring_sz = replicate 16 0, csr_c2h_timer_cnt = replicate 16 0,
     csr_c2h_cnt_th = replicate 16 0, csr_c2h_buf_sz = replicate 16 0, csr_wb_acc = 0\<rparr>"

definition qdma_descq_config_complete ::
  "env \<Rightarrow> xdev_list \<Rightarrow> xlnx_dma_dev \<Rightarrow> qdma_descq \<Rightarrow> trace \<Rightarrow> int \<times> qdma_descq \<times> xlnx_dma_dev \<times> trace" where
  "qdma_descq_config_complete E devs xdev descq tr =
     (let (rv, csr, tr) = qdma_global_csr_get E devs xdev zero_csr tr
      in if rv < 0 then (rv, descq, xdev, tr)
      else
        let qconf = dq_conf descq;
            xdev = (if qc_fp_isr_top qconf
                    then xdev\<lparr>xd_conf := (xd_conf xdev)\<lparr>dc_isr_top_q_en := True\<rparr>\<rparr> else xdev);
            qconf = complete_conf csr qconf;
            descq = descq\<lparr>dq_conf := qconf, dq_avail := qc_rngsz qconf - 1, dq_pidx := 0, dq_cidx := 0,
                          dq_cidx_wrb := 0, dq_pidx_wrb := 0, dq_credit := 0\<rparr>;
            descq =
              (if qc_c2h qconf \<and> qc_st qconf then
                 let qconf = (if qc_cmpl_desc_sz qconf = 3 then qconf\<lparr>qc_cmpl_desc_sz := 0\<rparr> else qconf);
                     len = push_bit (unat (qc_cmpl_desc_sz qconf)) 8;
                     qconf = (if len > 8 then qconf\<lparr>qc_cmpl_udd_en := True\<rparr> else qconf)
                 in descq\<lparr>dq_wb_entry_len := len, dq_conf := qconf\<rparr>
               else descq)
        in (0, descq, xdev, tr))"

section \<open>Memory\<close>

text \<open>What the zeroed descriptor memory is for the queue's direction and mode.\<close>

definition zero_ring :: "qdma_queue_conf \<Rightarrow> desc_ring" where
  "zero_ring conf =
     (let n = unat (qc_rngsz conf)
      in if \<not> qc_st conf then
           MmDesc (replicate n \<lparr>mm_src_addr = 0, mm_flag_len = 0, mm_rsvd0 = 0, mm_dst_addr = 0, mm_rsvd1 = 0\<rparr>)
         else if qc_c2h conf then C2hDesc (replicate n 0)
         else H2cDesc (replicate n \<lparr>h2c_cdh_flags = 0, h2c_pld_len = 0, h2c_len = 0, h2c_flags = 0, h2c_src_addr = 0\<rparr>))"

definition qdma_descq_free_resource :: "qdma_descq \<Rightarrow> trace \<Rightarrow> qdma_descq \<times> trace" where
  "qdma_descq_free_resource descq tr =
     (let (descq, tr) =
            (if dq_desc descq \<noteq> NoDesc then
               (descq\<lparr>dq_desc := NoDesc, dq_desc_bus := 0\<rparr>,
                desc_ring_free (qc_rngsz (dq_conf descq)) (get_desc_size descq) (get_desc_wb_size descq)
                  (dq_desc_bus descq) tr)
             else (descq, tr))
      in if dq_desc_wrb descq \<noteq> None then
           let (descq, tr) = descq_flq_free_resource descq tr;
               tr = desc_ring_free (qc_rngsz_wrb (dq_conf descq)) (ucast (dq_wb_entry_len descq)) 8
                      (dq_desc_wrb_bus descq) tr
           in (descq\<lparr>dq_desc_wrb := None, dq_desc_wrb_bus := 0\<rparr>, tr)
         else (descq, tr))"

text \<open>The kernel's \<open>fls\<close>: one more than the position of the highest bit, 0 for 0.\<close>

definition fls :: "u32 \<Rightarrow> nat" where
  "fls w = (case List.find (\<lambda>i. bit w i) (rev [0..<32]) of None \<Rightarrow> 0 | Some i \<Rightarrow> Suc i)"

definition setup_flq :: "qdma_descq \<Rightarrow> qdma_descq" where
  "setup_flq descq =
     (let pg_shift = of_nat (fls (qc_c2h_bufsz (dq_conf descq))) - 1
      in descq\<lparr>dq_color := True, dq_flq := (dq_flq descq)\<lparr>fl_size := qc_rngsz (dq_conf descq),
             fl_pg_shift := pg_shift, fl_pg_order := pg_shift - of_nat PAGE_SHIFT\<rparr>\<rparr>)"

definition alloc_c2h_resource :: "env \<Rightarrow> qdma_descq \<Rightarrow> trace \<Rightarrow> bool \<times> qdma_descq \<times> trace" where
  "alloc_c2h_resource E descq tr =
     (let descq = setup_flq descq;
          (wrb, tr) = desc_ring_alloc E (qc_rngsz_wrb (dq_conf descq)) (ucast (dq_wb_entry_len descq)) 8 tr
      in case wrb of
        None \<Rightarrow> (False, descq, tr)
      | Some bus \<Rightarrow>
          let descq = descq\<lparr>dq_desc_wrb := Some (replicate (unat (qc_rngsz_wrb (dq_conf descq))) 0),
                            dq_desc_wrb_bus := bus, dq_wrb_wb_pidx := 0, dq_desc_wrb_cur := 0\<rparr>;
              (rv, descq, tr) = descq_flq_alloc_resource E descq tr
          in (\<not> rv < 0, descq, tr))"

text \<open>The allocations up to the label \<open>err_out\<close>; \<open>False\<close> is the jump to it.\<close>

definition alloc_rings :: "env \<Rightarrow> qdma_descq \<Rightarrow> trace \<Rightarrow> bool \<times> qdma_descq \<times> trace" where
  "alloc_rings E descq tr =
     (let (desc, tr) = desc_ring_alloc E (qc_rngsz (dq_conf descq)) (get_desc_size descq)
                         (get_desc_wb_size descq) tr
      in case desc of
           None \<Rightarrow> (False, descq, tr)
         | Some bus \<Rightarrow>
             let descq = descq\<lparr>dq_desc := zero_ring (dq_conf descq), dq_desc_bus := bus,
                               dq_desc_wb_cidx := 0\<rparr>
             in if qc_st (dq_conf descq) \<and> qc_c2h (dq_conf descq) then alloc_c2h_resource E descq tr
                else (True, descq, tr))"

definition qdma_descq_alloc_resource ::
  "env \<Rightarrow> xlnx_dma_dev \<Rightarrow> qdma_descq \<Rightarrow> trace \<Rightarrow> int \<times> qdma_descq \<times> xlnx_dma_dev \<times> trace" where
  "qdma_descq_alloc_resource E xdev descq tr =
     (let (ok, descq, tr) = alloc_rings E descq tr
      in if ok then
           let (descq, xdev) = desc_alloc_irq descq xdev in (0, descq, xdev, tr)
         else
           let (descq, tr) = qdma_descq_free_resource descq tr
           in (QDMA_ERR_OUT_OF_MEMORY, descq, xdev, tr))"

section \<open>Programming, servicing, cleaning up\<close>

definition qdma_descq_prog_hw ::
  "build \<Rightarrow> env \<Rightarrow> xlnx_dma_dev \<Rightarrow> qdma_descq \<Rightarrow> trace \<Rightarrow> int \<times> trace" where
  "qdma_descq_prog_hw b E xdev descq tr =
     (let (rv, tr) = qdma_descq_context_setup E xdev descq tr
      in if rv < 0 then (rv, tr)
      else if qc_st (dq_conf descq) \<and> qc_c2h (dq_conf descq) then
        let tr = descq_wrb_cidx_update b descq 0 tr;
            tr = descq_c2h_pidx_update b descq (qc_rngsz (dq_conf descq) - 1) tr
        in (rv, tr)
      else (rv, tr))"

definition qdma_descq_service_wb ::
  "build \<Rightarrow> env \<Rightarrow> int \<Rightarrow> qdma_descq \<Rightarrow> trace \<Rightarrow> qdma_descq \<times> trace" where
  "qdma_descq_service_wb b E budget descq tr =
     snd (if qc_st (dq_conf descq) \<and> qc_c2h (dq_conf descq)
          then descq_process_completion_st_c2h b E budget descq tr
          else descq_mm_n_h2c_wb b descq tr)"

definition qdma_descq_cleanup ::
  "env \<Rightarrow> xlnx_dma_dev \<Rightarrow> qdma_descq \<Rightarrow> trace \<Rightarrow> qdma_descq \<times> xlnx_dma_dev \<times> trace" where
  "qdma_descq_cleanup E xdev descq tr =
     (let (descq, tr) =
            (if dq_inited descq then
               (descq\<lparr>dq_inited := False, dq_online := False\<rparr>,
                snd (qdma_descq_context_clear E (dq_qidx_hw descq) (qc_st (dq_conf descq))
                      (qc_c2h (dq_conf descq)) False tr))
             else (descq, tr));
          xdev = desc_free_irq descq xdev;
          (descq, tr) = qdma_descq_free_resource descq tr
      in (descq, xdev, tr))"


section \<open>No memory is lost\<close>

text \<open>DMA memory taken from the kernel and given back: bytes and bus address.\<close>

fun dma_taken :: "trace \<Rightarrow> (u32 \<times> u64) multiset" where
  "dma_taken [] = {#}"
| "dma_taken (DmaAlloc n (Some a) # tr) = add_mset (n, a) (dma_taken tr)"
| "dma_taken (_ # tr) = dma_taken tr"

fun dma_given :: "trace \<Rightarrow> (u32 \<times> u64) multiset" where
  "dma_given [] = {#}"
| "dma_given (DmaFree n a # tr) = add_mset (n, a) (dma_given tr)"
| "dma_given (_ # tr) = dma_given tr"

named_theorems dma_frame

lemma dma_free_one [dma_frame]:
  "dma_taken (fm_trace (flq_free_one ord i m)) = dma_taken (fm_trace m)"
  "dma_given (fm_trace (flq_free_one ord i m)) = dma_given (fm_trace m)"
  by (simp_all add: flq_free_one_def flq_unmap_one_def Let_def)

lemma dma_free_all [dma_frame]:
  "dma_taken (fm_trace (fold (flq_free_one ord) ixs m)) = dma_taken (fm_trace m)"
  "dma_given (fm_trace (fold (flq_free_one ord) ixs m)) = dma_given (fm_trace m)"
  by (induction ixs arbitrary: m) (simp_all add: dma_frame)

lemma dma_flq_free [dma_frame]:
  "dma_taken (snd (descq_flq_free_resource q tr)) = dma_taken tr"
  "dma_given (snd (descq_flq_free_resource q tr)) = dma_given tr"
  by (simp_all add: descq_flq_free_resource_def Let_def dma_frame flq_mem_of_def)

lemma dma_fill_one [dma_frame]:
  "dma_taken (fm_trace (snd (flq_fill_one E ord i m))) = dma_taken (fm_trace m)"
  "dma_given (fm_trace (snd (flq_fill_one E ord i m))) = dma_given (fm_trace m)"
  by (simp_all add: flq_fill_one_def Let_def split: option.splits)

lemma dma_fill_loop [dma_frame]:
  "dma_taken (fm_trace (snd (flq_fill_loop E ord ixs m))) = dma_taken (fm_trace m)
    \<and> dma_given (fm_trace (snd (flq_fill_loop E ord ixs m))) = dma_given (fm_trace m)"
  by (induction ixs arbitrary: m) (simp_all add: dma_frame Let_def split_beta)

lemma dma_flq_alloc [dma_frame]:
  "dma_taken (snd (snd (descq_flq_alloc_resource E q tr))) = dma_taken tr"
  "dma_given (snd (snd (descq_flq_alloc_resource E q tr))) = dma_given tr"
  by (simp_all add: descq_flq_alloc_resource_def Let_def split_beta dma_frame flq_mem_of_def)

text \<open>The memory a queue holds.\<close>

definition queue_dma :: "qdma_descq \<Rightarrow> (u32 \<times> u64) multiset" where
  "queue_dma q =
     (if dq_desc q \<noteq> NoDesc then {#(qc_rngsz (dq_conf q) * get_desc_size q + get_desc_wb_size q, dq_desc_bus q)#} else {#})
     + (if dq_desc_wrb q \<noteq> None
        then {#(qc_rngsz_wrb (dq_conf q) * ucast (dq_wb_entry_len q) + 8, dq_desc_wrb_bus q)#} else {#})"

text \<open>What the free list operations keep of the rest of the queue.\<close>

lemma outside_flq_free: "outside_flq (fst (descq_flq_free_resource q tr)) = outside_flq q"
  by (simp add: descq_flq_free_resource_def Let_def) (simp add: outside_flq_def put_flq_mem_def)

lemma outside_more:
  assumes "outside_flq q' = outside_flq q"
  shows "dq_desc_bus q' = dq_desc_bus q" "dq_desc_wrb_bus q' = dq_desc_wrb_bus q"
    "dq_wb_entry_len q' = dq_wb_entry_len q" "get_desc_size q' = get_desc_size q"
  using arg_cong [OF assms, of dq_desc_bus] arg_cong [OF assms, of dq_desc_wrb_bus]
    arg_cong [OF assms, of dq_wb_entry_len] outside_flq_fields(2) [OF assms]
  by (simp_all add: outside_flq_def get_desc_size_def)

lemma free_resource_dma:
  assumes "qdma_descq_free_resource q tr = (q', tr')"
  shows "dma_taken tr' = dma_taken tr" "dma_given tr' = dma_given tr + queue_dma q"
    "dq_desc_wrb q' = None"
proof -
  define q1 where "q1 = (if dq_desc q \<noteq> NoDesc then q\<lparr>dq_desc := NoDesc, dq_desc_bus := 0\<rparr> else q)"
  define tr1 where "tr1 = (if dq_desc q \<noteq> NoDesc then desc_ring_free (qc_rngsz (dq_conf q))
      (get_desc_size q) (get_desc_wb_size q) (dq_desc_bus q) tr else tr)"
  have q1: "dq_desc_wrb q1 = dq_desc_wrb q" "dq_conf q1 = dq_conf q" "dq_wb_entry_len q1 = dq_wb_entry_len q"
    "dq_desc_wrb_bus q1 = dq_desc_wrb_bus q"
    by (simp_all add: q1_def)
  obtain q2 tr2 where f: "descq_flq_free_resource q1 tr1 = (q2, tr2)" by fastforce
  have o: "outside_flq q2 = outside_flq q1" using outside_flq_free [of q1 tr1] by (simp add: f)
  note o1 = outside_flq_fields(2,6) [OF o] outside_more [OF o]
  have d: "dma_taken tr2 = dma_taken tr1" "dma_given tr2 = dma_given tr1"
    using dma_flq_free [of q1 tr1] by (simp_all add: f)
  have run: "qdma_descq_free_resource q tr = (if dq_desc_wrb q \<noteq> None then
      (q2\<lparr>dq_desc_wrb := None, dq_desc_wrb_bus := 0\<rparr>,
       desc_ring_free (qc_rngsz_wrb (dq_conf q)) (ucast (dq_wb_entry_len q)) 8 (dq_desc_wrb_bus q) tr2)
     else (q1, tr1))"
  proof -
    have e: "(if dq_desc q \<noteq> NoDesc then (q\<lparr>dq_desc := NoDesc, dq_desc_bus := 0\<rparr>,
        desc_ring_free (qc_rngsz (dq_conf q)) (get_desc_size q) (get_desc_wb_size q) (dq_desc_bus q) tr)
       else (q, tr)) = (q1, tr1)" by (simp add: q1_def tr1_def)
    show ?thesis
      unfolding qdma_descq_free_resource_def e Let_def prod.case f
      by (simp add: q1 o1)
  qed
  have t1: "dma_taken tr1 = dma_taken tr" by (simp add: tr1_def desc_ring_free_def)
  show "dma_taken tr' = dma_taken tr" "dma_given tr' = dma_given tr + queue_dma q" "dq_desc_wrb q' = None"
    using assms q1(1) unfolding run by (auto simp: d t1 q1(2-) tr1_def desc_ring_free_def queue_dma_def split: if_splits)
qed

text \<open>The slots of a queue that is set up or being set up.\<close>

definition slots_ok :: "qdma_descq \<Rightarrow> bool" where
  "slots_ok q \<longleftrightarrow> fl_sdesc (dq_flq q) = [] \<or>
     dq_desc_wrb q \<noteq> None \<and> length (fl_sdesc (dq_flq q)) = unat (fl_size (dq_flq q))
     \<and> (\<forall>i < length (fl_sdesc (dq_flq q)). sg_pg (fl_sdesc (dq_flq q) ! i) = 0
          \<longrightarrow> sg_dma_addr (fl_sdesc (dq_flq q) ! i) = 0)"

lemma pages_ring_free [simp]:
  "taken (desc_ring_free n d w a tr) = taken tr" "given_back (desc_ring_free n d w a tr) = given_back tr"
  by (simp_all add: desc_ring_free_def)

lemma free_resource_pages:
  assumes "slots_ok q" "taken tr + B = given_back tr + held (fl_sdesc (dq_flq q)) + A"
    and "qdma_descq_free_resource q tr = (q', tr')"
  shows "taken tr' + B = given_back tr' + A"
proof -
  obtain q1 tr1 where q1: "(if dq_desc q \<noteq> NoDesc then (q\<lparr>dq_desc := NoDesc, dq_desc_bus := 0\<rparr>,
      desc_ring_free (qc_rngsz (dq_conf q)) (get_desc_size q) (get_desc_wb_size q) (dq_desc_bus q) tr)
     else (q, tr)) = (q1, tr1)" by fastforce
  then have f: "dq_flq q1 = dq_flq q" "dq_desc_wrb q1 = dq_desc_wrb q" "taken tr1 = taken tr"
    "given_back tr1 = given_back tr"
    by (auto split: if_splits)
  obtain q2 tr2 where f2: "descq_flq_free_resource q1 tr1 = (q2, tr2)" by fastforce
  have b: "taken tr2 + B = given_back tr2 + A"
  proof (cases "fl_sdesc (dq_flq q) = []")
    case True
    then have "tr2 = tr1" using f2 f by (simp add: descq_flq_free_resource_def Let_def flq_mem_of_def)
    then show ?thesis using assms(2) True f by (simp add: held_def)
  next
    case False
    then show ?thesis
      using flq_free_resource_books(1) [OF _ _ _ _ f2, of B A] assms(1,2) f by (simp add: slots_ok_def)
  qed
  have "fl_sdesc (dq_flq q) = []" if "dq_desc_wrb q = None" using assms(1) that by (simp add: slots_ok_def)
  then show ?thesis
    using assms(2,3) b f
    by (auto simp: qdma_descq_free_resource_def q1 f2 Let_def held_def split: if_splits)
qed

text \<open>
  The resources of a queue from an allocation: all the memory it took is in the queue.
\<close>

definition queue_books :: "trace \<Rightarrow> qdma_descq \<Rightarrow> trace \<Rightarrow> bool" where
  "queue_books tr q tr' \<longleftrightarrow>
     taken tr' + given_back tr = given_back tr' + held (fl_sdesc (dq_flq q)) + taken tr \<and>
     dma_taken tr' + dma_given tr = dma_given tr' + queue_dma q + dma_taken tr \<and> slots_ok q"

lemma zero_ring_cases: "zero_ring conf \<noteq> NoDesc"
  by (simp add: zero_ring_def Let_def)

lemma free_resource_books:
  assumes "queue_books tr q tr1" "qdma_descq_free_resource q tr1 = (q', tr')"
  shows "taken tr' + given_back tr = given_back tr' + taken tr"
    "dma_taken tr' + dma_given tr = dma_given tr' + dma_taken tr"
  using assms free_resource_dma [OF assms(2)] free_resource_pages [OF _ _ assms(2)]
  by (auto simp: queue_books_def ac_simps)

lemma flq_alloc_outside:
  assumes "descq_flq_alloc_resource E q tr = (rv, q', tr')" "dq_desc q = C2hDesc ds"
  shows "dq_conf q' = dq_conf q" "dq_desc_wrb q' = dq_desc_wrb q" "dq_desc_bus q' = dq_desc_bus q"
    "dq_desc_wrb_bus q' = dq_desc_wrb_bus q" "dq_wb_entry_len q' = dq_wb_entry_len q"
    "get_desc_size q' = get_desc_size q" "dq_desc q' \<noteq> NoDesc"
    "\<not> rv < 0 \<Longrightarrow> fl_size (dq_flq q') = fl_size (dq_flq q)"
proof -
  have "dq_conf q' = dq_conf q \<and> dq_desc_wrb q' = dq_desc_wrb q \<and> dq_desc_bus q' = dq_desc_bus q
    \<and> dq_desc_wrb_bus q' = dq_desc_wrb_bus q \<and> dq_wb_entry_len q' = dq_wb_entry_len q"
    using assms(1) by (auto simp: descq_flq_alloc_resource_def descq_flq_free_resource_def put_flq_mem_def
        Let_def split: prod.splits if_splits)
  then show "dq_conf q' = dq_conf q" "dq_desc_wrb q' = dq_desc_wrb q" "dq_desc_bus q' = dq_desc_bus q"
    "dq_desc_wrb_bus q' = dq_desc_wrb_bus q" "dq_wb_entry_len q' = dq_wb_entry_len q"
    "get_desc_size q' = get_desc_size q" by (simp_all add: get_desc_size_def)
  show "dq_desc q' \<noteq> NoDesc"
    using assms by (auto simp: descq_flq_alloc_resource_def descq_flq_free_resource_def put_flq_mem_def
        Let_def split: prod.splits if_splits)
  show "\<not> rv < 0 \<Longrightarrow> fl_size (dq_flq q') = fl_size (dq_flq q)"
    using assms by (auto simp: descq_flq_alloc_resource_def put_flq_mem_def ENOMEM_def
        Let_def split: prod.splits if_splits)
qed

lemma alloc_c2h_books:
  assumes "env_nonnull E" "qc_rngsz (dq_conf q) \<noteq> 0"
    and "dq_desc q = C2hDesc (replicate (unat (qc_rngsz (dq_conf q))) 0)"
    and "dq_desc_wrb q = None" "fl_sdesc (dq_flq q) = []" "queue_books tr0 q tr"
    and "alloc_c2h_resource E q tr = (ok, q', tr')"
  shows "queue_books tr0 q' tr'"
    "ok \<Longrightarrow> length (fl_sdesc (dq_flq q')) = unat (qc_rngsz (dq_conf q))
       \<and> (\<forall>i < unat (qc_rngsz (dq_conf q)). sg_pg (fl_sdesc (dq_flq q') ! i) \<noteq> 0
           \<and> c2h_ring (dq_desc q') ! i = sg_dma_addr (fl_sdesc (dq_flq q') ! i))"
proof -
  define q1 where "q1 = setup_flq q"
  define len where "len = qc_rngsz_wrb (dq_conf q) * ucast (dq_wb_entry_len q) + 8"
  have q1: "dq_conf q1 = dq_conf q" "dq_desc q1 = dq_desc q" "dq_desc_wrb q1 = None"
    "fl_sdesc (dq_flq q1) = []" "fl_size (dq_flq q1) = qc_rngsz (dq_conf q)"
    "dq_wb_entry_len q1 = dq_wb_entry_len q" "dq_desc_bus q1 = dq_desc_bus q"
    using assms(4,5) by (simp_all add: q1_def setup_flq_def Let_def)
  have b: "taken tr + given_back tr0 = given_back tr + taken tr0"
    "dma_taken tr + dma_given tr0 = dma_given tr + queue_dma q + dma_taken tr0"
    using assms(5,6) by (simp_all add: queue_books_def held_def)
  show "queue_books tr0 q' tr'"
    "ok \<Longrightarrow> length (fl_sdesc (dq_flq q')) = unat (qc_rngsz (dq_conf q))
       \<and> (\<forall>i < unat (qc_rngsz (dq_conf q)). sg_pg (fl_sdesc (dq_flq q') ! i) \<noteq> 0
           \<and> c2h_ring (dq_desc q') ! i = sg_dma_addr (fl_sdesc (dq_flq q') ! i))"
  proof (atomize (full), cases "env_dma_alloc E tr len")
    case None
    then have r: "\<not> ok" "q' = q1" "tr' = DmaAlloc len None # tr"
      using assms(7) by (simp_all add: alloc_c2h_resource_def desc_ring_alloc_def Let_def q1_def [symmetric] q1 len_def)
    have "queue_dma q1 = queue_dma q"
      using assms(4) by (simp add: queue_dma_def q1 get_desc_size_def get_desc_wb_size_def)
    then show "queue_books tr0 q' tr' \<and> (ok \<longrightarrow> length (fl_sdesc (dq_flq q')) = unat (qc_rngsz (dq_conf q))
       \<and> (\<forall>i < unat (qc_rngsz (dq_conf q)). sg_pg (fl_sdesc (dq_flq q') ! i) \<noteq> 0
           \<and> c2h_ring (dq_desc q') ! i = sg_dma_addr (fl_sdesc (dq_flq q') ! i)))"
      using b r q1 by (simp add: queue_books_def slots_ok_def held_def)
  next
    case (Some bus)
    define q2 where "q2 = q1\<lparr>dq_desc_wrb := Some (replicate (unat (qc_rngsz_wrb (dq_conf q))) 0),
        dq_desc_wrb_bus := bus, dq_wrb_wb_pidx := 0, dq_desc_wrb_cur := 0\<rparr>"
    define tr2 where "tr2 = DmaAlloc len (Some bus) # tr"
    obtain rv q3 tr3 where fa: "descq_flq_alloc_resource E q2 tr2 = (rv, q3, tr3)" by (metis prod_cases3)
    have r: "ok \<longleftrightarrow> \<not> rv < 0" "q' = q3" "tr' = tr3"
      using assms(7) Some fa
      by (auto simp: alloc_c2h_resource_def desc_ring_alloc_def Let_def q1_def [symmetric] q1 len_def
          q2_def tr2_def)
    have c2: "fl_size (dq_flq q2) \<noteq> 0" "dq_desc q2 = C2hDesc (replicate (unat (qc_rngsz (dq_conf q))) 0)"
      "length (replicate (unat (qc_rngsz (dq_conf q))) (0 :: u64)) = unat (fl_size (dq_flq q2))"
      "fl_sdesc (dq_flq q2) = []"
      using assms(2,3) by (simp_all add: q2_def q1)
    note fl = flq_alloc_all_or_nothing [OF assms(1) c2, of tr2, unfolded fa prod.case]
    note o = flq_alloc_outside [OF fa c2(2)]
    have "queue_dma q3 = queue_dma q2"
      using o c2(2) by (auto simp: queue_dma_def get_desc_wb_size_def)
    also have "\<dots> = queue_dma q + {#(len, bus)#}"
      using assms(3,4) by (simp add: queue_dma_def q2_def q1 get_desc_size_def get_desc_wb_size_def len_def)
    finally have dma: "queue_dma q3 = queue_dma q + {#(len, bus)#}" .
    have d3: "dma_taken tr3 = dma_taken tr2" "dma_given tr3 = dma_given tr2"
      using dma_flq_alloc [of E q2 tr2] by (simp_all add: fa)
    have t2: "taken tr2 = taken tr" "given_back tr2 = given_back tr" by (simp_all add: tr2_def)
    have pages: "taken tr3 + given_back tr0 = given_back tr3 + held (fl_sdesc (dq_flq q3)) + taken tr0"
    proof -
      have "taken tr3 + given_back tr + given_back tr0 = given_back tr3 + held (fl_sdesc (dq_flq q3)) + taken tr + given_back tr0"
        using fl by (simp add: t2)
      also have "\<dots> = given_back tr3 + held (fl_sdesc (dq_flq q3)) + taken tr0 + given_back tr"
        using b(1) by (simp add: ac_simps)
      finally show ?thesis by (simp add: ac_simps)
    qed
    have neg: "rv < 0 \<longleftrightarrow> rv \<noteq> 0" using fl by (auto simp: ENOMEM_def EINVAL_def split: if_splits)
    have "slots_ok q3"
      using fl o neg by (auto simp: slots_ok_def q2_def Let_def split: if_splits)
    moreover have "dma_taken tr3 + dma_given tr0 = dma_given tr3 + queue_dma q3 + dma_taken tr0"
      using b(2) by (simp add: dma d3 tr2_def)
    moreover have "rv = 0 \<longrightarrow> length (fl_sdesc (dq_flq q3)) = unat (qc_rngsz (dq_conf q))
       \<and> (\<forall>i < unat (qc_rngsz (dq_conf q)). sg_pg (fl_sdesc (dq_flq q3) ! i) \<noteq> 0
           \<and> c2h_ring (dq_desc q3) ! i = sg_dma_addr (fl_sdesc (dq_flq q3) ! i))"
      using fl by (auto simp: q2_def q1 Let_def)
    ultimately show "queue_books tr0 q' tr' \<and> (ok \<longrightarrow> length (fl_sdesc (dq_flq q')) = unat (qc_rngsz (dq_conf q))
       \<and> (\<forall>i < unat (qc_rngsz (dq_conf q)). sg_pg (fl_sdesc (dq_flq q') ! i) \<noteq> 0
           \<and> c2h_ring (dq_desc q') ! i = sg_dma_addr (fl_sdesc (dq_flq q') ! i)))"
      using pages neg r by (auto simp: queue_books_def)
  qed
qed

lemma desc_alloc_irq_queue: "\<exists>i. fst (desc_alloc_irq q x) = q \<or> fst (desc_alloc_irq q x) = q\<lparr>dq_intr_id := i\<rparr>"
  by (auto simp: desc_alloc_irq_def Let_def split_beta)

lemma queue_books_irq: "queue_books tr0 (q\<lparr>dq_intr_id := i\<rparr>) tr = queue_books tr0 q tr"
  by (simp add: queue_books_def queue_dma_def slots_ok_def get_desc_size_def get_desc_wb_size_def)

text \<open>A queue that holds no memory.\<close>

definition bare_queue :: "qdma_descq \<Rightarrow> bool" where
  "bare_queue q \<longleftrightarrow> dq_desc q = NoDesc \<and> dq_desc_wrb q = None \<and> fl_sdesc (dq_flq q) = []"


definition sample_c2h_conf :: qdma_queue_conf where
  "sample_c2h_conf = zero_queue_conf\<lparr>qc_st := True, qc_c2h := True, qc_rngsz := 4, qc_rngsz_wrb := 4,
     qc_c2h_bufsz := 4096\<rparr>"


section \<open>A configured queue\<close>

text \<open>
  Completing the configuration establishes the invariant of the descriptor ring: for a
  ring size register of at least 2 the queue starts empty, with all entries but one free and
  no credit.  The completion ring gets the same size, whatever size was configured for it, and
  its entries are 8, 16 or 32 bytes long, with user data enabled above 8.
\<close>

theorem config_complete_ring:
  assumes "qdma_global_csr_get E devs xdev zero_csr tr = (rv, csr, tr1)" "0 \<le> rv"
    and "2 \<le> unat (csr_ring_sz csr ! unat (qc_desc_rng_sz_idx (dq_conf q)))"
    and "unat (csr_ring_sz csr ! unat (qc_desc_rng_sz_idx (dq_conf q))) \<le> 2 ^ 31"
  shows "case qdma_descq_config_complete E devs xdev q tr of (rv', q', xdev', tr') \<Rightarrow>
    rv' = 0 \<and> ring_inv q' \<and> dq_pidx q' = 0 \<and> dq_cidx q' = 0 \<and> dq_credit q' = 0 \<and> dq_cidx_wrb q' = 0
    \<and> unat (dq_avail q') + 2 = unat (csr_ring_sz csr ! unat (qc_desc_rng_sz_idx (dq_conf q)))
    \<and> qc_rngsz_wrb (dq_conf q') = qc_rngsz (dq_conf q')
    \<and> (qc_st (dq_conf q) \<and> qc_c2h (dq_conf q) \<longrightarrow> dq_wb_entry_len q' \<in> {8, 16, 32}
         \<and> (8 < dq_wb_entry_len q' \<longrightarrow> qc_cmpl_udd_en (dq_conf q')))"
proof -
  define s where "s = csr_ring_sz csr ! unat (qc_desc_rng_sz_idx (dq_conf q))"
  have u: "unat (s - 1) = unat s - 1" "unat (s - 1 - 1) = unat s - 2"
  proof -
    show "unat (s - 1) = unat s - 1" using assms(3) by (simp add: s_def unat_sub_le word_le_nat_alt)
    then show "unat (s - 1 - 1) = unat s - 2"
      using assms(3) by (subst unat_sub_le) (simp_all add: s_def word_le_nat_alt)
  qed
  define conf where "conf = complete_conf csr (dq_conf q)"
  have conf: "qc_rngsz conf = s - 1" "qc_rngsz_wrb conf = s - 1" "qc_c2h conf = qc_c2h (dq_conf q)"
    "qc_st conf = qc_st (dq_conf q)" "qc_cmpl_desc_sz conf = qc_cmpl_desc_sz (dq_conf q)"
    by (simp_all add: conf_def complete_conf_def s_def)
  have inv: "ring_inv q'" if "dq_conf q' = c" "qc_rngsz c = s - 1" "dq_pidx q' = 0" "dq_cidx q' = 0"
    "dq_avail q' = s - 1 - 1" for q' c
  proof -
    have "0 < s - 1" using u(1) assms(3) by (simp add: s_def unat_less_iff)
    then show ?thesis using that u assms(3,4) by (simp add: ring_inv_def s_def ring_idx_delta_def) arith
  qed
  have sz: "x = 0 \<or> x = 1 \<or> x = 2 \<or> x = 3" for x :: u2
  proof -
    have "unat x < 4" using unsigned_less [of x] by simp
    then have "unat x = unat (0 :: u2) \<or> unat x = unat (1 :: u2) \<or> unat x = unat (2 :: u2)
        \<or> unat x = unat (3 :: u2)" by simp arith
    then show ?thesis by (simp only: word_unat_eq_iff)
  qed
  show ?thesis
    unfolding qdma_descq_config_complete_def assms(1) Let_def prod.case conf_def [symmetric]
    using assms(2) sz [of "qc_cmpl_desc_sz (dq_conf q)"] u assms(3)
    by (auto simp: conf inv s_def [symmetric])
qed

definition const_env :: "u32 \<Rightarrow> env" where
  "const_env v = plain_env\<lparr>env_readl := (\<lambda>tr r. v)\<rparr>"

lemma const_env_read_regs: "fst (read_regs (const_env v) r n tr) = replicate n v"
  by (induction n arbitrary: r tr) (simp_all add: read_reg_def const_env_def Let_def split_beta)

theorem config_complete_ring_witness:
  "case qdma_descq_config_complete (const_env 64) [sample_dev] sample_dev zero_descq [] of (rv, q', xdev', tr') \<Rightarrow>
    rv = 0 \<and> ring_inv q' \<and> unat (dq_avail q') = 62"
proof -
  obtain csr tr1 where g: "qdma_global_csr_get (const_env 64) [sample_dev] sample_dev zero_csr [] = (0, csr, tr1)"
    and r: "csr_ring_sz csr = replicate 16 64"
    by (simp add: qdma_global_csr_get_def hndl_bad_def xdev_check_hndl_def xdev_find_by_pdev_def sample_dev_def
        split_beta Let_def qdma_csr_read_rngsz_def const_env_read_regs QDMA_GLOBAL_CSR_ARRAY_SZ_def)
  have "csr_ring_sz csr ! unat (qc_desc_rng_sz_idx (dq_conf zero_descq)) = 64"
    by (simp add: r zero_descq_def zero_queue_conf_def)
  with config_complete_ring [OF g, of zero_descq] show ?thesis by auto
qed

end
