(* ===== verification/Qdma_Thread.thy ===== *)
theory Qdma_Thread
  imports Qdma_Queue
begin

unbundle bit_operations_syntax

text \<open>
  The kernel threads (\<open>libqdma/qdma_thread.c\<close>, \<open>libqdma/thread.c\<close>): which thread
  serves a queue, and what a thread does in one pass over its queues.  Threads are numbered; a queue
  on a thread's list is named by its device's address and its number there.
\<close>

section \<open>Assigning queues to threads\<close>

type_synonym qref = "nat \<times> nat"

record qdma_kthread =
  kt_task :: bool                  \<comment> \<open>\<open>task\<close> is not NULL\<close>
  kt_work_cnt :: u32
  kt_work_list :: "qref list"

text \<open>\<open>wrk_threads\<close> and \<open>wb_threads\<close>, both of length \<open>thread_cnt\<close>.\<close>

record qdma_threads =
  th_wrk :: "qdma_kthread list"
  th_wb :: "qdma_kthread list"

text \<open>
  The loop that chooses a thread: \<open>n\<close> is the number of threads, also the mark for no choice so
  far, \<open>v\<close> the load that the others are compared with.
\<close>

fun pick_loop :: "nat \<Rightarrow> u32 list \<Rightarrow> nat \<Rightarrow> nat \<Rightarrow> u32 \<Rightarrow> nat" where
  "pick_loop n [] i idx v = idx"
| "pick_loop n (c # cs) i idx v =
     (if idx = n then pick_loop n cs (Suc i) i c
      else if c = 0 then i
      else pick_loop n cs (Suc i) (if c < v then i else idx) v)"

definition add_item :: "qref \<Rightarrow> qdma_kthread \<Rightarrow> qdma_kthread" where
  "add_item r t = t\<lparr>kt_work_list := kt_work_list t @ [r], kt_work_cnt := kt_work_cnt t + 1\<rparr>"

definition del_item :: "qref \<Rightarrow> qdma_kthread \<Rightarrow> qdma_kthread" where
  "del_item r t = t\<lparr>kt_work_list := remove1 r (kt_work_list t), kt_work_cnt := kt_work_cnt t - 1\<rparr>"

text \<open>
  \<open>None\<close> is the access to a thread that does not exist, when there are none.  The completion
  thread is only used when the device has no vectors.
\<close>

definition qdma_thread_add_work ::
  "xlnx_dma_dev \<Rightarrow> qref \<Rightarrow> qdma_descq \<Rightarrow> qdma_threads \<Rightarrow> (qdma_descq \<times> qdma_threads) option" where
  "qdma_thread_add_work xdev r descq th =
     (let n = length (th_wrk th);
          idx = pick_loop n (map kt_work_cnt (th_wrk th)) 0 n 0
      in if n = 0 then None
      else
        let th = th\<lparr>th_wrk := (th_wrk th)[idx := add_item r (th_wrk th ! idx)]\<rparr>
        in if xd_num_vecs xdev = 0 then
             let j = n - idx - 1
             in Some (descq\<lparr>dq_wrkthp := Some idx, dq_wbthp := Some j\<rparr>,
                      th\<lparr>th_wb := (th_wb th)[j := add_item r (th_wb th ! j)]\<rparr>)
           else Some (descq\<lparr>dq_wrkthp := Some idx, dq_wbthp := None\<rparr>, th))"

definition qdma_thread_remove_work :: "qref \<Rightarrow> qdma_descq \<Rightarrow> qdma_threads \<Rightarrow> qdma_descq \<times> qdma_threads" where
  "qdma_thread_remove_work r descq th =
     (let rq_thread = dq_wrkthp descq;
          cmpl_thread = dq_wbthp descq;
          descq = descq\<lparr>dq_wbthp := None, dq_wrkthp := None\<rparr>;
          th = (case rq_thread of None \<Rightarrow> th
                | Some i \<Rightarrow> th\<lparr>th_wrk := (th_wrk th)[i := del_item r (th_wrk th ! i)]\<rparr>);
          th = (case cmpl_thread of None \<Rightarrow> th
                | Some i \<Rightarrow> th\<lparr>th_wb := (th_wb th)[i := del_item r (th_wb th ! i)]\<rparr>)
      in (descq, th))"

section \<open>What a thread does with a queue\<close>

text \<open>\<open>qdma_thread_wrk_pend\<close>: the number of requests that could be posted now.\<close>

definition qdma_thread_wrk_pend :: "qdma_descq \<Rightarrow> nat" where
  "qdma_thread_wrk_pend descq =
     length (filter (\<lambda>r. let req = dq_reqs descq r
                         in (rq_count req = 0 \<or> cb_offset req < rq_count req) \<and> dq_avail descq \<noteq> 0)
              (dq_work_list descq))"

text \<open>
  The loop of \<open>qdma_thread_wrk_proc\<close> over the requests that were on the list when it began; the
  entries are taken off the list while it is walked.
\<close>

fun wrk_loop :: "build \<Rightarrow> nat list \<Rightarrow> qdma_descq \<Rightarrow> trace \<Rightarrow> qdma_descq \<times> trace" where
  "wrk_loop b [] descq tr = (descq, tr)"
| "wrk_loop b (r # rs) descq tr =
     (let (rv, descq, tr) = qdma_descq_proc_sgt_request b r descq tr;
          (descq, tr) = (if rv < 0 then qdma_sgt_req_done r rv descq tr else (descq, tr))
      in if dq_avail descq = 0 then (descq, tr) else wrk_loop b rs descq tr)"

definition qdma_thread_wrk_proc :: "build \<Rightarrow> qdma_descq \<Rightarrow> trace \<Rightarrow> qdma_descq \<times> trace" where
  "qdma_thread_wrk_proc b descq tr = wrk_loop b (dq_work_list descq) descq tr"

definition qdma_thread_wb_pend :: "qdma_descq \<Rightarrow> bool" where
  "qdma_thread_wb_pend descq \<longleftrightarrow> dq_pend_list descq \<noteq> []"

definition qdma_thread_wb_proc :: "build \<Rightarrow> env \<Rightarrow> qdma_descq \<Rightarrow> trace \<Rightarrow> qdma_descq \<times> trace" where
  "qdma_thread_wb_proc b E descq tr = qdma_descq_service_wb b E 0 descq tr"

section \<open>One pass of a thread\<close>

text \<open>
  The body of \<open>xthread_main\<close>'s loop: every queue of the list is served, in order, whether it
  was the one with pending work or not.  \<open>get\<close> and \<open>put\<close> reach the queues of a memory \<open>'m\<close>.
\<close>

fun xthread_work_pending :: "(qref \<Rightarrow> 'm \<Rightarrow> qdma_descq) \<Rightarrow> (qdma_descq \<Rightarrow> bool) \<Rightarrow> qref list \<Rightarrow> 'm \<Rightarrow> bool" where
  "xthread_work_pending get pend [] m = False"
| "xthread_work_pending get pend (r # rs) m = (pend (get r m) \<or> xthread_work_pending get pend rs m)"

fun xthread_pass ::
  "(qref \<Rightarrow> 'm \<Rightarrow> qdma_descq) \<Rightarrow> (qref \<Rightarrow> qdma_descq \<Rightarrow> 'm \<Rightarrow> 'm)
     \<Rightarrow> (qdma_descq \<Rightarrow> trace \<Rightarrow> qdma_descq \<times> trace) \<Rightarrow> qref list \<Rightarrow> 'm \<Rightarrow> trace \<Rightarrow> 'm \<times> trace" where
  "xthread_pass get put proc [] m tr = (m, tr)"
| "xthread_pass get put proc (r # rs) m tr =
     (let (descq, tr) = proc (get r m) tr
      in xthread_pass get put proc rs (put r descq m) tr)"

section \<open>Creating and destroying the threads\<close>

definition zero_kthread :: qdma_kthread where
  "zero_kthread = \<lparr>kt_task = False, kt_work_cnt = 0, kt_work_list = []\<rparr>"

text \<open>\<open>qdma_kthread_start\<close> of the thread \<open>name\<close>.\<close>

definition qdma_kthread_start :: "env \<Rightarrow> kthread \<Rightarrow> qdma_kthread \<Rightarrow> trace \<Rightarrow> int \<times> qdma_kthread \<times> trace" where
  "qdma_kthread_start E name t tr =
     (if kt_task t then (- EINVAL, t, tr)
      else
        let ok = env_kthread E tr name;
            tr = KthreadStart name ok # tr;
            t = t\<lparr>kt_work_list := []\<rparr>
        in if ok then (0, t\<lparr>kt_task := True\<rparr>, Wakeup name # tr) else (- EFAULT, t\<lparr>kt_task := False\<rparr>, tr))"

definition qdma_kthread_stop :: "env \<Rightarrow> kthread \<Rightarrow> qdma_kthread \<Rightarrow> trace \<Rightarrow> int \<times> qdma_kthread \<times> trace" where
  "qdma_kthread_stop E name t tr =
     (if \<not> kt_task t then (0, t, tr)
      else
        let rv = env_kthread_stop E tr name;
            tr = KthreadStop name rv # tr
        in if rv < 0 then (rv, t, tr) else (0, t\<lparr>kt_task := False\<rparr>, tr))"

text \<open>
  The loops of \<open>qdma_threads_create\<close>: the first one goes on when a thread does not start, the
  second one stops.
\<close>

fun create_wrk_loop :: "env \<Rightarrow> nat list \<Rightarrow> qdma_kthread list \<Rightarrow> trace \<Rightarrow> qdma_kthread list \<times> trace" where
  "create_wrk_loop E [] ts tr = (ts, tr)"
| "create_wrk_loop E (i # is) ts tr =
     (let (rv, t, tr) = qdma_kthread_start E (WrkThread i) (ts ! i) tr
      in create_wrk_loop E is (ts[i := t]) tr)"

fun create_wb_loop :: "env \<Rightarrow> nat list \<Rightarrow> qdma_kthread list \<Rightarrow> trace \<Rightarrow> int \<times> qdma_kthread list \<times> trace" where
  "create_wb_loop E [] ts tr = (0, ts, tr)"
| "create_wb_loop E (i # is) ts tr =
     (let (rv, t, tr) = qdma_kthread_start E (WbThread i) (ts ! i) tr
      in if rv < 0 then (rv, ts[i := t], tr) else create_wb_loop E is (ts[i := t]) tr)"

text \<open>No threads are two empty arrays.  The argument of the allocation is the number of threads.\<close>

definition qdma_threads_create :: "env \<Rightarrow> qdma_threads \<Rightarrow> trace \<Rightarrow> int \<times> qdma_threads \<times> trace" where
  "qdma_threads_create E th tr =
     (if th_wrk th \<noteq> [] then (0, th, tr)
      else
        let n = env_num_cpus E tr;
            ok = env_kalloc E tr (of_nat (2 * n));
            tr = Kalloc (of_nat (2 * n)) ok # tr
        in if \<not> ok then (- ENOMEM, th, tr)
        else
          let (wrk, tr) = create_wrk_loop E [0..<n] (replicate n zero_kthread) tr;
              (rv, wb, tr) = create_wb_loop E [0..<n] (replicate n zero_kthread) tr
          in if rv < 0 then (rv, \<lparr>th_wrk = [], th_wb = []\<rparr>, Kfree # tr)
             else (0, \<lparr>th_wrk = wrk, th_wb = wb\<rparr>, tr))"

fun stop_threads :: "env \<Rightarrow> (nat \<Rightarrow> kthread) \<Rightarrow> nat \<Rightarrow> qdma_kthread list \<Rightarrow> trace \<Rightarrow> trace" where
  "stop_threads E name i [] tr = tr"
| "stop_threads E name i (t # ts) tr =
     (let (rv, t, tr) = qdma_kthread_stop E (name i) t tr in stop_threads E name (Suc i) ts tr)"

definition qdma_threads_destroy :: "env \<Rightarrow> qdma_threads \<Rightarrow> trace \<Rightarrow> qdma_threads \<times> trace" where
  "qdma_threads_destroy E th tr =
     (if th_wrk th = [] then (th, tr)
      else (\<lparr>th_wrk = [], th_wb = []\<rparr>,
            Kfree # stop_threads E WbThread 0 (th_wb th) (stop_threads E WrkThread 0 (th_wrk th) tr)))"

section \<open>The choice of a thread\<close>

lemma pick_loop_range:
  assumes "idx < n \<or> (idx = n \<and> cs \<noteq> [])" "i + length cs = n"
  shows "pick_loop n cs i idx v < n"
  using assms by (induction cs arbitrary: i idx v) (auto split: if_splits)

lemma pick_in_range: "th_wrk th \<noteq> [] \<Longrightarrow>
  pick_loop (length (th_wrk th)) (map kt_work_cnt (th_wrk th)) 0 (length (th_wrk th)) 0 < length (th_wrk th)"
  by (rule pick_loop_range) auto

text \<open>
  The load compared with is the first thread's and is not lowered when a less loaded thread is
  found, so the choice is the last thread less loaded than the first, not the least loaded one.
\<close>

lemma thread_choice_not_least: "pick_loop 3 [5, 1, 4] 0 3 0 = 2"
  by simp

lemma thread_choice_free: "\<lbrakk>0 \<notin> set cs; i + length cs = n; idx < n\<rbrakk> \<Longrightarrow> pick_loop n (cs @ 0 # ds) i idx v = n"
  by (induction cs arbitrary: i idx v) auto

section \<open>No thread is lost\<close>

text \<open>The threads that run after a trace.\<close>

fun running :: "trace \<Rightarrow> kthread multiset" where
  "running [] = {#}"
| "running (KthreadStart t True # tr) = add_mset t (running tr)"
| "running (KthreadStop t rv # tr) = (if rv < 0 then running tr else running tr - {#t#})"
| "running (_ # tr) = running tr"

definition tasks :: "(nat \<Rightarrow> kthread) \<Rightarrow> nat list \<Rightarrow> qdma_kthread list \<Rightarrow> kthread multiset" where
  "tasks name is ts = mset (map name (filter (\<lambda>i. kt_task (ts ! i)) is))"

lemma kthread_start_spec:
  assumes "\<not> kt_task t" "qdma_kthread_start E name t tr = (rv, t', tr')"
  shows "running tr' = running tr + (if kt_task t' then {#name#} else {#})" "rv < 0 \<longleftrightarrow> \<not> kt_task t'"
  using assms by (auto simp: qdma_kthread_start_def Let_def errno_defs split: if_splits)

lemma create_wrk_loop_spec:
  assumes "create_wrk_loop E is ts tr = (ts', tr')" "distinct is" "\<forall>i \<in> set is. i < length ts \<and> \<not> kt_task (ts ! i)"
  shows "length ts' = length ts \<and> running tr' = running tr + tasks WrkThread is ts' \<and> (\<forall>j. j \<notin> set is \<longrightarrow> ts' ! j = ts ! j)"
  using assms
proof (induction "is" arbitrary: ts tr)
  case (Cons i "is")
  obtain rv t tr1 where s: "qdma_kthread_start E (WrkThread i) (ts ! i) tr = (rv, t, tr1)" by (metis prod_cases3)
  have "\<forall>j \<in> set is. j < length (ts[i := t]) \<and> \<not> kt_task (ts[i := t] ! j)"
    using Cons.prems(2,3) by (auto simp: nth_list_update)
  with Cons.IH [of "ts[i := t]" tr1] Cons.prems s
  have ih: "length ts' = length ts" "running tr' = running tr1 + tasks WrkThread is ts'"
    "\<forall>j. j \<notin> set is \<longrightarrow> ts' ! j = ts[i := t] ! j" by auto
  have "ts' ! i = t" using ih(3) Cons.prems(2,3) by auto
  then show ?case
    using ih kthread_start_spec(1) [OF _ s] Cons.prems(2,3) by (auto simp: tasks_def nth_list_update)
qed (simp add: tasks_def)

lemma create_wb_loop_spec:
  assumes "create_wb_loop E is ts tr = (rv, ts', tr')" "distinct is" "\<forall>i \<in> set is. i < length ts \<and> \<not> kt_task (ts ! i)"
  shows "length ts' = length ts \<and> running tr' = running tr + tasks WbThread is ts' \<and> (\<forall>j. j \<notin> set is \<longrightarrow> ts' ! j = ts ! j)
    \<and> (rv = 0 \<longrightarrow> (\<forall>i \<in> set is. kt_task (ts' ! i))) \<and> (rv = 0 \<or> rv < 0)"
  using assms
proof (induction "is" arbitrary: ts tr)
  case (Cons i "is")
  obtain rv1 t tr1 where s: "qdma_kthread_start E (WbThread i) (ts ! i) tr = (rv1, t, tr1)" by (metis prod_cases3)
  have idle: "\<forall>j \<in> set is. j < length (ts[i := t]) \<and> \<not> kt_task (ts[i := t] ! j)"
    using Cons.prems(2,3) by (auto simp: nth_list_update)
  have S: "running tr1 = running tr + (if kt_task t then {#WbThread i#} else {#})" "rv1 < 0 \<longleftrightarrow> \<not> kt_task t"
    using kthread_start_spec [OF _ s] Cons.prems(3) by simp_all
  show ?case
  proof (cases "rv1 < 0")
    case True
    have "tasks WbThread is (ts[i := t]) = {#}"
      using idle by (simp add: tasks_def)
    then show ?thesis using True S Cons.prems s by (auto simp: tasks_def)
  next
    case False
    with Cons.IH [of "ts[i := t]" tr1] Cons.prems s idle
    have ih: "length ts' = length ts" "running tr' = running tr1 + tasks WbThread is ts'"
      "\<forall>j. j \<notin> set is \<longrightarrow> ts' ! j = ts[i := t] ! j" "rv = 0 \<longrightarrow> (\<forall>i \<in> set is. kt_task (ts' ! i))" "rv = 0 \<or> rv < 0" by auto
    have "ts' ! i = t" using ih(3) Cons.prems(2,3) by auto
    then show ?thesis
      using ih S False Cons.prems(2,3) by (auto simp: tasks_def nth_list_update)
  qed
qed (simp add: tasks_def)

lemma stop_threads_spec:
  assumes "\<And>t k. \<not> env_kthread_stop E t k < 0"
    and "running tr = M + mset (map name (map ((+) i) (filter (\<lambda>j. kt_task (ts ! j)) [0..<length ts])))"
  shows "running (stop_threads E name i ts tr) = M"
  using assms(2)
proof (induction ts arbitrary: i tr)
  case (Cons t ts)
  have split: "filter (\<lambda>j. kt_task ((t # ts) ! j)) [0..<length (t # ts)]
    = (if kt_task t then [0] else []) @ map Suc (filter (\<lambda>j. kt_task (ts ! j)) [0..<length ts])"
    by (simp add: upt_conv_Cons filter_map comp_def del: upt_Suc flip: map_Suc_upt)
  define tr1 where "tr1 = snd (snd (qdma_kthread_stop E (name i) t tr))"
  have "running tr1 = M + mset (map name (map ((+) (Suc i)) (filter (\<lambda>j. kt_task (ts ! j)) [0..<length ts])))"
    using Cons.prems assms(1) unfolding split
    by (cases "kt_task t") (simp_all add: tr1_def qdma_kthread_stop_def Let_def comp_def)
  from Cons.IH [OF this] show ?case by (simp add: split_beta tr1_def)
qed simp



lemma threads_forgotten:
  "case qdma_threads_create (plain_env\<lparr>env_kthread := (\<lambda>tr t. t \<noteq> WbThread 0)\<rparr>) \<lparr>th_wrk = [], th_wb = []\<rparr> [] of
    (rv, th1, tr1) \<Rightarrow> rv = - EFAULT \<and> th_wrk th1 = [] \<and> running tr1 = {#WrkThread 0, WrkThread 1#}"
  by (simp add: qdma_threads_create_def Let_def qdma_kthread_start_def zero_kthread_def upt_rec errno_defs)

end
