(* ===== verification/Qdma_Intr.thy ===== *)
theory Qdma_Intr
  imports Qdma_Context Qdma_Descq Qdma_Phase
begin

text \<open>
  Interrupts (\<open>libqdma/qdma_intr.c\<close>): the hardware error registers and their reports, the
  assignment of MSI-X vectors, the rings of aggregated interrupts, and the handlers.  The
  aggregation ring is the second provider of the interface \<open>phase_ring\<close>.
\<close>

section \<open>Hardware errors\<close>

text \<open>
  The table \<open>err_stat_info\<close>: status register, mask, names of the error bits.  The array has
  \<open>HW_ERRS = 7\<close> entries and six initialisers, so the last one is zero.
\<close>

definition glbl_err_info :: "string list" where
  "glbl_err_info = [''err_ram_sbe'', ''err_ram_dbe'', ''err_dsc'', ''err_trq'', ''err_h2c_mm_0'',
     ''err_h2c_mm_1'', ''err_c2h_mm_0'', ''err_c2h_mm_1'', ''err_c2h_st'', ''ind_ctxt_cmd_err'',
     ''err_bdg'', ''err_h2c_st'']"

definition dsc_err_info :: "string list" where
  "dsc_err_info = [''poison'', ''ur_ca'', ''param'', ''addr'', ''tag'', ''flr'', ''timeout'',
     ''dat_poison'', ''flr_cancel'', ''dma'', ''dsc'', ''rq_cancel'', ''dbe'', ''sbe'']"

definition trq_err_info :: "string list" where
  "trq_err_info = [''unmapped'', ''qid_range'', ''vf_access_err'', ''tcp_timeout'']"

definition c2h_err_info :: "string list" where
  "c2h_err_info = [''mty_mismatch'', ''len_mismatch'', ''qid_mismatch'', ''desc_rsp_err'',
     ''eng_wpl_data_par_err'', ''msi_int_fail'', ''err_desc_cnt'', ''portid_ctxt_mismatch'',
     ''portid_byp_in_mismatch'', ''wrb_inv_q_err'', ''wrb_qfull_err'']"

definition c2h_fatal_err_info :: "string list" where
  "c2h_fatal_err_info = [''mty_mismatch'', ''len_mismatch'', ''qid_mismatch'', ''timer_fifo_ram_rdbe'',
     ''eng_wpl_data_par_err'', ''pfch_II_ram_rdbe'', ''wb_ctxt_ram_rdbe'', ''pfch_ctxt_ram_rdbe'',
     ''desc_req_fifo_ram_rdbe'', ''int_ctxt_ram_rdbe'', ''int_qid2vec_ram_rdbe'',
     ''wrb_coal_data_ram_rdbe'', ''tuser_fifo_ram_rdbe'', ''qid_fifo_ram_rdbe'',
     ''payload_fifo_ram_rdbe'', ''wpl_data_par_err'']"

definition h2c_err_info :: "string list" where
  "h2c_err_info = [''no_dma_dsc_err'', ''wbi_mop_err'', ''zero_len_desc_err'']"

record qdma_err_stat_info =
  es_stat_reg_addr :: u32
  es_intr_mask :: u32
  es_stat :: "string list"

definition err_stat_info :: "qdma_err_stat_info list" where
  "err_stat_info =
     [\<lparr>es_stat_reg_addr = 0x248, es_intr_mask = 0xFFF, es_stat = glbl_err_info\<rparr>,
      \<lparr>es_stat_reg_addr = 0x254, es_intr_mask = 0x1F9023F, es_stat = dsc_err_info\<rparr>,
      \<lparr>es_stat_reg_addr = 0x264, es_intr_mask = 0xF, es_stat = trq_err_info\<rparr>,
      \<lparr>es_stat_reg_addr = 0xAF0, es_intr_mask = 0x3EDB, es_stat = c2h_err_info\<rparr>,
      \<lparr>es_stat_reg_addr = 0xAF8, es_intr_mask = 0x7FF1B, es_stat = c2h_fatal_err_info\<rparr>,
      \<lparr>es_stat_reg_addr = 0xE00, es_intr_mask = 0x7, es_stat = h2c_err_info\<rparr>,
      \<lparr>es_stat_reg_addr = 0, es_intr_mask = 0, es_stat = []\<rparr>]"

lemma unat_shift_less: "(w :: u32) \<noteq> 0 \<Longrightarrow> unat (drop_bit 1 w) < unat w"
proof -
  assume "w \<noteq> 0"
  then have "0 < unat w" by (simp add: unat_gt_0)
  then have "unat w div 2 < unat w" by simp
  then show ?thesis by (simp add: drop_bit_eq_div unat_div)
qed

text \<open>
  The inner loop over the bits of the mask: \<open>k\<close> counts the bits of the mask that have gone
  by, the positions in the name array that are reported are collected.
\<close>

function err_bits_loop :: "u32 \<Rightarrow> u32 \<Rightarrow> u32 \<Rightarrow> nat \<Rightarrow> nat list" where
  "err_bits_loop intr_mask err_stat chk_mask k =
     (if intr_mask = 0 then []
      else
        (if intr_mask AND 1 \<noteq> 0 \<and> err_stat AND chk_mask \<noteq> 0 then [k] else [])
        @ err_bits_loop (drop_bit 1 intr_mask) err_stat (push_bit 1 chk_mask)
            (if intr_mask AND 1 \<noteq> 0 then Suc k else k))"
  by pat_completeness auto

termination
  by (relation "measure (\<lambda>(m, e, c, b). unat m)") (simp_all add: unat_shift_less [unfolded One_nat_def])

declare err_bits_loop.simps [simp del]

definition qdma_enable_hw_err :: "nat \<Rightarrow> trace \<Rightarrow> trace" where
  "qdma_enable_hw_err hw_err_type tr =
     (if hw_err_type = 1 then write_reg 0x24C 0xFFF tr
      else if hw_err_type = 2 then write_reg 0x258 0x1F9023F tr
      else if hw_err_type = 3 then write_reg 0x268 0xF tr
      else if hw_err_type = 4 then write_reg 0xAF4 0x3EDB tr
      else if hw_err_type = 5 then write_reg 0xAFC 0x7FF1B tr
      else if hw_err_type = 6 then write_reg 0xE04 0x7 tr
      else write_reg 0x24C 0xFFF tr)"

definition HW_ERRS :: nat where "HW_ERRS = 7"

text \<open>\<open>intr_vec_index\<close> is the position in the map.\<close>

fun vec_index_loop :: "intr_type \<Rightarrow> nat \<Rightarrow> intr_type list \<Rightarrow> nat" where
  "vec_index_loop t i [] = 0"
| "vec_index_loop t i (v # vs) = (if v = t then i else vec_index_loop t (Suc i) vs)"

definition get_intr_vec_index :: "xlnx_dma_dev \<Rightarrow> intr_type \<Rightarrow> nat" where
  "get_intr_vec_index xdev t = vec_index_loop t 0 (take (xd_num_vecs xdev) (xd_intr_vec_map xdev))"

definition qdma_err_intr_setup :: "xlnx_dma_dev \<Rightarrow> bool \<Rightarrow> trace \<Rightarrow> trace" where
  "qdma_err_intr_setup xdev rearm tr =
     (let val = ucast (xd_func_id xdev) OR push_bit 8 (of_nat (get_intr_vec_index xdev INTR_TYPE_ERROR));
          val = (if xd_intr_coal_en xdev then val OR push_bit 16 1 else val);
          val = val OR push_bit 17 1;
          tr = write_reg 0xB04 val tr
      in if rearm then tr else fold qdma_enable_hw_err [0..<HW_ERRS] tr)"

text \<open>
  One status register: what it read, the reported names and the write that clears it.  A
  position outside the name array is reported as \<open>None\<close>.
\<close>

definition err_stat_one :: "env \<Rightarrow> qdma_err_stat_info \<Rightarrow> trace \<Rightarrow> u32 \<times> string option list \<times> trace" where
  "err_stat_one E s tr =
     (let (err_stat, tr) = read_reg E (es_stat_reg_addr s) tr
      in if err_stat AND es_intr_mask s \<noteq> 0 then
           (err_stat,
            map (\<lambda>i. if i < length (es_stat s) then Some (es_stat s ! i) else None)
              (err_bits_loop (es_intr_mask s) err_stat 1 0),
            write_reg (es_stat_reg_addr s) err_stat tr)
         else (err_stat, [], tr))"

fun err_stat_loop :: "env \<Rightarrow> qdma_err_stat_info list \<Rightarrow> trace \<Rightarrow> u32 list \<times> string option list \<times> trace" where
  "err_stat_loop E [] tr = ([], [], tr)"
| "err_stat_loop E (s # ss) tr =
     (let (v, r, tr) = err_stat_one E s tr; (vs, rs, tr) = err_stat_loop E ss tr
      in (v # vs, r @ rs, tr))"

definition err_stat_handler :: "env \<Rightarrow> xlnx_dma_dev \<Rightarrow> trace \<Rightarrow> string option list \<times> trace" where
  "err_stat_handler E xdev tr =
     (let (vs, reports, tr) = err_stat_loop E err_stat_info tr;
          glb_err_stat = hd vs
      in if glb_err_stat \<noteq> 0
         then (reports, qdma_err_intr_setup xdev True (write_reg (es_stat_reg_addr (hd err_stat_info)) glb_err_stat tr))
         else (reports, tr))"

section \<open>Vectors\<close>

text \<open>One vector's place in the map, by its number and the function.\<close>

definition vec_type :: "xlnx_dma_dev \<Rightarrow> nat \<Rightarrow> intr_type" where
  "vec_type xdev i =
     (if i = 0 then (if xd_func_id xdev = 0 then INTR_TYPE_ERROR else INTR_TYPE_USER)
      else if i = 1 then (if xd_func_id xdev = 0 then INTR_TYPE_USER else INTR_TYPE_DATA)
      else INTR_TYPE_DATA)"

text \<open>The loop that requests the vectors: \<open>n\<close> are left, \<open>i\<close> is the next.\<close>

fun request_loop :: "env \<Rightarrow> nat \<Rightarrow> nat \<Rightarrow> xlnx_dma_dev \<Rightarrow> trace \<Rightarrow> int \<times> nat \<times> xlnx_dma_dev \<times> trace" where
  "request_loop E 0 i xdev tr = (0, i, xdev, tr)"
| "request_loop E (Suc n) i xdev tr =
     (let rv = env_request_irq E tr i;
          tr = RequestIrq i rv # tr
      in if rv \<noteq> 0 then (rv, i, xdev, tr)
         else request_loop E n (Suc i)
                (xdev\<lparr>xd_intr_vec_map := (xd_intr_vec_map xdev)[i := vec_type xdev i]\<rparr>) tr)"

text \<open>\<open>while (--i >= 0) free_irq(..)\<close>\<close>

fun free_irqs :: "nat \<Rightarrow> trace \<Rightarrow> trace" where
  "free_irqs 0 tr = tr"
| "free_irqs (Suc i) tr = free_irqs i (FreeIrq i # tr)"

definition intr_teardown :: "xlnx_dma_dev \<Rightarrow> trace \<Rightarrow> trace" where
  "intr_teardown xdev tr =
     (let tr = free_irqs (xd_num_vecs xdev) tr
      in if xd_num_vecs xdev \<noteq> 0 then DisableMsix # tr else tr)"

text \<open>
  The lists of queues per vector are emptied, their counts are not touched.  The number of
  vectors is what \<open>pci_msix_vec_count\<close> answers for a device with MSI-X.
\<close>

definition intr_setup :: "env \<Rightarrow> xlnx_dma_dev \<Rightarrow> trace \<Rightarrow> int \<times> xlnx_dma_dev \<times> trace" where
  "intr_setup E xdev tr =
     (if dc_poll_mode (xd_conf xdev) then (0, xdev, tr)
      else
        let xdev = xdev\<lparr>xd_num_vecs := env_msix_count E tr\<rparr>
        in if xd_num_vecs xdev = 0 then (0, xdev, tr)
        else
          let xdev = xdev\<lparr>xd_num_vecs := min (xd_num_vecs xdev) XDEV_NUM_IRQ_MAX\<rparr>;
              rv = env_enable_msix E tr (xd_num_vecs xdev);
              tr = EnableMsix (xd_num_vecs xdev) rv # tr
          in if rv < 0 then (rv, xdev, tr)
          else
            let (rv, i, xdev, tr) = request_loop E (xd_num_vecs xdev) 0 xdev tr
            in if rv \<noteq> 0 then (rv, xdev, DisableMsix # free_irqs i tr)
            else (rv, xdev\<lparr>xd_dvec_start_idx := if xd_func_id xdev = 0 then 2 else 1,
                           xd_flags := xd_flags xdev OR 0x2\<rparr>, tr))"

section \<open>Rings of aggregated interrupts\<close>

definition intr_ring_free :: "u32 \<Rightarrow> u32 \<Rightarrow> u64 \<Rightarrow> trace \<Rightarrow> trace" where
  "intr_ring_free ring_sz intr_desc_sz desc_bus tr = DmaFree (ring_sz * intr_desc_sz) desc_bus # tr"

definition zero_intr_entry :: intr_ring_entry where
  "zero_intr_entry = \<lparr>ie_qid = 0, ie_coal_color = False, ie_intr_type = False, ie_error_int = False\<rparr>"

definition intr_ring_alloc ::
  "env \<Rightarrow> u32 \<Rightarrow> u32 \<Rightarrow> trace \<Rightarrow> (intr_ring_entry list \<times> u64) option \<times> trace" where
  "intr_ring_alloc E ring_sz intr_desc_sz tr =
     (let len = ring_sz * intr_desc_sz;
          p = env_dma_alloc E tr len;
          tr = DmaAlloc len p # tr
      in (case p of None \<Rightarrow> None
          | Some bus \<Rightarrow> Some (replicate (unat ring_sz) zero_intr_entry, bus), tr))"

text \<open>\<open>msix[i].entry\<close> is \<open>i\<close> for the vectors that were set up, and zero for the others.\<close>

definition msix_entry :: "xlnx_dma_dev \<Rightarrow> nat \<Rightarrow> u16" where
  "msix_entry xdev i = (if i < xd_num_vecs xdev then of_nat i else 0)"

text \<open>
  The allocation of the rings, one per data vector.  The ring's size is an \<open>int\<close>, the entry
  keeps it as a 16-bit number.
\<close>

fun ring_alloc_loop ::
  "env \<Rightarrow> xlnx_dma_dev \<Rightarrow> u32 \<Rightarrow> nat \<Rightarrow> nat \<Rightarrow> trace \<Rightarrow> intr_coal_conf list option \<times> trace" where
  "ring_alloc_loop E xdev num_entries 0 counter tr = (Some [], tr)"
| "ring_alloc_loop E xdev num_entries (Suc n) counter tr =
     (case intr_ring_alloc E num_entries 8 tr of
        (None, tr) \<Rightarrow> (None, tr)
      | (Some (ring, bus), tr) \<Rightarrow>
          let entry = \<lparr>ic_vec_id = msix_entry xdev (counter + xd_dvec_start_idx xdev),
                       ic_num_entries = ucast num_entries, ic_ring_bus = bus, ic_ring = ring,
                       ic_color = 1, ic_pidx = 0, ic_cidx = 0\<rparr>
          in (case ring_alloc_loop E xdev num_entries n (Suc counter) tr of
                (None, tr) \<Rightarrow> (None, intr_ring_free (ucast (ic_num_entries entry)) 8 bus tr)
              | (Some es, tr) \<Rightarrow> (Some (entry # es), tr)))"

definition intr_num_entries :: "xlnx_dma_dev \<Rightarrow> u32" where
  "intr_num_entries xdev = (ucast (dc_intr_rngsz (xd_conf xdev)) + 1) * 512"

definition intr_ring_setup :: "env \<Rightarrow> xlnx_dma_dev \<Rightarrow> trace \<Rightarrow> int \<times> xlnx_dma_dev \<times> trace" where
  "intr_ring_setup E xdev tr =
     (if dc_poll_mode (xd_conf xdev) \<or> \<not> dc_intr_agg (xd_conf xdev)
      then (0, xdev\<lparr>xd_intr_coal_en := False, xd_intr_coal_list := []\<rparr>, tr)
      else if xd_num_vecs xdev \<noteq> 0 \<and> xd_num_vecs xdev < unat (dc_qsets_max (xd_conf xdev)) then
        let xdev = xdev\<lparr>xd_intr_coal_en := True\<rparr>;
            bytes = 40 * of_nat QDMA_DATA_VEC_PER_PF_MAX;
            ok = env_kalloc E tr bytes;
            tr = Kalloc bytes ok # tr
        in if \<not> ok then (- ENOMEM, xdev, tr)
        else
          (case ring_alloc_loop E xdev (intr_num_entries xdev) QDMA_DATA_VEC_PER_PF_MAX 0 tr of
             (None, tr) \<Rightarrow> (- ENOMEM, xdev, Kfree # tr)
           | (Some es, tr) \<Rightarrow> (0, xdev\<lparr>xd_intr_coal_list := es\<rparr>, tr))
      else (0, xdev\<lparr>xd_intr_coal_en := False, xd_intr_coal_list := []\<rparr>, tr))"

text \<open>The freed list is not forgotten: the device keeps pointing to it.\<close>

fun ring_teardown_loop :: "build \<Rightarrow> env \<Rightarrow> xlnx_dma_dev \<Rightarrow> nat \<Rightarrow> intr_coal_conf list \<Rightarrow> trace \<Rightarrow> trace" where
  "ring_teardown_loop b E xdev i [] tr = tr"
| "ring_teardown_loop b E xdev i (entry # es) tr =
     (let tr = intr_ring_free (ucast (ic_num_entries entry)) 8 (ic_ring_bus entry) tr;
          tr = (if b = PF
                then snd (snd (hw_indirect_ctext_prog E (get_intr_ring_index xdev (of_nat (i + xd_dvec_start_idx xdev)))
                       QDMA_CTXT_CMD_CLR QDMA_CTXT_SEL_COAL None 0 False tr))
                else tr)
      in ring_teardown_loop b E xdev (Suc i) es tr)"

definition intr_ring_teardown :: "build \<Rightarrow> env \<Rightarrow> xlnx_dma_dev \<Rightarrow> trace \<Rightarrow> trace" where
  "intr_ring_teardown b E xdev tr =
     (let tr = ring_teardown_loop b E xdev 0 (take QDMA_DATA_VEC_PER_PF_MAX (xd_intr_coal_list xdev)) tr
      in if xd_intr_coal_list xdev \<noteq> [] then Kfree # tr else tr)"

section \<open>Handlers\<close>

text \<open>
  The queues of the device, \<open>h2c_descq\<close> and \<open>c2h_descq\<close> behind \<open>dev_priv\<close>.  A queue is
  named by the number the client knows it by: its index, plus the number of queues per
  direction for C2H.
\<close>

record qdev_queues =
  qv_h2c :: "qdma_descq list"
  qv_c2h :: "qdma_descq list"

text \<open>
  \<open>qdma_device_get_descq_by_hw_qid\<close> does not check the index.  \<open>None\<close> is a queue outside the
  array; an index below the function's base is one far behind its end.
\<close>

definition qdma_device_get_descq_by_hw_qid ::
  "xlnx_dma_dev \<Rightarrow> qdev_queues \<Rightarrow> u32 \<Rightarrow> bool \<Rightarrow> (nat \<times> qdma_descq) option" where
  "qdma_device_get_descq_by_hw_qid xdev qs qidx_hw c2h =
     (let qidx_sw = unat (ucast qidx_hw - ucast (xd_qbase xdev) :: u64);
          arr = (if c2h then qv_c2h qs else qv_h2c qs)
      in if qidx_sw < length arr
         then Some (if c2h then unat (xd_qmax xdev) + qidx_sw else qidx_sw, arr ! qidx_sw) else None)"

text \<open>
  The index and colour of an aggregation ring move on.  The colour that is flipped on a wrap is
  the one of the first ring.
\<close>

definition ring_step :: "nat \<Rightarrow> xlnx_dma_dev \<Rightarrow> xlnx_dma_dev" where
  "ring_step j xdev =
     (let entry = xd_intr_coal_list xdev ! j;
          cidx = ic_cidx entry + 1
      in if cidx = ucast (ic_num_entries entry) then
           let xdev = xdev\<lparr>xd_intr_coal_list := (xd_intr_coal_list xdev)
                 [0 := (xd_intr_coal_list xdev ! 0)\<lparr>ic_color := if ic_color (xd_intr_coal_list xdev ! 0) \<noteq> 0 then 0 else 1\<rparr>]\<rparr>
           in xdev\<lparr>xd_intr_coal_list := (xd_intr_coal_list xdev)[j := (xd_intr_coal_list xdev ! j)\<lparr>ic_cidx := 0\<rparr>]\<rparr>
         else xdev\<lparr>xd_intr_coal_list := (xd_intr_coal_list xdev)[j := entry\<lparr>ic_cidx := cidx\<rparr>]\<rparr>)"

text \<open>
  The loop of \<open>data_intr_aggregate\<close> over ring \<open>j\<close>, which the device is not writing to while
  the handler runs.  The local variable \<open>counter\<close> is the ring's index; \<open>lastq\<close> is the queue the
  latest entry named.  \<open>None\<close> is a loop that never ends.
\<close>

partial_function (option) aggregate_loop ::
  "env \<Rightarrow> qdev_queues \<Rightarrow> nat \<Rightarrow> qdma_descq option \<Rightarrow> xlnx_dma_dev \<Rightarrow> trace
     \<Rightarrow> (qdma_descq option \<times> xlnx_dma_dev \<times> trace) outcome option" where
  "aggregate_loop E qs j lastq xdev tr =
     (let entry = xd_intr_coal_list xdev ! j
      in if length (ic_ring entry) \<le> unat (ic_cidx entry) then Some Bad
      else
        let e = ic_ring entry ! unat (ic_cidx entry)
        in if (if ie_coal_color e then 1 else 0) \<noteq> ic_color entry then Some (Ok (lastq, xdev, tr))
        else
          (case qdma_device_get_descq_by_hw_qid xdev qs (ie_qid e) (ie_intr_type e) of
             None \<Rightarrow> Some Bad
           | Some (qid, descq) \<Rightarrow>
               aggregate_loop E qs j (Some descq) (ring_step j xdev)
                 (if ie_error_int e then snd (err_stat_handler E xdev tr) else ScheduleWork qid # tr)))"

definition data_intr_aggregate ::
  "build \<Rightarrow> env \<Rightarrow> qdev_queues \<Rightarrow> nat \<Rightarrow> xlnx_dma_dev \<Rightarrow> trace \<Rightarrow> (xlnx_dma_dev \<times> trace) outcome option" where
  "data_intr_aggregate b E qs vidx xdev tr =
     (if vidx < xd_dvec_start_idx xdev \<or> length (xd_intr_coal_list xdev) \<le> vidx - xd_dvec_start_idx xdev
      then Some Bad
      else
        let j = vidx - xd_dvec_start_idx xdev
        in if msix_entry xdev vidx \<noteq> ic_vec_id (xd_intr_coal_list xdev ! j) then Some (Ok (xdev, tr))
        else
          (case aggregate_loop E qs j None xdev tr of
             None \<Rightarrow> None
           | Some Bad \<Rightarrow> Some Bad
           | Some (Ok (lastq, xdev, tr)) \<Rightarrow>
               Some (Ok (xdev, case lastq of None \<Rightarrow> tr
                               | Some descq \<Rightarrow> intr_cidx_update b descq (ic_cidx (xd_intr_coal_list xdev ! j)) tr))))"

text \<open>The queues attached to a vector, in the order of its list, are \<open>on_vec\<close>.\<close>

definition data_intr_direct :: "(nat \<Rightarrow> nat list) \<Rightarrow> nat \<Rightarrow> trace \<Rightarrow> trace" where
  "data_intr_direct on_vec vidx tr = rev (map ScheduleWork (on_vec vidx)) @ tr"

definition data_intr_handler ::
  "build \<Rightarrow> env \<Rightarrow> qdev_queues \<Rightarrow> (nat \<Rightarrow> nat list) \<Rightarrow> nat \<Rightarrow> xlnx_dma_dev \<Rightarrow> trace
     \<Rightarrow> (xlnx_dma_dev \<times> trace) outcome option" where
  "data_intr_handler b E qs on_vec vector_index xdev tr =
     (if xd_intr_coal_en xdev then data_intr_aggregate b E qs vector_index xdev tr
      else Some (Ok (xdev, data_intr_direct on_vec vector_index tr)))"

definition user_intr_handler :: "xlnx_dma_dev \<Rightarrow> trace \<Rightarrow> trace" where
  "user_intr_handler xdev tr = (if dc_fp_user_isr (xd_conf xdev) then UserIsr # tr else tr)"

definition error_intr_handler :: "env \<Rightarrow> xlnx_dma_dev \<Rightarrow> trace \<Rightarrow> trace" where
  "error_intr_handler E xdev tr = snd (err_stat_handler E xdev tr)"

text \<open>
  \<open>irq_bottom\<close> and \<open>irq_top\<close> for a line \<open>irq\<close>; \<open>vector\<close> is \<open>msix[..].vector\<close>, the numbers the
  kernel gave to the vectors.
\<close>

definition irq_bottom ::
  "build \<Rightarrow> env \<Rightarrow> qdev_queues \<Rightarrow> (nat \<Rightarrow> nat list) \<Rightarrow> (nat \<Rightarrow> nat) \<Rightarrow> nat \<Rightarrow> xlnx_dma_dev \<Rightarrow> trace
     \<Rightarrow> (xlnx_dma_dev \<times> trace) outcome option" where
  "irq_bottom b E qs on_vec vector irq xdev tr =
     (if dc_fp_isr_top_dev (xd_conf xdev) then Some (Ok (xdev, tr))
      else
        (case List.find (\<lambda>i. vector i = irq) [0..<xd_num_vecs xdev] of
           None \<Rightarrow> Some (Ok (xdev, tr))
         | Some i \<Rightarrow>
             (case xd_intr_vec_map xdev ! i of
                INTR_TYPE_ERROR \<Rightarrow> Some (Ok (xdev, error_intr_handler E xdev tr))
              | INTR_TYPE_USER \<Rightarrow> Some (Ok (xdev, user_intr_handler xdev tr))
              | INTR_TYPE_DATA \<Rightarrow> data_intr_handler b E qs on_vec i xdev tr)))"

definition irq_top ::
  "build \<Rightarrow> env \<Rightarrow> qdev_queues \<Rightarrow> (nat \<Rightarrow> nat list) \<Rightarrow> (nat \<Rightarrow> nat) \<Rightarrow> nat \<Rightarrow> xlnx_dma_dev \<Rightarrow> trace
     \<Rightarrow> (xlnx_dma_dev \<times> trace) outcome option" where
  "irq_top b E qs on_vec vector irq xdev tr =
     (if dc_fp_isr_top_dev (xd_conf xdev) then irq_bottom b E qs on_vec vector irq xdev (TopIsr # tr)
      else Some (Ok (xdev, tr)))"

section \<open>Error reports\<close>

function mask_count :: "u32 \<Rightarrow> nat" where
  "mask_count m = (if m = 0 then 0 else (if m AND 1 \<noteq> 0 then 1 else 0) + mask_count (drop_bit 1 m))"
  by pat_completeness auto
termination
  by (relation "measure unat") (simp_all add: unat_shift_less [unfolded One_nat_def])

declare mask_count.simps [simp del]

lemma err_bits_less: "x \<in> set (err_bits_loop m e c k) \<Longrightarrow> k \<le> x \<and> x < k + mask_count m"
proof (induction m e c k rule: err_bits_loop.induct)
  case (1 m e c k)
  have ne: "m \<noteq> 0" using 1(2) by (auto simp: err_bits_loop.simps [of m])
  have cnt: "mask_count m = (if m AND 1 \<noteq> 0 then 1 else 0) + mask_count (drop_bit 1 m)"
    using ne by (subst mask_count.simps) simp
  have "x = k \<and> m AND 1 \<noteq> 0
      \<or> x \<in> set (err_bits_loop (drop_bit 1 m) e (push_bit 1 c) (if m AND 1 \<noteq> 0 then Suc k else k))"
    using 1(2) ne by (subst (asm) err_bits_loop.simps) (auto split: if_splits)
  then show ?case
    using 1(1) [OF ne] cnt by (auto split: if_splits)
qed

lemma err_bits_step:
  "err_bits_loop 0 e c k = []"
  "m \<noteq> 0 \<Longrightarrow> err_bits_loop m e c k = (if m AND 1 \<noteq> 0 \<and> e AND c \<noteq> 0 then [k] else [])
     @ err_bits_loop (drop_bit 1 m) e (push_bit 1 c) (if m AND 1 \<noteq> 0 then Suc k else k)"
  by (subst err_bits_loop.simps; simp)+

lemma mask_count_step:
  "mask_count 0 = 0"
  "m \<noteq> 0 \<Longrightarrow> mask_count m = (if m AND 1 \<noteq> 0 then 1 else 0) + mask_count (drop_bit 1 m)"
  by (subst mask_count.simps; simp)+

lemma err_tables_cover: "s \<in> set err_stat_info \<Longrightarrow> mask_count (es_intr_mask s) \<le> length (es_stat s)"
  by (auto simp: err_stat_info_def mask_count_step glbl_err_info_def dsc_err_info_def trq_err_info_def
      c2h_err_info_def c2h_fatal_err_info_def h2c_err_info_def)

lemma err_stat_one_reports:
  assumes "s \<in> set err_stat_info"
  shows "None \<notin> set (fst (snd (err_stat_one E s tr)))"
  using err_tables_cover [OF assms]
  by (auto simp: err_stat_one_def Let_def split_beta dest: err_bits_less)

lemma err_stat_loop_reports:
  "set ss \<subseteq> set err_stat_info \<Longrightarrow> None \<notin> set (fst (snd (err_stat_loop E ss tr)))"
proof (induction ss arbitrary: tr)
  case (Cons s ss)
  then show ?case using err_stat_one_reports [of s E tr] by (auto simp: split_beta)
qed simp

text \<open>A register shows no error after the handler: what was read was written back.\<close>

lemma err_stat_one_clears:
  "writes_of (snd (snd (err_stat_one E s tr))) = writes_of tr
     @ (if fst (err_stat_one E s tr) AND es_intr_mask s \<noteq> 0
        then [(es_stat_reg_addr s, fst (err_stat_one E s tr))] else [])"
  by (simp add: err_stat_one_def Let_def split_beta trace_simps)

lemma err_stat_loop_writes:
  "writes_of (snd (snd (err_stat_loop E ss tr))) = writes_of tr
     @ concat (map2 (\<lambda>s v. if v AND es_intr_mask s \<noteq> 0 then [(es_stat_reg_addr s, v)] else [])
                ss (fst (err_stat_loop E ss tr)))
   \<and> length (fst (err_stat_loop E ss tr)) = length ss"
proof (induction ss arbitrary: tr)
  case (Cons s ss)
  then show ?case using err_stat_one_clears [of E s tr] by (simp add: split_beta)
qed simp


text \<open>
  The names of the fatal C2H errors contain one that the register does not have at its place, so
  that every later bit is reported under its predecessor's name; those of the H2C errors are in
  reverse order.
\<close>

lemma c2h_fatal_names_shifted:
  "map (\<lambda>i. c2h_fatal_err_info ! i) (err_bits_loop 0x7FF1B (push_bit 8 1) 1 0) = [''eng_wpl_data_par_err'']"
  by (simp add: err_bits_step c2h_fatal_err_info_def)

lemma h2c_names_reversed:
  "map (\<lambda>i. h2c_err_info ! i) (err_bits_loop 0x7 (push_bit 0 1) 1 0) = [''no_dma_dsc_err'']"
  by (simp add: err_bits_step h2c_err_info_def)

section \<open>The aggregation ring is a ring with phases\<close>

definition agg_size :: "xlnx_dma_dev \<Rightarrow> nat" where
  "agg_size xdev = (if xd_intr_coal_list xdev = [] then 0 else unat (ic_num_entries (hd (xd_intr_coal_list xdev))))"

definition agg_idx :: "xlnx_dma_dev \<Rightarrow> nat" where
  "agg_idx xdev = unat (ic_cidx (hd (xd_intr_coal_list xdev)))"

definition agg_color :: "xlnx_dma_dev \<Rightarrow> bool" where
  "agg_color xdev \<longleftrightarrow> ic_color (hd (xd_intr_coal_list xdev)) \<noteq> 0"

lemma ring_step_Nil: "xd_intr_coal_list xdev = [] \<Longrightarrow> xd_intr_coal_list (ring_step 0 xdev) = []"
  by (simp add: ring_step_def Let_def)

lemma ring_step_Cons:
  assumes "xd_intr_coal_list xdev = c # cs"
  shows "ring_step 0 xdev = xdev\<lparr>xd_intr_coal_list :=
      (if ic_cidx c + 1 = ucast (ic_num_entries c)
       then c\<lparr>ic_cidx := 0, ic_color := if ic_color c \<noteq> 0 then 0 else 1\<rparr>
       else c\<lparr>ic_cidx := ic_cidx c + 1\<rparr>) # cs\<rparr>"
  by (simp add: ring_step_def Let_def assms)

lemma unat_is: "unat w = k \<Longrightarrow> w = of_nat k"
  by auto

lemma cidx_wraps:
  fixes i :: u32 and n :: u16
  assumes "unat i < unat n"
  shows "i + 1 = ucast n \<longleftrightarrow> Suc (unat i) = unat n" "unat (i + 1) = Suc (unat i)"
proof -
  have less: "unat n < 2 ^ LENGTH(16)" by (rule unsigned_less)
  then have "unat i + 1 < 2 ^ 32" using assms by simp
  then show "unat (i + 1) = Suc (unat i)" by (simp add: unat_add_no_overflow)
  then show "i + 1 = ucast n \<longleftrightarrow> Suc (unat i) = unat n"
    using less by (simp add: word_unat_eq_iff unsigned_ucast_eq take_bit_nat_eq_self)
qed

lemma agg_step:
  "agg_size (ring_step 0 xdev) = agg_size xdev"
  "agg_idx xdev < agg_size xdev \<Longrightarrow>
     agg_idx (ring_step 0 xdev) = (if Suc (agg_idx xdev) = agg_size xdev then 0 else Suc (agg_idx xdev))"
  "agg_idx xdev < agg_size xdev \<Longrightarrow>
     agg_color (ring_step 0 xdev) = (if Suc (agg_idx xdev) = agg_size xdev then \<not> agg_color xdev else agg_color xdev)"
proof -
  show "agg_size (ring_step 0 xdev) = agg_size xdev"
    by (cases "xd_intr_coal_list xdev") (simp_all add: agg_size_def ring_step_Nil ring_step_Cons)
  assume less: "agg_idx xdev < agg_size xdev"
  then obtain c cs where cs: "xd_intr_coal_list xdev = c # cs"
    by (cases "xd_intr_coal_list xdev") (simp_all add: agg_size_def)
  then have "unat (ic_cidx c) < unat (ic_num_entries c)"
    using less by (simp add: agg_size_def agg_idx_def)
  from cidx_wraps [OF this]
  show "agg_idx (ring_step 0 xdev) = (if Suc (agg_idx xdev) = agg_size xdev then 0 else Suc (agg_idx xdev))"
    "agg_color (ring_step 0 xdev) = (if Suc (agg_idx xdev) = agg_size xdev then \<not> agg_color xdev else agg_color xdev)"
    by (simp_all add: agg_size_def agg_idx_def agg_color_def ring_step_Cons [OF cs] cs)
qed

interpretation agg: phase_ring agg_size agg_idx agg_color "ring_step 0"
  by unfold_locales (simp_all add: agg_step)

text \<open>
  The device has written \<open>p\<close> entries to the one ring, the driver has taken \<open>n\<close> of them, and
  the entries between name queues of the function and no errors.
\<close>

definition agg_entry :: "xlnx_dma_dev \<Rightarrow> nat \<Rightarrow> intr_ring_entry" where
  "agg_entry xdev m = ic_ring (hd (xd_intr_coal_list xdev)) ! (m mod agg_size xdev)"

definition entry_queue :: "xlnx_dma_dev \<Rightarrow> qdev_queues \<Rightarrow> intr_ring_entry \<Rightarrow> (nat \<times> qdma_descq) option" where
  "entry_queue xdev qs e = qdma_device_get_descq_by_hw_qid xdev qs (ie_qid e) (ie_intr_type e)"

definition agg_pending :: "xlnx_dma_dev \<Rightarrow> qdev_queues \<Rightarrow> nat \<Rightarrow> nat \<Rightarrow> bool" where
  "agg_pending xdev qs n p \<longleftrightarrow>
     length (xd_intr_coal_list xdev) = 1
     \<and> length (ic_ring (hd (xd_intr_coal_list xdev))) = agg_size xdev
     \<and> ic_color (hd (xd_intr_coal_list xdev)) \<in> {0, 1}
     \<and> phase_at (agg_size xdev) (agg_idx xdev) (agg_color xdev) n
     \<and> n \<le> p \<and> p \<le> n + agg_size xdev
     \<and> (\<forall>k<agg_size xdev. ie_coal_color (ic_ring (hd (xd_intr_coal_list xdev)) ! k) = written_color (agg_size xdev) p k)
     \<and> (\<forall>m\<in>{n..<p}. \<not> ie_error_int (agg_entry xdev m) \<and> entry_queue xdev qs (agg_entry xdev m) \<noteq> None)"

lemma ring_step_fields:
  "xd_intr_coal_list xdev = c # cs \<Longrightarrow>
     ic_ring (hd (xd_intr_coal_list (ring_step 0 xdev))) = ic_ring c
     \<and> ic_vec_id (hd (xd_intr_coal_list (ring_step 0 xdev))) = ic_vec_id c
     \<and> length (xd_intr_coal_list (ring_step 0 xdev)) = Suc (length cs)
     \<and> (ic_color c \<in> {0, 1} \<longrightarrow> ic_color (hd (xd_intr_coal_list (ring_step 0 xdev))) \<in> {0, 1})"
  by (simp add: ring_step_Cons)

lemma ring_step_lookup: "entry_queue (ring_step 0 xdev) qs e = entry_queue xdev qs e"
  by (simp add: entry_queue_def qdma_device_get_descq_by_hw_qid_def ring_step_def Let_def)

lemma agg_pending_step:
  assumes "agg_pending xdev qs n p" "n < p"
  shows "agg_pending (ring_step 0 xdev) qs (Suc n) p" "agg_entry (ring_step 0 xdev) = agg_entry xdev"
proof -
  obtain c where c: "xd_intr_coal_list xdev = [c]"
    using assms(1) by (auto simp: agg_pending_def length_Suc_conv)
  note keep = ring_step_fields [OF c] agg_step(1) [of xdev]
  show entry: "agg_entry (ring_step 0 xdev) = agg_entry xdev"
    using keep c by (auto simp: agg_entry_def)
  have "phase_at (agg_size (ring_step 0 xdev)) (agg_idx (ring_step 0 xdev)) (agg_color (ring_step 0 xdev)) (Suc n)"
    using assms(1) by (intro agg.at_advance) (simp add: agg_pending_def)
  then show "agg_pending (ring_step 0 xdev) qs (Suc n) p"
    using assms keep c by (auto simp: agg_pending_def ring_step_lookup entry)
qed

lemma aggregate_loop_runs:
  assumes "agg_pending xdev qs n p"
  shows "aggregate_loop E qs 0 lastq xdev tr = Some (Ok
     (if n < p then map_option snd (entry_queue xdev qs (agg_entry xdev (p - 1))) else lastq,
      (ring_step 0 ^^ (p - n)) xdev,
      rev (map (\<lambda>m. ScheduleWork (fst (the (entry_queue xdev qs (agg_entry xdev m))))) [n..<p]) @ tr))"
  using assms
proof (induction "p - n" arbitrary: n xdev lastq tr)
  case 0
  then have "n = p" by (simp add: agg_pending_def)
  obtain c where c: "xd_intr_coal_list xdev = [c]"
    using 0(2) by (auto simp: agg_pending_def length_Suc_conv)
  have idx: "unat (ic_cidx c) < length (ic_ring c)"
    using 0(2) c by (auto simp: agg_pending_def agg_idx_def dest: phase_at_less)
  have "ie_coal_color (ic_ring c ! unat (ic_cidx c)) \<noteq> (ic_color c \<noteq> 0)"
    using 0(2) c idx agg.sees_new [of xdev n p] \<open>n = p\<close>
    by (auto simp: agg_pending_def agg_idx_def agg_color_def)
  then have "(if ie_coal_color (ic_ring c ! unat (ic_cidx c)) then 1 else 0) \<noteq> ic_color c"
    by auto
  then show ?case
    using idx c \<open>n = p\<close> by (subst aggregate_loop.simps) (simp add: Let_def)
next
  case (Suc k)
  then have less: "n < p" by simp
  obtain c where c: "xd_intr_coal_list xdev = [c]"
    using Suc(3) by (auto simp: agg_pending_def length_Suc_conv)
  have idx: "unat (ic_cidx c) < length (ic_ring c)" and at: "unat (ic_cidx c) = n mod agg_size xdev"
    using Suc(3) c by (auto simp: agg_pending_def agg_idx_def phase_at_def dest: phase_at_less)
  have "ie_coal_color (ic_ring c ! unat (ic_cidx c)) = (ic_color c \<noteq> 0)"
    using Suc(3) c idx agg.sees_new [of xdev n p] less
    by (auto simp: agg_pending_def agg_idx_def agg_color_def)
  then have color: "(if ie_coal_color (ic_ring c ! unat (ic_cidx c)) then 1 else 0) = ic_color c"
    using Suc(3) c by (auto simp: agg_pending_def)
  have entry: "ic_ring c ! unat (ic_cidx c) = agg_entry xdev n"
    using c at by (simp add: agg_entry_def)
  obtain qid descq where q: "entry_queue xdev qs (agg_entry xdev n) = Some (qid, descq)"
    and noerr: "\<not> ie_error_int (agg_entry xdev n)"
    using Suc(3) less by (force simp: agg_pending_def)
  have "aggregate_loop E qs 0 lastq xdev tr
      = aggregate_loop E qs 0 (Some descq) (ring_step 0 xdev) (ScheduleWork qid # tr)"
    using idx c color q noerr
    by (subst aggregate_loop.simps) (simp add: Let_def entry entry_queue_def)
  also have "\<dots> = Some (Ok
     (if Suc n < p then map_option snd (entry_queue xdev qs (agg_entry xdev (p - 1))) else Some descq,
      (ring_step 0 ^^ (p - Suc n)) (ring_step 0 xdev),
      rev (map (\<lambda>m. ScheduleWork (fst (the (entry_queue xdev qs (agg_entry xdev m))))) [Suc n..<p])
        @ ScheduleWork qid # tr))"
    using Suc(1) [of "Suc n" "ring_step 0 xdev" "Some descq" "ScheduleWork qid # tr"] Suc(2)
      agg_pending_step [OF Suc(3) less]
    by (simp add: ring_step_lookup)
  moreover have "(ring_step 0 ^^ (p - Suc n)) (ring_step 0 xdev) = (ring_step 0 ^^ (p - n)) xdev"
    using less by (simp add: funpow_swap1 flip: Suc_diff_Suc)
  moreover have "\<not> Suc n < p \<Longrightarrow> p - 1 = n" using less by simp
  moreover have "[n..<p] = n # [Suc n..<p]" using less by (rule upt_conv_Cons)
  ultimately show ?case using less q by auto
qed

text \<open>
  C24.  An aggregated interrupt on the function's first data vector catches up with the device:
  the work of every queue named by the entries written since the last interrupt is scheduled once
  per entry, in the order of the entries, the ring's index and colour move to the device's
  position, and the index is written to the doorbell of the queue named last, if there was any.
\<close>

theorem intr_aggregate_catches_up:
  assumes "agg_pending xdev qs n p"
    and "vidx = xd_dvec_start_idx xdev"
    and "msix_entry xdev vidx = ic_vec_id (hd (xd_intr_coal_list xdev))"
  shows "\<exists>xdev'. data_intr_aggregate b E qs vidx xdev tr = Some (Ok (xdev',
      let tr' = rev (map (\<lambda>m. ScheduleWork (fst (the (entry_queue xdev qs (agg_entry xdev m))))) [n..<p]) @ tr
      in if n < p
         then intr_cidx_update b (snd (the (entry_queue xdev qs (agg_entry xdev (p - 1)))))
                (of_nat (p mod agg_size xdev)) tr'
         else tr'))
    \<and> agg_size xdev' = agg_size xdev
    \<and> phase_at (agg_size xdev') (agg_idx xdev') (agg_color xdev') p"
proof -
  let ?xdev' = "(ring_step 0 ^^ (p - n)) xdev"
  obtain c where c: "xd_intr_coal_list xdev = [c]"
    using assms(1) by (auto simp: agg_pending_def length_Suc_conv)
  have "agg_size ((ring_step 0 ^^ k) xdev) = agg_size xdev" for k
    by (induction k) (simp_all add: agg_step)
  then have size: "agg_size ?xdev' = agg_size xdev" .
  have "phase_at (agg_size ?xdev') (agg_idx ?xdev') (agg_color ?xdev') (n + (p - n))"
    using assms(1) by (intro agg.at_advances) (simp add: agg_pending_def)
  then have at: "phase_at (agg_size ?xdev') (agg_idx ?xdev') (agg_color ?xdev') p"
    using assms(1) by (simp add: agg_pending_def)
  have "length (xd_intr_coal_list ((ring_step 0 ^^ k) xdev)) = 1" for k
    by (induction k) (simp_all add: c ring_step_def Let_def)
  then have "xd_intr_coal_list ?xdev' ! 0 = hd (xd_intr_coal_list ?xdev')"
    by (metis hd_conv_nth list.size(3) zero_neq_one)
  then have "ic_cidx (xd_intr_coal_list ?xdev' ! 0) = of_nat (p mod agg_size xdev)"
    using at by (auto simp: phase_at_def size agg_idx_def intro: unat_is)
  moreover have "n < p \<Longrightarrow> entry_queue xdev qs (agg_entry xdev (p - 1)) \<noteq> None"
    using assms(1) by (auto simp: agg_pending_def)
  ultimately show ?thesis
    using aggregate_loop_runs [OF assms(1), of E None tr] assms(2,3) size at
    by (intro exI [of _ ?xdev'])
      (auto simp: data_intr_aggregate_def c Let_def map_option_case)
qed

definition sample_agg_dev :: xlnx_dma_dev where
  "sample_agg_dev = sample_dev\<lparr>xd_num_vecs := 8, xd_dvec_start_idx := 2, xd_qbase := 0, xd_qmax := 2, xd_intr_coal_list :=
     [\<lparr>ic_vec_id = 2, ic_num_entries = 4, ic_ring_bus = 0,
       ic_ring = [\<lparr>ie_qid = 1, ie_coal_color = True, ie_intr_type = True, ie_error_int = False\<rparr>,
                  \<lparr>ie_qid = 0, ie_coal_color = True, ie_intr_type = False, ie_error_int = False\<rparr>,
                  zero_intr_entry, zero_intr_entry],
       ic_color = 1, ic_pidx = 0, ic_cidx = 0\<rparr>]\<rparr>"

definition sample_queues :: qdev_queues where
  "sample_queues = \<lparr>qv_h2c = [zero_descq, zero_descq], qv_c2h = [zero_descq, zero_descq]\<rparr>"

lemma sample_agg_entries:
  "agg_size sample_agg_dev = 4"
  "entry_queue sample_agg_dev sample_queues (agg_entry sample_agg_dev 0) = Some (3, zero_descq)"
  "entry_queue sample_agg_dev sample_queues (agg_entry sample_agg_dev (Suc 0)) = Some (0, zero_descq)"
  by (simp_all add: agg_size_def agg_entry_def entry_queue_def qdma_device_get_descq_by_hw_qid_def Let_def
      sample_agg_dev_def sample_queues_def)

lemma sample_agg_pending: "agg_pending sample_agg_dev sample_queues 0 2"
proof -
  have "{0..<2::nat} = {0, 1}" by auto
  moreover have "(\<forall>k<4::nat. P k) \<longleftrightarrow> P 0 \<and> P 1 \<and> P 2 \<and> P 3" for P
    by (auto simp: numeral_eq_Suc All_less_Suc)
  ultimately show ?thesis
    unfolding agg_pending_def sample_agg_entries(1)
    by (simp add: sample_agg_entries [unfolded One_nat_def])
      (simp add: agg_entry_def agg_idx_def agg_color_def agg_size_def
        sample_agg_dev_def zero_intr_entry_def phase_at_def written_color_def)
qed

lemma intr_aggregate_catches_up_witness:
  "\<exists>xdev'. data_intr_aggregate PF plain_env sample_queues 2 sample_agg_dev []
     = Some (Ok (xdev', intr_cidx_update PF zero_descq 2 [ScheduleWork 0, ScheduleWork 3]))
   \<and> agg_idx xdev' = 2 \<and> agg_color xdev'"
proof -
  have "msix_entry sample_agg_dev 2 = ic_vec_id (hd (xd_intr_coal_list sample_agg_dev))"
    "xd_dvec_start_idx sample_agg_dev = 2"
    by (simp_all add: msix_entry_def sample_agg_dev_def)
  from intr_aggregate_catches_up [OF sample_agg_pending this(2) [symmetric] this(1), of PF plain_env "[]"]
  show ?thesis
    by (auto simp: Let_def sample_agg_entries phase_at_def upt_rec)
qed

text \<open>
  The rings serve one vector, the queues of a function spread over all of its data vectors: an
  aggregated interrupt on any other one reads behind the list of rings.
\<close>

lemma second_data_vector_overruns:
  assumes "agg_pending xdev qs n p" "xd_dvec_start_idx xdev < vidx"
  shows "data_intr_aggregate b E qs vidx xdev tr = Some Bad"
  using assms by (auto simp: data_intr_aggregate_def agg_pending_def)

section \<open>Interrupt lines\<close>

text \<open>The lines a trace leaves requested and not freed, and whether it freed one it did not hold.\<close>

fun irq_held :: "trace \<Rightarrow> nat \<Rightarrow> bool" where
  "irq_held [] i = False"
| "irq_held (RequestIrq j rv # tr) i = (i = j \<and> rv = 0 \<or> irq_held tr i)"
| "irq_held (FreeIrq j # tr) i = (i \<noteq> j \<and> irq_held tr i)"
| "irq_held (_ # tr) i = irq_held tr i"

fun irq_frees_ok :: "trace \<Rightarrow> bool" where
  "irq_frees_ok [] = True"
| "irq_frees_ok (FreeIrq j # tr) = (irq_held tr j \<and> irq_frees_ok tr)"
| "irq_frees_ok (_ # tr) = irq_frees_ok tr"

lemma free_irqs_held: "irq_held (free_irqs n tr) i \<longleftrightarrow> irq_held tr i \<and> n \<le> i"
  by (induction n arbitrary: tr) auto

lemma free_irqs_ok: "irq_frees_ok tr \<Longrightarrow> (\<And>i. i < n \<Longrightarrow> irq_held tr i) \<Longrightarrow> irq_frees_ok (free_irqs n tr)"
  by (induction n arbitrary: tr) auto

lemma intr_teardown_held:
  assumes "\<forall>i. irq_held tr i \<longleftrightarrow> i < xd_num_vecs xdev" "irq_frees_ok tr"
  shows "\<forall>i. \<not> irq_held (intr_teardown xdev tr) i" "irq_frees_ok (intr_teardown xdev tr)"
  using assms free_irqs_ok [OF assms(2), of "xd_num_vecs xdev"]
  by (auto simp: intr_teardown_def Let_def free_irqs_held)

lemma request_loop_spec:
  assumes "request_loop E n i xdev tr = (rv, i', xdev', tr')"
    and "\<And>j. irq_held tr j \<longleftrightarrow> j < i" "irq_frees_ok tr" "length (xd_intr_vec_map xdev) = XDEV_NUM_IRQ_MAX"
    and "\<And>j. j < i \<Longrightarrow> j < XDEV_NUM_IRQ_MAX \<Longrightarrow> xd_intr_vec_map xdev ! j = vec_type xdev j"
  shows "(\<forall>j. irq_held tr' j \<longleftrightarrow> j < i') \<and> irq_frees_ok tr' \<and> (rv = 0 \<longrightarrow> i' = i + n)
    \<and> xdev' = xdev\<lparr>xd_intr_vec_map := xd_intr_vec_map xdev'\<rparr>
    \<and> length (xd_intr_vec_map xdev') = XDEV_NUM_IRQ_MAX
    \<and> (\<forall>j<i'. j < XDEV_NUM_IRQ_MAX \<longrightarrow> xd_intr_vec_map xdev' ! j = vec_type xdev j)"
  using assms
proof (induction n arbitrary: i xdev tr)
  case 0
  then show ?case by simp
next
  case (Suc n)
  let ?rv = "env_request_irq E tr i"
  let ?xd = "xdev\<lparr>xd_intr_vec_map := (xd_intr_vec_map xdev)[i := vec_type xdev i]\<rparr>"
  show ?case
  proof (cases "?rv = 0")
    case False
    then show ?thesis using Suc(2-) by (auto simp: Let_def)
  next
    case True
    have run: "request_loop E n (Suc i) ?xd (RequestIrq i 0 # tr) = (rv, i', xdev', tr')"
      using Suc(2) True by (simp add: Let_def)
    have vt: "vec_type ?xd j = vec_type xdev j" for j by (simp add: vec_type_def)
    have held: "irq_held (RequestIrq i 0 # tr) j \<longleftrightarrow> j < Suc i" for j
      using Suc(3) [of j] by auto
    have ok: "irq_frees_ok (RequestIrq i 0 # tr)" "length (xd_intr_vec_map ?xd) = XDEV_NUM_IRQ_MAX"
      using Suc(4,5) by simp_all
    have map: "xd_intr_vec_map ?xd ! j = vec_type ?xd j" if "j < Suc i" "j < XDEV_NUM_IRQ_MAX" for j
      using Suc(5) Suc(6) [of j] that by (cases "j = i") (simp_all add: vt)
    show ?thesis
      using Suc(1) [OF run held ok map] by (simp add: vt)
  qed
qed

text \<open>
  C25.  Setting up a function's interrupts holds a line for each vector when it succeeds, and
  none when it fails or polls; it gives each vector its use: errors on the first vector of
  function 0, the client's interrupts on the next one, data on all others, from the index kept as
  the start of the data vectors.  Tearing down afterwards frees each line that is held, once.
\<close>

theorem intr_setup_balanced:
  assumes "intr_setup E xdev tr = (rv, xdev', tr')"
    and "\<forall>i. \<not> irq_held tr i" "irq_frees_ok tr" "xd_num_vecs xdev = 0"
    and "length (xd_intr_vec_map xdev) = XDEV_NUM_IRQ_MAX"
  shows "irq_frees_ok tr'
    \<and> (rv \<noteq> 0 \<longrightarrow> (\<forall>i. \<not> irq_held tr' i))
    \<and> (rv = 0 \<longrightarrow> (\<forall>i. irq_held tr' i \<longleftrightarrow> i < xd_num_vecs xdev')
        \<and> xd_num_vecs xdev' \<le> XDEV_NUM_IRQ_MAX
        \<and> (\<forall>i<xd_num_vecs xdev'. xd_intr_vec_map xdev' ! i = vec_type xdev' i
             \<and> (vec_type xdev' i = INTR_TYPE_DATA \<longleftrightarrow> xd_dvec_start_idx xdev' \<le> i))
        \<and> (\<forall>i. \<not> irq_held (intr_teardown xdev' tr') i) \<and> irq_frees_ok (intr_teardown xdev' tr'))"
proof (cases "dc_poll_mode (xd_conf xdev) \<or> env_msix_count E tr = 0")
  case True
  then have "rv = 0" "xd_num_vecs xdev' = 0" "tr' = tr"
    using assms(1,4) by (auto simp: intr_setup_def Let_def split: if_splits)
  then show ?thesis
    using assms(2,3) by (simp add: intr_teardown_def Let_def free_irqs_held)
next
  case False
  let ?n = "min (env_msix_count E tr) XDEV_NUM_IRQ_MAX"
  let ?xd = "xdev\<lparr>xd_num_vecs := ?n\<rparr>"
  let ?tr = "EnableMsix ?n (env_enable_msix E tr ?n) # tr"
  show ?thesis
  proof (cases "env_enable_msix E tr ?n < 0")
    case True
    then have "rv \<noteq> 0" "tr' = ?tr"
      using assms(1) False by (auto simp: intr_setup_def Let_def)
    then show ?thesis using assms(2,3) by simp
  next
    case ok: False
    obtain rv1 i xd1 tr1 where run: "request_loop E ?n 0 ?xd ?tr = (rv1, i, xd1, tr1)"
      by (metis prod_cases4)
    have spec: "(\<forall>j. irq_held tr1 j \<longleftrightarrow> j < i) \<and> irq_frees_ok tr1 \<and> (rv1 = 0 \<longrightarrow> i = 0 + ?n)
      \<and> xd1 = ?xd\<lparr>xd_intr_vec_map := xd_intr_vec_map xd1\<rparr>
      \<and> length (xd_intr_vec_map xd1) = XDEV_NUM_IRQ_MAX
      \<and> (\<forall>j<i. j < XDEV_NUM_IRQ_MAX \<longrightarrow> xd_intr_vec_map xd1 ! j = vec_type ?xd j)"
      using assms(2,3,5) by (intro request_loop_spec [OF run]) auto
    then obtain m where xd1: "xd1 = ?xd\<lparr>xd_intr_vec_map := m\<rparr>" by metis
    have map: "\<forall>j<i. j < XDEV_NUM_IRQ_MAX \<longrightarrow> m ! j = vec_type xdev j"
      using spec by (simp add: xd1 vec_type_def)
    show ?thesis
    proof (cases "rv1 = 0")
      case False
      then have "rv \<noteq> 0" "tr' = DisableMsix # free_irqs i tr1"
        using assms(1) \<open>\<not> (dc_poll_mode (xd_conf xdev) \<or> env_msix_count E tr = 0)\<close> ok run
        by (auto simp: intr_setup_def Let_def)
      then show ?thesis using spec by (simp add: free_irqs_held free_irqs_ok)
    next
      case True
      then have eq: "rv = 0" "tr' = tr1" "xdev' = xd1\<lparr>xd_dvec_start_idx := if xd_func_id xd1 = 0 then 2 else 1,
                           xd_flags := xd_flags xd1 OR 0x2\<rparr>"
        using assms(1) False ok run by (auto simp: intr_setup_def Let_def)
      have vecs: "xd_num_vecs xdev' = ?n" "xd_intr_vec_map xdev' = m" "xd_func_id xdev' = xd_func_id xdev"
        "xd_dvec_start_idx xdev' = (if xd_func_id xdev = 0 then 2 else 1)"
        by (simp_all add: eq xd1)
      have "vec_type xdev' = vec_type xdev" by (rule ext) (simp add: vec_type_def vecs(3))
      moreover have "vec_type xdev j = INTR_TYPE_DATA \<longleftrightarrow> (if xd_func_id xdev = 0 then 2 else 1) \<le> j" for j
        by (auto simp: vec_type_def)
      moreover have "\<forall>j. irq_held tr' j \<longleftrightarrow> j < xd_num_vecs xdev'" "irq_frees_ok tr'"
        using spec True by (simp_all add: eq(2) vecs(1))
      moreover note intr_teardown_held [OF this]
      ultimately show ?thesis
        using map spec True by (simp add: vecs(1,2,4) eq(1))
    qed
  qed
qed

lemma intr_setup_balanced_witness:
  "case intr_setup plain_env (sample_dev\<lparr>xd_num_vecs := 0, xd_intr_vec_map := replicate XDEV_NUM_IRQ_MAX INTR_TYPE_USER\<rparr>) []
     of (rv, xdev', tr') \<Rightarrow> rv = 0 \<and> xd_num_vecs xdev' = 4 \<and> irq_held tr' 3 \<and> \<not> irq_held (intr_teardown xdev' tr') 3"
proof -
  let ?xd = "sample_dev\<lparr>xd_num_vecs := 0, xd_intr_vec_map := replicate XDEV_NUM_IRQ_MAX INTR_TYPE_USER\<rparr>"
  obtain rv xdev' tr' where run: "intr_setup plain_env ?xd [] = (rv, xdev', tr')" by (metis prod_cases3)
  have "rv = 0 \<and> xd_num_vecs xdev' = 4"
    using run by (auto simp: intr_setup_def Let_def sample_dev_def XDEV_NUM_IRQ_MAX_def numeral_eq_Suc)
  moreover have "irq_held tr' i \<longleftrightarrow> i < xd_num_vecs xdev'" "\<not> irq_held (intr_teardown xdev' tr') i" if "rv = 0" for i
    using intr_setup_balanced [OF run] that by auto
  ultimately show ?thesis by (auto simp: run)
qed

end
