(* ===== verification/Qdma_Device.thy ===== *)
theory Qdma_Device
  imports Qdma_Thread Qdma_Intr
begin

unbundle bit_operations_syntax

text \<open>
  A device and its queues as the library's client sees them, for the physical function's build:
  the queue arrays and their resources (\<open>libqdma/qdma_device.c\<close>), and the calls that add,
  configure, start, stop and remove a queue (\<open>libqdma/libqdma_export.c\<close>).  A queue's number is
  its index for H2C, and the number of queues plus its index for C2H.  The locks are not modelled:
  each definition is one call that runs alone.
\<close>

section \<open>State\<close>

text \<open>
  \<open>struct qdma_dev\<close>; its \<open>qbase\<close> and \<open>qmax\<close> are the fields of the same name of the device.
\<close>

record qdma_dev =
  qd_init_qrange :: bool
  qd_h2c_qcnt :: u16
  qd_c2h_qcnt :: u16
  qd_qs :: qdev_queues

text \<open>
  The device, what \<open>dev_priv\<close> points to, the threads, and the lists \<open>intr_list\<close> of the
  queues served by each vector.
\<close>

record qdma_lib =
  lb_xdev :: xlnx_dma_dev
  lb_dev :: "qdma_dev option"
  lb_threads :: qdma_threads
  lb_intr_list :: "nat list list"

definition queue_at :: "xlnx_dma_dev \<Rightarrow> qdma_dev \<Rightarrow> nat \<Rightarrow> qdma_descq" where
  "queue_at xdev qd qid =
     (if qid < unat (xd_qmax xdev) then qv_h2c (qd_qs qd) ! qid
      else qv_c2h (qd_qs qd) ! (qid - unat (xd_qmax xdev)))"

definition put_queue :: "xlnx_dma_dev \<Rightarrow> nat \<Rightarrow> qdma_descq \<Rightarrow> qdma_dev \<Rightarrow> qdma_dev" where
  "put_queue xdev qid q qd = qd\<lparr>qd_qs :=
     (if qid < unat (xd_qmax xdev) then (qd_qs qd)\<lparr>qv_h2c := (qv_h2c (qd_qs qd))[qid := q]\<rparr>
      else (qd_qs qd)\<lparr>qv_c2h := (qv_c2h (qd_qs qd))[qid - unat (xd_qmax xdev) := q]\<rparr>)\<rparr>"

text \<open>\<open>qdma_device_get_descq_by_id\<close>; the messages it prints are not modelled.\<close>

definition qdma_device_get_descq_by_id ::
  "xlnx_dma_dev \<Rightarrow> qdma_dev option \<Rightarrow> nat \<Rightarrow> bool \<Rightarrow> qdma_descq option" where
  "qdma_device_get_descq_by_id xdev dev idx init =
     (case dev of None \<Rightarrow> None
      | Some qd \<Rightarrow>
          let qmax = unat (xd_qmax xdev)
          in if qmax \<le> idx \<and> qmax \<le> idx - qmax then None
          else
            let descq = queue_at xdev qd idx
            in if init \<and> \<not> dq_enabled descq then None else Some descq)"

section \<open>Resources of the device\<close>

definition device_set_qrange :: "xlnx_dma_dev \<Rightarrow> qdma_dev \<Rightarrow> trace \<Rightarrow> int \<times> qdma_dev \<times> trace" where
  "device_set_qrange xdev qd tr =
     (0, qd\<lparr>qd_init_qrange := True\<rparr>,
      hw_set_fmap (xd_func_id xdev) (ucast (xd_qbase xdev)) (ucast (xd_qmax xdev)) tr)"

definition qdma_device_prep_q_resource ::
  "env \<Rightarrow> xlnx_dma_dev \<Rightarrow> qdma_dev \<Rightarrow> trace \<Rightarrow> int \<times> xlnx_dma_dev \<times> qdma_dev \<times> trace" where
  "qdma_device_prep_q_resource E xdev qd tr =
     (if qd_init_qrange qd then (0, xdev, qd, tr)
      else
        let (rv, qd, tr) = device_set_qrange xdev qd tr
        in if rv < 0 then (rv, xdev, qd, tr)
        else
          let (rv, xdev, tr) = intr_ring_setup E xdev tr
          in if rv \<noteq> 0 then (rv, xdev, qd, tr)
          else
            let (rv, tr) = (if xd_intr_coal_en xdev then qdma_intr_context_setup E xdev tr else (rv, tr))
            in if xd_intr_coal_en xdev \<and> rv \<noteq> 0 then (rv, xdev, qd, tr)
            else
              let tr = (if \<not> dc_poll_mode (xd_conf xdev) \<and> dc_master_pf (xd_conf xdev)
                        then qdma_err_intr_setup xdev False tr else tr)
              in (rv, xdev, qd, tr))"

section \<open>Adding and configuring a queue\<close>

definition QDMA_QUEUE_IDX_INVALID :: u16 where "QDMA_QUEUE_IDX_INVALID = 0xFFFF"

text \<open>
  The search for a free queue: the pair of a free queue must not be in use in the other mode.
  The lists are those of the pairs and of the queues wanted.
\<close>

fun find_free :: "bool \<Rightarrow> (qdma_descq \<times> qdma_descq) list \<Rightarrow> nat \<Rightarrow> nat option" where
  "find_free st [] i = None"
| "find_free st ((pairq, descq) # qs) i =
     (if dq_enabled pairq \<and> st \<noteq> qc_st (dq_conf pairq) then find_free st qs (Suc i)
      else if dq_enabled descq then find_free st qs (Suc i)
      else Some i)"

text \<open>What both ways of choosing a queue end in: the claimed index, or the error.\<close>

definition claim_queue :: "qdma_queue_conf \<Rightarrow> qdma_descq list \<Rightarrow> qdma_descq list \<Rightarrow> int + nat" where
  "claim_queue qconf descqs pairqs =
     (if qc_qidx qconf = QDMA_QUEUE_IDX_INVALID then
        (case find_free (qc_st qconf) (zip pairqs descqs) 0 of
           None \<Rightarrow> Inl QDMA_ERR_DESCQ_FULL | Some i \<Rightarrow> Inr i)
      else
        let i = unat (qc_qidx qconf)
        in if dq_enabled (pairqs ! i) \<and> qc_st qconf \<noteq> qc_st (dq_conf (pairqs ! i)) then Inl (- EINVAL)
           else if dq_enabled (descqs ! i) then Inl QDMA_ERR_DESCQ_IDX_ALREADY_ADDED
           else Inr i)"

definition add_count :: "bool \<Rightarrow> u16 \<Rightarrow> qdma_dev \<Rightarrow> qdma_dev" where
  "add_count c2h d qd =
     (if c2h then qd\<lparr>qd_c2h_qcnt := qd_c2h_qcnt qd + d\<rparr> else qd\<lparr>qd_h2c_qcnt := qd_h2c_qcnt qd + d\<rparr>)"

text \<open>
  The part of \<open>qdma_queue_add\<close> that follows the choice of queue \<open>i\<close>: the queue is enabled,
  the device's resources are prepared, the configuration is taken over.  \<open>fits\<close> says that the
  client gave no buffer for a message, or one that the message fits into.
\<close>

definition add_claimed ::
  "env \<Rightarrow> bool \<Rightarrow> qdma_queue_conf \<Rightarrow> nat \<Rightarrow> qdma_dev \<Rightarrow> qdma_lib \<Rightarrow> trace
     \<Rightarrow> int \<times> nat \<times> qdma_queue_conf \<times> qdma_lib \<times> trace" where
  "add_claimed E fits qconf i qd lib tr =
     (let xdev = lb_xdev lib;
          c2h = qc_c2h qconf;
          qid = (if c2h then unat (xd_qmax xdev) + i else i);
          qconf = qconf\<lparr>qc_qidx := of_nat i\<rparr>;
          qd = put_queue xdev qid ((queue_at xdev qd qid)\<lparr>dq_enabled := True\<rparr>) qd;
          (rv, xdev, qd, tr) = qdma_device_prep_q_resource E xdev qd tr
      in if rv < 0 then
           (rv, unat QDMA_QUEUE_IDX_INVALID, qconf,
            lib\<lparr>lb_xdev := xdev, lb_dev := Some (add_count c2h (- 1) qd)\<rparr>, tr)
         else
           let qd = put_queue xdev qid (qdma_descq_config xdev qconf False (queue_at xdev qd qid)) qd
           in (if fits then QDMA_OPERATION_SUCCESSFUL else rv, qid, qconf,
               lib\<lparr>lb_xdev := xdev, lb_dev := Some qd\<rparr>, tr))"

text \<open>
  \<open>qdma_queue_add\<close>: the code, the handle, the configuration written back, and the new state;
  \<open>Bad\<close> is an access through a null pointer.
\<close>

definition qdma_queue_add ::
  "env \<Rightarrow> bool \<Rightarrow> qdma_queue_conf \<Rightarrow> qdma_lib \<Rightarrow> trace
     \<Rightarrow> (int \<times> nat \<times> qdma_queue_conf \<times> qdma_lib \<times> trace) outcome" where
  "qdma_queue_add E fits qconf lib tr =
     (let xdev = lb_xdev lib;
          none = unat QDMA_QUEUE_IDX_INVALID;
          c2h = qc_c2h qconf;
          qmax = xd_qmax xdev
      in if (qc_st qconf \<and> \<not> xd_st_mode_en xdev) \<or> (\<not> qc_st qconf \<and> \<not> xd_mm_mode_en xdev)
      then Ok (QDMA_ERR_INTERFACE_NOT_ENABLED_IN_DEVICE, none, qconf, lib, tr)
      else
       (case lb_dev lib of None \<Rightarrow> Bad
        | Some qd \<Rightarrow>
            if qc_qidx qconf \<noteq> QDMA_QUEUE_IDX_INVALID \<and> qmax \<le> qc_qidx qconf
            then Ok (QDMA_ERR_INVALID_QIDX, none, qconf, lib, tr)
            else if qmax \<le> (if c2h then qd_c2h_qcnt qd else qd_h2c_qcnt qd)
            then Ok (QDMA_ERR_DESCQ_FULL, none, qconf, lib, tr)
            else
              let descqs = (if c2h then qv_c2h (qd_qs qd) else qv_h2c (qd_qs qd));
                  pairqs = (if c2h then qv_h2c (qd_qs qd) else qv_c2h (qd_qs qd));
                  qd = add_count c2h 1 qd
              in (case claim_queue qconf descqs pairqs of
                    Inl rv \<Rightarrow>
                      Ok (rv, none, qconf,
                          lib\<lparr>lb_dev := Some (if fits then add_count c2h (- 1) qd else qd)\<rparr>, tr)
                  | Inr i \<Rightarrow> Ok (add_claimed E fits qconf i qd lib tr))))"

definition qdma_queue_config :: "nat \<Rightarrow> qdma_queue_conf \<Rightarrow> qdma_lib \<Rightarrow> int \<times> qdma_lib" where
  "qdma_queue_config qid qconf lib =
     (let xdev = lb_xdev lib
      in case lb_dev lib of None \<Rightarrow> (QDMA_ERR_INVALID_QDMA_DEVICE, lib)
         | Some qd \<Rightarrow>
             (case qdma_device_get_descq_by_id xdev (Some qd) qid False of
                None \<Rightarrow> (QDMA_ERR_INVALID_QIDX, lib)
              | Some descq \<Rightarrow>
                  if dq_enabled descq then (- EINVAL, lib)
                  else
                    let qd = add_count (qc_c2h qconf) 1 qd;
                        descq = qdma_descq_config xdev qconf False (descq\<lparr>dq_enabled := True\<rparr>)
                    in (QDMA_OPERATION_SUCCESSFUL, lib\<lparr>lb_dev := Some (put_queue xdev qid descq qd)\<rparr>)))"

definition qdma_queue_reconfig :: "nat \<Rightarrow> qdma_queue_conf \<Rightarrow> qdma_lib \<Rightarrow> int \<times> qdma_lib" where
  "qdma_queue_reconfig qid qconf lib =
     (let xdev = lb_xdev lib
      in case qdma_device_get_descq_by_id xdev (lb_dev lib) qid True of
           None \<Rightarrow> (QDMA_ERR_INVALID_QIDX, lib)
         | Some descq \<Rightarrow>
             if \<not> dq_enabled descq \<or> dq_inited descq \<or> dq_online descq
             then (QDMA_ERR_INVALID_DESCQ_STATE, lib)
             else (0, lib\<lparr>lb_dev := map_option (put_queue xdev qid (qdma_descq_config xdev qconf True descq)) (lb_dev lib)\<rparr>))"

definition qdma_queue_get_config :: "nat \<Rightarrow> qdma_lib \<Rightarrow> qdma_queue_conf option" where
  "qdma_queue_get_config qid lib =
     map_option dq_conf (qdma_device_get_descq_by_id (lb_xdev lib) (lb_dev lib) qid False)"

section \<open>Starting, stopping and removing a queue\<close>

definition put_lib :: "nat \<Rightarrow> qdma_descq \<Rightarrow> qdma_lib \<Rightarrow> qdma_lib" where
  "put_lib qid descq lib = lib\<lparr>lb_dev := map_option (put_queue (lb_xdev lib) qid descq) (lb_dev lib)\<rparr>"

definition get_lib :: "nat \<Rightarrow> bool \<Rightarrow> qdma_lib \<Rightarrow> qdma_descq option" where
  "get_lib qid init lib = qdma_device_get_descq_by_id (lb_xdev lib) (lb_dev lib) qid init"

text \<open>
  The label \<open>free_resource\<close> of \<open>qdma_queue_start\<close>.
\<close>

definition start_free_resource :: "int \<Rightarrow> nat \<Rightarrow> qdma_descq \<Rightarrow> qdma_lib \<Rightarrow> trace \<Rightarrow> int \<times> qdma_lib \<times> trace" where
  "start_free_resource rv qid descq lib tr =
     (let (descq, tr) = qdma_descq_free_resource descq tr
      in (rv, put_lib qid (descq\<lparr>dq_inited := False\<rparr>) lib, tr))"

text \<open>The work that follows the programming of the device.\<close>

definition start_attach :: "bool \<Rightarrow> nat \<Rightarrow> qdma_descq \<Rightarrow> qdma_lib \<Rightarrow> trace \<Rightarrow> (int \<times> qdma_lib \<times> trace) outcome" where
  "start_attach fits qid descq lib tr =
     (let xdev = lb_xdev lib;
          descq = descq\<lparr>dq_online := True\<rparr>
      in case qdma_thread_add_work xdev (xd_addr xdev, qid) descq (lb_threads lib) of
           None \<Rightarrow> Bad
         | Some (descq, th) \<Rightarrow>
             let lib = lib\<lparr>lb_threads := th\<rparr>;
                 lib = (if xd_num_vecs xdev \<noteq> 0
                        then lib\<lparr>lb_intr_list := (lb_intr_list lib)
                               [dq_intr_id descq := lb_intr_list lib ! dq_intr_id descq @ [qid]]\<rparr>
                        else lib)
             in Ok (if fits then QDMA_OPERATION_SUCCESSFUL else QDMA_ERR_INVALID_INPUT_PARAM,
                    put_lib qid descq lib, tr))"

definition qdma_queue_start ::
  "env \<Rightarrow> xdev_list \<Rightarrow> bool \<Rightarrow> nat \<Rightarrow> qdma_lib \<Rightarrow> trace \<Rightarrow> (int \<times> qdma_lib \<times> trace) outcome" where
  "qdma_queue_start E devs fits qid lib tr =
     (case get_lib qid True lib of
        None \<Rightarrow> Ok (QDMA_ERR_INVALID_QIDX, lib, tr)
      | Some descq \<Rightarrow>
          let (rv, descq, xdev, tr) = qdma_descq_config_complete E devs (lb_xdev lib) descq tr;
              lib = lib\<lparr>lb_xdev := xdev\<rparr>
          in if rv < 0 then Ok (start_free_resource rv qid descq lib tr)
          else if \<not> dq_enabled descq \<or> dq_inited descq \<or> dq_online descq
            then Ok (QDMA_ERR_INVALID_DESCQ_STATE, put_lib qid descq lib, tr)
          else
            let (rv, descq, xdev, tr) = qdma_descq_alloc_resource E xdev (descq\<lparr>dq_inited := True\<rparr>) tr;
                lib = lib\<lparr>lb_xdev := xdev\<rparr>
            in if rv < 0 then Ok (start_free_resource rv qid descq lib tr)
            else
              let (rv, tr) = qdma_descq_prog_hw PF E xdev descq tr
              in if rv < 0 then
                   let tr = snd (qdma_descq_context_clear E (dq_qidx_hw descq) (qc_st (dq_conf descq))
                                  (qc_c2h (dq_conf descq)) True tr)
                   in Ok (start_free_resource rv qid descq lib tr)
                 else start_attach fits qid descq lib tr)"

text \<open>
  \<open>qdma_queue_stop\<close>.  Taking a queue off the list of its vector when it is on none follows
  a pointer that is null or poisoned: \<open>Bad\<close>.
\<close>

definition qdma_queue_stop :: "env \<Rightarrow> bool \<Rightarrow> nat \<Rightarrow> qdma_lib \<Rightarrow> trace \<Rightarrow> (int \<times> qdma_lib \<times> trace) outcome" where
  "qdma_queue_stop E fits qid lib tr =
     (let xdev = lb_xdev lib
      in case get_lib qid True lib of
        None \<Rightarrow> Ok (QDMA_ERR_INVALID_QIDX, lib, tr)
      | Some descq \<Rightarrow>
          let (descq, th) = qdma_thread_remove_work (xd_addr xdev, qid) descq (lb_threads lib);
              lib = lib\<lparr>lb_threads := th\<rparr>
          in if xd_num_vecs xdev \<noteq> 0 \<and> (\<forall>l\<in>set (lb_intr_list lib). qid \<notin> set l) then Bad
          else
            let lib = (if xd_num_vecs xdev \<noteq> 0
                       then lib\<lparr>lb_intr_list := map (remove1 qid) (lb_intr_list lib)\<rparr> else lib);
                tr = snd (qdma_descq_context_clear E (dq_qidx_hw descq) (qc_st (dq_conf descq))
                            (qc_c2h (dq_conf descq)) False tr);
                (descq, tr) = qdma_descq_free_resource descq tr
            in Ok (if fits then QDMA_OPERATION_SUCCESSFUL else QDMA_ERR_INVALID_INPUT_PARAM,
                   put_lib qid (descq\<lparr>dq_online := False, dq_inited := False\<rparr>) lib, tr))"

text \<open>The lookup that \<open>qdma_queue_remove\<close> begins with is made before \<open>dev_priv\<close> is tested.\<close>

definition qdma_queue_remove :: "env \<Rightarrow> nat \<Rightarrow> qdma_lib \<Rightarrow> trace \<Rightarrow> int \<times> qdma_lib \<times> trace" where
  "qdma_queue_remove E qid lib tr =
     (if lb_dev lib = None then (QDMA_ERR_INVALID_QDMA_DEVICE, lib, tr)
      else
       (case get_lib qid True lib of
          None \<Rightarrow> (QDMA_ERR_INVALID_QIDX, lib, tr)
        | Some descq \<Rightarrow>
            let descq = descq\<lparr>dq_inited := False, dq_online := False\<rparr>;
                (descq, xdev, tr) = qdma_descq_cleanup E (lb_xdev lib) descq tr;
                lib = put_lib qid (descq\<lparr>dq_enabled := False\<rparr>) (lib\<lparr>lb_xdev := xdev\<rparr>)
            in (QDMA_OPERATION_SUCCESSFUL,
                lib\<lparr>lb_dev := map_option (add_count (qc_c2h (dq_conf descq)) (- 1)) (lb_dev lib)\<rparr>, tr)))"

section \<open>Setting up and tearing down a device\<close>

text \<open>The user BAR: the highest of the six bits that is set, if one is.\<close>

definition user_bar :: "u32 \<Rightarrow> int \<Rightarrow> int" where
  "user_bar v old = fold (\<lambda>i bar. if bit v i then int i else bar) [0..<6] old"

text \<open>The initial queues of a device, \<open>qmax\<close> for each direction.\<close>

definition init_queues :: "xlnx_dma_dev \<Rightarrow> qdev_queues" where
  "init_queues xdev =
     (let qs = map (\<lambda>i. qdma_descq_init xdev (of_nat i) (of_nat i)) [0..<unat (xd_qmax xdev)]
      in \<lparr>qv_h2c = qs, qv_c2h = qs\<rparr>)"

text \<open>
  Both calls per channel, with the arguments of the first and of the second.  \<open>qdma_device_cleanup\<close>
  passes \<open>DMA_TO_DEVICE\<close> and \<open>DMA_FROM_DEVICE\<close>, 1 and 2, for a \<open>bool\<close>.
\<close>

definition mm_channels ::
  "(u32 \<Rightarrow> bool \<Rightarrow> trace \<Rightarrow> trace) \<Rightarrow> int \<Rightarrow> int \<Rightarrow> xlnx_dma_dev \<Rightarrow> trace \<Rightarrow> trace" where
  "mm_channels f d1 d2 xdev tr =
     fold (\<lambda>i tr. f (of_nat i) (d2 \<noteq> 0) (f (of_nat i) (d1 \<noteq> 0) tr)) [0..<unat (xd_mm_channel_max xdev)] tr"

text \<open>What the function reads about itself.\<close>

definition device_identify :: "env \<Rightarrow> xlnx_dma_dev \<Rightarrow> trace \<Rightarrow> xlnx_dma_dev \<times> trace" where
  "device_identify E xdev tr =
     (let (func, tr) = read_reg E QDMA_REG_FUNC_ID tr;
          xdev = xdev\<lparr>xd_func_id := ucast func\<rparr>;
          (v, tr) = read_reg E 0x10C tr;
          v = drop_bit (6 * unat (xd_func_id xdev)) v AND 0x3F
      in (xdev\<lparr>xd_conf := (xd_conf xdev)\<lparr>dc_bar_num_user := user_bar v (dc_bar_num_user (xd_conf xdev))\<rparr>\<rparr>, tr))"

text \<open>The allocation's size is not modelled: its argument is the number of queues.\<close>

definition qdma_device_init :: "env \<Rightarrow> qdma_lib \<Rightarrow> trace \<Rightarrow> int \<times> qdma_lib \<times> trace" where
  "qdma_device_init E lib tr =
     (let xdev = lb_xdev lib;
          qmax = dc_qsets_max (xd_conf xdev);
          (xdev, tr) = device_identify E xdev tr;
          (rv, xdev, tr) = intr_setup E xdev tr;
          lib = lib\<lparr>lb_xdev := xdev, lb_intr_list := (if dc_poll_mode (xd_conf xdev) then lb_intr_list lib
              else replicate (xd_num_vecs xdev) [] @ drop (xd_num_vecs xdev) (lb_intr_list lib))\<rparr>
      in if rv \<noteq> 0 then (- EINVAL, lib, tr)
      else if qmax = 0 then (- EINVAL, lib, tr)
      else
        let ok = env_kalloc E tr (2 * ucast qmax);
            tr = Kalloc (2 * ucast qmax) ok # tr
        in if \<not> ok then (- ENOMEM, lib, intr_teardown xdev tr)
        else
          let qbase = ucast (xd_func_id xdev) * 512;
              xdev = xdev\<lparr>xd_qmax := qmax, xd_qbase := qbase,
                          xd_conf := (xd_conf xdev)\<lparr>dc_qsets_base := ucast qbase\<rparr>\<rparr>;
              qd = \<lparr>qd_init_qrange = False, qd_h2c_qcnt = 0, qd_c2h_qcnt = 0, qd_qs = init_queues xdev\<rparr>;
              tr = (if dc_master_pf (xd_conf xdev)
                    then mm_channels hw_mm_channel_enable 1 0 xdev (hw_set_global_csr tr) else tr)
          in (0, lib\<lparr>lb_xdev := xdev, lb_dev := Some qd\<rparr>, tr))"

text \<open>Stopping the enabled queues among the given ones.\<close>

fun stop_loop :: "env \<Rightarrow> nat list \<Rightarrow> qdma_lib \<Rightarrow> trace \<Rightarrow> (qdma_lib \<times> trace) outcome" where
  "stop_loop E [] lib tr = Ok (lib, tr)"
| "stop_loop E (qid # qids) lib tr =
     (if (case get_lib qid False lib of None \<Rightarrow> False | Some q \<Rightarrow> dq_enabled q) then
        (case qdma_queue_stop E True qid lib tr of
           Bad \<Rightarrow> Bad | Ok (rv, lib, tr) \<Rightarrow> stop_loop E qids lib tr)
      else stop_loop E qids lib tr)"

fun cleanup_loop :: "env \<Rightarrow> nat list \<Rightarrow> qdma_lib \<Rightarrow> trace \<Rightarrow> qdma_lib \<times> trace" where
  "cleanup_loop E [] lib tr = (lib, tr)"
| "cleanup_loop E (qid # qids) lib tr =
     (case get_lib qid False lib of
        None \<Rightarrow> cleanup_loop E qids lib tr
      | Some descq \<Rightarrow>
          let (descq, xdev, tr) = qdma_descq_cleanup E (lb_xdev lib) descq tr
          in cleanup_loop E qids (put_lib qid descq (lib\<lparr>lb_xdev := xdev\<rparr>)) tr)"

definition qdma_device_cleanup :: "env \<Rightarrow> qdma_lib \<Rightarrow> trace \<Rightarrow> (qdma_lib \<times> trace) outcome" where
  "qdma_device_cleanup E lib tr =
     (if lb_dev lib = None then Ok (lib, tr)
      else
       (case stop_loop E [0..<2 * unat (xd_qmax (lb_xdev lib))] lib tr of
          Bad \<Rightarrow> Bad
        | Ok (lib, tr) \<Rightarrow>
            let xdev = lb_xdev lib;
                tr = intr_teardown xdev tr;
                tr = (if xd_intr_coal_en xdev then intr_ring_teardown PF E xdev tr else tr);
                tr = (if xd_func_id xdev = 0 then mm_channels hw_mm_channel_disable 1 2 xdev tr else tr);
                (lib, tr) = cleanup_loop E [0..<2 * unat (xd_qmax xdev)] lib tr
            in Ok (lib\<lparr>lb_dev := None\<rparr>, Kfree # tr)))"

section \<open>Parameters of the device\<close>

text \<open>\<open>libqdma/libqdma_config.c\<close>.\<close>

definition qdma_set_qmax :: "env \<Rightarrow> u32 \<Rightarrow> qdma_lib \<Rightarrow> trace \<Rightarrow> (int \<times> qdma_lib \<times> trace) outcome" where
  "qdma_set_qmax E qsets_max lib tr =
     (case lb_dev lib of None \<Rightarrow> Ok (- EINVAL, lib, tr)
      | Some qd \<Rightarrow>
          let cur = ucast (dc_qsets_max (xd_conf (lb_xdev lib)))
          in if qd_init_qrange qd \<or> qsets_max = cur \<or> cur < qsets_max then Ok (- 1, lib, tr)
          else
           (case qdma_device_cleanup E lib tr of
              Bad \<Rightarrow> Bad
            | Ok (lib, tr) \<Rightarrow>
                let xdev = lb_xdev lib;
                    xdev = xdev\<lparr>xd_conf := (xd_conf xdev)\<lparr>dc_qsets_max := ucast qsets_max\<rparr>\<rparr>;
                    (rv, lib, tr) = qdma_device_init E (lib\<lparr>lb_xdev := xdev\<rparr>) tr
                in if rv < 0 then
                     (case qdma_device_cleanup E lib tr of
                        Bad \<Rightarrow> Bad | Ok (lib, tr) \<Rightarrow> Ok (QDMA_OPERATION_SUCCESSFUL, lib, tr))
                   else Ok (QDMA_OPERATION_SUCCESSFUL, lib, tr)))"

definition qdma_get_qmax :: "qdma_lib \<Rightarrow> u16" where
  "qdma_get_qmax lib = dc_qsets_max (xd_conf (lb_xdev lib))"

definition qdma_set_intr_rngsz :: "u32 \<Rightarrow> qdma_lib \<Rightarrow> int \<times> qdma_lib" where
  "qdma_set_intr_rngsz intr_rngsz lib =
     (let xdev = lb_xdev lib
      in case lb_dev lib of None \<Rightarrow> (- EINVAL, lib)
         | Some qd \<Rightarrow>
             if intr_rngsz = ucast (dc_intr_rngsz (xd_conf xdev)) \<or> \<not> dc_intr_agg (xd_conf xdev)
                \<or> qd_init_qrange qd
             then (- 1, lib)
             else (QDMA_OPERATION_SUCCESSFUL,
                   lib\<lparr>lb_xdev := xdev\<lparr>xd_conf := (xd_conf xdev)\<lparr>dc_intr_rngsz := ucast intr_rngsz\<rparr>\<rparr>\<rparr>))"

definition qdma_get_intr_rngsz :: "qdma_lib \<Rightarrow> u8" where
  "qdma_get_intr_rngsz lib =
     (if dc_intr_agg (xd_conf (lb_xdev lib)) then dc_intr_rngsz (xd_conf (lb_xdev lib)) else 0)"

definition qdma_set_wrb_acc :: "u32 \<Rightarrow> trace \<Rightarrow> int \<times> trace" where
  "qdma_set_wrb_acc wrb_acc tr = (QDMA_OPERATION_SUCCESSFUL, write_reg QDMA_REG_GLBL_WB_ACC wrb_acc tr)"

definition qdma_get_wrb_acc :: "env \<Rightarrow> trace \<Rightarrow> u32 \<times> trace" where
  "qdma_get_wrb_acc E tr = read_reg E QDMA_REG_GLBL_WB_ACC tr"

end
