(* ===== verification/Qdma_Request.thy ===== *)
theory Qdma_Request
  imports Qdma_Device
begin

unbundle bit_operations_syntax

text \<open>
  Data transfer requests as the library's client makes them (\<open>libqdma/libqdma_export.c\<close>, the end
  of \<open>qdma_st_c2h.c\<close>, \<open>qdma_descq.c\<close> and \<open>qdma_regs.c\<close>): mapping the request's pages,
  submitting it, waiting for it, and the calls that read or write packets, service a queue, or set
  its completion parameters.  A request is named by its address \<open>r\<close>; its contents live in
  \<open>dq_reqs\<close> of the queue it is given to.

  What the other contexts (threads, interrupts, the device) do while a call waits is a parameter
  \<open>others\<close>, any function of the library's state and the trace.
\<close>

type_synonym waiter = "qdma_lib \<Rightarrow> trace \<Rightarrow> qdma_lib \<times> trace"

section \<open>Mapping the pages of a request\<close>

fun sgl_map_loop :: "env \<Rightarrow> qdma_sw_sg list \<Rightarrow> trace \<Rightarrow> int \<times> qdma_sw_sg list \<times> trace" where
  "sgl_map_loop E [] tr = (0, [], tr)"
| "sgl_map_loop E (sg # sgs) tr =
     (let a = env_page_map E tr (sg_pg sg);
          tr = PageMap (sg_pg sg) a # tr
      in (case a of
            None \<Rightarrow> (- EIO, sg\<lparr>sg_dma_addr := env_map_error E\<rparr> # sgs, tr)
          | Some a \<Rightarrow>
              let (rv, sgs, tr) = sgl_map_loop E sgs tr
              in (rv, sg\<lparr>sg_dma_addr := a + ucast (sg_offset sg)\<rparr> # sgs, tr)))"

definition sgl_map :: "env \<Rightarrow> qdma_request \<Rightarrow> trace \<Rightarrow> int \<times> qdma_request \<times> trace" where
  "sgl_map E req tr =
     (let n = unat (rq_sgcnt req);
          (rv, sgl, tr) = sgl_map_loop E (take n (rq_sgl req)) tr
      in (rv, req\<lparr>rq_sgl := sgl @ drop n (rq_sgl req)\<rparr>, tr))"

text \<open>\<open>memset(cb, 0, ..)\<close>.\<close>

definition zero_cb :: "qdma_request \<Rightarrow> qdma_request" where
  "zero_cb req = req\<lparr>cb_desc_nr := 0, cb_offset := 0, cb_left := 0, cb_sg_offset := 0, cb_sg_idx := 0,
     cb_status := 0, cb_done := False, cb_unmap_needed := False\<rparr>"

section \<open>Waiting\<close>

text \<open>\<open>qdma_request_wait_for_cmpl\<close> from the end of the wait on.\<close>

definition qdma_request_wait_for_cmpl :: "nat \<Rightarrow> qdma_descq \<Rightarrow> int \<times> qdma_descq" where
  "qdma_request_wait_for_cmpl r descq =
     (let cb = dq_reqs descq r;
          descq = (if \<not> cb_done cb then list_del_req r descq else descq)
      in if \<not> cb_done cb \<or> cb_status cb \<noteq> 0 then (- EIO, descq) else (0, descq))"

text \<open>\<open>sgl_unmap\<close> for request \<open>r\<close> of a queue, unless the client had mapped it.\<close>

definition unmap_req :: "nat \<Rightarrow> qdma_descq \<Rightarrow> trace \<Rightarrow> qdma_descq \<times> trace" where
  "unmap_req r descq tr =
     (if rq_dma_mapped (dq_reqs descq r) then (descq, tr)
      else let (req, tr) = sgl_unmap (dq_reqs descq r) tr in (upd_req r (\<lambda>_. req) descq, tr))"

section \<open>Submitting a request\<close>

text \<open>
  A streaming C2H request, for the queue \<open>descq\<close> already found.  \<open>Bad\<close> is the use of a queue
  that the others freed.
\<close>

definition qdma_request_submit_st_c2h ::
  "env \<Rightarrow> waiter \<Rightarrow> nat \<Rightarrow> nat \<Rightarrow> qdma_descq \<Rightarrow> qdma_lib \<Rightarrow> trace \<Rightarrow> (int \<times> qdma_lib \<times> trace) outcome" where
  "qdma_request_submit_st_c2h E others r qid descq lib tr =
     (let descq = upd_req r (\<lambda>q. q\<lparr>cb_left := rq_count q\<rparr>) descq;
          (_, descq, tr) = descq_st_c2h_read PF E r True True descq tr
      in if cb_left (dq_reqs descq r) = 0 then Ok (uint (rq_count (dq_reqs descq r)), put_lib qid descq lib, tr)
      else if \<not> dq_online descq then Ok (- EINVAL, put_lib qid descq lib, tr)
      else
        let descq = descq\<lparr>dq_pend_list := dq_pend_list descq @ [r]\<rparr>;
            tr = descq_wrb_cidx_update PF descq (dq_cidx_wrb_pend descq) tr;
            tr = wake_wb descq tr;
            lib = put_lib qid descq lib
        in if rq_fp_done (dq_reqs descq r) then Ok (0, lib, tr)
        else
          let (lib, tr) = others lib tr
          in (case get_lib qid False lib of
                None \<Rightarrow> Bad
              | Some descq \<Rightarrow>
                  let (rv, descq) = qdma_request_wait_for_cmpl r descq
                  in if rv < 0 then
                       let (descq, tr) = unmap_req r descq tr in Ok (rv, put_lib qid descq lib, tr)
                     else
                       let req = dq_reqs descq r
                       in Ok (uint (rq_count req - cb_left req), put_lib qid descq lib, tr)))"

text \<open>
  The other queues: the request goes onto the work list (\<open>queue_work\<close>), and a synchronous one is
  waited for.  The label \<open>unmap_sgl\<close> is \<open>submit_unmap\<close>.  The thread is woken through
  \<open>descq->wrkthp\<close>.
\<close>

definition submit_unmap ::
  "int \<Rightarrow> nat \<Rightarrow> nat \<Rightarrow> qdma_descq \<Rightarrow> qdma_lib \<Rightarrow> trace \<Rightarrow> (int \<times> qdma_lib \<times> trace) outcome" where
  "submit_unmap rv r qid descq lib tr =
     (let (descq, tr) = unmap_req r descq tr in Ok (rv, put_lib qid descq lib, tr))"

definition queue_work :: "nat \<Rightarrow> qdma_request \<Rightarrow> qdma_descq \<Rightarrow> qdma_descq" where
  "queue_work r req descq = (upd_req r (\<lambda>_. req) descq)\<lparr>dq_work_list := dq_work_list descq @ [r]\<rparr>"

definition map_for_submit :: "env \<Rightarrow> qdma_request \<Rightarrow> trace \<Rightarrow> int \<times> qdma_request \<times> trace" where
  "map_for_submit E req tr =
     (if rq_dma_mapped req then (0, req, tr)
      else
        let (rv, req, tr) = sgl_map E req tr
        in if rv < 0 then (rv, req, tr) else (rv, req\<lparr>cb_unmap_needed := True\<rparr>, tr))"

definition qdma_request_submit ::
  "env \<Rightarrow> waiter \<Rightarrow> nat \<Rightarrow> qdma_request \<Rightarrow> nat \<Rightarrow> qdma_lib \<Rightarrow> trace \<Rightarrow> (int \<times> qdma_lib \<times> trace) outcome" where
  "qdma_request_submit E others r req qid lib tr =
     (case get_lib qid True lib of
        None \<Rightarrow> Ok (- EINVAL, lib, tr)
      | Some descq \<Rightarrow>
          let c2h = qc_c2h (dq_conf descq)
          in if (rq_write req \<and> c2h) \<or> (\<not> rq_write req \<and> \<not> c2h) then Ok (- EINVAL, lib, tr)
          else
            let req = zero_cb req
            in if qc_st (dq_conf descq) \<and> c2h then
                 qdma_request_submit_st_c2h E others r qid (upd_req r (\<lambda>_. req) descq) lib tr
               else
                 let (rv, req, tr) = map_for_submit E req tr
                 in if rv < 0 then submit_unmap rv r qid (upd_req r (\<lambda>_. req) descq) lib tr
                 else if \<not> dq_online descq
                   then submit_unmap (- EINVAL) r qid (upd_req r (\<lambda>_. req) descq) lib tr
                 else
                   let descq = queue_work r req descq;
                       lib = put_lib qid descq lib
                   in (case dq_wrkthp descq of
                         None \<Rightarrow> Bad
                       | Some t \<Rightarrow>
                           let tr = Wakeup (WrkThread t) # tr
                           in if rq_fp_done req then Ok (0, lib, tr)
                           else
                             let (lib, tr) = others lib tr
                             in (case get_lib qid False lib of
                                   None \<Rightarrow> Bad
                                 | Some descq \<Rightarrow>
                                     let (rv, descq) = qdma_request_wait_for_cmpl r descq
                                     in if rv < 0 then submit_unmap rv r qid descq lib tr
                                        else Ok (uint (cb_offset (dq_reqs descq r)), put_lib qid descq lib, tr))))"

section \<open>Packets, service, completion parameters\<close>

definition qdma_queue_packet_write ::
  "env \<Rightarrow> nat \<Rightarrow> qdma_request \<Rightarrow> nat \<Rightarrow> qdma_lib \<Rightarrow> trace \<Rightarrow> (int \<times> qdma_lib \<times> trace) outcome" where
  "qdma_queue_packet_write E r req qid lib tr =
     (case get_lib qid True lib of
        None \<Rightarrow> Ok (QDMA_ERR_INVALID_QIDX, lib, tr)
      | Some descq \<Rightarrow>
          if \<not> qc_st (dq_conf descq) \<or> qc_c2h (dq_conf descq) then Ok (- EINVAL, lib, tr)
          else
            let (rv, req, tr) = map_for_submit E (zero_cb req) tr
            in if rv < 0 \<or> \<not> dq_online descq then
                 let rv = (if rv < 0 then rv else - EINVAL);
                     (req, tr) = (if cb_unmap_needed req then sgl_unmap req tr else (req, tr))
                 in Ok (rv, put_lib qid (upd_req r (\<lambda>_. req) descq) lib, tr)
               else
                 (case dq_wrkthp descq of
                    None \<Rightarrow> Bad
                  | Some t \<Rightarrow> Ok (sint (rq_count req), put_lib qid (queue_work r req descq) lib,
                                  Wakeup (WrkThread t) # tr)))"

definition qdma_queue_packet_read ::
  "env \<Rightarrow> nat \<Rightarrow> qdma_request \<Rightarrow> nat \<Rightarrow> qdma_lib \<Rightarrow> trace \<Rightarrow> int \<times> qdma_lib \<times> trace" where
  "qdma_queue_packet_read E r req qid lib tr =
     (case get_lib qid True lib of
        None \<Rightarrow> (QDMA_ERR_INVALID_QIDX, lib, tr)
      | Some descq \<Rightarrow>
          if \<not> qc_st (dq_conf descq) \<or> \<not> qc_c2h (dq_conf descq) then (- EINVAL, lib, tr)
          else
            let (_, descq, tr) = descq_st_c2h_read PF E r True True
                  (upd_req r (\<lambda>_. zero_cb req) descq) tr;
                req = dq_reqs descq r
            in (sint (rq_count req - cb_left req), put_lib qid descq lib, tr))"

text \<open>The counts of user data, packets and bytes.\<close>

definition qdma_queue_c2h_peek :: "nat \<Rightarrow> qdma_lib \<Rightarrow> int + u32 \<times> u32 \<times> u32" where
  "qdma_queue_c2h_peek qid lib =
     (case get_lib qid True lib of
        None \<Rightarrow> Inl QDMA_ERR_INVALID_QIDX
      | Some descq \<Rightarrow>
          let flq = dq_flq descq in Inr (fl_udd_cnt flq, fl_pkt_cnt flq, fl_pkt_dlen flq))"

definition qdma_queue_avail_desc :: "nat \<Rightarrow> qdma_lib \<Rightarrow> int" where
  "qdma_queue_avail_desc qid lib =
     (case get_lib qid True lib of None \<Rightarrow> QDMA_ERR_INVALID_QIDX | Some descq \<Rightarrow> sint (dq_avail descq))"

definition qdma_queue_service :: "env \<Rightarrow> nat \<Rightarrow> int \<Rightarrow> qdma_lib \<Rightarrow> trace \<Rightarrow> qdma_lib \<times> trace" where
  "qdma_queue_service E qid budget lib tr =
     (case get_lib qid True lib of
        None \<Rightarrow> (lib, tr)
      | Some descq \<Rightarrow>
          let (descq, tr) = qdma_descq_service_wb PF E budget descq tr in (put_lib qid descq lib, tr))"

definition intr_work :: "env \<Rightarrow> qdma_descq \<Rightarrow> trace \<Rightarrow> qdma_descq \<times> trace" where
  "intr_work E descq tr = qdma_descq_service_wb PF E 0 descq tr"

text \<open>\<open>qdma_queue_cmpl_ctrl\<close>: the parameters are set, or read from the doorbell register.\<close>

definition wrb_cidx_reg :: "qdma_descq \<Rightarrow> u32" where
  "wrb_cidx_reg descq = QDMA_REG_WRB_CIDX_BASE PF + ucast (qc_qidx (dq_conf descq)) * QDMA_REG_PIDX_STEP"

definition cmpl_ctrl_of :: "u32 \<Rightarrow> qdma_cmpl_ctrl" where
  "cmpl_ctrl_of val = \<lparr>
     cc_cnt_th_idx = ucast (drop_bit 16 val AND 0xF), cc_timer_idx = ucast (drop_bit 20 val AND 0xF),
     cc_trigger_mode = ucast (drop_bit 24 val AND 0x7), cc_en_stat_desc = bit val 27,
     cc_cmpl_en_intr = bit val 28\<rparr>"

definition conf_cmpl_ctrl :: "qdma_cmpl_ctrl \<Rightarrow> qdma_queue_conf \<Rightarrow> qdma_queue_conf" where
  "conf_cmpl_ctrl cctrl conf = conf\<lparr>
     qc_cmpl_trig_mode := cc_trigger_mode cctrl, qc_cmpl_timer_idx := cc_timer_idx cctrl,
     qc_cmpl_cnt_th_idx := cc_cnt_th_idx cctrl, qc_irq_en := cc_cmpl_en_intr cctrl,
     qc_cmpl_stat_en := cc_en_stat_desc cctrl\<rparr>"

definition qdma_queue_cmpl_ctrl ::
  "env \<Rightarrow> nat \<Rightarrow> qdma_cmpl_ctrl \<Rightarrow> bool \<Rightarrow> qdma_lib \<Rightarrow> trace \<Rightarrow> int \<times> qdma_cmpl_ctrl \<times> qdma_lib \<times> trace" where
  "qdma_queue_cmpl_ctrl E qid cctrl sets lib tr =
     (case get_lib qid True lib of
        None \<Rightarrow> (QDMA_ERR_INVALID_QIDX, cctrl, lib, tr)
      | Some descq \<Rightarrow>
          if sets then
            let descq = descq\<lparr>dq_conf := conf_cmpl_ctrl cctrl (dq_conf descq)\<rparr>
            in (0, cctrl, put_lib qid descq lib, descq_wrb_cidx_update PF descq (dq_cidx_wrb_pend descq) tr)
          else
            let (val, tr) = read_reg E (wrb_cidx_reg descq) tr;
                cctrl = cmpl_ctrl_of val
            in (0, cctrl, put_lib qid (descq\<lparr>dq_conf := conf_cmpl_ctrl cctrl (dq_conf descq)\<rparr>) lib, tr))"

section \<open>Looking at an interrupt ring\<close>

text \<open>
  \<open>qdma_intr_ring_dump\<close>: the entries copied, with their positions; \<open>Bad\<close> is a copy from outside
  the ring.  The text written to the caller's buffer is not modelled.
\<close>

definition qdma_intr_ring_dump ::
  "xlnx_dma_dev \<Rightarrow> u32 \<Rightarrow> int \<Rightarrow> int \<Rightarrow> (int \<times> (int \<times> intr_ring_entry) list) outcome" where
  "qdma_intr_ring_dump xdev vector_idx start_idx end_idx =
     (if \<not> xd_intr_coal_en xdev then Ok (- 1, [])
      else if unat vector_idx < xd_dvec_start_idx xdev
        \<or> xd_dvec_start_idx xdev + QDMA_DATA_VEC_PER_PF_MAX \<le> unat vector_idx then Ok (- 1, [])
      else
        let coal_entry = xd_intr_coal_list xdev ! (unat vector_idx - xd_dvec_start_idx xdev);
            n = uint (ic_num_entries coal_entry)
        in if n < start_idx then Ok (- 1, [])
        else
          let end_idx = (if end_idx = - 1 \<or> n \<le> end_idx then n - 1 else end_idx);
              start_idx = (if start_idx = - 1 then 0 else start_idx)
          in if end_idx < start_idx then Ok (- 1, [])
          else if start_idx < 0 then Bad
          else Ok (0, map (\<lambda>i. (i, ic_ring coal_entry ! nat i)) [start_idx..end_idx]))"

end
