(* ===== verification/Qdma_Frame.thy ===== *)
theory Qdma_Frame
  imports Qdma_Request
begin

unbundle bit_operations_syntax

text \<open>
  What the operations on a queue leave alone: its life-cycle state (\<open>flags\<close>), the device's
  fields that the lists depend on (\<open>core\<close>), and, for everything that moves data, the kinds of its rings
  (\<open>shape\<close>).
\<close>

section \<open>The life cycle\<close>

definition flags :: "qdma_descq \<Rightarrow> bool \<times> bool \<times> bool \<times> nat option \<times> nat option" where
  "flags q = (dq_enabled q, dq_inited q, dq_online q, dq_wrkthp q, dq_wbthp q)"

definition core :: "xlnx_dma_dev \<Rightarrow> nat \<times> u16 \<times> nat \<times> nat \<times> nat \<times> u8" where
  "core xdev = (xd_addr xdev, xd_qmax xdev, xd_num_vecs xdev, xd_dvec_start_idx xdev, dc_pdev (xd_conf xdev),
     dc_idx (xd_conf xdev))"

named_theorems frame

lemma core_simps [frame]:
  "core (xdev\<lparr>xd_intr_list_cnt := c\<rparr>) = core xdev" "core (xdev\<lparr>xd_intr_coal_en := e\<rparr>) = core xdev"
  "core (xdev\<lparr>xd_intr_coal_list := l\<rparr>) = core xdev"
  "core (xdev\<lparr>xd_conf := (xd_conf xdev)\<lparr>dc_isr_top_q_en := t\<rparr>\<rparr>) = core xdev"
  by (simp_all add: core_def)

lemma flags_flq_free [frame]: "flags (fst (descq_flq_free_resource q tr)) = flags q"
  by (simp add: descq_flq_free_resource_def Let_def) (simp add: flags_def put_flq_mem_def)

lemma flags_free [frame]: "flags (fst (qdma_descq_free_resource q tr)) = flags q"
proof -
  have *: "flags (q\<lparr>dq_desc := a, dq_desc_bus := b\<rparr>) = flags q" "flags (q\<lparr>dq_desc_wrb := w, dq_desc_wrb_bus := v\<rparr>) = flags q"
    for q a b w v by (simp_all add: flags_def)
  show ?thesis
    using flags_flq_free by (simp add: qdma_descq_free_resource_def Let_def split_beta *)
qed

lemma flags_flq_alloc [frame]: "flags (fst (snd (descq_flq_alloc_resource E q tr))) = flags q"
proof -
  have *: "flags (put_flq_mem m q) = flags q" "flags (q\<lparr>dq_flq := f\<rparr>) = flags q"
    "flags (q\<lparr>dq_cidx_wrb_pend := c\<rparr>) = flags q" for m q f c
    by (simp_all add: flags_def put_flq_mem_def)
  show ?thesis by (simp add: descq_flq_alloc_resource_def Let_def split_beta frame *)
qed

lemma flags_alloc_rings [frame]: "flags (fst (snd (alloc_rings E q tr))) = flags q"
proof -
  have *: "flags (setup_flq q) = flags q" "flags (q\<lparr>dq_desc := a, dq_desc_bus := b, dq_desc_wb_cidx := c\<rparr>) = flags q"
    "flags (q\<lparr>dq_desc_wrb := w, dq_desc_wrb_bus := v, dq_wrb_wb_pidx := p, dq_desc_wrb_cur := u\<rparr>) = flags q"
    for q a b c w v p u by (simp_all add: flags_def setup_flq_def Let_def)
  show ?thesis
    by (simp add: alloc_rings_def alloc_c2h_resource_def Let_def split_beta frame * split: option.splits)
qed

lemma flags_alloc_irq [frame]: "flags (fst (desc_alloc_irq q xdev)) = flags q"
  using desc_alloc_irq_queue [of q xdev] by (auto simp: flags_def)

lemma core_alloc_irq [frame]: "core (snd (desc_alloc_irq q xdev)) = core xdev"
  by (simp add: desc_alloc_irq_def Let_def split_beta frame)

lemma core_free_irq [frame]: "core (desc_free_irq q xdev) = core xdev"
  by (simp add: desc_free_irq_def Let_def frame)

lemma alloc_resource_frame [frame]:
  "flags (fst (snd (qdma_descq_alloc_resource E xdev q tr))) = flags q"
  "core (fst (snd (snd (qdma_descq_alloc_resource E xdev q tr)))) = core xdev"
  by (simp_all add: qdma_descq_alloc_resource_def Let_def split_beta frame)

lemma config_complete_frame [frame]:
  "flags (fst (snd (qdma_descq_config_complete E devs xdev q tr))) = flags q"
  "core (fst (snd (snd (qdma_descq_config_complete E devs xdev q tr)))) = core xdev"
  by (simp_all add: qdma_descq_config_complete_def Let_def split_beta frame) (simp_all add: flags_def)

lemma config_frame [frame]: "flags (qdma_descq_config xdev conf re q) = flags q"
  by (simp add: qdma_descq_config_def flags_def)

lemma ring_setup_frame [frame]: "core (fst (snd (intr_ring_setup E xdev tr))) = core xdev"
  by (simp add: intr_ring_setup_def Let_def split_beta core_def split: option.splits)

lemma prep_frame [frame]: "core (fst (snd (qdma_device_prep_q_resource E xdev qd tr))) = core xdev"
  by (simp add: qdma_device_prep_q_resource_def device_set_qrange_def Let_def split_beta frame)

lemma prep_counts [frame]:
  "qd_h2c_qcnt (fst (snd (snd (qdma_device_prep_q_resource E xdev qd tr)))) = qd_h2c_qcnt qd"
  "qd_c2h_qcnt (fst (snd (snd (qdma_device_prep_q_resource E xdev qd tr)))) = qd_c2h_qcnt qd"
  by (simp_all add: qdma_device_prep_q_resource_def device_set_qrange_def Let_def split_beta)

lemma prep_queues [frame]: "qd_qs (fst (snd (snd (qdma_device_prep_q_resource E xdev qd tr)))) = qd_qs qd"
  by (simp add: qdma_device_prep_q_resource_def device_set_qrange_def Let_def split_beta)

section \<open>Moving data\<close>

text \<open>The kind of descriptor that a mode needs, and the one that is there.\<close>

datatype ring_kind = NoRing | MmRing | H2cRing | C2hRing

fun kind_of_ring :: "desc_ring \<Rightarrow> ring_kind" where
  "kind_of_ring NoDesc = NoRing"
| "kind_of_ring (MmDesc _) = MmRing"
| "kind_of_ring (H2cDesc _) = H2cRing"
| "kind_of_ring (C2hDesc _) = C2hRing"

definition conf_kind :: "qdma_queue_conf \<Rightarrow> ring_kind" where
  "conf_kind conf = (if \<not> qc_st conf then MmRing else if qc_c2h conf then C2hRing else H2cRing)"

definition shape :: "qdma_descq \<Rightarrow> ring_kind \<times> bool \<times> bool \<times> bool" where
  "shape q = (kind_of_ring (dq_desc q), dq_desc_wrb q = None, qc_st (dq_conf q), qc_c2h (dq_conf q))"

definition static :: "qdma_descq \<Rightarrow> (bool \<times> bool \<times> bool \<times> nat option \<times> nat option) \<times> (ring_kind \<times> bool \<times> bool \<times> bool)" where
  "static q = (flags q, shape q)"

named_theorems static_frame

lemma static_updates [static_frame]:
  "static (upd_flq f q) = static q" "static (upd_req r m q) = static q" "static (list_del_req r q) = static q"
  "static (req_submitted r q) = static q" "static (q\<lparr>dq_err := e\<rparr>) = static q"
  "static (q\<lparr>dq_avail := a\<rparr>) = static q" "static (q\<lparr>dq_pidx := x\<rparr>) = static q"
  "static (q\<lparr>dq_cidx := x\<rparr>) = static q" "static (q\<lparr>dq_credit := x\<rparr>) = static q"
  "static (q\<lparr>dq_pidx_wrb := x\<rparr>) = static q" "static (q\<lparr>dq_cidx_wrb_pend := x\<rparr>) = static q"
  "static (q\<lparr>dq_work_list := l\<rparr>) = static q" "static (q\<lparr>dq_pend_list := l\<rparr>) = static q"
  "static (wrb_next q) = static q"
  by (simp_all add: static_def flags_def shape_def upd_flq_def upd_req_def list_del_req_def req_submitted_def
      wrb_next_def Let_def)

lemma static_slots [static_frame]: "static (upd_sdesc k g q) = static q" "static (upd_sinfo k h q) = static q"
  by (simp_all add: upd_sdesc_def upd_sinfo_def static_frame)

lemma ring_kind_set [simp]: "kind_of_ring (set_c2h_ring r d) = kind_of_ring d"
  by (cases d) simp_all

lemma static_flq_mem [static_frame]: "static (put_flq_mem m q) = static q"
  by (simp add: static_def flags_def shape_def put_flq_mem_def)

lemma static_refill_slot [static_frame]: "static (fst (snd (flq_refill_slot E rc i q tr))) = static q"
  by (simp add: flq_refill_slot_def Let_def split_beta static_frame)

lemma static_refill [static_frame]: "static (fst (snd (qdma_flq_refill E q i n rc tr))) = static q"
proof -
  have "static (fst (snd (flq_refill_loop E rc n c i q tr))) = static q" for n c i
    by (induction n arbitrary: c i q tr) (simp_all add: Let_def split_beta static_frame)
  then show ?thesis by (simp add: qdma_flq_refill_def)
qed

lemma static_mark [static_frame]: "static (mark_loop n k c q) = static q"
  by (induction n arbitrary: k q) (simp_all add: static_frame)

lemma static_rcv [static_frame]:
  "static (fst (snd (snd (rcv_pkt E len c q tr)))) = static q"
  "static (fst (snd (snd (rcv_udd_only E c q tr)))) = static q"
  by (simp_all add: rcv_pkt_def rcv_udd_only_def Let_def static_frame)

lemma static_req_done [static_frame]: "static (fst (qdma_sgt_req_done r e q tr)) = static q"
  by (simp add: qdma_sgt_req_done_def Let_def split_beta static_frame)

lemma static_st_c2h_read [static_frame]: "static (fst (snd (descq_st_c2h_read b E r u rf q tr))) = static q"
  by (simp add: descq_st_c2h_read_def c2h_read_refill_def c2h_read_finish_def Let_def split_beta static_frame)

lemma static_packets [static_frame]: "static (fst (packets_loop b E rs q tr)) = static q"
  by (induction rs arbitrary: q tr) (simp_all add: Let_def split_beta static_frame)

lemma static_finish [static_frame]: "static (fst (cmpl_finish b E pw p pp q tr)) = static q"
  by (simp add: cmpl_finish_def qdma_c2h_packets_proc_dflt_def Let_def split_beta static_frame)

lemma static_parse [static_frame]: "static (snd (snd (parse_cmpl_entry q))) = static q"
  by (simp add: parse_cmpl_entry_def Let_def static_frame)

lemma static_cmpl_loop [static_frame]:
  "static (fst (snd (snd (snd (cmpl_loop E n c p q tr))))) = static q"
proof (induction n arbitrary: c p q tr)
  case (Suc n)
  then show ?case by (simp add: Let_def split_beta static_frame)
qed simp

lemma static_completion [static_frame]:
  "static (fst (snd (descq_process_completion_st_c2h b E budget q tr))) = static q"
  by (simp add: descq_process_completion_st_c2h_def Let_def split_beta static_frame split: option.split)

lemma static_update_pend [static_frame]: "static (fst (snd (update_pend_loop rs c q tr))) = static q"
  by (induction rs arbitrary: c q tr) (simp_all add: Let_def split_beta static_frame)

lemma static_service [static_frame]: "static (fst (qdma_descq_service_wb b E budget q tr)) = static q"
  by (simp add: qdma_descq_service_wb_def descq_mm_n_h2c_wb_def req_update_pend_def descq_wb_credit_def
      Let_def split_beta static_frame)

text \<open>Reading into a request moves its progress on, nothing else.\<close>

lemma read_keeps_request:
  "rq_fp_done (dq_reqs (fst (snd (descq_st_c2h_read b E r u rf q tr))) r) = rq_fp_done (dq_reqs q r)"
proof -
  have refill: "dq_reqs (fst (snd (qdma_flq_refill E p i n rc t))) = dq_reqs p" for p i n rc t
    unfolding qdma_flq_refill_def by (rule outside_flq_fields(1)) (rule outside_refill_loop)
  have upd: "dq_reqs (upd_flq f p) = dq_reqs p" for f p by (simp add: upd_flq_def)
  show ?thesis
    by (simp add: descq_st_c2h_read_def c2h_read_refill_def c2h_read_finish_def Let_def split_beta refill upd)
      (simp add: upd_req_def refill upd)
qed

text \<open>Posting descriptors needs a ring of the kind that the mode calls for.\<close>

lemma static_ring:
  assumes "kind_of_ring d = kind_of_ring (dq_desc q)"
  shows "static (q\<lparr>dq_desc := d\<rparr>) = static q"
  using assms by (simp add: static_def flags_def shape_def)

lemma static_proc_request:
  assumes "kind_of_ring (dq_desc q) = conf_kind (dq_conf q)"
  shows "static (fst (snd (qdma_descq_proc_sgt_request b r q tr))) = static q"
proof -
  have "static (fst (snd (descq_mm_proc_request b r q tr))) = static q" if "\<not> qc_st (dq_conf q)"
    using assms that
    by (simp add: descq_mm_proc_request_def conf_kind_def Let_def split_beta static_frame static_ring
        split: option.split)
  moreover have "static (fst (snd (descq_proc_st_h2c_request b r q tr))) = static q"
    if "qc_st (dq_conf q)" "\<not> qc_c2h (dq_conf q)"
    using assms that
    by (simp add: descq_proc_st_h2c_request_def conf_kind_def Let_def split_beta static_frame static_ring
        split: option.split)
  ultimately show ?thesis by (simp add: qdma_descq_proc_sgt_request_def)
qed

text \<open>The life cycle's state is left alone even without one.\<close>

lemma flags_data:
  "flags (q\<lparr>dq_desc := d\<rparr>) = flags q" "flags (q\<lparr>dq_pidx := p\<rparr>) = flags q" "flags (q\<lparr>dq_avail := a\<rparr>) = flags q"
  "flags (upd_req r f q) = flags q" "flags (req_submitted r q) = flags q"
  "flags (fst (qdma_sgt_req_done r e q tr)) = flags q"
  using static_req_done [of r e q tr]
  by (simp_all add: flags_def upd_req_def req_submitted_def list_del_req_def static_def Let_def)

lemma flags_proc_request: "flags (fst (snd (qdma_descq_proc_sgt_request b r q tr))) = flags q"
proof -
  have "flags (fst (snd (descq_mm_proc_request b r q tr))) = flags q"
    by (simp add: descq_mm_proc_request_def Let_def split_beta flags_data split: option.split)
  moreover have "flags (fst (snd (descq_proc_st_h2c_request b r q tr))) = flags q"
    by (simp add: descq_proc_st_h2c_request_def Let_def split_beta flags_data split: option.split)
  ultimately show ?thesis by (simp add: qdma_descq_proc_sgt_request_def)
qed

lemma flags_wrk_proc: "flags (fst (qdma_thread_wrk_proc b q tr)) = flags q"
proof -
  have "flags (fst (wrk_loop b rs q tr)) = flags q" for rs
  proof (induction rs arbitrary: q tr)
    case (Cons r rs)
    then show ?case by (simp add: Let_def split_beta flags_data flags_proc_request)
  qed simp
  then show ?thesis by (simp add: qdma_thread_wrk_proc_def)
qed

lemma static_kind:
  "static q' = static q \<Longrightarrow> kind_of_ring (dq_desc q) = conf_kind (dq_conf q) \<Longrightarrow> kind_of_ring (dq_desc q') = conf_kind (dq_conf q')"
  by (simp add: static_def shape_def conf_kind_def)

lemma static_wrk_proc:
  assumes "kind_of_ring (dq_desc q) = conf_kind (dq_conf q)"
  shows "static (fst (qdma_thread_wrk_proc b q tr)) = static q"
proof -
  have "static (fst (wrk_loop b rs q tr)) = static q" for rs
    using assms
  proof (induction rs arbitrary: q tr)
    case (Cons r rs)
    obtain rv q1 tr1 where p: "qdma_descq_proc_sgt_request b r q tr = (rv, q1, tr1)" by (metis prod_cases3)
    have s1: "static q1 = static q" using static_proc_request [OF Cons.prems, of b r tr] by (simp add: p)
    obtain q2 tr2 where d: "(if rv < 0 then qdma_sgt_req_done r rv q1 tr1 else (q1, tr1)) = (q2, tr2)" by fastforce
    have s2: "static q2 = static q" using d s1 static_req_done [of r rv q1 tr1] by (auto split: if_splits)
    show ?case
      using Cons.IH [OF static_kind [OF s2 Cons.prems], of tr2] s2 by (simp add: p d)
  qed simp
  then show ?thesis by (simp add: qdma_thread_wrk_proc_def)
qed

section \<open>Rings come and go with the life cycle\<close>

text \<open>
  An initialised queue has descriptors of the kind that its mode needs, and a completion ring if it
  is a streaming C2H queue; a queue that is not initialised has none.
\<close>

definition typed :: "qdma_descq \<Rightarrow> bool" where
  "typed q \<longleftrightarrow>
     (if dq_inited q then kind_of_ring (dq_desc q) = conf_kind (dq_conf q)
        \<and> (dq_desc_wrb q = None \<longleftrightarrow> conf_kind (dq_conf q) \<noteq> C2hRing)
      else kind_of_ring (dq_desc q) = NoRing \<and> dq_desc_wrb q = None)"

lemma typed_static: "static q' = static q \<Longrightarrow> typed q' = typed q"
  by (simp add: static_def shape_def flags_def typed_def conf_kind_def)

lemma config_rings [simp]:
  "dq_desc (qdma_descq_config x conf re q) = dq_desc q" "dq_desc_wrb (qdma_descq_config x conf re q) = dq_desc_wrb q"
  by (simp_all add: qdma_descq_config_def)

lemma static_reconfig [static_frame]: "static (qdma_descq_config x conf True q) = static q"
  by (simp add: qdma_descq_config_def static_def flags_def shape_def)

lemma static_config_complete [static_frame]: "static (fst (snd (qdma_descq_config_complete E devs x q tr))) = static q"
  by (simp add: qdma_descq_config_complete_def Let_def split_beta)
    (simp add: static_def flags_def shape_def complete_conf_def)

lemma freed_rings:
  "dq_desc (fst (qdma_descq_free_resource q tr)) = NoDesc"
  "dq_desc_wrb (fst (qdma_descq_free_resource q tr)) = None"
  "qc_st (dq_conf (fst (qdma_descq_free_resource q tr))) = qc_st (dq_conf q)"
  "qc_c2h (dq_conf (fst (qdma_descq_free_resource q tr))) = qc_c2h (dq_conf q)"
proof -
  have *: "dq_desc (fst (descq_flq_free_resource q tr)) = NoDesc" if "dq_desc q = NoDesc" for q tr
  proof -
    have "dq_desc (put_flq_mem m q) = NoDesc" for m using that by (simp add: put_flq_mem_def)
    then show ?thesis by (simp add: descq_flq_free_resource_def Let_def)
  qed
  have c: "dq_conf (fst (descq_flq_free_resource q tr)) = dq_conf q" for q tr
    by (simp add: descq_flq_free_resource_def Let_def put_flq_mem_def)
  show "dq_desc (fst (qdma_descq_free_resource q tr)) = NoDesc"
    "dq_desc_wrb (fst (qdma_descq_free_resource q tr)) = None"
    "qc_st (dq_conf (fst (qdma_descq_free_resource q tr))) = qc_st (dq_conf q)"
    "qc_c2h (dq_conf (fst (qdma_descq_free_resource q tr))) = qc_c2h (dq_conf q)"
    by (simp_all add: qdma_descq_free_resource_def Let_def split_beta * c)
qed

lemma cleanup_rings:
  "dq_desc (fst (qdma_descq_cleanup E x q tr)) = NoDesc" "dq_desc_wrb (fst (qdma_descq_cleanup E x q tr)) = None"
  by (simp_all add: qdma_descq_cleanup_def Let_def split_beta freed_rings)

lemma static_flq [static_frame]:
  "static (fst (descq_flq_free_resource q tr)) = static q"
  "static (fst (snd (descq_flq_alloc_resource E q tr))) = static q"
proof -
  have *: "static (q\<lparr>dq_flq := f\<rparr>) = static q" for q f by (simp add: static_def flags_def shape_def)
  show free: "static (fst (descq_flq_free_resource q tr)) = static q" for q tr
    by (simp add: descq_flq_free_resource_def Let_def static_frame *)
  show "static (fst (snd (descq_flq_alloc_resource E q tr))) = static q"
    by (simp add: descq_flq_alloc_resource_def Let_def split_beta static_frame free *)
qed

lemma zero_ring_kind: "kind_of_ring (zero_ring conf) = conf_kind conf"
  by (simp add: zero_ring_def conf_kind_def Let_def)

lemma shape_static: "static q' = static q \<Longrightarrow> shape q' = shape q"
  by (simp add: static_def)

lemma alloc_rings_shape:
  assumes "alloc_rings E q tr = (True, q', tr')"
  shows "shape q' = (conf_kind (dq_conf q), (if conf_kind (dq_conf q) = C2hRing then False else dq_desc_wrb q = None),
    qc_st (dq_conf q), qc_c2h (dq_conf q))"
proof -
  obtain bus tr1 where d: "desc_ring_alloc E (qc_rngsz (dq_conf q)) (get_desc_size q) (get_desc_wb_size q) tr = (Some bus, tr1)"
    using assms by (auto simp: alloc_rings_def Let_def split_beta split: option.splits) (metis prod.collapse)
  define q1 where "q1 = q\<lparr>dq_desc := zero_ring (dq_conf q), dq_desc_bus := bus, dq_desc_wb_cidx := 0\<rparr>"
  have q1: "shape q1 = (conf_kind (dq_conf q), dq_desc_wrb q = None, qc_st (dq_conf q), qc_c2h (dq_conf q))"
    "dq_conf q1 = dq_conf q"
    by (simp_all add: q1_def shape_def zero_ring_kind)
  show ?thesis
  proof (cases "qc_st (dq_conf q) \<and> qc_c2h (dq_conf q)")
    case False
    then have "q' = q1" using assms d by (auto simp: alloc_rings_def Let_def q1_def)
    then show ?thesis using False q1 by (auto simp: conf_kind_def)
  next
    case True
    then have "alloc_c2h_resource E q1 tr1 = (True, q', tr')"
      using assms d by (auto simp: alloc_rings_def Let_def q1_def)
    then obtain w b tr2 where q': "q' = fst (snd (descq_flq_alloc_resource E
        ((setup_flq q1)\<lparr>dq_desc_wrb := Some w, dq_desc_wrb_bus := b, dq_wrb_wb_pidx := 0, dq_desc_wrb_cur := 0\<rparr>) tr2))"
      by (auto simp: alloc_c2h_resource_def Let_def split_beta split: option.splits) (metis fst_conv)
    have "shape q' = shape ((setup_flq q1)\<lparr>dq_desc_wrb := Some w, dq_desc_wrb_bus := b, dq_wrb_wb_pidx := 0, dq_desc_wrb_cur := 0\<rparr>)"
      unfolding q' by (rule shape_static) (rule static_flq)
    then show ?thesis using True q1 by (auto simp: shape_def setup_flq_def Let_def conf_kind_def)
  qed
qed

lemma alloc_typed:
  assumes "qdma_descq_alloc_resource E x q tr = (rv, q', x', tr')" "\<not> rv < 0"
    and "dq_inited q" "dq_desc_wrb q = None"
  shows "typed q'"
proof -
  have irq: "shape (fst (desc_alloc_irq p y)) = shape p" for p y
    using desc_alloc_irq_queue [of p y] by (auto simp: shape_def)
  obtain q1 tr1 where a: "alloc_rings E q tr = (True, q1, tr1)" and q': "q' = fst (desc_alloc_irq q1 x)"
    using assms(1,2) by (cases "alloc_rings E q tr")
      (auto simp: qdma_descq_alloc_resource_def Let_def errno_defs split_beta split: if_splits)
  have "dq_inited q'"
    using alloc_resource_frame(1) [of E x q tr] assms(1,3) by (simp add: flags_def)
  then show ?thesis
    using alloc_rings_shape [OF a] irq [of q1 x] assms(4)
    by (auto simp: typed_def q' shape_def conf_kind_def split: if_splits)
qed

end
