(* ===== verification/Qdma_Client.thy ===== *)
theory Qdma_Client
  imports Qdma_Frame
begin

unbundle bit_operations_syntax

text \<open>
  What a client of the library can rely on: an invariant of the queues, the threads' lists and
  the vectors' lists over every sequence of calls that keeps to the protocol, and the cases in
  which a call leaves something behind.
\<close>

section \<open>Lists of items\<close>

text \<open>Item \<open>r\<close> is on the list of thread \<open>t\<close> once and on no other.\<close>

definition on_thread :: "qdma_kthread list \<Rightarrow> qref \<Rightarrow> nat option \<Rightarrow> bool" where
  "on_thread ts r topt \<longleftrightarrow> (\<forall>t<length ts. count_list (kt_work_list (ts ! t)) r = (if topt = Some t then 1 else 0))
     \<and> (\<forall>t. topt = Some t \<longrightarrow> t < length ts)"

definition counts_ok :: "qdma_kthread list \<Rightarrow> bool" where
  "counts_ok ts \<longleftrightarrow> (\<forall>t\<in>set ts. kt_work_cnt t = of_nat (length (kt_work_list t)))"

definition on_vec :: "nat list list \<Rightarrow> nat \<Rightarrow> bool \<Rightarrow> bool" where
  "on_vec ls qid b \<longleftrightarrow> sum_list (map (\<lambda>l. count_list l qid) ls) = (if b then 1 else 0)"

lemma count_remove1: "count_list (remove1 x xs) y = (if x = y then count_list xs y - 1 else count_list xs y)"
  by (induction xs) auto

lemma add_item_count: "count_list (kt_work_list (add_item r t)) r' = count_list (kt_work_list t) r' + (if r = r' then 1 else 0)"
  by (simp add: add_item_def)

lemma del_item_count:
  "count_list (kt_work_list (del_item r t)) r' = count_list (kt_work_list t) r' - (if r = r' then 1 else 0)"
  by (simp add: del_item_def count_remove1)

lemma on_thread_add:
  "on_thread ts r None \<Longrightarrow> i < length ts \<Longrightarrow> on_thread (ts[i := add_item r (ts ! i)]) r (Some i)"
  "on_thread ts r' topt \<Longrightarrow> i < length ts \<Longrightarrow> r' \<noteq> r \<Longrightarrow> on_thread (ts[i := add_item r (ts ! i)]) r' topt"
  by (auto simp: on_thread_def nth_list_update add_item_count)

lemma on_thread_del:
  "on_thread ts r (Some i) \<Longrightarrow> on_thread (ts[i := del_item r (ts ! i)]) r None"
  "on_thread ts r' topt \<Longrightarrow> i < length ts \<Longrightarrow> r' \<noteq> r \<Longrightarrow> on_thread (ts[i := del_item r (ts ! i)]) r' topt"
  by (auto simp: on_thread_def nth_list_update del_item_count)

lemma counts_ok_add: "counts_ok ts \<Longrightarrow> i < length ts \<Longrightarrow> counts_ok (ts[i := add_item r (ts ! i)])"
  by (auto simp: counts_ok_def add_item_def dest!: subsetD [OF set_update_subset_insert])

lemma counts_ok_del:
  assumes "counts_ok ts" "on_thread ts r (Some i)"
  shows "counts_ok (ts[i := del_item r (ts ! i)])"
proof -
  have i: "i < length ts" "r \<in> set (kt_work_list (ts ! i))"
    using assms(2) count_notin [of r "kt_work_list (ts ! i)"] by (fastforce simp: on_thread_def)+
  then have "length (kt_work_list (ts ! i)) \<noteq> 0" by auto
  then have "of_nat (length (kt_work_list (ts ! i))) - 1 = (of_nat (length (kt_work_list (ts ! i)) - 1) :: u32)"
    by (cases "kt_work_list (ts ! i)") simp_all
  then show ?thesis
    using assms(1) i by (auto simp: counts_ok_def del_item_def length_remove1
        dest!: subsetD [OF set_update_subset_insert])
qed

lemma on_vec_add:
  assumes "i < length ls"
  shows "on_vec ls qid False \<Longrightarrow> on_vec (ls[i := ls ! i @ [qid]]) qid True"
    and "qid' \<noteq> qid \<Longrightarrow> on_vec (ls[i := ls ! i @ [qid]]) qid' b = on_vec ls qid' b"
proof -
  have split: "ls[i := x] = take i ls @ x # drop (Suc i) ls" "ls = take i ls @ ls ! i # drop (Suc i) ls" for x
    using assms by (simp_all add: upd_conv_take_nth_drop id_take_nth_drop [symmetric])
  show "on_vec ls qid False \<Longrightarrow> on_vec (ls[i := ls ! i @ [qid]]) qid True"
    unfolding on_vec_def by (subst (asm) split(2), subst split(1)) simp
  show "qid' \<noteq> qid \<Longrightarrow> on_vec (ls[i := ls ! i @ [qid]]) qid' b = on_vec ls qid' b"
    unfolding on_vec_def by (subst (2) split(2), subst split(1)) simp
qed

lemma on_vec_del:
  "on_vec ls qid True \<Longrightarrow> on_vec (map (remove1 qid) ls) qid False"
  "qid' \<noteq> qid \<Longrightarrow> on_vec (map (remove1 qid) ls) qid' b = on_vec ls qid' b"
proof -
  have "sum_list (map (\<lambda>l. count_list l qid) ls) = 1 \<Longrightarrow> \<forall>l\<in>set ls. count_list l qid \<le> 1"
    by (induction ls) (auto simp: add_is_1)
  then show "on_vec ls qid True \<Longrightarrow> on_vec (map (remove1 qid) ls) qid False"
    by (auto simp: on_vec_def count_remove1)
  show "qid' \<noteq> qid \<Longrightarrow> on_vec (map (remove1 qid) ls) qid' b = on_vec ls qid' b"
    by (simp add: on_vec_def count_remove1 comp_def)
qed

lemma on_vec_mem: "on_vec ls qid True \<Longrightarrow> \<exists>l\<in>set ls. qid \<in> set l"
proof (rule ccontr)
  assume "on_vec ls qid True" "\<not> (\<exists>l\<in>set ls. qid \<in> set l)"
  moreover then have "sum_list (map (\<lambda>l. count_list l qid) ls) = 0"
    by auto
  ultimately show False by (simp add: on_vec_def)
qed

section \<open>The invariant\<close>

text \<open>
  One queue: what its state says about it is what the lists hold.  A queue is on a work thread's list,
  on a vector's list or a completion thread's, exactly while it is online.
\<close>

definition queue_ok :: "xlnx_dma_dev \<Rightarrow> qdma_threads \<Rightarrow> nat list list \<Rightarrow> nat \<Rightarrow> qdma_descq \<Rightarrow> bool" where
  "queue_ok xdev th il qid q \<longleftrightarrow>
     (dq_online q \<longrightarrow> dq_inited q) \<and> (dq_inited q \<longrightarrow> dq_enabled q)
     \<and> (dq_wrkthp q \<noteq> None \<longleftrightarrow> dq_online q)
     \<and> (dq_wbthp q \<noteq> None \<longleftrightarrow> dq_online q \<and> xd_num_vecs xdev = 0)
     \<and> on_thread (th_wrk th) (xd_addr xdev, qid) (dq_wrkthp q)
     \<and> on_thread (th_wb th) (xd_addr xdev, qid) (dq_wbthp q)
     \<and> (xd_num_vecs xdev \<noteq> 0 \<longrightarrow> on_vec il qid (dq_online q))
     \<and> typed q"

definition threads_ok :: "qdma_threads \<Rightarrow> bool" where
  "threads_ok th \<longleftrightarrow> th_wrk th \<noteq> [] \<and> length (th_wb th) = length (th_wrk th)
     \<and> counts_ok (th_wrk th) \<and> counts_ok (th_wb th)"

definition vecs_ok :: "xlnx_dma_dev \<Rightarrow> nat list list \<Rightarrow> bool" where
  "vecs_ok xdev il \<longleftrightarrow> xd_num_vecs xdev = 0
     \<or> xd_dvec_start_idx xdev < xd_num_vecs xdev \<and> xd_num_vecs xdev \<le> length il"

definition lib_ok :: "xdev_list \<Rightarrow> qdma_lib \<Rightarrow> bool" where
  "lib_ok devs lib \<longleftrightarrow>
     (\<exists>qd. lb_dev lib = Some qd
       \<and> length (qv_h2c (qd_qs qd)) = unat (xd_qmax (lb_xdev lib))
       \<and> length (qv_c2h (qd_qs qd)) = unat (xd_qmax (lb_xdev lib))
       \<and> (\<forall>qid < 2 * unat (xd_qmax (lb_xdev lib)).
             queue_ok (lb_xdev lib) (lb_threads lib) (lb_intr_list lib) qid (queue_at (lb_xdev lib) qd qid)))
     \<and> threads_ok (lb_threads lib) \<and> vecs_ok (lb_xdev lib) (lb_intr_list lib)
     \<and> \<not> hndl_bad devs (lb_xdev lib)"

lemma core_fields:
  assumes "core xdev' = core xdev"
  shows "xd_addr xdev' = xd_addr xdev" "xd_qmax xdev' = xd_qmax xdev" "xd_num_vecs xdev' = xd_num_vecs xdev"
    "hndl_bad devs xdev' = hndl_bad devs xdev" "vecs_ok xdev' il = vecs_ok xdev il"
    "queue_at xdev' = queue_at xdev" "put_queue xdev' = put_queue xdev"
  using assms by (simp_all add: core_def hndl_bad_def vecs_ok_def queue_at_def put_queue_def fun_eq_iff)

lemma queue_ok_core: "core xdev' = core xdev \<Longrightarrow> queue_ok xdev' = queue_ok xdev"
  by (simp add: queue_ok_def core_def fun_eq_iff)

lemma flags_fields:
  "flags q' = flags q \<longleftrightarrow> dq_enabled q' = dq_enabled q \<and> dq_inited q' = dq_inited q \<and> dq_online q' = dq_online q
     \<and> dq_wrkthp q' = dq_wrkthp q \<and> dq_wbthp q' = dq_wbthp q"
  by (auto simp: flags_def)

lemma static_flags: "static q' = static q \<Longrightarrow> flags q' = flags q"
  by (simp add: static_def)

lemma queue_ok_static: "static q' = static q \<Longrightarrow> queue_ok xdev th il qid q' = queue_ok xdev th il qid q"
  using static_flags [of q' q] typed_static [of q' q] by (simp add: queue_ok_def flags_fields)

text \<open>The thread and vector part alone.\<close>

lemma queue_ok_flags:
  "flags q' = flags q \<Longrightarrow> typed q' \<Longrightarrow> queue_ok xdev th il qid q \<Longrightarrow> queue_ok xdev th il qid q'"
  by (simp add: queue_ok_def flags_fields)

lemma queue_at_put:
  assumes "length (qv_h2c (qd_qs qd)) = unat (xd_qmax xdev)" "length (qv_c2h (qd_qs qd)) = unat (xd_qmax xdev)"
    and "qid < 2 * unat (xd_qmax xdev)" "j < 2 * unat (xd_qmax xdev)"
  shows "queue_at xdev (put_queue xdev qid q qd) j = (if j = qid then q else queue_at xdev qd j)"
  using assms by (auto simp: queue_at_def put_queue_def nth_list_update)

lemma put_queue_length:
  "length (qv_h2c (qd_qs (put_queue xdev qid q qd))) = length (qv_h2c (qd_qs qd))"
  "length (qv_c2h (qd_qs (put_queue xdev qid q qd))) = length (qv_c2h (qd_qs qd))"
  by (simp_all add: put_queue_def)

lemma add_count_queues: "qd_qs (add_count c2h d qd) = qd_qs qd"
  by (simp add: add_count_def)

lemma queue_at_qs: "qd_qs qd' = qd_qs qd \<Longrightarrow> queue_at xdev qd' = queue_at xdev qd"
  by (simp add: queue_at_def fun_eq_iff)

text \<open>A call changes one queue, and keeps the lists as they are for the others.\<close>

lemma lib_ok_put:
  assumes "lib_ok devs lib" "lb_dev lib = Some qd" "qid < 2 * unat (xd_qmax (lb_xdev lib))"
    and "core (lb_xdev lib') = core (lb_xdev lib)" "threads_ok (lb_threads lib')"
    and "length (lb_intr_list lib') = length (lb_intr_list lib)"
    and "queue_ok (lb_xdev lib) (lb_threads lib') (lb_intr_list lib') qid q"
    and "\<And>j p. j \<noteq> qid \<Longrightarrow> queue_ok (lb_xdev lib) (lb_threads lib) (lb_intr_list lib) j p
           \<Longrightarrow> queue_ok (lb_xdev lib) (lb_threads lib') (lb_intr_list lib') j p"
    and "lb_dev lib' = Some qd'" "qd_qs qd' = qd_qs (put_queue (lb_xdev lib) qid q qd)"
  shows "lib_ok devs lib'"
proof -
  have wf: "length (qv_h2c (qd_qs qd)) = unat (xd_qmax (lb_xdev lib))"
    "length (qv_c2h (qd_qs qd)) = unat (xd_qmax (lb_xdev lib))"
    and old: "\<And>j. j < 2 * unat (xd_qmax (lb_xdev lib)) \<Longrightarrow>
      queue_ok (lb_xdev lib) (lb_threads lib) (lb_intr_list lib) j (queue_at (lb_xdev lib) qd j)"
    and rest: "vecs_ok (lb_xdev lib) (lb_intr_list lib)" "\<not> hndl_bad devs (lb_xdev lib)"
    using assms(1,2) by (auto simp: lib_ok_def)
  have "queue_ok (lb_xdev lib) (lb_threads lib') (lb_intr_list lib') j (queue_at (lb_xdev lib) qd' j)"
    if "j < 2 * unat (xd_qmax (lb_xdev lib))" for j
    using queue_at_put [OF wf assms(3) that, of q] queue_at_qs [OF assms(10)] old [OF that] assms(7,8)
    by (cases "j = qid") auto
  moreover have "vecs_ok (lb_xdev lib) (lb_intr_list lib')" using rest assms(6) by (simp add: vecs_ok_def)
  ultimately show ?thesis
    using wf rest assms(5,9,10) core_fields [OF assms(4)] queue_ok_core [OF assms(4)]
    by (simp add: lib_ok_def put_queue_length)
qed

lemma put_put_queue: "put_queue xdev qid q (put_queue xdev qid p qd) = put_queue xdev qid q qd"
  by (simp add: put_queue_def)

lemma put_queue_qs: "qd_qs qd' = qd_qs qd \<Longrightarrow> qd_qs (put_queue xdev qid q qd') = qd_qs (put_queue xdev qid q qd)"
  by (simp add: put_queue_def)

section \<open>Every call keeps it\<close>

lemma find_free_Some:
  "find_free st (zip ps qs) i = Some j \<Longrightarrow> length ps = length qs \<Longrightarrow>
     i \<le> j \<and> j - i < length qs \<and> \<not> dq_enabled (qs ! (j - i))"
proof (induction ps qs arbitrary: i rule: list_induct2')
  case (4 p ps q qs)
  then show ?case
    by (cases "j = i") (fastforce simp: Suc_diff_le nth_Cons' split: if_splits)+
qed auto

lemma claim_queue_free:
  assumes "claim_queue qconf qs ps = Inr i" "length ps = length qs"
    and "qc_qidx qconf \<noteq> QDMA_QUEUE_IDX_INVALID \<Longrightarrow> unat (qc_qidx qconf) < length qs"
  shows "i < length qs" "\<not> dq_enabled (qs ! i)"
  using assms find_free_Some [of "qc_st qconf" ps qs 0 i]
  by (auto simp: claim_queue_def Let_def split: if_splits option.splits)

lemma not_enabled_ok:
  assumes "queue_ok xdev th il qid q" "\<not> dq_enabled q"
    and "flags p = flags (q\<lparr>dq_enabled := True\<rparr>)" "dq_desc p = dq_desc q" "dq_desc_wrb p = dq_desc_wrb q"
  shows "queue_ok xdev th il qid p"
  using assms by (auto simp: queue_ok_def flags_fields typed_def)

lemma lib_ok_same:
  assumes "lib_ok devs lib" "lb_dev lib = Some qd" "qd_qs qd' = qd_qs qd"
  shows "lib_ok devs (lib\<lparr>lb_dev := Some qd'\<rparr>)"
  using assms queue_at_qs [OF assms(3)] by (simp add: lib_ok_def)

lemma lib_okD:
  assumes "lib_ok devs lib" "lb_dev lib = Some qd"
  shows "length (qv_h2c (qd_qs qd)) = unat (xd_qmax (lb_xdev lib))"
    "length (qv_c2h (qd_qs qd)) = unat (xd_qmax (lb_xdev lib))"
    "qid < 2 * unat (xd_qmax (lb_xdev lib)) \<Longrightarrow>
      queue_ok (lb_xdev lib) (lb_threads lib) (lb_intr_list lib) qid (queue_at (lb_xdev lib) qd qid)"
    "threads_ok (lb_threads lib)" "vecs_ok (lb_xdev lib) (lb_intr_list lib)" "\<not> hndl_bad devs (lb_xdev lib)"
  using assms by (auto simp: lib_ok_def)

lemma add_claimed_ok:
  assumes ok: "lib_ok devs lib" and qd: "lb_dev lib = Some qd" "qd_qs qd0 = qd_qs qd"
    and i: "i < unat (xd_qmax (lb_xdev lib))"
    and free: "\<not> dq_enabled (queue_at (lb_xdev lib) qd (if qc_c2h qconf then unat (xd_qmax (lb_xdev lib)) + i else i))"
    and run: "add_claimed E fits qconf i qd0 lib tr = (rv, h, c, lib', tr')"
  shows "lib_ok devs lib'"
proof -
  let ?x = "lb_xdev lib" and ?c2h = "qc_c2h qconf"
  let ?qid = "if ?c2h then unat (xd_qmax ?x) + i else i"
  let ?conf = "qconf\<lparr>qc_qidx := of_nat i\<rparr>"
  note D = lib_okD [OF ok qd(1)]
  have qid: "?qid < 2 * unat (xd_qmax ?x)" using i by simp
  define q1 where "q1 = (queue_at ?x qd0 ?qid)\<lparr>dq_enabled := True\<rparr>"
  define qd1 where "qd1 = put_queue ?x ?qid q1 qd0"
  obtain rv1 x2 qd2 tr2 where prep: "qdma_device_prep_q_resource E ?x qd1 tr = (rv1, x2, qd2, tr2)"
    by (metis prod_cases4)
  have x2: "core x2 = core ?x" using prep_frame [of E ?x qd1 tr] by (simp add: prep)
  have qs2: "qd_qs qd2 = qd_qs qd1" using prep_queues [of E ?x qd1 tr] by (simp add: prep)
  have qs1: "qd_qs qd1 = qd_qs (put_queue ?x ?qid q1 qd)"
    unfolding qd1_def by (rule put_queue_qs) (rule qd(2))
  define q3 where "q3 = qdma_descq_config x2 ?conf False (queue_at x2 qd2 ?qid)"
  have at: "queue_at x2 qd2 ?qid = q1"
    using queue_at_put [OF D(1,2) qid qid, of q1] queue_at_qs [OF qs2] queue_at_qs [OF qs1] core_fields(6) [OF x2]
    by simp
  have q1: "q1 = (queue_at ?x qd ?qid)\<lparr>dq_enabled := True\<rparr>"
    using queue_at_qs [OF qd(2)] by (simp add: q1_def)
  have q3: "flags q3 = flags ((queue_at ?x qd ?qid)\<lparr>dq_enabled := True\<rparr>)"
    by (simp add: q3_def at frame) (simp add: q1)
  have q3': "dq_desc q3 = dq_desc (queue_at ?x qd ?qid)" "dq_desc_wrb q3 = dq_desc_wrb (queue_at ?x qd ?qid)"
    by (simp_all add: q3_def at) (simp_all add: q1)
  note okq = not_enabled_ok [OF D(3) [OF qid] free]
  have run': "lib' = lib\<lparr>lb_xdev := x2, lb_dev := Some (if rv1 < 0 then add_count ?c2h (- 1) qd2 else put_queue x2 ?qid q3 qd2)\<rparr>"
    using run unfolding add_claimed_def Let_def q1_def [symmetric] qd1_def [symmetric]
    by (auto simp: prep q3_def)
  show ?thesis
  proof (cases "rv1 < 0")
    case True
    show ?thesis unfolding run'
      by (rule lib_ok_put [OF ok qd(1) qid, where q = q1 and qd' = "add_count ?c2h (- 1) qd2"])
        (use True in \<open>simp_all add: x2 D(4) okq q1 qs2 qs1 add_count_queues\<close>)
  next
    case False
    show ?thesis unfolding run'
      by (rule lib_ok_put [OF ok qd(1) qid, where q = q3 and qd' = "put_queue x2 ?qid q3 qd2"])
        (use False in \<open>simp_all add: x2 D(4) okq q3 q3' core_fields(7) [OF x2] put_queue_qs [OF qs2] put_queue_qs [OF qs1] put_put_queue\<close>)
  qed
qed

lemma claim_queue_error: "claim_queue qconf qs ps = Inl rv \<Longrightarrow> rv < 0"
  by (auto simp: claim_queue_def Let_def errno_defs split: if_splits option.splits)

text \<open>The ways in which \<open>qdma_queue_add\<close> ends.\<close>

lemma queue_add_cases:
  assumes "qdma_queue_add E fits qconf lib tr = Ok (rv, h, c, lib', tr')" "lb_dev lib = Some qd"
  obtains "lib' = lib" "rv < 0" "h = unat QDMA_QUEUE_IDX_INVALID"
  | "rv < 0" "h = unat QDMA_QUEUE_IDX_INVALID"
      "lib' = lib\<lparr>lb_dev := Some (if fits then add_count (qc_c2h qconf) (- 1) (add_count (qc_c2h qconf) 1 qd)
        else add_count (qc_c2h qconf) 1 qd)\<rparr>"
  | i where "\<not> (qc_qidx qconf \<noteq> QDMA_QUEUE_IDX_INVALID \<and> xd_qmax (lb_xdev lib) \<le> qc_qidx qconf)"
      "claim_queue qconf (if qc_c2h qconf then qv_c2h (qd_qs qd) else qv_h2c (qd_qs qd))
         (if qc_c2h qconf then qv_h2c (qd_qs qd) else qv_c2h (qd_qs qd)) = Inr i"
      "add_claimed E fits qconf i (add_count (qc_c2h qconf) 1 qd) lib tr = (rv, h, c, lib', tr')"
  using assms
  by (auto simp: qdma_queue_add_def Let_def add_count_queues errno_defs split: if_split_asm sum.split_asm
      dest: claim_queue_error)

lemma queue_add_total: "lb_dev lib \<noteq> None \<Longrightarrow> qdma_queue_add E fits qconf lib tr \<noteq> Bad"
  by (auto simp: qdma_queue_add_def Let_def split: if_split_asm sum.split_asm)

lemma claimed_free:
  assumes "lib_ok devs lib" "lb_dev lib = Some qd"
    and "claim_queue qconf (if qc_c2h qconf then qv_c2h (qd_qs qd) else qv_h2c (qd_qs qd))
         (if qc_c2h qconf then qv_h2c (qd_qs qd) else qv_c2h (qd_qs qd)) = Inr i"
    and "\<not> (qc_qidx qconf \<noteq> QDMA_QUEUE_IDX_INVALID \<and> xd_qmax (lb_xdev lib) \<le> qc_qidx qconf)"
  shows "i < unat (xd_qmax (lb_xdev lib))"
    "\<not> dq_enabled (queue_at (lb_xdev lib) qd (if qc_c2h qconf then unat (xd_qmax (lb_xdev lib)) + i else i))"
proof -
  note D = lib_okD [OF assms(1,2)]
  let ?qs = "if qc_c2h qconf then qv_c2h (qd_qs qd) else qv_h2c (qd_qs qd)"
  have len: "length (if qc_c2h qconf then qv_h2c (qd_qs qd) else qv_c2h (qd_qs qd)) = length ?qs"
    "length ?qs = unat (xd_qmax (lb_xdev lib))" using D(1,2) by simp_all
  have "i < length ?qs" "\<not> dq_enabled (?qs ! i)"
    using claim_queue_free [OF assms(3) len(1)] assms(4) len(2) by (auto simp: word_le_nat_alt)
  then show "i < unat (xd_qmax (lb_xdev lib))"
    "\<not> dq_enabled (queue_at (lb_xdev lib) qd (if qc_c2h qconf then unat (xd_qmax (lb_xdev lib)) + i else i))"
    using len(2) by (auto simp: queue_at_def split: if_splits)
qed

lemma queue_add_ok:
  assumes ok: "lib_ok devs lib" and run: "qdma_queue_add E fits qconf lib tr = Ok (rv, h, c, lib', tr')"
  shows "lib_ok devs lib'"
proof -
  obtain qd where qd: "lb_dev lib = Some qd" using ok by (auto simp: lib_ok_def)
  from run qd show ?thesis
  proof (cases rule: queue_add_cases)
    case 1
    then show ?thesis using ok by simp
  next
    case 2
    then show ?thesis using lib_ok_same [OF ok qd] by (simp add: add_count_queues)
  next
    case (3 i)
    then show ?thesis
      using add_claimed_ok [OF ok qd _ claimed_free [OF ok qd 3(2,1)] 3(3)] by (simp add: add_count_queues)
  qed
qed

lemma get_libD:
  assumes "get_lib qid init lib = Some q"
  obtains qd where "lb_dev lib = Some qd" "qid < 2 * unat (xd_qmax (lb_xdev lib))"
    "q = queue_at (lb_xdev lib) qd qid" "init \<Longrightarrow> dq_enabled q"
  using assms
  by (auto simp: get_lib_def qdma_device_get_descq_by_id_def Let_def split: option.split_asm if_split_asm)

lemma put_lib_ok:
  assumes ok: "lib_ok devs lib" and get: "get_lib qid init lib = Some q0"
    and x: "core x = core (lb_xdev lib)"
    and "queue_ok (lb_xdev lib) (lb_threads lib) (lb_intr_list lib) qid q0 \<Longrightarrow>
      queue_ok (lb_xdev lib) (lb_threads lib) (lb_intr_list lib) qid q"
  shows "lib_ok devs (put_lib qid q (lib\<lparr>lb_xdev := x\<rparr>))"
proof -
  from get obtain qd where qd: "lb_dev lib = Some qd" "qid < 2 * unat (xd_qmax (lb_xdev lib))"
    "q0 = queue_at (lb_xdev lib) qd qid" by (rule get_libD)
  note D = lib_okD [OF ok qd(1)]
  show ?thesis
    by (rule lib_ok_put [OF ok qd(1,2), where q = q and qd' = "put_queue x qid q qd"])
      (use assms(4) D(3) [OF qd(2)] D(4) qd in \<open>simp_all add: put_lib_def x core_fields(7) [OF x]\<close>)
qed

lemma lib_ok_core:
  assumes "lib_ok devs lib" "core x = core (lb_xdev lib)"
  shows "lib_ok devs (lib\<lparr>lb_xdev := x\<rparr>)" "get_lib qid init (lib\<lparr>lb_xdev := x\<rparr>) = get_lib qid init lib"
  using assms(1) core_fields [OF assms(2)] queue_ok_core [OF assms(2)]
  by (simp add: lib_ok_def, cases "lb_dev lib")
    (simp_all add: get_lib_def qdma_device_get_descq_by_id_def Let_def)

lemma put_lib_counts:
  assumes "lib_ok devs lib"
  shows "lib_ok devs (lib\<lparr>lb_dev := map_option (add_count c2h d) (lb_dev lib)\<rparr>)"
  using assms lib_ok_same [OF assms] by (auto simp: lib_ok_def add_count_queues queue_at_qs [OF add_count_queues])

lemma queue_config_ok:
  assumes "lib_ok devs lib" "qdma_queue_config qid qconf lib = (rv, lib')"
  shows "lib_ok devs lib'"
proof -
  obtain qd where qd: "lb_dev lib = Some qd" using assms(1) by (auto simp: lib_ok_def)
  show ?thesis
  proof (cases "get_lib qid False lib")
    case None
    then show ?thesis using assms qd by (simp add: qdma_queue_config_def get_lib_def)
  next
    case (Some q)
    show ?thesis
    proof (cases "dq_enabled q")
      case True
      then show ?thesis using assms qd Some by (simp add: qdma_queue_config_def get_lib_def Let_def)
    next
      case False
      let ?q = "qdma_descq_config (lb_xdev lib) qconf False (q\<lparr>dq_enabled := True\<rparr>)"
      have "lib_ok devs (put_lib qid ?q (lib\<lparr>lb_xdev := lb_xdev lib\<rparr>))"
        by (rule put_lib_ok [OF assms(1) Some refl]) (rule not_enabled_ok [OF _ False], simp_all add: frame)
      from put_lib_counts [OF this, of "qc_c2h qconf" 1]
      have "lib_ok devs (lib\<lparr>lb_dev := Some (add_count (qc_c2h qconf) 1 (put_queue (lb_xdev lib) qid ?q qd))\<rparr>)"
        using qd by (simp add: put_lib_def)
      moreover have "add_count c d (put_queue x i p qd) = put_queue x i p (add_count c d qd)" for c d x i p
        by (simp add: add_count_def put_queue_def)
      ultimately show ?thesis
        using assms(2) qd Some False by (auto simp: qdma_queue_config_def get_lib_def Let_def)
    qed
  qed
qed

lemma queue_reconfig_ok:
  assumes "lib_ok devs lib" "qdma_queue_reconfig qid qconf lib = (rv, lib')"
  shows "lib_ok devs lib'"
proof (cases "get_lib qid True lib")
  case None
  then show ?thesis using assms by (simp add: qdma_queue_reconfig_def get_lib_def)
next
  case (Some q)
  have "lib_ok devs (put_lib qid (qdma_descq_config (lb_xdev lib) qconf True q) (lib\<lparr>lb_xdev := lb_xdev lib\<rparr>))"
    by (rule put_lib_ok [OF assms(1) Some refl]) (simp add: queue_ok_static [OF static_reconfig])
  then show ?thesis
    using assms Some by (auto simp: qdma_queue_reconfig_def get_lib_def put_lib_def Let_def split: if_splits)
qed

lemma cleanup_frame:
  "\<not> dq_inited q \<Longrightarrow> flags (fst (qdma_descq_cleanup E xdev q tr)) = flags q"
  "core (fst (snd (qdma_descq_cleanup E xdev q tr))) = core xdev"
  by (simp_all add: qdma_descq_cleanup_def Let_def split_beta frame)

lemma queue_remove_ok:
  assumes ok: "lib_ok devs lib" and run: "qdma_queue_remove E qid lib tr = (rv, lib', tr')"
    and off: "\<And>q. get_lib qid True lib = Some q \<Longrightarrow> \<not> dq_online q"
  shows "lib_ok devs lib'"
proof (cases "lb_dev lib = None \<or> get_lib qid True lib = None")
  case True
  then show ?thesis using ok run by (auto simp: qdma_queue_remove_def split: if_split_asm)
next
  case False
  then obtain q qd where q: "get_lib qid True lib = Some q" and qd: "lb_dev lib = Some qd" by auto
  let ?q0 = "q\<lparr>dq_inited := False, dq_online := False\<rparr>"
  obtain q1 x tr1 where c: "qdma_descq_cleanup E (lb_xdev lib) ?q0 tr = (q1, x, tr1)" by (metis prod_cases3)
  have f: "flags q1 = flags ?q0" "core x = core (lb_xdev lib)"
    using cleanup_frame [where q = ?q0 and E = E and xdev = "lb_xdev lib" and tr = tr] by (simp_all add: c)
  have "lib_ok devs (put_lib qid (q1\<lparr>dq_enabled := False\<rparr>) (lib\<lparr>lb_xdev := x\<rparr>))"
    by (rule put_lib_ok [OF ok q f(2)])
      (use off [OF q] f(1) cleanup_rings [where q = ?q0 and E = E and x = "lb_xdev lib" and tr = tr] in
        \<open>auto simp: queue_ok_def flags_fields typed_def c\<close>)
  from put_lib_counts [OF this, of "qc_c2h (dq_conf q1)" "- 1"] show ?thesis
    using run q qd c by (simp add: qdma_queue_remove_def Let_def)
qed

lemma queue_stop_ok:
  assumes ok: "lib_ok devs lib" and q: "get_lib qid True lib = Some q" and on: "dq_online q"
  shows "\<exists>rv lib' tr'. qdma_queue_stop E fits qid lib tr = Ok (rv, lib', tr') \<and> lib_ok devs lib'
    \<and> (\<exists>q'. get_lib qid True lib' = Some q' \<and> \<not> dq_online q')"
proof -
  let ?x = "lb_xdev lib" and ?r = "(xd_addr (lb_xdev lib), qid)"
  from q obtain qd where qd: "lb_dev lib = Some qd" "qid < 2 * unat (xd_qmax ?x)" "q = queue_at ?x qd qid" "dq_enabled q"
    by (rule get_libD) simp
  note D = lib_okD [OF ok qd(1)]
  have qok: "queue_ok ?x (lb_threads lib) (lb_intr_list lib) qid q" using D(3) [OF qd(2)] qd(3) by simp
  then obtain t where t: "dq_wrkthp q = Some t" "on_thread (th_wrk (lb_threads lib)) ?r (Some t)"
    using on by (auto simp: queue_ok_def)
  obtain q1 th where rm: "qdma_thread_remove_work ?r q (lb_threads lib) = (q1, th)" by fastforce
  define il where "il = (if xd_num_vecs ?x \<noteq> 0 then map (remove1 qid) (lb_intr_list lib) else lb_intr_list lib)"
  have vec: "xd_num_vecs ?x \<noteq> 0 \<Longrightarrow> on_vec (lb_intr_list lib) qid True"
    using qok on by (simp add: queue_ok_def)
  have nobad: "\<not> (xd_num_vecs ?x \<noteq> 0 \<and> (\<forall>l\<in>set (lb_intr_list lib). qid \<notin> set l))"
    using on_vec_mem [OF vec] by auto
  define tr1 where "tr1 = snd (qdma_descq_context_clear E (dq_qidx_hw q1) (qc_st (dq_conf q1)) (qc_c2h (dq_conf q1)) False tr)"
  obtain q2 tr2 where fr: "qdma_descq_free_resource q1 tr1 = (q2, tr2)" by fastforce
  have f: "flags q2 = flags q1" using flags_free [of q1 tr1] by (simp add: fr)
  have run: "qdma_queue_stop E fits qid lib tr = Ok (if fits then QDMA_OPERATION_SUCCESSFUL else QDMA_ERR_INVALID_INPUT_PARAM,
      put_lib qid (q2\<lparr>dq_online := False, dq_inited := False\<rparr>) (lib\<lparr>lb_threads := th, lb_intr_list := il\<rparr>), tr2)"
    using q rm nobad fr by (simp add: qdma_queue_stop_def Let_def tr1_def il_def)
  let ?lib = "put_lib qid (q2\<lparr>dq_online := False, dq_inited := False\<rparr>) (lib\<lparr>lb_threads := th, lb_intr_list := il\<rparr>)"
  have th: "th_wrk th = (th_wrk (lb_threads lib))[t := del_item ?r (th_wrk (lb_threads lib) ! t)]"
    "th_wb th = (case dq_wbthp q of None \<Rightarrow> th_wb (lb_threads lib)
       | Some j \<Rightarrow> (th_wb (lb_threads lib))[j := del_item ?r (th_wb (lb_threads lib) ! j)])"
    "q1 = q\<lparr>dq_wbthp := None, dq_wrkthp := None\<rparr>"
    using rm t(1) by (auto simp: qdma_thread_remove_work_def Let_def split: option.splits)
  have wb: "on_thread (th_wb (lb_threads lib)) ?r (dq_wbthp q)" using qok by (simp add: queue_ok_def)
  have tok: "threads_ok th"
    using D(4) counts_ok_del [OF _ t(2)] counts_ok_del wb by (auto simp: threads_ok_def th split: option.splits)
  have tlen: "t < length (th_wrk (lb_threads lib))" using t(2) by (simp add: on_thread_def)
  have wblen: "\<And>j. dq_wbthp q = Some j \<Longrightarrow> j < length (th_wb (lb_threads lib))" using wb by (simp add: on_thread_def)
  have new: "queue_ok ?x th il qid (q2\<lparr>dq_online := False, dq_inited := False\<rparr>)"
    using f on_thread_del(1) [OF t(2)] wb on_thread_del(1) on_vec_del(1) [OF vec]
      freed_rings [of q1 tr1] fr
    by (auto simp: queue_ok_def flags_fields th il_def typed_def split: option.splits)
  have others: "queue_ok ?x th il j p" if "j \<noteq> qid" "queue_ok ?x (lb_threads lib) (lb_intr_list lib) j p" for j p
    using that on_thread_del(2) [OF _ tlen] on_thread_del(2) [OF _ wblen] on_vec_del(2)
    by (auto simp: queue_ok_def th il_def split: option.splits)
  have "lib_ok devs ?lib"
    by (rule lib_ok_put [OF ok qd(1,2), where q = "q2\<lparr>dq_online := False, dq_inited := False\<rparr>"
          and qd' = "put_queue ?x qid (q2\<lparr>dq_online := False, dq_inited := False\<rparr>) qd"])
      (use new others tok qd in \<open>simp_all add: put_lib_def il_def\<close>)
  moreover have "get_lib qid True ?lib = Some (q2\<lparr>dq_online := False, dq_inited := False\<rparr>)"
    using qd f queue_at_put [OF D(1,2) qd(2) qd(2)]
    by (auto simp: get_lib_def put_lib_def qdma_device_get_descq_by_id_def Let_def flags_fields th(3))
  ultimately show ?thesis using run by auto
qed

lemma alloc_irq_loop_mem: "alloc_irq_loop cnts is mn idx = (m, i) \<Longrightarrow> i \<in> set (idx # is)"
  by (induction cnts "is" mn idx rule: alloc_irq_loop.induct) (auto simp: Let_def split: if_splits)

lemma alloc_irq_range:
  assumes "vecs_ok xdev il" "xd_num_vecs xdev \<noteq> 0"
  shows "dq_intr_id (fst (desc_alloc_irq q xdev)) < length il"
proof -
  let ?s = "xd_dvec_start_idx xdev" and ?c = "xd_intr_list_cnt xdev"
  obtain m i where l: "alloc_irq_loop ?c [?s..<xd_num_vecs xdev] (?c ! ?s) ?s = (m, i)" by fastforce
  from alloc_irq_loop_mem [OF l] show ?thesis
    using assms l by (auto simp: desc_alloc_irq_def Let_def vecs_ok_def)
qed

lemma alloc_resource_irq:
  assumes "vecs_ok xdev il" "xd_num_vecs xdev \<noteq> 0"
    and "qdma_descq_alloc_resource E xdev q tr = (rv, q', xdev', tr')" "\<not> rv < 0"
  shows "dq_intr_id q' < length il"
  using assms(3,4) alloc_irq_range [OF assms(1,2)]
  by (auto simp: qdma_descq_alloc_resource_def Let_def split_beta errno_defs split: if_splits)

lemma config_complete_rv: "\<not> hndl_bad devs xdev \<Longrightarrow> fst (qdma_descq_config_complete E devs xdev q tr) = 0"
  by (simp add: qdma_descq_config_complete_def qdma_global_csr_get_def Let_def split_beta)

lemma start_attach_ok:
  assumes ok: "lib_ok devs lib" and q: "get_lib qid True lib = Some q" and off: "\<not> dq_online q"
    and p: "flags p = flags (q\<lparr>dq_inited := True\<rparr>)" "typed p"
    and vec: "xd_num_vecs (lb_xdev lib) \<noteq> 0 \<Longrightarrow> dq_intr_id p < length (lb_intr_list lib)"
  shows "\<exists>rv lib' q'. start_attach fits qid p lib tr = Ok (rv, lib', tr) \<and> lib_ok devs lib'
     \<and> get_lib qid True lib' = Some q' \<and> dq_online q'"
proof -
  let ?x = "lb_xdev lib" and ?r = "(xd_addr (lb_xdev lib), qid)"
  from q obtain qd where qd: "lb_dev lib = Some qd" "qid < 2 * unat (xd_qmax ?x)" "q = queue_at ?x qd qid" "dq_enabled q"
    by (rule get_libD) simp
  note D = lib_okD [OF ok qd(1)]
  have qok: "queue_ok ?x (lb_threads lib) (lb_intr_list lib) qid q" using D(3) [OF qd(2)] qd(3) by simp
  have none: "on_thread (th_wrk (lb_threads lib)) ?r None" "on_thread (th_wb (lb_threads lib)) ?r None"
    using qok off by (auto simp: queue_ok_def)
  let ?n = "length (th_wrk (lb_threads lib))"
  define t where "t = pick_loop ?n (map kt_work_cnt (th_wrk (lb_threads lib))) 0 ?n 0"
  have t: "t < ?n" and ne: "?n \<noteq> 0"
    using D(4) pick_in_range [of "lb_threads lib"] by (simp_all add: threads_ok_def t_def)
  define j where "j = ?n - t - 1"
  have j: "j < length (th_wb (lb_threads lib))" using t D(4) by (simp add: j_def threads_ok_def)
  define wb where "wb = (if xd_num_vecs ?x = 0 then Some j else None)"
  define p1 where "p1 = p\<lparr>dq_online := True, dq_wrkthp := Some t, dq_wbthp := wb\<rparr>"
  define th where "th = (lb_threads lib)\<lparr>th_wrk := (th_wrk (lb_threads lib))[t := add_item ?r (th_wrk (lb_threads lib) ! t)],
      th_wb := (if xd_num_vecs ?x = 0 then (th_wb (lb_threads lib))[j := add_item ?r (th_wb (lb_threads lib) ! j)]
                else th_wb (lb_threads lib))\<rparr>"
  define il where "il = (if xd_num_vecs ?x \<noteq> 0 then (lb_intr_list lib)
      [dq_intr_id p := lb_intr_list lib ! dq_intr_id p @ [qid]] else lb_intr_list lib)"
  let ?lib = "put_lib qid p1 (lib\<lparr>lb_threads := th, lb_intr_list := il\<rparr>)"
  have add: "qdma_thread_add_work ?x ?r (p\<lparr>dq_online := True\<rparr>) (lb_threads lib) = Some (p1, th)"
    using ne by (cases "xd_num_vecs ?x = 0")
      (simp_all add: qdma_thread_add_work_def Let_def t_def [symmetric] j_def p1_def th_def wb_def)
  have run: "start_attach fits qid p lib tr = Ok (if fits then QDMA_OPERATION_SUCCESSFUL else QDMA_ERR_INVALID_INPUT_PARAM, ?lib, tr)"
    by (simp add: start_attach_def Let_def add il_def p1_def)
  have tok: "threads_ok th"
    using D(4) counts_ok_add t j by (simp add: threads_ok_def th_def)
  have new: "queue_ok ?x th il qid p1"
    using p qd(4) none on_thread_add(1) t j qok off on_vec_add(1) [OF vec]
    by (auto simp: queue_ok_def flags_fields th_def il_def p1_def wb_def typed_def)
  have others: "queue_ok ?x th il i p'" if "i \<noteq> qid" "queue_ok ?x (lb_threads lib) (lb_intr_list lib) i p'" for i p'
    using that on_thread_add(2) [OF _ t] on_thread_add(2) [OF _ j] on_vec_add(2) [OF vec]
    by (auto simp: queue_ok_def th_def il_def)
  have "lib_ok devs ?lib"
    by (rule lib_ok_put [OF ok qd(1,2), where q = p1 and qd' = "put_queue ?x qid p1 qd"])
      (use new others tok qd in \<open>simp_all add: put_lib_def il_def\<close>)
  moreover have "get_lib qid True ?lib = Some p1"
    using qd p queue_at_put [OF D(1,2) qd(2) qd(2)]
    by (auto simp: get_lib_def put_lib_def qdma_device_get_descq_by_id_def Let_def flags_fields p1_def)
  ultimately show ?thesis using run by (auto simp: p1_def)
qed

lemma queue_start_ok:
  assumes ok: "lib_ok devs lib"
  shows "\<exists>rv lib' tr'. qdma_queue_start E devs fits qid lib tr = Ok (rv, lib', tr') \<and> lib_ok devs lib'
    \<and> (rv = QDMA_OPERATION_SUCCESSFUL \<longrightarrow> (\<exists>q'. get_lib qid True lib' = Some q' \<and> dq_online q'))"
proof (cases "get_lib qid True lib")
  case None
  then show ?thesis using ok by (simp add: qdma_queue_start_def errno_defs)
next
  case (Some q)
  let ?x = "lb_xdev lib"
  obtain qd where qd: "lb_dev lib = Some qd" using ok by (auto simp: lib_ok_def)
  note D = lib_okD [OF ok qd]
  obtain rv1 q1 x1 tr1 where c: "qdma_descq_config_complete E devs ?x q tr = (rv1, q1, x1, tr1)" by (metis prod_cases4)
  have rv1: "rv1 = 0" using config_complete_rv [OF D(6), of E q tr] by (simp add: c)
  have f1: "flags q1 = flags q" "core x1 = core ?x"
    using config_complete_frame [of E devs ?x q tr] by (simp_all add: c)
  have s1: "static q1 = static q" using static_config_complete [of E devs ?x q tr] by (simp add: c)
  have put1: "lib_ok devs (put_lib qid p (lib\<lparr>lb_xdev := x\<rparr>))"
    if "flags p = flags q" "typed p" "core x = core ?x" for p x
    by (rule put_lib_ok [OF ok Some that(3)]) (rule queue_ok_flags [OF that(1,2)])
  from Some obtain qd' where "lb_dev lib = Some qd'" "qid < 2 * unat (xd_qmax ?x)" "q = queue_at ?x qd' qid"
    by (rule get_libD)
  then have ty: "typed q" using lib_okD(3) [OF ok] by (auto simp: queue_ok_def)
  show ?thesis
  proof (cases "\<not> dq_enabled q1 \<or> dq_inited q1 \<or> dq_online q1")
    case True
    then show ?thesis
      using Some c rv1 put1 [OF f1(1) _ f1(2)] ty typed_static [OF s1] by (simp add: qdma_queue_start_def Let_def errno_defs)
  next
    case fresh: False
    obtain rv2 q2 x2 tr2 where a: "qdma_descq_alloc_resource E x1 (q1\<lparr>dq_inited := True\<rparr>) tr1 = (rv2, q2, x2, tr2)"
      by (metis prod_cases4)
    have f2: "flags q2 = flags (q1\<lparr>dq_inited := True\<rparr>)" "core x2 = core ?x"
      using alloc_resource_frame [of E x1 "q1\<lparr>dq_inited := True\<rparr>" tr1] f1(2) by (simp_all add: a)
    have undo: "lib_ok devs (fst (snd (start_free_resource rv qid q2 (lib\<lparr>lb_xdev := x2\<rparr>) tr3)))" for rv tr3
    proof -
      obtain q3 tr4 where f: "qdma_descq_free_resource q2 tr3 = (q3, tr4)" by fastforce
      have "flags (q3\<lparr>dq_inited := False\<rparr>) = flags q"
        using flags_free [of q2 tr3] f2(1) f1(1) fresh by (simp add: f flags_fields)
      moreover have "typed (q3\<lparr>dq_inited := False\<rparr>)" using freed_rings [of q2 tr3] by (simp add: f typed_def)
      ultimately show ?thesis using put1 f2(2) by (simp add: start_free_resource_def f)
    qed
    have undo_rv: "fst (start_free_resource rv qid q2 l tr3) = rv" for rv l tr3
      by (simp add: start_free_resource_def split_beta)
    define L where "L = lib\<lparr>lb_xdev := x2\<rparr>"
    obtain rv3 tr3 where h: "qdma_descq_prog_hw PF E x2 q2 tr2 = (rv3, tr3)" by fastforce
    have run: "qdma_queue_start E devs fits qid lib tr =
      (if rv2 < 0 then Ok (start_free_resource rv2 qid q2 L tr2)
       else if rv3 < 0 then Ok (start_free_resource rv3 qid q2 L
              (snd (qdma_descq_context_clear E (dq_qidx_hw q2) (qc_st (dq_conf q2)) (qc_c2h (dq_conf q2)) True tr3)))
       else start_attach fits qid q2 L tr3)"
      using Some c rv1 fresh a h by (simp add: qdma_queue_start_def Let_def L_def)
    have undone: "\<exists>rv' lib' tr'. start_free_resource rv qid q2 L tr3 = (rv', lib', tr') \<and> lib_ok devs lib'
        \<and> rv' \<noteq> QDMA_OPERATION_SUCCESSFUL" if "rv < 0" for rv tr3
      using undo [of rv tr3] undo_rv [of rv L tr3] that
      by (cases "start_free_resource rv qid q2 L tr3") (simp add: L_def errno_defs)
    show ?thesis
    proof (cases "rv2 < 0 \<or> rv3 < 0")
      case True
      then show ?thesis using undone unfolding run by (metis (full_types))
    next
      case False
      have L: "lib_ok devs L" "get_lib qid True L = Some q"
        using lib_ok_core [OF ok f2(2)] Some by (simp_all add: L_def)
      have "flags q2 = flags (q\<lparr>dq_inited := True\<rparr>)" "\<not> dq_online q"
        using f1(1) f2(1) fresh by (simp_all add: flags_fields)
      moreover have "dq_intr_id q2 < length (lb_intr_list L)" if "xd_num_vecs (lb_xdev L) \<noteq> 0"
        using alloc_resource_irq [OF _ _ a] False D(5) that core_fields(3,5) [OF f1(2)] core_fields(3) [OF f2(2)]
        by (simp add: L_def)
      moreover have "typed q2"
      proof (rule alloc_typed [OF a])
        show "dq_desc_wrb (q1\<lparr>dq_inited := True\<rparr>) = None"
          using typed_static [OF s1] ty fresh by (simp add: typed_def split: if_splits)
      qed (use False in simp_all)
      ultimately show ?thesis
        using start_attach_ok [OF L, where fits = fits and tr = tr3] False unfolding run by fastforce
    qed
  qed
qed

section \<open>From the start of the device\<close>

lemma intr_setup_vecs:
  assumes "intr_setup E xdev tr = (0, xdev', tr')" "xd_num_vecs xdev = 0"
    and "env_msix_count E tr = 0 \<or> 2 < env_msix_count E tr"
  shows "xd_num_vecs xdev' = 0 \<or> xd_dvec_start_idx xdev' < xd_num_vecs xdev' \<and> xd_num_vecs xdev' \<le> XDEV_NUM_IRQ_MAX"
    "xd_addr xdev' = xd_addr xdev" "xd_conf xdev' = xd_conf xdev" "dc_poll_mode (xd_conf xdev) \<Longrightarrow> xd_num_vecs xdev' = 0"
proof -
  have loop: "xdev2 = xdev1\<lparr>xd_intr_vec_map := xd_intr_vec_map xdev2\<rparr>"
    if "request_loop E n i xdev1 t = (rv, j, xdev2, t')" for n i xdev1 t rv j xdev2 t'
    using that
  proof (induction n arbitrary: i xdev1 t)
    case (Suc n)
    show ?case
    proof (cases "env_request_irq E t i = 0")
      case True
      from Suc(1) [of "Suc i" "xdev1\<lparr>xd_intr_vec_map := (xd_intr_vec_map xdev1)[i := vec_type xdev1 i]\<rparr>"
          "RequestIrq i 0 # t"] show ?thesis
        using Suc(2) True by (simp add: Let_def)
    next
      case False
      then show ?thesis using Suc(2) by (auto simp: Let_def)
    qed
  qed simp
  have "(xd_num_vecs xdev' = 0 \<or> xd_dvec_start_idx xdev' < xd_num_vecs xdev' \<and> xd_num_vecs xdev' \<le> XDEV_NUM_IRQ_MAX)
    \<and> xd_addr xdev' = xd_addr xdev \<and> xd_conf xdev' = xd_conf xdev \<and> (dc_poll_mode (xd_conf xdev) \<longrightarrow> xd_num_vecs xdev' = 0)"
  proof (cases "dc_poll_mode (xd_conf xdev) \<or> env_msix_count E tr = 0")
    case True
    then show ?thesis using assms by (auto simp: intr_setup_def Let_def split: if_splits)
  next
    case False
    let ?n = "min (env_msix_count E tr) XDEV_NUM_IRQ_MAX"
    obtain rv i x2 t2 where r: "request_loop E ?n 0 (xdev\<lparr>xd_num_vecs := ?n\<rparr>)
        (EnableMsix ?n (env_enable_msix E tr ?n) # tr) = (rv, i, x2, t2)"
      by (metis prod_cases4)
    obtain m where x2: "x2 = xdev\<lparr>xd_num_vecs := ?n, xd_intr_vec_map := m\<rparr>" using loop [OF r] by metis
    have "2 < ?n" using False assms(3) by (simp add: XDEV_NUM_IRQ_MAX_def)
    then show ?thesis
      using assms(1) False r by (auto simp: intr_setup_def Let_def x2 split: if_splits)
  qed
  then show "xd_num_vecs xdev' = 0 \<or> xd_dvec_start_idx xdev' < xd_num_vecs xdev' \<and> xd_num_vecs xdev' \<le> XDEV_NUM_IRQ_MAX"
    "xd_addr xdev' = xd_addr xdev" "xd_conf xdev' = xd_conf xdev" "dc_poll_mode (xd_conf xdev) \<Longrightarrow> xd_num_vecs xdev' = 0"
    by blast+
qed

text \<open>Before it is set up, a device is on no list.\<close>

definition no_items :: "qdma_lib \<Rightarrow> bool" where
  "no_items lib \<longleftrightarrow>
     (\<forall>t \<in> set (th_wrk (lb_threads lib)) \<union> set (th_wb (lb_threads lib)).
        \<forall>r \<in> set (kt_work_list t). fst r \<noteq> xd_addr (lb_xdev lib))
     \<and> (\<forall>l \<in> set (lb_intr_list lib). l = [])"

lemma no_items_on_thread:
  assumes "\<forall>t \<in> set ts. \<forall>r \<in> set (kt_work_list t). fst r \<noteq> a"
  shows "on_thread ts (a, qid) None"
proof -
  have "(a, qid) \<notin> set (kt_work_list (ts ! t))" if "t < length ts" for t
    using assms that by (meson fst_conv nth_mem)
  then show ?thesis by (simp add: on_thread_def count_notin)
qed

lemma on_vec_empty: "\<forall>l \<in> set ls. l = [] \<Longrightarrow> on_vec ls qid False"
  by (auto simp: on_vec_def)

lemma device_init_ok:
  assumes "qdma_device_init E lib tr = (0, lib', tr')"
    and "no_items lib" "threads_ok (lb_threads lib)" "xd_num_vecs (lb_xdev lib) = 0"
    and "length (lb_intr_list lib) = XDEV_NUM_IRQ_MAX" "\<not> hndl_bad devs (lb_xdev lib)"
    and "\<And>t. env_msix_count E t = 0 \<or> 2 < env_msix_count E t"
  shows "lib_ok devs lib'"
proof -
  let ?x0 = "lb_xdev lib"
  obtain x2 tr1 where id: "device_identify E ?x0 tr = (x2, tr1)" by fastforce
  obtain rv x3 tr2 where set: "intr_setup E x2 tr1 = (rv, x3, tr2)" by (metis prod_cases3)
  define qmax where "qmax = dc_qsets_max (xd_conf ?x0)"
  define x4 where "x4 = x3\<lparr>xd_qmax := qmax, xd_qbase := ucast (xd_func_id x3) * 512,
      xd_conf := (xd_conf x3)\<lparr>dc_qsets_base := ucast (ucast (xd_func_id x3) * 512 :: u16)\<rparr>\<rparr>"
  define il where "il = (if dc_poll_mode (xd_conf x3) then lb_intr_list lib
      else replicate (xd_num_vecs x3) [] @ drop (xd_num_vecs x3) (lb_intr_list lib))"
  have run: "rv = 0" "lib' = lib\<lparr>lb_xdev := x4, lb_intr_list := il,
      lb_dev := Some \<lparr>qd_init_qrange = False, qd_h2c_qcnt = 0, qd_c2h_qcnt = 0, qd_qs = init_queues x4\<rparr>\<rparr>"
    using assms(1) unfolding qdma_device_init_def Let_def
    by (auto simp: id set errno_defs il_def x4_def qmax_def split: if_splits)
  have x2: "xd_num_vecs x2 = 0" "xd_addr x2 = xd_addr ?x0" "dc_pdev (xd_conf x2) = dc_pdev (xd_conf ?x0)"
    using assms(4) id by (auto simp: device_identify_def Let_def split_beta)
  note vecs = intr_setup_vecs [OF set [unfolded run(1)] x2(1) assms(7)]
  have len: "length il = XDEV_NUM_IRQ_MAX" using vecs(1) assms(5) by (auto simp: il_def)
  have empty: "\<forall>l \<in> set il. l = []"
    using assms(2) by (auto simp: il_def no_items_def dest: in_set_dropD)
  have x4: "xd_num_vecs x4 = xd_num_vecs x3" "xd_addr x4 = xd_addr ?x0" "xd_qmax x4 = qmax"
    "xd_dvec_start_idx x4 = xd_dvec_start_idx x3" "dc_pdev (xd_conf x4) = dc_pdev (xd_conf ?x0)"
    using vecs(2,3) x2 by (simp_all add: x4_def)
  have queue: "queue_at x4 qd qid = qdma_descq_init x4 (of_nat i) (of_nat i)"
    if "qd_qs qd = init_queues x4" "i = (if qid < unat qmax then qid else qid - unat qmax)" "qid < 2 * unat qmax" for qid i qd
    using that by (auto simp: queue_at_def init_queues_def Let_def x4(3))
  have "flags (qdma_descq_init x4 a b) = (False, False, False, None, None)" for a b
    by (simp add: qdma_descq_init_def flags_def zero_descq_def)
  moreover have ty: "typed (qdma_descq_init x4 a b)" for a b
    by (simp add: qdma_descq_init_def typed_def zero_descq_def)
  ultimately have f: "\<not> dq_enabled (qdma_descq_init x4 a b)" "\<not> dq_inited (qdma_descq_init x4 a b)"
    "\<not> dq_online (qdma_descq_init x4 a b)" "dq_wrkthp (qdma_descq_init x4 a b) = None"
    "dq_wbthp (qdma_descq_init x4 a b) = None" for a b by (simp_all add: flags_def)
  have init: "queue_ok x4 (lb_threads lib) il qid (qdma_descq_init x4 a b)" for qid a b
    using f ty no_items_on_thread on_vec_empty [OF empty] assms(2)
    by (simp add: queue_ok_def x4(2) no_items_def ball_Un)
  have "vecs_ok x4 il" using vecs(1) len by (auto simp: vecs_ok_def x4)
  moreover have "\<not> hndl_bad devs x4" using assms(6) by (simp add: hndl_bad_def x4)
  ultimately show ?thesis
    using assms(3) init queue by (simp add: lib_ok_def run(2)) (simp add: init_queues_def Let_def x4(3))
qed

section \<open>Moving data keeps it\<close>

lemma data_ok:
  assumes "lib_ok devs lib" "get_lib qid init lib = Some q" "static q' = static q"
  shows "lib_ok devs (put_lib qid q' lib)"
  using put_lib_ok [OF assms(1,2) refl, of q'] queue_ok_static [OF assms(3)] by simp

lemma online_thread:
  assumes "lib_ok devs lib" "get_lib qid init lib = Some q" "dq_online q"
  obtains t where "dq_wrkthp q = Some t"
proof -
  from assms(2) obtain qd where qd: "lb_dev lib = Some qd" "qid < 2 * unat (xd_qmax (lb_xdev lib))"
    "q = queue_at (lb_xdev lib) qd qid" by (rule get_libD)
  show ?thesis
    using lib_okD(3) [OF assms(1) qd(1,2)] assms(3) qd(3) that by (auto simp: queue_ok_def)
qed

lemma static_unmap_req [static_frame]: "static (fst (unmap_req r q tr)) = static q"
  by (simp add: unmap_req_def Let_def split_beta static_frame)

lemma static_queue_work [static_frame]: "static (queue_work r req q) = static q"
  by (simp add: queue_work_def static_frame)

lemma submit_ok:
  assumes ok: "lib_ok devs lib" and async: "rq_fp_done req"
  shows "\<exists>rv lib' tr'. qdma_request_submit E others r req qid lib tr = Ok (rv, lib', tr') \<and> lib_ok devs lib'"
proof (cases "get_lib qid True lib")
  case None
  then show ?thesis using ok by (simp add: qdma_request_submit_def)
next
  case (Some q)
  note put = data_ok [OF ok Some]
  define q1 where "q1 = upd_req r (\<lambda>_. zero_cb req) q"
  have q1: "static q1 = static q" by (simp add: q1_def static_frame)
  consider "(rq_write req \<and> qc_c2h (dq_conf q)) \<or> (\<not> rq_write req \<and> \<not> qc_c2h (dq_conf q))"
    | "\<not> ((rq_write req \<and> qc_c2h (dq_conf q)) \<or> (\<not> rq_write req \<and> \<not> qc_c2h (dq_conf q)))"
        "qc_st (dq_conf q) \<and> qc_c2h (dq_conf q)"
    | "\<not> ((rq_write req \<and> qc_c2h (dq_conf q)) \<or> (\<not> rq_write req \<and> \<not> qc_c2h (dq_conf q)))"
        "\<not> (qc_st (dq_conf q) \<and> qc_c2h (dq_conf q))" by blast
  then show ?thesis
  proof cases
    case 1
    then show ?thesis using ok Some by (auto simp: qdma_request_submit_def Let_def)
  next
    case 2
    define q2 where "q2 = upd_req r (\<lambda>q. q\<lparr>cb_left := rq_count q\<rparr>) q1"
    obtain rv q3 tr3 where rd: "descq_st_c2h_read PF E r True True q2 tr = (rv, q3, tr3)" by (metis prod_cases3)
    have q3: "static q3 = static q"
      using static_st_c2h_read [of PF E r True True q2 tr] q1
      unfolding rd fst_conv snd_conv by (simp add: q2_def static_frame)
    have fp: "rq_fp_done (dq_reqs q3 r)"
    proof -
      have "rq_fp_done (dq_reqs q2 r)" using async by (simp add: q2_def q1_def upd_req_def zero_cb_def)
      moreover have "rq_fp_done (dq_reqs (fst (snd (descq_st_c2h_read b E r u rf p t))) r) = rq_fp_done (dq_reqs p r)"
        for b u rf p t
        by (rule read_keeps_request)
      ultimately show ?thesis using rd by (metis fst_conv snd_conv)
    qed
    show ?thesis
      using 2 Some put [OF q3] put [of "q3\<lparr>dq_pend_list := dq_pend_list q3 @ [r]\<rparr>"] q3 fp rd
      by (simp add: qdma_request_submit_def qdma_request_submit_st_c2h_def Let_def q1_def [symmetric]
          q2_def [symmetric] static_frame)
  next
    case 3
    obtain rv req1 tr1 where m: "map_for_submit E (zero_cb req) tr = (rv, req1, tr1)" by (metis prod_cases3)
    have req1: "rq_fp_done req1"
      using m async by (auto simp: map_for_submit_def sgl_map_def zero_cb_def Let_def split: if_splits prod.splits)
    have unmap: "\<exists>lib' tr'. submit_unmap e r qid (upd_req r (\<lambda>_. req1) q) lib tr1 = Ok (e, lib', tr') \<and> lib_ok devs lib'" for e
      using put [of "fst (unmap_req r (upd_req r (\<lambda>_. req1) q) tr1)"]
      by (simp add: submit_unmap_def split_beta static_frame)
    show ?thesis
    proof (cases "rv < 0 \<or> \<not> dq_online q")
      case True
      then have "qdma_request_submit E others r req qid lib tr
        = submit_unmap (if rv < 0 then rv else - EINVAL) r qid (upd_req r (\<lambda>_. req1) q) lib tr1"
        using 3 Some m by (auto simp: qdma_request_submit_def Let_def)
      then show ?thesis using unmap [of "if rv < 0 then rv else - EINVAL"] by auto
    next
      case False
      then obtain t where "dq_wrkthp q = Some t" using online_thread [OF ok Some] by blast
      moreover then have "dq_wrkthp (queue_work r req1 q) = Some t" by (simp add: queue_work_def upd_req_def)
      ultimately have "qdma_request_submit E others r req qid lib tr
        = Ok (0, put_lib qid (queue_work r req1 q) lib, Wakeup (WrkThread t) # tr1)"
        using 3 Some m False req1 by (auto simp: qdma_request_submit_def Let_def)
      then show ?thesis using put [of "queue_work r req1 q"] by (simp add: static_frame)
    qed
  qed
qed

lemma packet_write_ok:
  assumes ok: "lib_ok devs lib"
  shows "\<exists>rv lib' tr'. qdma_queue_packet_write E r req qid lib tr = Ok (rv, lib', tr') \<and> lib_ok devs lib'"
proof (cases "get_lib qid True lib")
  case None
  then show ?thesis using ok by (simp add: qdma_queue_packet_write_def)
next
  case (Some q)
  obtain rv req1 tr1 where m: "map_for_submit E (zero_cb req) tr = (rv, req1, tr1)" by (metis prod_cases3)
  have put: "lib_ok devs (put_lib qid p lib)" if "static p = static q" for p
    by (rule data_ok [OF ok Some that])
  show ?thesis
  proof (cases "(\<not> qc_st (dq_conf q) \<or> qc_c2h (dq_conf q)) \<or> rv < 0 \<or> \<not> dq_online q")
    case True
    then show ?thesis
      using ok Some m put by (auto simp: qdma_queue_packet_write_def Let_def split_beta static_frame)
  next
    case False
    then obtain t where "dq_wrkthp q = Some t" using online_thread [OF ok Some] by blast
    then show ?thesis
      using Some m put False by (simp add: qdma_queue_packet_write_def Let_def static_frame)
  qed
qed

lemma calls_ok:
  assumes ok: "lib_ok devs lib"
  shows "lib_ok devs (fst (snd (qdma_queue_packet_read E r req qid lib tr)))"
    "lib_ok devs (fst (qdma_queue_service E qid budget lib tr))"
    "lib_ok devs (fst (snd (snd (qdma_queue_cmpl_ctrl E qid cctrl sets lib tr))))"
proof -
  have put: "lib_ok devs (put_lib qid p lib)" if "get_lib qid True lib = Some q" "static p = static q" for p q
    using that by (rule data_ok [OF ok])
  have cc: "static (q\<lparr>dq_conf := conf_cmpl_ctrl c (dq_conf q)\<rparr>) = static q" for q c
    by (simp add: static_def flags_def shape_def conf_cmpl_ctrl_def)
  show "lib_ok devs (fst (snd (qdma_queue_packet_read E r req qid lib tr)))"
    "lib_ok devs (fst (qdma_queue_service E qid budget lib tr))"
    "lib_ok devs (fst (snd (snd (qdma_queue_cmpl_ctrl E qid cctrl sets lib tr))))"
    using ok put cc
    by (simp_all add: qdma_queue_packet_read_def qdma_queue_service_def qdma_queue_cmpl_ctrl_def
        Let_def split_beta static_frame split: option.split)
qed

section \<open>Any sequence of calls\<close>

text \<open>
  A call of a client that keeps to the protocol: it may try to add, configure or start any queue
  at any time, it stops only queues that are online, and removes only queues that are not; it may
  submit requests without waiting, and write, read and service packets.  In between, the threads
  serve the queues on their lists, the interrupts' work is done for queues that are online, and the
  device writes to the writeback areas and the completion rings.
\<close>

definition served :: "qdma_kthread list \<Rightarrow> qref \<Rightarrow> bool" where
  "served ts r \<longleftrightarrow> (\<exists>t \<in> set ts. r \<in> set (kt_work_list t))"

inductive client_step :: "xdev_list \<Rightarrow> qdma_lib \<times> trace \<Rightarrow> qdma_lib \<times> trace \<Rightarrow> bool" for devs where
  add: "qdma_queue_add E fits qconf lib tr = Ok (rv, h, c, lib', tr') \<Longrightarrow> client_step devs (lib, tr) (lib', tr')"
| config: "qdma_queue_config qid qconf lib = (rv, lib') \<Longrightarrow> client_step devs (lib, tr) (lib', tr)"
| reconfig: "qdma_queue_reconfig qid qconf lib = (rv, lib') \<Longrightarrow> client_step devs (lib, tr) (lib', tr)"
| start: "qdma_queue_start E devs fits qid lib tr = Ok (rv, lib', tr') \<Longrightarrow> client_step devs (lib, tr) (lib', tr')"
| stop: "get_lib qid True lib = Some q \<Longrightarrow> dq_online q \<Longrightarrow>
    qdma_queue_stop E fits qid lib tr = Ok (rv, lib', tr') \<Longrightarrow> client_step devs (lib, tr) (lib', tr')"
| remove: "get_lib qid True lib = Some q \<Longrightarrow> \<not> dq_online q \<Longrightarrow>
    qdma_queue_remove E qid lib tr = (rv, lib', tr') \<Longrightarrow> client_step devs (lib, tr) (lib', tr')"
| submit: "rq_fp_done req \<Longrightarrow> qdma_request_submit E others r req qid lib tr = Ok (rv, lib', tr') \<Longrightarrow>
    client_step devs (lib, tr) (lib', tr')"
| packet_write: "qdma_queue_packet_write E r req qid lib tr = Ok (rv, lib', tr') \<Longrightarrow>
    client_step devs (lib, tr) (lib', tr')"
| packet_read: "qdma_queue_packet_read E r req qid lib tr = (rv, lib', tr') \<Longrightarrow>
    client_step devs (lib, tr) (lib', tr')"
| service: "get_lib qid True lib = Some q \<Longrightarrow> dq_online q \<Longrightarrow>
    qdma_queue_service E qid budget lib tr = (lib', tr') \<Longrightarrow> client_step devs (lib, tr) (lib', tr')"
| cmpl_ctrl: "qdma_queue_cmpl_ctrl E qid cctrl sets lib tr = (rv, cctrl', lib', tr') \<Longrightarrow>
    client_step devs (lib, tr) (lib', tr')"
| wrk_thread: "served (th_wrk (lb_threads lib)) (xd_addr (lb_xdev lib), qid) \<Longrightarrow>
    get_lib qid False lib = Some q \<Longrightarrow> qdma_thread_wrk_proc PF q tr = (q', tr') \<Longrightarrow>
    client_step devs (lib, tr) (put_lib qid q' lib, tr')"
| wb_thread: "served (th_wb (lb_threads lib)) (xd_addr (lb_xdev lib), qid) \<Longrightarrow>
    get_lib qid False lib = Some q \<Longrightarrow> qdma_thread_wb_proc PF E q tr = (q', tr') \<Longrightarrow>
    client_step devs (lib, tr) (put_lib qid q' lib, tr')"
| work: "get_lib qid False lib = Some q \<Longrightarrow> dq_online q \<Longrightarrow> intr_work E q tr = (q', tr') \<Longrightarrow>
    client_step devs (lib, tr) (put_lib qid q' lib, tr')"
| writeback: "get_lib qid False lib = Some q \<Longrightarrow>
    client_step devs (lib, tr) (put_lib qid (q\<lparr>dq_desc_wb_cidx := c\<rparr>) lib, tr)"
| completion: "get_lib qid False lib = Some q \<Longrightarrow> dq_desc_wrb q \<noteq> None \<Longrightarrow>
    client_step devs (lib, tr) (put_lib qid (q\<lparr>dq_desc_wrb := Some ring, dq_wrb_wb_pidx := p\<rparr>) lib, tr)"

inductive client_run :: "xdev_list \<Rightarrow> qdma_lib \<times> trace \<Rightarrow> qdma_lib \<times> trace \<Rightarrow> bool" for devs s where
  none: "client_run devs s s"
| more: "client_run devs s s' \<Longrightarrow> client_step devs s' s'' \<Longrightarrow> client_run devs s s''"

text \<open>A queue that a thread serves, or that is online, has the ring its mode needs.\<close>

lemma served_assigned:
  assumes "on_thread ts r thp" "served ts r"
  shows "thp \<noteq> None"
proof
  assume "thp = None"
  obtain t where t: "t < length ts" "r \<in> set (kt_work_list (ts ! t))"
    using assms(2) unfolding served_def by (metis in_set_conv_nth)
  then have "count_list (kt_work_list (ts ! t)) r = 0"
    using assms(1) \<open>thp = None\<close> by (simp add: on_thread_def)
  then show False using t(2) by (simp add: count_list_0_iff)
qed

lemma queue_ok_ring:
  assumes "queue_ok xdev th il qid q"
    and "served (th_wrk th) (xd_addr xdev, qid) \<or> served (th_wb th) (xd_addr xdev, qid) \<or> dq_online q"
  shows "kind_of_ring (dq_desc q) = conf_kind (dq_conf q)"
  using assms served_assigned [of "th_wrk th" "(xd_addr xdev, qid)" "dq_wrkthp q"]
    served_assigned [of "th_wb th" "(xd_addr xdev, qid)" "dq_wbthp q"]
  by (auto simp: queue_ok_def typed_def)

lemma served_ring:
  assumes "lib_ok devs lib" "get_lib qid init lib = Some q"
    and "served (th_wrk (lb_threads lib)) (xd_addr (lb_xdev lib), qid)
      \<or> served (th_wb (lb_threads lib)) (xd_addr (lb_xdev lib), qid) \<or> dq_online q"
  shows "kind_of_ring (dq_desc q) = conf_kind (dq_conf q)" "typed q"
proof -
  from assms(2) obtain qd where qd: "lb_dev lib = Some qd" "qid < 2 * unat (xd_qmax (lb_xdev lib))"
    "q = queue_at (lb_xdev lib) qd qid" by (rule get_libD)
  note ok = lib_okD(3) [OF assms(1) qd(1,2), folded qd(3)]
  show "kind_of_ring (dq_desc q) = conf_kind (dq_conf q)" by (rule queue_ok_ring [OF ok assms(3)])
  show "typed q" using ok by (simp add: queue_ok_def)
qed

lemma client_step_ok: "client_step devs s s' \<Longrightarrow> lib_ok devs (fst s) \<Longrightarrow> lib_ok devs (fst s')"
proof (induction rule: client_step.induct)
  case (add E fits qconf lib tr rv h c lib' tr')
  then show ?case using queue_add_ok by simp
next
  case (config qid qconf lib rv lib' tr)
  then show ?case using queue_config_ok by simp
next
  case (reconfig qid qconf lib rv lib' tr)
  then show ?case using queue_reconfig_ok by simp
next
  case (start E fits qid lib tr rv lib' tr')
  then show ?case using queue_start_ok [of devs lib E fits qid tr] by auto
next
  case (stop qid lib q E fits tr rv lib' tr')
  then show ?case using queue_stop_ok [of devs lib qid q E fits tr] by auto
next
  case (remove qid lib q E tr rv lib' tr')
  then show ?case using queue_remove_ok [of devs lib E qid tr] by auto
next
  case (submit req E others r qid lib tr rv lib' tr')
  then show ?case using submit_ok [of devs lib req E others r qid tr] by auto
next
  case (packet_write E r req qid lib tr rv lib' tr')
  then show ?case using packet_write_ok [of devs lib E r req qid tr] by auto
next
  case (packet_read E r req qid lib tr rv lib' tr')
  then show ?case using calls_ok(1) [of devs lib E r req qid tr] by simp
next
  case (service qid lib q E budget tr lib' tr')
  then show ?case using calls_ok(2) [of devs lib E qid budget tr] by simp
next
  case (cmpl_ctrl E qid cctrl sets lib tr rv cctrl' lib' tr')
  then show ?case using calls_ok(3) [of devs lib E qid cctrl sets tr] by simp
next
  case (wrk_thread lib qid q tr q' tr')
  have "lib_ok devs lib" using wrk_thread(4) by simp
  from served_ring(1) [OF this wrk_thread(2)] have "static q' = static q"
    using static_wrk_proc [of q PF tr] wrk_thread(1,3) by simp
  then show ?case using data_ok [OF _ wrk_thread(2), of devs q'] wrk_thread(4) by simp
next
  case (wb_thread lib qid q E tr q' tr')
  then show ?case
    using data_ok [OF _ wb_thread(2), of devs q'] static_service [of PF E 0 q tr] by (simp add: qdma_thread_wb_proc_def)
next
  case (work qid lib q E tr q' tr')
  then show ?case
    using data_ok [OF _ work(1), of devs q'] static_service [of PF E 0 q tr] by (simp add: intr_work_def)
next
  case (writeback qid lib q c tr)
  then show ?case using data_ok [OF _ writeback(1)] by (simp add: static_def flags_def shape_def)
next
  case (completion qid lib q ring p tr)
  then show ?case using data_ok [OF _ completion(1)] by (simp add: static_def flags_def shape_def)
qed

lemma client_run_ok: "client_run devs s s' \<Longrightarrow> lib_ok devs (fst s) \<Longrightarrow> lib_ok devs (fst s')"
  by (induction rule: client_run.induct) (auto dest: client_step_ok)

lemma not_Bad: "x \<noteq> Bad \<longleftrightarrow> (\<exists>y. x = Ok y)"
  by (cases x) auto


definition sample_lib :: qdma_lib where
  "sample_lib = \<lparr>lb_xdev = sample_dev\<lparr>xd_conf := (xd_conf sample_dev)\<lparr>dc_qsets_max := 2\<rparr>\<rparr>, lb_dev = None,
     lb_threads = \<lparr>th_wrk = replicate 2 \<lparr>kt_task = True, kt_work_cnt = 0, kt_work_list = []\<rparr>,
                   th_wb = replicate 2 \<lparr>kt_task = True, kt_work_cnt = 0, kt_work_list = []\<rparr>\<rparr>,
     lb_intr_list = replicate XDEV_NUM_IRQ_MAX []\<rparr>"

lemma sample_lib_hyps:
  "no_items sample_lib" "threads_ok (lb_threads sample_lib)" "xd_num_vecs (lb_xdev sample_lib) = 0"
  "length (lb_intr_list sample_lib) = XDEV_NUM_IRQ_MAX" "\<not> hndl_bad [lb_xdev sample_lib] (lb_xdev sample_lib)"
  "env_msix_count plain_env t = 0 \<or> 2 < env_msix_count plain_env t"
  by (simp_all add: sample_lib_def no_items_def threads_ok_def counts_ok_def sample_dev_def hndl_bad_iff
      xdev_find_by_pdev_def)

lemma plain_intr_setup:
  assumes "\<not> dc_poll_mode (xd_conf x)"
  obtains m d fl t where "intr_setup plain_env x tr = (0, x\<lparr>xd_num_vecs := 4, xd_intr_vec_map := m,
      xd_dvec_start_idx := d, xd_flags := fl\<rparr>, t)"
proof -
  have "\<exists>m d fl t. intr_setup plain_env x tr = (0, x\<lparr>xd_num_vecs := 4, xd_intr_vec_map := m,
      xd_dvec_start_idx := d, xd_flags := fl\<rparr>, t)"
    using assms by (simp add: intr_setup_def Let_def XDEV_NUM_IRQ_MAX_def numeral_eq_Suc) auto
  then show ?thesis using that by blast
qed

lemma user_bar_zero: "user_bar 0 b = b"
  by (simp add: user_bar_def upt_rec)

lemma sample_lib_up:
  obtains lib1 tr1 qd where "qdma_device_init plain_env sample_lib [] = (0, lib1, tr1)"
    "lib_ok [lb_xdev sample_lib] lib1" "lb_dev lib1 = Some qd" "qd_h2c_qcnt qd = 0"
    "xd_qmax (lb_xdev lib1) = 2" "\<not> qd_init_qrange qd" "qd_qs qd = init_queues (lb_xdev lib1)"
    "xd_mm_mode_en (lb_xdev lib1)" "xd_conf (lb_xdev lib1) = xd_conf (lb_xdev sample_lib)"
proof -
  let ?x0 = "lb_xdev sample_lib"
  obtain x1 tr1 where id: "device_identify plain_env ?x0 [] = (x1, tr1)" by fastforce
  have x1: "x1 = ?x0\<lparr>xd_func_id := 0\<rparr>"
    using id by (auto simp: device_identify_def read_reg_def Let_def user_bar_zero sample_lib_def sample_dev_def)
  then obtain m d fl t where set: "intr_setup plain_env x1 tr1 = (0, x1\<lparr>xd_num_vecs := 4, xd_intr_vec_map := m,
      xd_dvec_start_idx := d, xd_flags := fl\<rparr>, t)"
    by (rule_tac plain_intr_setup [of x1 tr1]) (auto simp: sample_lib_def sample_dev_def)
  obtain lib1 tr2 where init: "qdma_device_init plain_env sample_lib [] = (0, lib1, tr2)"
    using id set by (simp add: qdma_device_init_def Let_def x1) (simp add: sample_lib_def sample_dev_def Let_def)
  have "lib_ok [?x0] lib1" by (rule device_init_ok [OF init sample_lib_hyps])
  moreover have "\<exists>qd. lb_dev lib1 = Some qd \<and> qd_h2c_qcnt qd = 0 \<and> xd_qmax (lb_xdev lib1) = 2 \<and> \<not> qd_init_qrange qd
      \<and> qd_qs qd = init_queues (lb_xdev lib1) \<and> xd_mm_mode_en (lb_xdev lib1)
      \<and> xd_conf (lb_xdev lib1) = xd_conf ?x0"
    using init id set by (auto simp: qdma_device_init_def Let_def x1 sample_lib_def sample_dev_def)
  ultimately show ?thesis using that [OF init] by blast
qed


text \<open>
  C8.  The type of a queue's memory, after a device has come up and after any sequence of calls: a queue
  that is initialised points to descriptors of the kind its mode reads and writes, and to a completion ring
  exactly if it is a streaming C2H queue; one that is not initialised points to neither.  Every queue on the
  list of a thread, and every queue that is online, is initialised: no thread, interrupt or call serves a queue
  through memory of another kind or memory that is gone.
\<close>

theorem queues_typed:
  assumes "qdma_device_init E0 lib0 tr0 = (0, lib1, tr1)"
    and "no_items lib0" "threads_ok (lb_threads lib0)" "xd_num_vecs (lb_xdev lib0) = 0"
    and "length (lb_intr_list lib0) = XDEV_NUM_IRQ_MAX" "\<not> hndl_bad devs (lb_xdev lib0)"
    and "\<And>t. env_msix_count E0 t = 0 \<or> 2 < env_msix_count E0 t"
    and "client_run devs (lib1, tr1) (lib, tr)" and "get_lib qid False lib = Some q"
  shows "(if dq_inited q
      then kind_of_ring (dq_desc q) = (if \<not> qc_st (dq_conf q) then MmRing else if qc_c2h (dq_conf q) then C2hRing else H2cRing)
        \<and> (dq_desc_wrb q \<noteq> None \<longleftrightarrow> qc_st (dq_conf q) \<and> qc_c2h (dq_conf q))
      else kind_of_ring (dq_desc q) = NoRing \<and> dq_desc_wrb q = None)
    \<and> (served (th_wrk (lb_threads lib)) (xd_addr (lb_xdev lib), qid)
        \<or> served (th_wb (lb_threads lib)) (xd_addr (lb_xdev lib), qid) \<or> dq_online q \<longrightarrow> dq_inited q)"
proof -
  have ok: "lib_ok devs lib"
    using client_run_ok [OF assms(8)] device_init_ok [OF assms(1-7)] by simp
  from assms(9) obtain qd where qd: "lb_dev lib = Some qd" "qid < 2 * unat (xd_qmax (lb_xdev lib))"
    "q = queue_at (lb_xdev lib) qd qid" by (rule get_libD)
  note ok = lib_okD(3) [OF ok qd(1,2), folded qd(3)]
  have "typed q" using ok by (simp add: queue_ok_def)
  moreover have "dq_inited q" if "served (th_wrk (lb_threads lib)) (xd_addr (lb_xdev lib), qid)
      \<or> served (th_wb (lb_threads lib)) (xd_addr (lb_xdev lib), qid) \<or> dq_online q"
    using queue_ok_ring [OF ok that] \<open>typed q\<close> by (auto simp: typed_def conf_kind_def split: if_splits)
  ultimately show ?thesis by (auto simp: typed_def conf_kind_def)
qed

lemma queues_typed_witness:
  "\<exists>lib1 tr1 q. qdma_device_init plain_env sample_lib [] = (0, lib1, tr1) \<and> get_lib 3 False lib1 = Some q
     \<and> kind_of_ring (dq_desc q) = NoRing \<and> \<not> served (th_wrk (lb_threads lib1)) (xd_addr (lb_xdev lib1), 3)"
proof -
  obtain lib1 tr1 qd where init: "qdma_device_init plain_env sample_lib [] = (0, lib1, tr1)"
    and qd: "lb_dev lib1 = Some qd" "xd_qmax (lb_xdev lib1) = 2" "qd_qs qd = init_queues (lb_xdev lib1)"
    by (rule sample_lib_up)
  obtain q where q: "get_lib 3 False lib1 = Some q" "\<not> dq_inited q"
    using qd by (simp add: get_lib_def qdma_device_get_descq_by_id_def queue_at_def init_queues_def Let_def
        qdma_descq_init_def zero_descq_def)
  from queues_typed [OF init sample_lib_hyps client_run.none q(1)] init q show ?thesis by auto
qed

section \<open>Adding a queue\<close>

text \<open>A queue on a device that has come up.\<close>

lemma sample_queue_added:
  obtains lib1 tr1 qd h c lib' tr' where "qdma_device_init plain_env sample_lib [] = (0, lib1, tr1)"
    "lib_ok [lb_xdev sample_lib] lib1" "lb_dev lib1 = Some qd" "xd_qmax (lb_xdev lib1) = 2"
    "qdma_queue_add plain_env True zero_queue_conf lib1 tr1 = Ok (0, h, c, lib', tr')"
proof -
  obtain lib1 tr1 qd where init: "qdma_device_init plain_env sample_lib [] = (0, lib1, tr1)"
    and ok: "lib_ok [lb_xdev sample_lib] lib1" and qd: "lb_dev lib1 = Some qd" "qd_h2c_qcnt qd = 0"
      "xd_qmax (lb_xdev lib1) = 2" "\<not> qd_init_qrange qd" "qd_qs qd = init_queues (lb_xdev lib1)"
      "xd_mm_mode_en (lb_xdev lib1)" "xd_conf (lb_xdev lib1) = xd_conf (lb_xdev sample_lib)"
    by (rule sample_lib_up)
  have free: "\<not> dq_enabled (qv_h2c (init_queues (lb_xdev lib1)) ! 0)" "\<not> dq_enabled (qv_c2h (init_queues (lb_xdev lib1)) ! 0)"
    using qd(3) by (simp_all add: init_queues_def Let_def qdma_descq_init_def zero_descq_def)
  have prep: "\<exists>x qd' tr'. qdma_device_prep_q_resource plain_env (lb_xdev lib1) qd1 tr = (0, x, qd', tr')" for qd1 tr
    using qd(7) by (auto simp: qdma_device_prep_q_resource_def device_set_qrange_def intr_ring_setup_def Let_def
        sample_lib_def sample_dev_def)
  have "\<exists>h c lib' tr'. qdma_queue_add plain_env True zero_queue_conf lib1 tr1 = Ok (0, h, c, lib', tr')"
  proof -
    have "claim_queue zero_queue_conf (qv_h2c (qd_qs qd)) (qv_c2h (qd_qs qd)) = Inr 0"
      using free qd(5) by (simp add: claim_queue_def zero_queue_conf_def QDMA_QUEUE_IDX_INVALID_def Let_def)
    moreover have "\<exists>h c lib' tr'. add_claimed plain_env True zero_queue_conf 0 (add_count False 1 qd) lib1 tr1 = (0, h, c, lib', tr')"
      using prep [of "put_queue (lb_xdev lib1) 0 ((queue_at (lb_xdev lib1) (add_count False 1 qd) 0)\<lparr>dq_enabled := True\<rparr>)
          (add_count False 1 qd)" tr1]
      by (auto simp: add_claimed_def Let_def zero_queue_conf_def QDMA_OPERATION_SUCCESSFUL_def)
    ultimately show ?thesis
      using qd by (auto simp: qdma_queue_add_def Let_def zero_queue_conf_def)
  qed
  then show ?thesis using that [OF init ok qd(1,3)] by blast
qed



section \<open>Queue numbers\<close>

text \<open>
  C27.  On a device that has come up, looking up a queue by the client's number is indexing the H2C
  queues followed by the C2H queues, and fails behind them; the two ways of naming a queue agree:
  the number an interrupt entry carries, taken from the queue's hardware index and direction, leads
  to the same queue and to the client's number for it.
\<close>

theorem queue_numbers_agree:
  assumes "qdma_device_init E lib tr = (0, lib', tr')" "lb_dev lib' = Some qd"
  shows "get_lib n False lib' = (let qs = qv_h2c (qd_qs qd) @ qv_c2h (qd_qs qd) in if n < length qs then Some (qs ! n) else None)
    \<and> (\<forall>i c2h. i < unat (xd_qmax (lb_xdev lib')) \<longrightarrow>
        (let qid = (if c2h then unat (xd_qmax (lb_xdev lib')) + i else i); q = queue_at (lb_xdev lib') qd qid
         in qdma_device_get_descq_by_hw_qid (lb_xdev lib') (qd_qs qd) (dq_qidx_hw q) c2h = Some (qid, q)
          \<and> get_lib qid False lib' = Some q \<and> unat (dq_qidx_hw q) = unat (xd_qbase (lb_xdev lib')) + i))"
proof -
  let ?x = "lb_xdev lib'" and ?n = "unat (xd_qmax (lb_xdev lib'))"
  have qs: "qd_qs qd = init_queues ?x"
    using assms by (auto simp: qdma_device_init_def Let_def split_beta errno_defs split: if_splits)
  then have len: "length (qv_h2c (qd_qs qd)) = ?n" "length (qv_c2h (qd_qs qd)) = ?n"
    by (simp_all add: init_queues_def Let_def)
  have get: "get_lib k False lib' = (if k < 2 * ?n then Some (queue_at ?x qd k) else None)" for k
    using assms(2) by (auto simp: get_lib_def qdma_device_get_descq_by_id_def Let_def)
  have 1: "get_lib n False lib' = (let qs = qv_h2c (qd_qs qd) @ qv_c2h (qd_qs qd) in if n < length qs then Some (qs ! n) else None)"
    using len by (auto simp: get queue_at_def Let_def nth_append)
  have 2: "let qid = (if c2h then ?n + i else i); q = queue_at ?x qd qid
      in qdma_device_get_descq_by_hw_qid ?x (qd_qs qd) (dq_qidx_hw q) c2h = Some (qid, q)
       \<and> get_lib qid False lib' = Some q \<and> unat (dq_qidx_hw q) = unat (xd_qbase ?x) + i"
    if "i < ?n" for i c2h
  proof -
    let ?qid = "if c2h then ?n + i else i"
    have q: "queue_at ?x qd ?qid = qdma_descq_init ?x (of_nat i) (of_nat i)"
      using that by (simp add: queue_at_def qs init_queues_def Let_def)
    have hw: "dq_qidx_hw (queue_at ?x qd ?qid) = ucast (xd_qbase ?x) + of_nat i"
      unfolding q by (simp add: qdma_descq_init_def zero_descq_def)
    have b: "unat (xd_qbase ?x) < 2 ^ LENGTH(16)" "?n < 2 ^ LENGTH(16)" by (rule unsigned_less)+
    then have small: "unat (xd_qbase ?x) + i < 2 ^ 32" "unat (xd_qbase ?x) + i < 2 ^ 64" using that by simp_all
    have u: "unat (ucast (xd_qbase ?x) + of_nat i :: u32) = unat (xd_qbase ?x) + i"
      using small b by (simp add: unat_add_no_overflow unsigned_ucast_eq take_bit_nat_eq_self unat_of_nat)
    have "unat (ucast (ucast (xd_qbase ?x) + of_nat i :: u32) - ucast (xd_qbase ?x) :: u64) = i"
    proof -
      have "(ucast (ucast (xd_qbase ?x) + of_nat i :: u32) :: u64) = of_nat (unat (xd_qbase ?x) + i)"
        unfolding u [symmetric] by simp
      moreover have "(ucast (xd_qbase ?x) :: u64) = of_nat (unat (xd_qbase ?x))" by simp
      ultimately have "ucast (ucast (xd_qbase ?x) + of_nat i :: u32) - ucast (xd_qbase ?x) = (of_nat i :: u64)"
        by (simp only: of_nat_add add_diff_cancel_left')
      then show ?thesis using small(2) by (simp add: unat_of_nat take_bit_nat_eq_self)
    qed
    then have "qdma_device_get_descq_by_hw_qid ?x (qd_qs qd) (ucast (xd_qbase ?x) + of_nat i) c2h = Some (?qid, queue_at ?x qd ?qid)"
      using that len by (simp add: qdma_device_get_descq_by_hw_qid_def Let_def queue_at_def)
    then have "qdma_device_get_descq_by_hw_qid ?x (qd_qs qd) (dq_qidx_hw (queue_at ?x qd ?qid)) c2h
        = Some (?qid, queue_at ?x qd ?qid)" unfolding hw .
    moreover have "get_lib ?qid False lib' = Some (queue_at ?x qd ?qid)" using that by (simp add: get)
    moreover have "unat (dq_qidx_hw (queue_at ?x qd ?qid)) = unat (xd_qbase ?x) + i" unfolding hw by (rule u)
    ultimately show ?thesis unfolding Let_def by blast
  qed
  show ?thesis using 1 2 by blast
qed

lemma queue_numbers_agree_witness:
  "\<exists>lib1 tr1 qd. qdma_device_init plain_env sample_lib [] = (0, lib1, tr1) \<and> lb_dev lib1 = Some qd
     \<and> get_lib 3 False lib1 = Some (queue_at (lb_xdev lib1) qd 3) \<and> get_lib 4 False lib1 = None"
proof -
  obtain lib1 tr1 qd where init: "qdma_device_init plain_env sample_lib [] = (0, lib1, tr1)"
    and qd: "lb_dev lib1 = Some qd" "xd_qmax (lb_xdev lib1) = 2" "qd_qs qd = init_queues (lb_xdev lib1)"
    by (rule sample_lib_up)
  show ?thesis
    using queue_numbers_agree [OF init qd(1), where n = 3] queue_numbers_agree [OF init qd(1), where n = 4] init qd
    by (auto simp: Let_def init_queues_def queue_at_def nth_append)
qed

section \<open>Calls that go wrong\<close>

text \<open>
  Starting a queue that runs is refused, but only after the indices of the running queue have been
  set back to zero.
\<close>

lemma start_resets_running_queue:
  assumes "lib_ok devs lib" "get_lib qid True lib = Some q" "dq_online q"
  shows "\<exists>lib' tr' q'. qdma_queue_start E devs fits qid lib tr = Ok (QDMA_ERR_INVALID_DESCQ_STATE, lib', tr')
    \<and> get_lib qid True lib' = Some q' \<and> dq_online q' \<and> dq_pidx q' = 0 \<and> dq_cidx q' = 0
    \<and> dq_avail q' = qc_rngsz (dq_conf q') - 1"
proof -
  let ?x = "lb_xdev lib"
  from assms(2) obtain qd where qd: "lb_dev lib = Some qd" "qid < 2 * unat (xd_qmax ?x)" "q = queue_at ?x qd qid" "dq_enabled q"
    by (rule get_libD) simp
  note D = lib_okD [OF assms(1) qd(1)]
  obtain rv1 q1 x1 tr1 where c: "qdma_descq_config_complete E devs ?x q tr = (rv1, q1, x1, tr1)" by (metis prod_cases4)
  have rv1: "rv1 = 0" using config_complete_rv [OF D(6), of E q tr] by (simp add: c)
  have f1: "flags q1 = flags q" "core x1 = core ?x"
    using config_complete_frame [of E devs ?x q tr] by (simp_all add: c)
  have idx: "dq_pidx q1 = 0 \<and> dq_cidx q1 = 0 \<and> dq_avail q1 = qc_rngsz (dq_conf q1) - 1"
    using c D(6) by (auto simp: qdma_descq_config_complete_def qdma_global_csr_get_def Let_def split_beta)
  have "get_lib qid True (put_lib qid q1 (lib\<lparr>lb_xdev := x1\<rparr>)) = Some q1"
    using qd f1 queue_at_put [OF D(1,2) qd(2) qd(2)] core_fields(2,6,7) [OF f1(2)]
    by (auto simp: get_lib_def put_lib_def qdma_device_get_descq_by_id_def Let_def flags_fields)
  then show ?thesis
    using assms(2,3) c rv1 f1(1) idx by (auto simp: qdma_queue_start_def Let_def flags_fields)
qed

text \<open>Stopping a queue that was added but not started, as closing the device does.\<close>

lemma stop_idle_queue:
  assumes "lib_ok devs lib" "get_lib qid True lib = Some q" "\<not> dq_online q" "xd_num_vecs (lb_xdev lib) \<noteq> 0"
  shows "qdma_queue_stop E fits qid lib tr = Bad" "stop_loop E (qid # qids) lib tr = Bad"
proof -
  from assms(2) obtain qd where qd: "lb_dev lib = Some qd" "qid < 2 * unat (xd_qmax (lb_xdev lib))"
    "q = queue_at (lb_xdev lib) qd qid" "dq_enabled q" by (rule get_libD) simp
  have "on_vec (lb_intr_list lib) qid False"
    using lib_okD(3) [OF assms(1) qd(1,2)] qd(3) assms(3,4) by (simp add: queue_ok_def)
  then have "\<forall>l\<in>set (lb_intr_list lib). qid \<notin> set l"
    by (auto simp: on_vec_def count_list_0_iff)
  then have bad: "qdma_queue_stop E f qid lib tr = Bad" for f
    using assms(2,4) by (simp add: qdma_queue_stop_def Let_def split_beta)
  then show "qdma_queue_stop E fits qid lib tr = Bad" .
  note bad [of True]
  moreover have "get_lib qid False lib = Some q"
    using assms(2) by (auto simp: get_lib_def qdma_device_get_descq_by_id_def Let_def split: option.splits if_splits)
  ultimately show "stop_loop E (qid # qids) lib tr = Bad" using qd(4) by simp
qed

text \<open>Removing a queue that runs leaves it on the lists of its threads.\<close>

lemma remove_running_queue:
  "qdma_queue_remove E qid lib tr = (rv, lib', tr') \<Longrightarrow> lb_threads lib' = lb_threads lib \<and> lb_intr_list lib' = lb_intr_list lib"
  by (auto simp: qdma_queue_remove_def put_lib_def Let_def split_beta split: if_splits option.splits)

text \<open>A failure to prepare the device's resources is forgotten: the next call finds them prepared.\<close>

lemma prep_failure_forgotten:
  "qdma_device_prep_q_resource E xdev qd tr = (rv, xdev', qd', tr')
     \<Longrightarrow> qdma_device_prep_q_resource E' xdev' qd' tr' = (0, xdev', qd', tr')"
  by (auto simp: qdma_device_prep_q_resource_def device_set_qrange_def Let_def split_beta split: if_splits)

text \<open>Cleaning up a device disables the same engine twice.\<close>

lemma cleanup_one_engine:
  "xd_mm_channel_max xdev = 1 \<Longrightarrow>
     writes_of (mm_channels hw_mm_channel_disable 1 2 xdev tr)
       = writes_of tr @ [(mm_control_base True, 0), (mm_control_base True, 0)]"
  by (simp add: mm_channels_def hw_mm_channel_disable_def trace_simps)

end
