(* ===== verification/Qdma_Io.thy ===== *)
theory Qdma_Io
  imports Qdma_Client
begin

unbundle bit_operations_syntax

text \<open>
  A transfer from end to end: a request is submitted, a thread posts its descriptors, the device
  works them off, the completion finishes the request and its pages are unmapped.
\<close>

section \<open>Mapping and unmapping\<close>

lemma length_chunk_entry: "length (chunk_entry a l) = length (chunk_entry b l)"
proof (induction a l arbitrary: b rule: chunk_entry.induct)
  case (1 a l)
  show ?case
  proof (cases "l = 0")
    case True
    then show ?thesis by (simp add: chunk_entry.simps [of _ 0])
  next
    case False
    define n where "n = min l QDMA_DESC_BLEN_MAX"
    show ?thesis
      using "1.IH" [OF False n_def, of "b + ucast n"] False
      by (subst (1 2) chunk_entry.simps) (simp add: Let_def flip: n_def)
  qed
qed

definition same_lens :: "qdma_sw_sg list \<Rightarrow> qdma_sw_sg list \<Rightarrow> bool" where
  "same_lens sgs sgs' \<longleftrightarrow> map sg_len sgs' = map sg_len sgs \<and> map sg_pg sgs' = map sg_pg sgs
     \<and> map sg_offset sgs' = map sg_offset sgs"

lemma length_mm_chunks:
  assumes "map sg_len sgs = map sg_len sgs'"
  shows "length (mm_chunks sgs) = length (mm_chunks sgs')"
proof -
  have "length (chunk_entry (sg_dma_addr s) (sg_len s)) = length (chunk_entry 0 (sg_len s))" for s :: qdma_sw_sg
    by (rule length_chunk_entry)
  then have *: "length (mm_chunks sgs) = sum_list (map (\<lambda>l. length (chunk_entry 0 l)) (map sg_len sgs))" for sgs :: "qdma_sw_sg list"
    by (simp add: mm_chunks_def length_concat comp_def)
  show ?thesis unfolding * assms ..
qed

lemma sgl_map_loop_ok:
  assumes "\<And>t p. \<exists>a. env_page_map E t p = Some a \<and> (\<forall>sg \<in> set sgs. a + ucast (sg_offset sg) \<noteq> 0)"
  shows "\<exists>sgs' tr'. sgl_map_loop E sgs tr = (0, sgs', tr') \<and> same_lens sgs sgs'
    \<and> (\<forall>sg \<in> set sgs'. sg_dma_addr sg \<noteq> 0)
    \<and> completions tr' = completions tr \<and> given_back tr' = given_back tr
    \<and> taken tr' = taken tr + mset (map (\<lambda>sg. Inr (sg_dma_addr sg - ucast (sg_offset sg))) sgs')"
  using assms
proof (induction sgs arbitrary: tr)
  case (Cons sg sgs)
  obtain a where a: "env_page_map E tr (sg_pg sg) = Some a" "a + ucast (sg_offset sg) \<noteq> 0"
    using Cons.prems by (metis list.set_intros(1))
  have "\<exists>a. env_page_map E t p = Some a \<and> (\<forall>sg \<in> set sgs. a + ucast (sg_offset sg) \<noteq> 0)" for t p
    using Cons.prems [of t p] by auto
  from Cons.IH [OF this, of "PageMap (sg_pg sg) (Some a) # tr"]
  obtain sgs' tr' where ih: "sgl_map_loop E sgs (PageMap (sg_pg sg) (Some a) # tr) = (0, sgs', tr')"
    "same_lens sgs sgs'" "\<forall>sg \<in> set sgs'. sg_dma_addr sg \<noteq> 0"
    "completions tr' = completions tr" "given_back tr' = given_back tr"
    "taken tr' = add_mset (Inr a) (taken tr) + mset (map (\<lambda>sg. Inr (sg_dma_addr sg - ucast (sg_offset sg))) sgs')"
    by auto
  then show ?case using a by (simp add: same_lens_def)
qed (simp add: same_lens_def)

text \<open>Unmapping gives back each mapping of the entries that have a page and an address.\<close>

lemma sgl_unmap_loop_all:
  assumes "\<forall>sg \<in> set sgs. sg_pg sg \<noteq> 0 \<and> sg_dma_addr sg \<noteq> 0"
  shows "taken (snd (sgl_unmap_loop sgs tr)) = taken tr"
    "given_back (snd (sgl_unmap_loop sgs tr))
       = given_back tr + mset (map (\<lambda>sg. Inr (sg_dma_addr sg - ucast (sg_offset sg))) sgs)"
  using assms by (induction sgs tr rule: sgl_unmap_loop.induct) (auto simp: split_beta Let_def)

section \<open>Posting the whole request\<close>

lemma trace_pidx_update [simp]:
  "completions (pidx_update b q tr) = completions tr" "taken (pidx_update b q tr) = taken tr"
  "given_back (pidx_update b q tr) = given_back tr"
  by (simp_all add: pidx_update_def descq_c2h_pidx_update_def descq_h2c_pidx_update_def write_reg_def)

lemma trace_wake_wb [simp]:
  "completions (wake_wb q tr) = completions tr" "taken (wake_wb q tr) = taken tr"
  "given_back (wake_wb q tr) = given_back tr"
  by (simp_all add: wake_wb_def split: option.split)

text \<open>One request alone on the work list of a queue whose descriptors are all free.\<close>

lemma mm_post_alone:
  assumes q: "ring_inv q" "dq_desc q = MmDesc ring" "dq_avail q \<noteq> 0"
    and lists: "dq_work_list q = [r]" "dq_pend_list q = []"
    and req: "cb_offset (dq_reqs q r) = 0" "cb_desc_nr (dq_reqs q r) = 0"
    and sgs: "sgs = take (unat (rq_sgcnt (dq_reqs q r))) (rq_sgl (dq_reqs q r))"
      "sum_list (map sg_len sgs) = rq_count (dq_reqs q r)" "mm_chunks sgs \<noteq> []"
      "length (mm_chunks sgs) \<le> unat (dq_avail q)"
  obtains q' tr' where "descq_mm_proc_request b r q tr = (0, q', tr')" "ring_inv q'"
    "unat (dq_pidx q') = ring_slot (qc_rngsz (dq_conf q)) (dq_pidx q) (length (mm_chunks sgs))"
    "dq_cidx q' = dq_cidx q" "dq_conf q' = dq_conf q" "dq_credit q' = dq_credit q" "dq_wrkthp q' = dq_wrkthp q"
    "unat (dq_avail q') = unat (dq_avail q) - length (mm_chunks sgs)"
    "dq_work_list q' = []" "dq_pend_list q' = [r]"
    "dq_reqs q' r = (dq_reqs q r)\<lparr>cb_desc_nr := of_nat (length (mm_chunks sgs)), cb_offset := rq_count (dq_reqs q r)\<rparr>"
    "completions tr' = completions tr" "taken tr' = taken tr" "given_back tr' = given_back tr"
proof -
  have res: "req_resume (dq_reqs q r) = Some (0, 0)" by (simp add: req_resume_def req(1))
  have cut: "mm_cut q (dq_reqs q r) 0 = mm_chunks sgs" using sgs(1,4) by (simp add: mm_cut_def)
  have ne: "mm_cut q (dq_reqs q r) 0 \<noteq> []" using sgs(3) by (simp add: cut)
  obtain R p' where p': "unat p' = ring_slot (qc_rngsz (dq_conf q)) (dq_pidx q) (length (mm_chunks sgs))"
    and run: "descq_mm_proc_request b r q tr =
      (let q' = advance_req r (length (mm_chunks sgs)) (rq_count (dq_reqs q r))
          (q\<lparr>dq_desc := MmDesc R, dq_pidx := p', dq_avail := dq_avail q - of_nat (length (mm_chunks sgs))\<rparr>)
       in (0, q', wake_wb q' (pidx_update b q' tr)))"
    using mm_proc_request_eq [OF q(1,3,2) res ne, where b = b and tr = tr]
    unfolding cut mm_chunks_sum sgs(2) Let_def by blast
  define q' where "q' = advance_req r (length (mm_chunks sgs)) (rq_count (dq_reqs q r))
          (q\<lparr>dq_desc := MmDesc R, dq_pidx := p', dq_avail := dq_avail q - of_nat (length (mm_chunks sgs))\<rparr>)"
  have inv: "ring_inv q' \<and> unat (dq_avail q - of_nat (length (mm_chunks sgs))) = unat (dq_avail q) - length (mm_chunks sgs)"
    using q(1) sgs(4) p' refl by (rule ring_inv_advance) (simp_all add: q'_def)
  have reqs: "dq_reqs q' r = (dq_reqs q r)\<lparr>cb_desc_nr := of_nat (length (mm_chunks sgs)), cb_offset := rq_count (dq_reqs q r)\<rparr>"
    using req by (simp add: q'_def advance_req_def upd_req_def req_submitted_def list_del_req_def Let_def)
  have "dq_credit q' = dq_credit q" "dq_wrkthp q' = dq_wrkthp q"
    by (simp_all add: q'_def advance_req_def upd_req_def req_submitted_def list_del_req_def Let_def)
  moreover have "dq_work_list q' = []" "dq_pend_list q' = [r]"
    using lists req by (simp_all add: q'_def advance_req_lists)
  ultimately show ?thesis
    using that [of q' "wake_wb q' (pidx_update b q' tr)"] run inv p' reqs by (simp add: q'_def [symmetric] Let_def)
      (simp add: q'_def)
qed

section \<open>Finishing it\<close>

text \<open>The device has worked off all descriptors.\<close>

lemma wb_alone:
  assumes q: "ring_inv q" "dq_pidx q \<noteq> dq_cidx q" "dq_credit q = 0" "unat (dq_pidx q) < 2 ^ 16"
    and lists: "dq_work_list q = []" "dq_pend_list q = [r]"
    and nr: "cb_desc_nr (dq_reqs q r) = ring_idx_delta (dq_pidx q) (dq_cidx q) (qc_rngsz (dq_conf q))"
  shows "descq_mm_n_h2c_wb b (q\<lparr>dq_desc_wb_cidx := ucast (dq_pidx q)\<rparr>) tr =
     (let d = ring_idx_delta (dq_pidx q) (dq_cidx q) (qc_rngsz (dq_conf q));
          (q', tr') = qdma_sgt_req_done r 0
            (q\<lparr>dq_desc_wb_cidx := ucast (dq_pidx q), dq_cidx := dq_pidx q, dq_avail := dq_avail q + d\<rparr>) tr
      in (0, q'\<lparr>dq_credit := 0\<rparr>, pidx_update b (q'\<lparr>dq_credit := 0\<rparr>) tr'))"
proof -
  define d where "d = ring_idx_delta (dq_pidx q) (dq_cidx q) (qc_rngsz (dq_conf q))"
  have c: "ucast (ucast (dq_pidx q) :: u16) = dq_pidx q"
    using q(4) by (simp add: unsigned_ucast_eq take_bit_u32_self)
  let ?q = "q\<lparr>dq_desc_wb_cidx := ucast (dq_pidx q)\<rparr>"
  have "descq_wb_credit (dq_pidx q) ?q = (d, ?q\<lparr>dq_cidx := dq_pidx q, dq_avail := dq_avail q + d\<rparr>)"
    using descq_wb_credit_delta [of ?q "dq_pidx q"] q(1) by (simp add: ring_inv_def d_def)
  then show ?thesis
    using q(2,3) lists nr c
    by (simp add: descq_mm_n_h2c_wb_def req_update_pend_def Let_def split_beta flip: d_def)
qed

text \<open>Finishing a request that was submitted without a callback.\<close>

lemma req_done_sync:
  assumes "\<not> rq_fp_done (dq_reqs q r)" "cb_unmap_needed (dq_reqs q r)"
    and "length (rq_sgl (dq_reqs q r)) = n" "unat (rq_sgcnt (dq_reqs q r)) \<le> n"
    and "\<forall>sg \<in> set (take (unat (rq_sgcnt (dq_reqs q r))) (rq_sgl (dq_reqs q r))). sg_pg sg \<noteq> 0 \<and> sg_dma_addr sg \<noteq> 0"
  obtains q' tr' req where "qdma_sgt_req_done r 0 q tr = (q', tr')"
    "q' = (list_del_req r q)\<lparr>dq_reqs := (dq_reqs q)(r := req)\<rparr>"
    "cb_done req" "cb_status req = 0" "cb_offset req = cb_offset (dq_reqs q r)"
    "completions tr' = completions tr @ [r]" "taken tr' = taken tr"
    "given_back tr' = given_back tr + mset (map (\<lambda>sg. Inr (sg_dma_addr sg - ucast (sg_offset sg)))
       (take (unat (rq_sgcnt (dq_reqs q r))) (rq_sgl (dq_reqs q r))))"
proof -
  define req0 where "req0 = fst (sgl_unmap (dq_reqs q r) tr)"
  define tr1 where "tr1 = snd (sgl_unmap (dq_reqs q r) tr)"
  define req where "req = req0\<lparr>cb_unmap_needed := False, cb_status := 0, cb_done := True\<rparr>"
  have fp: "\<not> rq_fp_done req0" "cb_offset req0 = cb_offset (dq_reqs q r)"
    using assms(1) by (simp_all add: req0_def)
  have run: "qdma_sgt_req_done r 0 q tr = ((list_del_req r q)\<lparr>dq_reqs := (dq_reqs q)(r := req)\<rparr>, ReqWake r # tr1)"
    using assms(1,2) fp(1)
    by (simp add: qdma_sgt_req_done_def Let_def split_beta upd_req_def req_def list_del_req_def flip: req0_def tr1_def)
  have "taken tr1 = taken tr" "given_back tr1 = given_back tr + mset (map (\<lambda>sg. Inr (sg_dma_addr sg - ucast (sg_offset sg)))
       (take (unat (rq_sgcnt (dq_reqs q r))) (rq_sgl (dq_reqs q r))))" "completions tr1 = completions tr"
    using sgl_unmap_loop_all [OF assms(5), of tr]
    by (simp_all add: tr1_def) (simp_all add: sgl_unmap_def Let_def split_beta)
  then show ?thesis using that [OF run refl] fp(2) by (simp add: req_def)
qed

section \<open>A transfer\<close>

text \<open>
  What the others do while the call waits: the queue's thread makes one pass, the device works off
  all descriptors and says so, the completion is serviced.
\<close>

definition serve_once :: "env \<Rightarrow> nat \<Rightarrow> waiter" where
  "serve_once E qid lib tr =
     (case get_lib qid False lib of
        None \<Rightarrow> (lib, tr)
      | Some q \<Rightarrow>
          let (q, tr) = qdma_thread_wrk_proc PF q tr;
              (q, tr) = qdma_descq_service_wb PF E 0 (q\<lparr>dq_desc_wb_cidx := ucast (dq_pidx q)\<rparr>) tr
          in (put_lib qid q lib, tr))"

definition idle_mm :: "qdma_descq \<Rightarrow> bool" where
  "idle_mm q \<longleftrightarrow> \<not> qc_st (dq_conf q) \<and> dq_online q \<and> ring_inv q \<and> dq_pidx q = dq_cidx q \<and> dq_credit q = 0
     \<and> unat (qc_rngsz (dq_conf q)) \<le> 2 ^ 16 \<and> dq_work_list q = [] \<and> dq_pend_list q = []"

lemma get_put_lib:
  assumes "lib_ok devs lib" "get_lib qid init lib = Some q0"
  shows "get_lib qid False (put_lib qid q lib) = Some q"
    "dq_enabled q \<Longrightarrow> get_lib qid True (put_lib qid q lib) = Some q"
proof -
  from assms(2) obtain qd where qd: "lb_dev lib = Some qd" "qid < 2 * unat (xd_qmax (lb_xdev lib))" by (rule get_libD)
  then show "get_lib qid False (put_lib qid q lib) = Some q"
    "dq_enabled q \<Longrightarrow> get_lib qid True (put_lib qid q lib) = Some q"
    using queue_at_put [OF lib_okD(1,2) [OF assms(1) qd(1)] qd(2) qd(2), of q]
    by (auto simp: get_lib_def put_lib_def qdma_device_get_descq_by_id_def Let_def)
qed

lemma put_put_lib [simp]: "put_lib qid q (put_lib qid p lib) = put_lib qid q lib"
  by (cases "lb_dev lib") (simp_all add: put_lib_def put_put_queue)

lemma delta_posted:
  assumes "ring_inv q" "ring_inv q'" "dq_pidx q = dq_cidx q" "dq_conf q' = dq_conf q"
    and "n \<le> unat (dq_avail q)" "unat (dq_avail q') = unat (dq_avail q) - n"
  shows "ring_idx_delta (dq_pidx q') (dq_cidx q') (qc_rngsz (dq_conf q)) = of_nat n"
proof -
  have "ring_idx_delta (dq_cidx q) (dq_cidx q) (qc_rngsz (dq_conf q)) = 0"
    by (simp add: ring_idx_delta_def)
  then have "unat (ring_idx_delta (dq_pidx q') (dq_cidx q') (qc_rngsz (dq_conf q))) = n"
    using assms by (simp add: ring_inv_def) arith
  then show ?thesis by (metis word_unat_eq_iff unat_of_nat_u32 unat_u32_less)
qed

lemma served_alone:
  assumes q: "ring_inv q" "dq_pidx q = dq_cidx q" "dq_credit q = 0" "unat (qc_rngsz (dq_conf q)) \<le> 2 ^ 16"
      "\<not> qc_st (dq_conf q)" "dq_desc q = MmDesc ring"
    and lists: "dq_work_list q = [r]" "dq_pend_list q = []"
    and req: "cb_offset (dq_reqs q r) = 0" "cb_desc_nr (dq_reqs q r) = 0" "\<not> rq_fp_done (dq_reqs q r)"
      "cb_unmap_needed (dq_reqs q r)" "unat (rq_sgcnt (dq_reqs q r)) \<le> length (rq_sgl (dq_reqs q r))"
    and sgs: "sgs = take (unat (rq_sgcnt (dq_reqs q r))) (rq_sgl (dq_reqs q r))"
      "sum_list (map sg_len sgs) = rq_count (dq_reqs q r)" "mm_chunks sgs \<noteq> []"
      "length (mm_chunks sgs) \<le> unat (dq_avail q)" "\<forall>sg \<in> set sgs. sg_pg sg \<noteq> 0 \<and> sg_dma_addr sg \<noteq> 0"
  obtains q2 tr2 q3 tr3 where "qdma_thread_wrk_proc PF q tr = (q2, tr2)"
    "qdma_descq_service_wb PF E 0 (q2\<lparr>dq_desc_wb_cidx := ucast (dq_pidx q2)\<rparr>) tr2 = (q3, tr3)"
    "ring_inv q3" "dq_pidx q3 = dq_cidx q3" "dq_credit q3 = 0" "dq_avail q3 = dq_avail q" "dq_conf q3 = dq_conf q"
    "dq_work_list q3 = []" "dq_pend_list q3 = []"
    "cb_done (dq_reqs q3 r)" "cb_status (dq_reqs q3 r) = 0" "cb_offset (dq_reqs q3 r) = rq_count (dq_reqs q r)"
    "completions tr3 = completions tr @ [r]" "taken tr3 = taken tr"
    "given_back tr3 = given_back tr + mset (map (\<lambda>sg. Inr (sg_dma_addr sg - ucast (sg_offset sg))) sgs)"
proof -
  let ?n = "length (mm_chunks sgs)" and ?N = "qc_rngsz (dq_conf q)"
  have av: "dq_avail q \<noteq> 0" using sgs(3,4) by (cases "mm_chunks sgs") auto
  obtain q2 tr2 where p: "descq_mm_proc_request PF r q tr = (0, q2, tr2)" "ring_inv q2"
    "unat (dq_pidx q2) = ring_slot ?N (dq_pidx q) ?n"
    "dq_cidx q2 = dq_cidx q" "dq_conf q2 = dq_conf q" "dq_credit q2 = dq_credit q" "dq_wrkthp q2 = dq_wrkthp q"
    "unat (dq_avail q2) = unat (dq_avail q) - ?n" "dq_work_list q2 = []" "dq_pend_list q2 = [r]"
    "dq_reqs q2 r = (dq_reqs q r)\<lparr>cb_desc_nr := of_nat ?n, cb_offset := rq_count (dq_reqs q r)\<rparr>"
    "completions tr2 = completions tr" "taken tr2 = taken tr" "given_back tr2 = given_back tr"
    by (rule mm_post_alone [OF q(1,6) av lists req(1,2) sgs(1-4)])
  have wrk: "qdma_thread_wrk_proc PF q tr = (q2, tr2)"
    using lists(1) q(5) p(1) by (simp add: qdma_thread_wrk_proc_def qdma_descq_proc_sgt_request_def)
  have d: "ring_idx_delta (dq_pidx q2) (dq_cidx q2) ?N = of_nat ?n"
    by (rule delta_posted [OF q(1) p(2) q(2) p(5) sgs(4) p(8)])
  have n0: "(of_nat ?n :: u32) \<noteq> 0"
  proof
    assume "(of_nat ?n :: u32) = 0"
    moreover have "unat (of_nat ?n :: u32) = ?n"
      using sgs(4) unat_u32_less [of "dq_avail q"] by (intro unat_of_nat_u32) simp
    ultimately show False using sgs(3) by simp
  qed
  have ne: "dq_pidx q2 \<noteq> dq_cidx q2" using d n0 by (auto simp: ring_idx_delta_def)
  have small: "unat (dq_pidx q2) < 2 ^ 16" using p(2,5) q(4) by (simp add: ring_inv_def unat_less_iff)
  define q2a where "q2a = q2\<lparr>dq_desc_wb_cidx := ucast (dq_pidx q2), dq_cidx := dq_pidx q2, dq_avail := dq_avail q2 + of_nat ?n\<rparr>"
  have "\<not> rq_fp_done (dq_reqs q2a r)" "cb_unmap_needed (dq_reqs q2a r)"
    "unat (rq_sgcnt (dq_reqs q2a r)) \<le> length (rq_sgl (dq_reqs q2a r))"
    "\<forall>sg \<in> set (take (unat (rq_sgcnt (dq_reqs q2a r))) (rq_sgl (dq_reqs q2a r))). sg_pg sg \<noteq> 0 \<and> sg_dma_addr sg \<noteq> 0"
    "take (unat (rq_sgcnt (dq_reqs q2a r))) (rq_sgl (dq_reqs q2a r)) = sgs"
    using req(3-5) sgs(1,5) by (simp_all add: q2a_def p(11))
  note F = this
  obtain q' tr' req where fin: "qdma_sgt_req_done r 0 q2a tr2 = (q', tr')"
    "q' = (list_del_req r q2a)\<lparr>dq_reqs := (dq_reqs q2a)(r := req)\<rparr>"
    "cb_done req" "cb_status req = 0" "cb_offset req = cb_offset (dq_reqs q2a r)"
    "completions tr' = completions tr2 @ [r]" "taken tr' = taken tr2"
    "given_back tr' = given_back tr2 + mset (map (\<lambda>sg. Inr (sg_dma_addr sg - ucast (sg_offset sg))) sgs)"
    by (rule req_done_sync [OF F(1,2) refl F(3,4), where tr = tr2, unfolded F(5)])
  define q3 where "q3 = q'\<lparr>dq_credit := 0\<rparr>"
  have wb: "descq_mm_n_h2c_wb PF (q2\<lparr>dq_desc_wb_cidx := ucast (dq_pidx q2)\<rparr>) tr2 = (0, q3, pidx_update PF q3 tr')"
    using wb_alone [OF p(2) ne _ small p(9,10), where tr = tr2 and b = PF] q(3) d fin(1)
    by (simp add: p(5,6,11) q2a_def q3_def)
  have "wb_in_flight q2 (dq_pidx q2)" using p(2) by (simp add: wb_in_flight_def ring_inv_def)
  from ring_inv_consume [OF p(2) this, of q3] have inv: "ring_inv q3"
    "unat (dq_avail q3) = unat (dq_avail q2) + unat (of_nat ?n :: u32)"
    by (simp_all add: q3_def fin(2) q2a_def list_del_req_def p(5) d)
  have "unat (of_nat ?n :: u32) = ?n"
    using sgs(4) unat_u32_less [of "dq_avail q"] by (intro unat_of_nat_u32) simp
  then have "dq_avail q3 = dq_avail q" using inv(2) p(8) sgs(4) by (simp add: word_unat_eq_iff)
  moreover have "qdma_descq_service_wb PF E 0 (q2\<lparr>dq_desc_wb_cidx := ucast (dq_pidx q2)\<rparr>) tr2 = (q3, pidx_update PF q3 tr')"
    using wb q(5) by (simp add: qdma_descq_service_wb_def p(5))
  ultimately show ?thesis
    using that [OF wrk] inv(1) fin(3-8) p(9-14)
    by (simp add: q3_def fin(2) q2a_def list_del_req_def p(5))
qed

lemma submit_run:
  assumes ok: "lib_ok devs lib" and get: "get_lib qid True lib = Some q" and idle: "idle_mm q"
    and dir: "rq_write req \<longleftrightarrow> \<not> qc_c2h (dq_conf q)" and sync: "\<not> rq_fp_done req" "\<not> rq_dma_mapped req"
    and sgs: "sgs = take (unat (rq_sgcnt req)) (rq_sgl req)" "unat (rq_sgcnt req) \<le> length (rq_sgl req)"
      "sum_list (map sg_len sgs) = rq_count req" "mm_chunks sgs \<noteq> []" "length (mm_chunks sgs) \<le> unat (dq_avail q)"
      "\<forall>sg \<in> set sgs. sg_pg sg \<noteq> 0"
    and map: "\<And>t p. \<exists>a. env_page_map E t p = Some a \<and> (\<forall>sg \<in> set sgs. a + ucast (sg_offset sg) \<noteq> 0)"
  shows "\<exists>lib' tr' q'. qdma_request_submit E (serve_once E qid) r req qid lib tr = Ok (uint (rq_count req), lib', tr')
    \<and> get_lib qid False lib' = Some q' \<and> idle_mm q' \<and> dq_avail q' = dq_avail q
    \<and> completions tr' = completions tr @ [r]
    \<and> taken tr' + given_back tr = given_back tr' + taken tr"
proof -
  let ?n = "unat (rq_sgcnt req)"
  note I = idle [unfolded idle_mm_def]
  from get obtain qd where qd: "lb_dev lib = Some qd" "qid < 2 * unat (xd_qmax (lb_xdev lib))"
    "q = queue_at (lb_xdev lib) qd qid" "dq_enabled q" by (rule get_libD) simp
  have "typed q" "dq_inited q" using lib_okD(3) [OF ok qd(1,2)] I by (auto simp: queue_ok_def qd(3))
  then obtain ring where ring: "dq_desc q = MmDesc ring"
    using I by (cases "dq_desc q") (auto simp: typed_def conf_kind_def)
  obtain t where t: "dq_wrkthp q = Some t" using online_thread [OF ok get] I by blast
  obtain sgs' tr1 where m: "sgl_map_loop E sgs tr = (0, sgs', tr1)" "same_lens sgs sgs'"
    "\<forall>sg \<in> set sgs'. sg_dma_addr sg \<noteq> 0"
    "completions tr1 = completions tr" "given_back tr1 = given_back tr"
    "taken tr1 = taken tr + mset (map (\<lambda>sg. Inr (sg_dma_addr sg - ucast (sg_offset sg))) sgs')"
    using sgl_map_loop_ok [OF map, of tr] by auto
  have len: "length sgs' = ?n" "map sg_len sgs' = map sg_len sgs"
    using m(2) sgs(1,2) by (auto simp: same_lens_def dest: map_eq_imp_length_eq)
  have pg: "\<forall>sg \<in> set sgs'. sg_pg sg \<noteq> 0"
  proof
    fix sg assume "sg \<in> set sgs'"
    then have "sg_pg sg \<in> set (map sg_pg sgs)" using m(2) unfolding same_lens_def by (metis image_eqI set_map)
    then show "sg_pg sg \<noteq> 0" using sgs(6) by auto
  qed
  define req1 where "req1 = (zero_cb req)\<lparr>rq_sgl := sgs' @ drop ?n (rq_sgl req), cb_unmap_needed := True\<rparr>"
  have mapped: "map_for_submit E (zero_cb req) tr = (0, req1, tr1)"
    using m(1) sync(2) by (simp add: map_for_submit_def sgl_map_def req1_def zero_cb_def Let_def flip: sgs(1))
  define q1 where "q1 = queue_work r req1 q"
  have q1: "ring_inv q1" "dq_pidx q1 = dq_cidx q1" "dq_credit q1 = 0" "unat (qc_rngsz (dq_conf q1)) \<le> 2 ^ 16"
    "\<not> qc_st (dq_conf q1)" "dq_desc q1 = MmDesc ring" "dq_work_list q1 = [r]" "dq_pend_list q1 = []"
    "dq_reqs q1 r = req1" "dq_avail q1 = dq_avail q" "dq_conf q1 = dq_conf q" "dq_wrkthp q1 = Some t"
    using I ring t by (auto simp: q1_def queue_work_def upd_req_def ring_inv_def)
  have take: "sgs' = take (unat (rq_sgcnt (dq_reqs q1 r))) (rq_sgl (dq_reqs q1 r))"
    using len(1) by (simp add: q1(9) req1_def zero_cb_def)
  have ch: "length (mm_chunks sgs') = length (mm_chunks sgs)" using len(2) by (rule length_mm_chunks)
  define tr1w where "tr1w = Wakeup (WrkThread t) # tr1"
  obtain q2 tr2 q3 tr3 where s: "qdma_thread_wrk_proc PF q1 tr1w = (q2, tr2)"
    "qdma_descq_service_wb PF E 0 (q2\<lparr>dq_desc_wb_cidx := ucast (dq_pidx q2)\<rparr>) tr2 = (q3, tr3)"
    "ring_inv q3" "dq_pidx q3 = dq_cidx q3" "dq_credit q3 = 0" "dq_avail q3 = dq_avail q1" "dq_conf q3 = dq_conf q1"
    "dq_work_list q3 = []" "dq_pend_list q3 = []"
    "cb_done (dq_reqs q3 r)" "cb_status (dq_reqs q3 r) = 0" "cb_offset (dq_reqs q3 r) = rq_count (dq_reqs q1 r)"
    "completions tr3 = completions tr1w @ [r]" "taken tr3 = taken tr1w"
    "given_back tr3 = given_back tr1w + mset (map (\<lambda>sg. Inr (sg_dma_addr sg - ucast (sg_offset sg))) sgs')"
    by (rule served_alone [OF q1(1-8) _ _ _ _ _ take, where tr = tr1w and E = E])
      (use len ch sgs sync m(3) pg in \<open>auto simp: q1(9,10) req1_def zero_cb_def\<close>)
  have st: "static q3 = static q"
  proof -
    have "static q2 = static q1"
      using static_wrk_proc [of q1 PF tr1w] q1(5,6) s(1) by (simp add: conf_kind_def)
    moreover have "static q3 = static q2"
      using static_service [of PF E 0 "q2\<lparr>dq_desc_wb_cidx := ucast (dq_pidx q2)\<rparr>" tr2] s(2)
      by (simp add: static_def flags_def shape_def)
    ultimately show ?thesis by (simp add: q1_def static_frame)
  qed
  have get1: "get_lib qid False (put_lib qid q1 lib) = Some q1" by (rule get_put_lib(1) [OF ok get])
  have ok1: "lib_ok devs (put_lib qid q1 lib)" by (rule data_ok [OF ok get]) (simp add: q1_def static_frame)
  have serve: "serve_once E qid (put_lib qid q1 lib) tr1w = (put_lib qid q3 lib, tr3)"
    using s(1,2) get1 by (simp add: serve_once_def)
  have get3: "get_lib qid False (put_lib qid q3 lib) = Some q3" by (rule get_put_lib(1) [OF ok get])
  have wait: "qdma_request_wait_for_cmpl r q3 = (0, q3)"
    using s(10,11) by (simp add: qdma_request_wait_for_cmpl_def)
  have req1f: "\<not> rq_fp_done req1" "rq_count req1 = rq_count req"
    using sync by (simp_all add: req1_def zero_cb_def)
  have "qdma_request_submit E (serve_once E qid) r req qid lib tr = Ok (uint (rq_count req), put_lib qid q3 lib, tr3)"
    using get dir I mapped q1(12) sync(1) serve get3 wait s(12) q1(9)
    by (auto simp: qdma_request_submit_def Let_def req1f simp flip: q1_def tr1w_def)
  moreover have "idle_mm q3"
    using s(3-9) I st q1(10,11) by (simp add: idle_mm_def static_def flags_def)
  moreover have "completions tr3 = completions tr @ [r]" "taken tr3 + given_back tr = given_back tr3 + taken tr"
    using s(13-15) m(4-6) by (simp_all add: tr1w_def)
  ultimately show ?thesis using get3 s(6) q1(10) by auto
qed

text \<open>
  C4.  A synchronous request on an idle memory-mapped queue that is online, whose pieces fit into the
  free descriptors and whose entries' lengths add up to its count: when, during the wait, the
  queue's thread makes a pass, the device works off every descriptor and its completion is
  serviced, then \<open>qdma_request_submit\<close> returns the request's byte count; the queue is idle again, with every
  descriptor free; the request was finished once; and every page mapping that was made has been
  undone, once.
\<close>

theorem submit_transfers:
  assumes ok: "lib_ok devs lib" and get: "get_lib qid True lib = Some q" and idle: "idle_mm q"
    and dir: "rq_write req \<longleftrightarrow> \<not> qc_c2h (dq_conf q)" and sync: "\<not> rq_fp_done req" "\<not> rq_dma_mapped req"
    and sgs: "sgs = take (unat (rq_sgcnt req)) (rq_sgl req)" "unat (rq_sgcnt req) \<le> length (rq_sgl req)"
      "sum_list (map sg_len sgs) = rq_count req" "mm_chunks sgs \<noteq> []" "length (mm_chunks sgs) \<le> unat (dq_avail q)"
      "\<forall>sg \<in> set sgs. sg_pg sg \<noteq> 0"
    and map: "\<And>t p. \<exists>a. env_page_map E t p = Some a \<and> (\<forall>sg \<in> set sgs. a + ucast (sg_offset sg) \<noteq> 0)"
  shows "\<exists>lib' tr' q'. qdma_request_submit E (serve_once E qid) r req qid lib tr = Ok (uint (rq_count req), lib', tr')
    \<and> get_lib qid False lib' = Some q' \<and> idle_mm q' \<and> dq_avail q' = dq_avail q
    \<and> completions tr' = completions tr @ [r]
    \<and> taken tr' + given_back tr = given_back tr' + taken tr"
  by (rule submit_run [OF ok get idle dir sync sgs map])

definition sample_io_queue :: qdma_descq where
  "sample_io_queue = sample_mm_queue\<lparr>dq_enabled := True, dq_inited := True, dq_online := True, dq_pidx := 5,
     dq_avail := 7, dq_work_list := [], dq_wrkthp := Some 0, dq_wbthp := Some 0\<rparr>"

definition sample_io_lib :: qdma_lib where
  "sample_io_lib = sample_lib\<lparr>lb_xdev := (lb_xdev sample_lib)\<lparr>xd_qmax := 1, xd_num_vecs := 0\<rparr>,
     lb_dev := Some \<lparr>qd_init_qrange = True, qd_h2c_qcnt = 1, qd_c2h_qcnt = 0,
                     qd_qs = \<lparr>qv_h2c = [sample_io_queue], qv_c2h = [zero_descq]\<rparr>\<rparr>,
     lb_threads := (let t = \<lparr>kt_task = True, kt_work_cnt = 1, kt_work_list = [(xd_addr (lb_xdev sample_lib), 0)]\<rparr>
                    in \<lparr>th_wrk = [t], th_wb = [t]\<rparr>)\<rparr>"

definition sample_io_env :: env where
  "sample_io_env = plain_env\<lparr>env_page_map := (\<lambda>tr p. Some 0x1000)\<rparr>"

lemma sample_io_lib_ok: "lib_ok [lb_xdev sample_lib] sample_io_lib"
proof -
  have "queue_ok (lb_xdev sample_io_lib) (lb_threads sample_io_lib) (lb_intr_list sample_io_lib) 0 sample_io_queue"
    by (simp add: queue_ok_def sample_io_lib_def sample_io_queue_def sample_mm_queue_def on_thread_def
        typed_def conf_kind_def zero_queue_conf_def zero_descq_def Let_def)
  moreover have "queue_ok (lb_xdev sample_io_lib) (lb_threads sample_io_lib) (lb_intr_list sample_io_lib) 1 zero_descq"
    by (simp add: queue_ok_def sample_io_lib_def on_thread_def typed_def zero_descq_def Let_def)
  moreover have "queue_at (lb_xdev sample_io_lib) qd 0 = sample_io_queue"
    "queue_at (lb_xdev sample_io_lib) qd 1 = zero_descq" if "lb_dev sample_io_lib = Some qd" for qd
    using that by (auto simp: queue_at_def sample_io_lib_def)
  moreover have "threads_ok (lb_threads sample_io_lib)" "vecs_ok (lb_xdev sample_io_lib) (lb_intr_list sample_io_lib)"
    "\<not> hndl_bad [lb_xdev sample_lib] (lb_xdev sample_io_lib)"
    using sample_lib_hyps(5)
    by (simp_all add: threads_ok_def counts_ok_def vecs_ok_def sample_io_lib_def Let_def hndl_bad_def)
  ultimately show ?thesis
    by (simp add: lib_ok_def) (simp add: sample_io_lib_def less_2_cases_iff all_conj_distrib)
qed

theorem submit_transfers_witness:
  "\<exists>lib' tr' q'. qdma_request_submit sample_io_env (serve_once sample_io_env 0) 9
        (sample_request\<lparr>rq_fp_done := False, rq_write := True\<rparr>) 0 sample_io_lib [] = Ok (300, lib', tr')
    \<and> get_lib 0 False lib' = Some q' \<and> dq_avail q' = 7 \<and> completions tr' = [9] \<and> taken tr' = given_back tr'"
proof -
  let ?r = "sample_request\<lparr>rq_fp_done := False, rq_write := True\<rparr>"
  have get: "get_lib 0 True sample_io_lib = Some sample_io_queue"
    by (simp add: get_lib_def qdma_device_get_descq_by_id_def sample_io_lib_def queue_at_def sample_io_queue_def)
  have idle: "idle_mm sample_io_queue"
    by (simp add: idle_mm_def sample_io_queue_def sample_mm_queue_def zero_descq_def zero_queue_conf_def
        ring_inv_def ring_idx_delta_def)
  have sgs: "take (unat (rq_sgcnt ?r)) (rq_sgl ?r) = rq_sgl ?r" "length (rq_sgl ?r) = 2"
    by (simp_all add: sample_request_def)
  have ch: "mm_chunks (rq_sgl ?r) = [(0x1000, 100), (0x2000, 200)]"
    by (simp add: mm_chunks_def sample_request_def chunk_entry_small QDMA_DESC_BLEN_MAX_def)
  have av: "dq_avail sample_io_queue = 7" "\<not> qc_c2h (dq_conf sample_io_queue)"
    by (simp_all add: sample_io_queue_def sample_mm_queue_def zero_queue_conf_def)
  show ?thesis
    using submit_transfers [OF sample_io_lib_ok get idle, where req = ?r and sgs = "rq_sgl ?r" and E = sample_io_env
        and tr = "[]" and r = 9] sgs ch av
    by (auto simp: sample_request_def sample_io_env_def zero_request_def)
qed

section \<open>Completion parameters\<close>

lemma bit_cidx_small: "unat (c :: u32) < 2 ^ 16 \<Longrightarrow> 16 \<le> n \<Longrightarrow> \<not> bit c n"
  using bit_u32_small [of c 16 n] by auto

lemma ucast_field:
  assumes "\<And>n. n < LENGTH('a) \<Longrightarrow> bit (val :: u32) (s + n) = bit (x :: 'a :: len word) n" "LENGTH('a) \<le> 32"
  shows "ucast (drop_bit s val AND mask LENGTH('a)) = x"
proof (rule bit_word_eqI)
  fix n assume "n < LENGTH('a)"
  then show "bit (ucast (drop_bit s val AND mask LENGTH('a)) :: 'a word) n = bit x n"
    using assms by (auto simp: bit_ucast_iff bit_and_iff bit_drop_bit_eq bit_mask_iff dest: bit_imp_le_length)
qed

text \<open>What the register's fields read as after the parameters have been written.\<close>

lemma cmpl_ctrl_written:
  assumes "unat cidx < 2 ^ 16"
  shows "cmpl_ctrl_of (wrb_cidx_value (conf_cmpl_ctrl cc conf) cidx)
    = cc\<lparr>cc_timer_idx := cc_timer_idx cc OR cc_cnt_th_idx cc, cc_cnt_th_idx := 0\<rparr>"
proof -
  define val where "val = wrb_cidx_value (conf_cmpl_ctrl cc conf) cidx"
  have bits: "bit val n \<longleftrightarrow> bit cidx n \<or> n = 28 \<and> cc_cmpl_en_intr cc \<or> n = 27 \<and> cc_en_stat_desc cc
      \<or> (24 \<le> n \<and> n < 27 \<and> bit (cc_trigger_mode cc) (n - 24))
      \<or> (20 \<le> n \<and> n < 24 \<and> (bit (cc_timer_idx cc) (n - 20) \<or> bit (cc_cnt_th_idx cc) (n - 20)))" for n
    by (auto simp: val_def wrb_cidx_value_def conf_cmpl_ctrl_def bit_fields)
  have m: "(0xF :: u32) = mask LENGTH(4)" "(0x7 :: u32) = mask LENGTH(3)" by (simp_all add: mask_eq_decr_exp)
  have "ucast (drop_bit 16 val AND 0xF) = (0 :: 4 word)"
    unfolding m by (rule ucast_field) (use bit_cidx_small [OF assms] in \<open>auto simp: bits\<close>)
  moreover have "ucast (drop_bit 20 val AND 0xF) = cc_timer_idx cc OR cc_cnt_th_idx cc"
    unfolding m by (rule ucast_field) (use bit_cidx_small [OF assms] in \<open>auto simp: bits bit_or_iff\<close>)
  moreover have "ucast (drop_bit 24 val AND 0x7) = cc_trigger_mode cc"
    unfolding m by (rule ucast_field) (use bit_cidx_small [OF assms] in \<open>auto simp: bits\<close>)
  moreover have "bit val 27 = cc_en_stat_desc cc" "bit val 28 = cc_cmpl_en_intr cc"
    using bit_cidx_small [OF assms] by (simp_all add: bits)
  ultimately have "cmpl_ctrl_of val = cc\<lparr>cc_timer_idx := cc_timer_idx cc OR cc_cnt_th_idx cc, cc_cnt_th_idx := 0\<rparr>"
    by (simp add: cmpl_ctrl_of_def)
  then show ?thesis by (simp add: val_def)
qed

text \<open>
  On a device whose registers hold what was written, setting a queue's completion parameters and
  reading them back returns the trigger mode, the status and the interrupt flag that were set, but
  the timer index merged with the counter threshold index, and 0 for the threshold: both
  indices are written into the same four bits.  The wrong values are also taken over into the queue's
  configuration.
\<close>

theorem cmpl_ctrl_read_back:
  assumes "lib_ok devs lib" "get_lib qid True lib = Some q" "unat (dq_cidx_wrb_pend q) < 2 ^ 16"
    and "\<And>t. env_readl E t = last_written t"
  shows "case qdma_queue_cmpl_ctrl E qid cc True lib tr of (rv1, cc1, lib1, tr1) \<Rightarrow>
    case qdma_queue_cmpl_ctrl E qid cc0 False lib1 tr1 of (rv2, cc2, lib2, tr2) \<Rightarrow>
      rv1 = 0 \<and> rv2 = 0
      \<and> cc2 = cc\<lparr>cc_timer_idx := cc_timer_idx cc OR cc_cnt_th_idx cc, cc_cnt_th_idx := 0\<rparr>
      \<and> (\<exists>q'. get_lib qid True lib2 = Some q' \<and> qc_cmpl_timer_idx (dq_conf q') = cc_timer_idx cc OR cc_cnt_th_idx cc)"
proof -
  from assms(2) have en: "dq_enabled q" by (rule get_libD) simp
  define q1 where "q1 = q\<lparr>dq_conf := conf_cmpl_ctrl cc (dq_conf q)\<rparr>"
  define tr1 where "tr1 = descq_wrb_cidx_update PF q1 (dq_cidx_wrb_pend q1) tr"
  have s: "qdma_queue_cmpl_ctrl E qid cc True lib tr = (0, cc, put_lib qid q1 lib, tr1)"
    using assms(2) by (simp add: qdma_queue_cmpl_ctrl_def Let_def q1_def tr1_def)
  have get1: "get_lib qid True (put_lib qid q1 lib) = Some q1"
    using get_put_lib(2) [OF assms(1,2), of q1] en by (simp add: q1_def)
  have "read_reg E (wrb_cidx_reg q1) tr1
    = (wrb_cidx_value (conf_cmpl_ctrl cc (dq_conf q)) (dq_cidx_wrb_pend q), snd (read_reg E (wrb_cidx_reg q1) tr1))"
    by (simp add: read_reg_def assms(4) tr1_def descq_wrb_cidx_update_def write_reg_def wrb_cidx_reg_def Let_def q1_def)
  note rd = this [THEN arg_cong [where f = fst], simplified]
  define cc2 where "cc2 = cc\<lparr>cc_timer_idx := cc_timer_idx cc OR cc_cnt_th_idx cc, cc_cnt_th_idx := 0\<rparr>"
  define q2 where "q2 = q1\<lparr>dq_conf := conf_cmpl_ctrl cc2 (dq_conf q1)\<rparr>"
  have g: "qdma_queue_cmpl_ctrl E qid cc0 False (put_lib qid q1 lib) tr1
      = (0, cc2, put_lib qid q2 lib, snd (read_reg E (wrb_cidx_reg q1) tr1))"
    using get1 rd cmpl_ctrl_written [OF assms(3), of cc "dq_conf q"]
    by (simp add: qdma_queue_cmpl_ctrl_def Let_def split_beta q2_def cc2_def)
  have "get_lib qid True (put_lib qid q2 lib) = Some q2"
    using get_put_lib(2) [OF assms(1,2), of q2] en by (simp add: q2_def q1_def)
  then show ?thesis unfolding s prod.case g by (simp add: q2_def cc2_def conf_cmpl_ctrl_def)
qed

theorem cmpl_ctrl_read_back_witness:
  "case qdma_queue_cmpl_ctrl plain_env 0 \<lparr>cc_cnt_th_idx = 5, cc_timer_idx = 2, cc_trigger_mode = 1,
        cc_en_stat_desc = True, cc_cmpl_en_intr = False\<rparr> True sample_io_lib [] of (rv1, cc1, lib1, tr1) \<Rightarrow>
    case qdma_queue_cmpl_ctrl plain_env 0 cc1 False lib1 tr1 of (rv2, cc2, lib2, tr2) \<Rightarrow>
      rv2 = 0 \<and> cc_timer_idx cc2 = 7 \<and> cc_cnt_th_idx cc2 = 0"
proof -
  let ?cc = "\<lparr>cc_cnt_th_idx = 5, cc_timer_idx = 2, cc_trigger_mode = 1, cc_en_stat_desc = True, cc_cmpl_en_intr = False\<rparr>"
  have get: "get_lib 0 True sample_io_lib = Some sample_io_queue"
    by (simp add: get_lib_def qdma_device_get_descq_by_id_def sample_io_lib_def queue_at_def sample_io_queue_def)
  have "unat (dq_cidx_wrb_pend sample_io_queue) < 2 ^ 16" "env_readl plain_env t = last_written t" for t
    by (simp_all add: sample_io_queue_def sample_mm_queue_def zero_descq_def)
  then show ?thesis
    using cmpl_ctrl_read_back [OF sample_io_lib_ok get, where E = plain_env and cc = ?cc and tr = "[]"]
    by (auto simp: split_beta)
qed

section \<open>Waiting in vain\<close>

text \<open>
  A synchronous request whose wait ends before it is done is taken off the pending list, but
  not the descriptors posted for it: when the device has worked off these (and nothing else), their
  credits finish the requests behind it, in order, as far as they go, although none of
  the descriptors of those requests has been worked off.
\<close>

theorem timeout_credits_others:
  assumes "dq_pend_list q = r # rs" "distinct (r # rs)" "\<not> cb_done (dq_reqs q r)" "dq_credit q = 0"
    and "rs \<noteq> []" "cb_desc_nr (dq_reqs q (hd rs)) \<le> cb_desc_nr (dq_reqs q r)"
  shows "case qdma_request_wait_for_cmpl r q of (rv, q1) \<Rightarrow> rv = - EIO \<and> dq_pend_list q1 = rs
    \<and> (case req_update_pend (cb_desc_nr (dq_reqs q r)) q1 tr of (q2, tr2) \<Rightarrow>
        (\<exists>k > 0. completions tr2 = completions tr @ take k rs \<and> cb_done (dq_reqs q2 (hd rs))))"
proof -
  define q1 where "q1 = list_del_req r q"
  define c where "c = cb_desc_nr (dq_reqs q r)"
  have w: "qdma_request_wait_for_cmpl r q = (- EIO, q1)"
    using assms(3) by (simp add: qdma_request_wait_for_cmpl_def q1_def)
  have q1: "dq_pend_list q1 = rs" "dq_reqs q1 = dq_reqs q" "dq_credit q1 = 0"
    using assms(1,4) by (simp_all add: q1_def list_del_req_def)
  obtain k rest left where s: "spend_credit (unat c) (map (pend_nr q1) rs) = (k, rest, left)" by (metis prod_cases3)
  obtain r2 rs2 where rs: "rs = r2 # rs2" using assms(5) by (cases rs) auto
  have "pend_nr q1 r2 \<le> unat c"
    using assms(6) by (simp add: rs pend_nr_def q1(2) c_def word_le_nat_alt)
  then have k: "0 < k" using s by (auto simp: rs split: if_splits prod.splits)
  obtain q' tr' credit' where u: "update_pend_loop rs c q1 tr = (credit', q', tr')"
    "\<forall>r \<in> set (take k rs). cb_done (dq_reqs q' r)" "completions tr' = completions tr @ take k rs"
    using update_pend_loop_spends [OF q1(1) _ s, of tr] assms(2) by auto
  have "cb_done (dq_reqs q' (hd rs))" using u(2) k by (cases k) (simp_all add: rs)
  then have "\<exists>k > 0. completions tr' = completions tr @ take k rs \<and> cb_done (dq_reqs q' (hd rs))"
    using u(3) k by blast
  then show ?thesis
    unfolding w prod.case c_def [symmetric] req_update_pend_def q1 by (simp add: u(1) q1)
qed

theorem timeout_credits_others_witness:
  "case qdma_request_wait_for_cmpl 1 (sample_mm_queue\<lparr>dq_pend_list := [1, 2],
      dq_reqs := (\<lambda>r. sample_request\<lparr>cb_desc_nr := 3, cb_offset := 300\<rparr>)\<rparr>) of (rv, q1) \<Rightarrow>
    rv = - EIO \<and> (case req_update_pend 3 q1 [] of (q2, tr2) \<Rightarrow> cb_done (dq_reqs q2 2))"
proof -
  let ?q = "sample_mm_queue\<lparr>dq_pend_list := [1, 2],
      dq_reqs := (\<lambda>r. sample_request\<lparr>cb_desc_nr := 3, cb_offset := 300\<rparr>)\<rparr>"
  show ?thesis
    using timeout_credits_others [of ?q 1 "[2]" "[]"]
    by (simp add: sample_mm_queue_def zero_descq_def sample_request_def zero_request_def split_beta) blast
qed

section \<open>Ends that go wrong\<close>

text \<open>
  \<open>qdma_queue_packet_read\<close> leaves \<open>cb->left\<close> at 0 before it reads: what it returns is the count asked
  for plus, not minus what is missing; with no data at all it is the whole count.
\<close>

lemma packet_read_overcounts:
  assumes "get_lib qid True lib = Some q" "qc_st (dq_conf q)" "qc_c2h (dq_conf q)"
    and "descq_st_c2h_read PF E r True True (upd_req r (\<lambda>_. zero_cb req) q) tr = (n, q', tr')" "n \<ge> 0"
    and "ring_idx_delta (dq_pidx q) (fl_pidx_pend (dq_flq q)) (fl_size (dq_flq q)) \<noteq> 0"
  shows "\<exists>lib'. qdma_queue_packet_read E r req qid lib tr = (sint (rq_count req + word_of_int n), lib', tr')"
proof -
  define p where "p = upd_req r (\<lambda>_. zero_cb req) q"
  have p: "dq_reqs p r = zero_cb req" "dq_pidx p = dq_pidx q" "dq_flq p = dq_flq q"
    by (simp_all add: p_def upd_req_def)
  obtain i fsg wp s where l: "read_loop (dq_flq p) (qc_rngsz (dq_conf p))
      (ring_idx_delta (dq_pidx p) (fl_pidx_pend (dq_flq p)) (fl_size (dq_flq p))) 0
      (unat (fl_pidx_pend (dq_flq p))) (fl_pidx_pend (dq_flq p)) (dq_cidx_wrb_pend p) (read_init (dq_reqs p r) tr)
      = (i, fsg, wp, s)" by (metis prod_cases4)
  have "n = sint (cr_copied s)" "dq_reqs q' r = (dq_reqs p r)\<lparr>cb_sg_idx := cr_j s, cb_sg_offset := cr_tsgoff s,
      cb_left := cb_left (dq_reqs p r) - cr_copied s\<rparr>"
    using st_c2h_read_effect(1,3) [OF _ _ l assms(4) [folded p_def]] assms(6) by (simp_all add: p zero_cb_def)
  then have "rq_count (dq_reqs q' r) - cb_left (dq_reqs q' r) = rq_count req + word_of_int n"
    by (simp add: p zero_cb_def)
  then show ?thesis
    using assms(1-4) by (simp add: qdma_queue_packet_read_def Let_def)
qed

lemma packet_read_no_data:
  assumes "get_lib qid True lib = Some q" "qc_st (dq_conf q)" "qc_c2h (dq_conf q)"
    and "ring_idx_delta (dq_pidx q) (fl_pidx_pend (dq_flq q)) (fl_size (dq_flq q)) = 0"
  shows "\<exists>lib'. qdma_queue_packet_read E r req qid lib tr = (sint (rq_count req), lib', tr)"
  using assms by (simp add: qdma_queue_packet_read_def descq_st_c2h_read_def Let_def upd_req_def zero_cb_def)

text \<open>
  When an entry's mapping fails, its address becomes the one that stands for the failure, and unmapping
  hands that to the kernel; \<open>qdma_queue_packet_write\<close> undoes none of the mappings before it.
\<close>

lemma map_failure_unmapped:
  assumes "env_page_map E tr (sg_pg sg) = None" "sg_pg sg \<noteq> 0" "env_map_error E \<noteq> 0"
  shows "case sgl_map_loop E (sg # sgs) tr of (rv, sgs', tr1) \<Rightarrow> rv = - EIO
    \<and> (case sgl_unmap_loop sgs' tr1 of (sgs2, tr2) \<Rightarrow>
         PageUnmap (env_map_error E - ucast (sg_offset sg)) \<in> set tr2)"
proof -
  have mem: "e \<in> set t \<Longrightarrow> e \<in> set (snd (sgl_unmap_loop l t))" for e l t
    by (induction l t rule: sgl_unmap_loop.induct) (auto simp: split_beta Let_def)
  then show ?thesis using assms by (simp add: split_beta Let_def mem)
qed

lemma packet_write_leaks:
  assumes "get_lib qid True lib = Some q" "qc_st (dq_conf q)" "\<not> qc_c2h (dq_conf q)" "\<not> rq_dma_mapped req"
    and "sgl_map_loop E (take (unat (rq_sgcnt req)) (rq_sgl req)) tr = (rv, sgs, tr')" "rv < 0"
  shows "\<exists>lib'. qdma_queue_packet_write E r req qid lib tr = Ok (rv, lib', tr')"
  using assms
  by (simp add: qdma_queue_packet_write_def map_for_submit_def sgl_map_def zero_cb_def Let_def)

text \<open>Dumping an interrupt ring stays inside it unless the first index is below \<open>-1\<close>.\<close>

lemma intr_ring_dump_bounds:
  assumes "- 1 \<le> start_idx"
  shows "\<exists>rv es. qdma_intr_ring_dump xdev v start_idx end_idx = Ok (rv, es) \<and>
    (\<forall>(i, e) \<in> set es. 0 \<le> i \<and> i < uint (ic_num_entries (xd_intr_coal_list xdev ! (unat v - xd_dvec_start_idx xdev))))"
  using assms by (auto simp: qdma_intr_ring_dump_def Let_def)

lemma intr_ring_dump_below:
  assumes "start_idx < - 1" "start_idx \<le> end_idx" "xd_intr_coal_en xdev" "xd_dvec_start_idx xdev = unat v"
    and "end_idx < uint (ic_num_entries (hd (xd_intr_coal_list xdev)))" "xd_intr_coal_list xdev \<noteq> []" "end_idx \<noteq> - 1"
  shows "qdma_intr_ring_dump xdev v start_idx end_idx = Bad"
  using assms uint_ge_0 [of "ic_num_entries (hd (xd_intr_coal_list xdev))"]
  by (simp add: qdma_intr_ring_dump_def Let_def QDMA_DATA_VEC_PER_PF_MAX_def hd_conv_nth)

end
