(* ===== verification/Qdma_Cdev.thy ===== *)
theory Qdma_Cdev
  imports Qdma_Io
begin

unbundle bit_operations_syntax

text \<open>
  Reading and writing a queue through its character device (\<open>drv/cdev.c\<close>): the user's buffer is
  pinned page by page and becomes the scatter list of a request, which is submitted to the library; the
  pages are given back afterwards.  \<open>Qdma_Xpdev\<close> has the character devices themselves.
\<close>

section \<open>A character device\<close>

text \<open>
  \<open>struct qdma_cdev\<close>.  \<open>sys_device\<close> and \<open>aio_wq\<close> say whether there are ones; \<open>fp_rw\<close> is
  \<open>qdma_request_submit\<close> or null.  \<open>fp_open_extra\<close> and its like are null and never set.
\<close>

record qdma_cdev =
  cd_minor :: int
  cd_c2h_qhndl :: nat
  cd_h2c_qhndl :: nat
  cd_dir_init :: u16
  cd_sys_device :: bool
  cd_aio_wq :: bool
  cd_fp_rw :: bool

section \<open>The user's buffer\<close>

text \<open>
  What happens to memory and pages, oldest first.  \<open>struct qdma_io_cb\<close>: a null pointer is \<open>None\<close>; an entry of
  the page array is \<open>None\<close> until it is written.
\<close>

datatype buf_event = TakeSgl | GiveSgl | TakePages | GivePages | PinPage nat | DirtyPage nat | PutPage nat

record qdma_io_cb =
  io_buf :: u64
  io_len :: u64
  io_pages_nr :: u32
  io_sgl :: "qdma_sw_sg list option"
  io_pages :: "nat option list option"

text \<open>
  The kernel's answers: is there memory for the scatter list and the page array; \<open>get_user_pages_fast\<close> at an address for a
  number of pages, with the pages it pinned.
\<close>

record buf_env =
  be_sgl :: bool
  be_pages :: bool
  be_pin :: "u64 \<Rightarrow> u32 \<Rightarrow> int \<times> nat list"

definition PAGE_MASK :: u64 where "PAGE_MASK = NOT 0xFFF"

definition give_sgl :: "qdma_io_cb \<Rightarrow> buf_event list \<Rightarrow> qdma_io_cb \<times> buf_event list" where
  "give_sgl iocb log =
     (if io_sgl iocb = None then (iocb, log) else (iocb\<lparr>io_sgl := None\<rparr>, log @ [GiveSgl]))"

definition iocb_release :: "qdma_io_cb \<Rightarrow> buf_event list \<Rightarrow> qdma_io_cb \<times> buf_event list" where
  "iocb_release iocb log =
     (let (iocb, log) = give_sgl iocb log
      in if io_pages iocb = None then (iocb\<lparr>io_buf := 0\<rparr>, log)
         else (iocb\<lparr>io_pages := None, io_buf := 0\<rparr>, log @ [GivePages]))"

text \<open>The loop of \<open>unmap_user_buf\<close> over the page array: it stops at a null entry.\<close>

fun put_pages :: "bool \<Rightarrow> nat \<Rightarrow> nat option list \<Rightarrow> buf_event list \<Rightarrow> buf_event list outcome" where
  "put_pages wr 0 ps log = Ok log"
| "put_pages wr (Suc n) [] log = Bad"
| "put_pages wr (Suc n) (None # ps) log = Bad"
| "put_pages wr (Suc n) (Some p # ps) log =
     (if p = 0 then Ok log
      else put_pages wr n ps (log @ (if wr then [] else [DirtyPage p]) @ [PutPage p]))"

definition unmap_user_buf :: "qdma_io_cb \<Rightarrow> bool \<Rightarrow> buf_event list \<Rightarrow> (qdma_io_cb \<times> buf_event list) outcome" where
  "unmap_user_buf iocb wr log =
     (let (iocb, log) = give_sgl iocb log
      in case io_pages iocb of
           None \<Rightarrow> Ok (iocb, log)
         | Some ps \<Rightarrow>
             if io_pages_nr iocb = 0 then Ok (iocb, log)
             else (case put_pages wr (unat (io_pages_nr iocb)) ps log of
                 Bad \<Rightarrow> Bad | Ok log \<Rightarrow> Ok (iocb\<lparr>io_pages_nr := 0\<rparr>, log)))"

text \<open>The number of pages of a buffer, and its pieces, one for each page.\<close>

definition pages_of :: "u64 \<Rightarrow> u64 \<Rightarrow> u32" where
  "pages_of buf len =
     (if len = 0 then 1 else ucast (drop_bit 12 ((buf + len + 0x1000 - 1) - (buf AND PAGE_MASK))))"

fun sg_pieces :: "u64 \<Rightarrow> u64 \<Rightarrow> nat list \<Rightarrow> qdma_sw_sg list" where
  "sg_pieces buf len [] = []"
| "sg_pieces buf len (pg # pgs) =
     (let offset = ucast (buf AND 0xFFF) :: u32;
          nbytes = min (0x1000 - offset) (ucast len)
      in \<lparr>sg_pg = pg, sg_offset = offset, sg_len = nbytes, sg_dma_addr = 0\<rparr>
         # sg_pieces (buf + ucast nbytes) (len - ucast nbytes) pgs)"

fun has_duplicate :: "nat list \<Rightarrow> bool" where
  "has_duplicate (p # q # ps) \<longleftrightarrow> p = q \<or> has_duplicate (q # ps)"
| "has_duplicate ps \<longleftrightarrow> False"

text \<open>The label \<open>err_out\<close>.\<close>

definition map_err_out ::
  "int \<Rightarrow> qdma_io_cb \<Rightarrow> bool \<Rightarrow> buf_event list \<Rightarrow> (int \<times> qdma_io_cb \<times> buf_event list) outcome" where
  "map_err_out rv iocb wr log =
     (case unmap_user_buf iocb wr log of Bad \<Rightarrow> Bad | Ok (iocb, log) \<Rightarrow> Ok (rv, iocb, log))"

text \<open>
  \<open>map_user_buf_to_sgl\<close>.  When fewer pages are pinned than asked for, \<open>pages_nr\<close> becomes the
  error code, as an unsigned number.
\<close>

definition map_user_buf_to_sgl ::
  "buf_env \<Rightarrow> qdma_io_cb \<Rightarrow> bool \<Rightarrow> buf_event list \<Rightarrow> (int \<times> qdma_io_cb \<times> buf_event list) outcome" where
  "map_user_buf_to_sgl B iocb wr log =
     (let n = pages_of (io_buf iocb) (io_len iocb)
      in if n = 0 then Ok (- EINVAL, iocb, log)
      else if \<not> be_sgl B then Ok (- ENOMEM, iocb, log)
      else
        let iocb = iocb\<lparr>io_sgl := Some (replicate (unat n) \<lparr>sg_pg = 0, sg_offset = 0, sg_len = 0, sg_dma_addr = 0\<rparr>)\<rparr>;
            log = log @ [TakeSgl]
        in if \<not> be_pages B then map_err_out (- ENOMEM) (iocb\<lparr>io_pages := None\<rparr>) wr log
        else
          let log = log @ [TakePages];
              (rv, pgs) = be_pin B (io_buf iocb) n;
              log = log @ map PinPage pgs;
              iocb = iocb\<lparr>io_pages := Some (map Some pgs @ replicate (unat n - length pgs) None)\<rparr>
          in if rv < 0 then map_err_out rv iocb wr log
          else if rv \<noteq> uint n
            then map_err_out (- EFAULT) (iocb\<lparr>io_pages_nr := word_of_int (- EFAULT)\<rparr>) wr log
          else if has_duplicate pgs then map_err_out (- EFAULT) (iocb\<lparr>io_pages_nr := n\<rparr>) wr log
          else Ok (0, iocb\<lparr>io_sgl := Some (sg_pieces (io_buf iocb) (io_len iocb) pgs), io_pages_nr := n\<rparr>, log))"

section \<open>Reading, writing, seeking\<close>

text \<open>
  \<open>cdev_gen_read_write\<close>.  The device of the file is \<open>xcdev\<close>; its handle is taken before the pointer is
  looked at.  \<open>busy\<close> says that the lock of the direction is held; \<open>r\<close> is the address of the request.
\<close>

definition rw_request :: "qdma_io_cb \<Rightarrow> u64 \<Rightarrow> u64 \<Rightarrow> bool \<Rightarrow> qdma_request" where
  "rw_request iocb cnt pos wr =
     zero_request\<lparr>rq_sgcnt := ucast (io_pages_nr iocb), rq_sgl := (case io_sgl iocb of None \<Rightarrow> [] | Some sgl \<Rightarrow> sgl),
       rq_write := wr, rq_dma_mapped := False, rq_udd_len := 0, rq_ep_addr := pos, rq_count := ucast cnt,
       rq_timeout_ms := 10000, rq_fp_done := False\<rparr>"

definition new_iocb :: "u64 \<Rightarrow> u64 \<Rightarrow> qdma_io_cb" where
  "new_iocb buf len = \<lparr>io_buf = buf, io_len = len, io_pages_nr = 0, io_sgl = None, io_pages = None\<rparr>"

definition cdev_gen_read_write ::
  "env \<Rightarrow> waiter \<Rightarrow> buf_env \<Rightarrow> qdma_cdev option \<Rightarrow> bool \<Rightarrow> nat \<Rightarrow> u64 \<Rightarrow> u64 \<Rightarrow> u64 \<Rightarrow> bool \<Rightarrow> qdma_lib \<Rightarrow> trace
     \<Rightarrow> buf_event list \<Rightarrow> (int \<times> qdma_lib \<times> trace \<times> buf_event list) outcome" where
  "cdev_gen_read_write E others B xcdev busy r buf cnt pos wr lib tr log =
     (case xcdev of None \<Rightarrow> Bad
      | Some xcdev \<Rightarrow>
          let qhndl = (if wr then cd_h2c_qhndl xcdev else cd_c2h_qhndl xcdev)
          in if \<not> cd_fp_rw xcdev then Ok (- EINVAL, lib, tr, log)
          else if busy then Ok (- EINVAL, lib, tr, log)
          else
            (case map_user_buf_to_sgl B (new_iocb buf cnt) wr log of
               Bad \<Rightarrow> Bad
             | Ok (rv, iocb, log) \<Rightarrow>
                 if rv < 0 then Ok (rv, lib, tr, log)
                 else
                   (case qdma_request_submit E others r (rw_request iocb cnt pos wr) qhndl lib tr of
                      Bad \<Rightarrow> Bad
                    | Ok (res, lib, tr) \<Rightarrow>
                        (case unmap_user_buf iocb wr log of
                           Bad \<Rightarrow> Bad
                         | Ok (iocb, log) \<Rightarrow>
                             let (iocb, log) = iocb_release iocb log in Ok (res, lib, tr, log)))))"

text \<open>\<open>cdev_gen_llseek\<close>, at the position \<open>fpos\<close>.  \<open>UINT_MAX\<close> has 32 bits.\<close>

definition cdev_gen_llseek :: "u64 \<Rightarrow> u64 \<Rightarrow> nat \<Rightarrow> int \<times> u64" where
  "cdev_gen_llseek fpos off whence =
     (if 2 < whence then (- EINVAL, fpos)
      else
        let newpos = (if whence = 0 then off else if whence = 1 then fpos + off else 0xFFFFFFFF + off)
        in if sint newpos < 0 then (- EINVAL, fpos) else (sint newpos, newpos))"

section \<open>The pieces are the buffer\<close>

text \<open>The pages that \<open>l\<close> bytes at \<open>b\<close> touch.\<close>

definition pages_needed :: "nat \<Rightarrow> nat \<Rightarrow> nat" where
  "pages_needed b l = (if l = 0 then 0 else (b mod 4096 + l + 4095) div 4096)"

lemma unat_low_bits: "unat (buf AND 0xFFF :: u64) = unat buf mod 4096"
proof -
  have e: "buf AND 0xFFF = take_bit 12 buf" by (simp only: take_bit_eq_mask mask_eq_exp_minus_1) simp
  show ?thesis unfolding e unsigned_take_bit_eq by (simp add: take_bit_eq_mod)
qed

lemma unat_page_offset: "unat (ucast (buf AND 0xFFF :: u64) :: u32) = unat buf mod 4096"
proof -
  have "unat buf mod 4096 < 2 ^ 32" by (rule less_trans [of _ 4096]) simp_all
  then show ?thesis by (simp only: unsigned_ucast_eq unsigned_take_bit_eq unat_low_bits take_bit_eq_mod) simp
qed

lemma page_base: "unat (buf - (buf AND PAGE_MASK)) = unat buf mod 4096"
proof -
  have "buf - (buf AND PAGE_MASK) = buf AND NOT (buf AND PAGE_MASK)"
    by (rule disjunctive_diff) (simp add: bit_and_iff)
  also have "\<dots> = buf AND 0xFFF"
    by (rule bit_eqI) (auto simp only: PAGE_MASK_def bit_and_iff bit_not_iff)
  finally show ?thesis by (simp only: unat_low_bits)
qed

lemma pages_of_eq:
  assumes "unat len < 2 ^ 32" "len \<noteq> 0"
  shows "unat (pages_of buf len) = pages_needed (unat buf) (unat len)"
proof -
  let ?o = "unat buf mod 4096"
  have o: "?o < 4096" by simp
  have e: "(buf + len + 0x1000 - 1) - (buf AND PAGE_MASK) = (buf - (buf AND PAGE_MASK)) + (len + 0xFFF)"
    by (simp add: algebra_simps)
  have "unat (len + 0xFFF) = unat len + 4095"
    using assms(1) by (subst unat_add_lem [THEN iffD1]) simp_all
  then have "unat ((buf - (buf AND PAGE_MASK)) + (len + 0xFFF)) = ?o + (unat len + 4095)"
    using assms(1) o by (subst unat_add_lem [THEN iffD1]) (simp_all add: page_base)
  then have s: "unat ((buf + len + 0x1000 - 1) - (buf AND PAGE_MASK)) = ?o + (unat len + 4095)" by (simp only: e)
  have "(?o + (unat len + 4095)) div 4096 < 2 ^ 32" using o assms(1) by simp
  then show ?thesis
    using assms(2) unfolding pages_of_def pages_needed_def if_not_P [OF assms(2)] unsigned_ucast_eq unsigned_take_bit_eq
      unat_drop_bit_eq s
    by (simp add: unat_eq_zero add.assoc drop_bit_eq_div take_bit_eq_mod)
qed

text \<open>
  The user's memory is \<open>mem\<close>, byte by byte; \<open>holds\<close> says that the pages are those of the memory from
  an address on.
\<close>

definition piece_bytes :: "(nat \<Rightarrow> nat \<Rightarrow> 'b) \<Rightarrow> qdma_sw_sg \<Rightarrow> 'b list" where
  "piece_bytes pg_mem sg = map (pg_mem (sg_pg sg)) [unat (sg_offset sg)..<unat (sg_offset sg) + unat (sg_len sg)]"

definition holds :: "(nat \<Rightarrow> nat \<Rightarrow> 'b) \<Rightarrow> (nat \<Rightarrow> 'b) \<Rightarrow> nat \<Rightarrow> nat list \<Rightarrow> bool" where
  "holds pg_mem mem b pgs \<longleftrightarrow>
     (\<forall>i < length pgs. \<forall>o' < 4096. pg_mem (pgs ! i) o' = mem ((b div 4096 + i) * 4096 + o'))"

definition sg_total :: "qdma_sw_sg list \<Rightarrow> nat" where
  "sg_total sgs = sum_list (map (\<lambda>sg. unat (sg_len sg)) sgs)"

lemma sg_total_simps [simp]: "sg_total [] = 0" "sg_total (sg # sgs) = unat (sg_len sg) + sg_total sgs"
  by (simp_all add: sg_total_def)

lemma pages_needed_rest:
  assumes "0 < l" "n = min (4096 - b mod 4096) l"
  shows "pages_needed b l = Suc (pages_needed (b + n) (l - n))" "n < l \<Longrightarrow> (b + n) div 4096 = Suc (b div 4096)"
    "0 < n" "n \<le> l" "b mod 4096 + n \<le> 4096"
proof -
  have o: "b mod 4096 < 4096" by simp
  show "0 < n" "n \<le> l" "b mod 4096 + n \<le> 4096" using assms o by auto
  have next_page: "(b + n) mod 4096 = 0 \<and> (b + n) div 4096 = Suc (b div 4096)" if "n < l"
  proof -
    have n: "n = 4096 - b mod 4096" using that assms(2) by simp
    have "b + n = b div 4096 * 4096 + 4096" using div_mult_mod_eq [of b 4096] o n by linarith
    then have "b + n = Suc (b div 4096) * 4096" by simp
    then show ?thesis by simp
  qed
  then show "n < l \<Longrightarrow> (b + n) div 4096 = Suc (b div 4096)" by simp
  show "pages_needed b l = Suc (pages_needed (b + n) (l - n))"
  proof (cases "n < l")
    case True
    then have n: "n = 4096 - b mod 4096" using assms(2) by simp
    have "b mod 4096 + l + 4095 = (l - n + 4095) + 4096" using True n o by simp
    then have "(b mod 4096 + l + 4095) div 4096 = Suc ((l - n + 4095) div 4096)" by simp
    then show ?thesis using True next_page [OF True] assms(1) by (simp add: pages_needed_def)
  next
    case False
    then have "n = l" "b mod 4096 + l \<le> 4096" using assms(2) o by auto
    then have "(b mod 4096 + l + 4095) div 4096 = 1" using assms(1) by (intro div_nat_eqI) simp_all
    then show ?thesis using assms(1) \<open>n = l\<close> by (simp add: pages_needed_def)
  qed
qed

lemma piece_len:
  assumes "unat (len :: u64) < 2 ^ 32"
  shows "unat (min (0x1000 - ucast (buf AND 0xFFF :: u64)) (ucast len) :: u32) = min (4096 - unat buf mod 4096) (unat len)"
proof -
  have "unat (ucast len :: u32) = unat len"
    using assms by (simp add: unsigned_ucast_eq unsigned_take_bit_eq take_bit_nat_eq_self)
  moreover have "ucast (buf AND 0xFFF :: u64) \<le> (0x1000 :: u32)"
    by (simp only: word_le_nat_alt unat_page_offset) (rule less_imp_le, simp)
  then have "unat (0x1000 - ucast (buf AND 0xFFF :: u64) :: u32) = 4096 - unat buf mod 4096"
    by (simp only: unat_sub unat_page_offset) simp
  ultimately show ?thesis by (simp add: min_def word_le_nat_alt)
qed

lemma sg_pieces_ok:
  assumes "length pgs = pages_needed (unat buf) (unat len)" "unat buf + unat len < 2 ^ 64" "unat len < 2 ^ 32"
  shows "map sg_pg (sg_pieces buf len pgs) = pgs \<and> (\<forall>sg \<in> set (sg_pieces buf len pgs).
      sg_len sg \<noteq> 0 \<and> unat (sg_offset sg) + unat (sg_len sg) \<le> 4096 \<and> sg_dma_addr sg = 0)
    \<and> sg_total (sg_pieces buf len pgs) = unat len
    \<and> (holds pg_mem mem (unat buf) pgs \<longrightarrow>
        concat (map (piece_bytes pg_mem) (sg_pieces buf len pgs)) = map mem [unat buf..<unat buf + unat len])"
  using assms
proof (induction buf len pgs rule: sg_pieces.induct)
  case (1 buf len)
  then have "unat len = 0" by (auto simp: pages_needed_def split: if_splits)
  then show ?case by simp
next
  case (2 buf len pg pgs)
  let ?b = "unat buf" and ?l = "unat len"
  define offset where "offset = (ucast (buf AND 0xFFF) :: u32)"
  define nbytes where "nbytes = min (0x1000 - offset) (ucast len)"
  have l: "0 < ?l" using "2.prems"(1) by (cases "?l = 0") (simp_all add: pages_needed_def)
  have o: "unat offset = ?b mod 4096" by (simp add: offset_def unat_page_offset)
  have n: "unat nbytes = min (4096 - ?b mod 4096) ?l"
    using piece_len [OF "2.prems"(3), of buf] by (simp add: nbytes_def offset_def)
  note rest = pages_needed_rest [OF l n]
  have "unat nbytes < 2 ^ 64" using unsigned_less [of nbytes, where 'a = nat] by simp
  then have un: "unat (ucast nbytes :: u64) = unat nbytes"
    by (simp add: unsigned_ucast_eq take_bit_nat_eq_self)
  have b': "unat (buf + ucast nbytes) = ?b + unat nbytes"
    using "2.prems"(2) rest(4) by (subst unat_add_lem [THEN iffD1]) (simp_all add: un)
  have l': "unat (len - ucast nbytes) = ?l - unat nbytes"
    using rest(4) by (simp add: unat_sub word_le_nat_alt un)
  let ?sgs = "sg_pieces (buf + ucast nbytes) (len - ucast nbytes) pgs"
  have sgs: "sg_pieces buf len (pg # pgs) = \<lparr>sg_pg = pg, sg_offset = offset, sg_len = nbytes, sg_dma_addr = 0\<rparr> # ?sgs"
    by (simp add: Let_def offset_def nbytes_def)
  have "length pgs = pages_needed (unat (buf + ucast nbytes)) (unat (len - ucast nbytes))"
    using "2.prems"(1) rest(1) by (simp add: b' l')
  moreover have "unat (buf + ucast nbytes) + unat (len - ucast nbytes) < 2 ^ 64" "unat (len - ucast nbytes) < 2 ^ 32"
    using "2.prems"(2,3) rest(4) by (simp_all add: b' l')
  ultimately have IH: "map sg_pg ?sgs = pgs" "\<forall>sg \<in> set ?sgs. sg_len sg \<noteq> 0 \<and> unat (sg_offset sg) + unat (sg_len sg) \<le> 4096
      \<and> sg_dma_addr sg = 0"
    "sg_total ?sgs = ?l - unat nbytes"
    "holds pg_mem mem (?b + unat nbytes) pgs \<Longrightarrow>
      concat (map (piece_bytes pg_mem) ?sgs) = map mem [?b + unat nbytes..<?b + ?l]"
    using "2.IH" [OF offset_def nbytes_def] rest(4) by (simp_all add: b' l')
  have first: "piece_bytes pg_mem \<lparr>sg_pg = pg, sg_offset = offset, sg_len = nbytes, sg_dma_addr = 0\<rparr>
      = map mem [?b..<?b + unat nbytes]" if h: "holds pg_mem mem ?b (pg # pgs)"
  proof (rule nth_equalityI)
    fix i assume "i < length (piece_bytes pg_mem \<lparr>sg_pg = pg, sg_offset = offset, sg_len = nbytes, sg_dma_addr = 0\<rparr>)"
    then have i: "i < unat nbytes" by (simp add: piece_bytes_def)
    then have "?b mod 4096 + i < 4096" using rest(5) by simp
    then have "pg_mem pg (?b mod 4096 + i) = mem (?b div 4096 * 4096 + (?b mod 4096 + i))"
      using h unfolding holds_def by force
    also have "?b div 4096 * 4096 + (?b mod 4096 + i) = ?b + i" using div_mult_mod_eq [of ?b 4096] by simp
    finally show "piece_bytes pg_mem \<lparr>sg_pg = pg, sg_offset = offset, sg_len = nbytes, sg_dma_addr = 0\<rparr> ! i
        = map mem [?b..<?b + unat nbytes] ! i"
      using i by (simp add: piece_bytes_def o)
  qed (simp add: piece_bytes_def)
  have tail: "holds pg_mem mem (?b + unat nbytes) pgs" if h: "holds pg_mem mem ?b (pg # pgs)"
  proof (cases "unat nbytes < ?l")
    case True
    show ?thesis
      unfolding holds_def rest(2) [OF True]
    proof (intro allI impI)
      fix i o' :: nat
      assume "i < length pgs" "o' < 4096"
      then have "pg_mem ((pg # pgs) ! Suc i) o' = mem ((?b div 4096 + Suc i) * 4096 + o')"
        using h unfolding holds_def by (metis Suc_less_eq length_Cons)
      then show "pg_mem (pgs ! i) o' = mem ((Suc (?b div 4096) + i) * 4096 + o')" by simp
    qed
  next
    case False
    then have "pgs = []" using "2.prems"(1) rest(1) by (simp add: pages_needed_def)
    then show ?thesis by (simp add: holds_def)
  qed
  have "[?b..<?b + ?l] = [?b..<?b + unat nbytes] @ [?b + unat nbytes..<?b + ?l]"
    using rest(4) upt_add_eq_append [of ?b "?b + unat nbytes" "?l - unat nbytes"] by simp
  then show ?case
    unfolding sgs using IH first tail rest(3,4,5) by (auto simp: o unat_gt_0)
qed

text \<open>What the documentation of \<open>get_user_pages_fast\<close> promises.\<close>

definition pin_ok :: "buf_env \<Rightarrow> bool" where
  "pin_ok B \<longleftrightarrow> (\<forall>a n. let (rv, pgs) = be_pin B a n
     in rv \<le> uint n \<and> length pgs = nat rv \<and> 0 \<notin> set pgs)"

lemma pin_okD:
  assumes "pin_ok B" "be_pin B a n = (rv, pgs)"
  shows "rv \<le> uint n" "length pgs = nat rv" "0 \<notin> set pgs"
proof -
  have "let (rv, pgs) = be_pin B a n in rv \<le> uint n \<and> length pgs = nat rv \<and> 0 \<notin> set pgs"
    using assms(1) unfolding pin_ok_def by blast
  then show "rv \<le> uint n" "length pgs = nat rv" "0 \<notin> set pgs" by (simp_all add: assms(2))
qed

definition give_page :: "bool \<Rightarrow> nat \<Rightarrow> buf_event list" where
  "give_page wr p = (if wr then [] else [DirtyPage p]) @ [PutPage p]"

lemma put_pages_all:
  "0 \<notin> set pgs \<Longrightarrow> put_pages wr (length pgs) (map Some pgs) log = Ok (log @ concat (map (give_page wr) pgs))"
  by (induction pgs arbitrary: log) (auto simp: give_page_def)

text \<open>The outcomes of pinning that leave the page array whole.\<close>

definition pinned_whole :: "buf_env \<Rightarrow> u64 \<Rightarrow> u64 \<Rightarrow> bool" where
  "pinned_whole B buf len \<longleftrightarrow>
     (let rv = fst (be_pin B buf (pages_of buf len)) in rv < 0 \<or> rv = uint (pages_of buf len))"

lemma unmap_mapped:
  assumes "0 \<notin> set pgs" "unat n = length pgs" "pgs \<noteq> []"
  shows "unmap_user_buf \<lparr>io_buf = b, io_len = l, io_pages_nr = n, io_sgl = Some sgl, io_pages = Some (map Some pgs)\<rparr> wr log
    = Ok (\<lparr>io_buf = b, io_len = l, io_pages_nr = 0, io_sgl = None, io_pages = Some (map Some pgs)\<rparr>,
        log @ GiveSgl # concat (map (give_page wr) pgs))"
proof -
  have "n \<noteq> 0" using assms(2,3) by auto
  then show ?thesis
    by (simp add: unmap_user_buf_def give_sgl_def assms(2) put_pages_all [OF assms(1)])
qed

text \<open>The buffer is mapped, or the memory is refused, or the pages are, or two neighbours are the same page.\<close>

lemma map_user_buf_cases:
  assumes pin: "pin_ok B" and whole: "pinned_whole B buf len"
    and rv: "be_pin B buf (pages_of buf len) = (rv, pgs)"
  shows "map_user_buf_to_sgl B (new_iocb buf len) wr log =
    (if pages_of buf len = 0 then Ok (- EINVAL, new_iocb buf len, log)
     else if \<not> be_sgl B then Ok (- ENOMEM, new_iocb buf len, log)
     else if \<not> be_pages B then Ok (- ENOMEM, new_iocb buf len, log @ [TakeSgl, GiveSgl])
     else if rv < 0 then
       Ok (rv, (new_iocb buf len)\<lparr>io_pages := Some (replicate (unat (pages_of buf len)) None)\<rparr>, log @ [TakeSgl, TakePages, GiveSgl])
     else if has_duplicate pgs then
       Ok (- EFAULT, (new_iocb buf len)\<lparr>io_pages := Some (map Some pgs)\<rparr>,
         log @ [TakeSgl, TakePages] @ map PinPage pgs @ GiveSgl # concat (map (give_page wr) pgs))
     else Ok (0, \<lparr>io_buf = buf, io_len = len, io_pages_nr = pages_of buf len, io_sgl = Some (sg_pieces buf len pgs),
            io_pages = Some (map Some pgs)\<rparr>, log @ [TakeSgl, TakePages] @ map PinPage pgs))"
proof -
  let ?n = "pages_of buf len"
  note P = pin_okD [OF pin rv]
  have neg: "rv < 0 \<Longrightarrow> pgs = []" using P(2) by simp
  have all: "rv = uint ?n \<and> length pgs = unat ?n" if "\<not> rv < 0"
    using that whole P(2) by (simp add: pinned_whole_def rv)
  have ne: "?n \<noteq> 0 \<Longrightarrow> \<not> rv < 0 \<Longrightarrow> pgs \<noteq> []" using all by (auto simp: unat_eq_zero)
  have put: "put_pages wr (unat ?n) (map Some pgs) l = Ok (l @ concat (map (give_page wr) pgs))" if "\<not> rv < 0" for l
    using all [OF that] put_pages_all [OF P(3), of wr l] by simp
  show ?thesis
    using all neg ne put
    by (simp add: map_user_buf_to_sgl_def Let_def new_iocb_def rv map_err_out_def unmap_user_buf_def give_sgl_def)
qed

text \<open>
  C39.  When the user's buffer is mapped, the scatter list has one entry per page of the buffer, each within
  its page, and the bytes of its entries, one after the other, are the bytes of the buffer; every page
  of the list is pinned, once, in order.
\<close>

theorem user_buffer_covered:
  assumes pin: "pin_ok B" and buf: "unat buf + unat len < 2 ^ 64" "unat len < 2 ^ 32"
    and run: "map_user_buf_to_sgl B (new_iocb buf len) wr log = Ok (0, iocb, log')"
    and mem: "holds pg_mem mem (unat buf) (snd (be_pin B buf (pages_of buf len)))"
  shows "\<exists>sgl. io_sgl iocb = Some sgl \<and> length sgl = unat (io_pages_nr iocb)
    \<and> concat (map (piece_bytes pg_mem) sgl) = map mem [unat buf..<unat buf + unat len]
    \<and> sg_total sgl = unat len
    \<and> list_all (\<lambda>sg. unat (sg_offset sg) + unat (sg_len sg) \<le> 4096) sgl
    \<and> log' = log @ [TakeSgl, TakePages] @ map PinPage (map sg_pg sgl)"
proof -
  obtain rv pgs where rv: "be_pin B buf (pages_of buf len) = (rv, pgs)" by fastforce
  have whole: "pinned_whole B buf len"
  proof (rule ccontr)
    assume "\<not> pinned_whole B buf len"
    then have "\<not> rv < 0" "rv \<noteq> uint (pages_of buf len)" by (auto simp: pinned_whole_def rv)
    then show False using run rv
      by (simp add: map_user_buf_to_sgl_def Let_def new_iocb_def map_err_out_def errno_defs split: outcome.splits prod.splits if_splits)
  qed
  note run_cases = map_user_buf_cases [OF pin whole rv, of wr log]
  have ok: "iocb = \<lparr>io_buf = buf, io_len = len, io_pages_nr = pages_of buf len, io_sgl = Some (sg_pieces buf len pgs),
      io_pages = Some (map Some pgs)\<rparr>" "log' = log @ [TakeSgl, TakePages] @ map PinPage pgs" "\<not> rv < 0"
    using run unfolding run_cases by (auto simp: errno_defs split: if_splits)
  have len_pgs: "length pgs = unat (pages_of buf len)"
    using whole ok(3) pin_okD(2) [OF pin rv] by (simp add: pinned_whole_def rv)
  show ?thesis
  proof (cases "len = 0")
    case True
    then obtain p where "pgs = [p]" using len_pgs by (auto simp: pages_of_def length_Suc_conv)
    then show ?thesis
      using ok True unat_page_offset [of buf] by (simp add: pages_of_def piece_bytes_def Let_def less_imp_le)
  next
    case False
    note pieces = sg_pieces_ok [OF len_pgs [unfolded pages_of_eq [OF buf(2) False]] buf, of pg_mem mem]
    have "length (sg_pieces buf len pgs) = length pgs" using pieces by (metis length_map)
    then show ?thesis
      using pieces mem by (simp add: ok(1,2) rv len_pgs list_all_iff flip: map_map)
  qed
qed

section \<open>A transfer through the character device\<close>

lemma sum_of_lens: "sum_list (map sg_len sgs) = of_nat (sg_total sgs)"
  by (induction sgs) simp_all

lemma page_chunks:
  assumes "\<forall>sg \<in> set sgs. sg_len sg \<noteq> 0 \<and> unat (sg_offset sg) + unat (sg_len sg) \<le> 4096 \<and> sg_dma_addr sg = 0"
  shows "mm_chunks sgs = map (\<lambda>sg. (0, sg_len sg)) sgs"
proof -
  have "chunk_entry 0 (sg_len sg) = [(0, sg_len sg)]" if "sg \<in> set sgs" for sg
    using assms that by (intro chunk_entry_small) (auto simp: QDMA_DESC_BLEN_MAX_def word_le_nat_alt)
  then have "map (\<lambda>sg. chunk_entry (sg_dma_addr sg) (sg_len sg)) sgs = map (\<lambda>sg. [(0, sg_len sg)]) sgs"
    using assms by simp
  moreover have "concat (map (\<lambda>sg. [(0, sg_len sg)]) sgs) = map (\<lambda>sg. (0 :: u64, sg_len sg)) sgs"
    by (induction sgs) simp_all
  ultimately show ?thesis by (simp only: mm_chunks_def)
qed


definition sample_buf_env :: buf_env where
  "sample_buf_env = \<lparr>be_sgl = True, be_pages = True, be_pin = (\<lambda>a n. (uint n, map Suc [0..<unat n]))\<rparr>"

definition sample_cdev :: qdma_cdev where
  "sample_cdev = \<lparr>cd_minor = 0, cd_c2h_qhndl = 1, cd_h2c_qhndl = 0, cd_dir_init = 3, cd_sys_device = True,
     cd_aio_wq = True, cd_fp_rw = True\<rparr>"

lemma sample_buf_env_ok: "pin_ok sample_buf_env"
  by (simp add: pin_ok_def sample_buf_env_def)


lemma user_buffer_covered_witness:
  "\<exists>iocb sgl. map_user_buf_to_sgl sample_buf_env (new_iocb 0x1FFE 5) True [] =
       Ok (0, iocb, [TakeSgl, TakePages, PinPage 1, PinPage 2])
     \<and> io_sgl iocb = Some sgl
     \<and> concat (map (piece_bytes (\<lambda>p i. p * 4096 + i)) sgl) = [0x1FFE, 0x1FFF, 0x2000, 0x2001, 0x2002]"
proof -
  have n: "unat (pages_of 0x1FFE 5) = 2" by (simp add: pages_of_eq pages_needed_def)
  have pin: "be_pin sample_buf_env 0x1FFE (pages_of 0x1FFE 5) = (uint (pages_of 0x1FFE 5), [1, 2])"
    by (simp add: sample_buf_env_def n upt_rec)
  have s: "be_sgl sample_buf_env" "be_pages sample_buf_env" "pages_of 0x1FFE 5 \<noteq> 0" using n by (auto simp: sample_buf_env_def)
  obtain iocb where run: "map_user_buf_to_sgl sample_buf_env (new_iocb 0x1FFE 5) True [] =
       Ok (0, iocb, [TakeSgl, TakePages, PinPage 1, PinPage 2])"
    by (rule that, subst map_user_buf_cases [OF sample_buf_env_ok _ pin]) (simp_all add: s pinned_whole_def pin)
  have h: "holds (\<lambda>p i. p * 4096 + i) (\<lambda>a. a) (unat (0x1FFE :: u64)) (snd (be_pin sample_buf_env 0x1FFE (pages_of 0x1FFE 5)))"
    unfolding pin by (auto simp: holds_def less_Suc_eq_0_disj)
  from user_buffer_covered [OF sample_buf_env_ok _ _ run h] run show ?thesis by (auto simp: upt_rec)
qed

section \<open>Nothing stays pinned\<close>

fun pinned :: "buf_event list \<Rightarrow> nat list" where
  "pinned [] = []" | "pinned (PinPage p # es) = p # pinned es" | "pinned (e # es) = pinned es"

fun released :: "buf_event list \<Rightarrow> nat list" where
  "released [] = []" | "released (PutPage p # es) = p # released es" | "released (e # es) = released es"

fun dirtied :: "buf_event list \<Rightarrow> nat list" where
  "dirtied [] = []" | "dirtied (DirtyPage p # es) = p # dirtied es" | "dirtied (e # es) = dirtied es"

lemma events_append [simp]:
  "pinned (es @ fs) = pinned es @ pinned fs" "released (es @ fs) = released es @ released fs"
  "dirtied (es @ fs) = dirtied es @ dirtied fs"
proof -
  show "pinned (es @ fs) = pinned es @ pinned fs" by (induction es rule: pinned.induct) simp_all
  show "released (es @ fs) = released es @ released fs" by (induction es rule: released.induct) simp_all
  show "dirtied (es @ fs) = dirtied es @ dirtied fs" by (induction es rule: dirtied.induct) simp_all
qed

lemma events_pages [simp]:
  "pinned (map PinPage ps) = ps" "released (map PinPage ps) = []" "dirtied (map PinPage ps) = []"
  "pinned (concat (map (give_page wr) ps)) = []" "released (concat (map (give_page wr) ps)) = ps"
  "dirtied (concat (map (give_page wr) ps)) = (if wr then [] else ps)"
  "TakeSgl \<notin> set (map PinPage ps)" "TakeSgl \<notin> set (concat (map (give_page wr) ps))"
  by (induction ps) (auto simp: give_page_def)

text \<open>The request is freed before the buffer only if it was submitted.\<close>

lemma rw_outcomes:
  assumes pin: "pin_ok B" and whole: "pinned_whole B buf cnt" and rv: "be_pin B buf (pages_of buf cnt) = (rv, pgs)"
    and run: "cdev_gen_read_write E others B (Some xcdev) busy r buf cnt pos wr lib tr log = Ok (res, lib', tr', log')"
  shows "log' = log \<or> log' = log @ [TakeSgl, GiveSgl] \<or> rv < 0 \<and> log' = log @ [TakeSgl, TakePages, GiveSgl]
    \<or> has_duplicate pgs \<and> log' = log @ [TakeSgl, TakePages] @ map PinPage pgs @ GiveSgl # concat (map (give_page wr) pgs)
    \<or> log' = log @ [TakeSgl, TakePages] @ map PinPage pgs @ GiveSgl # concat (map (give_page wr) pgs) @ [GivePages]"
proof -
  let ?n = "pages_of buf cnt" and ?sgl = "sg_pieces buf cnt pgs"
  let ?iocb = "\<lparr>io_buf = buf, io_len = cnt, io_pages_nr = ?n, io_sgl = Some ?sgl, io_pages = Some (map Some pgs)\<rparr>"
  note P = pin_okD [OF pin rv]
  note run_cases = map_user_buf_cases [OF pin whole rv, of wr log]
  show ?thesis
  proof (cases "?n \<noteq> 0 \<and> be_sgl B \<and> be_pages B \<and> \<not> rv < 0 \<and> \<not> has_duplicate pgs")
    case True
    then have len: "length pgs = unat ?n" using whole P(2) by (simp add: pinned_whole_def rv)
    then have ne: "pgs \<noteq> []" using True by (auto simp: unat_eq_zero)
    have "unmap_user_buf ?iocb wr l = Ok (\<lparr>io_buf = buf, io_len = cnt, io_pages_nr = 0, io_sgl = None,
        io_pages = Some (map Some pgs)\<rparr>, l @ GiveSgl # concat (map (give_page wr) pgs))" for l
      by (rule unmap_mapped [OF P(3) len [symmetric] ne])
    then show ?thesis
      using run True unfolding cdev_gen_read_write_def run_cases
      by (auto simp: Let_def iocb_release_def give_sgl_def split: if_splits outcome.splits)
  next
    case False
    then show ?thesis
      using run unfolding cdev_gen_read_write_def run_cases by (auto simp: Let_def errno_defs split: if_splits)
  qed
qed



section \<open>Asynchronous requests\<close>

text \<open>
  \<open>struct cdev_async_io\<close>, with the address of its request.  The work queue is the list of what has been
  handed to \<open>queue_work\<close>.
\<close>

record cdev_async_io =
  ca_qiocb :: qdma_io_cb
  ca_req :: qdma_request
  ca_req_addr :: nat
  ca_wr :: bool
  ca_cancel :: bool

definition EIOCBQUEUED :: int where "EIOCBQUEUED = 529"

text \<open>
  The loop of \<open>cdev_aio_write\<close> and \<open>cdev_aio_read\<close>, over the segments from the \<open>i\<close>th on; \<open>first\<close> is the
  length of the first of all of them.  The kernel's answer for a segment is the
  address of its block, if there is memory, and the outcome of its mapping.  Nothing tests the address.
\<close>

fun aio_loop ::
  "(nat \<Rightarrow> nat option) \<Rightarrow> buf_env \<Rightarrow> bool \<Rightarrow> u64 \<Rightarrow> u64 \<Rightarrow> (u64 \<times> u64) list \<Rightarrow> nat \<Rightarrow> cdev_async_io list
     \<Rightarrow> buf_event list \<Rightarrow> (int \<times> cdev_async_io list \<times> buf_event list) outcome" where
  "aio_loop alloc B wr pos first [] i wq log = Ok (- EIOCBQUEUED, wq, log)"
| "aio_loop alloc B wr pos first ((base, len) # segs) i wq log =
     (case alloc i of None \<Rightarrow> Bad
      | Some a \<Rightarrow>
          (case map_user_buf_to_sgl B (new_iocb base len) wr log of Bad \<Rightarrow> Bad
           | Ok (rv, iocb, log) \<Rightarrow>
               if rv < 0 then Ok (rv, wq, log)
               else aio_loop alloc B wr pos first segs (Suc i)
                      (wq @ [\<lparr>ca_qiocb = iocb, ca_req = rw_request iocb first pos wr, ca_req_addr = a, ca_wr = wr,
                              ca_cancel = False\<rparr>]) log))"

definition cdev_aio_rw ::
  "(nat \<Rightarrow> nat option) \<Rightarrow> buf_env \<Rightarrow> qdma_cdev option \<Rightarrow> bool \<Rightarrow> (u64 \<times> u64) list \<Rightarrow> u64 \<Rightarrow> cdev_async_io list
     \<Rightarrow> buf_event list \<Rightarrow> (int \<times> cdev_async_io list \<times> buf_event list) outcome" where
  "cdev_aio_rw alloc B xcdev wr segs pos wq log =
     (case xcdev of None \<Rightarrow> Ok (- EINVAL, wq, log)
      | Some xcdev \<Rightarrow>
          if \<not> cd_fp_rw xcdev then Ok (- EINVAL, wq, log)
          else aio_loop alloc B wr pos (case segs of [] \<Rightarrow> 0 | (_, l) # _ \<Rightarrow> l) segs 0 wq log)"

text \<open>
  \<open>async_io_handler\<close> for the first work of the queue: whether the block's and the direction's locks are free is
  an argument.  The result has the bytes reported to the caller, if it is told.  A cancelled request is
  dropped with its pages pinned.
\<close>

definition async_io_handler ::
  "env \<Rightarrow> waiter \<Rightarrow> qdma_cdev option \<Rightarrow> bool \<Rightarrow> bool \<Rightarrow> cdev_async_io \<Rightarrow> cdev_async_io list \<Rightarrow> qdma_lib \<Rightarrow> trace \<Rightarrow> buf_event list
     \<Rightarrow> (int option \<times> cdev_async_io list \<times> qdma_lib \<times> trace \<times> buf_event list) outcome" where
  "async_io_handler E others xcdev lock_free dir_free caio wq lib tr log =
     (if \<not> lock_free then Ok (None, (if xcdev = None then wq else wq @ [caio]), lib, tr, log)
      else if ca_cancel caio then Ok (None, wq, lib, tr, log)
      else
        (case xcdev of None \<Rightarrow> Ok (None, wq, lib, tr, log)
         | Some xcdev \<Rightarrow>
             if \<not> dir_free then Ok (None, wq @ [caio], lib, tr, log)
             else
               let qhndl = (if ca_wr caio then cd_h2c_qhndl xcdev else cd_c2h_qhndl xcdev)
               in (case qdma_request_submit E others (ca_req_addr caio) (ca_req caio) qhndl lib tr of
                     Bad \<Rightarrow> Bad
                   | Ok (numbytes, lib, tr) \<Rightarrow>
                       (case unmap_user_buf (ca_qiocb caio) (ca_wr caio) log of
                          Bad \<Rightarrow> Bad
                        | Ok (iocb, log) \<Rightarrow>
                            let (iocb, log) = iocb_release iocb log in Ok (Some numbytes, wq, lib, tr, log)))))"

section \<open>Where pages, memory and counts go wrong\<close>

text \<open>
  When some but not all pages can be pinned, their number is replaced by the error code before they are to be put: the
  loop runs past the pages and into the part of the array that was never written.
\<close>

lemma put_pages_overrun:
  "0 \<notin> set pgs \<Longrightarrow> length pgs < n \<Longrightarrow> put_pages wr n (map Some pgs @ replicate k None) log = Bad"
proof (induction pgs arbitrary: n log)
  case Nil
  then show ?case by (cases n; cases k) simp_all
next
  case (Cons p pgs)
  then show ?case by (cases n) simp_all
qed

lemma partial_pin_overruns:
  assumes pin: "pin_ok B" and rv: "be_pin B (io_buf iocb) (pages_of (io_buf iocb) (io_len iocb)) = (rv, pgs)"
    and few: "0 \<le> rv" "rv < uint (pages_of (io_buf iocb) (io_len iocb))" "rv < 2 ^ 31"
    and mem: "be_sgl B" "be_pages B"
  shows "map_user_buf_to_sgl B iocb wr log = Bad"
proof -
  note P = pin_okD [OF pin rv]
  have n: "pages_of (io_buf iocb) (io_len iocb) \<noteq> 0" using few by auto
  have len: "int (length pgs) < 2 ^ 31" using P few by simp
  have e: "unat (word_of_int (- EFAULT) :: u32) = 4294967282" by (simp add: errno_defs)
  then have nz: "(word_of_int (- EFAULT) :: u32) \<noteq> 0" by (metis unat_0 zero_neq_numeral)
  have "length pgs < unat (word_of_int (- EFAULT) :: u32)" using len unfolding e by simp
  from put_pages_overrun [OF P(3) this]
  show ?thesis
    using n mem few nz by (simp add: map_user_buf_to_sgl_def rv Let_def map_err_out_def unmap_user_buf_def give_sgl_def)
qed

text \<open>When no page can be pinned, the page array is never freed.\<close>

lemma failed_pin_leaks:
  assumes pin: "pin_ok B" and rv: "be_pin B buf (pages_of buf len) = (rv, [])" and neg: "rv < 0"
    and n: "pages_of buf len \<noteq> 0" and mem: "be_sgl B" "be_pages B"
  shows "\<exists>iocb. map_user_buf_to_sgl B (new_iocb buf len) wr log = Ok (rv, iocb, log @ [TakeSgl, TakePages, GiveSgl])"
  using n mem neg
  by (simp add: map_user_buf_to_sgl_def new_iocb_def rv Let_def map_err_out_def unmap_user_buf_def give_sgl_def)

text \<open>
  Every request of an asynchronous transfer asks for as many bytes as the first segment has, whatever the length of its own, and
  starts at the same address of the device.
\<close>

lemma aio_counts_first:
  assumes "aio_loop alloc B wr pos first segs i wq log = Ok (rv, wq', log')"
  shows "\<exists>new. wq' = wq @ new \<and> list_all (\<lambda>c. rq_count (ca_req c) = ucast first \<and> rq_ep_addr (ca_req c) = pos) new"
  using assms
proof (induction segs arbitrary: i wq log)
  case (Cons seg segs)
  show ?case
  proof (cases "alloc i")
    case None
    then show ?thesis using Cons.prems by (cases seg) simp
  next
    case (Some a)
    then show ?thesis
      using Cons.prems by (cases seg) (fastforce simp: rw_request_def split: outcome.splits if_splits dest!: Cons.IH)
  qed
qed simp

text \<open>A second segment without memory for its block is written through the null pointer; what is queued stays queued.\<close>

lemma aio_no_memory: "alloc i = None \<Longrightarrow> aio_loop alloc B wr pos first (seg # segs) i wq log = Bad"
  by (cases seg) simp

text \<open>A cancelled request is dropped: its pages stay pinned, and the caller is told nothing.\<close>

lemma cancelled_keeps_pages:
  "ca_cancel caio \<Longrightarrow> async_io_handler E others xcdev True dir_free caio wq lib tr log = Ok (None, wq, lib, tr, log)"
  by (simp add: async_io_handler_def)

text \<open>The number of pieces has 16 bits in the request: with 65536 pages it says none.\<close>

lemma pieces_overflow:
  "\<lbrakk>io_pages_nr iocb = 0x10000; io_sgl iocb = Some sgl\<rbrakk>
     \<Longrightarrow> rq_sgcnt (rw_request iocb cnt pos wr) = 0 \<and> rq_sgl (rw_request iocb cnt pos wr) = sgl"
  by (simp add: rw_request_def)

text \<open>A file without a device is looked into before it is refused.\<close>

lemma no_device_read: "cdev_gen_read_write E others B None busy r buf cnt pos wr lib tr log = Bad"
  by (simp add: cdev_gen_read_write_def)

end
