(* ===== verification/Qdma_Xpdev.thy ===== *)
theory Qdma_Xpdev
  imports Qdma_Cdev Qdma_Client
begin

unbundle bit_operations_syntax

text \<open>
  The driver's table of queues and their character devices (\<open>drv/qdma_mod.c\<close>, and the creation and destruction of
  devices in \<open>drv/cdev.c\<close>): the two directions of a queue share one device.  The lock \<open>cdev_lock\<close> is not
  modelled: each definition is one call that runs alone.
\<close>

section \<open>Creating and destroying a character device\<close>

text \<open>
  A pointer to a device, which may be null, or a variable that was never written.  The devices in use are the map from
  their addresses; what is created, registered and freed is logged, oldest first.
\<close>

datatype cdev_ptr = NoCdev | Cdev nat | Uninit

type_synonym cdev_heap = "nat \<Rightarrow> qdma_cdev option"

datatype cdev_event = CdevAlloc nat | CdevFree nat | CdevAdd int | CdevDel int | DeviceCreate int | DeviceDestroy int
  | WqCreate nat | WqDestroy nat

text \<open>
  The kernel's answers: the address of the memory, \<open>cdev_add\<close>, whether there is a device class,
  \<open>device_create\<close> (0 or the error in the pointer), whether there is a work queue.
\<close>

record cdev_env =
  ce_addr :: "nat option"
  ce_add :: int
  ce_class :: bool
  ce_device :: int
  ce_wq :: bool

definition QDMA_MINOR_MAX :: int where "QDMA_MINOR_MAX = 2048"

text \<open>
  \<open>qdma_cdev_create\<close>: the code, and what it writes to \<open>xcdev_pp\<close> if it does.
\<close>

definition qdma_cdev_create ::
  "cdev_env \<Rightarrow> int \<Rightarrow> qdma_queue_conf \<Rightarrow> int \<Rightarrow> nat \<Rightarrow> cdev_heap \<Rightarrow> cdev_event list
     \<Rightarrow> int \<times> nat option \<times> cdev_heap \<times> cdev_event list" where
  "qdma_cdev_create K minor_cnt qconf minor qhndl cdevs log =
     (case ce_addr K of None \<Rightarrow> (- ENOMEM, None, cdevs, log)
      | Some a \<Rightarrow>
          let log = log @ [CdevAlloc a];
              c2h = qc_c2h qconf;
              xcdev = \<lparr>cd_minor = minor, cd_c2h_qhndl = (if c2h then qhndl else 0),
                       cd_h2c_qhndl = (if c2h then 0 else qhndl), cd_dir_init = push_bit (of_bool c2h) 1,
                       cd_sys_device = False, cd_aio_wq = False, cd_fp_rw = False\<rparr>
          in if minor_cnt \<le> minor then (- ENOSPC, None, cdevs, log @ [CdevFree a])
          else if ce_add K < 0 then (ce_add K, None, cdevs, log @ [CdevFree a])
          else
            let log = log @ [CdevAdd minor]
            in if ce_class K \<and> ce_device K \<noteq> 0 then (ce_device K, None, cdevs, log @ [CdevDel minor, CdevFree a])
            else
              (0, Some a, cdevs(a \<mapsto> xcdev\<lparr>cd_sys_device := ce_class K, cd_aio_wq := ce_wq K, cd_fp_rw := True\<rparr>),
               log @ (if ce_class K then [DeviceCreate minor] else []) @ (if ce_wq K then [WqCreate a] else [])))"

definition qdma_cdev_destroy ::
  "cdev_ptr \<Rightarrow> cdev_heap \<Rightarrow> cdev_event list \<Rightarrow> (cdev_heap \<times> cdev_event list) outcome" where
  "qdma_cdev_destroy xcdev cdevs log =
     (case xcdev of NoCdev \<Rightarrow> Ok (cdevs, log) | Uninit \<Rightarrow> Bad
      | Cdev a \<Rightarrow>
          (case cdevs a of None \<Rightarrow> Bad
           | Some c \<Rightarrow>
               Ok (cdevs(a := None),
                   log @ (if cd_aio_wq c then [WqDestroy a] else [])
                     @ (if cd_sys_device c then [DeviceDestroy (cd_minor c)] else [])
                     @ [CdevDel (cd_minor c), CdevFree a])))"

text \<open>
  \<open>qdma_cdev_device_init\<close> and \<open>qdma_cdev_device_cleanup\<close>: the major number, which is 0 if there is none, and the number
  of minor numbers.  \<open>region\<close> is the answer to \<open>alloc_chrdev_region\<close>: the code and the major number.
\<close>

definition qdma_cdev_device_init :: "int \<times> int \<Rightarrow> int \<Rightarrow> int \<times> int \<times> int" where
  "qdma_cdev_device_init region major =
     (if major \<noteq> 0 then (- EINVAL, major, QDMA_MINOR_MAX)
      else if fst region \<noteq> 0 then (fst region, major, QDMA_MINOR_MAX)
      else (0, snd region, QDMA_MINOR_MAX))"

text \<open>The first result is whether the region is given back.\<close>

definition qdma_cdev_device_cleanup :: "int \<Rightarrow> bool \<times> int" where
  "qdma_cdev_device_cleanup major = (major \<noteq> 0, 0)"

section \<open>The table of queues\<close>

record xlnx_qdata =
  xq_qhndl :: nat
  xq_xcdev :: cdev_ptr

definition no_qdata :: xlnx_qdata where "no_qdata = \<lparr>xq_qhndl = 0, xq_xcdev = NoCdev\<rparr>"

text \<open>
  \<open>struct xlnx_pci_dev\<close>, with the character devices and what hangs off its library handle.
  \<open>qdata\<close> has the H2C queues and then the C2H queues.
\<close>

record xlnx_pci_dev =
  xp_qmax :: u32
  xp_minor_cnt :: int
  xp_qdata :: "xlnx_qdata list"
  xp_cdevs :: cdev_heap
  xp_log :: "cdev_event list"
  xp_lib :: qdma_lib
  xp_trace :: trace

text \<open>\<open>xpdev_queue_get\<close>: the index of the entry.  The pointer is read when the handle is 0.\<close>

definition xpdev_queue_get :: "xlnx_pci_dev \<Rightarrow> u32 \<Rightarrow> bool \<Rightarrow> bool \<Rightarrow> nat option outcome" where
  "xpdev_queue_get xpdev qidx c2h check_qhndl =
     (if xp_qmax xpdev \<le> qidx then Ok None
      else
        let k = unat qidx + (if c2h then unat (xp_qmax xpdev) else 0);
            qdata = xp_qdata xpdev ! k
        in if check_qhndl \<and> xq_qhndl qdata = 0 then
             (case xq_xcdev qdata of NoCdev \<Rightarrow> Ok None | Cdev a \<Rightarrow> Ok (Some k) | Uninit \<Rightarrow> Bad)
           else Ok (Some k))"

text \<open>The first half of \<open>xpdev_queue_delete\<close>: the direction leaves the device, which goes with its last one.\<close>

definition release_dir ::
  "cdev_ptr \<Rightarrow> bool \<Rightarrow> cdev_heap \<Rightarrow> cdev_event list \<Rightarrow> (cdev_heap \<times> cdev_event list) outcome" where
  "release_dir xcdev c2h cdevs log =
     (case xcdev of NoCdev \<Rightarrow> Bad | Uninit \<Rightarrow> Bad
      | Cdev a \<Rightarrow>
          (case cdevs a of None \<Rightarrow> Bad
           | Some c \<Rightarrow>
               let c = c\<lparr>cd_dir_init := cd_dir_init c AND NOT (push_bit (of_bool c2h) 1)\<rparr>;
                   cdevs = cdevs(a \<mapsto> c)
               in if cd_dir_init c = 0 then qdma_cdev_destroy (Cdev a) cdevs log else Ok (cdevs, log)))"

definition xpdev_queue_delete :: "env \<Rightarrow> xlnx_pci_dev \<Rightarrow> u32 \<Rightarrow> bool \<Rightarrow> (int \<times> xlnx_pci_dev) outcome" where
  "xpdev_queue_delete E xpdev qidx c2h =
     (case xpdev_queue_get xpdev qidx c2h True of Bad \<Rightarrow> Bad
      | Ok None \<Rightarrow> Ok (- EINVAL, xpdev)
      | Ok (Some k) \<Rightarrow>
          let qdata = xp_qdata xpdev ! k
          in (case release_dir (xq_xcdev qdata) c2h (xp_cdevs xpdev) (xp_log xpdev) of Bad \<Rightarrow> Bad
              | Ok (cdevs, log) \<Rightarrow>
                  let (rv, lib, tr) =
                        (if xq_qhndl qdata \<noteq> unat QDMA_QUEUE_IDX_INVALID
                         then qdma_queue_remove E (xq_qhndl qdata) (xp_lib xpdev) (xp_trace xpdev)
                         else (0, xp_lib xpdev, xp_trace xpdev))
                  in Ok (rv, xpdev\<lparr>xp_qdata := (xp_qdata xpdev)[k := no_qdata], xp_cdevs := cdevs, xp_log := log,
                                   xp_lib := lib, xp_trace := tr\<rparr>)))"

fun xpdev_queue_delete_all :: "env \<Rightarrow> u32 list \<Rightarrow> xlnx_pci_dev \<Rightarrow> xlnx_pci_dev outcome" where
  "xpdev_queue_delete_all E [] xpdev = Ok xpdev"
| "xpdev_queue_delete_all E (i # is) xpdev =
     (case xpdev_queue_delete E xpdev i False of Bad \<Rightarrow> Bad
      | Ok (_, xpdev) \<Rightarrow>
          (case xpdev_queue_delete E xpdev i True of Bad \<Rightarrow> Bad
           | Ok (_, xpdev) \<Rightarrow> xpdev_queue_delete_all E is xpdev))"

text \<open>
  \<open>xpdev_queue_add\<close>: the code and the configuration written back.  When no device can be created the variable \<open>xcdev\<close>
  is copied into the table all the same.
\<close>

definition xpdev_queue_add ::
  "env \<Rightarrow> cdev_env \<Rightarrow> bool \<Rightarrow> xlnx_pci_dev \<Rightarrow> qdma_queue_conf \<Rightarrow> (int \<times> qdma_queue_conf \<times> xlnx_pci_dev) outcome" where
  "xpdev_queue_add E K fits xpdev qconf =
     (case qdma_queue_add E fits qconf (xp_lib xpdev) (xp_trace xpdev) of Bad \<Rightarrow> Bad
      | Ok (rv, qhndl, qconf, lib, tr) \<Rightarrow>
          let xpdev = xpdev\<lparr>xp_lib := lib, xp_trace := tr\<rparr>
          in if rv < 0 then Ok (rv, qconf, xpdev)
          else
            (case xpdev_queue_get xpdev (ucast (qc_qidx qconf)) (qc_c2h qconf) False of Bad \<Rightarrow> Bad
             | Ok None \<Rightarrow> Ok (rv, qconf, xpdev)
             | Ok (Some k) \<Rightarrow>
                 (case xpdev_queue_get xpdev (ucast (qc_qidx qconf)) (\<not> qc_c2h qconf) False of Bad \<Rightarrow> Bad
                  | Ok pair \<Rightarrow>
                      (case (case pair of None \<Rightarrow> NoCdev | Some p \<Rightarrow> xq_xcdev (xp_qdata xpdev ! p)) of
                         Uninit \<Rightarrow> Bad
                       | Cdev a \<Rightarrow>
                           (case xp_cdevs xpdev a of None \<Rightarrow> Bad
                            | Some c \<Rightarrow>
                                let c = (if qc_c2h qconf then c\<lparr>cd_c2h_qhndl := qhndl\<rparr> else c\<lparr>cd_h2c_qhndl := qhndl\<rparr>);
                                    c = c\<lparr>cd_dir_init := cd_dir_init c OR push_bit (of_bool (qc_c2h qconf)) 1\<rparr>
                                in Ok (0, qconf,
                                       xpdev\<lparr>xp_qdata := (xp_qdata xpdev)[k := \<lparr>xq_qhndl = qhndl, xq_xcdev = Cdev a\<rparr>],
                                             xp_cdevs := (xp_cdevs xpdev)(a \<mapsto> c)\<rparr>))
                       | NoCdev \<Rightarrow>
                           let (rv, xcdev, cdevs, log) =
                                 qdma_cdev_create K (xp_minor_cnt xpdev) qconf (uint (qc_qidx qconf)) qhndl
                                   (xp_cdevs xpdev) (xp_log xpdev)
                           in Ok (rv, qconf,
                                  xpdev\<lparr>xp_qdata := (xp_qdata xpdev)[k := \<lparr>xq_qhndl = qhndl,
                                           xq_xcdev = (case xcdev of None \<Rightarrow> Uninit | Some a \<Rightarrow> Cdev a)\<rparr>],
                                        xp_cdevs := cdevs, xp_log := log\<rparr>)))))"

text \<open>\<open>xpdev_device_cleanup\<close>: the loop over all entries.\<close>

fun cleanup_qdata :: "xlnx_qdata list \<Rightarrow> cdev_heap \<Rightarrow> cdev_event list \<Rightarrow> (cdev_heap \<times> cdev_event list) outcome" where
  "cleanup_qdata [] cdevs log = Ok (cdevs, log)"
| "cleanup_qdata (qdata # qs) cdevs log =
     (case xq_xcdev qdata of NoCdev \<Rightarrow> cleanup_qdata qs cdevs log | Uninit \<Rightarrow> Bad
      | Cdev a \<Rightarrow>
          (case cdevs a of None \<Rightarrow> Bad
           | Some c \<Rightarrow>
               if cd_dir_init c = 1 \<or> cd_dir_init c = 2 then
                 (case qdma_cdev_destroy (Cdev a) cdevs log of Bad \<Rightarrow> Bad
                  | Ok (cdevs, log) \<Rightarrow> cleanup_qdata qs cdevs log)
               else cleanup_qdata qs (cdevs(a \<mapsto> c\<lparr>cd_dir_init := drop_bit 1 (cd_dir_init c)\<rparr>)) log))"

definition xpdev_device_cleanup :: "xlnx_pci_dev \<Rightarrow> xlnx_pci_dev outcome" where
  "xpdev_device_cleanup xpdev =
     (case cleanup_qdata (xp_qdata xpdev) (xp_cdevs xpdev) (xp_log xpdev) of Bad \<Rightarrow> Bad
      | Ok (cdevs, log) \<Rightarrow>
          Ok (xpdev\<lparr>xp_qdata := map (\<lambda>_. no_qdata) (xp_qdata xpdev), xp_cdevs := cdevs, xp_log := log\<rparr>))"

section \<open>What the table relies on in the library\<close>

text \<open>The queue arrays have the size the device says; a queue in use can be looked up.\<close>

definition lib_shape :: "qdma_lib \<Rightarrow> bool" where
  "lib_shape lib \<longleftrightarrow> (\<exists>qd. lb_dev lib = Some qd \<and> length (qv_h2c (qd_qs qd)) = unat (xd_qmax (lb_xdev lib))
     \<and> length (qv_c2h (qd_qs qd)) = unat (xd_qmax (lb_xdev lib)))"

definition in_use :: "qdma_lib \<Rightarrow> nat \<Rightarrow> bool" where
  "in_use lib k \<longleftrightarrow> get_lib k True lib \<noteq> None"

lemma in_use_iff:
  "lb_dev lib = Some qd \<Longrightarrow> in_use lib k \<longleftrightarrow> k < 2 * unat (xd_qmax (lb_xdev lib)) \<and> dq_enabled (queue_at (lb_xdev lib) qd k)"
  by (auto simp: in_use_def get_lib_def qdma_device_get_descq_by_id_def Let_def split: if_splits)

lemma in_use_put:
  assumes "lib_shape lib" "lb_dev lib = Some qd" "i < 2 * unat (xd_qmax (lb_xdev lib))"
    and "core x = core (lb_xdev lib)" "qd_qs qd' = qd_qs (put_queue x i q qd)"
  shows "lib_shape (lib\<lparr>lb_xdev := x, lb_dev := Some qd'\<rparr>)"
    "in_use (lib\<lparr>lb_xdev := x, lb_dev := Some qd'\<rparr>) k \<longleftrightarrow> (if k = i then dq_enabled q else in_use lib k)"
proof -
  note x = core_fields [OF assms(4)]
  have len: "length (qv_h2c (qd_qs qd)) = unat (xd_qmax (lb_xdev lib))"
    "length (qv_c2h (qd_qs qd)) = unat (xd_qmax (lb_xdev lib))"
    using assms(1,2) by (auto simp: lib_shape_def)
  show "lib_shape (lib\<lparr>lb_xdev := x, lb_dev := Some qd'\<rparr>)"
    using len by (simp add: lib_shape_def x(2) assms(5) put_queue_length)
  have "queue_at x qd' k = queue_at (lb_xdev lib) (put_queue (lb_xdev lib) i q qd) k"
    using queue_at_qs [OF assms(5)] by (simp add: x)
  then show "in_use (lib\<lparr>lb_xdev := x, lb_dev := Some qd'\<rparr>) k \<longleftrightarrow> (if k = i then dq_enabled q else in_use lib k)"
    using queue_at_put [OF len assms(3)] assms(3)
    by (cases "k < 2 * unat (xd_qmax (lb_xdev lib))")
      (auto simp: in_use_iff [OF assms(2)] in_use_iff [of "lib\<lparr>lb_xdev := x, lb_dev := Some qd'\<rparr>" qd'] x(2))
qed

lemma in_use_counts:
  assumes "lib_shape lib" "lb_dev lib = Some qd" "qd_qs qd' = qd_qs qd"
  shows "lib_shape (lib\<lparr>lb_dev := Some qd'\<rparr>)" "in_use (lib\<lparr>lb_dev := Some qd'\<rparr>) k = in_use lib k"
  using assms queue_at_qs [OF assms(3)]
  by (auto simp: lib_shape_def in_use_iff [OF assms(2)] in_use_iff [of "lib\<lparr>lb_dev := Some qd'\<rparr>" qd'])

text \<open>What the table's calls may assume of a library call: the queues' number stays, and so do the queues of the others.\<close>

definition lib_keeps :: "nat set \<Rightarrow> qdma_lib \<Rightarrow> qdma_lib \<Rightarrow> bool" where
  "lib_keeps ks lib lib' \<longleftrightarrow> lib_shape lib' \<and> xd_qmax (lb_xdev lib') = xd_qmax (lb_xdev lib)
     \<and> (\<forall>k. k \<notin> ks \<longrightarrow> in_use lib k \<longrightarrow> in_use lib' k)"

lemma add_claimed_in_use:
  assumes shape: "lib_shape lib" and qd: "lb_dev lib = Some qd" "qd_qs qd0 = qd_qs qd"
    and i: "i < unat (xd_qmax (lb_xdev lib))"
    and run: "add_claimed E fits qconf i qd0 lib tr = (rv, h, c, lib', tr')"
  shows "lib_keeps {} lib lib'"
    and "0 \<le> rv \<Longrightarrow> h = (if qc_c2h qconf then unat (xd_qmax (lb_xdev lib)) + i else i)
      \<and> c = qconf\<lparr>qc_qidx := of_nat i\<rparr> \<and> in_use lib' h"
proof -
  let ?x = "lb_xdev lib" and ?c2h = "qc_c2h qconf"
  let ?qid = "if ?c2h then unat (xd_qmax ?x) + i else i"
  let ?conf = "qconf\<lparr>qc_qidx := of_nat i\<rparr>"
  have qid: "?qid < 2 * unat (xd_qmax ?x)" using i by simp
  define q1 where "q1 = (queue_at ?x qd0 ?qid)\<lparr>dq_enabled := True\<rparr>"
  define qd1 where "qd1 = put_queue ?x ?qid q1 qd0"
  obtain rv1 x2 qd2 tr2 where prep: "qdma_device_prep_q_resource E ?x qd1 tr = (rv1, x2, qd2, tr2)"
    by (metis prod_cases4)
  have x2: "core x2 = core ?x" using prep_frame [of E ?x qd1 tr] by (simp add: prep)
  have qs2: "qd_qs qd2 = qd_qs qd1" using prep_queues [of E ?x qd1 tr] by (simp add: prep)
  have qs1: "qd_qs qd1 = qd_qs (put_queue x2 ?qid q1 qd)"
    unfolding qd1_def core_fields(7) [OF x2] by (rule put_queue_qs) (rule qd(2))
  define q3 where "q3 = qdma_descq_config x2 ?conf False (queue_at x2 qd2 ?qid)"
  have len: "length (qv_h2c (qd_qs qd)) = unat (xd_qmax ?x)" "length (qv_c2h (qd_qs qd)) = unat (xd_qmax ?x)"
    using shape qd(1) by (auto simp: lib_shape_def)
  have at: "queue_at x2 qd2 ?qid = q1"
    using queue_at_put [OF len qid qid, of q1] queue_at_qs [OF qs2] queue_at_qs [OF qs1] core_fields(6,7) [OF x2]
    by simp
  have "flags q3 = flags q1" by (simp add: q3_def at frame)
  then have on: "dq_enabled q1" "dq_enabled q3" by (simp_all add: flags_fields q1_def)
  have run': "lib' = lib\<lparr>lb_xdev := x2, lb_dev := Some (if rv1 < 0 then add_count ?c2h (- 1) qd2 else put_queue x2 ?qid q3 qd2)\<rparr>"
    "0 \<le> rv \<Longrightarrow> h = ?qid \<and> c = ?conf"
    using run unfolding add_claimed_def Let_def q1_def [symmetric] qd1_def [symmetric]
    by (auto simp: prep q3_def split: if_split_asm)
  have "qd_qs (if rv1 < 0 then add_count ?c2h (- 1) qd2 else put_queue x2 ?qid q3 qd2)
      = qd_qs (put_queue x2 ?qid (if rv1 < 0 then q1 else q3) qd)"
    by (simp add: add_count_queues qs2 qs1 put_queue_qs [OF qs2] put_queue_qs [OF qs1] put_put_queue)
  note put = in_use_put [OF shape qd(1) qid x2 this, folded run'(1)]
  have "xd_qmax (lb_xdev lib') = xd_qmax (lb_xdev lib)" using core_fields(2) [OF x2] by (simp add: run'(1))
  then show "lib_keeps {} lib lib'" using put on by (simp add: lib_keeps_def)
  show "0 \<le> rv \<Longrightarrow> h = ?qid \<and> c = ?conf \<and> in_use lib' h" using run'(2) put(2) on by simp
qed

lemma queue_add_in_use:
  assumes shape: "lib_shape lib" and run: "qdma_queue_add E fits qconf lib tr = Ok (rv, h, c, lib', tr')"
  shows "lib_keeps {} lib lib'"
    and "0 \<le> rv \<Longrightarrow> \<exists>i < unat (xd_qmax (lb_xdev lib)). h = (if qc_c2h qconf then unat (xd_qmax (lb_xdev lib)) + i else i)
      \<and> c = qconf\<lparr>qc_qidx := of_nat i\<rparr> \<and> \<not> in_use lib h \<and> in_use lib' h
      \<and> (qc_qidx qconf \<noteq> QDMA_QUEUE_IDX_INVALID \<longrightarrow> i = unat (qc_qidx qconf))"
proof -
  let ?n = "unat (xd_qmax (lb_xdev lib))"
  obtain qd where qd: "lb_dev lib = Some qd" and len: "length (qv_h2c (qd_qs qd)) = ?n" "length (qv_c2h (qd_qs qd)) = ?n"
    using shape by (auto simp: lib_shape_def)
  have "lib_keeps {} lib lib' \<and> (0 \<le> rv \<longrightarrow> (\<exists>i < ?n. h = (if qc_c2h qconf then ?n + i else i)
      \<and> c = qconf\<lparr>qc_qidx := of_nat i\<rparr> \<and> \<not> in_use lib h \<and> in_use lib' h
      \<and> (qc_qidx qconf \<noteq> QDMA_QUEUE_IDX_INVALID \<longrightarrow> i = unat (qc_qidx qconf))))"
    using run qd
  proof (cases rule: queue_add_cases)
    case 1
    then show ?thesis using shape by (simp add: lib_keeps_def)
  next
    case 2
    then show ?thesis using in_use_counts [OF shape qd] by (simp add: lib_keeps_def add_count_queues)
  next
    case (3 i)
    let ?qs = "if qc_c2h qconf then qv_c2h (qd_qs qd) else qv_h2c (qd_qs qd)"
    have qs: "length (if qc_c2h qconf then qv_h2c (qd_qs qd) else qv_c2h (qd_qs qd)) = length ?qs" "length ?qs = ?n"
      using len by simp_all
    have "i < length ?qs" "\<not> dq_enabled (?qs ! i)"
      using claim_queue_free [OF 3(2) qs(1)] 3(1) unfolding qs(2) by (auto simp: word_le_nat_alt)
    then have i: "i < ?n" and free: "\<not> in_use lib (if qc_c2h qconf then ?n + i else i)"
      using len by (auto simp: in_use_iff [OF qd] queue_at_def split: if_splits)
    have "qc_qidx qconf \<noteq> QDMA_QUEUE_IDX_INVALID \<longrightarrow> i = unat (qc_qidx qconf)"
      using 3(2) by (auto simp: claim_queue_def Let_def split: if_splits)
    with free i add_claimed_in_use [OF shape qd _ i 3(3)] show ?thesis by (auto simp: add_count_queues)
  qed
  then show "lib_keeps {} lib lib'"
    and "0 \<le> rv \<Longrightarrow> \<exists>i < ?n. h = (if qc_c2h qconf then ?n + i else i)
      \<and> c = qconf\<lparr>qc_qidx := of_nat i\<rparr> \<and> \<not> in_use lib h \<and> in_use lib' h
      \<and> (qc_qidx qconf \<noteq> QDMA_QUEUE_IDX_INVALID \<longrightarrow> i = unat (qc_qidx qconf))" by blast+
qed

lemma queue_add_returns: "lib_shape lib \<Longrightarrow> qdma_queue_add E fits qconf lib tr \<noteq> Bad"
  by (rule queue_add_total) (auto simp: lib_shape_def)

lemma queue_remove_in_use:
  assumes shape: "lib_shape lib" and run: "qdma_queue_remove E qid lib tr = (rv, lib', tr')"
  shows "lib_keeps {qid} lib lib'" "in_use lib qid \<Longrightarrow> rv = 0 \<and> \<not> in_use lib' qid"
proof -
  obtain qd where qd: "lb_dev lib = Some qd" using shape by (auto simp: lib_shape_def)
  have "lib_keeps {qid} lib lib' \<and> (in_use lib qid \<longrightarrow> rv = 0 \<and> \<not> in_use lib' qid)"
  proof (cases "get_lib qid True lib")
    case None
    then show ?thesis using run shape qd by (simp add: qdma_queue_remove_def in_use_def lib_keeps_def)
  next
    case (Some q)
    then have i: "qid < 2 * unat (xd_qmax (lb_xdev lib))" by (rule get_libD)
    let ?q0 = "q\<lparr>dq_inited := False, dq_online := False\<rparr>"
    obtain q1 x tr1 where c: "qdma_descq_cleanup E (lb_xdev lib) ?q0 tr = (q1, x, tr1)" by (metis prod_cases3)
    have x: "core x = core (lb_xdev lib)"
      using cleanup_frame(2) [where q = ?q0 and E = E and xdev = "lb_xdev lib" and tr = tr] by (simp add: c)
    let ?qd' = "add_count (qc_c2h (dq_conf q1)) (- 1) (put_queue x qid (q1\<lparr>dq_enabled := False\<rparr>) qd)"
    have rv: "rv = 0" and lib': "lib' = lib\<lparr>lb_xdev := x, lb_dev := Some ?qd'\<rparr>"
      using run Some qd by (auto simp: qdma_queue_remove_def c Let_def put_lib_def errno_defs)
    have "qd_qs ?qd' = qd_qs (put_queue x qid (q1\<lparr>dq_enabled := False\<rparr>) qd)" by (simp add: add_count_queues)
    note put = in_use_put [OF shape qd i x this, folded lib']
    show ?thesis using put core_fields(2) [OF x] rv by (simp add: lib_keeps_def lib')
  qed
  then show "lib_keeps {qid} lib lib'" "in_use lib qid \<Longrightarrow> rv = 0 \<and> \<not> in_use lib' qid" by blast+
qed

section \<open>The table and the devices agree\<close>

text \<open>
  The two entries of queue \<open>m\<close> of \<open>n\<close>: both are empty, or those in use hold their own handles and the address of
  one device, which has the queue's number as its minor number, knows which directions are in use, and their handles.
\<close>

definition pair_ok :: "nat \<Rightarrow> cdev_heap \<Rightarrow> nat \<Rightarrow> xlnx_qdata \<Rightarrow> xlnx_qdata \<Rightarrow> bool" where
  "pair_ok n cdevs m x y \<longleftrightarrow> x = no_qdata \<and> y = no_qdata
     \<or> (\<exists>a c h d. (h \<or> d) \<and> x = (if h then \<lparr>xq_qhndl = m, xq_xcdev = Cdev a\<rparr> else no_qdata)
          \<and> y = (if d then \<lparr>xq_qhndl = n + m, xq_xcdev = Cdev a\<rparr> else no_qdata)
          \<and> cdevs a = Some c \<and> cd_minor c = int m \<and> cd_dir_init c = of_bool h + 2 * of_bool d \<and> cd_fp_rw c
          \<and> (h \<longrightarrow> cd_h2c_qhndl c = m) \<and> (d \<longrightarrow> cd_c2h_qhndl c = n + m))"

definition points_to :: "nat \<Rightarrow> xlnx_qdata list \<Rightarrow> nat \<Rightarrow> nat \<Rightarrow> bool" where
  "points_to n qs m a \<longleftrightarrow> xq_xcdev (qs ! m) = Cdev a \<or> xq_xcdev (qs ! (n + m)) = Cdev a"

definition table_ok :: "nat \<Rightarrow> xlnx_qdata list \<Rightarrow> cdev_heap \<Rightarrow> bool" where
  "table_ok n qs cdevs \<longleftrightarrow> length qs = 2 * n \<and> (\<forall>m<n. pair_ok n cdevs m (qs ! m) (qs ! (n + m)))
     \<and> (\<forall>a c. cdevs a = Some c \<longrightarrow> (\<exists>m<n. cd_minor c = int m \<and> points_to n qs m a))"

definition xp_ok :: "xlnx_pci_dev \<Rightarrow> bool" where
  "xp_ok xp \<longleftrightarrow> lib_shape (xp_lib xp) \<and> unat (xd_qmax (lb_xdev (xp_lib xp))) = unat (xp_qmax xp)
     \<and> uint (xp_qmax xp) \<le> xp_minor_cnt xp \<and> xp_minor_cnt xp \<le> QDMA_MINOR_MAX
     \<and> table_ok (unat (xp_qmax xp)) (xp_qdata xp) (xp_cdevs xp)
     \<and> (\<forall>k < 2 * unat (xp_qmax xp). xp_qdata xp ! k \<noteq> no_qdata \<longrightarrow> in_use (xp_lib xp) k)"

lemma no_qdata_simps [simp]: "xq_qhndl no_qdata = 0" "xq_xcdev no_qdata = NoCdev"
  "\<lparr>xq_qhndl = h, xq_xcdev = Cdev a\<rparr> \<noteq> no_qdata" "no_qdata \<noteq> \<lparr>xq_qhndl = h, xq_xcdev = Cdev a\<rparr>"
  by (simp_all add: no_qdata_def)

lemma pair_okE:
  assumes "pair_ok n cdevs m x y"
  obtains (empty) "x = no_qdata" "y = no_qdata"
  | (used) a c h d where "h \<or> d" "x = (if h then \<lparr>xq_qhndl = m, xq_xcdev = Cdev a\<rparr> else no_qdata)"
      "y = (if d then \<lparr>xq_qhndl = n + m, xq_xcdev = Cdev a\<rparr> else no_qdata)" "cdevs a = Some c" "cd_minor c = int m"
      "cd_dir_init c = of_bool h + 2 * of_bool d" "cd_fp_rw c" "h \<Longrightarrow> cd_h2c_qhndl c = m" "d \<Longrightarrow> cd_c2h_qhndl c = n + m"
  using assms unfolding pair_ok_def by blast

lemma pair_okI:
  assumes "h \<or> d" "x = (if h then \<lparr>xq_qhndl = m, xq_xcdev = Cdev a\<rparr> else no_qdata)"
    "y = (if d then \<lparr>xq_qhndl = n + m, xq_xcdev = Cdev a\<rparr> else no_qdata)" "cdevs a = Some c" "cd_minor c = int m"
    "cd_dir_init c = of_bool h + 2 * of_bool d" "cd_fp_rw c" "h \<Longrightarrow> cd_h2c_qhndl c = m" "d \<Longrightarrow> cd_c2h_qhndl c = n + m"
  shows "pair_ok n cdevs m x y"
  unfolding pair_ok_def using assms by blast

lemma pair_ok_points:
  "pair_ok n cdevs m x y \<Longrightarrow> xq_xcdev x = Cdev a \<or> xq_xcdev y = Cdev a \<Longrightarrow> \<exists>c. cdevs a = Some c \<and> cd_minor c = int m"
  by (auto simp: pair_ok_def split: if_splits)

lemma pair_ok_frame:
  assumes "pair_ok n cdevs m x y" "cdevs a = None \<or> (\<exists>c. cdevs a = Some c \<and> cd_minor c \<noteq> int m)"
  shows "pair_ok n (cdevs(a := z)) m x y"
  using assms(1)
proof (cases rule: pair_okE)
  case empty
  then show ?thesis by (simp add: pair_ok_def)
next
  case (used b c h d)
  then have "b \<noteq> a" using assms(2) by auto
  then show ?thesis using used(4) by (intro pair_okI [OF used(1-3) _ used(5-9)]) simp_all
qed

text \<open>One pair of entries and its device change.\<close>

lemma table_ok_upd:
  assumes T: "table_ok n qs cdevs" and m: "m < n" and pair: "pair_ok n (cdevs(a := z)) m x y"
    and old: "cdevs a = None \<or> (\<exists>c. cdevs a = Some c \<and> cd_minor c = int m)"
    and new: "\<And>c. z = Some c \<Longrightarrow> cd_minor c = int m \<and> (xq_xcdev x = Cdev a \<or> xq_xcdev y = Cdev a)"
    and alone: "\<And>b. points_to n qs m b \<Longrightarrow> b = a"
  shows "table_ok n (qs[m := x, n + m := y]) (cdevs(a := z))"
proof -
  let ?qs = "qs[m := x, n + m := y]"
  note T' = T [unfolded table_ok_def]
  have at: "?qs ! m = x" "?qs ! (n + m) = y" and others: "j < n \<Longrightarrow> j \<noteq> m \<Longrightarrow> ?qs ! j = qs ! j \<and> ?qs ! (n + j) = qs ! (n + j)" for j
    using T' m by (auto simp: nth_list_update)
  have "pair_ok n (cdevs(a := z)) j (?qs ! j) (?qs ! (n + j))" if "j < n" for j
  proof (cases "j = m")
    case True
    then show ?thesis using pair at by simp
  next
    case False
    then show ?thesis
      using others [OF that False] T' that old by (auto intro!: pair_ok_frame)
  qed
  moreover have "\<exists>j<n. cd_minor c = int j \<and> points_to n ?qs j b" if c: "(cdevs(a := z)) b = Some c" for b c
  proof (cases "b = a")
    case True
    then show ?thesis using new [of c] c m at by (auto simp: points_to_def intro!: exI [of _ m])
  next
    case False
    then have "cdevs b = Some c" using c by simp
    then obtain j where j: "j < n" "cd_minor c = int j" "points_to n qs j b" using T' by blast
    then have "j \<noteq> m" using alone False by auto
    then show ?thesis using j others [OF j(1)] by (auto simp: points_to_def)
  qed
  ultimately show ?thesis using T' by (simp add: table_ok_def)
qed

lemma dir_bits:
  "(of_bool h + 2 * of_bool d :: u16) AND NOT (push_bit (of_bool e) 1) = of_bool (h \<and> e) + 2 * of_bool (d \<and> \<not> e)"
  "(of_bool h + 2 * of_bool d :: u16) OR push_bit (of_bool e) 1 = of_bool (h \<or> \<not> e) + 2 * of_bool (d \<or> e)"
  "(of_bool h + 2 * of_bool d :: u16) = 0 \<longleftrightarrow> \<not> h \<and> \<not> d"
  by (cases h; cases d; cases e; simp)+

text \<open>The entry of queue \<open>m\<close> in a direction.\<close>

definition entry :: "nat \<Rightarrow> bool \<Rightarrow> nat \<Rightarrow> nat" where
  "entry n c2h m = (if c2h then n + m else m)"

lemma entry_range: "m < n \<Longrightarrow> entry n c2h m < 2 * n"
  by (simp add: entry_def)

lemma upd_entry:
  assumes "length qs = 2 * n" "m < n"
  shows "qs[entry n c2h m := v] = qs[m := if c2h then qs ! m else v, n + m := if c2h then v else qs ! (n + m)]"
  using assms by (auto simp: entry_def list_eq_iff_nth_eq nth_list_update)

lemma table_entry:
  assumes "table_ok n qs cdevs" "m < n"
  obtains "qs ! entry n c2h m = no_qdata"
  | a c where "qs ! entry n c2h m = \<lparr>xq_qhndl = entry n c2h m, xq_xcdev = Cdev a\<rparr>" "cdevs a = Some c" "cd_minor c = int m"
proof -
  have "pair_ok n cdevs m (qs ! m) (qs ! (n + m))" using assms by (simp add: table_ok_def)
  then show ?thesis
    by (cases rule: pair_okE) (cases c2h; auto simp: entry_def split: if_splits intro: that)+
qed

lemma queue_get_entry:
  assumes ok: "xp_ok xp" and m: "unat qidx < unat (xp_qmax xp)"
  shows "xpdev_queue_get xp qidx c2h check =
     (let k = entry (unat (xp_qmax xp)) c2h (unat qidx)
      in Ok (if check \<and> xp_qdata xp ! k = no_qdata then None else Some k))"
proof -
  let ?k = "entry (unat (xp_qmax xp)) c2h (unat qidx)"
  have T: "table_ok (unat (xp_qmax xp)) (xp_qdata xp) (xp_cdevs xp)" using ok unfolding xp_ok_def by blast
  have k: "unat qidx + (if c2h then unat (xp_qmax xp) else 0) = ?k" by (simp add: entry_def)
  show ?thesis
    using m by (cases rule: table_entry [OF T m, where c2h = c2h])
      (auto simp: xpdev_queue_get_def k word_le_nat_alt Let_def)
qed

lemma queue_get_beyond: "\<not> unat qidx < unat (xp_qmax xp) \<Longrightarrow> xpdev_queue_get xp qidx c2h check = Ok None"
  by (simp add: xpdev_queue_get_def word_le_nat_alt)

text \<open>Taking one direction away leaves the pair as it should be.\<close>

lemma release_dir_ok:
  assumes T: "table_ok n qs cdevs" and m: "m < n" and e: "qs ! entry n c2h m \<noteq> no_qdata"
  shows "\<exists>a c z new. xq_xcdev (qs ! entry n c2h m) = Cdev a \<and> cdevs a = Some c
    \<and> release_dir (Cdev a) c2h cdevs log = Ok (cdevs(a := z), log @ new)
    \<and> table_ok n (qs[entry n c2h m := no_qdata]) (cdevs(a := z))
    \<and> (z = None \<longleftrightarrow> qs ! entry n (\<not> c2h) m = no_qdata)
    \<and> (\<forall>c'. z = Some c' \<longrightarrow> c' = c\<lparr>cd_dir_init := cd_dir_init c AND NOT (push_bit (of_bool c2h) 1)\<rparr>)"
proof -
  have len: "length qs = 2 * n" and P: "pair_ok n cdevs m (qs ! m) (qs ! (n + m))" using T m by (auto simp: table_ok_def)
  from P show ?thesis
  proof (cases rule: pair_okE)
    case empty
    then show ?thesis using e by (simp add: entry_def split: if_splits)
  next
    case (used a c h d)
    have at: "xq_xcdev (qs ! entry n c2h m) = Cdev a" "if c2h then d else h"
      using used e by (auto simp: entry_def split: if_splits)
    let ?h = "h \<and> c2h" and ?d = "d \<and> \<not> c2h"
    let ?c = "c\<lparr>cd_dir_init := cd_dir_init c AND NOT (push_bit (of_bool c2h) 1)\<rparr>"
    let ?z = "if ?h \<or> ?d then Some ?c else None"
    let ?x = "if c2h then qs ! m else no_qdata" and ?y = "if c2h then no_qdata else qs ! (n + m)"
    have dir: "cd_dir_init ?c = of_bool ?h + 2 * of_bool ?d" by (simp add: used(6) dir_bits(1))
    have zero: "cd_dir_init ?c = 0 \<longleftrightarrow> \<not> (?h \<or> ?d)" unfolding dir dir_bits(3) by simp
    obtain new where run: "release_dir (Cdev a) c2h cdevs log = Ok (cdevs(a := ?z), log @ new)"
    proof (cases "?h \<or> ?d")
      case True
      with zero have "release_dir (Cdev a) c2h cdevs log = Ok (cdevs(a := ?z), log @ [])"
        by (simp add: release_dir_def used(4) Let_def)
      then show ?thesis by (rule that)
    next
      case False
      then have z: "?z = None" "cd_dir_init ?c = 0" using zero by auto
      then have "\<exists>new. release_dir (Cdev a) c2h cdevs log = Ok (cdevs(a := ?z), log @ new)"
        unfolding z(1) release_dir_def by (simp add: used(4) Let_def qdma_cdev_destroy_def)
      then show ?thesis using that by blast
    qed
    have pair: "pair_ok n (cdevs(a := ?z)) m ?x ?y"
    proof (cases "?h \<or> ?d")
      case True
      then show ?thesis
        by (intro pair_okI [OF True, where a = a and c = ?c]) (use used dir in auto)
    next
      case False
      then show ?thesis using used(2,3) by (auto simp: pair_ok_def)
    qed
    have T': "table_ok n (qs[m := ?x, n + m := ?y]) (cdevs(a := ?z))"
    proof (rule table_ok_upd [OF T m pair])
      show "cdevs a = None \<or> (\<exists>c. cdevs a = Some c \<and> cd_minor c = int m)" using used by simp
      show "cd_minor c' = int m \<and> (xq_xcdev ?x = Cdev a \<or> xq_xcdev ?y = Cdev a)" if "?z = Some c'" for c'
        using that used by (auto split: if_splits)
      show "b = a" if "points_to n qs m b" for b using that used(2,3) by (auto simp: points_to_def split: if_splits)
    qed
    have none: "?z = None \<longleftrightarrow> qs ! entry n (\<not> c2h) m = no_qdata" 
      using used(2,3) by (cases c2h; cases h; cases d) (simp_all add: entry_def)
    have "\<forall>c'. ?z = Some c' \<longrightarrow> c' = ?c" by simp
    then show ?thesis
      unfolding upd_entry [OF len m] by (intro exI conjI) (rule at(1), rule used(4), rule run, rule T', rule none)
  qed
qed

text \<open>A new direction of a pair without a device, and of one with a device.\<close>

lemma attach_new:
  assumes T: "table_ok n qs cdevs" and m: "m < n" and e: "\<And>d. qs ! entry n d m = no_qdata" and a: "cdevs a = None"
    and c: "cd_minor c = int m" "cd_dir_init c = push_bit (of_bool c2h) 1" "cd_fp_rw c"
      "(if c2h then cd_c2h_qhndl c else cd_h2c_qhndl c) = entry n c2h m"
  shows "table_ok n (qs[entry n c2h m := \<lparr>xq_qhndl = entry n c2h m, xq_xcdev = Cdev a\<rparr>]) (cdevs(a \<mapsto> c))"
proof -
  have len: "length qs = 2 * n" using T by (simp add: table_ok_def)
  have e': "qs ! m = no_qdata" "qs ! (n + m) = no_qdata" using e [of False] e [of True] by (simp_all add: entry_def)
  let ?v = "\<lparr>xq_qhndl = entry n c2h m, xq_xcdev = Cdev a\<rparr>"
  have dir: "cd_dir_init c = of_bool (\<not> c2h) + 2 * of_bool c2h" using c(2) by (cases c2h) simp_all
  show ?thesis
    unfolding upd_entry [OF len m]
  proof (rule table_ok_upd [OF T m])
    show "pair_ok n (cdevs(a \<mapsto> c)) m (if c2h then qs ! m else ?v) (if c2h then ?v else qs ! (n + m))"
      by (rule pair_okI [where h = "\<not> c2h" and d = c2h and a = a and c = c])
        (use e' c dir in \<open>auto simp: entry_def split: if_splits\<close>)
  qed (use a c e' in \<open>auto simp: points_to_def\<close>)
qed

lemma attach_shared:
  assumes T: "table_ok n qs cdevs" and m: "m < n" and e: "qs ! entry n c2h m = no_qdata"
    and p: "xq_xcdev (qs ! entry n (\<not> c2h) m) = Cdev a" and a: "cdevs a = Some c"
    and c': "c' = (if c2h then c\<lparr>cd_c2h_qhndl := entry n c2h m\<rparr> else c\<lparr>cd_h2c_qhndl := entry n c2h m\<rparr>)
        \<lparr>cd_dir_init := cd_dir_init c OR push_bit (of_bool c2h) 1\<rparr>"
  shows "table_ok n (qs[entry n c2h m := \<lparr>xq_qhndl = entry n c2h m, xq_xcdev = Cdev a\<rparr>]) (cdevs(a \<mapsto> c'))"
proof -
  have len: "length qs = 2 * n" and P: "pair_ok n cdevs m (qs ! m) (qs ! (n + m))" using T m by (auto simp: table_ok_def)
  let ?v = "\<lparr>xq_qhndl = entry n c2h m, xq_xcdev = Cdev a\<rparr>"
  from P show ?thesis
  proof (cases rule: pair_okE)
    case empty
    then show ?thesis using p by (cases c2h) (simp_all add: entry_def)
  next
    case (used b c0 h d)
    have b: "b = a" "c0 = c" "h \<longleftrightarrow> c2h" "d \<longleftrightarrow> \<not> c2h"
      using used p e a by (cases c2h; cases h; cases d; auto simp: entry_def)+
    have dir: "cd_dir_init c' = of_bool True + 2 * of_bool True"
      using dir_bits(2) [of h d c2h] used(6) by (cases c2h) (simp_all add: c' b)
    show ?thesis
      unfolding upd_entry [OF len m]
    proof (rule table_ok_upd [OF T m])
      show "pair_ok n (cdevs(a \<mapsto> c')) m (if c2h then qs ! m else ?v) (if c2h then ?v else qs ! (n + m))"
        by (rule pair_okI [where h = True and d = True and a = a and c = c', OF _ _ _ _ _ dir])
          (use used b c' in \<open>auto simp: entry_def split: if_splits\<close>)
      show "cdevs a = None \<or> (\<exists>c. cdevs a = Some c \<and> cd_minor c = int m)" using used b by simp
      show "cd_minor x = int m \<and> (xq_xcdev (if c2h then qs ! m else ?v) = Cdev a \<or> xq_xcdev (if c2h then ?v else qs ! (n + m)) = Cdev a)"
        if "Some c' = Some x" for x using that used b by (auto simp: c')
      show "x = a" if "points_to n qs m x" for x
        using that used(2,3) b by (auto simp: points_to_def split: if_splits)
    qed
  qed
qed

section \<open>Adding and deleting queues\<close>

lemma xp_okD:
  assumes "xp_ok xp"
  shows "lib_shape (xp_lib xp)" "unat (xd_qmax (lb_xdev (xp_lib xp))) = unat (xp_qmax xp)" "unat (xp_qmax xp) \<le> 2048"
    "table_ok (unat (xp_qmax xp)) (xp_qdata xp) (xp_cdevs xp)" "length (xp_qdata xp) = 2 * unat (xp_qmax xp)"
    "k < 2 * unat (xp_qmax xp) \<Longrightarrow> xp_qdata xp ! k \<noteq> no_qdata \<Longrightarrow> in_use (xp_lib xp) k"
proof -
  note ok = assms [unfolded xp_ok_def QDMA_MINOR_MAX_def]
  show "lib_shape (xp_lib xp)" using ok by blast
  show "unat (xd_qmax (lb_xdev (xp_lib xp))) = unat (xp_qmax xp)" using ok by blast
  have "uint (xp_qmax xp) \<le> xp_minor_cnt xp" "xp_minor_cnt xp \<le> 2048" using ok by blast+
  then have "uint (xp_qmax xp) \<le> 2048" by simp
  then have "nat (uint (xp_qmax xp)) \<le> nat 2048" by (rule nat_mono)
  then show "unat (xp_qmax xp) \<le> 2048" by (simp only: unat_eq_nat_uint nat_numeral)
  show "table_ok (unat (xp_qmax xp)) (xp_qdata xp) (xp_cdevs xp)" using ok by blast
  then show "length (xp_qdata xp) = 2 * unat (xp_qmax xp)" unfolding table_ok_def by blast
  show "k < 2 * unat (xp_qmax xp) \<Longrightarrow> xp_qdata xp ! k \<noteq> no_qdata \<Longrightarrow> in_use (xp_lib xp) k" using ok by blast
qed

lemma xp_ok_upd:
  assumes ok: "xp_ok xp" and table: "table_ok (unat (xp_qmax xp)) ((xp_qdata xp)[k := v]) cdevs"
    and k: "k < 2 * unat (xp_qmax xp)" and keep: "lib_keeps ks (xp_lib xp) lib" "ks \<subseteq> {k}"
    and v: "v \<noteq> no_qdata \<Longrightarrow> in_use lib k"
  shows "xp_ok (xp\<lparr>xp_qdata := (xp_qdata xp)[k := v], xp_cdevs := cdevs, xp_log := log, xp_lib := lib, xp_trace := tr\<rparr>)"
proof -
  have "in_use lib j" if "j < 2 * unat (xp_qmax xp)" "(xp_qdata xp)[k := v] ! j \<noteq> no_qdata" for j
    using that keep v xp_okD(5,6) [OF ok] k by (cases "j = k") (auto simp: lib_keeps_def)
  then show ?thesis
    using ok table keep(1) by (simp add: xp_ok_def lib_keeps_def)
qed

lemma xp_ok_lib:
  assumes "xp_ok xp" "lib_keeps {} (xp_lib xp) lib"
  shows "xp_ok (xp\<lparr>xp_lib := lib, xp_trace := tr\<rparr>)"
  using assms by (simp add: xp_ok_def lib_keeps_def)

text \<open>What deleting the entry \<open>k\<close> does.\<close>

definition deleted :: "nat \<Rightarrow> bool \<Rightarrow> nat \<Rightarrow> xlnx_pci_dev \<Rightarrow> xlnx_pci_dev \<Rightarrow> bool" where
  "deleted n c2h m xp xp' \<longleftrightarrow> xp_qdata xp' = (xp_qdata xp)[entry n c2h m := no_qdata]
     \<and> \<not> in_use (xp_lib xp') (entry n c2h m)
     \<and> (\<exists>a c z. xq_xcdev (xp_qdata xp ! entry n c2h m) = Cdev a \<and> xp_cdevs xp a = Some c
          \<and> xp_cdevs xp' = (xp_cdevs xp)(a := z) \<and> (z = None \<longleftrightarrow> xp_qdata xp ! entry n (\<not> c2h) m = no_qdata)
          \<and> (\<forall>c'. z = Some c' \<longrightarrow> c' = c\<lparr>cd_dir_init := cd_dir_init c AND NOT (push_bit (of_bool c2h) 1)\<rparr>))"

lemma delete_ok:
  assumes ok: "xp_ok xp"
  shows "\<exists>rv xp'. xpdev_queue_delete E xp qidx c2h = Ok (rv, xp') \<and> xp_ok xp' \<and> xp_qmax xp' = xp_qmax xp
    \<and> (if unat qidx < unat (xp_qmax xp) \<and> xp_qdata xp ! entry (unat (xp_qmax xp)) c2h (unat qidx) \<noteq> no_qdata
        then rv = 0 \<and> deleted (unat (xp_qmax xp)) c2h (unat qidx) xp xp' else rv = - EINVAL \<and> xp' = xp)"
proof (cases "unat qidx < unat (xp_qmax xp) \<and> xp_qdata xp ! entry (unat (xp_qmax xp)) c2h (unat qidx) \<noteq> no_qdata")
  case False
  then have "xpdev_queue_get xp qidx c2h True = Ok None"
    using queue_get_entry [OF ok, of qidx c2h True] queue_get_beyond [of qidx xp] by (auto simp: Let_def)
  then show ?thesis using False ok by (auto simp: xpdev_queue_delete_def)
next
  case True
  let ?n = "unat (xp_qmax xp)"
  let ?k = "entry ?n c2h (unat qidx)"
  note D = xp_okD [OF ok]
  have m: "unat qidx < ?n" and e: "xp_qdata xp ! ?k \<noteq> no_qdata" using True by auto
  have k: "?k < 2 * ?n" using m by (rule entry_range)
  have get: "xpdev_queue_get xp qidx c2h True = Ok (Some ?k)" using queue_get_entry [OF ok m] e by (simp add: Let_def)
  have h: "xq_qhndl (xp_qdata xp ! ?k) = ?k"
    using e by (cases rule: table_entry [OF D(4) m, where c2h = c2h]) simp_all
  have inv: "?k \<noteq> unat QDMA_QUEUE_IDX_INVALID" using k D(3) by (simp add: QDMA_QUEUE_IDX_INVALID_def)
  obtain a c z new where rel: "xq_xcdev (xp_qdata xp ! ?k) = Cdev a" "xp_cdevs xp a = Some c"
      "release_dir (Cdev a) c2h (xp_cdevs xp) (xp_log xp) = Ok ((xp_cdevs xp)(a := z), xp_log xp @ new)"
      "table_ok ?n ((xp_qdata xp)[?k := no_qdata]) ((xp_cdevs xp)(a := z))"
      "z = None \<longleftrightarrow> xp_qdata xp ! entry ?n (\<not> c2h) (unat qidx) = no_qdata"
      "\<forall>c'. z = Some c' \<longrightarrow> c' = c\<lparr>cd_dir_init := cd_dir_init c AND NOT (push_bit (of_bool c2h) 1)\<rparr>"
    using release_dir_ok [OF D(4) m e] by blast
  obtain rv lib tr where rm: "qdma_queue_remove E ?k (xp_lib xp) (xp_trace xp) = (rv, lib, tr)" by (metis prod_cases3)
  note R = queue_remove_in_use [OF D(1) rm]
  let ?xp = "xp\<lparr>xp_qdata := (xp_qdata xp)[?k := no_qdata], xp_cdevs := (xp_cdevs xp)(a := z), xp_log := xp_log xp @ new,
    xp_lib := lib, xp_trace := tr\<rparr>"
  have "xpdev_queue_delete E xp qidx c2h = Ok (rv, ?xp)"
    by (simp add: xpdev_queue_delete_def get rel(1,3) h inv rm)
  moreover have "xp_ok ?xp" by (rule xp_ok_upd [OF ok rel(4) k R(1)]) simp_all
  moreover have "rv = 0" "\<not> in_use lib ?k" using R(2) [OF D(6) [OF k e]] by simp_all
  moreover then have "deleted ?n c2h (unat qidx) xp ?xp"
    unfolding deleted_def
    by (intro conjI exI [of _ a] exI [of _ c] exI [of _ z] rel(1,2,5,6)) simp_all
  ultimately show ?thesis unfolding if_P [OF True] by (intro exI [of _ rv] exI [of _ ?xp] conjI) simp_all
qed

text \<open>The kernel's answers to a creation that succeeds: the memory is not in use.\<close>

definition creates :: "cdev_env \<Rightarrow> cdev_heap \<Rightarrow> bool" where
  "creates K cdevs \<longleftrightarrow> (\<exists>a. ce_addr K = Some a \<and> cdevs a = None) \<and> 0 \<le> ce_add K \<and> (ce_class K \<longrightarrow> ce_device K = 0)"

text \<open>What adding the entry \<open>k\<close> does: a device of its own, or the pair's.\<close>

definition added :: "nat \<Rightarrow> bool \<Rightarrow> nat \<Rightarrow> xlnx_pci_dev \<Rightarrow> xlnx_pci_dev \<Rightarrow> bool" where
  "added n c2h m xp xp' \<longleftrightarrow> m < n \<and> xp_qdata xp ! entry n c2h m = no_qdata \<and> in_use (xp_lib xp') (entry n c2h m)
     \<and> (\<exists>a c. xp_qdata xp' = (xp_qdata xp)[entry n c2h m := \<lparr>xq_qhndl = entry n c2h m, xq_xcdev = Cdev a\<rparr>]
          \<and> xp_cdevs xp' = (xp_cdevs xp)(a \<mapsto> c)
          \<and> (if xp_qdata xp ! entry n (\<not> c2h) m = no_qdata
             then xp_cdevs xp a = None \<and> cd_dir_init c = push_bit (of_bool c2h) 1
             else xq_xcdev (xp_qdata xp ! entry n (\<not> c2h) m) = Cdev a
               \<and> (\<exists>c0. xp_cdevs xp a = Some c0 \<and> cd_minor c = cd_minor c0
                   \<and> cd_dir_init c = cd_dir_init c0 OR push_bit (of_bool c2h) 1)))"

lemma add_index:
  assumes ok: "xp_ok xp" and run: "qdma_queue_add E fits qconf (xp_lib xp) (xp_trace xp) = Ok (rv, h, conf, lib, tr)"
    and rv: "\<not> rv < 0"
  obtains m where "m < unat (xp_qmax xp)" "h = entry (unat (xp_qmax xp)) (qc_c2h qconf) m"
    "conf = qconf\<lparr>qc_qidx := of_nat m\<rparr>" "\<not> in_use (xp_lib xp) h" "in_use lib h" "unat (qc_qidx conf) = m"
    "qc_qidx qconf \<noteq> QDMA_QUEUE_IDX_INVALID \<Longrightarrow> conf = qconf"
    "xp_ok (xp\<lparr>xp_lib := lib, xp_trace := tr\<rparr>)"
    "\<And>d. xpdev_queue_get (xp\<lparr>xp_lib := lib, xp_trace := tr\<rparr>) (ucast (qc_qidx conf)) d False
      = Ok (Some (entry (unat (xp_qmax xp)) d m))"
proof -
  let ?xp = "xp\<lparr>xp_lib := lib, xp_trace := tr\<rparr>"
  note D = xp_okD [OF ok]
  note A = queue_add_in_use [OF D(1) run, unfolded D(2)]
  have ok': "xp_ok ?xp" by (rule xp_ok_lib [OF ok A(1)])
  from A(2) rv obtain m where m: "m < unat (xp_qmax xp)" and h: "h = entry (unat (xp_qmax xp)) (qc_c2h qconf) m"
    and conf: "conf = qconf\<lparr>qc_qidx := of_nat m\<rparr>" and free: "\<not> in_use (xp_lib xp) h" "in_use lib h"
    and fixed: "qc_qidx qconf \<noteq> QDMA_QUEUE_IDX_INVALID \<longrightarrow> m = unat (qc_qidx qconf)"
    by (auto simp: entry_def)
  have idx: "unat (qc_qidx conf) = m" using m D(3) by (simp add: conf unsigned_of_nat take_bit_nat_eq_self)
  then have idx32: "unat (ucast (qc_qidx conf) :: u32) = m" using m D(3) by (simp add: unsigned_ucast_eq take_bit_nat_eq_self)
  have "xpdev_queue_get ?xp (ucast (qc_qidx conf)) d False = Ok (Some (entry (unat (xp_qmax xp)) d m))" for d
    using queue_get_entry [OF ok', of "ucast (qc_qidx conf)" d False] m idx32 by (simp add: Let_def)
  moreover have "qc_qidx qconf \<noteq> QDMA_QUEUE_IDX_INVALID \<Longrightarrow> conf = qconf" using fixed by (simp add: conf)
  ultimately show ?thesis using that m h conf free idx ok' by blast
qed

lemma add_ok:
  assumes ok: "xp_ok xp" and K: "creates K (xp_cdevs xp)"
  shows "\<exists>rv conf xp'. xpdev_queue_add E K fits xp qconf = Ok (rv, conf, xp') \<and> xp_ok xp' \<and> xp_qmax xp' = xp_qmax xp
    \<and> (rv < 0 \<and> xp_qdata xp' = xp_qdata xp \<and> xp_cdevs xp' = xp_cdevs xp
       \<or> rv = 0 \<and> conf = qconf\<lparr>qc_qidx := qc_qidx conf\<rparr> \<and> (qc_qidx qconf \<noteq> QDMA_QUEUE_IDX_INVALID \<longrightarrow> conf = qconf)
           \<and> added (unat (xp_qmax xp)) (qc_c2h qconf) (unat (qc_qidx conf)) xp xp')
    \<and> (\<exists>r h l t. qdma_queue_add E fits qconf (xp_lib xp) (xp_trace xp) = Ok (r, h, conf, l, t) \<and> rv = min r 0)"
proof -
  let ?n = "unat (xp_qmax xp)" and ?c2h = "qc_c2h qconf"
  note D = xp_okD [OF ok]
  obtain rv h conf lib tr where run: "qdma_queue_add E fits qconf (xp_lib xp) (xp_trace xp) = Ok (rv, h, conf, lib, tr)"
    using queue_add_returns [OF D(1)] by (metis not_Bad surj_pair)
  note A = queue_add_in_use [OF D(1) run, unfolded D(2)]
  let ?xp = "xp\<lparr>xp_lib := lib, xp_trace := tr\<rparr>"
  have ok': "xp_ok ?xp" by (rule xp_ok_lib [OF ok A(1)])
  show ?thesis
  proof (cases "rv < 0")
    case True
    then show ?thesis using ok' run by (auto simp: xpdev_queue_add_def)
  next
    case False
    then obtain m where m: "m < ?n" and h: "h = entry ?n ?c2h m" and conf: "conf = qconf\<lparr>qc_qidx := of_nat m\<rparr>"
      and free: "\<not> in_use (xp_lib xp) h" "in_use lib h" and idx: "unat (qc_qidx conf) = m"
      and fixed: "qc_qidx qconf \<noteq> QDMA_QUEUE_IDX_INVALID \<Longrightarrow> conf = qconf" and get: "\<And>d. xpdev_queue_get ?xp (ucast (qc_qidx conf)) d False = Ok (Some (entry ?n d m))"
      by (elim add_index [OF ok run]) simp
    let ?k = "entry ?n ?c2h m" and ?p = "entry ?n (\<not> ?c2h) m"
    have k: "?k < 2 * ?n" using m by (rule entry_range)
    have e: "xp_qdata xp ! ?k = no_qdata" using D(6) [OF k] free(1) h by blast
    have c2h: "qc_c2h conf = ?c2h" by (simp add: conf)
    have conf': "conf = qconf\<lparr>qc_qidx := qc_qidx conf\<rparr>" by (simp add: conf)
    have result: ?thesis if "xpdev_queue_add E K fits xp qconf = Ok (0, conf, xp')" "xp_ok xp'" "xp_qmax xp' = xp_qmax xp"
      "added ?n ?c2h m xp xp'" for xp'
    proof -
      have "\<exists>r h l t. qdma_queue_add E fits qconf (xp_lib xp) (xp_trace xp) = Ok (r, h, conf, l, t) \<and> 0 = min r 0"
        using False by (simp add: run)
      then show ?thesis using that idx conf' fixed by blast
    qed
    show ?thesis
    proof (cases rule: table_entry [OF D(4) m, where c2h = "\<not> ?c2h"])
      case 1
      obtain a where a: "ce_addr K = Some a" "xp_cdevs xp a = None" using K by (auto simp: creates_def)
      have minor: "uint (qc_qidx conf) = int m" using idx by (metis uint_nat)
      have cnt: "\<not> xp_minor_cnt xp \<le> uint (qc_qidx conf)"
      proof -
        have "uint (xp_qmax xp) \<le> xp_minor_cnt xp" using ok unfolding xp_ok_def by blast
        moreover have "int m < uint (xp_qmax xp)" using m by (metis of_nat_less_iff uint_nat)
        ultimately show ?thesis by (simp add: minor)
      qed
      let ?c = "\<lparr>cd_minor = int m, cd_c2h_qhndl = (if ?c2h then h else 0), cd_h2c_qhndl = (if ?c2h then 0 else h),
        cd_dir_init = push_bit (of_bool ?c2h) 1, cd_sys_device = ce_class K, cd_aio_wq = ce_wq K, cd_fp_rw = True\<rparr>"
      obtain log where create: "qdma_cdev_create K (xp_minor_cnt xp) conf (uint (qc_qidx conf)) h (xp_cdevs xp) (xp_log xp)
          = (0, Some a, (xp_cdevs xp)(a \<mapsto> ?c), log)"
        using K cnt by (simp add: qdma_cdev_create_def a(1) creates_def Let_def c2h minor)
      let ?xp' = "xp\<lparr>xp_qdata := (xp_qdata xp)[?k := \<lparr>xq_qhndl = ?k, xq_xcdev = Cdev a\<rparr>],
        xp_cdevs := (xp_cdevs xp)(a \<mapsto> ?c), xp_log := log, xp_lib := lib, xp_trace := tr\<rparr>"
      have "xpdev_queue_add E K fits xp qconf = Ok (0, conf, ?xp')"
        unfolding xpdev_queue_add_def run outcome.case prod.case Let_def get c2h
        using False by (simp add: 1 create) (simp add: h)
      moreover have "table_ok ?n ((xp_qdata xp)[?k := \<lparr>xq_qhndl = ?k, xq_xcdev = Cdev a\<rparr>]) ((xp_cdevs xp)(a \<mapsto> ?c))"
      proof (rule attach_new [OF D(4) m _ a(2)])
        show "xp_qdata xp ! entry ?n d m = no_qdata" for d using e 1 by (cases "d = ?c2h") auto
      qed (simp_all add: h)
      then have "xp_ok ?xp'" by (rule xp_ok_upd [OF ok _ k A(1)]) (use free h in simp_all)
      moreover have "added ?n ?c2h m xp ?xp'" 
        unfolding added_def by (intro conjI exI [of _ a] exI [of _ ?c]) (use m e free(2) 1 a(2) h in simp_all)
      ultimately show ?thesis by (intro result) simp_all
    next
      case (2 a c)
      let ?c = "(if ?c2h then c\<lparr>cd_c2h_qhndl := ?k\<rparr> else c\<lparr>cd_h2c_qhndl := ?k\<rparr>)
        \<lparr>cd_dir_init := cd_dir_init c OR push_bit (of_bool ?c2h) 1\<rparr>"
      let ?xp' = "xp\<lparr>xp_qdata := (xp_qdata xp)[?k := \<lparr>xq_qhndl = ?k, xq_xcdev = Cdev a\<rparr>],
        xp_cdevs := (xp_cdevs xp)(a \<mapsto> ?c), xp_log := xp_log xp, xp_lib := lib, xp_trace := tr\<rparr>"
      have p: "xq_xcdev (xp_qdata xp ! ?p) = Cdev a" using 2(1) by simp
      have "xpdev_queue_add E K fits xp qconf = Ok (0, conf, ?xp')"
        unfolding xpdev_queue_add_def run outcome.case prod.case Let_def get c2h
        using False by (simp add: p 2(2)) (simp add: h)
      moreover have "table_ok ?n ((xp_qdata xp)[?k := \<lparr>xq_qhndl = ?k, xq_xcdev = Cdev a\<rparr>]) ((xp_cdevs xp)(a \<mapsto> ?c))"
        by (rule attach_shared [OF D(4) m e p 2(2) refl])
      then have "xp_ok ?xp'" by (rule xp_ok_upd [OF ok _ k A(1)]) (use free h in simp_all)
      moreover have "added ?n ?c2h m xp ?xp'" 
        unfolding added_def by (intro conjI exI [of _ a] exI [of _ ?c]) (use m e free(2) 2 p h in simp_all)
      ultimately show ?thesis by (intro result) simp_all
    qed
  qed
qed

section \<open>Tearing the table down\<close>

text \<open>Each device is named by as many entries as it has directions.\<close>

lemma cleanup_counted:
  assumes "\<And>a. count_list (map xq_xcdev qs) (Cdev a) = (case cdevs a of None \<Rightarrow> 0 | Some c \<Rightarrow> if cd_dir_init c = 3 then 2 else 1)"
    and "\<And>a c. cdevs a = Some c \<Longrightarrow> cd_dir_init c = 1 \<or> cd_dir_init c = 2 \<or> cd_dir_init c = 3"
    and "Uninit \<notin> xq_xcdev ` set qs"
  shows "\<exists>new. cleanup_qdata qs cdevs log = Ok (Map.empty, log @ new)
    \<and> (\<forall>a. count_list new (CdevFree a) = (if cdevs a = None then 0 else 1))"
  using assms
proof (induction qs arbitrary: cdevs log)
  case Nil
  have "cdevs a = None" for a using Nil(1) [of a] by (cases "cdevs a") (auto split: if_splits)
  then show ?case by (simp add: fun_eq_iff)
next
  case (Cons q qs)
  show ?case
  proof (cases "xq_xcdev q")
    case NoCdev
    then show ?thesis using Cons.IH [of cdevs log] Cons.prems by simp
  next
    case Uninit
    then show ?thesis using Cons.prems(3) by simp
  next
    case (Cdev a)
    have "count_list (map xq_xcdev (q # qs)) (Cdev a) \<noteq> 0" using Cdev by simp
    then obtain c where c: "cdevs a = Some c" using Cons.prems(1) [of a] by (cases "cdevs a") simp_all
    have rest: "count_list (map xq_xcdev qs) (Cdev b) = (case cdevs b of None \<Rightarrow> 0 | Some c \<Rightarrow> if cd_dir_init c = 3 then 2 else 1)
        - (if b = a then 1 else 0)" for b
      using Cons.prems(1) [of b] Cdev by auto
    show ?thesis
    proof (cases "cd_dir_init c = 3")
      case True
      have "\<exists>new. cleanup_qdata qs (cdevs(a \<mapsto> c\<lparr>cd_dir_init := 1\<rparr>)) log = Ok (Map.empty, log @ new)
        \<and> (\<forall>b. count_list new (CdevFree b) = (if (cdevs(a \<mapsto> c\<lparr>cd_dir_init := 1\<rparr>)) b = None then 0 else 1))"
      proof (rule Cons.IH)
        show "count_list (map xq_xcdev qs) (Cdev b) = (case (cdevs(a \<mapsto> c\<lparr>cd_dir_init := 1\<rparr>)) b of None \<Rightarrow> 0
            | Some c \<Rightarrow> if cd_dir_init c = 3 then 2 else 1)" for b
          using rest [of b] c True by auto
      qed (use Cons.prems in \<open>auto split: if_splits\<close>)
      moreover have "cleanup_qdata (q # qs) cdevs log = cleanup_qdata qs (cdevs(a \<mapsto> c\<lparr>cd_dir_init := 1\<rparr>)) log"
        using Cdev c True by (simp add: drop_bit_eq_div)
      moreover have "((cdevs(a \<mapsto> c\<lparr>cd_dir_init := 1\<rparr>)) b = None) = (cdevs b = None)" for b using c by simp
      ultimately show ?thesis by simp
    next
      case False
      let ?ev = "(if cd_aio_wq c then [WqDestroy a] else []) @ (if cd_sys_device c then [DeviceDestroy (cd_minor c)] else [])
        @ [CdevDel (cd_minor c), CdevFree a]"
      have "\<exists>new. cleanup_qdata qs (cdevs(a := None)) (log @ ?ev) = Ok (Map.empty, (log @ ?ev) @ new)
        \<and> (\<forall>b. count_list new (CdevFree b) = (if (cdevs(a := None)) b = None then 0 else 1))"
      proof (rule Cons.IH)
        show "count_list (map xq_xcdev qs) (Cdev b) = (case (cdevs(a := None)) b of None \<Rightarrow> 0
            | Some c \<Rightarrow> if cd_dir_init c = 3 then 2 else 1)" for b
          using rest [of b] c False by auto
      qed (use Cons.prems in \<open>auto split: if_splits\<close>)
      then obtain new where new: "cleanup_qdata qs (cdevs(a := None)) (log @ ?ev) = Ok (Map.empty, (log @ ?ev) @ new)"
        "\<forall>b. count_list new (CdevFree b) = (if (cdevs(a := None)) b = None then 0 else 1)" by blast
      have "cd_dir_init c = 1 \<or> cd_dir_init c = 2" using Cons.prems(2) [OF c] False by blast
      then have "cleanup_qdata (q # qs) cdevs log = Ok (Map.empty, log @ ?ev @ new)"
        using new(1) Cdev c by (simp add: qdma_cdev_destroy_def)
      moreover have "\<forall>b. count_list (?ev @ new) (CdevFree b) = (if cdevs b = None then 0 else 1)"
        using new(2) c by auto
      ultimately show ?thesis by blast
    qed
  qed
qed

lemma two_points:
  "(\<And>i. i \<in> S \<Longrightarrow> i = x \<or> i = y) \<Longrightarrow> (x \<in> S \<longleftrightarrow> h) \<Longrightarrow> (y \<in> S \<longleftrightarrow> d)
     \<Longrightarrow> S = (if h then {x} else {}) \<union> (if d then {y} else {})"
  by auto

lemma table_counts:
  assumes T: "table_ok n qs cdevs"
  shows "count_list (map xq_xcdev qs) (Cdev a) = (case cdevs a of None \<Rightarrow> 0 | Some c \<Rightarrow> if cd_dir_init c = 3 then 2 else 1)"
    and "cdevs a = Some c \<Longrightarrow> cd_dir_init c = 1 \<or> cd_dir_init c = 2 \<or> cd_dir_init c = 3"
    and "Uninit \<notin> xq_xcdev ` set qs"
proof -
  have len: "length qs = 2 * n" using T by (simp add: table_ok_def)
  have P: "m < n \<Longrightarrow> pair_ok n cdevs m (qs ! m) (qs ! (n + m))" for m using T by (simp add: table_ok_def)
  have at: "\<exists>m<n. i = m \<or> i = n + m" if "i < 2 * n" for i
    using that by (cases "i < n") (auto intro: exI [of _ "i - n"])
  let ?S = "{i. i < 2 * n \<and> xq_xcdev (qs ! i) = Cdev a}"
  have count: "count_list (map xq_xcdev qs) (Cdev a) = card ?S"
    by (simp add: count_list_eq_length_filter length_filter_conv_card len eq_commute cong: conj_cong)
  have S: "i \<in> ?S \<Longrightarrow> \<exists>m<n. (i = m \<or> i = n + m) \<and> (\<exists>c. cdevs a = Some c \<and> cd_minor c = int m)" for i
    using at [of i] pair_ok_points [OF P] by fastforce
  have used: "\<exists>m<n. cd_minor c = int m \<and> (\<exists>h d. (h \<or> d) \<and> ?S = (if h then {m} else {}) \<union> (if d then {n + m} else {})
      \<and> cd_dir_init c = of_bool h + 2 * of_bool d)" if c: "cdevs a = Some c" for c
  proof -
    obtain m where m: "m < n" "cd_minor c = int m" "points_to n qs m a" using T c unfolding table_ok_def by blast
    from P [OF m(1)] show ?thesis
    proof (cases rule: pair_okE)
      case empty
      then show ?thesis using m(3) by (simp add: points_to_def)
    next
      case (used b c0 h d)
      have b: "b = a" "c0 = c" using m(3) used(2,3,4) c by (auto simp: points_to_def split: if_splits)
      have only: "i = m \<or> i = n + m" if "i \<in> ?S" for i using S [OF that] c m(2) by auto
      have both: "m \<in> ?S \<longleftrightarrow> h" "n + m \<in> ?S \<longleftrightarrow> d"
        using m(1) b(1) by (simp_all add: used(2,3))
      have "?S = (if h then {m} else {}) \<union> (if d then {n + m} else {})" by (rule two_points [OF only both])
      then show ?thesis using m used(1,6) b by blast
    qed
  qed
  show "cd_dir_init c = 1 \<or> cd_dir_init c = 2 \<or> cd_dir_init c = 3" if "cdevs a = Some c"
  proof -
    from used [OF that] obtain h d where "h \<or> d" "cd_dir_init c = of_bool h + 2 * of_bool d" by blast
    then show ?thesis by (cases h; cases d) simp_all
  qed
  show "count_list (map xq_xcdev qs) (Cdev a) = (case cdevs a of None \<Rightarrow> 0 | Some c \<Rightarrow> if cd_dir_init c = 3 then 2 else 1)"
  proof (cases "cdevs a")
    case None
    then have "?S = {}" using S by fastforce
    then show ?thesis using None count by simp
  next
    case (Some c)
    from used [OF this] obtain m h d where "m < n" "h \<or> d" "?S = (if h then {m} else {}) \<union> (if d then {n + m} else {})"
      "cd_dir_init c = of_bool h + 2 * of_bool d" by blast
    then show ?thesis unfolding count using Some by (cases h; cases d) simp_all
  qed
  show "Uninit \<notin> xq_xcdev ` set qs"
  proof
    assume "Uninit \<in> xq_xcdev ` set qs"
    then obtain i where i: "i < 2 * n" "xq_xcdev (qs ! i) = Uninit" by (metis imageE in_set_conv_nth len)
    from at [OF i(1)] obtain m where m: "m < n" "i = m \<or> i = n + m" by blast
    from P [OF m(1)] show False
      by (cases rule: pair_okE) (use i m in \<open>auto split: if_splits\<close>)
  qed
qed

lemma cleanup_ok:
  assumes "xp_ok xp"
  shows "\<exists>new. xpdev_device_cleanup xp = Ok (xp\<lparr>xp_qdata := replicate (2 * unat (xp_qmax xp)) no_qdata, xp_cdevs := Map.empty,
      xp_log := xp_log xp @ new\<rparr>)
    \<and> (\<forall>a. count_list new (CdevFree a) = (if xp_cdevs xp a = None then 0 else 1))"
proof -
  note D = xp_okD [OF assms]
  have "\<exists>new. cleanup_qdata (xp_qdata xp) (xp_cdevs xp) (xp_log xp) = Ok (Map.empty, xp_log xp @ new)
      \<and> (\<forall>a. count_list new (CdevFree a) = (if xp_cdevs xp a = None then 0 else 1))"
    by (rule cleanup_counted) (rule table_counts [OF D(4)], assumption?)+
  then show ?thesis by (auto simp: xpdev_device_cleanup_def map_replicate_const D(5))
qed

section \<open>Runs\<close>

text \<open>
  \<open>xpdev_alloc\<close>, which either allocator may serve, and the table that it makes after
  \<open>qdma_cdev_device_init\<close> has set the number of minor numbers.
\<close>

definition xpdev_alloc :: "bool \<Rightarrow> bool \<Rightarrow> u32 \<Rightarrow> qdma_lib \<Rightarrow> trace \<Rightarrow> xlnx_pci_dev option" where
  "xpdev_alloc kmem vmem qmax lib tr =
     (if kmem \<or> vmem
      then Some \<lparr>xp_qmax = qmax, xp_minor_cnt = 0, xp_qdata = replicate (2 * unat qmax) no_qdata,
                 xp_cdevs = Map.empty, xp_log = [], xp_lib = lib, xp_trace = tr\<rparr>
      else None)"

text \<open>
  The calls on the table, as long as devices can be created, with other calls of the library between them: these keep
  the number of queues and the queues in use (starting, stopping and requests do).
\<close>

inductive xp_run :: "xlnx_pci_dev \<Rightarrow> xlnx_pci_dev \<Rightarrow> bool" where
  start: "xp_run xp xp"
| add: "xp_run xp0 xp \<Longrightarrow> creates K (xp_cdevs xp) \<Longrightarrow> xpdev_queue_add E K fits xp qconf = Ok (rv, conf, xp')
    \<Longrightarrow> xp_run xp0 xp'"
| delete: "xp_run xp0 xp \<Longrightarrow> xpdev_queue_delete E xp qidx c2h = Ok (rv, xp') \<Longrightarrow> xp_run xp0 xp'"
| others: "xp_run xp0 xp \<Longrightarrow> lib_keeps {} (xp_lib xp) lib \<Longrightarrow> xp_run xp0 (xp\<lparr>xp_lib := lib, xp_trace := tr\<rparr>)"

lemma run_ok: "xp_run xp0 xp \<Longrightarrow> xp_ok xp0 \<Longrightarrow> xp_ok xp \<and> xp_qmax xp = xp_qmax xp0"
proof (induction rule: xp_run.induct)
  case (add xp0 xp K E fits qconf rv conf xp')
  then show ?case using add_ok [of xp K E fits qconf] by auto
next
  case (delete xp0 xp E qidx c2h rv xp')
  then show ?case using delete_ok [of xp E qidx c2h] by (auto split: if_splits)
next
  case (others xp0 xp lib tr)
  then show ?case by (simp add: xp_ok_lib)
qed simp

text \<open>
  C35.  Adding a queue and deleting it again leaves the table, and for each device its minor number and its
  directions, as they were; the queue that was added was not in use before and is not afterwards.
\<close>

theorem add_then_delete:
  assumes "xp_ok xp" "creates K (xp_cdevs xp)" "xpdev_queue_add E K fits xp qconf = Ok (rv, conf, xp1)" "0 \<le> rv"
  shows "\<exists>xp2. xpdev_queue_delete E' xp1 (ucast (qc_qidx conf)) (qc_c2h qconf) = Ok (0, xp2)
    \<and> xp_qdata xp2 = xp_qdata xp
    \<and> (\<forall>a. map_option (\<lambda>c. (cd_minor c, cd_dir_init c)) (xp_cdevs xp2 a) = map_option (\<lambda>c. (cd_minor c, cd_dir_init c)) (xp_cdevs xp a))
    \<and> \<not> in_use (xp_lib xp2) (entry (unat (xp_qmax xp)) (qc_c2h qconf) (unat (qc_qidx conf)))"
proof -
  let ?n = "unat (xp_qmax xp)" and ?c2h = "qc_c2h qconf" and ?m = "unat (qc_qidx conf)"
  have ok1: "xp_ok xp1" "xp_qmax xp1 = xp_qmax xp" and A: "added ?n ?c2h ?m xp xp1"
    using add_ok [OF assms(1,2), of E fits qconf] assms(3,4) by auto
  note D = xp_okD [OF assms(1)]
  have "?m < 2 ^ 32" using unsigned_less [of "qc_qidx conf", where 'a = nat] by simp
  then have idx: "unat (ucast (qc_qidx conf) :: u32) = ?m" by (simp add: unsigned_ucast_eq take_bit_nat_eq_self)
  let ?k = "entry ?n ?c2h ?m" and ?p = "entry ?n (\<not> ?c2h) ?m"
  let ?v = "\<lambda>a. \<lparr>xq_qhndl = ?k, xq_xcdev = Cdev a\<rparr>"
  from A obtain a c where m: "?m < ?n" and e: "xp_qdata xp ! ?k = no_qdata" and q1: "xp_qdata xp1 = (xp_qdata xp)[?k := ?v a]"
    and c1: "xp_cdevs xp1 = (xp_cdevs xp)(a \<mapsto> c)"
    and shared: "if xp_qdata xp ! ?p = no_qdata then xp_cdevs xp a = None \<and> cd_dir_init c = push_bit (of_bool ?c2h) 1
       else xq_xcdev (xp_qdata xp ! ?p) = Cdev a \<and> (\<exists>c0. xp_cdevs xp a = Some c0 \<and> cd_minor c = cd_minor c0
         \<and> cd_dir_init c = cd_dir_init c0 OR push_bit (of_bool ?c2h) 1)"
    unfolding added_def by blast
  have k: "?k < length (xp_qdata xp)" "?p \<noteq> ?k" using entry_range [OF m] m D(5) by (auto simp: entry_def)
  have e1: "xp_qdata xp1 ! ?k = ?v a" "xp_qdata xp1 ! ?p = xp_qdata xp ! ?p" using k by (simp_all add: q1)
  from delete_ok [OF ok1(1), of E' "ucast (qc_qidx conf)" ?c2h] obtain xp2 where
    run: "xpdev_queue_delete E' xp1 (ucast (qc_qidx conf)) ?c2h = Ok (0, xp2)" and del: "deleted ?n ?c2h ?m xp1 xp2"
    using m unfolding ok1(2) idx e1 by auto
  from del obtain a' c' z where q2: "xp_qdata xp2 = (xp_qdata xp1)[?k := no_qdata]" and out: "\<not> in_use (xp_lib xp2) ?k"
    and a': "xq_xcdev (xp_qdata xp1 ! ?k) = Cdev a'" "xp_cdevs xp1 a' = Some c'"
    and c2': "xp_cdevs xp2 = (xp_cdevs xp1)(a' := z)" and z': "z = None \<longleftrightarrow> xp_qdata xp1 ! ?p = no_qdata"
      "\<forall>c''. z = Some c'' \<longrightarrow> c'' = c'\<lparr>cd_dir_init := cd_dir_init c' AND NOT (push_bit (of_bool ?c2h) 1)\<rparr>"
    unfolding deleted_def by blast
  have "a' = a" using a'(1) by (simp add: e1(1))
  moreover have "c' = c" using a'(2) calculation by (simp add: c1)
  ultimately have c2: "xp_cdevs xp2 = (xp_cdevs xp1)(a := z)" and z: "z = None \<longleftrightarrow> xp_qdata xp ! ?p = no_qdata"
      "\<forall>c''. z = Some c'' \<longrightarrow> c'' = c\<lparr>cd_dir_init := cd_dir_init c AND NOT (push_bit (of_bool ?c2h) 1)\<rparr>"
    using c2' z' unfolding e1(2) by blast+
  have q: "xp_qdata xp2 = xp_qdata xp" using e by (metis q1 q2 list_update_id list_update_overwrite)
  have "map_option (\<lambda>c. (cd_minor c, cd_dir_init c)) z = map_option (\<lambda>c. (cd_minor c, cd_dir_init c)) (xp_cdevs xp a)"
  proof (cases "xp_qdata xp ! ?p = no_qdata")
    case True
    then show ?thesis using z shared by simp
  next
    case False
    with z(1) have "z \<noteq> None" by blast
    then obtain c' where c': "z = Some c'" "c' = c\<lparr>cd_dir_init := cd_dir_init c AND NOT (push_bit (of_bool ?c2h) 1)\<rparr>"
      using z(2) by blast
    from shared obtain c0 where c0: "xq_xcdev (xp_qdata xp ! ?p) = Cdev a" "xp_cdevs xp a = Some c0"
      "cd_minor c = cd_minor c0" "cd_dir_init c = cd_dir_init c0 OR push_bit (of_bool ?c2h) 1"
      unfolding if_not_P [OF False] by blast
    have "pair_ok ?n (xp_cdevs xp) ?m (xp_qdata xp ! ?m) (xp_qdata xp ! (?n + ?m))"
      using D(4) m unfolding table_ok_def by blast
    then have "cd_dir_init c' = cd_dir_init c0"
    proof (cases rule: pair_okE)
      case empty
      then show ?thesis using False by (cases ?c2h) (simp_all add: entry_def)
    next
      case (used b d h g)
      have b: "b = a" "d = c0" "h \<longleftrightarrow> ?c2h" "g \<longleftrightarrow> \<not> ?c2h"
        using used e c0 by (cases ?c2h; cases h; cases g; auto simp: entry_def)+
      have "cd_dir_init c0 = of_bool ?c2h + 2 * of_bool (\<not> ?c2h)" using used(6) by (simp add: b)
      then show ?thesis unfolding c' c0(4) by (cases ?c2h) simp_all
    qed
    then show ?thesis using c' c0 by simp
  qed
  then have "\<forall>x. map_option (\<lambda>c. (cd_minor c, cd_dir_init c)) (xp_cdevs xp2 x) = map_option (\<lambda>c. (cd_minor c, cd_dir_init c)) (xp_cdevs xp x)"
    by (simp add: c2 c1)
  then show ?thesis using run q out by blast
qed

lemma fresh_ok:
  assumes "lib_shape lib" "unat (xd_qmax (lb_xdev lib)) = unat qmax" "uint qmax \<le> QDMA_MINOR_MAX"
    and "xpdev_alloc kmem vmem qmax lib tr = Some xp"
  shows "xp_ok (xp\<lparr>xp_minor_cnt := QDMA_MINOR_MAX\<rparr>)"
  using assms by (auto simp: xpdev_alloc_def xp_ok_def table_ok_def pair_ok_def split: if_splits)


definition sample_cdev_env :: cdev_env where
  "sample_cdev_env = \<lparr>ce_addr = Some 4096, ce_add = 0, ce_class = True, ce_device = 0, ce_wq = True\<rparr>"

text \<open>An empty table on a device that has come up, and the table with a queue.\<close>

lemma sample_table:
  obtains lib1 tr1 xp0 where "qdma_device_init plain_env sample_lib [] = (0, lib1, tr1)" "lib_shape lib1"
    "unat (xd_qmax (lb_xdev lib1)) = unat (2 :: u32)" "xpdev_alloc True False 2 lib1 tr1 = Some xp0"
    "xp_cdevs xp0 = Map.empty" "xp_ok (xp0\<lparr>xp_minor_cnt := QDMA_MINOR_MAX\<rparr>)"
    "\<forall>K. creates K Map.empty \<longrightarrow> (\<exists>conf xp. xpdev_queue_add plain_env K True (xp0\<lparr>xp_minor_cnt := QDMA_MINOR_MAX\<rparr>) zero_queue_conf = Ok (0, conf, xp)
       \<and> xp_cdevs xp \<noteq> Map.empty)"
proof -
  obtain lib1 tr1 qd h c lib' tr' where init: "qdma_device_init plain_env sample_lib [] = (0, lib1, tr1)"
    and ok: "lib_ok [lb_xdev sample_lib] lib1" and qd: "lb_dev lib1 = Some qd" "xd_qmax (lb_xdev lib1) = 2"
    and run: "qdma_queue_add plain_env True zero_queue_conf lib1 tr1 = Ok (0, h, c, lib', tr')"
    by (rule sample_queue_added)
  have shape: "lib_shape lib1" using lib_okD(1,2) [OF ok qd(1)] qd(1) by (simp add: lib_shape_def)
  have n: "unat (xd_qmax (lb_xdev lib1)) = unat (2 :: u32)" using qd(2) by simp
  obtain xp0 where alloc: "xpdev_alloc True False 2 lib1 tr1 = Some xp0" by (simp add: xpdev_alloc_def)
  let ?xp = "xp0\<lparr>xp_minor_cnt := QDMA_MINOR_MAX\<rparr>"
  have xp0: "xp_lib xp0 = lib1" "xp_trace xp0 = tr1" "xp_cdevs xp0 = Map.empty" "xp_qmax xp0 = 2"
    using alloc by (auto simp: xpdev_alloc_def)
  have ok': "xp_ok ?xp" by (rule fresh_ok [OF shape n _ alloc]) (simp add: QDMA_MINOR_MAX_def)
  have add: "\<exists>conf xp. xpdev_queue_add plain_env K True ?xp zero_queue_conf = Ok (0, conf, xp) \<and> xp_cdevs xp \<noteq> Map.empty"
    if K: "creates K Map.empty" for K
  proof -
    have K': "creates K (xp_cdevs ?xp)" and lt: "xp_lib ?xp = lib1" "xp_trace ?xp = tr1" using K xp0 by simp_all
    from add_ok [OF ok' K', of plain_env True zero_queue_conf, unfolded lt] obtain rv conf xp r h l t where
      add: "xpdev_queue_add plain_env K True ?xp zero_queue_conf = Ok (rv, conf, xp)"
        "rv < 0 \<or> added (unat (xp_qmax ?xp)) (qc_c2h zero_queue_conf) (unat (qc_qidx conf)) ?xp xp"
        "qdma_queue_add plain_env True zero_queue_conf lib1 tr1 = Ok (r, h, conf, l, t)" "rv = min r 0"
      by blast
    have rv: "rv = 0" using add(3,4) run by simp
    then have "added (unat (xp_qmax ?xp)) (qc_c2h zero_queue_conf) (unat (qc_qidx conf)) ?xp xp" using add(2) by simp
    then obtain a c where "xp_cdevs xp = (xp_cdevs ?xp)(a \<mapsto> c)" unfolding added_def by blast
    then have "xp_cdevs xp a \<noteq> None" by simp
    then have "xp_cdevs xp \<noteq> Map.empty" by metis
    then show ?thesis using add(1) rv by blast
  qed
  then show ?thesis using that [OF init shape n alloc xp0(3) ok'] by blast
qed


lemma add_then_delete_witness:
  "\<exists>lib1 tr1 xp0 conf xp1 xp2. qdma_device_init plain_env sample_lib [] = (0, lib1, tr1)
    \<and> xpdev_alloc True False 2 lib1 tr1 = Some xp0
    \<and> xpdev_queue_add plain_env sample_cdev_env True (xp0\<lparr>xp_minor_cnt := QDMA_MINOR_MAX\<rparr>) zero_queue_conf = Ok (0, conf, xp1)
    \<and> xpdev_queue_delete plain_env xp1 (ucast (qc_qidx conf)) False = Ok (0, xp2) \<and> xp_qdata xp2 = xp_qdata xp0"
proof -
  have K: "creates sample_cdev_env Map.empty" by (simp add: creates_def sample_cdev_env_def)
  obtain lib1 tr1 xp0 where S: "qdma_device_init plain_env sample_lib [] = (0, lib1, tr1)" "lib_shape lib1"
    "unat (xd_qmax (lb_xdev lib1)) = unat (2 :: u32)" "xpdev_alloc True False 2 lib1 tr1 = Some xp0"
    "xp_cdevs xp0 = Map.empty" "xp_ok (xp0\<lparr>xp_minor_cnt := QDMA_MINOR_MAX\<rparr>)"
    "\<forall>K. creates K Map.empty \<longrightarrow> (\<exists>conf xp. xpdev_queue_add plain_env K True (xp0\<lparr>xp_minor_cnt := QDMA_MINOR_MAX\<rparr>) zero_queue_conf = Ok (0, conf, xp)
       \<and> xp_cdevs xp \<noteq> Map.empty)"
    by (rule sample_table)
  from S(7) K obtain conf xp where
    run: "xpdev_queue_add plain_env sample_cdev_env True (xp0\<lparr>xp_minor_cnt := QDMA_MINOR_MAX\<rparr>) zero_queue_conf = Ok (0, conf, xp)"
    by blast
  have "creates sample_cdev_env (xp_cdevs (xp0\<lparr>xp_minor_cnt := QDMA_MINOR_MAX\<rparr>))" using S(5) K by simp
  from add_then_delete [OF S(6) this run, of plain_env] show ?thesis
    using S(1,4) run by (auto simp: zero_queue_conf_def)
qed

text \<open>Before a reset every queue is deleted, whatever the table holds.\<close>

lemma delete_all_ok: "xp_ok xp \<Longrightarrow> \<exists>xp'. xpdev_queue_delete_all E is xp = Ok xp' \<and> xp_ok xp' \<and> xp_qmax xp' = xp_qmax xp"
proof (induction "is" arbitrary: xp)
  case (Cons i "is")
  from delete_ok [OF Cons.prems, of E i False] obtain rv1 xp1 where
    1: "xpdev_queue_delete E xp i False = Ok (rv1, xp1)" "xp_ok xp1" "xp_qmax xp1 = xp_qmax xp" by auto
  from delete_ok [OF 1(2), of E i True] obtain rv2 xp2 where
    2: "xpdev_queue_delete E xp1 i True = Ok (rv2, xp2)" "xp_ok xp2" "xp_qmax xp2 = xp_qmax xp1" by auto
  show ?case using Cons.IH [OF 2(2)] 1 2 by simp
qed simp

section \<open>Where the table goes wrong\<close>

text \<open>
  When the character device cannot be created, the queue stays in the library, a variable that was never written goes
  into the table, and deleting the queue follows it.
\<close>

lemma create_failure:
  assumes ok: "xp_ok xp" and run: "qdma_queue_add E fits qconf (xp_lib xp) (xp_trace xp) = Ok (r, h, conf, lib, tr)"
    and r: "\<not> r < 0" and K: "ce_addr K = None"
    and pair: "xp_qdata xp ! entry (unat (xp_qmax xp)) (\<not> qc_c2h qconf) (unat (qc_qidx conf)) = no_qdata"
  shows "\<exists>xp'. xpdev_queue_add E K fits xp qconf = Ok (- ENOMEM, conf, xp') \<and> in_use (xp_lib xp') h
    \<and> xpdev_queue_delete E' xp' (ucast (qc_qidx conf)) (qc_c2h qconf) = Bad"
proof -
  let ?n = "unat (xp_qmax xp)" and ?xp = "xp\<lparr>xp_lib := lib, xp_trace := tr\<rparr>"
  from r obtain m where m: "m < ?n" and conf: "conf = qconf\<lparr>qc_qidx := of_nat m\<rparr>" and use: "in_use lib h"
    and idx: "unat (qc_qidx conf) = m"
    and get: "\<And>d. xpdev_queue_get ?xp (ucast (qc_qidx conf)) d False = Ok (Some (entry ?n d m))"
    by (elim add_index [OF ok run]) simp
  let ?k = "entry ?n (qc_c2h qconf) m"
  have c2h: "qc_c2h conf = qc_c2h qconf" by (simp add: conf)
  have k: "?k < length (xp_qdata xp)" using entry_range [OF m] xp_okD(5) [OF ok] by simp
  let ?xp' = "?xp\<lparr>xp_qdata := (xp_qdata xp)[?k := \<lparr>xq_qhndl = h, xq_xcdev = Uninit\<rparr>]\<rparr>"
  have add: "xpdev_queue_add E K fits xp qconf = Ok (- ENOMEM, conf, ?xp')"
    unfolding xpdev_queue_add_def run outcome.case prod.case Let_def get c2h
    using r pair idx by (simp add: qdma_cdev_create_def K)
  have "xpdev_queue_get ?xp' (ucast (qc_qidx conf)) (qc_c2h qconf) True \<noteq> Ok None"
    "\<forall>j. xpdev_queue_get ?xp' (ucast (qc_qidx conf)) (qc_c2h qconf) True = Ok (Some j) \<longrightarrow> j = ?k"
    using get [of "qc_c2h qconf"] k by (auto simp: xpdev_queue_get_def Let_def split: if_split_asm)
  then have "xpdev_queue_delete E' ?xp' (ucast (qc_qidx conf)) (qc_c2h qconf) = Bad"
    using k unfolding xpdev_queue_delete_def
    by (auto simp: release_dir_def split: outcome.split option.split)
  then show ?thesis using add use by auto
qed

end
