(* ===== verification/Qdma_Cmd.thy ===== *)
theory Qdma_Cmd
  imports Qdma_Prelude
begin

unbundle bit_operations_syntax

text \<open>
  What the command line tool shares with the driver: the constants of \<open>include/qdma_nl.h\<close> and the
  parsed command of \<open>user/cli/cmd_parse.h\<close>, \<open>nl_user.h\<close> and \<open>reg_cmd.h\<close>; then the tool's own
  register commands (\<open>user/cli/reg_cmd.c\<close>).  The build is the one without \<open>ERR_DEBUG\<close>.
\<close>

section \<open>The constants of the netlink interface\<close>

named_theorems nl_defs

definition XNL_RESP_BUFLEN_MIN :: int where [nl_defs]: "XNL_RESP_BUFLEN_MIN = 256"
definition XNL_RESP_BUFLEN_MAX :: int where [nl_defs]: "XNL_RESP_BUFLEN_MAX = 2048"
definition XNL_QIDX_INVALID :: u32 where [nl_defs]: "XNL_QIDX_INVALID = 0xFFFF"
definition XNL_F_QMODE_ST :: u32 where [nl_defs]: "XNL_F_QMODE_ST = 0x1"
definition XNL_F_QMODE_MM :: u32 where [nl_defs]: "XNL_F_QMODE_MM = 0x2"
definition XNL_F_QDIR_H2C :: u32 where [nl_defs]: "XNL_F_QDIR_H2C = 0x4"
definition XNL_F_QDIR_C2H :: u32 where [nl_defs]: "XNL_F_QDIR_C2H = 0x8"
definition XNL_F_QDIR_BOTH :: u32 where [nl_defs]: "XNL_F_QDIR_BOTH = 0xC"
definition XNL_F_PFETCH_EN :: u32 where [nl_defs]: "XNL_F_PFETCH_EN = 0x10"
definition XNL_F_DESC_BYPASS_EN :: u32 where [nl_defs]: "XNL_F_DESC_BYPASS_EN = 0x20"
definition XNL_F_FETCH_CREDIT :: u32 where [nl_defs]: "XNL_F_FETCH_CREDIT = 0x40"
definition XNL_F_WBK_ACC_EN :: u32 where [nl_defs]: "XNL_F_WBK_ACC_EN = 0x80"
definition XNL_F_WBK_EN :: u32 where [nl_defs]: "XNL_F_WBK_EN = 0x100"
definition XNL_F_WBK_PEND_CHK :: u32 where [nl_defs]: "XNL_F_WBK_PEND_CHK = 0x200"
definition XNL_F_WRB_STAT_DESC_EN :: u32 where [nl_defs]: "XNL_F_WRB_STAT_DESC_EN = 0x400"
definition XNL_F_C2H_CMPL_INTR_EN :: u32 where [nl_defs]: "XNL_F_C2H_CMPL_INTR_EN = 0x800"
definition XNL_F_CMPL_UDD_EN :: u32 where [nl_defs]: "XNL_F_CMPL_UDD_EN = 0x1000"
definition QDMA_MAX_INT_RING_ENTRIES :: int where [nl_defs]: "QDMA_MAX_INT_RING_ENTRIES = 512"
definition XNL_ST_C2H_WRB_DESC_SIZE_RSVD :: u8 where [nl_defs]: "XNL_ST_C2H_WRB_DESC_SIZE_RSVD = 3"

text \<open>\<open>enum xnl_attr_t\<close>: the numbers go over the wire.\<close>

definition XNL_ATTR_GENMSG :: nat where [nl_defs]: "XNL_ATTR_GENMSG = 0"
definition XNL_ATTR_DRV_INFO :: nat where [nl_defs]: "XNL_ATTR_DRV_INFO = 1"
definition XNL_ATTR_DEV_IDX :: nat where [nl_defs]: "XNL_ATTR_DEV_IDX = 2"
definition XNL_ATTR_PCI_BUS :: nat where [nl_defs]: "XNL_ATTR_PCI_BUS = 3"
definition XNL_ATTR_PCI_DEV :: nat where [nl_defs]: "XNL_ATTR_PCI_DEV = 4"
definition XNL_ATTR_PCI_FUNC :: nat where [nl_defs]: "XNL_ATTR_PCI_FUNC = 5"
definition XNL_ATTR_DEV_CFG_BAR :: nat where [nl_defs]: "XNL_ATTR_DEV_CFG_BAR = 6"
definition XNL_ATTR_DEV_USR_BAR :: nat where [nl_defs]: "XNL_ATTR_DEV_USR_BAR = 7"
definition XNL_ATTR_DEV_QSET_MAX :: nat where [nl_defs]: "XNL_ATTR_DEV_QSET_MAX = 8"
definition XNL_ATTR_QIDX :: nat where [nl_defs]: "XNL_ATTR_QIDX = 12"
definition XNL_ATTR_NUM_Q :: nat where [nl_defs]: "XNL_ATTR_NUM_Q = 13"
definition XNL_ATTR_QFLAG :: nat where [nl_defs]: "XNL_ATTR_QFLAG = 14"
definition XNL_ATTR_WRB_DESC_SIZE :: nat where [nl_defs]: "XNL_ATTR_WRB_DESC_SIZE = 15"
definition XNL_ATTR_QRNGSZ_IDX :: nat where [nl_defs]: "XNL_ATTR_QRNGSZ_IDX = 16"
definition XNL_ATTR_C2H_BUFSZ_IDX :: nat where [nl_defs]: "XNL_ATTR_C2H_BUFSZ_IDX = 17"
definition XNL_ATTR_WRB_TIMER_IDX :: nat where [nl_defs]: "XNL_ATTR_WRB_TIMER_IDX = 18"
definition XNL_ATTR_WRB_CNTR_IDX :: nat where [nl_defs]: "XNL_ATTR_WRB_CNTR_IDX = 19"
definition XNL_ATTR_WRB_TRIG_MODE :: nat where [nl_defs]: "XNL_ATTR_WRB_TRIG_MODE = 20"
definition XNL_ATTR_RANGE_START :: nat where [nl_defs]: "XNL_ATTR_RANGE_START = 21"
definition XNL_ATTR_RANGE_END :: nat where [nl_defs]: "XNL_ATTR_RANGE_END = 22"
definition XNL_ATTR_INTR_VECTOR_IDX :: nat where [nl_defs]: "XNL_ATTR_INTR_VECTOR_IDX = 23"
definition XNL_ATTR_INTR_VECTOR_START_IDX :: nat where [nl_defs]: "XNL_ATTR_INTR_VECTOR_START_IDX = 24"
definition XNL_ATTR_INTR_VECTOR_END_IDX :: nat where [nl_defs]: "XNL_ATTR_INTR_VECTOR_END_IDX = 25"
definition XNL_ATTR_RSP_BUF_LEN :: nat where [nl_defs]: "XNL_ATTR_RSP_BUF_LEN = 26"
definition XNL_ATTR_MAX :: nat where [nl_defs]: "XNL_ATTR_MAX = 27"

datatype xnl_op = XNL_CMD_DEV_LIST | XNL_CMD_DEV_INFO | XNL_CMD_REG_DUMP | XNL_CMD_REG_RD | XNL_CMD_REG_WRT
  | XNL_CMD_Q_LIST | XNL_CMD_Q_ADD | XNL_CMD_Q_START | XNL_CMD_Q_STOP | XNL_CMD_Q_DEL | XNL_CMD_Q_DUMP
  | XNL_CMD_Q_DESC | XNL_CMD_Q_WRB | XNL_CMD_Q_RX_PKT | XNL_CMD_INTR_RING_DUMP

section \<open>A parsed command\<close>

text \<open>\<open>enum q_parm_type\<close>: the bits of \<open>sflags\<close>.\<close>

definition QPARM_IDX :: nat where [nl_defs]: "QPARM_IDX = 0"
definition QPARM_MODE :: nat where [nl_defs]: "QPARM_MODE = 1"
definition QPARM_DIR :: nat where [nl_defs]: "QPARM_DIR = 2"
definition QPARM_DESC :: nat where [nl_defs]: "QPARM_DESC = 3"
definition QPARM_WRB :: nat where [nl_defs]: "QPARM_WRB = 4"
definition QPARM_WRBSZ :: nat where [nl_defs]: "QPARM_WRBSZ = 5"
definition QPARM_RNGSZ_IDX :: nat where [nl_defs]: "QPARM_RNGSZ_IDX = 6"
definition QPARM_C2H_BUFSZ_IDX :: nat where [nl_defs]: "QPARM_C2H_BUFSZ_IDX = 7"
definition QPARM_WRB_TMR_IDX :: nat where [nl_defs]: "QPARM_WRB_TMR_IDX = 8"
definition QPARM_WRB_CNTR_IDX :: nat where [nl_defs]: "QPARM_WRB_CNTR_IDX = 9"
definition QPARM_WRB_TRIG_MODE :: nat where [nl_defs]: "QPARM_WRB_TRIG_MODE = 10"

record xcmd_q_parm =
  qp_sflags :: u32
  qp_flags :: u32
  qp_idx :: u32
  qp_num_q :: u32
  qp_range_start :: u32
  qp_range_end :: u32
  qp_wrb_entry_size :: u8
  qp_qrngsz_idx :: u8
  qp_c2h_bufsz_idx :: u8
  qp_wrb_tmr_idx :: u8
  qp_wrb_cntr_idx :: u8
  qp_wrb_trig_mode :: u8

record xcmd_intr =
  ci_vector :: u32
  ci_start_idx :: u32               \<comment> \<open>an \<open>int\<close>, by its bits\<close>
  ci_end_idx :: u32

record xcmd_reg =
  rc_bar_set :: bool                \<comment> \<open>\<open>XCMD_REG_F_BAR_SET\<close> in \<open>sflags\<close>\<close>
  rc_bar :: u32
  rc_reg :: u32
  rc_val :: u32
  rc_range_start :: u32
  rc_range_end :: u32

text \<open>The union \<open>u\<close>, by the member last written, and \<open>struct xcmd_info\<close>.\<close>

datatype xcmd_u = NoParm | IntrParm xcmd_intr | RegParm xcmd_reg | QParm xcmd_q_parm

record xcmd_info =
  xc_vf :: bool
  xc_op :: xnl_op
  xc_if_idx :: u8
  xc_config_bar :: u8
  xc_user_bar :: u8
  xc_qmax :: u16
  xc_u :: xcmd_u
  xc_attr_mask :: u32
  xc_attrs :: "nat \<Rightarrow> u32"

definition zero_q_parm :: xcmd_q_parm where
  "zero_q_parm = \<lparr>qp_sflags = 0, qp_flags = 0, qp_idx = 0, qp_num_q = 0, qp_range_start = 0, qp_range_end = 0,
     qp_wrb_entry_size = 0, qp_qrngsz_idx = 0, qp_c2h_bufsz_idx = 0, qp_wrb_tmr_idx = 0, qp_wrb_cntr_idx = 0,
     qp_wrb_trig_mode = 0\<rparr>"

definition zero_xcmd :: xcmd_info where
  "zero_xcmd = \<lparr>xc_vf = False, xc_op = XNL_CMD_DEV_LIST, xc_if_idx = 0, xc_config_bar = 0, xc_user_bar = 0,
     xc_qmax = 0, xc_u = NoParm, xc_attr_mask = 0, xc_attrs = (\<lambda>_. 0)\<rparr>"

section \<open>The registers the tool knows\<close>

text \<open>The fields \<open>shift\<close> and \<open>len\<close> are 0 in every row.\<close>

record xreg_info =
  xr_name :: string
  xr_addr :: u32
  xr_repeat :: u32
  xr_step :: u32

definition reg :: "string \<Rightarrow> u32 \<Rightarrow> u32 \<Rightarrow> u32 \<Rightarrow> xreg_info" where
  "reg n a r s = \<lparr>xr_name = n, xr_addr = a, xr_repeat = r, xr_step = s\<rparr>"

definition qdma_config_regs :: "xreg_info list" where
  "qdma_config_regs = [
     reg ''CFG_BLOCK_ID'' 0x00 0 0, reg ''CFG_BUSDEV'' 0x04 0 0, reg ''CFG_PCIE_MAX_PL_SZ'' 0x08 0 0,
     reg ''CFG_PCIE_MAX_RDRQ_SZ'' 0x0C 0 0, reg ''CFG_SYS_ID'' 0x10 0 0, reg ''CFG_MSI_EN'' 0x14 0 0,
     reg ''CFG_PCIE_DATA_WIDTH'' 0x18 0 0, reg ''CFG_PCIE_CTRL'' 0x1C 0 0,
     reg ''CFG_AXI_USR_MAX_PL_SZ'' 0x40 0 0, reg ''CFG_AXI_USR_MAX_RDRQ_SZ'' 0x44 0 0,
     reg ''CFG_WR_FLUSH_TIMEOUT'' 0x60 0 0, reg ''GLBL2_ID'' 0x100 0 0, reg ''GLBL2_PF_BL_INT'' 0x104 0 0,
     reg ''GLBL2_PF_VF_BL_INT'' 0x108 0 0, reg ''GLBL2_PF_BL_EXT'' 0x10C 0 0,
     reg ''GLBL2_PF_VF_BL_EXT'' 0x110 0 0, reg ''GLBL2_CHNL_INST'' 0x114 0 0,
     reg ''GLBL2_CHNL_QDMA'' 0x118 0 0, reg ''GLBL2_CHNL_STRM'' 0x11C 0 0, reg ''GLBL2_QDMA_CAP'' 0x120 0 0,
     reg ''GLBL2_PASID_CAP'' 0x128 0 0, reg ''GLBL2_FUNC_RET'' 0x12C 0 0, reg ''GLBL2_SYS_ID'' 0x130 0 0,
     reg ''GLBL2_MISC_CAP'' 0x134 0 0, reg ''GLBL2_DBG_PCIE_RQ'' 0x1B8 2 0,
     reg ''GLBL2_DBG_AXIMM_WR'' 0x1C0 2 0, reg ''GLBL2_DBG_AXIMM_RD'' 0x1C8 2 0,
     reg ''GLBL_RNGSZ'' 0x204 16 0, reg ''GLBL_SCRATCH'' 0x244 0 0, reg ''GLBL_ERR_STAT'' 0x248 0 0,
     reg ''GLBL_ERR_MASK'' 0x24C 0 0, reg ''GLBL_DSC_CFG'' 0x250 0 0, reg ''GLBL_DSC_ERR_STS'' 0x254 0 0,
     reg ''GLBL_DSC_ERR_MSK'' 0x258 0 0, reg ''GLBL_DSC_ERR_LOG'' 0x25C 2 0,
     reg ''GLBL_TRQ_ERR_STS'' 0x264 0 0, reg ''GLBL_TRQ_ERR_MSK'' 0x268 0 0,
     reg ''GLBL_TRQ_ERR_LOG'' 0x26C 0 0, reg ''GLBL_DSC_DBG_DAT'' 0x270 2 0,
     reg ''GLBL_DSC_DBG_CTL'' 0x278 0 0, reg ''TRQ_SEL_FMAP'' 0x400 4 0, reg ''IND_CTXT_DATA'' 0x804 4 0,
     reg ''IND_CTXT_MASK'' 0x814 4 0, reg ''IND_CTXT_CMD'' 0x824 0 0, reg ''IND_CAUSE'' 0x828 0 0,
     reg ''IND_ENABLE'' 0x82C 0 0, reg ''C2H_TIMER_CNT'' 0xA00 16 0, reg ''C2H_CNT_THRESH'' 0xA40 16 0,
     reg ''C2H_QID2VEC_MAP_QID'' 0xA80 0 0, reg ''C2H_QID2VEC_MAP'' 0xA84 0 0,
     reg ''C2H_STAT_S_AXIS_C2H_ACCEPTED'' 0xA88 0 0, reg ''C2H_STAT_S_AXIS_WRB_ACCEPTED'' 0xA8C 0 0,
     reg ''C2H_STAT_DESC_RSP_PKT_ACCEPTED'' 0xA90 0 0, reg ''C2H_STAT_AXIS_PKG_CMP'' 0xA94 0 0,
     reg ''C2H_STAT_DESC_RSP_ACCEPTED'' 0xA98 0 0, reg ''C2H_STAT_DESC_RSP_CMP'' 0xA9C 0 0,
     reg ''C2H_STAT_WRQ_OUT'' 0xAA0 0 0, reg ''C2H_STAT_WPL_REN_ACCEPTED'' 0xAA4 0 0,
     reg ''C2H_STAT_TOTAL_WRQ_LEN'' 0xAA8 0 0, reg ''C2H_STAT_TOTAL_WPL_LEN'' 0xAAC 0 0,
     reg ''C2H_BUF_SZ'' 0xAB0 16 0, reg ''C2H_ERR_STAT'' 0xAF0 0 0, reg ''C2H_ERR_MASK'' 0xAF4 0 0,
     reg ''C2H_FATAL_ERR_STAT'' 0xAF8 0 0, reg ''C2H_FATAL_ERR_MASK'' 0xAFC 0 0,
     reg ''C2H_FATAL_ERR_ENABLE'' 0xB00 0 0, reg ''C2H_ERR_INT'' 0xB04 0 0, reg ''C2H_PFCH_CFG'' 0xB08 0 0,
     reg ''C2H_INT_TIMER_TICK'' 0xB0C 0 0, reg ''C2H_STAT_DESC_RSP_DROP_ACCEPTED'' 0xB10 0 0,
     reg ''C2H_STAT_DESC_RSP_ERR_ACCEPTED'' 0xB14 0 0, reg ''C2H_STAT_DESC_REQ'' 0xB18 0 0,
     reg ''C2H_STAT_DEBUG_DMA_ENG'' 0xB1C 4 0, reg ''C2H_INTR_MSIX'' 0xB2C 0 0,
     reg ''C2H_FIRST_ERR_QID'' 0xB30 0 0, reg ''STAT_NUM_WRB_IN'' 0xB34 0 0,
     reg ''STAT_NUM_WRB_OUT'' 0xB38 0 0, reg ''STAT_NUM_WRB_DRP'' 0xB3C 0 0,
     reg ''STAT_NUM_STAT_DESC_OUT'' 0xB40 0 0, reg ''STAT_NUM_DSC_CRDT_SENT'' 0xB44 0 0,
     reg ''STAT_NUM_FCH_DSC_RCVD'' 0xB48 0 0, reg ''STAT_NUM_BYP_DSC_RCVD'' 0xB4C 0 0,
     reg ''C2H_WRB_COAL_CFG'' 0xB50 0 0, reg ''C2H_INTR_H2C_REQ'' 0xB54 0 0,
     reg ''C2H_INTR_C2H_MM_REQ'' 0xB58 0 0, reg ''C2H_INTR_ERR_INT_REQ'' 0xB5C 0 0,
     reg ''C2H_INTR_C2H_ST_REQ'' 0xB60 0 0, reg ''C2H_INTR_H2C_ERR_MM_MSIX_ACK'' 0xB64 0 0,
     reg ''C2H_INTR_H2C_ERR_MM_MSIX_FAIL'' 0xB68 0 0, reg ''C2H_INTR_H2C_ERR_MM_NO_MSIX'' 0xB6C 0 0,
     reg ''C2H_INTR_H2C_ERR_MM_CTXT_INVAL'' 0xB70 0 0, reg ''C2H_INTR_C2H_ST_MSIX_ACK'' 0xB74 0 0,
     reg ''C2H_INTR_C2H_ST_MSIX_FAIL'' 0xB78 0 0, reg ''C2H_INTR_C2H_ST_NO_MSIX'' 0xB7C 0 0,
     reg ''C2H_INTR_C2H_ST_CTXT_INVAL'' 0xB80 0 0, reg ''C2H_STAT_WR_CMP'' 0xB84 0 0,
     reg ''C2H_STAT_DEBUG_DMA_ENG_4'' 0xB88 0 0, reg ''C2H_STAT_DEBUG_DMA_ENG_5'' 0xB8C 0 0,
     reg ''C2H_DBG_PFCH_QID'' 0xB90 0 0, reg ''C2H_DBG_PFCH'' 0xB94 0 0, reg ''C2H_INT_DEBUG'' 0xB98 0 0,
     reg ''C2H_STAT_IMM_ACCEPTED'' 0xB9C 0 0, reg ''C2H_STAT_MARKER_ACCEPTED'' 0xBA0 0 0,
     reg ''C2H_STAT_DISABLE_CMP_ACCEPTED'' 0xBA4 0 0, reg ''C2H_C2H_PAYLOAD_FIFO_CRDT_CNT'' 0xBA8 0 0,
     reg ''H2C_ERR_STAT'' 0xE00 0 0, reg ''H2C_ERR_MASK'' 0xE04 0 0, reg ''H2C_ERR_FIRST_QID'' 0xE08 0 0,
     reg ''H2C_DBG_REG'' 0xE0C 5 0, reg ''C2H_MM0_CONTROL'' 0x1004 0 0, reg ''C2H_MM0_STATUS'' 0x1040 0 0,
     reg ''C2H_MM0_CMPL_DSC_CNT'' 0x1048 0 0, reg ''C2H_MM0_ERR_CODE_EN_MASK'' 0x1054 0 0,
     reg ''C2H_MM0_ERR_CODE'' 0x1058 0 0, reg ''C2H_MM0_ERR_INFO'' 0x105C 0 0,
     reg ''C2H_MM0_PERF_MON_CTRL'' 0x10C0 0 0, reg ''C2H_MM0_PERF_MON_CY_CNT'' 0x10C4 2 0,
     reg ''C2H_MM0_PERF_MON_DATA_CNT'' 0x10CC 2 0, reg ''C2H_MM_DBG_INFO'' 0x10E8 2 0,
     reg ''H2C_MM0_CONTROL'' 0x1204 0 0, reg ''H2C_MM0_STATUS'' 0x1240 0 0,
     reg ''H2C_MM0_CMPL_DSC_CNT'' 0x1248 0 0, reg ''H2C_MM0_ERR_CODE_EN_MASK'' 0x1254 0 0,
     reg ''H2C_MM0_ERR_CODE'' 0x1258 0 0, reg ''H2C_MM0_ERR_INFO'' 0x125C 0 0,
     reg ''H2C_MM0_PERF_MON_CTRL'' 0x12C0 0 0, reg ''H2C_MM0_PERF_MON_CY_CNT'' 0x12C4 2 0,
     reg ''H2C_MM0_PERF_MON_DATA_CNT'' 0x12CC 2 0, reg ''H2C_MM0_DBG_INFO'' 0x12E8 0 0,
     reg ''FUNC_STATUS'' 0x2400 0 0, reg ''FUNC_CMD'' 0x2404 0 0, reg ''FUNC_INTR_VEC'' 0x2408 0 0,
     reg ''TARGET_FUNC'' 0x240C 0 0, reg ''INTR_CTRL'' 0x2410 0 0, reg ''PF_ACK'' 0x2420 8 0,
     reg ''FLR_CTRL_STATUS'' 0x2500 0 0, reg ''MSG_IN'' 0x2C00 32 0, reg ''MSG_OUT'' 0x3000 32 0,
     reg '''' 0 0 0]"

definition qdma_dmap_regs :: "xreg_info list" where
  "qdma_dmap_regs = [
     reg ''DMAP_SEL_INT_CIDX'' 0x6400 512 0x10, reg ''DMAP_SEL_H2C_DSC_PIDX'' 0x6404 512 0x10,
     reg ''DMAP_SEL_C2H_DSC_PIDX'' 0x6408 512 0x10, reg ''DMAP_SEL_WRB_CIDX'' 0x640C 512 0x10, reg '''' 0 0 0]"

definition qdma_user_regs :: "xreg_info list" where
  "qdma_user_regs = [
     reg ''ST_C2H_QID'' 0x0 0 0, reg ''ST_C2H_PKTLEN'' 0x4 0 0, reg ''ST_C2H_CONTROL'' 0x8 0 0,
     reg ''ST_H2C_CONTROL'' 0xC 0 0, reg ''ST_H2C_STATUS'' 0x10 0 0, reg ''ST_H2C_XFER_CNT'' 0x14 0 0,
     reg ''ST_C2H_PKT_CNT'' 0x20 0 0, reg ''ST_C2H_WRB_DATA'' 0x30 8 0, reg ''ST_C2H_WRB_SIZE'' 0x50 0 0,
     reg ''ST_SCRATCH_REG'' 0x60 2 0, reg ''ST_C2H_PKT_DROP'' 0x88 0 0, reg ''ST_C2H_PKT_ACCEPT'' 0x8C 0 0,
     reg ''DSC_BYPASS_LOOP'' 0x90 0 0, reg ''USER_INTERRUPT'' 0x94 0 0, reg ''USER_INTERRUPT_MASK'' 0x98 0 0,
     reg ''USER_INTERRUPT_VEC'' 0x9C 0 0, reg ''DMA_CONTROL'' 0xA0 0 0, reg '''' 0 0 0]"

definition is_valid_addr :: "u8 \<Rightarrow> u32 \<Rightarrow> bool" where
  "is_valid_addr bar_no reg_addr =
     (reg_addr \<in> set (map xr_addr (if bar_no = 0 then qdma_config_regs else qdma_user_regs)))"

section \<open>Register commands\<close>

text \<open>
  Each access maps the BAR's file and reads or writes one word of it: what is mapped is known only by
  the events.
\<close>

datatype bar_event = BarRead (ev_bar: u32) (ev_addr: u32) (ev_len: u32)
  | BarWrite (ev_bar: u32) (ev_addr: u32) (ev_len: u32) u32

text \<open>The word at byte address \<open>addr\<close> of a mapping of \<open>len\<close> bytes; an index is rounded down.\<close>

definition word_at :: "u32 \<Rightarrow> u32" where
  "word_at addr = addr div 4 * 4"

definition reg_read_mmap :: "u32 \<Rightarrow> u32 \<Rightarrow> bar_event" where
  "reg_read_mmap barno addr = BarRead barno (word_at addr) (addr + 4)"

definition reg_write_mmap :: "u32 \<Rightarrow> u32 \<Rightarrow> u32 \<Rightarrow> bar_event" where
  "reg_write_mmap barno addr val = BarWrite barno (word_at addr) (addr + 4) val"

text \<open>\<open>print_repeated_reg\<close>: the addresses read; \<open>end\<close> and \<open>i\<close> are signed.\<close>

definition print_repeated_reg :: "u32 \<Rightarrow> u32 \<Rightarrow> xreg_info \<Rightarrow> u32 \<Rightarrow> u32 \<Rightarrow> bar_event list" where
  "print_repeated_reg barno mlen xreg start limit =
     (let step = (if xr_step xreg \<noteq> 0 then xr_step xreg else 4)
      in map (\<lambda>i. BarRead barno (word_at (xr_addr xreg + of_int i * step)) mlen) [sint start..sint (start + limit) - 1])"

text \<open>The rows up to the one without a name.\<close>

fun reg_dump_mmap :: "u32 \<Rightarrow> u32 \<Rightarrow> xreg_info list \<Rightarrow> bar_event list" where
  "reg_dump_mmap barno mlen [] = []"
| "reg_dump_mmap barno mlen (xreg # regs) =
     (if xr_name xreg = [] then []
      else (if xr_repeat xreg \<noteq> 0 then print_repeated_reg barno mlen xreg 0 (xr_repeat xreg)
            else [BarRead barno (word_at (xr_addr xreg)) mlen]) @ reg_dump_mmap barno mlen regs)"

fun reg_dump_range :: "u32 \<Rightarrow> u32 \<Rightarrow> xreg_info list \<Rightarrow> u32 \<Rightarrow> u32 \<Rightarrow> bar_event list" where
  "reg_dump_range barno mlen [] start limit = []"
| "reg_dump_range barno mlen (xreg # regs) start limit =
     (if xr_name xreg = [] then []
      else print_repeated_reg barno mlen xreg start limit @ reg_dump_range barno mlen regs start limit)"

definition QDMA_CFG_BAR_SIZE :: u32 where [nl_defs]: "QDMA_CFG_BAR_SIZE = 0xB400"
definition QDMA_USR_BAR_SIZE :: u32 where [nl_defs]: "QDMA_USR_BAR_SIZE = 0x100"

text \<open>\<open>proc_reg_cmd\<close>, for a register command \<open>regcmd\<close>; the BARs are stored in eight bits.\<close>

definition proc_reg_cmd :: "xcmd_info \<Rightarrow> xcmd_reg \<Rightarrow> int \<times> bar_event list" where
  "proc_reg_cmd xcmd regcmd =
     (let msk = fold (\<lambda>a m. m OR push_bit a 1)
            [XNL_ATTR_PCI_BUS, XNL_ATTR_PCI_DEV, XNL_ATTR_PCI_FUNC, XNL_ATTR_DEV_CFG_BAR, XNL_ATTR_DEV_USR_BAR] 0
      in if xc_attr_mask xcmd AND msk \<noteq> msk then (- EINVAL, [])
      else
        let config_bar = ucast (ucast (xc_attrs xcmd XNL_ATTR_DEV_CFG_BAR) :: u8);
            user_bar = ucast (ucast (xc_attrs xcmd XNL_ATTR_DEV_USR_BAR) :: u8);
            barno = (if rc_bar_set regcmd then rc_bar regcmd else config_bar)
        in (0, case xc_op xcmd of
              XNL_CMD_REG_RD \<Rightarrow> [reg_read_mmap barno (rc_reg regcmd)]
            | XNL_CMD_REG_WRT \<Rightarrow> [reg_write_mmap barno (rc_reg regcmd) (rc_val regcmd), reg_read_mmap barno (rc_reg regcmd)]
            | XNL_CMD_REG_DUMP \<Rightarrow>
                reg_dump_mmap user_bar QDMA_USR_BAR_SIZE qdma_user_regs
                @ reg_dump_mmap config_bar QDMA_CFG_BAR_SIZE qdma_config_regs
                @ reg_dump_range config_bar QDMA_CFG_BAR_SIZE qdma_dmap_regs (rc_range_start regcmd) (rc_range_end regcmd)
            | _ \<Rightarrow> []))"

text \<open>An access within what is mapped.\<close>

definition in_map :: "bar_event \<Rightarrow> bool" where
  "in_map e \<longleftrightarrow> unat (ev_addr e) + 4 \<le> unat (ev_len e)"

lemma word_at_le: "unat (word_at a) \<le> unat a"
proof -
  have "unat a div 4 * 4 \<le> unat a" by (rule div_times_less_eq_dividend)
  moreover from this have "unat a div 4 * 4 < 2 ^ 32" using unsigned_less [of a, where 'a = nat] by simp
  ultimately show ?thesis by (simp add: word_at_def unat_word_ariths unat_div)
qed

definition fits :: "u32 \<Rightarrow> xreg_info \<Rightarrow> bool" where
  "fits mlen x \<longleftrightarrow> unat (xr_addr x) + 4 * (if xr_repeat x = 0 then 1 else unat (xr_repeat x)) \<le> unat mlen
     \<and> xr_step x = 0 \<and> unat (xr_repeat x) < 2 ^ 31"

lemma repeated_in_map:
  assumes step: "s = (if xr_step x \<noteq> 0 then xr_step x else 4)" "4 \<le> unat s"
    and fit: "unat (xr_addr x) + (unat start + unat limit) * unat s + 4 \<le> unat mlen + unat s"
    and small: "unat start + unat limit < 2 ^ 31"
  shows "\<forall>e \<in> set (print_repeated_reg b mlen x start limit). in_map e"
proof
  fix e assume "e \<in> set (print_repeated_reg b mlen x start limit)"
  then obtain i where e: "e = BarRead b (word_at (xr_addr x + of_int i * s)) mlen"
    and i: "sint start \<le> i" "i < sint (start + limit)"
    by (auto simp: print_repeated_reg_def Let_def step(1))
  have st: "sint start = int (unat start)" "sint (start + limit) = int (unat start + unat limit)"
    using sint_of_nat_u32 [of "unat start"] sint_of_nat_u32 [of "unat start + unat limit"] small by simp_all
  define k where "k = nat i"
  have "int (unat start) \<le> i" "i < int (unat start + unat limit)" using i by (simp_all only: st)
  then have k: "i = int k" "k < unat start + unat limit" unfolding k_def by linarith+
  have le: "k * unat s \<le> (unat start + unat limit - 1) * unat s" using k(2) by (intro mult_le_mono1) simp
  have "(unat start + unat limit - 1) * unat s + unat s = (unat start + unat limit) * unat s"
    using k(2) by (cases "unat start + unat limit") simp_all
  then have bound: "unat (xr_addr x) + k * unat s + 4 \<le> unat mlen" using fit le by linarith
  have "unat (xr_addr x + of_int i * s) = unat (xr_addr x) + k * unat s"
    using bound unsigned_less [of mlen, where 'a = nat] by (simp add: k(1) unat_word_ariths unat_of_nat mod_simps)
  then show "in_map e"
    using bound word_at_le [of "xr_addr x + of_int i * s"] by (simp add: e in_map_def)
qed

lemma dump_in_map:
  "list_all (fits mlen) (takeWhile (\<lambda>x. xr_name x \<noteq> []) regs) \<Longrightarrow> \<forall>e \<in> set (reg_dump_mmap b mlen regs). in_map e"
proof (induction regs)
  case (Cons x regs)
  then show ?case
    using repeated_in_map [of 4 x 0 "xr_repeat x" mlen b] word_at_le [of "xr_addr x"]
    by (auto simp: fits_def in_map_def unat_eq_zero split: if_splits)
qed simp

lemma range_in_map:
  assumes "unat start + unat limit < 2 ^ 31"
  shows "list_all (\<lambda>x. 4 \<le> unat (xr_step x)
      \<and> unat (xr_addr x) + (unat start + unat limit) * unat (xr_step x) + 4 \<le> unat mlen + unat (xr_step x))
      (takeWhile (\<lambda>x. xr_name x \<noteq> []) regs)
    \<Longrightarrow> \<forall>e \<in> set (reg_dump_range b mlen regs start limit). in_map e"
proof (induction regs)
  case (Cons x regs)
  have "xr_step x \<noteq> 0" if "4 \<le> unat (xr_step x)" using that by auto
  then show ?case
    using Cons repeated_in_map [of "xr_step x" x start limit mlen b] assms by (auto split: if_splits)
qed simp



text \<open>The range is not checked against the size of the BAR.\<close>

lemma reg_dump_beyond:
  "\<exists>e \<in> set (reg_dump_range b QDMA_CFG_BAR_SIZE qdma_dmap_regs 1280 1). \<not> in_map e"
  by (simp add: qdma_dmap_regs_def reg_def print_repeated_reg_def in_map_def word_at_def nl_defs)

end
