(* ===== verification/Qdma_Cli.thy ===== *)
theory Qdma_Cli
  imports Qdma_Cmd
begin

unbundle bit_operations_syntax

text \<open>
  The parser of the command line tool (\<open>user/cli/cmd_parse.c\<close>).  The arguments from position \<open>i\<close> on are
  a list: advancing \<open>i\<close> takes its tail, and the test against \<open>argc\<close> is the test for the empty list.  The
  warnings printed are left out.  A result is an error code (\<open>Inl\<close>) or a value; \<open>Bad\<close> is the use of
  \<open>argv[argc]\<close>, which is null, or of the variable \<open>rv\<close> before it is set.
\<close>

type_synonym 'a parsed = "(int + 'a) outcome"

section \<open>Numbers\<close>

text \<open>The standard library's \<open>strtoul\<close> with base 0, for a 64-bit \<open>unsigned long\<close>.\<close>

definition is_space :: "char \<Rightarrow> bool" where
  "is_space c \<longleftrightarrow> (of_char c :: nat) = 32 \<or> (9 \<le> (of_char c :: nat) \<and> (of_char c :: nat) \<le> 13)"

definition digit_val :: "char \<Rightarrow> nat option" where
  "digit_val c =
     (let n = of_char c
      in if 48 \<le> n \<and> n \<le> 57 then Some (n - 48)
         else if 97 \<le> n \<and> n \<le> 122 then Some (n - 87)
         else if 65 \<le> n \<and> n \<le> 90 then Some (n - 55)
         else None)"

text \<open>The longest prefix of digits of a base: its value, and what follows it.\<close>

fun read_digits :: "nat \<Rightarrow> string \<Rightarrow> nat \<Rightarrow> nat \<times> string" where
  "read_digits base [] acc = (acc, [])"
| "read_digits base (c # cs) acc =
     (case digit_val c of
        Some d \<Rightarrow> if d < base then read_digits base cs (acc * base + d) else (acc, c # cs)
      | None \<Rightarrow> (acc, c # cs))"

definition is_digit :: "nat \<Rightarrow> char \<Rightarrow> bool" where
  "is_digit base c \<longleftrightarrow> (case digit_val c of Some d \<Rightarrow> d < base | None \<Rightarrow> False)"

definition strip_sign :: "string \<Rightarrow> bool \<times> string" where
  "strip_sign s = (case s of [] \<Rightarrow> (False, [])
     | c # cs \<Rightarrow> if c = CHR ''-'' then (True, cs) else if c = CHR ''+'' then (False, cs) else (False, s))"

definition base_of :: "nat \<Rightarrow> string \<Rightarrow> nat \<times> string" where
  "base_of base s =
     (if base \<noteq> 0 then (base, s)
      else case s of
        a # b # c # cs \<Rightarrow>
          if a = CHR ''0'' \<and> (b = CHR ''x'' \<or> b = CHR ''X'') \<and> is_digit 16 c then (16, c # cs)
          else if a = CHR ''0'' then (8, s) else (10, s)
      | a # cs \<Rightarrow> if a = CHR ''0'' then (8, s) else (10, s)
      | [] \<Rightarrow> (10, s))"

definition strtoul :: "string \<Rightarrow> nat \<Rightarrow> u64 \<times> string" where
  "strtoul s base =
     (let (neg, t) = strip_sign (dropWhile is_space s);
          (base, t) = base_of base t
      in case t of
        c # cs \<Rightarrow>
          if is_digit base c then
            let (n, rest) = read_digits base t 0
            in (if 2 ^ 64 \<le> n then - 1 else if neg then - of_nat n else of_nat n, rest)
          else (0, s)
      | [] \<Rightarrow> (0, s))"

definition arg_read_int :: "string \<Rightarrow> int + u32" where
  "arg_read_int s = (let (v, p) = strtoul s 0 in if p \<noteq> [] then Inl (- EINVAL) else Inr (ucast v))"

text \<open>\<open>sscanf\<close> with \<open>%hhu\<close>: nothing is stored when there is no number.\<close>

definition scan_hhu :: "string \<Rightarrow> u8 \<Rightarrow> u8" where
  "scan_hhu s old =
     (case strip_sign (dropWhile is_space s) of
        (_, c # _) \<Rightarrow> if is_digit 10 c then ucast (fst (strtoul s 10)) else old
      | (_, []) \<Rightarrow> old)"

section \<open>Stepping through the arguments\<close>

text \<open>
  \<open>get_next_arg\<close>, from the arguments \<open>as\<close> that follow the current one; \<open>next_arg_read_int\<close> gives what
  follows the number.
\<close>

definition next_arg_read_int :: "string list \<Rightarrow> int + u32 \<times> string list" where
  "next_arg_read_int as =
     (case as of [] \<Rightarrow> Inl (- EINVAL)
      | a # as \<Rightarrow> (case arg_read_int a of Inl e \<Rightarrow> Inl e | Inr v \<Rightarrow> Inr (v, as)))"

text \<open>
  \<open>read_range\<close>, at the current argument.  The test \<open>v2 < v1\<close> compares the addresses of the two
  variables; in both structures the start comes before the end, so it never holds.
\<close>

definition read_range :: "string list \<Rightarrow> int + u32 \<times> u32 \<times> string list" where
  "read_range as =
     (case next_arg_read_int as of Inl e \<Rightarrow> Inl e
      | Inr (v1, as) \<Rightarrow>
          (case next_arg_read_int as of Inl e \<Rightarrow> Inl e | Inr (v2, as) \<Rightarrow> Inr (v1, v2, as)))"

definition get_next_arg :: "string list \<Rightarrow> int + string \<times> string list" where
  "get_next_arg as = (case as of [] \<Rightarrow> Inl (- EINVAL) | a # as \<Rightarrow> Inr (a, as))"

section \<open>The name of the function\<close>

definition parse_ifname :: "string \<Rightarrow> int + bool \<times> u8" where
  "parse_ifname name =
     (if 10 \<le> length name then Inl (- EINVAL)
      else if take 4 name \<noteq> ''qdma'' then Inl (- EINVAL)
      else
        let vf = (take 2 (drop 4 name) = ''vf'');
            num = drop (if vf then 6 else 4) name
        in if \<not> list_all (is_digit 10) num then Inl (- EINVAL)
        else (case arg_read_int num of Inl e \<Rightarrow> Inl e | Inr v \<Rightarrow> Inr (vf, ucast v)))"

section \<open>Register commands\<close>

definition zero_reg :: xcmd_reg where
  "zero_reg = \<lparr>rc_bar_set = False, rc_bar = 0, rc_reg = 0, rc_val = 0, rc_range_start = 0, rc_range_end = 0\<rparr>"

definition validate_regcmd :: "xnl_op \<Rightarrow> xcmd_reg \<Rightarrow> int" where
  "validate_regcmd qcmd regcmd =
     (case qcmd of
        XNL_CMD_REG_DUMP \<Rightarrow> 0
      | XNL_CMD_REG_RD \<Rightarrow>
          if rc_bar regcmd \<noteq> 0 \<and> rc_bar regcmd \<noteq> 2 then - EINVAL
          else if rc_bar regcmd = 0 \<and> \<not> is_valid_addr (ucast (rc_bar regcmd)) (rc_reg regcmd) then - EINVAL else 0
      | XNL_CMD_REG_WRT \<Rightarrow>
          if rc_bar regcmd \<noteq> 0 \<and> rc_bar regcmd \<noteq> 2 then - EINVAL
          else if rc_bar regcmd = 0 \<and> \<not> is_valid_addr (ucast (rc_bar regcmd)) (rc_reg regcmd) then - EINVAL else 0
      | _ \<Rightarrow> - EINVAL)"

text \<open>\<open>[bar <N>] <addr>\<close>, at the arguments after \<open>read\<close> or \<open>write\<close>.\<close>

definition read_bar_addr :: "string list \<Rightarrow> int + xcmd_reg \<times> string list" where
  "read_bar_addr as =
     (case get_next_arg as of Inl e \<Rightarrow> Inl e
      | Inr (a, bs) \<Rightarrow>
          if a = ''bar'' then
            (case next_arg_read_int bs of Inl e \<Rightarrow> Inl e
             | Inr (bar, cs) \<Rightarrow>
                 (case next_arg_read_int cs of Inl e \<Rightarrow> Inl e
                  | Inr (r, ds) \<Rightarrow> Inr (zero_reg\<lparr>rc_bar_set := True, rc_bar := bar, rc_reg := r\<rparr>, ds)))
          else
            (case next_arg_read_int as of Inl e \<Rightarrow> Inl e
             | Inr (r, ds) \<Rightarrow> Inr (zero_reg\<lparr>rc_reg := r\<rparr>, ds)))"

definition parse_reg_cmd :: "string list \<Rightarrow> xcmd_info \<Rightarrow> (xcmd_info \<times> string list) parsed" where
  "parse_reg_cmd as xcmd =
     (case as of [] \<Rightarrow> Bad
      | a # as \<Rightarrow>
          let result = (
            if a = ''dump'' then
              (if as \<noteq> [] \<and> hd as = ''dmap'' then
                 (case read_range (tl as) of Inl e \<Rightarrow> Inl e
                  | Inr (s, e, bs) \<Rightarrow> Inr (XNL_CMD_REG_DUMP, zero_reg\<lparr>rc_range_start := s, rc_range_end := e\<rparr>, bs))
               else Inr (XNL_CMD_REG_DUMP, zero_reg, as))
            else if a = ''read'' then
              (case read_bar_addr as of Inl e \<Rightarrow> Inl e | Inr (r, bs) \<Rightarrow> Inr (XNL_CMD_REG_RD, r, bs))
            else if a = ''write'' then
              (case read_bar_addr as of Inl e \<Rightarrow> Inl e
               | Inr (r, bs) \<Rightarrow>
                   (case next_arg_read_int bs of Inl e \<Rightarrow> Inl e
                    | Inr (v, cs) \<Rightarrow> Inr (XNL_CMD_REG_WRT, r\<lparr>rc_val := v\<rparr>, cs)))
            else Inr (xc_op xcmd, zero_reg, a # as))
          in Ok (case result of Inl e \<Rightarrow> Inl e
             | Inr (op, r, bs) \<Rightarrow>
                 if validate_regcmd op r = 0 then Inr (xcmd\<lparr>xc_op := op, xc_u := RegParm r\<rparr>, bs)
                 else Inl (validate_regcmd op r)))"

section \<open>Queue parameters\<close>

text \<open>
  One option, whose name is \<open>a\<close> and which the arguments \<open>as\<close> follow; the result is the rest of the
  arguments and the parameters, with the option's bit set in \<open>f_arg_set\<close>, which is kept in
  \<open>qp_sflags\<close> here.  \<open>None\<close> says that the option is not one of the group.
\<close>

definition set_arg :: "nat \<Rightarrow> xcmd_q_parm \<Rightarrow> xcmd_q_parm" where
  "set_arg p q = q\<lparr>qp_sflags := qp_sflags q OR push_bit p 1\<rparr>"

definition or_flag :: "u32 \<Rightarrow> xcmd_q_parm \<Rightarrow> xcmd_q_parm" where
  "or_flag f q = q\<lparr>qp_flags := qp_flags q OR f\<rparr>"

definition clear_flag :: "u32 \<Rightarrow> xcmd_q_parm \<Rightarrow> xcmd_q_parm" where
  "clear_flag f q = q\<lparr>qp_flags := qp_flags q AND NOT f\<rparr>"

type_synonym qopt_result = "int + xcmd_q_parm \<times> string list"

definition int_opt :: "nat \<Rightarrow> (u32 \<Rightarrow> xcmd_q_parm \<Rightarrow> xcmd_q_parm) \<Rightarrow> string list \<Rightarrow> xcmd_q_parm \<Rightarrow> qopt_result" where
  "int_opt p upd as q =
     (case next_arg_read_int as of Inl e \<Rightarrow> Inl e | Inr (v, bs) \<Rightarrow> Inr (set_arg p (upd v q), bs))"

definition range_opt :: "nat \<Rightarrow> string list \<Rightarrow> xcmd_q_parm \<Rightarrow> qopt_result" where
  "range_opt p as q =
     (case read_range as of Inl e \<Rightarrow> Inl e
      | Inr (s, e, bs) \<Rightarrow> Inr (set_arg p (q\<lparr>qp_range_start := s, qp_range_end := e\<rparr>), bs))"

text \<open>A word of a table, for \<open>mode\<close>, \<open>dir\<close> and \<open>trigmode\<close>.\<close>

definition word_opt ::
  "nat \<Rightarrow> (string \<times> (xcmd_q_parm \<Rightarrow> xcmd_q_parm)) list \<Rightarrow> string list \<Rightarrow> xcmd_q_parm \<Rightarrow> qopt_result" where
  "word_opt p tab as q =
     (case get_next_arg as of Inl e \<Rightarrow> Inl e
      | Inr (w, bs) \<Rightarrow>
          (case map_of tab w of None \<Rightarrow> Inl (- EINVAL) | Some upd \<Rightarrow> Inr (set_arg p (upd q), bs)))"

definition qopt_which :: "string \<Rightarrow> string list \<Rightarrow> xcmd_q_parm \<Rightarrow> qopt_result option" where
  "qopt_which a as q =
     (if a = ''idx'' then Some (int_opt QPARM_IDX (\<lambda>v q. q\<lparr>qp_idx := v, qp_num_q := 1\<rparr>) as q)
      else if a = ''list'' then
        Some (case int_opt QPARM_IDX (\<lambda>v q. q\<lparr>qp_idx := v\<rparr>) as q of
           Inl e \<Rightarrow> Inl e
         | Inr (q, bs) \<Rightarrow>
             (case next_arg_read_int bs of Inl e \<Rightarrow> Inl e | Inr (v, cs) \<Rightarrow> Inr (q\<lparr>qp_num_q := v\<rparr>, cs)))
      else if a = ''mode'' then
        Some (word_opt QPARM_MODE [(''mm'', or_flag XNL_F_QMODE_MM), (''st'', or_flag XNL_F_QMODE_ST)] as q)
      else if a = ''dir'' then
        Some (word_opt QPARM_DIR [(''h2c'', or_flag XNL_F_QDIR_H2C), (''c2h'', or_flag XNL_F_QDIR_C2H),
          (''bi'', or_flag XNL_F_QDIR_BOTH)] as q)
      else None)"

definition trig_mode :: "u8 \<Rightarrow> xcmd_q_parm \<Rightarrow> xcmd_q_parm" where
  "trig_mode v q = q\<lparr>qp_wrb_trig_mode := v\<rparr>"

definition qopt_size :: "string \<Rightarrow> string list \<Rightarrow> xcmd_q_parm \<Rightarrow> qopt_result option" where
  "qopt_size a as q =
     (if a = ''idx_bufsz'' then Some (int_opt QPARM_C2H_BUFSZ_IDX (\<lambda>v q. q\<lparr>qp_c2h_bufsz_idx := ucast v\<rparr>) as q)
      else if a = ''idx_ringsz'' then Some (int_opt QPARM_RNGSZ_IDX (\<lambda>v q. q\<lparr>qp_qrngsz_idx := ucast v\<rparr>) as q)
      else if a = ''idx_tmr'' then Some (int_opt QPARM_WRB_TMR_IDX (\<lambda>v q. q\<lparr>qp_wrb_tmr_idx := ucast v\<rparr>) as q)
      else if a = ''idx_cntr'' then Some (int_opt QPARM_WRB_CNTR_IDX (\<lambda>v q. q\<lparr>qp_wrb_cntr_idx := ucast v\<rparr>) as q)
      else if a = ''trigmode'' then
        Some (word_opt QPARM_WRB_TRIG_MODE [(''every'', trig_mode 1), (''usr_cnt'', trig_mode 2), (''usr'', trig_mode 3),
          (''usr_tmr'', trig_mode 4), (''dis'', trig_mode 0)] as q)
      else if a = ''desc'' then Some (range_opt QPARM_DESC as q)
      else if a = ''wrb'' then Some (range_opt QPARM_WRB as q)
      else if a = ''wrbsz'' then
        Some (case get_next_arg as of Inl e \<Rightarrow> Inl e
         | Inr (w, bs) \<Rightarrow>
             Inr (set_arg QPARM_WRBSZ (q\<lparr>qp_wrb_entry_size := scan_hhu w (qp_wrb_entry_size q)\<rparr>), bs))
      else None)"

text \<open>The options without a value.\<close>

definition qopt_switch :: "string \<Rightarrow> (xcmd_q_parm \<Rightarrow> xcmd_q_parm) option" where
  "qopt_switch a = map_of [
     (''pfetch_en'', or_flag XNL_F_PFETCH_EN), (''bypass_en'', or_flag XNL_F_DESC_BYPASS_EN),
     (''c2h_cmpl_intr_en'', or_flag XNL_F_C2H_CMPL_INTR_EN), (''dis_wbk'', clear_flag XNL_F_WBK_EN),
     (''dis_wbk_acc'', clear_flag XNL_F_WBK_ACC_EN), (''dis_wbk_pend_chk'', clear_flag XNL_F_WBK_PEND_CHK),
     (''dis_fetch_credit'', clear_flag XNL_F_FETCH_CREDIT), (''dis_wrb_stat'', clear_flag XNL_F_WRB_STAT_DESC_EN),
     (''c2h_udd_en'', or_flag XNL_F_CMPL_UDD_EN)] a"

definition qopt :: "string \<Rightarrow> string list \<Rightarrow> xcmd_q_parm \<Rightarrow> qopt_result" where
  "qopt a as q =
     (case qopt_which a as q of Some r \<Rightarrow> r
      | None \<Rightarrow> (case qopt_size a as q of Some r \<Rightarrow> r
          | None \<Rightarrow> (case qopt_switch a of Some upd \<Rightarrow> Inr (upd q, as) | None \<Rightarrow> Inl (- EINVAL))))"

lemma next_arg_shorter: "next_arg_read_int as = Inr (v, bs) \<Longrightarrow> length bs < length as"
  by (auto simp: next_arg_read_int_def split: list.splits sum.splits)

lemma read_range_shorter: "read_range as = Inr (s, e, bs) \<Longrightarrow> length bs < length as"
  by (auto simp: read_range_def split: sum.splits prod.splits dest!: next_arg_shorter)

lemma qopt_which_shorter: "qopt_which a as q = Some (Inr (q', bs)) \<Longrightarrow> length bs \<le> length as"
  by (auto simp: qopt_which_def int_opt_def word_opt_def get_next_arg_def
      split: if_splits sum.splits prod.splits list.splits option.splits dest!: next_arg_shorter)

lemma qopt_size_shorter: "qopt_size a as q = Some (Inr (q', bs)) \<Longrightarrow> length bs \<le> length as"
  by (auto simp: qopt_size_def int_opt_def range_opt_def word_opt_def get_next_arg_def
      split: if_splits sum.splits prod.splits list.splits option.splits dest!: next_arg_shorter read_range_shorter)

lemma qopt_shorter: "qopt a as q = Inr (q', bs) \<Longrightarrow> length bs \<le> length as"
  by (auto simp: qopt_def split: option.splits dest: qopt_which_shorter qopt_size_shorter)

function qopts :: "string list \<Rightarrow> xcmd_q_parm \<Rightarrow> int + xcmd_q_parm" where
  "qopts [] q = Inr q"
| "qopts (a # as) q = (case qopt a as q of Inl e \<Rightarrow> Inl e | Inr (q, bs) \<Rightarrow> qopts bs q)"
  by pat_completeness auto

termination
  by (relation "measure (length \<circ> fst)") (auto dest!: qopt_shorter)

text \<open>
  \<open>read_qparm\<close>: the whole of the arguments is read; what is required is checked; the direction defaults
  to H2C.
\<close>

definition read_qparm :: "string list \<Rightarrow> xcmd_q_parm \<Rightarrow> u32 \<Rightarrow> int + xcmd_q_parm" where
  "read_qparm as qparm f_arg_required =
     (case qopts as (qparm\<lparr>qp_sflags := 0, qp_idx := XNL_QIDX_INVALID\<rparr>) of
        Inl e \<Rightarrow> Inl e
      | Inr q \<Rightarrow>
          if qp_sflags q AND f_arg_required \<noteq> f_arg_required then Inl (- EINVAL)
          else if \<not> bit (qp_sflags q) QPARM_DIR then Inr (set_arg QPARM_DIR (or_flag XNL_F_QDIR_H2C q))
          else Inr q)"

section \<open>Queue commands\<close>

definition IS_SIZE_IDX_VALID :: "u8 \<Rightarrow> bool" where
  "IS_SIZE_IDX_VALID x = (x < 16)"

text \<open>
  \<open>validate_qcmd\<close>; \<open>parse_q_cmd\<close> does not call it for \<open>list\<close>.
\<close>

definition validate_qcmd :: "xnl_op \<Rightarrow> xcmd_q_parm \<Rightarrow> int" where
  "validate_qcmd qcmd q =
     (let both = bit (qp_sflags q) QPARM_DESC \<and> bit (qp_sflags q) QPARM_WRB
      in case qcmd of
        XNL_CMD_Q_LIST \<Rightarrow> 0
      | XNL_CMD_Q_ADD \<Rightarrow> 0
      | XNL_CMD_Q_START \<Rightarrow>
          if \<not> IS_SIZE_IDX_VALID (qp_c2h_bufsz_idx q) \<or> \<not> IS_SIZE_IDX_VALID (qp_qrngsz_idx q)
             \<or> \<not> IS_SIZE_IDX_VALID (qp_wrb_cntr_idx q) \<or> \<not> IS_SIZE_IDX_VALID (qp_wrb_tmr_idx q)
             \<or> XNL_ST_C2H_WRB_DESC_SIZE_RSVD < qp_wrb_entry_size q then - EINVAL
          else if qp_flags q AND XNL_F_CMPL_UDD_EN \<noteq> 0
             \<and> (\<not> bit (qp_sflags q) QPARM_WRBSZ \<or> qp_wrb_entry_size q = XNL_ST_C2H_WRB_DESC_SIZE_RSVD) then - EINVAL
          else 0
      | XNL_CMD_Q_STOP \<Rightarrow> 0
      | XNL_CMD_Q_DEL \<Rightarrow> 0
      | XNL_CMD_Q_WRB \<Rightarrow> if both then - EINVAL else 0
      | XNL_CMD_Q_DUMP \<Rightarrow> if both then - EINVAL else 0
      | XNL_CMD_Q_DESC \<Rightarrow> 0
      | XNL_CMD_Q_RX_PKT \<Rightarrow> if qp_flags q AND XNL_F_QDIR_H2C \<noteq> 0 then - EINVAL else 0
      | _ \<Rightarrow> - EINVAL)"

text \<open>
  What each command does with its parameters once they are read.  In the test of \<open>start\<close>, \<open>==\<close>
  binds more tightly than \<open>&\<close>: what is tested is bit 0 of the flags, \<open>XNL_F_QMODE_ST\<close>.
\<close>

definition finish_add :: "xcmd_q_parm \<Rightarrow> int + xcmd_q_parm" where
  "finish_add q =
     (if bit (qp_sflags q) QPARM_MODE then
        let msk = XNL_F_QMODE_MM OR XNL_F_QMODE_ST
        in if qp_flags q AND msk = msk then Inl (- EINVAL) else Inr q
      else Inr (set_arg QPARM_MODE (or_flag XNL_F_QMODE_MM q)))"

definition finish_start :: "xcmd_q_parm \<Rightarrow> xcmd_q_parm" where
  "finish_start q =
     (let q = or_flag (XNL_F_WBK_EN OR XNL_F_WBK_ACC_EN OR XNL_F_WBK_PEND_CHK OR XNL_F_WRB_STAT_DESC_EN
                       OR XNL_F_FETCH_CREDIT) q
      in if bit (qp_flags q) 0 \<and> \<not> bit (qp_sflags q) QPARM_WRBSZ
         then set_arg QPARM_WRBSZ (q\<lparr>qp_wrb_entry_size := 3\<rparr>) else q)"

definition dump_op :: "xcmd_q_parm \<Rightarrow> int + xnl_op" where
  "dump_op q =
     (if bit (qp_sflags q) QPARM_DESC \<and> bit (qp_sflags q) QPARM_WRB then Inl (- EINVAL)
      else if bit (qp_sflags q) QPARM_DESC then Inr XNL_CMD_Q_DESC
      else if bit (qp_sflags q) QPARM_WRB then Inr XNL_CMD_Q_WRB
      else Inr XNL_CMD_Q_DUMP)"

text \<open>The operation of each word, and the finish of its parameters.\<close>

definition q_words :: "(string \<times> xnl_op) list" where
  "q_words = [(''add'', XNL_CMD_Q_ADD), (''start'', XNL_CMD_Q_START), (''stop'', XNL_CMD_Q_STOP),
     (''del'', XNL_CMD_Q_DEL), (''dump'', XNL_CMD_Q_DUMP), (''pkt'', XNL_CMD_Q_RX_PKT)]"

definition finish_q :: "xnl_op \<Rightarrow> xcmd_q_parm \<Rightarrow> int + xnl_op \<times> xcmd_q_parm" where
  "finish_q op q =
     (case op of
        XNL_CMD_Q_ADD \<Rightarrow> (case finish_add q of Inl e \<Rightarrow> Inl e | Inr q \<Rightarrow> Inr (op, q))
      | XNL_CMD_Q_START \<Rightarrow> Inr (op, finish_start q)
      | XNL_CMD_Q_DUMP \<Rightarrow> (case dump_op q of Inl e \<Rightarrow> Inl e | Inr op \<Rightarrow> Inr (op, q))
      | _ \<Rightarrow> Inr (op, q))"

definition parse_q_cmd :: "string list \<Rightarrow> xcmd_info \<Rightarrow> (xcmd_info \<times> string list) parsed" where
  "parse_q_cmd as xcmd =
     (case as of [] \<Rightarrow> Bad
      | a # as \<Rightarrow>
          if a = ''list'' then Ok (Inr (xcmd\<lparr>xc_op := XNL_CMD_Q_LIST\<rparr>, as))
          else (case map_of q_words a of None \<Rightarrow> Bad
            | Some op \<Rightarrow>
                if as = [] then Ok (Inl (- EINVAL))
                else (case read_qparm as zero_q_parm (push_bit QPARM_IDX 1) of
                    Inl e \<Rightarrow> Ok (Inl e)
                  | Inr q \<Rightarrow>
                      Ok (case finish_q op q of Inl e \<Rightarrow> Inl e
                        | Inr (op, q) \<Rightarrow>
                            if validate_qcmd op q = 0 then Inr (xcmd\<lparr>xc_op := op, xc_u := QParm q\<rparr>, [])
                            else Inl (validate_qcmd op q)))))"

section \<open>Other commands, and the whole line\<close>

definition parse_dev_cmd :: "string list \<Rightarrow> xcmd_info \<Rightarrow> (xcmd_info \<times> string list) parsed" where
  "parse_dev_cmd as xcmd =
     (case as of [] \<Rightarrow> Bad
      | a # bs \<Rightarrow> if a = ''list'' then Ok (Inr (xcmd\<lparr>xc_op := XNL_CMD_DEV_LIST\<rparr>, bs)) else Ok (Inr (xcmd, as)))"

text \<open>
  \<open>parse_intr_cmd\<close>.  After a number that cannot be read the argument stays where it is if there is
  none, and is skipped if there is one; \<open>i++\<close> at the end passes over the last one read.
\<close>

definition intr_range :: "string list \<Rightarrow> u32 \<times> u32 \<times> string list" where
  "intr_range as =
     (let last = word_of_int (QDMA_MAX_INT_RING_ENTRIES - 1)
      in case next_arg_read_int as of
        Inl e \<Rightarrow> (0, last, tl as)
      | Inr (s, bs) \<Rightarrow> (case next_arg_read_int bs of Inl e \<Rightarrow> (s, last, tl bs) | Inr (e, cs) \<Rightarrow> (s, e, cs)))"

definition parse_intr_cmd :: "string list \<Rightarrow> xcmd_info \<Rightarrow> (xcmd_info \<times> string list) parsed" where
  "parse_intr_cmd as xcmd =
     (case as of [] \<Rightarrow> Bad
      | a # as \<Rightarrow>
          if a \<noteq> ''dump'' then
            Ok (Inr (xcmd\<lparr>xc_u := IntrParm \<lparr>ci_vector = 0, ci_start_idx = 0, ci_end_idx = 0\<rparr>\<rparr>, as))
          else
            let result = (
              case get_next_arg as of Inl e \<Rightarrow> Inl e
              | Inr (b, bs) \<Rightarrow> if b = ''vector'' then next_arg_read_int bs else Inr (0, bs))
            in Ok (case result of Inl e \<Rightarrow> Inl e
               | Inr (v, cs) \<Rightarrow>
                   let (s, e, ds) = intr_range cs
                   in Inr (xcmd\<lparr>xc_op := XNL_CMD_INTR_RING_DUMP,
                                xc_u := IntrParm \<lparr>ci_vector = v, ci_start_idx = s, ci_end_idx = e\<rparr>\<rparr>, ds)))"

text \<open>
  \<open>parse_cmd\<close>, for the arguments after the program's name; \<open>None\<close> is the end of the program after printing
  its usage or its version.
\<close>

definition finish_cmd :: "(xcmd_info \<times> string list) parsed \<Rightarrow> xcmd_info parsed" where
  "finish_cmd r =
     (case r of Bad \<Rightarrow> Bad
      | Ok (Inl e) \<Rightarrow> Ok (Inl e)
      | Ok (Inr (xcmd, as)) \<Rightarrow> Ok (if as \<noteq> [] then Inl (- EINVAL) else Inr xcmd))"

definition parse_cmd :: "string list \<Rightarrow> xcmd_info parsed option" where
  "parse_cmd argv =
     (case argv of [] \<Rightarrow> None
      | name # as \<Rightarrow>
          if as = [] \<and> name \<in> {''?'', ''-h'', ''help'', ''--help'', ''-v'', ''--version''} then None
          else if name = ''dev'' then Some (finish_cmd (parse_dev_cmd as zero_xcmd))
          else Some (case parse_ifname name of
              Inl e \<Rightarrow> Ok (Inl e)
            | Inr (vf, idx) \<Rightarrow>
                let xcmd = zero_xcmd\<lparr>xc_vf := vf, xc_if_idx := idx\<rparr>
                in (case as of [] \<Rightarrow> Ok (Inr (xcmd\<lparr>xc_op := XNL_CMD_DEV_INFO\<rparr>))
                   | b # bs \<Rightarrow>
                       if b = ''reg'' then finish_cmd (parse_reg_cmd bs xcmd)
                       else if b = ''q'' then finish_cmd (parse_q_cmd bs xcmd)
                       else if b = ''intring'' then finish_cmd (parse_intr_cmd bs xcmd)
                       else Ok (Inl (- EINVAL)))))"

section \<open>Printing options, and reading them back\<close>

definition dec_digit :: "nat \<Rightarrow> char" where
  "dec_digit n = char_of (48 + n)"

fun show_nat :: "nat \<Rightarrow> string" where
  "show_nat n = (if n < 10 then [dec_digit n] else show_nat (n div 10) @ [dec_digit (n mod 10)])"

declare show_nat.simps [simp del]

lemma dec_digit_code: "n < 10 \<Longrightarrow> of_char (dec_digit n) = 48 + n"
  by (simp add: dec_digit_def)

lemma dec_digit_val: "n < 10 \<Longrightarrow> digit_val (dec_digit n) = Some n"
  by (simp add: digit_val_def Let_def dec_digit_code)

lemma dec_digit_ne:
  "n < 10 \<Longrightarrow> \<not> is_space (dec_digit n)" "n < 10 \<Longrightarrow> dec_digit n \<noteq> CHR ''-''" "n < 10 \<Longrightarrow> dec_digit n \<noteq> CHR ''+''"
  "n < 10 \<Longrightarrow> n \<noteq> 0 \<Longrightarrow> dec_digit n \<noteq> CHR ''0''" "n < 10 \<Longrightarrow> is_digit 10 (dec_digit n)"
  using dec_digit_code [of n] by (auto simp: is_space_def is_digit_def dec_digit_val)

lemma dec_digit_0: "dec_digit 0 = CHR ''0''"
proof -
  have "of_char (dec_digit 0) = (of_char CHR ''0'' :: nat)" by (simp add: dec_digit_code)
  then show ?thesis by (simp only: of_char_eq_iff)
qed

lemma show_nat_digits: "\<exists>d ds. show_nat n = dec_digit d # ds \<and> d < 10 \<and> (n \<noteq> 0 \<longrightarrow> d \<noteq> 0) \<and> (n = 0 \<longrightarrow> ds = [])"
proof (induction n rule: show_nat.induct)
  case (1 n)
  then show ?case by (cases "n < 10") (auto simp: show_nat.simps [of n])
qed

lemma read_digits_show:
  "read_digits 10 (show_nat n @ rest) acc = read_digits 10 rest (acc * 10 ^ length (show_nat n) + n)"
proof (induction n arbitrary: rest acc rule: show_nat.induct)
  case (1 n)
  show ?case
  proof (cases "n < 10")
    case True
    then show ?thesis by (simp add: show_nat.simps [of n] dec_digit_val)
  next
    case False
    then show ?thesis
      using 1 [OF False, of "dec_digit (n mod 10) # rest" acc]
      by (simp add: show_nat.simps [of n] dec_digit_val algebra_simps)
  qed
qed

lemma strtoul_show:
  assumes "n < 2 ^ 64" "base = 0 \<or> base = 10"
  shows "strtoul (show_nat n) base = (of_nat n, [])"
proof -
  obtain d ds where s: "show_nat n = dec_digit d # ds" "d < 10" "n \<noteq> 0 \<longrightarrow> d \<noteq> 0" "n = 0 \<longrightarrow> ds = []"
    using show_nat_digits by blast
  have strip: "strip_sign (dropWhile is_space (show_nat n)) = (False, show_nat n)"
    using s(2) by (simp add: s(1) dec_digit_ne strip_sign_def)
  show ?thesis
  proof (cases "n = 0 \<and> base = 0")
    case True
    then have "show_nat n = ''0''" by (simp add: show_nat.simps dec_digit_0)
    then show ?thesis using True strip by (simp add: strtoul_def base_of_def is_digit_def digit_val_def)
  next
    case False
    then have "base_of base (show_nat n) = (10, show_nat n)"
    proof (cases "base = 0")
      case True
      then have "dec_digit d \<noteq> CHR ''0''" using False s(2,3) dec_digit_ne(4) by blast
      then show ?thesis using True by (cases ds rule: list.exhaust [case_product list.exhaust]) (simp_all add: s(1) base_of_def split: list.split)
    qed (use assms(2) in \<open>simp add: base_of_def\<close>)
    moreover have "read_digits 10 (show_nat n) 0 = (n, [])" using read_digits_show [of n "[]" 0] by simp
    ultimately show ?thesis
      using assms(1) s(2) strip by (simp add: strtoul_def s(1) dec_digit_ne)
  qed
qed

lemma ucast_wider: "ucast (of_nat (unat v) :: u64) = (v :: u32)" "ucast (of_nat (unat w) :: u64) = (w :: u8)"
  by (rule bit_eqI; simp add: bit_simps)+

lemma arg_read_show: "arg_read_int (show_nat (unat v)) = Inr v"
proof -
  have "unat v < 2 ^ 64" using unsigned_less [of v, where 'a = nat] by simp
  then have "strtoul (show_nat (unat v)) 0 = (of_nat (unat v), [])" by (rule strtoul_show) simp
  then show ?thesis unfolding arg_read_int_def Let_def by (simp only: split ucast_wider) simp
qed

lemma scan_show: "scan_hhu (show_nat (unat v)) old = v"
proof -
  have "unat v < 2 ^ 64" using unsigned_less [of v, where 'a = nat] by simp
  then have s: "strtoul (show_nat (unat v)) 10 = (of_nat (unat v), [])" by (rule strtoul_show) simp
  obtain d ds where d: "show_nat (unat v) = dec_digit d # ds" "d < 10" using show_nat_digits by blast
  then have "scan_hhu (show_nat (unat v)) old = ucast (fst (strtoul (show_nat (unat v)) 10))"
    by (simp add: scan_hhu_def strip_sign_def dec_digit_ne)
  then show ?thesis unfolding s by (simp only: fst_conv ucast_wider)
qed

text \<open>The options of the queue commands as the user means them, and how each is written.\<close>

datatype num_opt = QIdx | BufszIdx | RingszIdx | TmrIdx | CntrIdx
datatype range_kind = QueueList | DescRange | WrbRange
datatype switch = PfetchEn | BypassEn | CmplIntrEn | UddEn | DisWbk | DisWbkAcc | DisPendChk | DisFetchCredit | DisWrbStat
datatype q_opt = Num num_opt u32 | Range range_kind u32 u32 | StMode bool | ToHost bool | BothDirs
  | Trigger u8 | Wrbsz u8 | Switch switch

fun num_name :: "num_opt \<Rightarrow> string" where
  "num_name QIdx = ''idx''" | "num_name BufszIdx = ''idx_bufsz''" | "num_name RingszIdx = ''idx_ringsz''"
| "num_name TmrIdx = ''idx_tmr''" | "num_name CntrIdx = ''idx_cntr''"

fun range_name :: "range_kind \<Rightarrow> string" where
  "range_name QueueList = ''list''" | "range_name DescRange = ''desc''" | "range_name WrbRange = ''wrb''"

fun switch_name :: "switch \<Rightarrow> string" where
  "switch_name PfetchEn = ''pfetch_en''" | "switch_name BypassEn = ''bypass_en''"
| "switch_name CmplIntrEn = ''c2h_cmpl_intr_en''" | "switch_name UddEn = ''c2h_udd_en''"
| "switch_name DisWbk = ''dis_wbk''" | "switch_name DisWbkAcc = ''dis_wbk_acc''"
| "switch_name DisPendChk = ''dis_wbk_pend_chk''" | "switch_name DisFetchCredit = ''dis_fetch_credit''"
| "switch_name DisWrbStat = ''dis_wrb_stat''"

definition trig_name :: "u8 \<Rightarrow> string" where
  "trig_name v = (if v = 1 then ''every'' else if v = 2 then ''usr_cnt'' else if v = 3 then ''usr''
     else if v = 4 then ''usr_tmr'' else ''dis'')"

fun show_opt :: "q_opt \<Rightarrow> string list" where
  "show_opt (Num k v) = [num_name k, show_nat (unat v)]"
| "show_opt (Range k v w) = [range_name k, show_nat (unat v), show_nat (unat w)]"
| "show_opt (StMode st) = [''mode'', if st then ''st'' else ''mm'']"
| "show_opt (ToHost c2h) = [''dir'', if c2h then ''c2h'' else ''h2c'']"
| "show_opt BothDirs = [''dir'', ''bi'']"
| "show_opt (Trigger v) = [''trigmode'', trig_name v]"
| "show_opt (Wrbsz v) = [''wrbsz'', show_nat (unat v)]"
| "show_opt (Switch s) = [switch_name s]"

text \<open>What an option stands for: the field it sets and the bit that says so.\<close>

fun set_num :: "num_opt \<Rightarrow> u32 \<Rightarrow> xcmd_q_parm \<Rightarrow> xcmd_q_parm" where
  "set_num QIdx v q = set_arg QPARM_IDX (q\<lparr>qp_idx := v, qp_num_q := 1\<rparr>)"
| "set_num BufszIdx v q = set_arg QPARM_C2H_BUFSZ_IDX (q\<lparr>qp_c2h_bufsz_idx := ucast v\<rparr>)"
| "set_num RingszIdx v q = set_arg QPARM_RNGSZ_IDX (q\<lparr>qp_qrngsz_idx := ucast v\<rparr>)"
| "set_num TmrIdx v q = set_arg QPARM_WRB_TMR_IDX (q\<lparr>qp_wrb_tmr_idx := ucast v\<rparr>)"
| "set_num CntrIdx v q = set_arg QPARM_WRB_CNTR_IDX (q\<lparr>qp_wrb_cntr_idx := ucast v\<rparr>)"

fun set_range :: "range_kind \<Rightarrow> u32 \<Rightarrow> u32 \<Rightarrow> xcmd_q_parm \<Rightarrow> xcmd_q_parm" where
  "set_range QueueList v w q = set_arg QPARM_IDX (q\<lparr>qp_idx := v, qp_num_q := w\<rparr>)"
| "set_range DescRange v w q = set_arg QPARM_DESC (q\<lparr>qp_range_start := v, qp_range_end := w\<rparr>)"
| "set_range WrbRange v w q = set_arg QPARM_WRB (q\<lparr>qp_range_start := v, qp_range_end := w\<rparr>)"

fun set_switch :: "switch \<Rightarrow> xcmd_q_parm \<Rightarrow> xcmd_q_parm" where
  "set_switch PfetchEn = or_flag XNL_F_PFETCH_EN" | "set_switch BypassEn = or_flag XNL_F_DESC_BYPASS_EN"
| "set_switch CmplIntrEn = or_flag XNL_F_C2H_CMPL_INTR_EN" | "set_switch UddEn = or_flag XNL_F_CMPL_UDD_EN"
| "set_switch DisWbk = clear_flag XNL_F_WBK_EN" | "set_switch DisWbkAcc = clear_flag XNL_F_WBK_ACC_EN"
| "set_switch DisPendChk = clear_flag XNL_F_WBK_PEND_CHK" | "set_switch DisFetchCredit = clear_flag XNL_F_FETCH_CREDIT"
| "set_switch DisWrbStat = clear_flag XNL_F_WRB_STAT_DESC_EN"

fun apply_opt :: "q_opt \<Rightarrow> xcmd_q_parm \<Rightarrow> xcmd_q_parm" where
  "apply_opt (Num k v) q = set_num k v q"
| "apply_opt (Range k v w) q = set_range k v w q"
| "apply_opt (StMode st) q = set_arg QPARM_MODE (or_flag (if st then XNL_F_QMODE_ST else XNL_F_QMODE_MM) q)"
| "apply_opt (ToHost c2h) q = set_arg QPARM_DIR (or_flag (if c2h then XNL_F_QDIR_C2H else XNL_F_QDIR_H2C) q)"
| "apply_opt BothDirs q = set_arg QPARM_DIR (or_flag XNL_F_QDIR_BOTH q)"
| "apply_opt (Trigger v) q = set_arg QPARM_WRB_TRIG_MODE (q\<lparr>qp_wrb_trig_mode := if v \<le> 4 then v else 0\<rparr>)"
| "apply_opt (Wrbsz v) q = set_arg QPARM_WRBSZ (q\<lparr>qp_wrb_entry_size := v\<rparr>)"
| "apply_opt (Switch s) q = set_switch s q"

lemma next_arg_show: "next_arg_read_int (show_nat (unat v) # as) = Inr (v, as)"
  by (simp add: next_arg_read_int_def arg_read_show)

lemma read_range_show: "read_range (show_nat (unat v) # show_nat (unat w) # as) = Inr (v, w, as)"
  by (simp add: read_range_def next_arg_show)

lemma qopt_show: "\<exists>a bs. show_opt opt = a # bs \<and> qopt a (bs @ as) q = Inr (apply_opt opt q, as)"
proof (cases opt)
  case (Num k v)
  then show ?thesis by (cases k) (simp_all add: qopt_def qopt_which_def qopt_size_def int_opt_def next_arg_show)
next
  case (Range k v w)
  then show ?thesis
    by (cases k) (simp_all add: qopt_def qopt_which_def qopt_size_def int_opt_def range_opt_def next_arg_show
        read_range_show set_arg_def)
next
  case (StMode st)
  then show ?thesis by (simp add: qopt_def qopt_which_def word_opt_def get_next_arg_def)
next
  case (ToHost c2h)
  then show ?thesis by (simp add: qopt_def qopt_which_def word_opt_def get_next_arg_def)
next
  case BothDirs
  then show ?thesis by (simp add: qopt_def qopt_which_def word_opt_def get_next_arg_def)
next
  case (Trigger v)
  have "v = 0 \<or> v = 1 \<or> v = 2 \<or> v = 3 \<or> v = 4 \<or> \<not> v \<le> 4" by (auto simp: word_le_nat_alt word_unat_eq_iff)
  then show ?thesis
    by (auto simp: Trigger trig_name_def qopt_def qopt_which_def qopt_size_def word_opt_def get_next_arg_def trig_mode_def)
next
  case (Wrbsz v)
  then show ?thesis by (simp add: qopt_def qopt_which_def qopt_size_def get_next_arg_def scan_show)
next
  case (Switch s)
  then show ?thesis by (cases s) (simp_all add: qopt_def qopt_which_def qopt_size_def qopt_switch_def)
qed

lemma qopts_show: "qopts (concat (map show_opt opts)) q = Inr (fold apply_opt opts q)"
proof (induction opts arbitrary: q)
  case (Cons opt opts)
  obtain a bs where "show_opt opt = a # bs" "qopt a (bs @ concat (map show_opt opts)) q = Inr (apply_opt opt q, concat (map show_opt opts))"
    using qopt_show by blast
  then show ?case using Cons by simp
qed simp

fun names_queue :: "q_opt \<Rightarrow> bool" where
  "names_queue (Num QIdx _) = True" | "names_queue (Range QueueList _ _) = True" | "names_queue _ = False"

fun gives_dir :: "q_opt \<Rightarrow> bool" where
  "gives_dir (ToHost _) = True" | "gives_dir BothDirs = True" | "gives_dir _ = False"

lemma set_arg_bit: "bit (qp_sflags (set_arg p q)) k \<longleftrightarrow> bit (qp_sflags q) k \<or> p = k \<and> k < 32"
  by (auto simp: set_arg_def bit_simps)

lemma sflags_keep [simp]:
  "qp_sflags (or_flag f q) = qp_sflags q" "qp_sflags (clear_flag f q) = qp_sflags q"
  by (simp_all add: or_flag_def clear_flag_def)

lemma apply_opt_bits:
  "bit (qp_sflags (apply_opt opt q)) QPARM_IDX \<longleftrightarrow> bit (qp_sflags q) QPARM_IDX \<or> names_queue opt"
  "bit (qp_sflags (apply_opt opt q)) QPARM_DIR \<longleftrightarrow> bit (qp_sflags q) QPARM_DIR \<or> gives_dir opt"
proof -
  have s: "qp_sflags (set_switch s q) = qp_sflags q" for s by (cases s) simp_all
  have n: "bit (qp_sflags (set_num k v q)) QPARM_IDX \<longleftrightarrow> bit (qp_sflags q) QPARM_IDX \<or> names_queue (Num k v)"
    "bit (qp_sflags (set_num k v q)) QPARM_DIR = bit (qp_sflags q) QPARM_DIR" for k v
    by (cases k; simp add: set_arg_bit nl_defs)+
  have r: "bit (qp_sflags (set_range k v w q)) QPARM_IDX \<longleftrightarrow> bit (qp_sflags q) QPARM_IDX \<or> names_queue (Range k v w)"
    "bit (qp_sflags (set_range k v w q)) QPARM_DIR = bit (qp_sflags q) QPARM_DIR" for k v w
    by (cases k; simp add: set_arg_bit nl_defs)+
  show "bit (qp_sflags (apply_opt opt q)) QPARM_IDX \<longleftrightarrow> bit (qp_sflags q) QPARM_IDX \<or> names_queue opt"
    by (cases opt) (simp_all add: s n r set_arg_bit, simp_all add: nl_defs)
  show "bit (qp_sflags (apply_opt opt q)) QPARM_DIR \<longleftrightarrow> bit (qp_sflags q) QPARM_DIR \<or> gives_dir opt"
    by (cases opt) (simp_all add: s n r set_arg_bit, simp_all add: nl_defs)
qed

lemma fold_opt_bits:
  "bit (qp_sflags (fold apply_opt opts q)) QPARM_IDX \<longleftrightarrow> bit (qp_sflags q) QPARM_IDX \<or> list_ex names_queue opts"
  "bit (qp_sflags (fold apply_opt opts q)) QPARM_DIR \<longleftrightarrow> bit (qp_sflags q) QPARM_DIR \<or> list_ex gives_dir opts"
  by (induction opts arbitrary: q) (auto simp: apply_opt_bits)

lemma required_idx: "x AND 2 ^ QPARM_IDX = 2 ^ QPARM_IDX \<longleftrightarrow> bit (x :: u32) QPARM_IDX"
  by (simp add: QPARM_IDX_def and_one_eq bit_0 odd_iff_mod_2_eq_one)

text \<open>
  C32.  Any sequence of options of the queue commands, printed and read by the parser, gives the
  parameters that the options stand for, applied in order, a later one over an earlier one; without a
  direction the queue is an H2C one.  The only way such a sequence is refused is that no option names a queue.
\<close>

theorem q_options_read_back:
  "read_qparm (concat (map show_opt opts)) qparm (push_bit QPARM_IDX 1) =
     (let q = fold apply_opt opts (qparm\<lparr>qp_sflags := 0, qp_idx := XNL_QIDX_INVALID\<rparr>)
      in if \<not> list_ex names_queue opts then Inl (- EINVAL)
         else Inr (if list_ex gives_dir opts then q else apply_opt (ToHost False) q))"
  by (simp add: read_qparm_def qopts_show Let_def required_idx fold_opt_bits)

section \<open>What an accepted command guarantees\<close>

lemma or_flag_flags [simp]: "qp_flags (or_flag f q) = qp_flags q OR f"
  by (simp add: or_flag_def)

lemma set_arg_flags [simp]: "qp_flags (set_arg p q) = qp_flags q"
  by (simp add: set_arg_def)

lemma read_qparm_idx: "read_qparm as q (push_bit QPARM_IDX 1) = Inr q' \<Longrightarrow> bit (qp_sflags q') QPARM_IDX"
  by (auto simp: read_qparm_def required_idx set_arg_bit split: sum.splits if_splits)

lemma finish_start_facts:
  "qp_flags (finish_start q) = qp_flags q OR 0x7C0"
  "bit (qp_sflags q) k \<Longrightarrow> bit (qp_sflags (finish_start q)) k"
proof -
  show "qp_flags (finish_start q) = qp_flags q OR 0x7C0"
    by (simp add: finish_start_def Let_def nl_defs)
  show "bit (qp_sflags (finish_start q)) k" if "bit (qp_sflags q) k"
    using that by (simp add: finish_start_def Let_def set_arg_bit)
qed

lemma flags_kept_on:
  assumes "m AND f = f"
  shows "(x OR m) AND f = (f :: u32)"
proof (rule bit_eqI)
  fix n
  show "bit ((x OR m) AND f) n = bit f n"
    using arg_cong [OF assms, of "\<lambda>w. bit w n"] by (auto simp: bit_and_iff bit_or_iff)
qed

text \<open>
  A \<open>start\<close> command that is accepted names its queues, has table indices below 16 and an entry size
  of at most 3, and asks for user data only with an entry size below 3.  Its flags always have writeback,
  accumulated writeback, the pending check, the completion status and the fetch credit switched on,
  whatever the options were: \<open>dis_wbk\<close> and its like have no effect, as they are taken off before the flags are put on.
\<close>

theorem q_start_accepted:
  assumes "parse_q_cmd (''start'' # as) xcmd = Ok (Inr (xcmd', rest))"
  shows "\<exists>q. xc_u xcmd' = QParm q \<and> xc_op xcmd' = XNL_CMD_Q_START \<and> rest = []
    \<and> bit (qp_sflags q) QPARM_IDX
    \<and> qp_qrngsz_idx q < 16 \<and> qp_c2h_bufsz_idx q < 16 \<and> qp_wrb_tmr_idx q < 16 \<and> qp_wrb_cntr_idx q < 16
    \<and> qp_wrb_entry_size q \<le> 3
    \<and> (qp_flags q AND XNL_F_CMPL_UDD_EN \<noteq> 0 \<longrightarrow> qp_wrb_entry_size q < 3)
    \<and> (\<forall>f \<in> {XNL_F_WBK_EN, XNL_F_WBK_ACC_EN, XNL_F_WBK_PEND_CHK, XNL_F_WRB_STAT_DESC_EN, XNL_F_FETCH_CREDIT}.
         qp_flags q AND f = f)"
proof -
  from assms obtain q0 where q0: "read_qparm as zero_q_parm (push_bit QPARM_IDX 1) = Inr q0"
    and ok: "validate_qcmd XNL_CMD_Q_START (finish_start q0) = 0"
    and res: "xcmd' = xcmd\<lparr>xc_op := XNL_CMD_Q_START, xc_u := QParm (finish_start q0)\<rparr>" "rest = []"
    by (auto simp: parse_q_cmd_def q_words_def finish_q_def split: if_splits sum.splits)
  let ?q = "finish_start q0"
  have flags: "qp_flags ?q AND f = f" if "f \<in> {0x40, 0x80, 0x100, 0x200, 0x400}" for f
    unfolding finish_start_facts(1) by (rule flags_kept_on) (use that in auto)
  have "bit (qp_sflags ?q) QPARM_IDX" by (rule finish_start_facts(2) [OF read_qparm_idx [OF q0]])
  moreover have "qp_qrngsz_idx ?q < 16 \<and> qp_c2h_bufsz_idx ?q < 16 \<and> qp_wrb_tmr_idx ?q < 16 \<and> qp_wrb_cntr_idx ?q < 16
    \<and> qp_wrb_entry_size ?q \<le> 3 \<and> (qp_flags ?q AND XNL_F_CMPL_UDD_EN \<noteq> 0 \<longrightarrow> qp_wrb_entry_size ?q < 3)"
    using ok by (auto simp: validate_qcmd_def IS_SIZE_IDX_VALID_def XNL_ST_C2H_WRB_DESC_SIZE_RSVD_def errno_defs
        split: if_splits)
  ultimately show ?thesis using res flags by (simp add: nl_defs)
qed

lemmas cli_eval = parse_q_cmd_def q_words_def read_qparm_def qopt_def qopt_which_def qopt_size_def qopt_switch_def
  int_opt_def word_opt_def range_opt_def next_arg_read_int_def get_next_arg_def read_range_def finish_q_def
  finish_add_def dump_op_def set_arg_def or_flag_def clear_flag_def
  arg_read_int_def strtoul_def is_space_def strip_sign_def base_of_def is_digit_def digit_val_def

lemma q_start_accepted_witness:
  "\<exists>xcmd' q. parse_q_cmd [''start'', ''idx'', ''3'', ''dis_wbk''] zero_xcmd = Ok (Inr (xcmd', []))
     \<and> xc_u xcmd' = QParm q \<and> qp_flags q AND XNL_F_WBK_EN = XNL_F_WBK_EN"
proof -
  obtain xcmd' where run: "parse_q_cmd [''start'', ''idx'', ''3'', ''dis_wbk''] zero_xcmd = Ok (Inr (xcmd', []))"
    by (rule that) (simp add: cli_eval finish_start_def validate_qcmd_def IS_SIZE_IDX_VALID_def nl_defs zero_q_parm_def)
  from q_start_accepted [OF this] show ?thesis using run by auto
qed

section \<open>Where the parser is mistaken\<close>

text \<open>A range may end before it starts.\<close>

lemma read_range_reversed: "read_range [''10'', ''3''] = Inr (10, 3, [])"
  by (simp add: cli_eval)

text \<open>The number of the function is cut to eight bits, may be missing, and may be octal.\<close>

lemma ifname_cut:
  "parse_ifname ''qdma256'' = Inr (False, 0)" "parse_ifname ''qdma'' = Inr (False, 0)"
  "parse_ifname ''qdma010'' = Inr (False, 8)"
  by (simp_all add: parse_ifname_def cli_eval)

text \<open>So are the table indices, before they are compared with 16.\<close>

lemma size_index_cut:
  "\<exists>xcmd' q. parse_q_cmd [''start'', ''idx'', ''3'', ''idx_ringsz'', ''256''] zero_xcmd = Ok (Inr (xcmd', []))
     \<and> xc_u xcmd' = QParm q \<and> qp_qrngsz_idx q = 0"
  by (simp add: cli_eval finish_start_def validate_qcmd_def IS_SIZE_IDX_VALID_def nl_defs zero_q_parm_def)

text \<open>The direction of \<open>pkt\<close>, which the usage calls optional, cannot be left out.\<close>

lemma pkt_needs_dir: "parse_q_cmd (''pkt'' # show_opt (Num QIdx v)) xcmd = Ok (Inl (- EINVAL))"
  using qopts_show [of "[Num QIdx v]"]
  by (simp add: parse_q_cmd_def q_words_def read_qparm_def required_idx set_arg_bit finish_q_def validate_qcmd_def nl_defs errno_defs)

text \<open>An unknown word after \<open>intring\<close> lists the devices.\<close>

lemma intring_lists: "parse_cmd [''qdma0'', ''intring'', ''x''] = Some (Ok (Inr (zero_xcmd\<lparr>xc_u := IntrParm \<lparr>ci_vector = 0, ci_start_idx = 0, ci_end_idx = 0\<rparr>\<rparr>)))"
  by (simp add: parse_cmd_def parse_ifname_def parse_intr_cmd_def finish_cmd_def cli_eval zero_xcmd_def)

end
