(* ===== verification/Qdma_Nl_Msg.thy ===== *)
theory Qdma_Nl_Msg
  imports Qdma_Cli Qdma_Types
begin

unbundle bit_operations_syntax

text \<open>
  The messages between the command line tool and the driver: the request that the tool builds from a
  parsed command and what it takes from the answer (\<open>user/cli/nl_user.c\<close>), and what the driver's
  handlers take from a request (\<open>drv/nl.c\<close>).  A message is the list of its attributes, with their
  types as numbers.
\<close>

section \<open>The tool's requests\<close>

type_synonym nl_msg = "(nat \<times> u32) list"

text \<open>The member of the union that the command reads; the parser writes it for these commands.\<close>

definition q_of :: "xcmd_info \<Rightarrow> xcmd_q_parm" where
  "q_of xcmd = (case xc_u xcmd of QParm q \<Rightarrow> q | _ \<Rightarrow> zero_q_parm)"

definition intr_of :: "xcmd_info \<Rightarrow> xcmd_intr" where
  "intr_of xcmd = (case xc_u xcmd of IntrParm i \<Rightarrow> i | _ \<Rightarrow> \<lparr>ci_vector = 0, ci_start_idx = 0, ci_end_idx = 0\<rparr>)"

text \<open>\<open>get_cmd_resp_buf_len\<close>: the products are unsigned, the sum is put into an \<open>int\<close>.\<close>

definition get_cmd_resp_buf_len :: "xcmd_info \<Rightarrow> int" where
  "get_cmd_resp_buf_len xcmd =
     (let q = q_of xcmd; i = intr_of xcmd;
          grow = (\<lambda>n row_len. sint (word_of_int XNL_RESP_BUFLEN_MAX + n * row_len :: u32))
      in case xc_op xcmd of
        XNL_CMD_Q_DESC \<Rightarrow> grow (qp_range_end q - qp_range_start q) 100
      | XNL_CMD_Q_WRB \<Rightarrow> grow (qp_range_end q - qp_range_start q) 50
      | XNL_CMD_INTR_RING_DUMP \<Rightarrow> grow (ci_end_idx i - ci_start_idx i) 50
      | XNL_CMD_DEV_LIST \<Rightarrow> XNL_RESP_BUFLEN_MAX
      | XNL_CMD_Q_LIST \<Rightarrow> XNL_RESP_BUFLEN_MAX
      | XNL_CMD_Q_DUMP \<Rightarrow> XNL_RESP_BUFLEN_MAX
      | XNL_CMD_Q_ADD \<Rightarrow> XNL_RESP_BUFLEN_MAX
      | _ \<Rightarrow> XNL_RESP_BUFLEN_MIN)"

text \<open>An attribute that goes into the message if the parameter was given.\<close>

definition opt_attr :: "nat \<Rightarrow> xcmd_q_parm \<Rightarrow> nat \<Rightarrow> u8 \<Rightarrow> nl_msg" where
  "opt_attr p q t v = (if bit (qp_sflags q) p then [(t, ucast v)] else [])"

definition xnl_msg_add_extra_config_attrs :: "xcmd_q_parm \<Rightarrow> nl_msg" where
  "xnl_msg_add_extra_config_attrs q =
     opt_attr QPARM_RNGSZ_IDX q XNL_ATTR_QRNGSZ_IDX (qp_qrngsz_idx q)
     @ opt_attr QPARM_C2H_BUFSZ_IDX q XNL_ATTR_C2H_BUFSZ_IDX (qp_c2h_bufsz_idx q)
     @ opt_attr QPARM_WRBSZ q XNL_ATTR_WRB_DESC_SIZE (qp_wrb_entry_size q)
     @ opt_attr QPARM_WRB_TMR_IDX q XNL_ATTR_WRB_TIMER_IDX (qp_wrb_tmr_idx q)
     @ opt_attr QPARM_WRB_CNTR_IDX q XNL_ATTR_WRB_CNTR_IDX (qp_wrb_cntr_idx q)
     @ opt_attr QPARM_WRB_TRIG_MODE q XNL_ATTR_WRB_TRIG_MODE (qp_wrb_trig_mode q)"

definition queue_attrs :: "xcmd_q_parm \<Rightarrow> nl_msg" where
  "queue_attrs q = [(XNL_ATTR_QIDX, qp_idx q), (XNL_ATTR_NUM_Q, qp_num_q q), (XNL_ATTR_QFLAG, qp_flags q)]"

definition cmd_attrs :: "xcmd_info \<Rightarrow> nl_msg" where
  "cmd_attrs xcmd =
     (let q = q_of xcmd; i = intr_of xcmd;
          len = (XNL_ATTR_RSP_BUF_LEN, word_of_int (get_cmd_resp_buf_len xcmd));
          range = [(XNL_ATTR_RANGE_START, qp_range_start q), (XNL_ATTR_RANGE_END, qp_range_end q), len]
      in (XNL_ATTR_DEV_IDX, ucast (xc_if_idx xcmd)) #
        (case xc_op xcmd of
           XNL_CMD_Q_ADD \<Rightarrow> queue_attrs q
         | XNL_CMD_Q_START \<Rightarrow> xnl_msg_add_extra_config_attrs q @ queue_attrs q
         | XNL_CMD_Q_STOP \<Rightarrow> queue_attrs q
         | XNL_CMD_Q_DEL \<Rightarrow> queue_attrs q
         | XNL_CMD_Q_DUMP \<Rightarrow> queue_attrs q
         | XNL_CMD_Q_DESC \<Rightarrow> queue_attrs q @ range
         | XNL_CMD_Q_WRB \<Rightarrow> queue_attrs q @ range
         | XNL_CMD_Q_RX_PKT \<Rightarrow>
             [(XNL_ATTR_QIDX, qp_idx q), (XNL_ATTR_NUM_Q, qp_num_q q), (XNL_ATTR_QFLAG, XNL_F_QDIR_C2H)]
         | XNL_CMD_INTR_RING_DUMP \<Rightarrow>
             [(XNL_ATTR_INTR_VECTOR_IDX, ci_vector i), (XNL_ATTR_INTR_VECTOR_START_IDX, ci_start_idx i),
              (XNL_ATTR_INTR_VECTOR_END_IDX, ci_end_idx i), len]
         | _ \<Rightarrow> []))"

text \<open>
  The header of a message takes 20 bytes, an attribute 8.  The memory for a request is that of its header
  and of the answer's length: \<open>Bad\<close> is a message that is longer.
\<close>

definition msg_room :: "xcmd_info \<Rightarrow> u64" where
  "msg_room xcmd = 20 + word_of_int (get_cmd_resp_buf_len xcmd)"

definition msg_length :: "nl_msg \<Rightarrow> nat" where
  "msg_length msg = 20 + 8 * length msg"

text \<open>\<open>xnl_send_cmd\<close> up to the sending; \<open>ok\<close> says that there is memory.\<close>

definition xnl_send_cmd :: "bool \<Rightarrow> xcmd_info \<Rightarrow> (int + nl_msg) outcome" where
  "xnl_send_cmd ok xcmd =
     (if \<not> ok then Ok (Inl (- ENOMEM))
      else if unat (msg_room xcmd) < msg_length (cmd_attrs xcmd) then Bad
      else Ok (Inr (cmd_attrs xcmd)))"

section \<open>The tool's reading of an answer\<close>

datatype nl_val = NlStr string | NlU32 u32

definition word_of_val :: "nl_val \<Rightarrow> u32" where
  "word_of_val v = (case v of NlU32 w \<Rightarrow> w | NlStr s \<Rightarrow> 0)"

text \<open>\<open>recv_attrs\<close>; the texts are printed or copied into \<open>drv_str\<close>, which nothing reads.\<close>

fun recv_attrs_loop :: "(nat \<times> nl_val) list \<Rightarrow> xcmd_info \<Rightarrow> int \<times> xcmd_info" where
  "recv_attrs_loop [] xcmd = (0, xcmd)"
| "recv_attrs_loop ((t, v) # msg) xcmd =
     (if XNL_ATTR_MAX \<le> t then (- EINVAL, xcmd)
      else
        let xcmd = xcmd\<lparr>xc_attr_mask := xc_attr_mask xcmd OR push_bit t 1\<rparr>
        in recv_attrs_loop msg
             (if t = XNL_ATTR_GENMSG \<or> t = XNL_ATTR_DRV_INFO then xcmd
              else xcmd\<lparr>xc_attrs := (xc_attrs xcmd)(t := word_of_val v)\<rparr>))"

definition recv_attrs :: "(nat \<times> nl_val) list \<Rightarrow> xcmd_info \<Rightarrow> int \<times> xcmd_info" where
  "recv_attrs msg xcmd = recv_attrs_loop msg (xcmd\<lparr>xc_attr_mask := 0\<rparr>)"

text \<open>\<open>recv_nl_msg\<close>, for an answer to \<open>op\<close>; what \<open>recv_attrs\<close> returns is dropped.\<close>

definition recv_nl_msg :: "xnl_op \<Rightarrow> (nat \<times> nl_val) list \<Rightarrow> xcmd_info \<Rightarrow> xcmd_info" where
  "recv_nl_msg op msg xcmd =
     (let xcmd = snd (recv_attrs msg xcmd)
      in if op = XNL_CMD_DEV_INFO then
           let usr_bar = xc_attrs xcmd XNL_ATTR_DEV_USR_BAR
           in xcmd\<lparr>xc_config_bar := ucast (xc_attrs xcmd XNL_ATTR_DEV_CFG_BAR),
                   xc_qmax := ucast (xc_attrs xcmd XNL_ATTR_DEV_QSET_MAX),
                   xc_user_bar := if usr_bar + 1 = 0 then 2 else ucast usr_bar\<rparr>
         else xcmd)"

section \<open>The driver's reading of a request\<close>

text \<open>
  \<open>info->attrs\<close>: the kernel hands over the attributes of the request by their types, the last one of
  a type.
\<close>

type_synonym nl_attrs = "nat \<Rightarrow> u32 option"

definition delivered :: "nl_msg \<Rightarrow> nl_attrs \<Rightarrow> bool" where
  "delivered msg attrs \<longleftrightarrow> (\<forall>t. attrs t = map_of (rev msg) t)"

text \<open>\<open>qconf_get\<close>: the configuration, and whether both directions are meant.  \<open>qidx\<close> has sixteen bits.\<close>

definition qconf_get :: "nl_attrs \<Rightarrow> int + qdma_queue_conf \<times> bool" where
  "qconf_get attrs =
     (case attrs XNL_ATTR_QFLAG of None \<Rightarrow> Inl (- EINVAL)
      | Some f \<Rightarrow>
          if f AND XNL_F_QMODE_ST \<noteq> 0 \<and> f AND XNL_F_QMODE_MM \<noteq> 0 then Inl (- EINVAL)
          else
            let f = (if f AND XNL_F_QMODE_ST = 0 \<and> f AND XNL_F_QMODE_MM = 0 then f OR XNL_F_QMODE_MM else f);
                f = (if f AND XNL_F_QDIR_H2C = 0 \<and> f AND XNL_F_QDIR_C2H = 0 then f OR XNL_F_QDIR_H2C else f);
                qconf = zero_queue_conf\<lparr>qc_st := (f AND XNL_F_QMODE_ST \<noteq> 0), qc_c2h := (f AND XNL_F_QDIR_C2H \<noteq> 0)\<rparr>;
                is_qp = (f AND XNL_F_QDIR_BOTH = XNL_F_QDIR_BOTH)
            in (case attrs XNL_ATTR_QIDX of None \<Rightarrow> Inl (- EINVAL)
                | Some i \<Rightarrow> Inr (qconf\<lparr>qc_qidx := ucast i\<rparr>, is_qp)))"

definition with_attr :: "nl_attrs \<Rightarrow> nat \<Rightarrow> (u32 \<Rightarrow> qdma_queue_conf \<Rightarrow> qdma_queue_conf) \<Rightarrow> qdma_queue_conf \<Rightarrow> qdma_queue_conf" where
  "with_attr attrs t upd qconf = (case attrs t of None \<Rightarrow> qconf | Some v \<Rightarrow> upd v qconf)"

text \<open>\<open>xnl_extract_extra_config_attr\<close>, for the flags \<open>f\<close> that \<open>qconf_get\<close> has found to be there.\<close>

definition xnl_extract_extra_config_attr :: "nl_attrs \<Rightarrow> u32 \<Rightarrow> qdma_queue_conf \<Rightarrow> qdma_queue_conf" where
  "xnl_extract_extra_config_attr attrs f qconf =
     (let qconf = qconf\<lparr>qc_bypass := (f AND XNL_F_DESC_BYPASS_EN \<noteq> 0), qc_pfetch_en := (f AND XNL_F_PFETCH_EN \<noteq> 0),
            qc_wbk_en := (f AND XNL_F_WBK_EN \<noteq> 0), qc_wbk_acc_en := (f AND XNL_F_WBK_ACC_EN \<noteq> 0),
            qc_wbk_pend_chk := (f AND XNL_F_WBK_PEND_CHK \<noteq> 0), qc_fetch_credit := (f AND XNL_F_FETCH_CREDIT \<noteq> 0),
            qc_cmpl_stat_en := (f AND XNL_F_WRB_STAT_DESC_EN \<noteq> 0),
            qc_cmpl_en_intr := (f AND XNL_F_C2H_CMPL_INTR_EN \<noteq> 0),
            qc_cmpl_udd_en := (f AND XNL_F_CMPL_UDD_EN \<noteq> 0)\<rparr>;
          qconf = with_attr attrs XNL_ATTR_QRNGSZ_IDX
            (\<lambda>v c. c\<lparr>qc_desc_rng_sz_idx := ucast v, qc_cmpl_rng_sz_idx := ucast v\<rparr>) qconf;
          qconf = with_attr attrs XNL_ATTR_C2H_BUFSZ_IDX (\<lambda>v c. c\<lparr>qc_c2h_buf_sz_idx := ucast v\<rparr>) qconf;
          qconf = with_attr attrs XNL_ATTR_WRB_TIMER_IDX (\<lambda>v c. c\<lparr>qc_cmpl_timer_idx := ucast v\<rparr>) qconf;
          qconf = with_attr attrs XNL_ATTR_WRB_CNTR_IDX (\<lambda>v c. c\<lparr>qc_cmpl_cnt_th_idx := ucast v\<rparr>) qconf;
          qconf = with_attr attrs XNL_ATTR_WRB_DESC_SIZE (\<lambda>v c. c\<lparr>qc_cmpl_desc_sz := ucast v\<rparr>) qconf
      in case attrs XNL_ATTR_WRB_TRIG_MODE of Some v \<Rightarrow> qconf\<lparr>qc_cmpl_trig_mode := ucast v\<rparr>
         | None \<Rightarrow> qconf\<lparr>qc_cmpl_trig_mode := 1\<rparr>)"

section \<open>What the driver gets from an accepted \<open>start\<close>\<close>

lemma opt_attr_lookup:
  "map_of (rev (opt_attr p q t v)) s = (if s = t \<and> bit (qp_sflags q) p then Some (ucast v) else None)"
  by (simp add: opt_attr_def)

lemma trig_kept:
  assumes "qopt a as q = Inr (q', bs)" "qp_wrb_trig_mode q \<le> 4"
  shows "qp_wrb_trig_mode q' \<le> 4"
  using assms
  by (auto simp: qopt_def qopt_which_def qopt_size_def qopt_switch_def int_opt_def word_opt_def range_opt_def
      set_arg_def or_flag_def clear_flag_def trig_mode_def split: if_splits sum.splits option.splits prod.splits)

lemma trig_bound: "qopts as q = Inr q' \<Longrightarrow> qp_wrb_trig_mode q \<le> 4 \<Longrightarrow> qp_wrb_trig_mode q' \<le> 4"
proof (induction as q rule: qopts.induct)
  case (2 a as q)
  then show ?case by (auto split: sum.splits prod.splits dest: trig_kept)
qed simp

lemma start_parsed:
  assumes "parse_q_cmd (''start'' # as) xcmd = Ok (Inr (xcmd', rest))" "xc_u xcmd' = QParm q"
  shows "xc_op xcmd' = XNL_CMD_Q_START" "xc_if_idx xcmd' = xc_if_idx xcmd"
    "qp_qrngsz_idx q < 16 \<and> qp_c2h_bufsz_idx q < 16 \<and> qp_wrb_tmr_idx q < 16 \<and> qp_wrb_cntr_idx q < 16"
    "qp_wrb_entry_size q \<le> 3" "qp_wrb_trig_mode q \<le> 4" "qp_flags q AND 0x7C0 = 0x7C0"
proof -
  from assms obtain q0 where q0: "read_qparm as zero_q_parm (push_bit QPARM_IDX 1) = Inr q0"
    and ok: "validate_qcmd XNL_CMD_Q_START (finish_start q0) = 0"
    and q: "q = finish_start q0" and x: "xcmd' = xcmd\<lparr>xc_op := XNL_CMD_Q_START, xc_u := QParm q\<rparr>"
    by (auto simp: parse_q_cmd_def q_words_def finish_q_def split: if_splits sum.splits)
  show "xc_op xcmd' = XNL_CMD_Q_START" "xc_if_idx xcmd' = xc_if_idx xcmd" by (simp_all add: x)
  show "qp_qrngsz_idx q < 16 \<and> qp_c2h_bufsz_idx q < 16 \<and> qp_wrb_tmr_idx q < 16 \<and> qp_wrb_cntr_idx q < 16"
    "qp_wrb_entry_size q \<le> 3"
    using ok by (auto simp: q validate_qcmd_def IS_SIZE_IDX_VALID_def XNL_ST_C2H_WRB_DESC_SIZE_RSVD_def errno_defs
        split: if_splits)
  show "qp_flags q AND 0x7C0 = 0x7C0"
    unfolding q finish_start_facts(1) by (rule flags_kept_on) simp
  have "qp_wrb_trig_mode q0 \<le> 4"
    using q0 trig_bound [of as "zero_q_parm\<lparr>qp_sflags := 0, qp_idx := XNL_QIDX_INVALID\<rparr>"]
    by (auto simp: read_qparm_def set_arg_def or_flag_def zero_q_parm_def split: sum.splits if_splits)
  then show "qp_wrb_trig_mode q \<le> 4" by (simp add: q finish_start_def Let_def set_arg_def or_flag_def)
qed

definition start_msg :: "u8 \<Rightarrow> xcmd_q_parm \<Rightarrow> nl_msg" where
  "start_msg i q = (XNL_ATTR_DEV_IDX, ucast i) # xnl_msg_add_extra_config_attrs q @ queue_attrs q"

lemma start_cmd_attrs:
  "xc_op xcmd = XNL_CMD_Q_START \<Longrightarrow> xc_u xcmd = QParm q \<Longrightarrow> cmd_attrs xcmd = start_msg (xc_if_idx xcmd) q"
  by (simp add: cmd_attrs_def start_msg_def q_of_def)

lemma start_lookup:
  assumes "delivered (start_msg i q) attrs"
  shows "attrs XNL_ATTR_QFLAG = Some (qp_flags q)" "attrs XNL_ATTR_QIDX = Some (qp_idx q)"
    "attrs XNL_ATTR_NUM_Q = Some (qp_num_q q)" "attrs XNL_ATTR_DEV_IDX = Some (ucast i)"
    "attrs XNL_ATTR_QRNGSZ_IDX = (if bit (qp_sflags q) QPARM_RNGSZ_IDX then Some (ucast (qp_qrngsz_idx q)) else None)"
    "attrs XNL_ATTR_C2H_BUFSZ_IDX = (if bit (qp_sflags q) QPARM_C2H_BUFSZ_IDX then Some (ucast (qp_c2h_bufsz_idx q)) else None)"
    "attrs XNL_ATTR_WRB_TIMER_IDX = (if bit (qp_sflags q) QPARM_WRB_TMR_IDX then Some (ucast (qp_wrb_tmr_idx q)) else None)"
    "attrs XNL_ATTR_WRB_CNTR_IDX = (if bit (qp_sflags q) QPARM_WRB_CNTR_IDX then Some (ucast (qp_wrb_cntr_idx q)) else None)"
    "attrs XNL_ATTR_WRB_DESC_SIZE = (if bit (qp_sflags q) QPARM_WRBSZ then Some (ucast (qp_wrb_entry_size q)) else None)"
    "attrs XNL_ATTR_WRB_TRIG_MODE = (if bit (qp_sflags q) QPARM_WRB_TRIG_MODE then Some (ucast (qp_wrb_trig_mode q)) else None)"
  using assms
  by (simp_all add: delivered_def start_msg_def xnl_msg_add_extra_config_attrs_def queue_attrs_def opt_attr_lookup
      map_add_def, simp_all add: nl_defs)

lemma narrow_unat:
  "v < 16 \<Longrightarrow> unat (ucast (ucast (v :: u8) :: u32) :: u4) = unat v"
  "w \<le> 3 \<Longrightarrow> unat (ucast (ucast (w :: u8) :: u32) :: u2) = unat w"
  "x \<le> 4 \<Longrightarrow> unat (ucast (ucast (x :: u8) :: u32) :: u3) = unat x"
proof -
  have c: "(ucast (ucast v :: u32) :: u4) = ucast v" "(ucast (ucast w :: u32) :: u2) = ucast w"
    "(ucast (ucast x :: u32) :: u3) = ucast x"
    by (rule bit_eqI; simp add: bit_simps)+
  show "v < 16 \<Longrightarrow> unat (ucast (ucast v :: u32) :: u4) = unat v" "w \<le> 3 \<Longrightarrow> unat (ucast (ucast w :: u32) :: u2) = unat w"
    "x \<le> 4 \<Longrightarrow> unat (ucast (ucast x :: u32) :: u3) = unat x"
    by (simp_all add: c unsigned_ucast_eq unsigned_take_bit_eq word_less_nat_alt word_le_nat_alt take_bit_nat_eq_self_iff)
qed

lemma opt_attr_length: "length (opt_attr p q t v) \<le> 1"
  by (simp add: opt_attr_def)

lemma extra_length: "length (xnl_msg_add_extra_config_attrs q) \<le> 6"
  unfolding xnl_msg_add_extra_config_attrs_def length_append
  by (intro order_trans [OF add_mono [OF opt_attr_length add_mono [OF opt_attr_length add_mono [OF opt_attr_length
        add_mono [OF opt_attr_length add_mono [OF opt_attr_length opt_attr_length]]]]]]) simp

lemma cmd_attrs_length: "length (cmd_attrs xcmd) \<le> 10"
proof -
  have "length (xnl_msg_add_extra_config_attrs q) + 3 \<le> 9" for q using extra_length [of q] by simp
  then show ?thesis by (cases "xc_op xcmd") (simp_all add: cmd_attrs_def queue_attrs_def Let_def)
qed

lemma fits_when_roomy: "100 \<le> unat (msg_room xcmd) \<Longrightarrow> xnl_send_cmd True xcmd = Ok (Inr (cmd_attrs xcmd))"
  using cmd_attrs_length [of xcmd] by (simp add: xnl_send_cmd_def msg_length_def)

lemma start_fits: "xc_op xcmd = XNL_CMD_Q_START \<Longrightarrow> xnl_send_cmd True xcmd = Ok (Inr (cmd_attrs xcmd))"
  by (rule fits_when_roomy) (simp add: msg_room_def get_cmd_resp_buf_len_def nl_defs)

lemma mode_dir_bits:
  "f AND XNL_F_QMODE_ST = 0 \<longleftrightarrow> \<not> bit (f :: u32) 0" "f AND XNL_F_QMODE_MM = 0 \<longleftrightarrow> \<not> bit f 1"
  "f AND XNL_F_QDIR_H2C = 0 \<longleftrightarrow> \<not> bit f 2" "f AND XNL_F_QDIR_C2H = 0 \<longleftrightarrow> \<not> bit f 3"
  "f AND XNL_F_QDIR_BOTH = XNL_F_QDIR_BOTH \<longleftrightarrow> bit f 2 \<and> bit f 3"
proof -
  show "f AND XNL_F_QMODE_ST = 0 \<longleftrightarrow> \<not> bit f 0" "f AND XNL_F_QMODE_MM = 0 \<longleftrightarrow> \<not> bit f 1"
    "f AND XNL_F_QDIR_H2C = 0 \<longleftrightarrow> \<not> bit f 2" "f AND XNL_F_QDIR_C2H = 0 \<longleftrightarrow> \<not> bit f 3"
    by (simp_all add: bit_iff_and_push_bit_not_eq_0 nl_defs push_bit_eq_mult)
  have e: "XNL_F_QDIR_BOTH = 2 ^ 2 OR 2 ^ 3" by (simp add: nl_defs)
  have b: "bit XNL_F_QDIR_BOTH n \<longleftrightarrow> n = 2 \<or> n = 3" for n
    unfolding e bit_or_iff bit_exp_iff by auto
  have "f AND m = m \<longleftrightarrow> (\<forall>n. bit m n \<longrightarrow> bit f n)" for m :: u32
    using bit_and_iff [of f m] by (metis bit_eqI)
  then show "f AND XNL_F_QDIR_BOTH = XNL_F_QDIR_BOTH \<longleftrightarrow> bit f 2 \<and> bit f 3"
    by (simp only: b) blast
qed

lemma qconf_get_run:
  assumes "attrs XNL_ATTR_QFLAG = Some f" "attrs XNL_ATTR_QIDX = Some i"
  shows "qconf_get attrs =
    (if bit f 0 \<and> bit f 1 then Inl (- EINVAL)
     else Inr (zero_queue_conf\<lparr>qc_st := bit f 0, qc_c2h := bit f 3, qc_qidx := ucast i\<rparr>, bit f 2 \<and> bit f 3))"
  by (simp add: qconf_get_def assms Let_def mode_dir_bits bit_or_iff, simp add: nl_defs bit_simps)

lemma flag_bits:
  "f AND XNL_F_WBK_EN \<noteq> 0 \<longleftrightarrow> bit (f :: u32) 8" "f AND XNL_F_WBK_ACC_EN \<noteq> 0 \<longleftrightarrow> bit f 7"
  "f AND XNL_F_WBK_PEND_CHK \<noteq> 0 \<longleftrightarrow> bit f 9" "f AND XNL_F_FETCH_CREDIT \<noteq> 0 \<longleftrightarrow> bit f 6"
  "f AND XNL_F_WRB_STAT_DESC_EN \<noteq> 0 \<longleftrightarrow> bit f 10"
  by (simp_all add: bit_iff_and_push_bit_not_eq_0 nl_defs push_bit_eq_mult)

lemma fixed_flags:
  assumes "f AND 0x7C0 = (0x7C0 :: u32)"
  shows "bit f 6" "bit f 7" "bit f 8" "bit f 9" "bit f 10"
proof -
  have e: "(0x7C0 :: u32) = 2 ^ 6 OR 2 ^ 7 OR 2 ^ 8 OR 2 ^ 9 OR 2 ^ 10" by simp
  have b: "n \<in> {6, 7, 8, 9, 10} \<Longrightarrow> bit (0x7C0 :: u32) n" for n
    unfolding e bit_or_iff bit_exp_iff by auto
  have "n \<in> {6, 7, 8, 9, 10} \<Longrightarrow> bit f n" for n
    using b [of n] arg_cong [OF assms, of "\<lambda>w. bit w n"] unfolding bit_and_iff by blast
  then show "bit f 6" "bit f 7" "bit f 8" "bit f 9" "bit f 10" by simp_all
qed

lemma extracted_switches:
  fixes qconf :: qdma_queue_conf and attrs
  defines "c f \<equiv> xnl_extract_extra_config_attr attrs f qconf"
  shows "qc_qidx (c f) = qc_qidx qconf" "qc_st (c f) = qc_st qconf" "qc_c2h (c f) = qc_c2h qconf"
    "qc_wbk_en (c f) = bit f 8" "qc_wbk_acc_en (c f) = bit f 7" "qc_wbk_pend_chk (c f) = bit f 9"
    "qc_fetch_credit (c f) = bit f 6" "qc_cmpl_stat_en (c f) = bit f 10"
    "qc_pfetch_en (c f) = (f AND XNL_F_PFETCH_EN \<noteq> 0)" "qc_cmpl_udd_en (c f) = (f AND XNL_F_CMPL_UDD_EN \<noteq> 0)"
    "qc_bypass (c f) = (f AND XNL_F_DESC_BYPASS_EN \<noteq> 0)" "qc_cmpl_en_intr (c f) = (f AND XNL_F_C2H_CMPL_INTR_EN \<noteq> 0)"
  by (simp_all add: c_def xnl_extract_extra_config_attr_def Let_def with_attr_def flag_bits split: option.split)

lemma extracted_sizes:
  fixes qconf :: qdma_queue_conf and attrs
  defines "c f \<equiv> xnl_extract_extra_config_attr attrs f qconf"
  shows "qc_desc_rng_sz_idx (c f) = (case attrs XNL_ATTR_QRNGSZ_IDX of None \<Rightarrow> qc_desc_rng_sz_idx qconf | Some v \<Rightarrow> ucast v)"
    "qc_cmpl_rng_sz_idx (c f) = (case attrs XNL_ATTR_QRNGSZ_IDX of None \<Rightarrow> qc_cmpl_rng_sz_idx qconf | Some v \<Rightarrow> ucast v)"
    "qc_c2h_buf_sz_idx (c f) = (case attrs XNL_ATTR_C2H_BUFSZ_IDX of None \<Rightarrow> qc_c2h_buf_sz_idx qconf | Some v \<Rightarrow> ucast v)"
    "qc_cmpl_timer_idx (c f) = (case attrs XNL_ATTR_WRB_TIMER_IDX of None \<Rightarrow> qc_cmpl_timer_idx qconf | Some v \<Rightarrow> ucast v)"
    "qc_cmpl_cnt_th_idx (c f) = (case attrs XNL_ATTR_WRB_CNTR_IDX of None \<Rightarrow> qc_cmpl_cnt_th_idx qconf | Some v \<Rightarrow> ucast v)"
    "qc_cmpl_desc_sz (c f) = (case attrs XNL_ATTR_WRB_DESC_SIZE of None \<Rightarrow> qc_cmpl_desc_sz qconf | Some v \<Rightarrow> ucast v)"
    "qc_cmpl_trig_mode (c f) = (case attrs XNL_ATTR_WRB_TRIG_MODE of None \<Rightarrow> 1 | Some v \<Rightarrow> ucast v)"
  by (simp_all add: c_def xnl_extract_extra_config_attr_def Let_def with_attr_def split: option.split)



section \<open>The memory of a request\<close>

text \<open>The range of a command whose answer grows with it: how many entries, and the bytes of each.\<close>

definition entries_asked :: "xcmd_info \<Rightarrow> (u32 \<times> u32 \<times> nat) option" where
  "entries_asked xcmd =
     (let q = q_of xcmd; i = intr_of xcmd
      in case xc_op xcmd of
        XNL_CMD_Q_DESC \<Rightarrow> Some (qp_range_start q, qp_range_end q, 100)
      | XNL_CMD_Q_WRB \<Rightarrow> Some (qp_range_start q, qp_range_end q, 50)
      | XNL_CMD_INTR_RING_DUMP \<Rightarrow> Some (ci_start_idx i, ci_end_idx i, 50)
      | _ \<Rightarrow> None)"

lemma growing_length:
  fixes s e r :: u32
  assumes "s \<le> e" and small: "(unat e - unat s) * unat r + 2048 < 2 ^ 31"
  shows "sint (word_of_int 2048 + (e - s) * r) = int ((unat e - unat s) * unat r + 2048)"
proof -
  have d: "unat (e - s) = unat e - unat s" using assms(1) by (rule unat_sub)
  have m: "unat ((e - s) * r) = (unat e - unat s) * unat r"
    using small by (subst unat_mult_lem [THEN iffD1]) (simp_all add: d)
  have "unat (2048 + (e - s) * r) = (unat e - unat s) * unat r + 2048"
    using small by (subst unat_add_lem [THEN iffD1]) (simp_all add: m)
  then have "uint (2048 + (e - s) * r) = int ((unat e - unat s) * unat r + 2048)"
    by (metis uint_nat)
  moreover have "sint w = signed_take_bit 31 (uint w)" for w :: u32 by (simp add: sint_uint)
  ultimately have "sint (2048 + (e - s) * r) = signed_take_bit 31 (int ((unat e - unat s) * unat r + 2048))" by metis
  also have "\<dots> = int ((unat e - unat s) * unat r + 2048)"
  proof (rule signed_take_bit_int_eq_self)
    show "int ((unat e - unat s) * unat r + 2048) < 2 ^ 31" using small by (metis of_nat_less_iff of_nat_numeral of_nat_power)
  qed simp
  finally show ?thesis by simp
qed

definition range_small :: "xcmd_info \<Rightarrow> bool" where
  "range_small xcmd = (case entries_asked xcmd of None \<Rightarrow> True
     | Some (s, e, r) \<Rightarrow> s \<le> e \<and> (unat e - unat s) * r + 2048 < 2 ^ 31)"

definition answer_length :: "xcmd_info \<Rightarrow> nat option" where
  "answer_length xcmd = map_option (\<lambda>(s, e, r). (unat e - unat s) * r + 2048) (entries_asked xcmd)"

lemma buf_len_asked:
  assumes "entries_asked xcmd = Some (s, e, r)" "s \<le> e" "(unat e - unat s) * r + 2048 < 2 ^ 31"
  shows "get_cmd_resp_buf_len xcmd = int ((unat e - unat s) * r + 2048)"
proof -
  have "get_cmd_resp_buf_len xcmd = sint (word_of_int 2048 + (e - s) * word_of_nat r) \<and> unat (word_of_nat r :: u32) = r"
    using assms(1) by (cases "xc_op xcmd") (auto simp: entries_asked_def get_cmd_resp_buf_len_def XNL_RESP_BUFLEN_MAX_def Let_def)
  then show ?thesis using growing_length [of s e "word_of_nat r"] assms(2,3) by simp
qed

lemma buf_len_fixed: "entries_asked xcmd = None \<Longrightarrow> get_cmd_resp_buf_len xcmd = 256 \<or> get_cmd_resp_buf_len xcmd = 2048"
  by (cases "xc_op xcmd") (auto simp: entries_asked_def get_cmd_resp_buf_len_def Let_def nl_defs)

lemma room_of_len:
  assumes "get_cmd_resp_buf_len xcmd = int n" "n < 2 ^ 31"
  shows "unat (msg_room xcmd) = 20 + n"
proof -
  have "msg_room xcmd = word_of_nat (20 + n)" by (simp add: msg_room_def assms(1))
  then show ?thesis using assms(2) by (simp only: unat_of_nat) simp
qed



text \<open>A reversed range, which the parser lets through, wraps: the message is longer than its memory.\<close>

lemma reversed_range_overflows:
  "\<exists>xcmd. parse_q_cmd [''dump'', ''idx'', ''0'', ''wrb'', ''41'', ''0''] zero_xcmd = Ok (Inr (xcmd, []))
     \<and> unat (msg_room xcmd) = 18 \<and> xnl_send_cmd True xcmd = Bad"
proof -
  let ?q = "zero_q_parm\<lparr>qp_sflags := 0x15, qp_flags := 4, qp_num_q := 1, qp_range_start := 41\<rparr>"
  let ?xcmd = "zero_xcmd\<lparr>xc_op := XNL_CMD_Q_WRB, xc_u := QParm ?q\<rparr>"
  have "parse_q_cmd [''dump'', ''idx'', ''0'', ''wrb'', ''41'', ''0''] zero_xcmd = Ok (Inr (?xcmd, []))"
    by (simp add: cli_eval validate_qcmd_def nl_defs zero_q_parm_def)
  moreover have l: "get_cmd_resp_buf_len ?xcmd = - 2" by (simp add: get_cmd_resp_buf_len_def q_of_def zero_q_parm_def nl_defs)
  then have "unat (msg_room ?xcmd) = 18" by (simp add: msg_room_def)
  moreover have "xnl_send_cmd True ?xcmd = Bad"
    using calculation(2) by (simp add: xnl_send_cmd_def msg_length_def)
  ultimately show ?thesis by blast
qed

text \<open>The driver keeps sixteen bits of the index: queue 65536 is queue 0.\<close>

lemma queue_index_cut: "qconf_get (map_of [(XNL_ATTR_QIDX, 65536), (XNL_ATTR_QFLAG, 1)])
  = qconf_get (map_of [(XNL_ATTR_QIDX, 0), (XNL_ATTR_QFLAG, 1)])"
  by (simp add: qconf_get_def nl_defs)

end
