(* ===== verification/Qdma_Nl.thy ===== *)
theory Qdma_Nl
  imports Qdma_Xpdev Qdma_Nl_Msg "HOL-Library.AList"
begin

unbundle bit_operations_syntax

text \<open>
  The driver's answers to the tool's queue commands (\<open>drv/nl.c\<close>): the device and the queues that a request names, and
  the loops that add, start, stop and delete them in the table of queues.  The texts that are sent back are not
  modelled; whether one was written is.
\<close>

section \<open>Answers\<close>

text \<open>
  The kernel's answers: is there memory for a message, room for its header, room for the text, memory for a buffer.
  \<open>Answer\<close> says whether the text sent was written before.
\<close>

record nl_env =
  ne_skb :: bool
  ne_put :: bool
  ne_str :: bool
  ne_mem :: bool

datatype nl_event = SkbNew | SkbFree | Answer bool | BufNew | BufFree

definition xnl_msg_alloc :: "nl_env \<Rightarrow> nl_event list \<Rightarrow> bool \<times> nl_event list" where
  "xnl_msg_alloc N log =
     (if \<not> ne_skb N then (False, log)
      else if \<not> ne_put N then (False, log @ [SkbNew, SkbFree])
      else (True, log @ [SkbNew]))"

definition xnl_respond_buffer :: "nl_env \<Rightarrow> bool \<Rightarrow> nl_event list \<Rightarrow> int \<times> nl_event list" where
  "xnl_respond_buffer N written log =
     (let (ok, log) = xnl_msg_alloc N log
      in if \<not> ok then (- ENOMEM, log)
      else if \<not> ne_str N then (- EINVAL, log)
      else (0, log @ [Answer written]))"

definition xnl_mem_alloc :: "nl_env \<Rightarrow> nl_event list \<Rightarrow> bool \<times> nl_event list" where
  "xnl_mem_alloc N log =
     (if ne_mem N then (True, log @ [BufNew]) else (False, snd (xnl_respond_buffer N True log)))"

text \<open>The devices by their indices, in the order in which they were found; \<open>xpdev_find_by_idx\<close> takes the first.\<close>

type_synonym xpdevs = "(u32 \<times> xlnx_pci_dev) list"

definition xpdev_find_by_idx :: "u32 \<Rightarrow> xpdevs \<Rightarrow> xlnx_pci_dev option" where
  "xpdev_find_by_idx idx xs = map_of xs idx"

definition xnl_rcv_check_xpdev ::
  "nl_env \<Rightarrow> nl_attrs \<Rightarrow> xpdevs \<Rightarrow> nl_event list \<Rightarrow> (u32 \<times> xlnx_pci_dev) option \<times> nl_event list" where
  "xnl_rcv_check_xpdev N attrs xs log =
     (case attrs XNL_ATTR_DEV_IDX of None \<Rightarrow> (None, snd (xnl_respond_buffer N True log))
      | Some idx \<Rightarrow>
          (case xpdev_find_by_idx idx xs of None \<Rightarrow> (None, snd (xnl_respond_buffer N True log))
           | Some xpdev \<Rightarrow> (Some (idx, xpdev), log)))"

text \<open>The first part of a handler: \<open>qconf_get\<close> answers a bad request itself.\<close>

definition qconf_or_respond ::
  "nl_env \<Rightarrow> nl_attrs \<Rightarrow> nl_event list \<Rightarrow> (int + qdma_queue_conf \<times> bool) \<times> nl_event list" where
  "qconf_or_respond N attrs log =
     (case qconf_get attrs of Inl rv \<Rightarrow> (Inl rv, snd (xnl_respond_buffer N True log)) | Inr r \<Rightarrow> (Inr r, log))"

definition xnl_rcv_check_qidx ::
  "nl_env \<Rightarrow> xlnx_pci_dev \<Rightarrow> qdma_queue_conf \<Rightarrow> nl_event list \<Rightarrow> (nat option \<times> nl_event list) outcome" where
  "xnl_rcv_check_qidx N xpdev qconf log =
     (case xpdev_queue_get xpdev (ucast (qc_qidx qconf)) (qc_c2h qconf) True of Bad \<Rightarrow> Bad
      | Ok None \<Rightarrow> Ok (None, snd (xnl_respond_buffer N True log))
      | Ok (Some k) \<Rightarrow> Ok (Some k, log))"

section \<open>The queue commands\<close>

text \<open>
  The queues that a command names, in the order of the loops: each index in the given direction and, for a queue pair,
  in the other one.
\<close>

definition q_targets :: "nat list \<Rightarrow> bool \<Rightarrow> bool \<Rightarrow> (nat \<times> bool) list" where
  "q_targets is is_c2h is_qp = concat (map (\<lambda>i. (i, is_c2h) # (if is_qp then [(i, \<not> is_c2h)] else [])) is)"

text \<open>
  The loop of \<open>xnl_q_add\<close>: \<open>qidx\<close> is the index asked for; the configuration that \<open>xpdev_queue_add\<close> writes back is the next
  one's.  \<open>K\<close> answers for the kernel when the table is in the given state.
\<close>

fun add_targets ::
  "env \<Rightarrow> (xlnx_pci_dev \<Rightarrow> cdev_env) \<Rightarrow> bool \<Rightarrow> u16 \<Rightarrow> (nat \<times> bool) list \<Rightarrow> qdma_queue_conf \<Rightarrow> xlnx_pci_dev \<Rightarrow> int
     \<Rightarrow> (int \<times> xlnx_pci_dev) outcome" where
  "add_targets E K room qidx [] qconf xpdev rv = Ok (rv, xpdev)"
| "add_targets E K room qidx ((i, c2h) # ts) qconf xpdev rv =
     (let qconf = qconf\<lparr>qc_c2h := c2h\<rparr>;
          qconf = (if qidx \<noteq> QDMA_QUEUE_IDX_INVALID then qconf\<lparr>qc_qidx := qidx + of_nat i\<rparr> else qconf)
      in (case xpdev_queue_add E (K xpdev) room xpdev qconf of Bad \<Rightarrow> Bad
          | Ok (rv, qconf, xpdev) \<Rightarrow>
              if rv < 0 then Ok (rv, xpdev) else add_targets E K room qidx ts qconf xpdev rv))"

definition xnl_q_add ::
  "nl_env \<Rightarrow> env \<Rightarrow> (xlnx_pci_dev \<Rightarrow> cdev_env) \<Rightarrow> bool \<Rightarrow> nl_attrs \<Rightarrow> xpdevs \<Rightarrow> nl_event list
     \<Rightarrow> (int \<times> xpdevs \<times> nl_event list) outcome" where
  "xnl_q_add N E K room attrs xs log =
     (case xnl_rcv_check_xpdev N attrs xs log of (None, log) \<Rightarrow> Ok (- EINVAL, xs, log)
      | (Some (idx, xpdev), log) \<Rightarrow>
          let (buf, log) = xnl_mem_alloc N log
          in if \<not> buf then Ok (- ENOMEM, xs, log)
          else
            (case qconf_or_respond N attrs log of (Inl rv, log) \<Rightarrow> Ok (rv, xs, log @ [BufFree])
             | (Inr (qconf, is_qp), log) \<Rightarrow>
                 (case attrs XNL_ATTR_NUM_Q of
                    None \<Rightarrow> let (rv2, log) = xnl_respond_buffer N True log in Ok (- 1, xs, log @ [BufFree])
                  | Some num_q \<Rightarrow>
                      (case add_targets E K room (qc_qidx qconf) (q_targets [0..<unat num_q] (qc_c2h qconf) is_qp)
                              qconf xpdev 0 of Bad \<Rightarrow> Bad
                       | Ok (rv, xpdev) \<Rightarrow>
                           let (rv2, log) = xnl_respond_buffer N True log
                           in Ok (if rv < 0 then rv else rv2, AList.update idx xpdev xs, log @ [BufFree])))))"

text \<open>
  The loops of \<open>xnl_q_start\<close>, \<open>xnl_q_stop\<close> and \<open>xnl_q_del\<close> end at the first queue that fails; the result says whether
  the buffer was written by then.  The buffer is on the stack.
\<close>

fun start_targets ::
  "nl_env \<Rightarrow> env \<Rightarrow> xdev_list \<Rightarrow> bool \<Rightarrow> qdma_queue_conf \<Rightarrow> (nat \<times> bool) list \<Rightarrow> bool \<Rightarrow> xlnx_pci_dev \<Rightarrow> nl_event list
     \<Rightarrow> (bool \<times> xlnx_pci_dev \<times> nl_event list) outcome" where
  "start_targets N E devs room qconf [] written xpdev log = Ok (True, xpdev, log)"
| "start_targets N E devs room qconf ((i, c2h) # ts) written xpdev log =
     (let qconf = qconf\<lparr>qc_c2h := c2h, qc_qidx := of_nat i\<rparr>
      in (case xnl_rcv_check_qidx N xpdev qconf log of Bad \<Rightarrow> Bad
          | Ok (None, log) \<Rightarrow> Ok (written, xpdev, log)
          | Ok (Some k, log) \<Rightarrow>
              let qhndl = xq_qhndl (xp_qdata xpdev ! k);
                  (rv, lib) = qdma_queue_reconfig qhndl qconf (xp_lib xpdev)
              in if rv < 0 then Ok (True, xpdev\<lparr>xp_lib := lib\<rparr>, log)
              else
                (case qdma_queue_start E devs room qhndl lib (xp_trace xpdev) of Bad \<Rightarrow> Bad
                 | Ok (rv, lib, tr) \<Rightarrow>
                     let xpdev = xpdev\<lparr>xp_lib := lib, xp_trace := tr\<rparr>
                     in if rv < 0 then Ok (True, xpdev, log)
                     else start_targets N E devs room qconf ts True xpdev log)))"

fun stop_targets ::
  "nl_env \<Rightarrow> env \<Rightarrow> bool \<Rightarrow> qdma_queue_conf \<Rightarrow> (nat \<times> bool) list \<Rightarrow> bool \<Rightarrow> xlnx_pci_dev \<Rightarrow> nl_event list
     \<Rightarrow> (bool \<times> xlnx_pci_dev \<times> nl_event list) outcome" where
  "stop_targets N E room qconf [] written xpdev log = Ok (True, xpdev, log)"
| "stop_targets N E room qconf ((i, c2h) # ts) written xpdev log =
     (let qconf = qconf\<lparr>qc_c2h := c2h, qc_qidx := of_nat i\<rparr>
      in (case xnl_rcv_check_qidx N xpdev qconf log of Bad \<Rightarrow> Bad
          | Ok (None, log) \<Rightarrow> Ok (written, xpdev, log)
          | Ok (Some k, log) \<Rightarrow>
              (case qdma_queue_stop E room (xq_qhndl (xp_qdata xpdev ! k)) (xp_lib xpdev) (xp_trace xpdev) of Bad \<Rightarrow> Bad
               | Ok (rv, lib, tr) \<Rightarrow>
                   let xpdev = xpdev\<lparr>xp_lib := lib, xp_trace := tr\<rparr>
                   in if rv < 0 then Ok (True, xpdev, log)
                   else stop_targets N E room qconf ts True xpdev log)))"

fun del_targets :: "env \<Rightarrow> (nat \<times> bool) list \<Rightarrow> xlnx_pci_dev \<Rightarrow> (int \<times> xlnx_pci_dev) outcome" where
  "del_targets E [] xpdev = Ok (0, xpdev)"
| "del_targets E ((i, c2h) # ts) xpdev =
     (case xpdev_queue_delete E xpdev (ucast (of_nat i :: u16)) c2h of Bad \<Rightarrow> Bad
      | Ok (rv, xpdev) \<Rightarrow> if rv < 0 then Ok (rv, xpdev) else del_targets E ts xpdev)"

text \<open>What starting, stopping and deleting share: \<open>num_q\<close> has sixteen bits.\<close>

definition q_range :: "qdma_queue_conf \<Rightarrow> u32 \<Rightarrow> nat list" where
  "q_range qconf num_q = [unat (qc_qidx qconf)..<unat (qc_qidx qconf) + unat (ucast num_q :: u16)]"

definition xnl_q_start ::
  "nl_env \<Rightarrow> env \<Rightarrow> xdev_list \<Rightarrow> bool \<Rightarrow> nl_attrs \<Rightarrow> xpdevs \<Rightarrow> nl_event list \<Rightarrow> (int \<times> xpdevs \<times> nl_event list) outcome" where
  "xnl_q_start N E devs room attrs xs log =
     (case xnl_rcv_check_xpdev N attrs xs log of (None, log) \<Rightarrow> Ok (0, xs, log)
      | (Some (idx, xpdev), log) \<Rightarrow>
          (case qconf_or_respond N attrs log of
             (Inl rv, log) \<Rightarrow> let (rv, log) = xnl_respond_buffer N True log in Ok (rv, xs, log)
           | (Inr (qconf, is_qp), log) \<Rightarrow>
               (case (attrs XNL_ATTR_NUM_Q, attrs XNL_ATTR_QFLAG) of
                  (Some num_q, Some f) \<Rightarrow>
                    let qconf = xnl_extract_extra_config_attr attrs f qconf
                    in (case start_targets N E devs room qconf (q_targets (q_range qconf num_q) (qc_c2h qconf) is_qp)
                               False xpdev log of Bad \<Rightarrow> Bad
                        | Ok (written, xpdev, log) \<Rightarrow>
                            let (rv, log) = xnl_respond_buffer N written log
                            in Ok (rv, AList.update idx xpdev xs, log))
                | _ \<Rightarrow> let (rv, log) = xnl_respond_buffer N True log in Ok (rv, xs, log))))"

definition xnl_q_stop ::
  "nl_env \<Rightarrow> env \<Rightarrow> bool \<Rightarrow> nl_attrs \<Rightarrow> xpdevs \<Rightarrow> nl_event list \<Rightarrow> (int \<times> xpdevs \<times> nl_event list) outcome" where
  "xnl_q_stop N E room attrs xs log =
     (case xnl_rcv_check_xpdev N attrs xs log of (None, log) \<Rightarrow> Ok (0, xs, log)
      | (Some (idx, xpdev), log) \<Rightarrow>
          (case qconf_or_respond N attrs log of
             (Inl rv, log) \<Rightarrow> let (rv, log) = xnl_respond_buffer N True log in Ok (rv, xs, log)
           | (Inr (qconf, is_qp), log) \<Rightarrow>
               (case attrs XNL_ATTR_NUM_Q of None \<Rightarrow> Ok (- 1, xs, log)
                | Some num_q \<Rightarrow>
                    (case stop_targets N E room qconf (q_targets (q_range qconf num_q) (qc_c2h qconf) is_qp)
                            False xpdev log of Bad \<Rightarrow> Bad
                     | Ok (written, xpdev, log) \<Rightarrow>
                         let (rv, log) = xnl_respond_buffer N written log
                         in Ok (rv, AList.update idx xpdev xs, log)))))"

definition xnl_q_del ::
  "nl_env \<Rightarrow> env \<Rightarrow> nl_attrs \<Rightarrow> xpdevs \<Rightarrow> nl_event list \<Rightarrow> (int \<times> xpdevs \<times> nl_event list) outcome" where
  "xnl_q_del N E attrs xs log =
     (case xnl_rcv_check_xpdev N attrs xs log of (None, log) \<Rightarrow> Ok (0, xs, log)
      | (Some (idx, xpdev), log) \<Rightarrow>
          (case qconf_or_respond N attrs log of
             (Inl rv, log) \<Rightarrow> let (rv, log) = xnl_respond_buffer N True log in Ok (rv, xs, log)
           | (Inr (qconf, is_qp), log) \<Rightarrow>
               (case attrs XNL_ATTR_NUM_Q of None \<Rightarrow> Ok (- 1, xs, log)
                | Some num_q \<Rightarrow>
                    (case del_targets E (q_targets (q_range qconf num_q) (qc_c2h qconf) is_qp) xpdev of Bad \<Rightarrow> Bad
                     | Ok (_, xpdev) \<Rightarrow>
                         let (rv, log) = xnl_respond_buffer N True log
                         in Ok (rv, AList.update idx xpdev xs, log)))))"

section \<open>Adding queues and deleting them by command\<close>

lemma q_targets_shift: "q_targets [q..<q + n] c qp = map (\<lambda>(i, d). (q + i, d)) (q_targets [0..<n] c qp)"
proof -
  have "[q..<q + n] = map (\<lambda>i. q + i) [0..<n]" using map_add_upt [of q n] by (simp add: add.commute)
  then show ?thesis by (cases qp) (simp_all add: q_targets_def map_concat comp_def)
qed

lemma q_targets_bound: "(i, d) \<in> set (q_targets is c qp) \<Longrightarrow> i \<in> set is"
  by (auto simp: q_targets_def split: if_splits)

text \<open>The entry of a target, and the targets that are free, or in use, each with an entry of its own.\<close>

definition target_entry :: "nat \<Rightarrow> nat \<times> bool \<Rightarrow> nat" where
  "target_entry n t = entry n (snd t) (fst t)"

definition targets_ok :: "nat \<Rightarrow> (nat \<times> bool) list \<Rightarrow> bool" where
  "targets_ok n ts \<longleftrightarrow> distinct (map (target_entry n) ts) \<and> (\<forall>t\<in>set ts. fst t < n)"

lemma targets_ok_Cons:
  "targets_ok n (t # ts) \<longleftrightarrow> target_entry n t \<notin> target_entry n ` set ts \<and> fst t < n \<and> targets_ok n ts"
  by (auto simp: targets_ok_def)

lemma del_targets_ok:
  assumes "xp_ok xp" "targets_ok (unat (xp_qmax xp)) ts"
    and "\<And>t. t \<in> set ts \<Longrightarrow> xp_qdata xp ! target_entry (unat (xp_qmax xp)) t \<noteq> no_qdata"
  shows "\<exists>xp'. del_targets E ts xp = Ok (0, xp') \<and> xp_ok xp' \<and> xp_qmax xp' = xp_qmax xp
    \<and> (\<forall>k. xp_qdata xp' ! k = (if k \<in> target_entry (unat (xp_qmax xp)) ` set ts then no_qdata else xp_qdata xp ! k))"
  using assms
proof (induction ts arbitrary: xp)
  case (Cons t ts)
  let ?n = "unat (xp_qmax xp)"
  obtain i c2h where t: "t = (i, c2h)" by (cases t)
  note D = xp_okD [OF Cons.prems(1)]
  have i: "i < ?n" using Cons.prems(2) by (simp add: targets_ok_def t)
  have idx: "unat (ucast (of_nat i :: u16) :: u32) = i"
    using i D(3) by (simp add: unsigned_ucast_eq unsigned_of_nat take_bit_nat_eq_self)
  have e: "xp_qdata xp ! entry ?n c2h i \<noteq> no_qdata" using Cons.prems(3) [of t] by (simp add: t target_entry_def)
  from delete_ok [OF Cons.prems(1), of E "ucast (of_nat i :: u16)" c2h] i e obtain xp1 where
    run: "xpdev_queue_delete E xp (ucast (of_nat i :: u16)) c2h = Ok (0, xp1)" and ok: "xp_ok xp1" "xp_qmax xp1 = xp_qmax xp"
    and del: "deleted ?n c2h i xp xp1" unfolding idx by auto
  have q1: "xp_qdata xp1 = (xp_qdata xp)[entry ?n c2h i := no_qdata]" using del by (simp add: deleted_def)
  have k: "entry ?n c2h i < length (xp_qdata xp)" using entry_range [OF i] D(5) by simp
  have new: "target_entry ?n t = entry ?n c2h i" by (simp add: t target_entry_def)
  have tk: "targets_ok ?n ts" "entry ?n c2h i \<notin> target_entry ?n ` set ts"
    using Cons.prems(2) new by (auto simp: targets_ok_def)
  have "xp_qdata xp1 ! target_entry ?n u \<noteq> no_qdata" if "u \<in> set ts" for u
  proof -
    have "target_entry ?n u \<noteq> entry ?n c2h i" using tk(2) that by (metis imageI)
    then show ?thesis using Cons.prems(3) [of u] that by (simp add: q1)
  qed
  then obtain xp2 where 2: "del_targets E ts xp1 = Ok (0, xp2)" "xp_ok xp2" "xp_qmax xp2 = xp_qmax xp1"
    "\<forall>k. xp_qdata xp2 ! k = (if k \<in> target_entry ?n ` set ts then no_qdata else xp_qdata xp1 ! k)"
    using Cons.IH [OF ok(1)] tk(1) unfolding ok(2) by blast
  have "xp_qdata xp2 ! j = (if j \<in> target_entry ?n ` set (t # ts) then no_qdata else xp_qdata xp ! j)" for j
    using 2(4) k new by (cases "j = entry ?n c2h i") (auto simp: q1)
  then show ?case using run 2 ok(2) t by simp
qed simp

lemma add_targets_ok:
  assumes K: "\<forall>x. xp_ok x \<longrightarrow> creates (K x) (xp_cdevs x)"
    and "xp_ok xp" "0 \<le> rv" "\<forall>t\<in>set ts. unat q + fst t < unat QDMA_QUEUE_IDX_INVALID"
  shows "\<exists>rv' xp'. add_targets E K room q ts qconf xp rv = Ok (rv', xp') \<and> xp_ok xp' \<and> xp_qmax xp' = xp_qmax xp
    \<and> (0 \<le> rv' \<longrightarrow> (let us = map (\<lambda>(i, d). (unat q + i, d)) ts; es = target_entry (unat (xp_qmax xp)) ` set us
        in targets_ok (unat (xp_qmax xp)) us
          \<and> (\<forall>k. k \<notin> es \<longrightarrow> xp_qdata xp' ! k = xp_qdata xp ! k)
          \<and> (\<forall>k\<in>es. xp_qdata xp ! k = no_qdata \<and> xp_qdata xp' ! k \<noteq> no_qdata)))"
  using assms(2-4)
proof (induction ts arbitrary: qconf xp rv)
  case (Cons t ts)
  let ?n = "unat (xp_qmax xp)"
  obtain i c2h where t: "t = (i, c2h)" by (cases t)
  let ?w = "q + of_nat i"
  let ?conf = "qconf\<lparr>qc_c2h := c2h, qc_qidx := ?w\<rparr>"
  have lt: "unat q + i < unat QDMA_QUEUE_IDX_INVALID" using Cons.prems(3) by (simp add: t)
  have qn: "q \<noteq> QDMA_QUEUE_IDX_INVALID" using lt by auto
  have w: "unat ?w = unat q + i"
    using lt by (simp add: unat_word_ariths unsigned_of_nat take_bit_nat_eq_self QDMA_QUEUE_IDX_INVALID_def)
  have wn: "?w \<noteq> QDMA_QUEUE_IDX_INVALID" using lt w by auto
  from add_ok [OF Cons.prems(1) K [rule_format, OF Cons.prems(1)], of E room ?conf] obtain rv1 conf xp1 where
    run: "xpdev_queue_add E (K xp) room xp ?conf = Ok (rv1, conf, xp1)" and ok: "xp_ok xp1" "xp_qmax xp1 = xp_qmax xp"
    and cases: "rv1 < 0 \<or> rv1 = 0 \<and> (?w \<noteq> QDMA_QUEUE_IDX_INVALID \<longrightarrow> conf = ?conf) \<and> added ?n c2h (unat (qc_qidx conf)) xp xp1"
    by auto
  have step: "add_targets E K room q (t # ts) qconf xp rv =
      (if rv1 < 0 then Ok (rv1, xp1) else add_targets E K room q ts conf xp1 rv1)"
    by (simp add: t qn run)
  show ?case
  proof (cases "rv1 < 0")
    case True
    then show ?thesis unfolding step using ok by simp
  next
    case False
    then have rv1: "rv1 = 0" and A: "added ?n c2h (unat q + i) xp xp1" using cases wn w by auto
    let ?us = "map (\<lambda>(i, d). (unat q + i, d)) ts" and ?k = "entry ?n c2h (unat q + i)"
    let ?es = "target_entry ?n ` set ?us"
    from A obtain v where m: "unat q + i < ?n" and e: "xp_qdata xp ! ?k = no_qdata"
      and q1: "xp_qdata xp1 = (xp_qdata xp)[?k := v]" "v \<noteq> no_qdata" unfolding added_def by auto
    have k: "?k < length (xp_qdata xp)" using entry_range [OF m] xp_okD(5) [OF Cons.prems(1)] by simp
    from Cons.IH [OF ok(1), of rv1 conf] Cons.prems(3) rv1 obtain rv' xp' where
      rest: "add_targets E K room q ts conf xp1 rv1 = Ok (rv', xp')" "xp_ok xp'" "xp_qmax xp' = xp_qmax xp"
        "0 \<le> rv' \<longrightarrow> targets_ok ?n ?us \<and> (\<forall>k. k \<notin> ?es \<longrightarrow> xp_qdata xp' ! k = xp_qdata xp1 ! k)
          \<and> (\<forall>k\<in>?es. xp_qdata xp1 ! k = no_qdata \<and> xp_qdata xp' ! k \<noteq> no_qdata)"
      unfolding ok(2) Let_def by auto
    have "let us = map (\<lambda>(i, d). (unat q + i, d)) (t # ts); es = target_entry ?n ` set us
        in targets_ok ?n us \<and> (\<forall>k. k \<notin> es \<longrightarrow> xp_qdata xp' ! k = xp_qdata xp ! k)
          \<and> (\<forall>k\<in>es. xp_qdata xp ! k = no_qdata \<and> xp_qdata xp' ! k \<noteq> no_qdata)" if "0 \<le> rv'"
    proof -
      note R = rest(4) [rule_format, OF that]
      have k1: "xp_qdata xp1 ! ?k \<noteq> no_qdata" using k q1 by simp
      have fresh: "?k \<notin> ?es" using R k1 by blast
      have other: "j \<noteq> ?k \<Longrightarrow> xp_qdata xp1 ! j = xp_qdata xp ! j" for j using q1(1) by simp
      have us: "map (\<lambda>(i, d). (unat q + i, d)) (t # ts) = (unat q + i, c2h) # ?us" by (simp add: t)
      have head: "target_entry ?n (unat q + i, c2h) = ?k" by (simp add: target_entry_def)
      have "targets_ok ?n ((unat q + i, c2h) # ?us)"
        using R fresh m unfolding targets_ok_Cons head by simp
      moreover have "xp_qdata xp' ! j = xp_qdata xp ! j" if "j \<notin> target_entry ?n ` set ((unat q + i, c2h) # ?us)" for j
        using that R other [of j] head by auto
      moreover have "xp_qdata xp ! j = no_qdata \<and> xp_qdata xp' ! j \<noteq> no_qdata" if "j \<in> target_entry ?n ` set ((unat q + i, c2h) # ?us)" for j
      proof (cases "j = ?k")
        case True
        then show ?thesis using e R fresh k1 by auto
      next
        case False
        then have "j \<in> ?es" using that head by auto
        then show ?thesis using R other [OF False] by auto
      qed
      ultimately show ?thesis unfolding us Let_def by blast
    qed
    then show ?thesis unfolding step using False rest(1-3) by auto
  qed
qed (simp add: targets_ok_def)

lemma table_dom: "table_ok n qs cdevs \<Longrightarrow> cdevs a \<noteq> None \<longleftrightarrow> Cdev a \<in> xq_xcdev ` set qs"
  using table_counts(1) [of n qs cdevs a] count_list_0_iff [of "map xq_xcdev qs" "Cdev a"]
  by (auto split: option.splits if_splits)

lemma add_run:
  assumes K: "\<forall>x. xp_ok x \<longrightarrow> creates (K x) (xp_cdevs x)"
    and dev: "attrs XNL_ATTR_DEV_IDX = Some idx" "map_of xs idx = Some xp" "xp_ok xp"
    and q: "qconf_get attrs = Inr (conf, qp)" "attrs XNL_ATTR_NUM_Q = Some num"
      "unat (qc_qidx conf) + unat num \<le> unat QDMA_QUEUE_IDX_INVALID"
    and run: "xnl_q_add N E K room attrs xs log = Ok (0, xs1, log1)"
    and ts: "ts = q_targets [unat (qc_qidx conf)..<unat (qc_qidx conf) + unat num] (qc_c2h conf) qp"
  obtains xp1 where "xs1 = AList.update idx xp1 xs" "xp_ok xp1" "xp_qmax xp1 = xp_qmax xp"
    "targets_ok (unat (xp_qmax xp)) ts"
    "\<And>k. k \<notin> target_entry (unat (xp_qmax xp)) ` set ts \<Longrightarrow> xp_qdata xp1 ! k = xp_qdata xp ! k"
    "\<And>k. k \<in> target_entry (unat (xp_qmax xp)) ` set ts \<Longrightarrow> xp_qdata xp ! k = no_qdata \<and> xp_qdata xp1 ! k \<noteq> no_qdata"
proof -
  let ?us = "q_targets [0..<unat num] (qc_c2h conf) qp"
  have lt: "\<forall>t\<in>set ?us. unat (qc_qidx conf) + fst t < unat QDMA_QUEUE_IDX_INVALID"
    using q(3) by (fastforce dest: q_targets_bound)
  have ts': "map (\<lambda>(i, d). (unat (qc_qidx conf) + i, d)) ?us = ts" unfolding ts q_targets_shift ..
  from add_targets_ok [OF K dev(3) order_refl lt, where E = E and room = room and qconf = conf] obtain rv' xp' where
    A: "add_targets E K room (qc_qidx conf) ?us conf xp 0 = Ok (rv', xp')" "xp_ok xp'" "xp_qmax xp' = xp_qmax xp"
      "0 \<le> rv' \<longrightarrow> targets_ok (unat (xp_qmax xp)) ts
          \<and> (\<forall>k. k \<notin> target_entry (unat (xp_qmax xp)) ` set ts \<longrightarrow> xp_qdata xp' ! k = xp_qdata xp ! k)
          \<and> (\<forall>k\<in>target_entry (unat (xp_qmax xp)) ` set ts. xp_qdata xp ! k = no_qdata \<and> xp_qdata xp' ! k \<noteq> no_qdata)"
    unfolding ts' Let_def by blast
  have rcv: "xnl_rcv_check_xpdev N attrs xs log = (Some (idx, xp), log)"
    by (simp add: xnl_rcv_check_xpdev_def dev xpdev_find_by_idx_def)
  have conf: "qconf_or_respond N attrs l = (Inr (conf, qp), l)" for l by (simp add: qconf_or_respond_def q)
  have "0 \<le> rv'" "xs1 = AList.update idx xp' xs"
    using run unfolding xnl_q_add_def rcv
    by (auto simp: conf q(2) A(1) Let_def errno_defs split: if_split_asm prod.splits)
  then show ?thesis using that A by blast
qed

text \<open>
  C6.  A command that adds queues and is answered without an error has put each queue that it names, in each direction, into an
  entry that was free and changed no other; the command that deletes with the same request then gives back the table and
  the devices as they were, and the tables of other devices are not touched.  The queues' numbers stay below the one that asks for a free
  queue; devices can be created.
\<close>

theorem add_del_commands:
  assumes "\<forall>x. xp_ok x \<longrightarrow> creates (K x) (xp_cdevs x)"
    and "attrs XNL_ATTR_DEV_IDX = Some idx" "map_of xs idx = Some xp" "xp_ok xp"
    and "qconf_get attrs = Inr (conf, qp)" "attrs XNL_ATTR_NUM_Q = Some num"
    and "unat (qc_qidx conf) + unat num \<le> unat QDMA_QUEUE_IDX_INVALID"
    and "xnl_q_add N E K room attrs xs log = Ok (0, xs1, log1)"
  shows "let es = target_entry (unat (xp_qmax xp)) `
        set (q_targets [unat (qc_qidx conf)..<unat (qc_qidx conf) + unat num] (qc_c2h conf) qp)
    in \<exists>xp1. map_of xs1 idx = Some xp1 \<and> xp_ok xp1
      \<and> (\<forall>k. if k \<in> es then xp_qdata xp ! k = no_qdata \<and> xp_qdata xp1 ! k \<noteq> no_qdata else xp_qdata xp1 ! k = xp_qdata xp ! k)
      \<and> (\<exists>rv xs2 log3 xp2. xnl_q_del N' E' attrs xs1 logd = Ok (rv, xs2, log3) \<and> map_of xs2 idx = Some xp2 \<and> xp_ok xp2
          \<and> xp_qdata xp2 = xp_qdata xp \<and> dom (xp_cdevs xp2) = dom (xp_cdevs xp)
          \<and> (\<forall>j. j \<noteq> idx \<longrightarrow> map_of xs2 j = map_of xs j))"
proof -
  let ?n = "unat (xp_qmax xp)"
  define ts where "ts = q_targets [unat (qc_qidx conf)..<unat (qc_qidx conf) + unat num] (qc_c2h conf) qp"
  obtain xp1 where xs1: "xs1 = AList.update idx xp1 xs" and ok1: "xp_ok xp1" "xp_qmax xp1 = xp_qmax xp"
    and tk: "targets_ok ?n ts"
    and q1: "\<And>k. k \<notin> target_entry ?n ` set ts \<Longrightarrow> xp_qdata xp1 ! k = xp_qdata xp ! k"
      "\<And>k. k \<in> target_entry ?n ` set ts \<Longrightarrow> xp_qdata xp ! k = no_qdata \<and> xp_qdata xp1 ! k \<noteq> no_qdata"
    by (elim add_run [OF assms ts_def])
  have find: "map_of xs1 idx = Some xp1" by (simp add: xs1 update_conv)
  have "xp_qdata xp1 ! target_entry ?n t \<noteq> no_qdata" if "t \<in> set ts" for t using q1(2) that by blast
  then obtain xp2 where del: "del_targets E' ts xp1 = Ok (0, xp2)" "xp_ok xp2" "xp_qmax xp2 = xp_qmax xp"
    "\<forall>k. xp_qdata xp2 ! k = (if k \<in> target_entry ?n ` set ts then no_qdata else xp_qdata xp1 ! k)"
    using del_targets_ok [OF ok1(1), of ts E'] tk unfolding ok1(2) by blast
  have same: "xp_qdata xp2 = xp_qdata xp"
  proof (rule nth_equalityI)
    show "length (xp_qdata xp2) = length (xp_qdata xp)"
      using xp_okD(5) [OF del(2)] xp_okD(5) [OF assms(4)] del(3) by simp
    show "xp_qdata xp2 ! k = xp_qdata xp ! k" for k
      using del(4) q1 by (cases "k \<in> target_entry ?n ` set ts") simp_all
  qed
  have "xp_cdevs xp2 a \<noteq> None \<longleftrightarrow> xp_cdevs xp a \<noteq> None" for a
    unfolding table_dom [OF xp_okD(4) [OF del(2)]] table_dom [OF xp_okD(4) [OF assms(4)]] same ..
  then have dom: "dom (xp_cdevs xp2) = dom (xp_cdevs xp)" by (simp add: set_eq_iff domIff)
  have "unat num < 2 ^ 16" using assms(7) by (simp add: QDMA_QUEUE_IDX_INVALID_def)
  then have "unat (ucast num :: u16) = unat num" by (simp add: unsigned_ucast_eq take_bit_nat_eq_self)
  then have range: "q_targets (q_range conf num) (qc_c2h conf) qp = ts" by (simp add: q_range_def ts_def)
  obtain rv log3 where resp: "xnl_respond_buffer N' True logd = (rv, log3)" by fastforce
  have "xnl_q_del N' E' attrs xs1 logd = Ok (rv, AList.update idx xp2 xs1, log3)"
    using assms(2,5,6) find
    by (simp add: xnl_q_del_def xnl_rcv_check_xpdev_def xpdev_find_by_idx_def qconf_or_respond_def range del(1) resp)
  moreover have "map_of (AList.update idx xp2 xs1) j = (if j = idx then Some xp2 else map_of xs j)" for j
    by (simp add: xs1 update_conv')
  ultimately have undone: "\<exists>rv xs2 log3 xp2. xnl_q_del N' E' attrs xs1 logd = Ok (rv, xs2, log3) \<and> map_of xs2 idx = Some xp2 \<and> xp_ok xp2
          \<and> xp_qdata xp2 = xp_qdata xp \<and> dom (xp_cdevs xp2) = dom (xp_cdevs xp)
          \<and> (\<forall>j. j \<noteq> idx \<longrightarrow> map_of xs2 j = map_of xs j)"
    using del(2) same dom by auto
  show ?thesis unfolding ts_def [symmetric] Let_def using find ok1(1) q1 undone by (intro exI [of _ xp1]) auto
qed

text \<open>A kernel that has memory behind every address in the table.\<close>

definition next_addr :: "xlnx_pci_dev \<Rightarrow> nat" where
  "next_addr x = Suc (fold (\<lambda>q m. case xq_xcdev q of Cdev a \<Rightarrow> max a m | _ \<Rightarrow> m) (xp_qdata x) 0)"

definition fresh_env :: "xlnx_pci_dev \<Rightarrow> cdev_env" where
  "fresh_env x = \<lparr>ce_addr = Some (next_addr x), ce_add = 0, ce_class = True, ce_device = 0, ce_wq = True\<rparr>"

lemma fold_addr:
  fixes qs :: "xlnx_qdata list"
  shows "m \<le> fold (\<lambda>q m. case xq_xcdev q of Cdev a \<Rightarrow> max a m | _ \<Rightarrow> m) qs m"
    and "Cdev a \<in> xq_xcdev ` set qs \<Longrightarrow> a \<le> fold (\<lambda>q m. case xq_xcdev q of Cdev a \<Rightarrow> max a m | _ \<Rightarrow> m) qs m"
proof -
  show le: "m \<le> fold (\<lambda>q m. case xq_xcdev q of Cdev a \<Rightarrow> max a m | _ \<Rightarrow> m) qs m" for qs :: "xlnx_qdata list" and m
  proof (induction qs arbitrary: m)
    case (Cons q qs)
    show ?case using Cons.IH [of "max b m" for b] Cons.IH [of m]
      by (auto split: cdev_ptr.split intro: order_trans [OF max.cobounded2])
  qed simp
  show "Cdev a \<in> xq_xcdev ` set qs \<Longrightarrow> a \<le> fold (\<lambda>q m. case xq_xcdev q of Cdev a \<Rightarrow> max a m | _ \<Rightarrow> m) qs m"
  proof (induction qs arbitrary: m)
    case (Cons q qs)
    then show ?case
      using le [of "max a m" qs] by (cases "xq_xcdev q = Cdev a") (auto intro: order_trans [OF max.cobounded1])
  qed simp
qed

lemma fresh_env_creates: "\<forall>x. xp_ok x \<longrightarrow> creates (fresh_env x) (xp_cdevs x)"
proof (intro allI impI)
  fix x
  assume "xp_ok x"
  from table_dom [OF xp_okD(4) [OF this], of "next_addr x"] fold_addr(2) [of "next_addr x" "xp_qdata x" 0]
  have "xp_cdevs x (next_addr x) = None" by (auto simp: next_addr_def)
  then show "creates (fresh_env x) (xp_cdevs x)" by (simp add: creates_def fresh_env_def)
qed

definition sample_attrs :: nl_attrs where
  "sample_attrs = (\<lambda>_. None)(XNL_ATTR_DEV_IDX := Some 0, XNL_ATTR_QIDX := Some 0, XNL_ATTR_NUM_Q := Some 1,
     XNL_ATTR_QFLAG := Some XNL_F_QMODE_MM)"

definition sample_nl_env :: nl_env where
  "sample_nl_env = \<lparr>ne_skb = True, ne_put = True, ne_str = True, ne_mem = True\<rparr>"

lemma sample_conf: "qconf_get sample_attrs = Inr (zero_queue_conf, False)"
  by (simp add: qconf_get_def sample_attrs_def nl_defs zero_queue_conf_def Let_def)

lemma add_del_commands_witness:
  "\<exists>lib1 tr1 xp0 xs1 log1 rv xs2 logd xp1 xp2. qdma_device_init plain_env sample_lib [] = (0, lib1, tr1)
    \<and> xpdev_alloc True False 2 lib1 tr1 = Some xp0
    \<and> xnl_q_add sample_nl_env plain_env fresh_env True sample_attrs [(0, xp0\<lparr>xp_minor_cnt := QDMA_MINOR_MAX\<rparr>)] [] = Ok (0, xs1, log1)
    \<and> map_of xs1 0 = Some xp1 \<and> xp_qdata xp1 ! 0 \<noteq> no_qdata
    \<and> xnl_q_del sample_nl_env plain_env sample_attrs xs1 log1 = Ok (rv, xs2, logd) \<and> map_of xs2 0 = Some xp2
    \<and> xp_qdata xp2 = xp_qdata xp0"
proof -
  obtain lib1 tr1 xp0 where S: "qdma_device_init plain_env sample_lib [] = (0, lib1, tr1)" "lib_shape lib1"
    "unat (xd_qmax (lb_xdev lib1)) = unat (2 :: u32)" "xpdev_alloc True False 2 lib1 tr1 = Some xp0"
    "xp_cdevs xp0 = Map.empty" "xp_ok (xp0\<lparr>xp_minor_cnt := QDMA_MINOR_MAX\<rparr>)"
    "\<forall>K. creates K Map.empty \<longrightarrow> (\<exists>conf xp. xpdev_queue_add plain_env K True (xp0\<lparr>xp_minor_cnt := QDMA_MINOR_MAX\<rparr>) zero_queue_conf = Ok (0, conf, xp)
       \<and> xp_cdevs xp \<noteq> Map.empty)"
    by (rule sample_table)
  let ?xp = "xp0\<lparr>xp_minor_cnt := QDMA_MINOR_MAX\<rparr>"
  have "creates (fresh_env ?xp) Map.empty" using fresh_env_creates S(5,6) by force
  with S(7) obtain conf xp1 where add: "xpdev_queue_add plain_env (fresh_env ?xp) True ?xp zero_queue_conf = Ok (0, conf, xp1)"
    by blast
  have attrs: "sample_attrs XNL_ATTR_DEV_IDX = Some 0" "sample_attrs XNL_ATTR_NUM_Q = Some 1"
    by (simp_all add: sample_attrs_def nl_defs)
  have conf: "zero_queue_conf\<lparr>qc_c2h := False, qc_qidx := 0\<rparr> = zero_queue_conf" "qc_c2h zero_queue_conf = False"
    "qc_qidx zero_queue_conf = 0" by (simp_all add: zero_queue_conf_def)
  have ts: "q_targets [0..<Suc 0] False False = [(0, False)]" by (simp add: q_targets_def)
  have inv: "(0 :: u16) \<noteq> QDMA_QUEUE_IDX_INVALID" by (simp add: QDMA_QUEUE_IDX_INVALID_def)
  have "\<exists>xs1 log1. xnl_q_add sample_nl_env plain_env fresh_env True sample_attrs [(0, ?xp)] [] = Ok (0, xs1, log1)"
    unfolding xnl_q_add_def xnl_rcv_check_xpdev_def attrs
    by (simp add: xpdev_find_by_idx_def xnl_mem_alloc_def sample_nl_env_def qconf_or_respond_def sample_conf conf ts
        inv add Let_def xnl_respond_buffer_def xnl_msg_alloc_def del: upt_Suc)
  then obtain xs1 log1 where run: "xnl_q_add sample_nl_env plain_env fresh_env True sample_attrs [(0, ?xp)] [] = Ok (0, xs1, log1)"
    by blast
  have "map_of [(0, ?xp)] 0 = Some ?xp" by simp
  moreover have "unat (qc_qidx zero_queue_conf) + unat (1 :: u32) \<le> unat QDMA_QUEUE_IDX_INVALID"
    by (simp add: conf QDMA_QUEUE_IDX_INVALID_def)
  ultimately obtain xp1 rv xs2 log3 xp2 where "map_of xs1 0 = Some xp1"
    "\<forall>k. if k \<in> target_entry (unat (xp_qmax ?xp)) ` set (q_targets [0..<Suc 0] False False)
      then xp_qdata ?xp ! k = no_qdata \<and> xp_qdata xp1 ! k \<noteq> no_qdata else xp_qdata xp1 ! k = xp_qdata ?xp ! k"
    "xnl_q_del sample_nl_env plain_env sample_attrs xs1 log1 = Ok (rv, xs2, log3)" "map_of xs2 0 = Some xp2"
    "xp_qdata xp2 = xp_qdata ?xp"
    using add_del_commands [OF fresh_env_creates attrs(1) _ S(6) sample_conf attrs(2) _ run, where E' = plain_env and logd = log1
        and N' = sample_nl_env]
    unfolding Let_def conf by auto
  moreover from this(2) have "xp_qdata xp1 ! 0 \<noteq> no_qdata"
    unfolding ts by (auto simp: target_entry_def entry_def dest: spec [of _ 0])
  ultimately show ?thesis using S(1,4) run by auto
qed

section \<open>Where the answers go wrong\<close>

text \<open>
  When the first queue that a start or stop command names is not in the table, its number is refused in a message of its own, and then the
  buffer on the stack is sent although nothing has been written to it.
\<close>

lemma unwritten_answer:
  assumes "attrs XNL_ATTR_DEV_IDX = Some idx" "map_of xs idx = Some xp"
    and "qconf_get attrs = Inr (conf, qp)" "attrs XNL_ATTR_NUM_Q = Some num" "0 < unat (ucast num :: u16)"
    and "xpdev_queue_get xp (ucast (qc_qidx conf)) (qc_c2h conf) True = Ok None"
    and N: "ne_skb N" "ne_put N" "ne_str N"
  shows "xnl_q_stop N E room attrs xs log = Ok (0, AList.update idx xp xs, log @ [SkbNew, Answer True, SkbNew, Answer False])"
proof -
  obtain ts where "q_targets (q_range conf num) (qc_c2h conf) qp = (unat (qc_qidx conf), qc_c2h conf) # ts"
    using assms(5) by (simp add: q_targets_def q_range_def upt_conv_Cons)
  then show ?thesis
    using assms(6)
    by (simp add: xnl_q_stop_def xnl_rcv_check_xpdev_def xpdev_find_by_idx_def qconf_or_respond_def assms(1-4)
        xnl_rcv_check_qidx_def xnl_respond_buffer_def xnl_msg_alloc_def N Let_def)
qed

text \<open>
  Two queues that are to have free numbers: the first one's number is written back into the configuration, and the second is
  asked for by that number.
\<close>

lemma second_number_fixed:
  assumes "xpdev_queue_add E (K xp) room xp (qconf\<lparr>qc_c2h := c2h\<rparr>) = Ok (rv, conf, xp1)" "\<not> rv < 0"
  shows "add_targets E K room QDMA_QUEUE_IDX_INVALID [(0, c2h), (1, c2h)] qconf xp 0 =
    (case xpdev_queue_add E (K xp1) room xp1 (conf\<lparr>qc_c2h := c2h\<rparr>) of Bad \<Rightarrow> Bad | Ok (rv, _, xp2) \<Rightarrow> Ok (rv, xp2))"
  using assms by (auto split: outcome.split)

lemma second_number_taken:
  assumes ok: "xp_ok xp" and use: "in_use (xp_lib xp) (entry (unat (xp_qmax xp)) c2h (unat (qc_qidx conf)))"
    and idx: "qc_qidx conf \<noteq> QDMA_QUEUE_IDX_INVALID" and K: "creates (K xp) (xp_cdevs xp)"
  shows "\<exists>rv c xp'. xpdev_queue_add E (K xp) room xp (conf\<lparr>qc_c2h := c2h\<rparr>) = Ok (rv, c, xp') \<and> rv < 0"
proof -
  from add_ok [OF ok K, of E room "conf\<lparr>qc_c2h := c2h\<rparr>"] obtain rv c xp' r h l t where
    A: "xpdev_queue_add E (K xp) room xp (conf\<lparr>qc_c2h := c2h\<rparr>) = Ok (rv, c, xp')" "rv = min r 0"
      "qdma_queue_add E room (conf\<lparr>qc_c2h := c2h\<rparr>) (xp_lib xp) (xp_trace xp) = Ok (r, h, c, l, t)" by blast
  have "r < 0"
  proof (rule ccontr)
    assume r: "\<not> r < 0"
    have "qc_qidx (conf\<lparr>qc_c2h := c2h\<rparr>) \<noteq> QDMA_QUEUE_IDX_INVALID" using idx by simp
    then obtain m where "h = entry (unat (xp_qmax xp)) c2h m" "\<not> in_use (xp_lib xp) h" "unat (qc_qidx c) = m" "c = conf\<lparr>qc_c2h := c2h\<rparr>"
      by (rule_tac add_index [OF ok A(3) r]) auto
    then show False using use by simp
  qed
  then show ?thesis using A by auto
qed

text \<open>An answer whose text does not fit is neither sent nor freed.\<close>

lemma answer_leaked:
  "\<lbrakk>ne_skb N; ne_put N; \<not> ne_str N\<rbrakk> \<Longrightarrow> xnl_respond_buffer N w log = (- EINVAL, log @ [SkbNew])"
  by (simp add: xnl_respond_buffer_def xnl_msg_alloc_def)

end
