(* ===== verification/Qdma_Dump.thy ===== *)
theory Qdma_Dump
  imports Qdma_Request
begin

text \<open>
  What the library tells about its queues (\<open>libqdma_export.c\<close>, \<open>qdma_descq.c\<close>): states, contexts,
  descriptors, completion entries.  A text is the list of its lines with the values in them; the words around the values,
  the hexadecimal digits and the length in bytes are left out, so that a code that is not negative is
  0.  The buffer is long enough, as the code assumes.
\<close>

section \<open>Lines\<close>

datatype queue_state = StateErr | StateOnline | StateUp | StateCfged | StateUninit

datatype desc_entry = MmEntry qdma_mm_desc | H2cEntry qdma_h2c_desc | C2hEntry u64

datatype dump_line =
    DNoQueue
  | DState bool queue_state
  | DQueue u32 "nat option" "nat option" u64 u32
  | DWrbRing u64 u32
  | DWb u16
  | DWrbWb u16
  | DDesc int desc_entry
  | DFree nat u64
  | DData nat
  | DWrb int u64
  | DCtxt hw_descq_context
  | DFailed int
  | DIntrCtxt u32 "u32 list"
  | DTotals u16 u16

text \<open>The descriptor ring as a list of entries.\<close>

fun ring_entries :: "desc_ring \<Rightarrow> desc_entry list" where
  "ring_entries NoDesc = []"
| "ring_entries (MmDesc ds) = map MmEntry ds"
| "ring_entries (H2cDesc ds) = map H2cEntry ds"
| "ring_entries (C2hDesc ds) = map C2hEntry ds"

section \<open>The state of a queue\<close>

definition qdma_descq_dump_state :: "qdma_descq \<Rightarrow> dump_line list" where
  "qdma_descq_dump_state descq =
     [DState (qc_c2h (dq_conf descq))
        (if dq_err descq then StateErr else if dq_online descq then StateOnline
         else if dq_inited descq then StateUp else if dq_enabled descq then StateCfged else StateUninit)]"

definition qdma_descq_dump :: "qdma_descq \<Rightarrow> bool \<Rightarrow> dump_line list" where
  "qdma_descq_dump descq detail =
     (let conf = dq_conf descq;
          lines = qdma_descq_dump_state descq
      in if \<not> dq_enabled descq then lines
      else
        let lines = lines @ [DQueue (dq_qidx_hw descq) (dq_wrkthp descq) (dq_wbthp descq) (dq_desc_bus descq) (qc_rngsz conf)];
            lines = lines @ (if qc_st conf \<and> qc_c2h conf then [DWrbRing (dq_desc_wrb_bus descq) (qc_rngsz_wrb conf)] else [])
        in if \<not> detail then lines
        else lines @ (if dq_desc descq \<noteq> NoDesc then [DWb (dq_desc_wb_cidx descq)] else [])
               @ (if dq_desc_wrb descq \<noteq> None then [DWrbWb (dq_wrb_wb_pidx descq)] else []))"

section \<open>Entries of the rings\<close>

text \<open>
  The indices that a dumping loop takes: \<open>i\<close> and \<open>end\<close> are signed, the size of the ring is not and makes the comparison with it
  unsigned.  \<open>fetch\<close> reads an array at an index.
\<close>

function dump_range :: "int \<Rightarrow> int \<Rightarrow> u32 \<Rightarrow> int list" where
  "dump_range i e n = (if i < e \<and> word_of_int i < n then i # dump_range (i + 1) e n else [])"
  by pat_completeness auto
termination by (relation "measure (\<lambda>(i, e, n). nat (e - i))") auto

declare dump_range.simps [simp del]

definition fetch :: "'a list \<Rightarrow> int \<Rightarrow> 'a outcome" where
  "fetch xs i = (if 0 \<le> i \<and> nat i < length xs then Ok (xs ! nat i) else Bad)"

text \<open>
  The loop of \<open>qdma_descq_dump_desc\<close>; for a streaming C2H queue \<open>fl\<close> is the free list, whose pointer moves with the
  descriptors.
\<close>

fun dump_descs :: "desc_entry list \<Rightarrow> qdma_sw_sg list option \<Rightarrow> int list \<Rightarrow> dump_line list outcome" where
  "dump_descs ds fl [] = Ok []"
| "dump_descs ds fl (i # is) =
     (case fetch ds i of Bad \<Rightarrow> Bad
      | Ok d \<Rightarrow>
          (case (case fl of None \<Rightarrow> Ok [] | Some sdesc \<Rightarrow>
                   (case fetch sdesc i of Bad \<Rightarrow> Bad | Ok sg \<Rightarrow> Ok [DFree (sg_pg sg) (sg_dma_addr sg)])) of
             Bad \<Rightarrow> Bad
           | Ok free \<Rightarrow>
               (case dump_descs ds fl is of Bad \<Rightarrow> Bad | Ok lines \<Rightarrow> Ok (DDesc i d # free @ lines))))"

text \<open>After the loop the page behind the free list's pointer is dumped.\<close>

definition qdma_descq_dump_desc :: "qdma_descq \<Rightarrow> int \<Rightarrow> int \<Rightarrow> dump_line list outcome" where
  "qdma_descq_dump_desc descq start end' =
     (let conf = dq_conf descq;
          fl = (if qc_st conf \<and> qc_c2h conf then Some (fl_sdesc (dq_flq descq)) else None);
          is = dump_range start end' (qc_rngsz conf)
      in if dq_desc descq = NoDesc then Ok []
      else
        (case dump_descs (ring_entries (dq_desc descq)) fl is of Bad \<Rightarrow> Bad
         | Ok lines \<Rightarrow>
             let lines = lines @ [DWb (dq_desc_wb_cidx descq)]
             in (case fl of None \<Rightarrow> Ok lines
                 | Some sdesc \<Rightarrow>
                     (case fetch sdesc (start + int (length is)) of Bad \<Rightarrow> Bad
                      | Ok sg \<Rightarrow> if sg_pg sg = 0 then Bad else Ok (lines @ [DData (sg_pg sg)])))))"

fun dump_wrbs :: "u64 list \<Rightarrow> int list \<Rightarrow> dump_line list outcome" where
  "dump_wrbs ws [] = Ok []"
| "dump_wrbs ws (i # is) =
     (case fetch ws i of Bad \<Rightarrow> Bad
      | Ok w \<Rightarrow> (case dump_wrbs ws is of Bad \<Rightarrow> Bad | Ok lines \<Rightarrow> Ok (DWrb i w # lines)))"

definition qdma_descq_dump_wrb :: "qdma_descq \<Rightarrow> int \<Rightarrow> int \<Rightarrow> dump_line list outcome" where
  "qdma_descq_dump_wrb descq start end' =
     (case dq_desc_wrb descq of None \<Rightarrow> Ok []
      | Some ws \<Rightarrow>
          (case dump_wrbs ws (dump_range start end' (qc_rngsz_wrb (dq_conf descq))) of Bad \<Rightarrow> Bad
           | Ok lines \<Rightarrow> Ok (lines @ [DWrbWb (dq_wrb_wb_pidx descq)])))"

section \<open>The calls of the library\<close>

text \<open>
  The code and the text.  A queue that is not there leaves a message, a device without queues an empty buffer.
\<close>

definition no_queue :: "qdma_lib \<Rightarrow> dump_line list" where
  "no_queue lib = (if lb_dev lib = None then [] else [DNoQueue])"

fun dump_intr_ctxts :: "env \<Rightarrow> xlnx_dma_dev \<Rightarrow> nat list \<Rightarrow> trace \<Rightarrow> int \<times> dump_line list \<times> trace" where
  "dump_intr_ctxts E xdev [] tr = (0, [], tr)"
| "dump_intr_ctxts E xdev (i # is) tr =
     (let ring_index = get_intr_ring_index xdev (of_nat (i + xd_dvec_start_idx xdev));
          (rv, ctxt, tr) = qdma_intr_context_read E ring_index tr
      in if rv < 0 then (rv, [DFailed rv], tr)
      else
        let (rv, lines, tr) = dump_intr_ctxts E xdev is tr in (rv, DIntrCtxt ring_index ctxt # lines, tr))"

definition qdma_queue_dump :: "env \<Rightarrow> qdma_lib \<Rightarrow> nat \<Rightarrow> trace \<Rightarrow> int \<times> dump_line list \<times> trace" where
  "qdma_queue_dump E lib qid tr =
     (case get_lib qid False lib of None \<Rightarrow> (- EINVAL, no_queue lib, tr)
      | Some descq \<Rightarrow>
          let lines = qdma_descq_dump descq True;
              (rv, ctxt, tr) = qdma_descq_context_read E (dq_qidx_hw descq) (qc_st (dq_conf descq)) (qc_c2h (dq_conf descq)) tr
          in if rv < 0 then (rv, lines @ [DFailed rv], tr)
          else
            let lines = lines @ [DCtxt ctxt];
                (rv, rest, tr) = dump_intr_ctxts E (lb_xdev lib) [0..<QDMA_DATA_VEC_PER_PF_MAX] tr
            in (rv, lines @ rest, tr))"

definition qdma_queue_dump_desc :: "qdma_lib \<Rightarrow> nat \<Rightarrow> u32 \<Rightarrow> u32 \<Rightarrow> (int \<times> dump_line list) outcome" where
  "qdma_queue_dump_desc lib qid start end' =
     (case get_lib qid True lib of None \<Rightarrow> Ok (QDMA_ERR_INVALID_QIDX, no_queue lib)
      | Some descq \<Rightarrow>
          let lines = qdma_descq_dump_state descq
          in if \<not> dq_inited descq then Ok (0, lines)
          else
            (case qdma_descq_dump_desc descq (sint start) (sint end') of Bad \<Rightarrow> Bad
             | Ok rest \<Rightarrow> Ok (0, lines @ rest)))"

definition qdma_queue_dump_wrb :: "qdma_lib \<Rightarrow> nat \<Rightarrow> u32 \<Rightarrow> u32 \<Rightarrow> (int \<times> dump_line list) outcome" where
  "qdma_queue_dump_wrb lib qid start end' =
     (case get_lib qid True lib of None \<Rightarrow> Ok (QDMA_ERR_INVALID_QIDX, no_queue lib)
      | Some descq \<Rightarrow>
          let lines = qdma_descq_dump_state descq
          in if \<not> dq_inited descq then Ok (0, lines)
          else
            (case qdma_descq_dump_wrb descq (sint start) (sint end') of Bad \<Rightarrow> Bad
             | Ok rest \<Rightarrow> Ok (0, lines @ rest)))"

text \<open>\<open>qdma_queue_list\<close>: the direction without a queue is left out.\<close>

definition list_queues :: "qdma_descq list \<Rightarrow> dump_line list" where
  "list_queues qs = concat (map (\<lambda>q. if dq_enabled q then qdma_descq_dump q False else []) qs)"

definition qdma_queue_list :: "qdma_lib \<Rightarrow> int \<times> dump_line list" where
  "qdma_queue_list lib =
     (case lb_dev lib of None \<Rightarrow> (QDMA_ERR_INVALID_QDMA_DEVICE, [])
      | Some qd \<Rightarrow>
          (0, [DTotals (qd_h2c_qcnt qd) (qd_c2h_qcnt qd)]
              @ (if qd_h2c_qcnt qd \<noteq> 0 then list_queues (qv_h2c (qd_qs qd)) else [])
              @ (if qd_c2h_qcnt qd \<noteq> 0 then list_queues (qv_c2h (qd_qs qd)) else [])))"

section \<open>What is read lies in the rings\<close>

lemma dump_range_below:
  assumes "i < 0" "- (2 ^ 31) \<le> i" "unat n < 2 ^ 31"
  shows "dump_range i e n = []"
proof -
  have "i mod 2 ^ 32 = (i + 2 ^ 32) mod 2 ^ 32" by simp
  also have "\<dots> = i + 2 ^ 32" using assms(1,2) by (intro mod_pos_pos_trivial) simp_all
  finally have u: "uint (word_of_int i :: u32) = i + 2 ^ 32" by (simp add: unsigned_of_int take_bit_eq_mod)
  have "int (unat n) < int (2 ^ 31)" using assms(3) by (simp only: of_nat_less_iff)
  then have "uint n < 2 ^ 31" by simp
  then have "\<not> word_of_int i < n" using assms(2) unfolding word_less_alt u by simp
  then show ?thesis by (simp add: dump_range.simps)
qed

lemma dump_range_up:
  assumes "0 \<le> i" "e < 2 ^ 32"
  shows "dump_range i e n = map int [nat i..<min (nat e) (unat n)]"
  using assms
proof (induction i e n rule: dump_range.induct)
  case (1 i e n)
  have lt: "word_of_int i < n \<longleftrightarrow> nat i < unat n" if "i < e"
    using that "1.prems" by (simp add: word_less_nat_alt unsigned_of_int take_bit_int_eq_self)
  show ?case
  proof (cases "i < e \<and> word_of_int i < n")
    case True
    then have "nat i < min (nat e) (unat n)" using lt "1.prems" by simp
    then have "[nat i..<min (nat e) (unat n)] = nat i # [nat (i + 1)..<min (nat e) (unat n)]"
      using "1.prems" by (subst upt_conv_Cons) (simp_all add: nat_add_distrib)
    then show ?thesis using "1.IH" [OF True] "1.prems" True by (subst dump_range.simps) simp
  next
    case False
    then have "min (nat e) (unat n) \<le> nat i" using lt "1.prems" by (cases "i < e") auto
    then show ?thesis using False by (subst dump_range.simps) simp
  qed
qed

lemma fetch_nat [simp]: "fetch xs (int k) = (if k < length xs then Ok (xs ! k) else Bad)" by (simp add: fetch_def)

text \<open>What the loop shows of one index.\<close>

definition desc_lines :: "desc_entry list \<Rightarrow> qdma_sw_sg list option \<Rightarrow> nat \<Rightarrow> dump_line list" where
  "desc_lines ds fl k = DDesc (int k) (ds ! k) #
     (case fl of None \<Rightarrow> [] | Some sdesc \<Rightarrow> [DFree (sg_pg (sdesc ! k)) (sg_dma_addr (sdesc ! k))])"

lemma dump_descs_ok:
  assumes "\<forall>k \<in> set ks. k < length ds" "\<forall>sdesc. fl = Some sdesc \<longrightarrow> (\<forall>k \<in> set ks. k < length sdesc)"
  shows "dump_descs ds fl (map int ks) = Ok (concat (map (desc_lines ds fl) ks))"
  using assms by (induction ks) (auto simp: desc_lines_def split: option.splits)

lemma dump_wrbs_ok:
  "\<forall>k \<in> set ks. k < length ws \<Longrightarrow> dump_wrbs ws (map int ks) = Ok (map (\<lambda>k. DWrb (int k) (ws ! k)) ks)"
  by (induction ks) auto

lemma dump_desc_lines:
  assumes "dq_desc q \<noteq> NoDesc" "n = unat (qc_rngsz (dq_conf q))" "length (ring_entries (dq_desc q)) = n"
    and "0 \<le> s" "e < 2 ^ 32" "ks = [nat s..<min (nat e) n]"
    and "fl = (if qc_st (dq_conf q) \<and> qc_c2h (dq_conf q) then Some (fl_sdesc (dq_flq q)) else None)"
    and "\<forall>sdesc. fl = Some sdesc \<longrightarrow> length sdesc = n"
  shows "qdma_descq_dump_desc q s e =
    (let lines = concat (map (desc_lines (ring_entries (dq_desc q)) fl) ks) @ [DWb (dq_desc_wb_cidx q)];
         k = max (nat s) (min (nat e) n)
     in case fl of None \<Rightarrow> Ok lines
        | Some sdesc \<Rightarrow> if k < n \<and> sg_pg (sdesc ! k) \<noteq> 0 then Ok (lines @ [DData (sg_pg (sdesc ! k))]) else Bad)"
proof -
  have r: "dump_range s e (qc_rngsz (dq_conf q)) = map int ks" using assms(2,4-6) by (simp add: dump_range_up)
  have d: "dump_descs (ring_entries (dq_desc q)) fl (map int ks) = Ok (concat (map (desc_lines (ring_entries (dq_desc q)) fl) ks))"
    using assms(3,6,8) by (intro dump_descs_ok) auto
  have k: "s + int (length ks) = int (max (nat s) (min (nat e) n))" using assms(4,6) by simp
  show ?thesis
    unfolding qdma_descq_dump_desc_def Let_def assms(7) [symmetric] r d length_map k
    using assms(1,8) by (auto split: option.splits)
qed

text \<open>
  C36.  Dumping descriptors reads the ring and the free list at the indices asked for that there are, in order, and nothing
  outside, and shows them with the state of the queue; for a streaming C2H queue this holds when
  the range ends before the last entry, because the page after it is shown too.
\<close>

theorem dump_desc_in_ring:
  assumes "get_lib qid True lib = Some q" "dq_inited q" "dq_desc q \<noteq> NoDesc"
    and "n = unat (qc_rngsz (dq_conf q))" "length (ring_entries (dq_desc q)) = n" "0 \<le> sint start"
    and "qc_st (dq_conf q) \<and> qc_c2h (dq_conf q) \<longrightarrow>
      length (fl_sdesc (dq_flq q)) = n \<and> (\<forall>sg \<in> set (fl_sdesc (dq_flq q)). sg_pg sg \<noteq> 0)
      \<and> nat (sint start) < n \<and> nat (sint end') < n"
    and "ks = [nat (sint start)..<min (nat (sint end')) n]"
  shows "\<exists>lines. qdma_queue_dump_desc lib qid start end' = Ok (0, qdma_descq_dump_state q @ lines)
    \<and> filter (\<lambda>l. case l of DDesc _ _ \<Rightarrow> True | _ \<Rightarrow> False) lines = map (\<lambda>k. DDesc (int k) (ring_entries (dq_desc q) ! k)) ks
    \<and> (qc_st (dq_conf q) \<and> qc_c2h (dq_conf q) \<longrightarrow>
        filter (\<lambda>l. case l of DFree _ _ \<Rightarrow> True | _ \<Rightarrow> False) lines
          = map (\<lambda>k. DFree (sg_pg (fl_sdesc (dq_flq q) ! k)) (sg_dma_addr (fl_sdesc (dq_flq q) ! k))) ks
        \<and> last lines = DData (sg_pg (fl_sdesc (dq_flq q) ! max (nat (sint start)) (nat (sint end')))))"
proof -
  let ?c2h = "qc_st (dq_conf q) \<and> qc_c2h (dq_conf q)"
  have e: "sint end' < 2 ^ 32" using sint_lt [of end'] by simp
  have D: "filter (\<lambda>l. case l of DDesc _ _ \<Rightarrow> True | _ \<Rightarrow> False) (concat (map (desc_lines ds fl) ks)) = map (\<lambda>k. DDesc (int k) (ds ! k)) ks"
    for ds fl ks by (induction ks) (simp_all add: desc_lines_def split: option.splits)
  have F: "filter (\<lambda>l. case l of DFree _ _ \<Rightarrow> True | _ \<Rightarrow> False) (concat (map (desc_lines ds (Some sd)) ks))
      = map (\<lambda>k. DFree (sg_pg (sd ! k)) (sg_dma_addr (sd ! k))) ks" for ds sd ks
    by (induction ks) (simp_all add: desc_lines_def)
  have fl: "\<forall>sdesc. (if ?c2h then Some (fl_sdesc (dq_flq q)) else None) = Some sdesc \<longrightarrow> length sdesc = n"
    using assms(7) by auto
  note L = dump_desc_lines [OF assms(3,4,5,6) e assms(8) refl fl]
  note run = qdma_queue_dump_desc_def assms(1,2)
  show ?thesis
  proof (cases ?c2h)
    case True
    let ?k = "max (nat (sint start)) (nat (sint end'))"
    have m: "min (nat (sint end')) n = nat (sint end')" and k: "?k < n" using True assms(7) by auto
    have "sg_pg (fl_sdesc (dq_flq q) ! ?k) \<noteq> 0" using True assms(7) nth_mem [of ?k "fl_sdesc (dq_flq q)"] k by auto
    then have "qdma_descq_dump_desc q (sint start) (sint end')
      = Ok ((concat (map (desc_lines (ring_entries (dq_desc q)) (Some (fl_sdesc (dq_flq q)))) ks)
             @ [DWb (dq_desc_wb_cidx q)]) @ [DData (sg_pg (fl_sdesc (dq_flq q) ! ?k))])"
      unfolding L m using k True by (simp add: Let_def)
    then show ?thesis using True by (auto simp: run D F)
  next
    case False
    then have "qdma_descq_dump_desc q (sint start) (sint end')
        = Ok (concat (map (desc_lines (ring_entries (dq_desc q)) None) ks) @ [DWb (dq_desc_wb_cidx q)])"
      unfolding L by (auto simp: Let_def)
    then show ?thesis using False by (auto simp: run D)
  qed
qed

definition sample_dump_lib :: qdma_lib where
  "sample_dump_lib = \<lparr>lb_xdev = sample_dev\<lparr>xd_qmax := 1\<rparr>,
     lb_dev = Some \<lparr>qd_init_qrange = True, qd_h2c_qcnt = 0, qd_c2h_qcnt = 1, qd_qs = \<lparr>qv_h2c = [zero_descq],
        qv_c2h = [sample_c2h_queue\<lparr>dq_enabled := True, dq_inited := True\<rparr>]\<rparr>\<rparr>,
     lb_threads = \<lparr>th_wrk = [], th_wb = []\<rparr>, lb_intr_list = []\<rparr>"

lemma dump_desc_in_ring_witness:
  "\<exists>lines. qdma_queue_dump_desc sample_dump_lib 1 1 3 = Ok (0, DState True StateUp # lines)
    \<and> filter (\<lambda>l. case l of DDesc _ _ \<Rightarrow> True | _ \<Rightarrow> False) lines = [DDesc 1 (C2hEntry 0x2000), DDesc 2 (C2hEntry 0x3000)]
    \<and> last lines = DData 13"
proof -
  let ?q = "sample_c2h_queue\<lparr>dq_enabled := True, dq_inited := True\<rparr>"
  have q: "get_lib 1 True sample_dump_lib = Some ?q"
    by (simp add: get_lib_def qdma_device_get_descq_by_id_def queue_at_def sample_dump_lib_def sample_dev_def Let_def)
  have "[nat 1..<min (nat 3) 4] = [1, 2]" by (simp add: upt_rec)
  then show ?thesis
    using dump_desc_in_ring [OF q, of 4 1 3 "[1, 2]"]
    by (auto simp: sample_c2h_defs qdma_descq_dump_state_def)
qed

text \<open>Completion entries are read within their ring, whatever the range.\<close>

lemma dump_wrb_in_ring:
  assumes "get_lib qid True lib = Some q" "dq_inited q" "dq_desc_wrb q = Some ws"
    and "length ws = unat (qc_rngsz_wrb (dq_conf q))" "length ws < 2 ^ 31"
  shows "\<exists>ks. (\<forall>k \<in> set ks. k < length ws) \<and> qdma_queue_dump_wrb lib qid start end' = Ok (0,
    qdma_descq_dump_state q @ map (\<lambda>k. DWrb (int k) (ws ! k)) ks @ [DWrbWb (dq_wrb_wb_pidx q)])"
proof -
  have b: "sint end' < 2 ^ 32" "- (2 ^ 31) \<le> sint start" using sint_lt [of end'] sint_ge [of start] by simp_all
  have "\<exists>ks. (\<forall>k \<in> set ks. k < length ws) \<and> dump_range (sint start) (sint end') (qc_rngsz_wrb (dq_conf q)) = map int ks"
  proof (cases "0 \<le> sint start")
    case True
    let ?ks = "[nat (sint start)..<min (nat (sint end')) (unat (qc_rngsz_wrb (dq_conf q)))]"
    show ?thesis
      by (intro exI [of _ ?ks] conjI dump_range_up [OF True b(1)]) (simp add: assms(4))
  next
    case False
    then have "dump_range (sint start) (sint end') (qc_rngsz_wrb (dq_conf q)) = map int []"
      using b(2) assms(4,5) by (simp add: dump_range_below)
    then show ?thesis by (intro exI [of _ "[]"] conjI) simp_all
  qed
  then obtain ks where "\<forall>k \<in> set ks. k < length ws"
    "dump_range (sint start) (sint end') (qc_rngsz_wrb (dq_conf q)) = map int ks" by blast
  then show ?thesis
    using assms(1-3) by (intro exI [of _ ks]) (simp add: qdma_queue_dump_wrb_def qdma_descq_dump_wrb_def dump_wrbs_ok)
qed

section \<open>Where dumping leaves the free list\<close>

text \<open>
  A streaming C2H queue that is dumped to its end, or from behind it: the pointer into the free list is one past the last entry when the page
  behind it is read.
\<close>

lemma dump_desc_overruns:
  assumes "get_lib qid True lib = Some q" "dq_inited q" "dq_desc q \<noteq> NoDesc"
    and "n = unat (qc_rngsz (dq_conf q))" "length (ring_entries (dq_desc q)) = n" "0 \<le> sint start"
    and "qc_st (dq_conf q)" "qc_c2h (dq_conf q)" "length (fl_sdesc (dq_flq q)) = n" "n \<le> nat (sint start) \<or> n \<le> nat (sint end')"
  shows "qdma_queue_dump_desc lib qid start end' = Bad"
proof -
  have e: "sint end' < 2 ^ 32" using sint_lt [of end'] by simp
  have fl: "\<forall>sdesc. (if qc_st (dq_conf q) \<and> qc_c2h (dq_conf q) then Some (fl_sdesc (dq_flq q)) else None) = Some sdesc
    \<longrightarrow> length sdesc = n" using assms(9) by auto
  have "\<not> max (nat (sint start)) (min (nat (sint end')) n) < n" using assms(10) by auto
  then have "qdma_descq_dump_desc q (sint start) (sint end') = Bad"
    unfolding dump_desc_lines [OF assms(3-6) e refl refl fl] using assms(7,8) by (auto simp: Let_def)
  then show ?thesis by (simp add: qdma_queue_dump_desc_def assms(1,2))
qed

end
