(* ===== verification/Qdma_Open.thy ===== *)
theory Qdma_Open
  imports Qdma_Mbox_Vf Qdma_Client
begin

unbundle bit_operations_syntax

text \<open>
  Opening and closing a device (\<open>libqdma/xdev.c\<close>, physical function with SR-IOV): the list of
  devices, taking the PCI device, mapping its registers, bringing it online and offline.
\<close>

section \<open>The list of devices\<close>

text \<open>
  The devices in the order in which they were opened, each with the state that hangs off it; the
  threads are shared, \<open>lb_threads\<close> of the parts is set when a part is used.
\<close>

record qdma_host =
  ho_devs :: "qdma_lib list"
  ho_threads :: qdma_threads

definition xdevs :: "qdma_host \<Rightarrow> xdev_list" where
  "xdevs h = map lb_xdev (ho_devs h)"

text \<open>\<open>conf.idx\<close> is eight bits wide.\<close>

definition xdev_list_add :: "qdma_lib \<Rightarrow> qdma_lib list \<Rightarrow> qdma_lib list" where
  "xdev_list_add lib libs =
     (let idx = (if libs = [] then 0 else dc_idx (xd_conf (lb_xdev (last libs))) + 1);
          xdev = lb_xdev lib
      in libs @ [lib\<lparr>lb_xdev := xdev\<lparr>xd_conf := (xd_conf xdev)\<lparr>dc_idx := idx\<rparr>\<rparr>\<rparr>])"

definition xdev_list_remove :: "nat \<Rightarrow> qdma_lib list \<Rightarrow> qdma_lib list" where
  "xdev_list_remove addr = filter (\<lambda>l. xd_addr (lb_xdev l) \<noteq> addr)"

definition xdev_flag_set :: "u32 \<Rightarrow> xlnx_dma_dev \<Rightarrow> xlnx_dma_dev" where
  "xdev_flag_set f xdev = xdev\<lparr>xd_flags := xd_flags xdev OR f\<rparr>"

definition xdev_flag_clear :: "u32 \<Rightarrow> xlnx_dma_dev \<Rightarrow> xlnx_dma_dev" where
  "xdev_flag_clear f xdev = xdev\<lparr>xd_flags := xd_flags xdev AND NOT f\<rparr>"

section \<open>Registers and DMA masks\<close>

definition pci_do :: "env \<Rightarrow> pci_call \<Rightarrow> trace \<Rightarrow> int \<times> trace" where
  "pci_do E c tr = (let rv = env_pci E tr c in (rv, PciCall c rv # tr))"

definition QDMA_MAX_BAR_LEN_MAPPED :: int where "QDMA_MAX_BAR_LEN_MAPPED = 0x4000000"

text \<open>
  \<open>xdev_map_bars\<close>: whether \<open>regs\<close> is set afterwards is the second result.
\<close>

definition xdev_map_bars :: "env \<Rightarrow> trace \<Rightarrow> int \<times> bool \<times> trace" where
  "xdev_map_bars E tr =
     (let map_len = env_bar_len E tr;
          map_len = (if map_len > QDMA_MAX_BAR_LEN_MAPPED then QDMA_MAX_BAR_LEN_MAPPED else map_len);
          (regs, tr) = pci_do E (PciIomap map_len) tr
      in if regs = 0 then (- EINVAL, False, tr)
      else
        let (v, tr) = read_reg E 0 tr
        in if v AND 0xFFFF0000 \<noteq> 0x1FD30000 then (- EINVAL, False, snd (pci_do E PciIounmap tr))
           else (0, True, tr))"

definition xdev_unmap_bars :: "env \<Rightarrow> bool \<Rightarrow> trace \<Rightarrow> trace" where
  "xdev_unmap_bars E regs tr = (if regs then snd (pci_do E PciIounmap tr) else tr)"

definition pci_dma_mask_set :: "env \<Rightarrow> trace \<Rightarrow> int \<times> trace" where
  "pci_dma_mask_set E tr =
     (let (rv, tr) = pci_do E (PciSetDmaMask 64) tr
      in if rv = 0 then (0, snd (pci_do E (PciSetConsistentDmaMask 32) tr))
      else
        let (rv, tr) = pci_do E (PciSetDmaMask 32) tr
        in if rv = 0 then (0, snd (pci_do E (PciSetConsistentDmaMask 32) tr)) else (- EINVAL, tr))"

text \<open>
  \<open>xdev_alloc\<close>: the zeroed structure at \<open>addr\<close> with the client's configuration; \<open>None\<close> is out of memory.
  The size of the structure is not modelled.
\<close>

definition xdev_alloc :: "env \<Rightarrow> qdma_dev_conf \<Rightarrow> nat \<Rightarrow> trace \<Rightarrow> xlnx_dma_dev option \<times> trace" where
  "xdev_alloc E conf addr tr =
     (let ok = env_kalloc E tr 1; tr = Kalloc 1 ok # tr
      in (if \<not> ok then None
          else Some \<lparr>xd_addr = addr, xd_conf = conf, xd_flags = 0, xd_flr_prsnt = True,
            xd_st_mode_en = True, xd_mm_mode_en = True, xd_vf_info = [], xd_vf_count = 0, xd_func_id = 0,
            xd_func_id_parent = 0, xd_pf_count = 0, xd_mm_channel_max = 1, xd_m_req = replicate 32 0,
            xd_m_resp = replicate 32 0, xd_num_vecs = 0, xd_intr_list_cnt = replicate XDEV_NUM_IRQ_MAX 0,
            xd_dvec_start_idx = 0, xd_intr_vec_map = replicate XDEV_NUM_IRQ_MAX INTR_TYPE_ERROR,
            xd_intr_coal_en = False, xd_intr_coal_list = [], xd_qbase = 0, xd_qmax = 0\<rparr>, tr))"

section \<open>Online and offline\<close>

text \<open>
  The handle is the device \<open>lib\<close> whose address is checked against the list.  \<open>mem\<close> is what fresh memory
  holds.
\<close>

definition qdma_device_offline ::
  "env \<Rightarrow> xdev_list \<Rightarrow> nat \<Rightarrow> qdma_lib \<Rightarrow> trace \<Rightarrow> (qdma_lib \<times> trace) outcome" where
  "qdma_device_offline E devs pdev lib tr =
     (if xdev_check_hndl devs pdev (xd_addr (lb_xdev lib)) < 0 then Ok (lib, tr)
      else
        let xdev = xdev_flag_set XDEV_FLAG_OFFLINE (lb_xdev lib);
            (xdev, tr) = xdev_sriov_disable xdev tr
        in (case qdma_device_cleanup E (lib\<lparr>lb_xdev := xdev\<rparr>) tr of
              Bad \<Rightarrow> Bad
            | Ok (lib, tr) \<Rightarrow> Ok (lib, qdma_mbox_timer_stop tr)))"

text \<open>The label \<open>cleanup_qdma\<close>.\<close>

definition online_cleanup :: "env \<Rightarrow> int \<Rightarrow> qdma_lib \<Rightarrow> trace \<Rightarrow> (int \<times> qdma_lib \<times> trace) outcome" where
  "online_cleanup E rv lib tr =
     (case qdma_device_cleanup E lib tr of Bad \<Rightarrow> Bad | Ok (lib, tr) \<Rightarrow> Ok (rv, lib, tr))"

definition qdma_device_online ::
  "env \<Rightarrow> (nat \<Rightarrow> vf_info) \<Rightarrow> xdev_list \<Rightarrow> nat \<Rightarrow> qdma_lib \<Rightarrow> trace \<Rightarrow> (int \<times> qdma_lib \<times> trace) outcome" where
  "qdma_device_online E mem devs pdev lib tr =
     (if xdev_check_hndl devs pdev (xd_addr (lb_xdev lib)) < 0 then Ok (- EINVAL, lib, tr)
      else
        let (rv, lib, tr) = qdma_device_init E lib tr
        in if rv < 0 then online_cleanup E rv lib tr
        else
          let xdev = xdev_flag_clear XDEV_FLAG_OFFLINE (lb_xdev lib);
              tr = qdma_mbox_timer_init E PF tr
          in if dc_vf_max (xd_conf xdev) \<noteq> 0 then
               let (rv, xdev, tr) = xdev_sriov_enable E mem (unat (dc_vf_max (xd_conf xdev))) xdev tr;
                   lib = lib\<lparr>lb_xdev := xdev\<rparr>
               in if rv < 0 then online_cleanup E rv lib tr else Ok (0, lib, tr)
             else Ok (0, lib\<lparr>lb_xdev := xdev\<rparr>, tr))"

section \<open>Opening and closing\<close>

definition QDMA_ERR_INVALID_PCI_DEV :: int where [errno_defs]: "QDMA_ERR_INVALID_PCI_DEV = - 6"
definition QDMA_ERR_PCI_DEVICE_ALREADY_ATTACHED :: int
  where [errno_defs]: "QDMA_ERR_PCI_DEVICE_ALREADY_ATTACHED = - 2"

text \<open>The labels \<open>disable_device\<close> and \<open>unmap_bars\<close> of \<open>qdma_device_open\<close> and what follows them.\<close>

definition open_disable :: "env \<Rightarrow> trace \<Rightarrow> trace" where
  "open_disable E tr = snd (pci_do E PciReleaseRegions (snd (pci_do E PciDisableDevice tr)))"

definition open_unmap :: "env \<Rightarrow> bool \<Rightarrow> nat \<Rightarrow> qdma_host \<Rightarrow> trace \<Rightarrow> qdma_host \<times> trace" where
  "open_unmap E regs addr h tr =
     (let tr = xdev_unmap_bars E regs tr
      in (h\<lparr>ho_devs := xdev_list_remove addr (ho_devs h)\<rparr>, open_disable E (Kfree # tr)))"

text \<open>Putting back a part of the host, with the threads it changed.\<close>

definition put_host :: "qdma_lib \<Rightarrow> qdma_host \<Rightarrow> qdma_host" where
  "put_host lib h = \<lparr>ho_devs = map (\<lambda>l. if xd_addr (lb_xdev l) = xd_addr (lb_xdev lib) then lib else l) (ho_devs h),
     ho_threads = lb_threads lib\<rparr>"

text \<open>
  From \<open>xdev_list_add\<close> on, for the device \<open>lib\<close> that is now the last of the list.  The results are the code,
  the handle (an address, 0 for none), the configuration written back, and the state.  \<open>None\<close> of
  \<open>qdma_device_attributes_get\<close> is its division by zero.
\<close>

definition open_attached ::
  "env \<Rightarrow> (nat \<Rightarrow> vf_info) \<Rightarrow> nat \<Rightarrow> qdma_dev_conf \<Rightarrow> qdma_lib \<Rightarrow> qdma_host \<Rightarrow> trace
     \<Rightarrow> (int \<times> nat \<times> qdma_dev_conf \<times> qdma_host \<times> trace) outcome" where
  "open_attached E mem totalvfs conf lib h tr =
     (let addr = xd_addr (lb_xdev lib);
          (rv, regs, tr) = xdev_map_bars E tr
      in if rv \<noteq> 0 then
           let (h, tr) = open_unmap E regs addr h tr in Ok (rv, 0, conf, h, tr)
      else
       (case qdma_device_attributes_get E totalvfs (lb_xdev lib) tr of
          None \<Rightarrow> Bad
        | Some (xdev, tr) \<Rightarrow>
            let lib = lib\<lparr>lb_xdev := xdev\<rparr>;
                h = put_host lib h
            in if \<not> xd_mm_mode_en xdev \<and> \<not> xd_st_mode_en xdev then
                 let (h, tr) = open_unmap E regs addr h tr
                 in Ok (QDMA_ERR_INTERFACE_NOT_ENABLED_IN_DEVICE, 0, conf, h, tr)
               else
                 let conf = xd_conf xdev
                 in (case qdma_device_online E mem (xdevs h) (dc_pdev conf) lib tr of
                       Bad \<Rightarrow> Bad
                     | Ok (rv, lib, tr) \<Rightarrow>
                         let h = put_host lib h
                         in if rv < 0 then
                              (case qdma_device_offline E (xdevs h) (dc_pdev conf) lib tr of
                                 Bad \<Rightarrow> Bad
                               | Ok (lib, tr) \<Rightarrow>
                                   let (h, tr) = open_unmap E regs addr (put_host lib h) tr
                                   in Ok (rv, 0, conf, h, tr))
                            else Ok (QDMA_OPERATION_SUCCESSFUL, addr, conf, h, tr))))"

text \<open>
  \<open>named\<close> says that \<open>mod_name\<close> is not NULL; the configuration is not NULL (it is read before it is tested).
  \<open>addr\<close> is where the structure is allocated.
\<close>

definition qdma_device_open ::
  "env \<Rightarrow> (nat \<Rightarrow> vf_info) \<Rightarrow> nat \<Rightarrow> nat \<Rightarrow> bool \<Rightarrow> qdma_dev_conf \<Rightarrow> qdma_host \<Rightarrow> trace
     \<Rightarrow> (int \<times> nat \<times> qdma_dev_conf \<times> qdma_host \<times> trace) outcome" where
  "qdma_device_open E mem totalvfs addr named conf h tr =
     (let pdev = dc_pdev conf
      in if \<not> named then Ok (QDMA_ERR_INVALID_INPUT_PARAM, 0, conf, h, tr)
      else if pdev = 0 then Ok (QDMA_ERR_INVALID_PCI_DEV, 0, conf, h, tr)
      else
        let conf = conf\<lparr>dc_bar_num_user := - 1\<rparr>
        in if xdev_find_by_pdev (xdevs h) pdev \<noteq> None
           then Ok (QDMA_ERR_PCI_DEVICE_ALREADY_ATTACHED, 0, conf, h, tr)
        else
          let (rv, tr) = pci_do E PciRequestRegions tr
          in if rv \<noteq> 0 then Ok (rv, 0, conf, h, tr)
          else
            let (rv, tr) = pci_do E PciEnableDevice tr
            in if rv \<noteq> 0 then Ok (rv, 0, conf, h, snd (pci_do E PciReleaseRegions tr))
            else
              let (_, tr) = pci_do E PciRelaxedOrdering tr;
                  (_, tr) = pci_do E PciSetMaster tr;
                  (rv, tr) = pci_dma_mask_set E tr
              in if rv \<noteq> 0 then Ok (rv, 0, conf, h, open_disable E tr)
              else
               (case xdev_alloc E conf addr tr of
                  (None, tr) \<Rightarrow> Ok (rv, 0, conf, h, open_disable E tr)
                | (Some xdev, tr) \<Rightarrow>
                    let lib = \<lparr>lb_xdev = xdev_flag_set XDEV_FLAG_OFFLINE xdev, lb_dev = None,
                          lb_threads = ho_threads h, lb_intr_list = replicate XDEV_NUM_IRQ_MAX []\<rparr>;
                        libs = xdev_list_add lib (ho_devs h)
                    in open_attached E mem totalvfs conf (last libs) (h\<lparr>ho_devs := libs\<rparr>) tr))"

text \<open>
  \<open>qdma_device_close\<close>, for the device \<open>lib\<close> behind the handle.  A device that is open has its
  registers mapped.
\<close>

definition qdma_device_close ::
  "env \<Rightarrow> nat \<Rightarrow> qdma_lib \<Rightarrow> qdma_host \<Rightarrow> trace \<Rightarrow> (qdma_host \<times> trace) outcome" where
  "qdma_device_close E pdev lib h tr =
     (if xdev_check_hndl (xdevs h) pdev (xd_addr (lb_xdev lib)) < 0 then Ok (h, tr)
      else
       (case qdma_device_offline E (xdevs h) pdev (lib\<lparr>lb_threads := ho_threads h\<rparr>) tr of
          Bad \<Rightarrow> Bad
        | Ok (lib, tr) \<Rightarrow>
            let h = put_host lib h;
                tr = xdev_unmap_bars E True tr;
                tr = snd (pci_do E PciReleaseRegions tr);
                tr = snd (pci_do E PciDisableDevice tr)
            in Ok (h\<lparr>ho_devs := xdev_list_remove (xd_addr (lb_xdev lib)) (ho_devs h)\<rparr>, Kfree # tr)))"

definition qdma_device_get_config :: "xdev_list \<Rightarrow> xlnx_dma_dev \<Rightarrow> int + qdma_dev_conf" where
  "qdma_device_get_config devs xdev =
     (if xdev_check_hndl devs (dc_pdev (xd_conf xdev)) (xd_addr xdev) < 0 then Inl (- EINVAL)
      else Inr (xd_conf xdev))"

section \<open>What identifies a device stays\<close>

definition ident :: "xlnx_dma_dev \<Rightarrow> nat \<times> nat \<times> u8" where
  "ident xdev = (xd_addr xdev, dc_pdev (xd_conf xdev), dc_idx (xd_conf xdev))"

named_theorems ident_frame

lemma ident_core: "core xdev' = core xdev \<Longrightarrow> ident xdev' = ident xdev"
  by (simp add: core_def ident_def)

lemma ident_flag [ident_frame]:
  "ident (xdev_flag_set f xdev) = ident xdev" "ident (xdev_flag_clear f xdev) = ident xdev"
  by (simp_all add: xdev_flag_set_def xdev_flag_clear_def ident_def)

lemma ident_identify [ident_frame]: "ident (fst (device_identify E xdev tr)) = ident xdev"
  by (simp add: device_identify_def Let_def split_beta ident_def)

lemma ident_request_loop: "ident (fst (snd (snd (request_loop E n i xdev tr)))) = ident xdev"
proof (induction n arbitrary: i xdev tr)
  case (Suc n)
  have "ident (xdev\<lparr>xd_intr_vec_map := m\<rparr>) = ident xdev" for m by (simp add: ident_def)
  then show ?case using Suc by (simp add: Let_def)
qed simp

lemma ident_intr_setup [ident_frame]: "ident (fst (snd (intr_setup E xdev tr))) = ident xdev"
proof -
  have "ident (xdev\<lparr>xd_num_vecs := n\<rparr>) = ident xdev" "ident (xdev\<lparr>xd_dvec_start_idx := d, xd_flags := f\<rparr>) = ident xdev"
    for n d f xdev by (simp_all add: ident_def)
  then show ?thesis by (simp add: intr_setup_def Let_def split_beta ident_request_loop)
qed

lemma ident_device_init [ident_frame]: "ident (lb_xdev (fst (snd (qdma_device_init E lib tr)))) = ident (lb_xdev lib)"
proof -
  have "ident (xdev\<lparr>xd_qmax := a, xd_qbase := b, xd_conf := (xd_conf xdev)\<lparr>dc_qsets_base := c\<rparr>\<rparr>) = ident xdev"
    for a b c xdev by (simp add: ident_def)
  then show ?thesis by (simp add: qdma_device_init_def Let_def split_beta ident_frame)
qed

lemma ident_sriov [ident_frame]:
  "ident (fst (xdev_sriov_disable xdev tr)) = ident xdev"
  "ident (fst (snd (xdev_sriov_enable E mem n xdev tr))) = ident xdev"
proof -
  show *: "ident (fst (xdev_sriov_disable xdev tr)) = ident xdev" for xdev tr
    by (simp add: xdev_sriov_disable_def Let_def ident_def)
  have "ident (xdev\<lparr>xd_vf_count := a, xd_vf_info := b\<rparr>) = ident xdev" for a b by (simp add: ident_def)
  then show "ident (fst (snd (xdev_sriov_enable E mem n xdev tr))) = ident xdev"
    by (simp add: xdev_sriov_enable_def Let_def split_beta *)
qed

lemma ident_attributes: "qdma_device_attributes_get E n xdev tr = Some (xdev', tr') \<Longrightarrow> ident xdev' = ident xdev"
  by (auto simp: qdma_device_attributes_get_def qdma_device_num_pfs_get_def Let_def split_beta ident_def split: if_splits)

section \<open>A device without queues in use\<close>

definition idle :: "qdma_lib \<Rightarrow> bool" where
  "idle lib \<longleftrightarrow> (\<forall>qid q. get_lib qid False lib = Some q \<longrightarrow> \<not> dq_enabled q)"

lemma stop_loop_idle: "idle lib \<Longrightarrow> stop_loop E qids lib tr = Ok (lib, tr)"
  by (induction qids) (auto simp: idle_def split: option.splits)

lemma put_lib_xdev [simp]: "lb_xdev (put_lib qid q lib) = lb_xdev lib"
  by (simp add: put_lib_def)

lemma ident_cleanup_loop: "ident (lb_xdev (fst (cleanup_loop E qids lib tr))) = ident (lb_xdev lib)"
proof (induction qids arbitrary: lib tr)
  case (Cons qid qids)
  then show ?case
    using ident_core [OF cleanup_frame(2)] by (simp add: split_beta split: option.split)
qed simp

lemma cleanup_idle:
  "idle lib \<Longrightarrow> \<exists>lib' tr'. qdma_device_cleanup E lib tr = Ok (lib', tr') \<and> ident (lb_xdev lib') = ident (lb_xdev lib)
     \<and> lb_dev lib' = None"
  by (simp add: qdma_device_cleanup_def stop_loop_idle Let_def split_beta ident_cleanup_loop)

lemma idle_None: "lb_dev lib = None \<Longrightarrow> idle lib"
  by (simp add: idle_def get_lib_def qdma_device_get_descq_by_id_def)

lemma idle_xdev: "xd_qmax xdev = xd_qmax (lb_xdev lib) \<Longrightarrow> idle (lib\<lparr>lb_xdev := xdev\<rparr>) = idle lib"
  by (simp add: idle_def get_lib_def qdma_device_get_descq_by_id_def queue_at_def Let_def split: option.split)

lemma idle_init:
  assumes "lb_dev lib = Some qd" "qd_qs qd = init_queues (lb_xdev lib)"
  shows "idle lib"
proof -
  have "\<not> dq_enabled (qdma_descq_init x a b)" for x a b
    by (simp add: qdma_descq_init_def zero_descq_def)
  then show ?thesis
    using assms by (auto simp: idle_def get_lib_def qdma_device_get_descq_by_id_def queue_at_def init_queues_def Let_def
      split: if_splits)
qed

lemma init_queues_conf: "init_queues (xdev\<lparr>xd_conf := c\<rparr>) = init_queues xdev"
  by (simp add: init_queues_def qdma_descq_init_def)

lemma device_init_idle:
  assumes "lb_dev lib = None"
  shows "idle (fst (snd (qdma_device_init E lib tr)))"
  using assms by (auto simp: qdma_device_init_def Let_def split_beta intro: idle_None idle_init)

lemma online_idle:
  assumes hndl: "xdev_check_hndl devs pdev (xd_addr (lb_xdev lib)) = 0" and "lb_dev lib = None"
  shows "\<exists>rv lib' tr'. qdma_device_online E mem devs pdev lib tr = Ok (rv, lib', tr') \<and> idle lib'
    \<and> ident (lb_xdev lib') = ident (lb_xdev lib)"
proof -
  obtain rv1 lib1 tr1 where init: "qdma_device_init E lib tr = (rv1, lib1, tr1)" by (metis prod_cases3)
  have lib1: "idle lib1" "ident (lb_xdev lib1) = ident (lb_xdev lib)"
    using device_init_idle [OF assms(2), of E tr] ident_device_init [of E lib tr] by (simp_all add: init)
  define x2 tr2 where defs: "x2 = xdev_flag_clear XDEV_FLAG_OFFLINE (lb_xdev lib1)" "tr2 = qdma_mbox_timer_init E PF tr1"
  obtain rv3 x3 tr3 where sriov: "xdev_sriov_enable E mem (unat (dc_vf_max (xd_conf x2))) x2 tr2 = (rv3, x3, tr3)"
    by (metis prod_cases3)
  have x2: "xd_qmax x2 = xd_qmax (lb_xdev lib1)" "ident x2 = ident (lb_xdev lib)"
    by (simp_all add: defs xdev_flag_clear_def flip: lib1(2)) (simp add: ident_def)
  have "xd_qmax x3 = xd_qmax x2"
    using sriov by (auto simp: xdev_sriov_enable_def xdev_sriov_disable_def Let_def split: if_splits)
  then have lib3: "idle (lib1\<lparr>lb_xdev := x3\<rparr>)" "ident x3 = ident (lb_xdev lib)"
    using lib1(1) x2 ident_sriov(2) [of E mem "unat (dc_vf_max (xd_conf x2))" x2 tr2] by (simp_all add: idle_xdev sriov)
  have lib2: "idle (lib1\<lparr>lb_xdev := x2\<rparr>)" using lib1(1) by (simp add: idle_xdev x2)
  have clean: "\<exists>lib' tr'. online_cleanup E rv lib tr = Ok (rv, lib', tr') \<and> idle lib' \<and> ident (lb_xdev lib') = ident (lb_xdev lib)"
    if "idle lib" for rv lib tr
    using cleanup_idle [OF that, of E tr] idle_None by (auto simp: online_cleanup_def)
  have run: "qdma_device_online E mem devs pdev lib tr =
      (if rv1 < 0 then online_cleanup E rv1 lib1 tr1
       else if dc_vf_max (xd_conf x2) \<noteq> 0
         then if rv3 < 0 then online_cleanup E rv3 (lib1\<lparr>lb_xdev := x3\<rparr>) tr3 else Ok (0, lib1\<lparr>lb_xdev := x3\<rparr>, tr3)
       else Ok (0, lib1\<lparr>lb_xdev := x2\<rparr>, tr2))"
    unfolding qdma_device_online_def Let_def init prod.case defs [symmetric] sriov by (simp add: hndl)
  show ?thesis
    using clean [OF lib1(1), of rv1 tr1] clean [OF lib3(1), of rv3 tr3] lib1(2) lib2 lib3 x2(2) by (auto simp: run)
qed

lemma offline_idle:
  assumes "xdev_check_hndl devs pdev (xd_addr (lb_xdev lib)) = 0" "idle lib"
  shows "\<exists>lib' tr'. qdma_device_offline E devs pdev lib tr = Ok (lib', tr') \<and> ident (lb_xdev lib') = ident (lb_xdev lib)"
proof -
  let ?x1 = "xdev_flag_set XDEV_FLAG_OFFLINE (lb_xdev lib)"
  obtain x2 tr2 where dis: "xdev_sriov_disable ?x1 tr = (x2, tr2)" by fastforce
  have "xd_qmax x2 = xd_qmax (lb_xdev lib)"
    using dis by (auto simp: xdev_sriov_disable_def xdev_flag_set_def Let_def)
  moreover have "ident x2 = ident (lb_xdev lib)"
    using ident_sriov(1) [of ?x1 tr] by (simp add: dis ident_frame)
  ultimately have "\<exists>lib' tr'. qdma_device_cleanup E (lib\<lparr>lb_xdev := x2\<rparr>) tr2 = Ok (lib', tr')
      \<and> ident (lb_xdev lib') = ident (lb_xdev lib)"
    using cleanup_idle [of "lib\<lparr>lb_xdev := x2\<rparr>" E tr2] assms(2) by (auto simp: idle_xdev)
  then show ?thesis using assms(1) by (auto simp: qdma_device_offline_def dis)
qed

section \<open>The list of devices\<close>

text \<open>
  No two devices share a PCI device, an address or an index: the indices grow along the list.
\<close>

definition idents :: "qdma_host \<Rightarrow> (nat \<times> nat \<times> u8) list" where
  "idents h = map (\<lambda>l. ident (lb_xdev l)) (ho_devs h)"

definition host_ok :: "qdma_host \<Rightarrow> bool" where
  "host_ok h \<longleftrightarrow> distinct (map fst (idents h)) \<and> distinct (map (fst \<circ> snd) (idents h))
     \<and> sorted_wrt (<) (map (snd \<circ> snd) (idents h)) \<and> 0 \<notin> (fst \<circ> snd) ` set (idents h)"

lemma find_unique:
  assumes "x \<in> set xs" "P x" "\<And>y. y \<in> set xs \<Longrightarrow> P y \<Longrightarrow> y = x"
  shows "List.find P xs = Some x"
proof (cases "List.find P xs")
  case None
  then show ?thesis using assms(1,2) by (simp add: find_None_iff)
next
  case (Some y)
  then have "y \<in> set xs" "P y" by (auto simp: find_Some_iff)
  then show ?thesis using Some assms(3) by simp
qed

lemma idents_xdevs: "idents h = map ident (xdevs h)"
  by (simp add: idents_def xdevs_def)

lemma host_find:
  assumes "host_ok h" "x \<in> set (xdevs h)"
  shows "xdev_find_by_pdev (xdevs h) (dc_pdev (xd_conf x)) = Some x"
    "xdev_find_by_idx (xdevs h) (dc_idx (xd_conf x)) = Some x"
    "xdev_check_hndl (xdevs h) (dc_pdev (xd_conf x)) (xd_addr x) = 0"
proof -
  have inj: "inj_on (\<lambda>x. dc_pdev (xd_conf x)) (set (xdevs h))" "inj_on (\<lambda>x. dc_idx (xd_conf x)) (set (xdevs h))"
    using assms(1) strict_sorted_iff [of "map (snd \<circ> snd) (idents h)"]
    by (simp_all add: host_ok_def idents_xdevs distinct_map o_def ident_def)
  show p: "xdev_find_by_pdev (xdevs h) (dc_pdev (xd_conf x)) = Some x"
    using inj_onD [OF inj(1)] assms(2) by (auto simp: xdev_find_by_pdev_def intro!: find_unique)
  show "xdev_find_by_idx (xdevs h) (dc_idx (xd_conf x)) = Some x"
    using inj_onD [OF inj(2)] assms(2) by (auto simp: xdev_find_by_idx_def intro!: find_unique)
  have "dc_pdev (xd_conf x) \<noteq> 0"
    using assms by (auto simp: host_ok_def idents_xdevs ident_def image_iff)
  then show "xdev_check_hndl (xdevs h) (dc_pdev (xd_conf x)) (xd_addr x) = 0"
    by (simp add: xdev_check_hndl_def p)
qed

text \<open>The device being opened is the last of the list.\<close>

lemma put_host_last:
  assumes "xd_addr (lb_xdev lib) \<notin> set (map (xd_addr \<circ> lb_xdev) ds)" "ident (lb_xdev lib') = ident (lb_xdev lib)"
    and "ho_devs h = ds @ [lib]"
  shows "ho_devs (put_host lib' h) = ds @ [lib']"
  using assms by (auto simp: put_host_def ident_def image_iff intro!: map_idI)

lemma remove_last:
  "a \<notin> set (map (xd_addr \<circ> lb_xdev) ds) \<Longrightarrow> xd_addr (lb_xdev lib) = a \<Longrightarrow> xdev_list_remove a (ds @ [lib]) = ds"
  by (auto simp: xdev_list_remove_def filter_id_conv image_iff)

lemma check_last:
  assumes "host_ok h" "ho_devs h = ds @ [lib]"
  shows "xdev_check_hndl (xdevs h) (dc_pdev (xd_conf (lb_xdev lib))) (xd_addr (lb_xdev lib)) = 0"
  using host_find(3) [OF assms(1), of "lb_xdev lib"] assms(2) by (simp add: xdevs_def)

lemma host_ok_idents: "idents h' = idents h \<Longrightarrow> host_ok h' = host_ok h"
  by (simp add: host_ok_def)

lemma open_unmap_devs: "ho_devs (fst (open_unmap E regs a h tr)) = xdev_list_remove a (ho_devs h)"
  by (simp add: open_unmap_def Let_def)

lemma open_attached_devs:
  assumes h: "host_ok h" "ho_devs h = ds @ [lib]" and dev: "lb_dev lib = None"
    and addr: "xd_addr (lb_xdev lib) \<noteq> 0" "xd_addr (lb_xdev lib) \<notin> set (map (xd_addr \<circ> lb_xdev) ds)"
    and run: "open_attached E mem n conf lib h tr = Ok (rv, hndl, conf', h', tr')"
  shows "if hndl = 0 then ho_devs h' = ds
     else rv = 0 \<and> hndl = xd_addr (lb_xdev lib)
       \<and> (\<exists>lib'. ho_devs h' = ds @ [lib'] \<and> ident (lb_xdev lib') = ident (lb_xdev lib) \<and> idle lib')"
proof -
  let ?a = "xd_addr (lb_xdev lib)"
  obtain rv1 regs tr1 where bars: "xdev_map_bars E tr = (rv1, regs, tr1)" by (metis prod_cases3)
  have last: "ho_devs (put_host l g) = ds @ [l]" "host_ok (put_host l g)"
    if "ho_devs g = ds @ [k]" "ident (lb_xdev k) = ident (lb_xdev lib)" "ident (lb_xdev l) = ident (lb_xdev lib)" for l k g
  proof -
    have "xd_addr (lb_xdev k) \<notin> set (map (xd_addr \<circ> lb_xdev) ds)" using that(2) addr(2) by (simp add: ident_def)
    then show d: "ho_devs (put_host l g) = ds @ [l]" using that by (intro put_host_last) simp_all
    show "host_ok (put_host l g)" using h that(3) host_ok_idents [of "put_host l g" h] d by (simp add: idents_def)
  qed
  have unmap: "ho_devs (fst (open_unmap E regs ?a g t)) = ds"
    if "ho_devs g = ds @ [l]" "ident (lb_xdev l) = ident (lb_xdev lib)" for g t l
    using that addr(2) remove_last [of ?a ds l] by (simp add: open_unmap_devs ident_def)
  show ?thesis
  proof (cases "rv1 \<noteq> 0")
    case True
    then show ?thesis using run unmap [OF h(2) refl, of tr1] by (auto simp: open_attached_def bars split_beta)
  next
    case False
    then obtain x tr2 where att: "qdma_device_attributes_get E n (lb_xdev lib) tr1 = Some (x, tr2)"
      using run by (cases "qdma_device_attributes_get E n (lb_xdev lib) tr1") (auto simp: open_attached_def bars)
    note idx = ident_attributes [OF att]
    let ?lib = "lib\<lparr>lb_xdev := x\<rparr>"
    let ?g = "put_host ?lib h"
    have g: "ho_devs ?g = ds @ [?lib]" "host_ok ?g" using last [OF h(2) refl, of ?lib] idx by simp_all
    have chk: "xdev_check_hndl (xdevs ?g) (dc_pdev (xd_conf x)) (xd_addr x) = 0"
      using check_last [OF g(2,1)] by simp
    obtain rv3 lib3 tr3 where on: "qdma_device_online E mem (xdevs ?g) (dc_pdev (xd_conf x)) ?lib tr2 = Ok (rv3, lib3, tr3)"
      and on3: "idle lib3" "ident (lb_xdev lib3) = ident (lb_xdev lib)"
      using online_idle [of "xdevs ?g" "dc_pdev (xd_conf x)" ?lib E mem tr2] chk dev idx by auto
    let ?g3 = "put_host lib3 ?g"
    have g3: "ho_devs ?g3 = ds @ [lib3]" "host_ok ?g3" using last [OF g(1), of lib3] idx on3(2) by simp_all
    have id: "xd_addr x = ?a" "xd_addr (lb_xdev lib3) = xd_addr x" "dc_pdev (xd_conf (lb_xdev lib3)) = dc_pdev (xd_conf x)"
      using idx on3(2) by (simp_all add: ident_def)
    obtain lib4 tr4 where off: "qdma_device_offline E (xdevs ?g3) (dc_pdev (xd_conf x)) lib3 tr3 = Ok (lib4, tr4)"
      and off4: "ident (lb_xdev lib4) = ident (lb_xdev lib)"
      using offline_idle [of "xdevs ?g3" "dc_pdev (xd_conf x)" lib3 E tr3] check_last [OF g3(2,1)] on3 id by auto
    have g4: "ho_devs (put_host lib4 ?g3) = ds @ [lib4]" using last [OF g3(1), of lib4] on3(2) off4 by simp
    obtain h1 t1 where u1: "open_unmap E regs ?a ?g tr2 = (h1, t1)" by fastforce
    obtain h2 t2 where u2: "open_unmap E regs ?a (put_host lib4 ?g3) tr4 = (h2, t2)" by fastforce
    have "open_attached E mem n conf lib h tr =
      (if \<not> xd_mm_mode_en x \<and> \<not> xd_st_mode_en x
       then Ok (QDMA_ERR_INTERFACE_NOT_ENABLED_IN_DEVICE, 0, conf, h1, t1)
       else if rv3 < 0 then Ok (rv3, 0, xd_conf x, h2, t2)
       else Ok (QDMA_OPERATION_SUCCESSFUL, ?a, xd_conf x, ?g3, tr3))"
      using False by (simp add: open_attached_def bars att on off u1 u2 Let_def)
    moreover have "ho_devs h1 = ds" "ho_devs h2 = ds"
      using unmap [OF g(1), of tr2] unmap [OF g4, of tr4] idx off4 by (simp_all add: u1 u2)
    ultimately show ?thesis
      using run g3(1) on3 addr(1) by (auto simp: errno_defs split: if_splits)
  qed
qed

lemma idents_append: "ho_devs h' = ho_devs h @ [lib] \<Longrightarrow> idents h' = idents h @ [ident (lb_xdev lib)]"
  by (simp add: idents_def)

lemma unat_255: "unat (255 :: u8) = 255"
  by simp

lemma sorted_wrt_last: "sorted_wrt (<) (xs @ [y]) \<Longrightarrow> x \<in> set xs \<Longrightarrow> x < (y :: u8)"
  by (simp add: sorted_wrt_append)

lemma find_by_pdev_None: "xdev_find_by_pdev devs pdev = None \<longleftrightarrow> pdev \<notin> (\<lambda>x. dc_pdev (xd_conf x)) ` set devs"
  by (auto simp: xdev_find_by_pdev_def find_None_iff)

text \<open>The index given to the next device is above those in use, while there is one.\<close>

lemma list_add_ok:
  assumes ok: "host_ok h" and room: "ho_devs h = [] \<or> dc_idx (xd_conf (last (xdevs h))) \<noteq> 255"
    and new: "xd_addr (lb_xdev lib) \<notin> fst ` set (idents h)" "dc_pdev (xd_conf (lb_xdev lib)) \<noteq> 0"
      "xdev_find_by_pdev (xdevs h) (dc_pdev (xd_conf (lb_xdev lib))) = None"
  shows "\<exists>lib'. xdev_list_add lib (ho_devs h) = ho_devs h @ [lib'] \<and> lb_dev lib' = lb_dev lib
    \<and> xd_addr (lb_xdev lib') = xd_addr (lb_xdev lib)
    \<and> dc_pdev (xd_conf (lb_xdev lib')) = dc_pdev (xd_conf (lb_xdev lib))
    \<and> host_ok (h\<lparr>ho_devs := ho_devs h @ [lib']\<rparr>)"
proof -
  define idx where "idx = (if ho_devs h = [] then 0 else dc_idx (xd_conf (lb_xdev (last (ho_devs h)))) + 1)"
  define lib' where "lib' = lib\<lparr>lb_xdev := (lb_xdev lib)\<lparr>xd_conf := (xd_conf (lb_xdev lib))\<lparr>dc_idx := idx\<rparr>\<rparr>\<rparr>"
  have add: "xdev_list_add lib (ho_devs h) = ho_devs h @ [lib']"
    by (simp add: xdev_list_add_def idx_def lib'_def Let_def)
  have above: "i < idx" if i: "i \<in> set (map (snd \<circ> snd) (idents h))" for i
  proof -
    from i have "ho_devs h \<noteq> []" by (auto simp: idents_def)
    then obtain ds d where ds: "ho_devs h = ds @ [d]" by (metis rev_exhaust)
    let ?d = "dc_idx (xd_conf (lb_xdev d))"
    have sorted: "sorted_wrt (<) (map (\<lambda>l. dc_idx (xd_conf (lb_xdev l))) ds @ [?d])"
      using ok ds by (simp add: host_ok_def idents_def ident_def o_def)
    have "i \<le> ?d" using i sorted_wrt_last [OF sorted] ds by (auto simp: idents_def ident_def intro: less_imp_le)
    moreover have "?d \<noteq> 255" using room ds by (simp add: xdevs_def)
    then have "unat ?d \<noteq> 255" by (metis word_unat_eq_iff unat_255)
    then have "?d < ?d + 1"
      using unsigned_less [of ?d, where 'a = nat] by (simp add: word_less_nat_alt unat_word_ariths)
    ultimately show ?thesis using ds by (simp add: idx_def)
  qed
  have ids: "idents (h\<lparr>ho_devs := ho_devs h @ [lib']\<rparr>)
      = idents h @ [(xd_addr (lb_xdev lib), dc_pdev (xd_conf (lb_xdev lib)), idx)]"
    by (simp add: idents_def ident_def lib'_def)
  have "dc_pdev (xd_conf (lb_xdev lib)) \<notin> (fst \<circ> snd) ` set (idents h)"
    using new(3) by (auto simp: find_by_pdev_None idents_xdevs ident_def)
  then have "host_ok (h\<lparr>ho_devs := ho_devs h @ [lib']\<rparr>)"
    using ok above new(1,2) by (auto simp: host_ok_def ids sorted_wrt_append)
  then show ?thesis using add by (auto simp: lib'_def)
qed

lemma open_cases:
  assumes "qdma_device_open E mem n addr named conf h tr = Ok (rv, hndl, conf', h', tr')"
  shows "h' = h \<and> hndl = 0
    \<or> named \<and> dc_pdev conf \<noteq> 0 \<and> xdev_find_by_pdev (xdevs h) (dc_pdev conf) = None
      \<and> (\<exists>lib tr1. lb_dev lib = None \<and> xd_addr (lb_xdev lib) = addr \<and> dc_pdev (xd_conf (lb_xdev lib)) = dc_pdev conf
           \<and> open_attached E mem n (conf\<lparr>dc_bar_num_user := - 1\<rparr>) (last (xdev_list_add lib (ho_devs h)))
                (h\<lparr>ho_devs := xdev_list_add lib (ho_devs h)\<rparr>) tr1 = Ok (rv, hndl, conf', h', tr'))"
proof -
  define L where "L x = \<lparr>lb_xdev = xdev_flag_set XDEV_FLAG_OFFLINE x, lb_dev = None, lb_threads = ho_threads h,
      lb_intr_list = replicate XDEV_NUM_IRQ_MAX []\<rparr>" for x
  have a: "lb_dev (L x) = None \<and> xd_addr (lb_xdev (L x)) = addr \<and> dc_pdev (xd_conf (lb_xdev (L x))) = dc_pdev conf"
    if "fst (xdev_alloc E (conf\<lparr>dc_bar_num_user := - 1\<rparr>) addr t) = Some x" for x t
    using that by (auto simp: xdev_alloc_def Let_def L_def xdev_flag_set_def split: if_splits)
  show ?thesis
    using assms unfolding qdma_device_open_def Let_def split_beta L_def [symmetric]
    by (auto split: if_splits option.splits dest: a intro!: exI [where x = "L x" for x])
qed

lemma close_last:
  assumes "host_ok h" "ho_devs h = ds @ [lib]" "idle lib" "dc_pdev (xd_conf (lb_xdev lib)) = pdev"
    and "xd_addr (lb_xdev lib) \<notin> set (map (xd_addr \<circ> lb_xdev) ds)"
  shows "\<exists>h'' tr''. qdma_device_close E pdev lib h tr = Ok (h'', tr'') \<and> ho_devs h'' = ds"
proof -
  let ?lib = "lib\<lparr>lb_threads := ho_threads h\<rparr>"
  have chk: "xdev_check_hndl (xdevs h) pdev (xd_addr (lb_xdev lib)) = 0"
    using check_last [OF assms(1,2)] assms(4) by simp
  have "idle ?lib" using assms(3) by (simp add: idle_def get_lib_def)
  with chk obtain lib' tr' where off: "qdma_device_offline E (xdevs h) pdev ?lib tr = Ok (lib', tr')"
    "ident (lb_xdev lib') = ident (lb_xdev lib)"
    using offline_idle [of "xdevs h" pdev ?lib E tr] by auto
  have "xd_addr (lb_xdev lib') = xd_addr (lb_xdev lib)" using off(2) by (simp add: ident_def)
  then show ?thesis
    using put_host_last [OF assms(5) off(2) assms(2)] remove_last [OF assms(5), of lib'] chk
    by (simp add: qdma_device_close_def off(1) Let_def)
qed

text \<open>What opening does to the list: nothing, or a new device at its end, which has no queue resources in use.\<close>

lemma open_devs:
  assumes "host_ok h" "addr \<noteq> 0" "addr \<notin> fst ` set (idents h)"
    and "ho_devs h = [] \<or> dc_idx (xd_conf (last (xdevs h))) \<noteq> 255"
    and "qdma_device_open E mem n addr named conf h tr = Ok (rv, hndl, conf', h', tr')"
  shows "if hndl = 0 then ho_devs h' = ho_devs h
    else rv = 0 \<and> hndl = addr \<and> host_ok h' \<and> dc_pdev conf \<noteq> 0
      \<and> (\<exists>lib. ho_devs h' = ho_devs h @ [lib] \<and> idle lib \<and> xd_addr (lb_xdev lib) = addr
          \<and> dc_pdev (xd_conf (lb_xdev lib)) = dc_pdev conf \<and> addr \<notin> set (map (xd_addr \<circ> lb_xdev) (ho_devs h)))"
  using open_cases [OF assms(5)]
proof (elim disjE conjE exE)
  assume "h' = h" "hndl = 0"
  then show ?thesis by simp
next
  fix lib tr1
  assume named: "named" and pdev: "dc_pdev conf \<noteq> 0" "xdev_find_by_pdev (xdevs h) (dc_pdev conf) = None"
    and lib: "lb_dev lib = None" "xd_addr (lb_xdev lib) = addr" "dc_pdev (xd_conf (lb_xdev lib)) = dc_pdev conf"
    and att: "open_attached E mem n (conf\<lparr>dc_bar_num_user := - 1\<rparr>) (last (xdev_list_add lib (ho_devs h)))
      (h\<lparr>ho_devs := xdev_list_add lib (ho_devs h)\<rparr>) tr1 = Ok (rv, hndl, conf', h', tr')"
  have new: "xd_addr (lb_xdev lib) \<notin> fst ` set (idents h)" "dc_pdev (xd_conf (lb_xdev lib)) \<noteq> 0"
    "xdev_find_by_pdev (xdevs h) (dc_pdev (xd_conf (lb_xdev lib))) = None"
    using assms(3) lib pdev by simp_all
  from list_add_ok [OF assms(1,4) new] obtain lib1 where lib1: "xdev_list_add lib (ho_devs h) = ho_devs h @ [lib1]"
    "lb_dev lib1 = None" "xd_addr (lb_xdev lib1) = addr" "dc_pdev (xd_conf (lb_xdev lib1)) = dc_pdev conf"
    "host_ok (h\<lparr>ho_devs := ho_devs h @ [lib1]\<rparr>)"
    using lib by auto
  have fresh: "addr \<notin> set (map (xd_addr \<circ> lb_xdev) (ho_devs h))"
    using assms(3) by (simp add: idents_def ident_def image_image)
  let ?h1 = "h\<lparr>ho_devs := ho_devs h @ [lib1]\<rparr>"
  have att1: "open_attached E mem n (conf\<lparr>dc_bar_num_user := - 1\<rparr>) lib1 ?h1 tr1 = Ok (rv, hndl, conf', h', tr')"
    using att by (simp add: lib1(1))
  have devs1: "ho_devs ?h1 = ho_devs h @ [lib1]" by simp
  have out: "if hndl = 0 then ho_devs h' = ho_devs h
     else rv = 0 \<and> hndl = addr \<and> (\<exists>lib'. ho_devs h' = ho_devs h @ [lib'] \<and> ident (lb_xdev lib') = ident (lb_xdev lib1) \<and> idle lib')"
    using open_attached_devs [OF lib1(5) devs1 lib1(2) _ _ att1] fresh assms(2) unfolding lib1(3) by blast
  show ?thesis
  proof (cases "hndl = 0")
    case True
    then show ?thesis using out by simp
  next
    case False
    with out obtain lib2 where lib2: "rv = 0" "hndl = addr" "ho_devs h' = ho_devs h @ [lib2]"
      "ident (lb_xdev lib2) = ident (lb_xdev lib1)" "idle lib2"
      unfolding if_not_P [OF False] by blast
    have ok': "host_ok h'"
      using lib1(5) host_ok_idents [of h' ?h1] idents_append [OF lib2(3)] idents_append [of ?h1 h lib1] lib2(4) by simp
    have id: "xd_addr (lb_xdev lib2) = addr" "dc_pdev (xd_conf (lb_xdev lib2)) = dc_pdev conf"
      using lib2(4) lib1(3,4) by (simp_all add: ident_def)
    show ?thesis unfolding if_not_P [OF False] using lib2 ok' id fresh pdev(1) by blast
  qed
qed

text \<open>
  C9.  Opening either gives no handle and leaves the list of devices as it was, or gives the address
  of a new device at its end, which is found by its PCI device and by its index; opening the same PCI
  device again is then refused, and closing the handle never follows a bad pointer and gives back the list.
  The bound is that the last index is not the largest of its eight bits.
\<close>

theorem open_then_close:
  assumes "host_ok h" "addr \<noteq> 0" "addr \<notin> fst ` set (idents h)"
    and "ho_devs h = [] \<or> dc_idx (xd_conf (last (xdevs h))) \<noteq> 255"
    and "qdma_device_open E mem n addr named conf h tr = Ok (rv, hndl, conf', h', tr')"
  shows "if hndl = 0 then ho_devs h' = ho_devs h
    else rv = 0 \<and> hndl = addr \<and> host_ok h'
      \<and> (\<exists>lib. ho_devs h' = ho_devs h @ [lib] \<and> xd_addr (lb_xdev lib) = addr
          \<and> xdev_find_by_pdev (xdevs h') (dc_pdev conf) = Some (lb_xdev lib)
          \<and> xdev_find_by_idx (xdevs h') (dc_idx (xd_conf (lb_xdev lib))) = Some (lb_xdev lib)
          \<and> (\<forall>E mem n a tr. qdma_device_open E mem n a True conf h' tr
               = Ok (QDMA_ERR_PCI_DEVICE_ALREADY_ATTACHED, 0, conf\<lparr>dc_bar_num_user := - 1\<rparr>, h', tr))
          \<and> (\<forall>E tr. \<exists>h'' tr''. qdma_device_close E (dc_pdev conf) lib h' tr = Ok (h'', tr'')
               \<and> ho_devs h'' = ho_devs h))"
proof (cases "hndl = 0")
  case True
  then show ?thesis using open_devs [OF assms] by simp
next
  case False
  with open_devs [OF assms] obtain lib where ok: "rv = 0" "hndl = addr" "host_ok h'" "dc_pdev conf \<noteq> 0"
    and lib: "ho_devs h' = ho_devs h @ [lib]" "idle lib" "xd_addr (lb_xdev lib) = addr"
      "dc_pdev (xd_conf (lb_xdev lib)) = dc_pdev conf" "addr \<notin> set (map (xd_addr \<circ> lb_xdev) (ho_devs h))"
    unfolding if_not_P [OF False] by blast
  have found: "xdev_find_by_pdev (xdevs h') (dc_pdev conf) = Some (lb_xdev lib)"
    "xdev_find_by_idx (xdevs h') (dc_idx (xd_conf (lb_xdev lib))) = Some (lb_xdev lib)"
    using host_find(1,2) [OF ok(3), of "lb_xdev lib"] lib(1,4) by (simp_all add: xdevs_def)
  have again: "qdma_device_open E mem n a True conf h' tr
      = Ok (QDMA_ERR_PCI_DEVICE_ALREADY_ATTACHED, 0, conf\<lparr>dc_bar_num_user := - 1\<rparr>, h', tr)" for E mem n a tr
    using ok(4) found(1) by (simp add: qdma_device_open_def Let_def)
  have "\<exists>h'' tr''. qdma_device_close E (dc_pdev conf) lib h' tr = Ok (h'', tr'') \<and> ho_devs h'' = ho_devs h" for E tr
    by (rule close_last [OF ok(3) lib(1,2,4)]) (use lib(3,5) in simp)
  then show ?thesis unfolding if_not_P [OF False] using ok lib found again by blast
qed

text \<open>A device whose first function has all its modes and four queues.\<close>

definition sample_open_env :: env where
  "sample_open_env = plain_env\<lparr>env_readl := (\<lambda>tr r. if r = 0 then 0x1FD30000 else if r = 0x104 then 1
     else if r = 0x120 then 4 else if r = 0x118 then 0x30101 else 0)\<rparr>"

definition sample_open_conf :: qdma_dev_conf where
  "sample_open_conf = (xd_conf sample_dev)\<lparr>dc_pdev := 7, dc_poll_mode := True, dc_master_pf := False, dc_vf_max := 0\<rparr>"

definition empty_host :: qdma_host where
  "empty_host = \<lparr>ho_devs = [], ho_threads = \<lparr>th_wrk = [], th_wb = []\<rparr>\<rparr>"

lemma sample_open_simps [simp]:
  "read_reg sample_open_env r tr = (let v = if r = 0 then 0x1FD30000 else if r = 0x104 then 1
     else if r = 0x120 then 4 else if r = 0x118 then 0x30101 else 0 in (v, ReadReg r v # tr))"
  "pci_do sample_open_env c tr = (let v = case c of PciIomap n \<Rightarrow> 1 | _ \<Rightarrow> 0 in (v, PciCall c v # tr))"
  "env_kalloc sample_open_env tr k" "env_bar_len sample_open_env tr = 0x40000"
  by (simp_all add: sample_open_env_def read_reg_def pci_do_def)

lemma sample_open:
  "\<exists>conf' h' tr'. qdma_device_open sample_open_env (\<lambda>_. undefined) 0 0x1000 True sample_open_conf empty_host []
     = Ok (0, 0x1000, conf', h', tr')"
  by (simp add: qdma_device_open_def Let_def pci_dma_mask_set_def xdev_alloc_def empty_host_def xdevs_def
      xdev_find_by_pdev_def xdev_list_add_def open_attached_def xdev_map_bars_def QDMA_MAX_BAR_LEN_MAPPED_def
      qdma_device_attributes_get_def qdma_device_num_pfs_get_def reg_defs put_host_def xdev_check_hndl_def
      qdma_device_online_def qdma_device_init_def device_identify_def intr_setup_def xdev_flag_clear_def
      xdev_flag_set_def sample_open_conf_def sample_dev_def errno_defs split_beta)

theorem open_then_close_witness:
  "\<exists>conf' h' tr' lib h'' tr''. qdma_device_open sample_open_env (\<lambda>_. undefined) 0 0x1000 True sample_open_conf empty_host []
       = Ok (0, 0x1000, conf', h', tr')
     \<and> ho_devs h' = [lib] \<and> xdev_find_by_pdev (xdevs h') 7 = Some (lb_xdev lib)
     \<and> qdma_device_close sample_open_env 7 lib h' tr' = Ok (h'', tr'') \<and> ho_devs h'' = []"
proof -
  obtain conf' h' tr' where run: "qdma_device_open sample_open_env (\<lambda>_. undefined) 0 0x1000 True sample_open_conf empty_host []
      = Ok (0, 0x1000, conf', h', tr')"
    using sample_open by blast
  have "host_ok empty_host" "0x1000 \<notin> fst ` set (idents empty_host)" "ho_devs empty_host = []"
    by (simp_all add: host_ok_def idents_def empty_host_def)
  with open_then_close [OF _ _ _ _ run] obtain lib where "ho_devs h' = [lib]"
    "xdev_find_by_pdev (xdevs h') (dc_pdev sample_open_conf) = Some (lb_xdev lib)"
    "\<exists>h'' tr''. qdma_device_close sample_open_env (dc_pdev sample_open_conf) lib h' tr' = Ok (h'', tr'') \<and> ho_devs h'' = []"
    by auto
  moreover have "dc_pdev sample_open_conf = 7" by (simp add: sample_open_conf_def)
  ultimately show ?thesis using run by auto
qed

section \<open>Where opening goes wrong\<close>

text \<open>Without memory for the structure the call returns 0, and no handle.\<close>

lemma open_out_of_memory:
  assumes "dc_pdev conf \<noteq> 0" "xdev_find_by_pdev (xdevs h) (dc_pdev conf) = None"
    and "\<And>c tr. env_pci E tr c = 0" "\<And>tr n. \<not> env_kalloc E tr n"
  shows "\<exists>conf' tr'. qdma_device_open E mem n addr True conf h tr = Ok (0, 0, conf', h, tr')"
  using assms by (simp add: qdma_device_open_def pci_do_def pci_dma_mask_set_def xdev_alloc_def Let_def)

text \<open>After the largest index comes 0 again, which may be in use.\<close>

lemma index_wraps:
  assumes "ho_devs h \<noteq> []" "dc_idx (xd_conf (lb_xdev (last (ho_devs h)))) = 255"
  shows "dc_idx (xd_conf (lb_xdev (last (xdev_list_add lib (ho_devs h))))) = 0"
  using assms by (simp add: xdev_list_add_def Let_def)

end
