(* ===== verification/Qdma_Nl_Dump.thy ===== *)
theory Qdma_Nl_Dump
  imports Qdma_Nl Qdma_Dump Qdma_Open
begin

unbundle bit_operations_syntax

text \<open>
  The commands that only ask (\<open>drv/nl.c\<close>): the devices, a device, its queues, a queue's state, descriptors and completion
  entries, an interrupt ring.  The text of an answer is the list of its lines as in \<open>Qdma_Dump\<close>.
\<close>

section \<open>Answers with a text\<close>

datatype nl_text =
    TLine dump_line
  | TDev u32 u16 u32
  | TDumped u32 u32
  | TVector u32
  | TIntr int intr_ring_entry

text \<open>An answer that is sent is the text in the buffer.\<close>

definition respond_text ::
  "nl_env \<Rightarrow> nl_text list \<Rightarrow> nl_event list \<Rightarrow> int \<times> nl_text list option \<times> nl_event list" where
  "respond_text N text log =
     (let (rv, log) = xnl_respond_buffer N True log in (rv, if rv = 0 then Some text else None, log))"

section \<open>Queues\<close>

text \<open>
  The loop that the three dumping commands have: each queue's text is written to the beginning of the buffer, over the one
  before.  \<open>D\<close> is the call of the library.  The first result is whether the loop came to its end.
\<close>

fun dump_targets ::
  "nl_env \<Rightarrow> (qdma_lib \<Rightarrow> nat \<Rightarrow> trace \<Rightarrow> (int \<times> dump_line list \<times> trace) outcome) \<Rightarrow> qdma_queue_conf \<Rightarrow> (nat \<times> bool) list
     \<Rightarrow> nl_text list \<Rightarrow> xlnx_pci_dev \<Rightarrow> nl_event list \<Rightarrow> (bool \<times> nl_text list \<times> xlnx_pci_dev \<times> nl_event list) outcome" where
  "dump_targets N D qconf [] text xpdev log = Ok (True, text, xpdev, log)"
| "dump_targets N D qconf ((i, c2h) # ts) text xpdev log =
     (let qconf = qconf\<lparr>qc_c2h := c2h, qc_qidx := of_nat i\<rparr>
      in (case xnl_rcv_check_qidx N xpdev qconf log of Bad \<Rightarrow> Bad
          | Ok (None, log) \<Rightarrow> Ok (False, text, xpdev, log)
          | Ok (Some k, log) \<Rightarrow>
              (case D (xp_lib xpdev) (xq_qhndl (xp_qdata xpdev ! k)) (xp_trace xpdev) of Bad \<Rightarrow> Bad
               | Ok (rv, lines, tr) \<Rightarrow>
                   let text = map TLine lines; xpdev = xpdev\<lparr>xp_trace := tr\<rparr>
                   in if rv < 0 then Ok (False, text, xpdev, log) else dump_targets N D qconf ts text xpdev log)))"

text \<open>The queues: here \<open>num_q\<close> and the sum have 32 bits.\<close>

definition dump_q_range :: "qdma_queue_conf \<Rightarrow> u32 \<Rightarrow> nat list" where
  "dump_q_range qconf num_q = [unat (qc_qidx qconf)..<unat (ucast (qc_qidx qconf) + num_q :: u32)]"

text \<open>
  A dumping handler from the check of the device on.  \<open>again\<close>: without memory another answer is tried.  A
  buffer of length 0 is an address that cannot be read.  Without \<open>XNL_ATTR_NUM_Q\<close> the buffer is not freed.
\<close>

definition dump_handler ::
  "nl_env \<Rightarrow> bool \<Rightarrow> (qdma_lib \<Rightarrow> nat \<Rightarrow> trace \<Rightarrow> (int \<times> dump_line list \<times> trace) outcome) \<Rightarrow> nl_attrs \<Rightarrow> xpdevs \<Rightarrow> nl_event list
     \<Rightarrow> (int \<times> nl_text list option \<times> xpdevs \<times> nl_event list) outcome" where
  "dump_handler N again D attrs xs log =
     (case xnl_rcv_check_xpdev N attrs xs log of (None, log) \<Rightarrow> Ok (0, None, xs, log)
      | (Some (idx, xpdev), log) \<Rightarrow>
          (case qconf_or_respond N attrs log of (Inl rv, log) \<Rightarrow> Ok (rv, None, xs, log)
           | (Inr (qconf, is_qp), log) \<Rightarrow>
               let (buf, log) = xnl_mem_alloc N log
               in if \<not> buf then Ok (- ENOMEM, None, xs, if again then snd (xnl_respond_buffer N True log) else log)
               else
                 (case attrs XNL_ATTR_NUM_Q of None \<Rightarrow> Ok (- 1, None, xs, log)
                  | Some num_q \<Rightarrow>
                      if attrs XNL_ATTR_RSP_BUF_LEN = Some 0 then Bad
                      else
                        (case dump_targets N D qconf (q_targets (dump_q_range qconf num_q) (qc_c2h qconf) is_qp)
                                [] xpdev log of Bad \<Rightarrow> Bad
                         | Ok (all, text, xpdev, log) \<Rightarrow>
                             let first = ucast (qc_qidx qconf);
                                 text = (if all then text @ [TDumped first (max first (first + num_q) - 1)] else text);
                                 (rv, answer, log) = respond_text N text log
                             in Ok (rv, answer, AList.update idx xpdev xs, log @ [BufFree])))))"

definition xnl_q_dump ::
  "nl_env \<Rightarrow> env \<Rightarrow> nl_attrs \<Rightarrow> xpdevs \<Rightarrow> nl_event list \<Rightarrow> (int \<times> nl_text list option \<times> xpdevs \<times> nl_event list) outcome" where
  "xnl_q_dump N E attrs xs log = dump_handler N False (\<lambda>lib qid tr. Ok (qdma_queue_dump E lib qid tr)) attrs xs log"

text \<open>The range is read from the request before anything is checked.\<close>

definition ranged ::
  "(qdma_lib \<Rightarrow> nat \<Rightarrow> u32 \<Rightarrow> u32 \<Rightarrow> (int \<times> dump_line list) outcome) \<Rightarrow> u32 \<Rightarrow> u32 \<Rightarrow> qdma_lib \<Rightarrow> nat \<Rightarrow> trace
     \<Rightarrow> (int \<times> dump_line list \<times> trace) outcome" where
  "ranged D v1 v2 lib qid tr = (case D lib qid v1 v2 of Bad \<Rightarrow> Bad | Ok (rv, lines) \<Rightarrow> Ok (rv, lines, tr))"

definition xnl_q_dump_desc ::
  "nl_env \<Rightarrow> nl_attrs \<Rightarrow> xpdevs \<Rightarrow> nl_event list \<Rightarrow> (int \<times> nl_text list option \<times> xpdevs \<times> nl_event list) outcome" where
  "xnl_q_dump_desc N attrs xs log =
     (case (attrs XNL_ATTR_RANGE_START, attrs XNL_ATTR_RANGE_END) of
        (Some v1, Some v2) \<Rightarrow> dump_handler N True (ranged qdma_queue_dump_desc v1 v2) attrs xs log
      | _ \<Rightarrow> Bad)"

definition xnl_q_dump_wrb ::
  "nl_env \<Rightarrow> nl_attrs \<Rightarrow> xpdevs \<Rightarrow> nl_event list \<Rightarrow> (int \<times> nl_text list option \<times> xpdevs \<times> nl_event list) outcome" where
  "xnl_q_dump_wrb N attrs xs log =
     (case (attrs XNL_ATTR_RANGE_START, attrs XNL_ATTR_RANGE_END) of
        (Some v1, Some v2) \<Rightarrow> dump_handler N True (ranged qdma_queue_dump_wrb v1 v2) attrs xs log
      | _ \<Rightarrow> Bad)"

definition xnl_q_list ::
  "nl_env \<Rightarrow> nl_attrs \<Rightarrow> xpdevs \<Rightarrow> nl_event list \<Rightarrow> int \<times> nl_text list option \<times> nl_event list" where
  "xnl_q_list N attrs xs log =
     (case xnl_rcv_check_xpdev N attrs xs log of (None, log) \<Rightarrow> (- EINVAL, None, log)
      | (Some (idx, xpdev), log) \<Rightarrow>
          let (buf, log) = xnl_mem_alloc N log
          in if \<not> buf then (- ENOMEM, None, log)
          else
            let (rv, lines) = qdma_queue_list (xp_lib xpdev)
            in if rv < 0 then (rv, None, log @ [BufFree])
            else
              let (rv, answer, log) = respond_text N (map TLine lines) log in (rv, answer, log @ [BufFree]))"

definition xnl_q_read_pkt :: int where "xnl_q_read_pkt = - EINVAL"

section \<open>Interrupt rings\<close>

text \<open>
  \<open>xnl_intr_ring_dump\<close>: the vectors for errors and for the user have no ring; which they are depends on whether
  the device has index 0.
\<close>

definition no_ring_vector :: "u32 \<Rightarrow> u32 \<Rightarrow> bool" where
  "no_ring_vector idx vector_idx \<longleftrightarrow> vector_idx = 0 \<or> idx = 0 \<and> vector_idx = 1"

definition xnl_intr_ring_dump ::
  "nl_env \<Rightarrow> nl_attrs \<Rightarrow> xpdevs \<Rightarrow> nl_event list \<Rightarrow> (int \<times> nl_text list option \<times> nl_event list) outcome" where
  "xnl_intr_ring_dump N attrs xs log =
     (case xnl_rcv_check_xpdev N attrs xs log of (None, log) \<Rightarrow> Ok (0, None, log)
      | (Some (idx, xpdev), log) \<Rightarrow>
          (case attrs XNL_ATTR_INTR_VECTOR_IDX of None \<Rightarrow> Ok (- 1, None, log)
           | Some vector_idx \<Rightarrow>
               (case (attrs XNL_ATTR_INTR_VECTOR_START_IDX, attrs XNL_ATTR_INTR_VECTOR_END_IDX) of
                  (Some start_idx, Some end_idx) \<Rightarrow>
                    let (buf, log) = xnl_mem_alloc N log
                    in if \<not> buf then Ok (- ENOMEM, None, log)
                    else if attrs XNL_ATTR_RSP_BUF_LEN = Some 0 then Bad
                    else
                      (case (if no_ring_vector idx vector_idx then Ok [TVector vector_idx]
                             else (case qdma_intr_ring_dump (lb_xdev (xp_lib xpdev)) vector_idx (sint start_idx) (sint end_idx) of
                                     Bad \<Rightarrow> Bad | Ok (rv, es) \<Rightarrow> Ok (map (\<lambda>(i, e). TIntr i e) es))) of
                         Bad \<Rightarrow> Bad
                       | Ok text \<Rightarrow>
                           let (rv, answer, log) = respond_text N text log in Ok (rv, answer, log @ [BufFree]))
                | _ \<Rightarrow> Bad)))"

section \<open>Devices\<close>

text \<open>
  \<open>xpdev_list_dump\<close>: the list ends at a device whose configuration cannot be read; the message about it is given a
  negative size and not written.
\<close>

fun xpdev_list_dump :: "xdev_list \<Rightarrow> xpdevs \<Rightarrow> nl_text list" where
  "xpdev_list_dump devs [] = []"
| "xpdev_list_dump devs ((idx, xpdev) # xs) =
     (case qdma_device_get_config devs (lb_xdev (xp_lib xpdev)) of Inl rv \<Rightarrow> []
      | Inr conf \<Rightarrow> TDev idx (dc_qsets_max conf) (dc_qsets_base conf) # xpdev_list_dump devs xs)"

definition xnl_dev_list ::
  "nl_env \<Rightarrow> xdev_list \<Rightarrow> xpdevs \<Rightarrow> nl_event list \<Rightarrow> int \<times> nl_text list option \<times> nl_event list" where
  "xnl_dev_list N devs xs log =
     (let (buf, log) = xnl_mem_alloc N log
      in if \<not> buf then (- ENOMEM, None, log)
      else let (rv, answer, log) = respond_text N (xpdev_list_dump devs xs) log in (rv, answer, log @ [BufFree]))"

text \<open>
  \<open>xnl_dev_info\<close>: the attributes of the answer; \<open>bus\<close> and \<open>devfn\<close> are the device's place on the PCI bus, \<open>room\<close> says
  how many attributes the message has room for.  \<open>bar_num_config\<close> is \<open>QDMA_CONFIG_BAR\<close> for every open device.
\<close>

definition QDMA_CONFIG_BAR :: u32 where "QDMA_CONFIG_BAR = 0"

definition xnl_dev_info ::
  "nl_env \<Rightarrow> nat \<Rightarrow> xdev_list \<Rightarrow> u32 \<Rightarrow> u32 \<Rightarrow> nl_attrs \<Rightarrow> xpdevs \<Rightarrow> nl_event list
     \<Rightarrow> int \<times> (nat \<times> nl_val) list option \<times> nl_event list" where
  "xnl_dev_info N room devs bus devfn attrs xs log =
     (case xnl_rcv_check_xpdev N attrs xs log of (None, log) \<Rightarrow> (- EINVAL, None, log)
      | (Some (idx, xpdev), log) \<Rightarrow>
          (case qdma_device_get_config devs (lb_xdev (xp_lib xpdev)) of Inl rv \<Rightarrow> (rv, None, log)
           | Inr conf \<Rightarrow>
               let (ok, log) = xnl_msg_alloc N log;
                   msg = [(XNL_ATTR_PCI_BUS, NlU32 bus), (XNL_ATTR_PCI_DEV, NlU32 (drop_bit 3 devfn AND 0x1F)),
                          (XNL_ATTR_PCI_FUNC, NlU32 (devfn AND 7)), (XNL_ATTR_DEV_CFG_BAR, NlU32 QDMA_CONFIG_BAR),
                          (XNL_ATTR_DEV_USR_BAR, NlU32 (word_of_int (dc_bar_num_user conf))),
                          (XNL_ATTR_DEV_QSET_MAX, NlU32 (ucast (dc_qsets_max conf)))]
               in if \<not> ok then (- ENOMEM, None, log)
               else if room < length msg then (- EINVAL, None, log)
               else (0, Some msg, log @ [Answer True])))"

section \<open>Dumping changes nothing\<close>

text \<open>What buffers are taken and given back, and the tables without the devices' traces.\<close>

definition buffers :: "nl_event list \<Rightarrow> nl_event list" where
  "buffers log = filter (\<lambda>e. e = BufNew \<or> e = BufFree) log"

lemma buffers_simps [simp]:
  "buffers [] = []" "buffers (log @ log') = buffers log @ buffers log'" "buffers (SkbNew # log) = buffers log"
  "buffers (SkbFree # log) = buffers log" "buffers (Answer w # log) = buffers log" "buffers (BufNew # log) = BufNew # buffers log"
  "buffers (BufFree # log) = BufFree # buffers log"
  by (simp_all add: buffers_def)

definition tables :: "xpdevs \<Rightarrow> xpdevs" where
  "tables xs = map (\<lambda>(i, x). (i, x\<lparr>xp_trace := []\<rparr>)) xs"

lemma respond_buffers [simp]: "buffers (snd (xnl_respond_buffer N w log)) = buffers log"
  by (simp add: xnl_respond_buffer_def xnl_msg_alloc_def)

lemma respond_text_buffers:
  "respond_text N buf log = (rv, answer, log') \<Longrightarrow> buffers log' = buffers log \<and> answer = (if rv = 0 then Some buf else None)"
  by (auto simp: respond_text_def split_beta)

lemma check_xpdev_buffers:
  "xnl_rcv_check_xpdev N attrs xs log = (r, log') \<Longrightarrow> buffers log' = buffers log \<and> (\<forall>i x. r = Some (i, x) \<longrightarrow> map_of xs i = Some x)"
  by (auto simp: xnl_rcv_check_xpdev_def xpdev_find_by_idx_def split: option.splits)

lemma qconf_or_respond_buffers:
  "qconf_or_respond N attrs log = (r, log') \<Longrightarrow> buffers log' = buffers log \<and> (\<forall>c. r = Inr c \<longrightarrow> qconf_get attrs = Inr c)"
  by (auto simp: qconf_or_respond_def split: sum.splits)

lemma mem_alloc_buffers:
  "xnl_mem_alloc N log = (ok, log') \<Longrightarrow> buffers log' = buffers log @ (if ok then [BufNew] else [])"
  by (auto simp: xnl_mem_alloc_def split: if_splits)

lemma check_qidx_buffers:
  "xnl_rcv_check_qidx N xp qconf log = Ok (r, log') \<Longrightarrow> buffers log' = buffers log
    \<and> xpdev_queue_get xp (ucast (qc_qidx qconf)) (qc_c2h qconf) True = Ok r"
  by (auto simp: xnl_rcv_check_qidx_def split: outcome.splits option.splits)

lemma tables_update:
  "map_of xs idx = Some x \<Longrightarrow> tables (AList.update idx (x\<lparr>xp_trace := tr\<rparr>) xs) = tables xs"
  by (induction xs) (auto simp: tables_def split: if_splits)

text \<open>The entry that a target names.\<close>

definition named :: "xlnx_pci_dev \<Rightarrow> nat \<times> bool \<Rightarrow> nat option outcome" where
  "named xp t = xpdev_queue_get xp (ucast (of_nat (fst t) :: u16)) (snd t) True"

lemma named_trace [simp]: "named (xp\<lparr>xp_trace := tr\<rparr>) t = named xp t"
  by (simp add: named_def xpdev_queue_get_def)

lemma dump_targets_frame:
  assumes "dump_targets N D qconf ts buf xp log = Ok (all, buf', xp', log')"
  shows "(\<exists>tr. xp' = xp\<lparr>xp_trace := tr\<rparr>) \<and> buffers log' = buffers log
    \<and> (all \<longrightarrow> (\<forall>t \<in> set ts. \<exists>k. named xp t = Ok (Some k))
      \<and> (if ts = [] then buf' = buf
         else \<exists>k tr rv lines tr'. named xp (last ts) = Ok (Some k) \<and> 0 \<le> rv \<and> buf' = map TLine lines
           \<and> D (xp_lib xp) (xq_qhndl (xp_qdata xp ! k)) tr = Ok (rv, lines, tr')))
    \<and> (\<forall>l \<in> set buf'. l \<in> set buf \<or> (\<exists>d. l = TLine d))"
  using assms
proof (induction ts arbitrary: qconf buf xp log)
  case Nil
  then show ?case by (auto intro: exI [of _ "xp_trace xp'"])
next
  case (Cons t ts)
  obtain i c2h where t: "t = (i, c2h)" by (cases t)
  let ?conf = "qconf\<lparr>qc_c2h := c2h, qc_qidx := of_nat i\<rparr>"
  obtain r log1 where check: "xnl_rcv_check_qidx N xp ?conf log = Ok (r, log1)"
    using Cons.prems by (cases "xnl_rcv_check_qidx N xp ?conf log") (auto simp: t Let_def)
  have b: "buffers log1 = buffers log" "named xp t = Ok r"
    using check_qidx_buffers [OF check] by (simp_all add: t named_def)
  show ?case
  proof (cases r)
    case None
    then show ?thesis using Cons.prems check b by (auto simp: t Let_def intro: exI [of _ "xp_trace xp"])
  next
    case (Some k)
    obtain rv lines tr where D: "D (xp_lib xp) (xq_qhndl (xp_qdata xp ! k)) (xp_trace xp) = Ok (rv, lines, tr)"
      using Cons.prems check Some
      by (cases "D (xp_lib xp) (xq_qhndl (xp_qdata xp ! k)) (xp_trace xp)") (auto simp: t Let_def)
    show ?thesis
    proof (cases "rv < 0")
      case True
      then show ?thesis using Cons.prems check b D Some by (auto simp: t Let_def)
    next
      case False
      then have rest: "dump_targets N D ?conf ts (map TLine lines) (xp\<lparr>xp_trace := tr\<rparr>) log1 = Ok (all, buf', xp', log')"
        using Cons.prems check D Some by (simp add: t Let_def)
      note IH = Cons.IH [OF rest, simplified]
      show ?thesis
      proof (cases "ts = []")
        case True
        have shown: "\<exists>k' tr0 rv' lines' tr'. named xp t = Ok (Some k') \<and> 0 \<le> rv' \<and> map TLine lines = map TLine lines'
            \<and> D (xp_lib xp) (xq_qhndl (xp_qdata xp ! k')) tr0 = Ok (rv', lines', tr')"
          using b Some D \<open>\<not> rv < 0\<close>
          by (intro exI [of _ k] exI [of _ "xp_trace xp"] exI [of _ rv] exI [of _ lines] exI [of _ tr]) simp
        show ?thesis using True rest b Some shown by auto
      next
        case False
        then show ?thesis using IH b Some by auto
      qed
    qed
  qed
qed

lemma dump_handler_clean:
  assumes "dump_handler N again D attrs xs log = Ok (rv, answer, xs', log')"
  shows "tables xs' = tables xs
    \<and> (case answer of
         None \<Rightarrow> buffers log' \<in> {buffers log, buffers log @ [BufNew, BufFree]}
           \<or> attrs XNL_ATTR_NUM_Q = None \<and> buffers log' = buffers log @ [BufNew]
       | Some buf \<Rightarrow> rv = 0 \<and> buffers log' = buffers log @ [BufNew, BufFree]
           \<and> (\<forall>a b. TDumped a b \<in> set buf \<longrightarrow> (\<exists>idx xp conf qp n. map_of xs idx = Some xp
               \<and> qconf_get attrs = Inr (conf, qp) \<and> attrs XNL_ATTR_NUM_Q = Some n \<and> a = ucast (qc_qidx conf)
               \<and> (\<forall>t \<in> set (q_targets (dump_q_range conf n) (qc_c2h conf) qp). \<exists>k. named xp t = Ok (Some k)))))"
proof -
  obtain r log1 where dev: "xnl_rcv_check_xpdev N attrs xs log = (r, log1)" by fastforce
  note B1 = check_xpdev_buffers [OF dev]
  show ?thesis
  proof (cases r)
    case None
    then show ?thesis using assms dev B1 by (auto simp: dump_handler_def)
  next
    case (Some ix)
    then obtain idx xp where r: "r = Some (idx, xp)" by (cases ix) auto
    obtain c log2 where conf: "qconf_or_respond N attrs log1 = (c, log2)" by fastforce
    note B2 = qconf_or_respond_buffers [OF conf]
    obtain ok log3 where mem: "xnl_mem_alloc N log2 = (ok, log3)" by fastforce
    note B3 = mem_alloc_buffers [OF mem]
    show ?thesis
    proof (cases "\<exists>rv. c = Inl rv \<or> \<not> ok \<or> attrs XNL_ATTR_NUM_Q = None")
      case True
      then show ?thesis
        using assms dev r conf mem B1 B2 B3
        by (auto simp: dump_handler_def Let_def split: sum.splits if_splits)
    next
      case False
      then obtain qconf is_qp num_q where c: "c = Inr (qconf, is_qp)" and ok: ok and num: "attrs XNL_ATTR_NUM_Q = Some num_q"
        by (cases c) auto
      let ?ts = "q_targets (dump_q_range qconf num_q) (qc_c2h qconf) is_qp"
      have "attrs XNL_ATTR_RSP_BUF_LEN \<noteq> Some 0" using assms dev r conf mem c ok num by (auto simp: dump_handler_def Let_def)
      moreover from this obtain all buf xp' log4 where run: "dump_targets N D qconf ?ts [] xp log3 = Ok (all, buf, xp', log4)"
        using assms dev r conf mem c ok num
        by (cases "dump_targets N D qconf ?ts [] xp log3") (auto simp: dump_handler_def Let_def)
      ultimately obtain buf' log5 where answer: "respond_text N buf' log4 = (rv, answer, log5)" "log' = log5 @ [BufFree]"
          "xs' = AList.update idx xp' xs" "\<forall>a b. TDumped a b \<in> set buf' \<longrightarrow> all \<and> a = ucast (qc_qidx qconf) \<or> TDumped a b \<in> set buf"
        using assms dev r conf mem c ok num
        by (cases all) (auto simp: dump_handler_def Let_def split_beta prod_eq_iff)
      note F = dump_targets_frame [OF run]
      have "tables xs' = tables xs" using F B1 r answer(3) tables_update by auto
      moreover have "buffers log' = buffers log @ [BufNew, BufFree]" "answer = (if rv = 0 then Some buf' else None)"
        using respond_text_buffers [OF answer(1)] answer(2) F B1 B2 B3 ok by simp_all
      moreover have "\<exists>idx xp conf qp n. map_of xs idx = Some xp
               \<and> qconf_get attrs = Inr (conf, qp) \<and> attrs XNL_ATTR_NUM_Q = Some n \<and> a = ucast (qc_qidx conf)
               \<and> (\<forall>t \<in> set (q_targets (dump_q_range conf n) (qc_c2h conf) qp). \<exists>k. named xp t = Ok (Some k))"
        if "TDumped a b \<in> set buf'" for a b
      proof -
        have "TDumped a b \<notin> set buf" using F by auto
        then have "all" "a = ucast (qc_qidx qconf)" using answer(4) that by blast+
        then show ?thesis
          using F B1 B2 r c num
          by (intro exI [of _ idx] exI [of _ xp] exI [of _ qconf] exI [of _ is_qp] exI [of _ num_q]) simp
      qed
      ultimately show ?thesis by auto
    qed
  qed
qed

text \<open>
  C37.  The three commands that dump queues leave every device's table as it was and touch only the registers' trace; a buffer that is
  taken is given back, once, unless the number of queues is missing from the request; an answer is only sent with success, and one that
  says that all queues were dumped starts at the queue asked for, and each queue in each direction asked for is in the
  table.
\<close>

theorem dump_commands_clean:
  assumes "Ok (rv, answer, xs', log') \<in> {xnl_q_dump N E attrs xs log, xnl_q_dump_desc N attrs xs log, xnl_q_dump_wrb N attrs xs log}"
  shows "tables xs' = tables xs
    \<and> (case answer of
         None \<Rightarrow> buffers log' \<in> {buffers log, buffers log @ [BufNew, BufFree]}
           \<or> attrs XNL_ATTR_NUM_Q = None \<and> buffers log' = buffers log @ [BufNew]
       | Some buf \<Rightarrow> rv = 0 \<and> buffers log' = buffers log @ [BufNew, BufFree]
           \<and> (\<forall>a b. TDumped a b \<in> set buf \<longrightarrow> (\<exists>idx xp conf qp n. map_of xs idx = Some xp
               \<and> qconf_get attrs = Inr (conf, qp) \<and> attrs XNL_ATTR_NUM_Q = Some n \<and> a = ucast (qc_qidx conf)
               \<and> (\<forall>t \<in> set (q_targets (dump_q_range conf n) (qc_c2h conf) qp). \<exists>k. named xp t = Ok (Some k)))))"
proof -
  from assms obtain again D where "dump_handler N again D attrs xs log = Ok (rv, answer, xs', log')"
    by (auto simp: xnl_q_dump_def xnl_q_dump_desc_def xnl_q_dump_wrb_def split: option.splits)
  then show ?thesis by (rule dump_handler_clean)
qed

definition sample_dump_dev :: xlnx_pci_dev where
  "sample_dump_dev = \<lparr>xp_qmax = 1, xp_minor_cnt = QDMA_MINOR_MAX, xp_qdata = [no_qdata, \<lparr>xq_qhndl = 1, xq_xcdev = Cdev 5\<rparr>],
     xp_cdevs = Map.empty, xp_log = [], xp_lib = sample_dump_lib, xp_trace = []\<rparr>"

definition sample_dump_attrs :: nl_attrs where
  "sample_dump_attrs = (\<lambda>_. None)(XNL_ATTR_DEV_IDX := Some 0, XNL_ATTR_QIDX := Some 0, XNL_ATTR_NUM_Q := Some 1,
     XNL_ATTR_QFLAG := Some (XNL_F_QMODE_ST OR XNL_F_QDIR_C2H), XNL_ATTR_RANGE_START := Some 1, XNL_ATTR_RANGE_END := Some 2)"

lemma sample_dump_conf:
  "qconf_get sample_dump_attrs = Inr (zero_queue_conf\<lparr>qc_st := True, qc_c2h := True\<rparr>, False)"
  by (simp add: qconf_get_def sample_dump_attrs_def nl_defs zero_queue_conf_def Let_def)

lemma sample_dump_run:
  "xnl_q_dump_wrb sample_nl_env sample_dump_attrs [(0, sample_dump_dev)] [] =
     Ok (0, Some [TLine (DState True StateUp), TLine (DWrb 1 0), TLine (DWrbWb 1), TDumped 0 0], [(0, sample_dump_dev)],
       [BufNew, SkbNew, Answer True, BufFree])"
proof -
  let ?q = "sample_c2h_queue\<lparr>dq_enabled := True, dq_inited := True\<rparr>"
  have q: "get_lib (Suc 0) True sample_dump_lib = Some ?q"
    by (simp add: get_lib_def qdma_device_get_descq_by_id_def queue_at_def sample_dump_lib_def sample_dev_def Let_def)
  have u: "[Suc 0..<2] = [Suc 0]" by (simp add: upt_rec)
  have dump: "qdma_queue_dump_wrb sample_dump_lib (Suc 0) 1 2 = Ok (0, [DState True StateUp, DWrb 1 0, DWrbWb 1])"
    unfolding qdma_queue_dump_wrb_def q
    by (simp add: qdma_descq_dump_wrb_def dump_range_up sample_c2h_defs fetch_def u qdma_descq_dump_state_def)
  define conf where "conf = zero_queue_conf\<lparr>qc_st := True, qc_c2h := True\<rparr>"
  have conf: "qconf_get sample_dump_attrs = Inr (conf, False)" "qc_qidx conf = 0" "qc_c2h conf"
    by (simp_all add: conf_def sample_dump_conf zero_queue_conf_def)
  have targets: "q_targets (dump_q_range conf 1) True False = [(0, True)]"
    by (simp add: q_targets_def dump_q_range_def conf)
  have attrs: "sample_dump_attrs XNL_ATTR_DEV_IDX = Some 0" "sample_dump_attrs XNL_ATTR_NUM_Q = Some 1"
    "sample_dump_attrs XNL_ATTR_RANGE_START = Some 1" "sample_dump_attrs XNL_ATTR_RANGE_END = Some 2"
    "sample_dump_attrs XNL_ATTR_RSP_BUF_LEN = None" by (simp_all add: sample_dump_attrs_def nl_defs)
  have get: "xpdev_queue_get sample_dump_dev 0 True True = Ok (Some 1)"
    by (simp add: xpdev_queue_get_def sample_dump_dev_def Let_def)
  have e: "xp_lib sample_dump_dev = sample_dump_lib" "xq_qhndl (xp_qdata sample_dump_dev ! Suc 0) = 1"
    "sample_dump_dev\<lparr>xp_trace := xp_trace sample_dump_dev\<rparr> = sample_dump_dev"
    by (simp_all add: sample_dump_dev_def)
  show ?thesis
    by (simp add: xnl_q_dump_wrb_def dump_handler_def attrs xnl_rcv_check_xpdev_def xpdev_find_by_idx_def qconf_or_respond_def
        conf xnl_mem_alloc_def sample_nl_env_def targets xnl_rcv_check_qidx_def get ranged_def dump e
        respond_text_def xnl_respond_buffer_def xnl_msg_alloc_def Let_def)
qed

lemma dump_commands_clean_witness:
  "xnl_q_dump_wrb sample_nl_env sample_dump_attrs [(0, sample_dump_dev)] [] =
     Ok (0, Some [TLine (DState True StateUp), TLine (DWrb 1 0), TLine (DWrbWb 1), TDumped 0 0], [(0, sample_dump_dev)],
       [BufNew, SkbNew, Answer True, BufFree])
    \<and> named sample_dump_dev (0, True) \<noteq> Ok None"
proof -
  have "Ok (0, Some [TLine (DState True StateUp), TLine (DWrb 1 0), TLine (DWrbWb 1), TDumped 0 0], [(0, sample_dump_dev)],
       [BufNew, SkbNew, Answer True, BufFree]) \<in> {xnl_q_dump sample_nl_env plain_env sample_dump_attrs [(0, sample_dump_dev)] [],
      xnl_q_dump_desc sample_nl_env sample_dump_attrs [(0, sample_dump_dev)] [],
      xnl_q_dump_wrb sample_nl_env sample_dump_attrs [(0, sample_dump_dev)] []}"
    unfolding sample_dump_run by simp
  from dump_commands_clean [OF this] obtain idx xp conf qp n where
    n: "map_of [(0 :: u32, sample_dump_dev)] idx = Some xp" "qconf_get sample_dump_attrs = Inr (conf, qp)" "sample_dump_attrs XNL_ATTR_NUM_Q = Some n"
    "\<forall>t \<in> set (q_targets (dump_q_range conf n) (qc_c2h conf) qp). \<exists>k. named xp t = Ok (Some k)"
    by auto
  have "n = 1" "xp = sample_dump_dev" using n(1,3) by (auto simp: sample_dump_attrs_def nl_defs split: if_splits)
  then have "\<exists>k. named sample_dump_dev (0, True) = Ok (Some k)"
    using n(2,4) by (auto simp: sample_dump_conf q_targets_def dump_q_range_def zero_queue_conf_def)
  then show ?thesis using sample_dump_run by auto
qed

section \<open>The tool and the device's data\<close>

lemma pci_place:
  fixes devfn :: u32
  shows "unat (drop_bit 3 devfn AND 0x1F) * 8 + unat (devfn AND 7) = unat devfn mod 256"
proof -
  have e: "drop_bit 3 devfn AND 0x1F = take_bit 5 (drop_bit 3 devfn)" "devfn AND 7 = take_bit 3 devfn"
    by (simp_all only: take_bit_eq_mask mask_eq_exp_minus_1) simp_all
  have "unat devfn mod 256 = unat devfn div 8 mod 32 * 8 + unat devfn mod 8"
    using mod_mult2_eq [of "unat devfn" 8 32] by simp
  then show ?thesis
    unfolding e unfolding unsigned_take_bit_eq unat_drop_bit_eq unfolding take_bit_eq_mod drop_bit_eq_div by simp
qed

text \<open>
  C38.  The answer about a device gives the tool its place on the bus, its BARs and its number of queues: the tool takes 2 for the user
  BAR of a device without one, and will then run a register command, whose accesses go to the configuration BAR unless the
  command names another.  The command fails without an answer.
\<close>

theorem dev_info_delivered:
  assumes "attrs XNL_ATTR_DEV_IDX = Some idx" "map_of xs idx = Some xp"
    and "qdma_device_get_config devs (lb_xdev (xp_lib xp)) = Inr conf" "- 1 \<le> dc_bar_num_user conf" "dc_bar_num_user conf < 6"
  shows "case xnl_dev_info N room devs bus devfn attrs xs log of
      (rv, None, log') \<Rightarrow> rv < 0
    | (rv, Some msg, log') \<Rightarrow> rv = 0 \<and> (let x = recv_nl_msg XNL_CMD_DEV_INFO msg xcmd in
        xc_config_bar x = 0 \<and> xc_user_bar x = (if dc_bar_num_user conf = - 1 then 2 else word_of_int (dc_bar_num_user conf))
        \<and> xc_qmax x = dc_qsets_max conf \<and> xc_attrs x XNL_ATTR_PCI_BUS = bus
        \<and> unat (xc_attrs x XNL_ATTR_PCI_DEV) * 8 + unat (xc_attrs x XNL_ATTR_PCI_FUNC) = unat devfn mod 256
        \<and> (\<forall>op regcmd. op \<in> {XNL_CMD_REG_RD, XNL_CMD_REG_WRT} \<longrightarrow> (\<exists>es. proc_reg_cmd (x\<lparr>xc_op := op\<rparr>) regcmd = (0, es)
            \<and> (\<forall>e \<in> set es. ev_bar e = (if rc_bar_set regcmd then rc_bar regcmd else 0)))))"
proof -
  obtain ok log1 where alloc: "xnl_msg_alloc N log = (ok, log1)" by fastforce
  show ?thesis
  proof (cases "ok \<and> 6 \<le> room")
    case False
    then have "\<exists>rv log'. xnl_dev_info N room devs bus devfn attrs xs log = (rv, None, log') \<and> rv < 0"
      using assms(1-3) by (auto simp: xnl_dev_info_def xnl_rcv_check_xpdev_def xpdev_find_by_idx_def alloc errno_defs Let_def)
    then obtain rv log' where run: "xnl_dev_info N room devs bus devfn attrs xs log = (rv, None, log')" "rv < 0" by blast
    show ?thesis unfolding run(1) using run(2) by simp
  next
    case True
    let ?w = "word_of_int (dc_bar_num_user conf) :: u32"
    let ?msg = "[(XNL_ATTR_PCI_BUS, NlU32 bus), (XNL_ATTR_PCI_DEV, NlU32 (drop_bit 3 devfn AND 0x1F)),
      (XNL_ATTR_PCI_FUNC, NlU32 (devfn AND 7)), (XNL_ATTR_DEV_CFG_BAR, NlU32 QDMA_CONFIG_BAR),
      (XNL_ATTR_DEV_USR_BAR, NlU32 ?w), (XNL_ATTR_DEV_QSET_MAX, NlU32 (ucast (dc_qsets_max conf)))]"
    have run: "xnl_dev_info N room devs bus devfn attrs xs log = (0, Some ?msg, log1 @ [Answer True])"
      using assms(1-3) True by (simp add: xnl_dev_info_def xnl_rcv_check_xpdev_def xpdev_find_by_idx_def alloc Let_def)
    define x where "x = recv_nl_msg XNL_CMD_DEV_INFO ?msg xcmd"
    have attrs: "xc_attrs x XNL_ATTR_PCI_BUS = bus" "xc_attrs x XNL_ATTR_PCI_DEV = drop_bit 3 devfn AND 0x1F"
      "xc_attrs x XNL_ATTR_PCI_FUNC = devfn AND 7" "xc_attrs x XNL_ATTR_DEV_CFG_BAR = 0" "xc_attr_mask x = 0x1F8"
      by (simp_all add: x_def recv_nl_msg_def recv_attrs_def nl_defs QDMA_CONFIG_BAR_def word_of_val_def Let_def)
    have bars: "xc_config_bar x = 0" "xc_user_bar x = (if ?w + 1 = 0 then 2 else ucast ?w)"
      "xc_qmax x = ucast (ucast (dc_qsets_max conf) :: u32)"
      by (simp_all add: x_def recv_nl_msg_def recv_attrs_def nl_defs QDMA_CONFIG_BAR_def word_of_val_def Let_def)
    have "dc_bar_num_user conf \<in> {- 1, 0, 1, 2, 3, 4, 5}" using assms(4,5) by auto
    then have "xc_user_bar x = (if dc_bar_num_user conf = - 1 then 2 else word_of_int (dc_bar_num_user conf))"
      by (auto simp: bars(2))
    moreover have "xc_qmax x = dc_qsets_max conf" unfolding bars(3) by (rule bit_word_eqI) (simp add: bit_simps)
    moreover have "unat (drop_bit 3 devfn AND 0x1F) * 8 + unat (devfn AND 7) = unat devfn mod 256" by (rule pci_place)
    moreover have "\<exists>es. proc_reg_cmd (x\<lparr>xc_op := op\<rparr>) regcmd = (0, es)
        \<and> (\<forall>e \<in> set es. ev_bar e = (if rc_bar_set regcmd then rc_bar regcmd else 0))"
      if "op \<in> {XNL_CMD_REG_RD, XNL_CMD_REG_WRT}" for op regcmd
      using that attrs(4,5)
      by (auto simp: proc_reg_cmd_def nl_defs reg_read_mmap_def reg_write_mmap_def Let_def)
    ultimately show ?thesis
      unfolding run prod.case option.case x_def [symmetric] Let_def using attrs(1-3) bars(1) by simp
  qed
qed

lemma dev_info_delivered_witness:
  "\<exists>msg log'. xnl_dev_info sample_nl_env 6 [sample_dev] 3 0x29 sample_dump_attrs [(0, sample_dump_dev)] [] = (0, Some msg, log')
    \<and> xc_user_bar (recv_nl_msg XNL_CMD_DEV_INFO msg zero_xcmd) = 2
    \<and> unat (xc_attrs (recv_nl_msg XNL_CMD_DEV_INFO msg zero_xcmd) XNL_ATTR_PCI_DEV) * 8
      + unat (xc_attrs (recv_nl_msg XNL_CMD_DEV_INFO msg zero_xcmd) XNL_ATTR_PCI_FUNC) = 0x29"
proof -
  have a: "sample_dump_attrs XNL_ATTR_DEV_IDX = Some 0" "map_of [(0 :: u32, sample_dump_dev)] 0 = Some sample_dump_dev"
    by (simp_all add: sample_dump_attrs_def nl_defs)
  have c: "qdma_device_get_config [sample_dev] (lb_xdev (xp_lib sample_dump_dev)) = Inr (xd_conf sample_dev)"
    by (simp add: qdma_device_get_config_def xdev_check_hndl_def xdev_find_by_pdev_def sample_dump_dev_def sample_dump_lib_def sample_dev_def)
  have run: "\<exists>msg log'. xnl_dev_info sample_nl_env 6 [sample_dev] 3 0x29 sample_dump_attrs [(0, sample_dump_dev)] [] = (0, Some msg, log')"
    by (simp add: xnl_dev_info_def xnl_rcv_check_xpdev_def xpdev_find_by_idx_def a c xnl_msg_alloc_def sample_nl_env_def Let_def)
  have b: "dc_bar_num_user (xd_conf sample_dev) = - 1" by (simp add: sample_dev_def)
  show ?thesis
    using run dev_info_delivered [where N = sample_nl_env and room = 6 and bus = 3 and devfn = "0x29" and log = "[]" and xcmd = zero_xcmd
        and attrs = sample_dump_attrs and idx = 0 and xs = "[(0, sample_dump_dev)]", OF a c]
    by (auto simp: b Let_def)
qed

section \<open>Where the answers mislead\<close>

text \<open>
  Of several queues only the last one's text is in the answer: each is written over the one before.
\<close>

lemma only_last_shown:
  assumes "dump_targets N D qconf (ts @ [t]) buf xp log = Ok (True, buf', xp', log')"
  shows "\<exists>k tr rv lines tr'. named xp t = Ok (Some k) \<and> D (xp_lib xp) (xq_qhndl (xp_qdata xp ! k)) tr = Ok (rv, lines, tr')
    \<and> buf' = map TLine lines"
  using dump_targets_frame [OF assms] by simp blast

text \<open>Without the number of queues the buffer is kept; without a range the request is read through a null pointer.\<close>

lemma dump_without_number:
  assumes "attrs XNL_ATTR_DEV_IDX = Some idx" "map_of xs idx = Some xp" "qconf_get attrs = Inr c" "attrs XNL_ATTR_NUM_Q = None" "ne_mem N"
  shows "xnl_q_dump N E attrs xs log = Ok (- 1, None, xs, log @ [BufNew])"
  using assms
  by (cases c) (simp add: xnl_q_dump_def dump_handler_def xnl_rcv_check_xpdev_def xpdev_find_by_idx_def qconf_or_respond_def
      xnl_mem_alloc_def Let_def)

lemma dump_without_range:
  "attrs XNL_ATTR_RANGE_START = None \<Longrightarrow> xnl_q_dump_desc N attrs xs log = Bad \<and> xnl_q_dump_wrb N attrs xs log = Bad"
  by (simp add: xnl_q_dump_desc_def xnl_q_dump_wrb_def)

text \<open>
  A device without a user BAR reports \<open>-1\<close>.  The tool puts 2 in its place but then reads the attribute again, and the register dump
  goes to BAR 255.
\<close>

lemma no_user_bar:
  assumes "attrs XNL_ATTR_DEV_IDX = Some idx" "map_of xs idx = Some xp"
    and "qdma_device_get_config devs (lb_xdev (xp_lib xp)) = Inr conf" "dc_bar_num_user conf = - 1"
    and "xnl_dev_info N room devs bus devfn attrs xs log = (0, Some msg, log')"
  shows "\<exists>es. proc_reg_cmd ((recv_nl_msg XNL_CMD_DEV_INFO msg xcmd)\<lparr>xc_op := XNL_CMD_REG_DUMP\<rparr>) regcmd = (0, es) \<and> 255 \<in> ev_bar ` set es"
proof -
  define x where "x = recv_nl_msg XNL_CMD_DEV_INFO msg xcmd"
  have msg: "msg = [(XNL_ATTR_PCI_BUS, NlU32 bus), (XNL_ATTR_PCI_DEV, NlU32 (drop_bit 3 devfn AND 0x1F)),
      (XNL_ATTR_PCI_FUNC, NlU32 (devfn AND 7)), (XNL_ATTR_DEV_CFG_BAR, NlU32 QDMA_CONFIG_BAR),
      (XNL_ATTR_DEV_USR_BAR, NlU32 (- 1)), (XNL_ATTR_DEV_QSET_MAX, NlU32 (ucast (dc_qsets_max conf)))]"
    using assms by (auto simp: xnl_dev_info_def xnl_rcv_check_xpdev_def xpdev_find_by_idx_def Let_def split: prod.splits if_splits)
  have x: "xc_attrs x XNL_ATTR_DEV_USR_BAR = - 1" "xc_attr_mask x = 0x1F8"
    by (simp_all add: x_def msg recv_nl_msg_def recv_attrs_def nl_defs word_of_val_def Let_def)
  have "\<exists>es. reg_dump_mmap b l qdma_user_regs = BarRead b (word_at 0) l # es" for b l
    unfolding qdma_user_regs_def by (subst reg_dump_mmap.simps(2)) (simp add: reg_def)
  then have "b \<in> ev_bar ` set (reg_dump_mmap b l qdma_user_regs)" for b l by (metis bar_event.sel(1) image_eqI list.set_intros(1))
  moreover have "\<exists>es. proc_reg_cmd (x\<lparr>xc_op := XNL_CMD_REG_DUMP\<rparr>) regcmd
      = (0, reg_dump_mmap (ucast (ucast (- 1 :: u32) :: u8)) QDMA_USR_BAR_SIZE qdma_user_regs @ es)"
    unfolding proc_reg_cmd_def Let_def by (simp add: x [unfolded nl_defs] nl_defs del: reg_dump_mmap.simps)
  moreover have "ucast (ucast (- 1 :: u32) :: u8) = (255 :: u32)"
  proof -
    have "(- 1 :: u32) = 0xFFFFFFFF" by simp
    then show ?thesis by (simp only:) simp
  qed
  ultimately show ?thesis unfolding x_def by (metis (no_types, lifting) UnCI image_Un set_append)
qed

end
