(* ===== verification/Qdma_Mod.thy ===== *)
theory Qdma_Mod
  imports Qdma_Open Qdma_Xpdev
begin

unbundle bit_operations_syntax

text \<open>
  The driver module (\<open>drv/qdma_mod.c\<close>): a device is probed and removed, its attributes are shown and set
  through \<open>sysfs\<close>, its virtual functions are configured, and it is prepared for a reset.
\<close>

section \<open>Probing and removing\<close>

text \<open>
  What the module has for a device: the table of queues, whose \<open>xp_lib\<close> is the device behind the handle.  A handle of
  0 has no device and no table that a call could use.
\<close>

record drv_dev =
  dd_pdev :: nat
  dd_idx :: u8
  dd_hndl :: nat
  dd_major :: int
  dd_table :: "xlnx_pci_dev option"

datatype mod_event = RegionTaken | RegionGiven | TableTaken | TableGiven

text \<open>
  The module's parameters and the kernel's answers: memory from either allocator, the region of device numbers,
  \<open>sysfs_create_group\<close>.
\<close>

record mod_env =
  me_poll_mode_en :: u32
  me_ind_intr_mode :: u32
  me_master_pf :: u32
  me_kmem :: bool
  me_vmem :: bool
  me_region :: "int \<times> int"
  me_sysfs :: int

text \<open>The configuration that \<open>probe_one\<close> opens the device with; the modes are single bits.\<close>

definition probe_conf :: "mod_env \<Rightarrow> nat \<Rightarrow> u32 \<Rightarrow> qdma_dev_conf" where
  "probe_conf M pdev devfn =
     \<lparr>dc_pdev = pdev, dc_qsets_max = 0, dc_poll_mode = bit (me_poll_mode_en M) 0, dc_intr_agg = bit (me_ind_intr_mode M) 0,
      dc_isr_top_q_en = False, dc_vf_max = 0, dc_intr_rngsz = 0, dc_msix_qvec_max = 0, dc_idx = 0, dc_qsets_base = 0,
      dc_master_pf = (devfn AND 7 = me_master_pf M), dc_fp_user_isr = False, dc_fp_isr_top_dev = False,
      dc_bar_num_user = 0\<rparr>"

definition behind :: "nat \<Rightarrow> qdma_host \<Rightarrow> qdma_lib option" where
  "behind hndl h = List.find (\<lambda>l. xd_addr (lb_xdev l) = hndl) (ho_devs h)"

definition close_hndl :: "env \<Rightarrow> nat \<Rightarrow> nat \<Rightarrow> qdma_host \<Rightarrow> trace \<Rightarrow> (qdma_host \<times> trace) outcome" where
  "close_hndl E pdev hndl h tr =
     (if hndl = 0 then Ok (h, tr)
      else (case behind hndl h of None \<Rightarrow> Bad | Some lib \<Rightarrow> qdma_device_close E pdev lib h tr))"

text \<open>The label \<open>close_device\<close>; the table is freed if there is one.\<close>

definition probe_close ::
  "env \<Rightarrow> int \<Rightarrow> nat \<Rightarrow> nat \<Rightarrow> bool \<Rightarrow> qdma_host \<Rightarrow> trace \<Rightarrow> mod_event list
     \<Rightarrow> (int \<times> drv_dev option \<times> qdma_host \<times> trace \<times> mod_event list) outcome" where
  "probe_close E rv pdev hndl table h tr log =
     (case close_hndl E pdev hndl h tr of Bad \<Rightarrow> Bad
      | Ok (h, tr) \<Rightarrow> Ok (rv, None, h, tr, if table then log @ [TableGiven] else log))"

definition probe_one ::
  "mod_env \<Rightarrow> env \<Rightarrow> (nat \<Rightarrow> vf_info) \<Rightarrow> nat \<Rightarrow> nat \<Rightarrow> nat \<Rightarrow> u32 \<Rightarrow> qdma_host \<Rightarrow> trace \<Rightarrow> mod_event list
     \<Rightarrow> (int \<times> drv_dev option \<times> qdma_host \<times> trace \<times> mod_event list) outcome" where
  "probe_one M E mem totalvfs addr pdev devfn h tr log =
     (case qdma_device_open E mem totalvfs addr True (probe_conf M pdev devfn) h tr of Bad \<Rightarrow> Bad
      | Ok (rv, hndl, conf, h, tr) \<Rightarrow>
          if rv < 0 then Ok (rv, None, h, tr, log)
          else if \<not> me_kmem M \<and> \<not> me_vmem M then probe_close E (- EINVAL) pdev hndl False h tr log
          else
            let log = log @ [TableTaken];
                (rv, major, minor_cnt) = qdma_cdev_device_init (me_region M) 0
            in if rv < 0 then probe_close E rv pdev hndl True h tr log
            else
              let log = (if rv = 0 then log @ [RegionTaken] else log)
              in if me_sysfs M < 0 then probe_close E (me_sysfs M) pdev hndl True h tr log
              else
                let table = (case behind hndl h of None \<Rightarrow> None
                      | Some lib \<Rightarrow> map_option (\<lambda>t. t\<lparr>xp_minor_cnt := minor_cnt\<rparr>)
                          (xpdev_alloc (me_kmem M) (me_vmem M) (ucast (dc_qsets_max conf)) lib tr))
                in Ok (0, Some \<lparr>dd_pdev = pdev, dd_idx = dc_idx conf, dd_hndl = hndl, dd_major = major, dd_table = table\<rparr>,
                       h, tr, log))"

text \<open>\<open>remove_one\<close>: the region goes first, then the devices in it, then the device itself.\<close>

definition remove_one ::
  "env \<Rightarrow> drv_dev \<Rightarrow> qdma_host \<Rightarrow> trace \<Rightarrow> mod_event list \<Rightarrow> (qdma_host \<times> trace \<times> mod_event list) outcome" where
  "remove_one E d h tr log =
     (let (given, major) = qdma_cdev_device_cleanup (dd_major d);
          log = (if given then log @ [RegionGiven] else log)
      in case dd_table d of None \<Rightarrow> Ok (h, tr, log @ [TableGiven])
         | Some t \<Rightarrow>
             (case xpdev_device_cleanup t of Bad \<Rightarrow> Bad
              | Ok t \<Rightarrow>
                  (case qdma_device_close E (dd_pdev d) (xp_lib t) h tr of Bad \<Rightarrow> Bad
                   | Ok (h, tr) \<Rightarrow> Ok (h, tr, log @ [TableGiven]))))"

section \<open>Attributes, virtual functions, resets\<close>

text \<open>
  The attributes in \<open>sysfs\<close>: \<open>parsed\<close> is the number that \<open>kstrtoint\<close> reads, which nothing asks for: without one the
  value stays 0.  The result is the length of the text, or the error.
\<close>

definition parsed_or_zero :: "u32 option \<Rightarrow> u32" where
  "parsed_or_zero parsed = (case parsed of None \<Rightarrow> 0 | Some v \<Rightarrow> v)"

definition set_qmax :: "env \<Rightarrow> u32 option \<Rightarrow> int \<Rightarrow> qdma_lib \<Rightarrow> trace \<Rightarrow> (int \<times> qdma_lib \<times> trace) outcome" where
  "set_qmax E parsed len lib tr =
     (case qdma_set_qmax E (parsed_or_zero parsed) lib tr of Bad \<Rightarrow> Bad
      | Ok (err, lib, tr) \<Rightarrow> Ok (if err \<noteq> 0 then err else len, lib, tr))"

definition set_intr_rngsz :: "u32 option \<Rightarrow> int \<Rightarrow> qdma_lib \<Rightarrow> int \<times> qdma_lib" where
  "set_intr_rngsz parsed len lib =
     (let (err, lib) = qdma_set_intr_rngsz (parsed_or_zero parsed) lib in (if err \<noteq> 0 then err else len, lib))"

definition set_wrb_acc :: "u32 option \<Rightarrow> int \<Rightarrow> trace \<Rightarrow> int \<times> trace" where
  "set_wrb_acc parsed len tr =
     (let (err, tr) = qdma_set_wrb_acc (parsed_or_zero parsed) tr in (if err \<noteq> 0 then err else len, tr))"

text \<open>The numbers that are shown; they are printed as signed ones.\<close>

definition show_qmax :: "qdma_lib \<Rightarrow> int" where
  "show_qmax lib = sint (ucast (qdma_get_qmax lib) :: u32)"

definition show_intr_rngsz :: "qdma_lib \<Rightarrow> int" where
  "show_intr_rngsz lib = sint (ucast (qdma_get_intr_rngsz lib) :: u32)"

definition show_wrb_acc :: "env \<Rightarrow> trace \<Rightarrow> int \<times> trace" where
  "show_wrb_acc E tr = (let (v, tr) = qdma_get_wrb_acc E tr in (sint v, tr))"

text \<open>\<open>sriov_config\<close>: more virtual functions than there can be are cut down.\<close>

definition QDMA_VF_MAX :: int where "QDMA_VF_MAX = 252"

definition sriov_config ::
  "env \<Rightarrow> (nat \<Rightarrow> vf_info) \<Rightarrow> xdev_list \<Rightarrow> nat \<Rightarrow> xlnx_dma_dev option \<Rightarrow> int \<Rightarrow> trace
     \<Rightarrow> int \<times> xlnx_dma_dev option \<times> trace" where
  "sriov_config E mem devs pdev hndl num_vfs tr =
     qdma_device_sriov_config E mem devs pdev hndl (nat (if QDMA_VF_MAX < num_vfs then QDMA_VF_MAX else num_vfs)) tr"

text \<open>
  \<open>qdma_reset_prepare\<close> and \<open>qdma_reset_done\<close>: the queues are deleted after the device has gone offline.
\<close>

definition qdma_reset_prepare :: "env \<Rightarrow> xdev_list \<Rightarrow> nat \<Rightarrow> xlnx_pci_dev \<Rightarrow> trace \<Rightarrow> (xlnx_pci_dev \<times> trace) outcome" where
  "qdma_reset_prepare E devs pdev xp tr =
     (case qdma_device_offline E devs pdev (xp_lib xp) tr of Bad \<Rightarrow> Bad
      | Ok (lib, tr) \<Rightarrow>
          let (rv, tr) = qdma_device_flr_quirk_set PF devs pdev (lb_xdev lib) tr
          in (case xpdev_queue_delete_all E (map of_nat [0..<unat (xp_qmax xp)]) (xp\<lparr>xp_lib := lib, xp_trace := tr\<rparr>) of
                Bad \<Rightarrow> Bad
              | Ok xp \<Rightarrow>
                  let (rv, tr) = qdma_device_flr_quirk_check E PF devs pdev (lb_xdev (xp_lib xp)) (xp_trace xp)
                  in Ok (xp, tr)))"

definition qdma_reset_done ::
  "env \<Rightarrow> (nat \<Rightarrow> vf_info) \<Rightarrow> xdev_list \<Rightarrow> nat \<Rightarrow> xlnx_pci_dev \<Rightarrow> trace \<Rightarrow> (xlnx_pci_dev \<times> trace) outcome" where
  "qdma_reset_done E mem devs pdev xp tr =
     (case qdma_device_online E mem devs pdev (xp_lib xp) tr of Bad \<Rightarrow> Bad
      | Ok (rv, lib, tr) \<Rightarrow> Ok (xp\<lparr>xp_lib := lib, xp_trace := tr\<rparr>, tr))"

section \<open>A device comes and goes\<close>

lemma behind_last:
  assumes "ho_devs h = ds @ [lib]" "xd_addr (lb_xdev lib) \<notin> set (map (xd_addr \<circ> lb_xdev) ds)"
  shows "behind (xd_addr (lb_xdev lib)) h = Some lib"
proof -
  have "List.find (\<lambda>l. xd_addr (lb_xdev l) = xd_addr (lb_xdev lib)) ds = None"
    using assms(2) by (auto simp: find_None_iff image_iff)
  then have "List.find (\<lambda>l. xd_addr (lb_xdev l) = xd_addr (lb_xdev lib)) (ds @ [lib]) = Some lib"
    by (induction ds) (auto split: if_splits)
  then show ?thesis by (simp add: behind_def assms(1))
qed

lemma cleanup_empty: "xpdev_alloc k v qmax lib tr = Some t \<Longrightarrow> xpdev_device_cleanup (t\<lparr>xp_minor_cnt := m\<rparr>) = Ok (t\<lparr>xp_minor_cnt := m\<rparr>)"
proof -
  have "cleanup_qdata (replicate n no_qdata) cdevs log = Ok (cdevs, log)" for n cdevs log by (induction n) simp_all
  then show "xpdev_alloc k v qmax lib tr = Some t \<Longrightarrow> xpdev_device_cleanup (t\<lparr>xp_minor_cnt := m\<rparr>) = Ok (t\<lparr>xp_minor_cnt := m\<rparr>)"
    by (auto simp: xpdev_alloc_def xpdev_device_cleanup_def map_replicate_const split: if_splits)
qed


definition sample_mod_env :: mod_env where
  "sample_mod_env = \<lparr>me_poll_mode_en = 1, me_ind_intr_mode = 0, me_master_pf = 1, me_kmem = True, me_vmem = False,
     me_region = (0, 240), me_sysfs = 0\<rparr>"

lemma sample_probe:
  "\<exists>conf' h' tr'. qdma_device_open sample_open_env (\<lambda>_. undefined) 0 0x1000 True (probe_conf sample_mod_env 7 0) empty_host []
     = Ok (0, 0x1000, conf', h', tr')"
  by (simp add: qdma_device_open_def Let_def pci_dma_mask_set_def xdev_alloc_def empty_host_def xdevs_def
      xdev_find_by_pdev_def xdev_list_add_def open_attached_def xdev_map_bars_def QDMA_MAX_BAR_LEN_MAPPED_def
      qdma_device_attributes_get_def qdma_device_num_pfs_get_def reg_defs put_host_def xdev_check_hndl_def
      qdma_device_online_def qdma_device_init_def device_identify_def intr_setup_def xdev_flag_clear_def
      xdev_flag_set_def probe_conf_def sample_mod_env_def errno_defs split_beta)


section \<open>Where probing goes wrong\<close>

text \<open>When the attributes cannot be made, the region of device numbers that was taken is not given back.\<close>

lemma region_leaked:
  assumes "qdma_device_open E mem n addr True (probe_conf M pdev devfn) h tr = Ok (0, hndl, conf', h1, tr1)"
    and "me_kmem M" "me_region M = (0, major)" "me_sysfs M < 0" "close_hndl E pdev hndl h1 tr1 = Ok (h2, tr2)"
  shows "probe_one M E mem n addr pdev devfn h tr log
    = Ok (me_sysfs M, None, h2, tr2, log @ [TableTaken, RegionTaken, TableGiven])"
  using assms by (simp add: probe_one_def probe_close_def qdma_cdev_device_init_def Let_def)

text \<open>When the library has no memory for the device, it reports 0, and the probe succeeds without a device.\<close>

lemma probed_without_device:
  assumes "qdma_device_open E mem n addr True (probe_conf M pdev devfn) h tr = Ok (0, 0, conf', h1, tr1)"
    and "me_kmem M" "me_region M = (0, major)" "\<not> me_sysfs M < 0"
  shows "\<exists>d. probe_one M E mem n addr pdev devfn h tr log = Ok (0, Some d, h1, tr1, log @ [TableTaken, RegionTaken]) \<and> dd_hndl d = 0"
  using assms by (simp add: probe_one_def qdma_cdev_device_init_def Let_def)

text \<open>A text that is not a number is taken for 0.\<close>

lemma no_number_is_zero: "set_wrb_acc None len tr = set_wrb_acc (Some 0) len tr"
  by (simp add: set_wrb_acc_def parsed_or_zero_def)

end
