(* ===== verification/Spec2Isabelle.thy ===== *)
theory Spec2Isabelle
  imports Qdma_Mbox_Vf Qdma_Io Qdma_Nl_Dump Qdma_Mod
begin

text \<open>
  \<^bold>\<open>A development on the Xilinx QDMA driver for Linux.\<close>

  The repository has three parts.  The library \<open>src/libqdma\<close> drives the device: it programs the queues'
  contexts through registers, posts descriptors in rings in memory, learns from interrupts and polling
  what the device has done, shares the work among kernel threads, and lets the physical and the virtual
  functions of a device talk to each other through a mailbox.  The driver \<open>src/drv\<close> is a client of the library: it
  creates character devices for the queues and serves the control messages of the command line tool.  The
  tool \<open>src/user/cli\<close> parses a command, sends the messages and prints the answers, and reads and writes
  registers through the mapped BARs.

  \<^bold>\<open>How the code is translated.\<close>  Machine integers are words of their width.  A \<open>struct\<close> is a record without its
  locks, list heads and kernel objects; a linked list is the list of what is on it; a ring is a list of its entries, in the
  place of the pointer to it.  What an operation changes is taken and returned.  An error code is
  an \<open>int\<close>, or the left side of a sum.  The device and the kernel are a parameter \<open>env\<close> (\<open>Qdma_Prelude\<close>): the
  answer to a register read, an allocation or a call is a function of the trace of all the
  interactions before it, which every operation extends and which also tells in which order registers
  were written and resources taken and given back.  \<open>Bad\<close>, of the type \<open>outcome\<close>, is C's undefined behaviour: an access outside
  an array, through a null pointer or to what has been given back.  Loops that end are functions with
  their termination proofs.  Four loops run until the device says so and may run for ever: \<open>aggregate_loop\<close>
  (interrupt entries), \<open>pf_loop\<close> and \<open>vf_rcv_loop\<close> (mailbox), \<open>vf_intr_context_loop\<close>.  They are partial functions whose value
  \<open>None\<close> means that they do not return, and the theorems on them
  (\<open>intr_aggregate_catches_up\<close>, \<open>pf_mailbox_serves_all\<close>, \<open>vf_request_returns\<close>) prove that they do, under the stated behaviour
  of the device.  There is no fuel anywhere.

  \<^bold>\<open>The theories,\<close> in the order in which they build on one another.

  \<^item> \<open>Qdma_Prelude\<close>: the C types, error numbers, traces and environments, and the lemmas on words, lists and
    traces that all the others share (collections \<open>errno_defs\<close>, \<open>reg_defs\<close>, \<open>trace_simps\<close>).
    \<open>Qdma_Types\<close>: the structures of \<open>libqdma_export.h\<close>, \<open>xdev.h\<close>, \<open>qdma_descq.h\<close>.
  \<^item> \<open>Qdma_Ring\<close>: the index arithmetic of every ring (\<open>ring_idx_incr\<close>, \<open>ring_idx_decr\<close>, \<open>ring_idx_delta\<close> of
    \<open>qdma_descq.h\<close>) and its contract, the locale \<open>ring_index\<close>.  \<open>Qdma_Phase\<close>: rings whose entries carry a colour,
    the locale \<open>phase_ring\<close>, with which the completion ring and the interrupt ring are shown to take exactly what the device
    has written.
  \<^item> \<open>Qdma_Regs\<close> (\<open>qdma_regs.c\<close>): registers, global tables, FLR, and the indirect context commands with their
    polling; what is written and read back, and when the polling ends.  \<open>Qdma_Context\<close> (\<open>qdma_context.c\<close>): the
    layout of the queue and interrupt contexts, field by field, and that setting up installs and reading gives back the
    contexts of the queue.
  \<^item> \<open>Qdma_Descq\<close> (\<open>qdma_descq.c\<close>): posting of memory-mapped and streaming requests, pending requests and their
    credits, writebacks, doorbells, vectors.  Posted descriptors are the pieces of the request at consecutive slots, and
    the ring invariant (\<open>avail\<close>, \<open>pidx\<close>, \<open>cidx\<close> agree) holds after each operation.
  \<^item> \<open>Qdma_Flq\<close>, \<open>Qdma_C2h_Read\<close>, \<open>Qdma_St_C2h\<close> (\<open>qdma_st_c2h.c\<close>): the free list of receive buffers, the copying
    of what has arrived to requests, the completion ring.  Reads give the byte stream in order; a batch of completions takes
    only the entries the device has written.
  \<^item> \<open>Qdma_Queue\<close> (\<open>qdma_descq.c\<close>): the life of one queue; memory is taken all or nothing and given back exactly.
  \<^item> \<open>Qdma_Sriov\<close> (\<open>qdma_sriov.c\<close>): the table of virtual functions refines a map from function to queue range (locale
    \<open>vf_registry\<close>).  \<open>Qdma_Msg\<close>, \<open>Qdma_Mbox\<close>, \<open>Qdma_Mbox_Vf\<close> (\<open>qdma_mbox.c\<close>, \<open>qdma_mbox.h\<close>): messages, their transport,
    the service of the physical function, and the requests of the virtual function up to their effect there.
  \<^item> \<open>Qdma_Intr\<close> (\<open>qdma_intr.c\<close>): error registers and their handler, vectors, aggregation rings.
    \<open>Qdma_Thread\<close> (\<open>qdma_thread.c\<close>, \<open>thread.c\<close>): the kernel threads and their lists.
  \<^item> \<open>Qdma_Device\<close>, \<open>Qdma_Request\<close> (\<open>qdma_device.c\<close>, \<open>libqdma_export.c\<close>, \<open>libqdma_config.c\<close>): the calls of the library's client.
    \<open>Qdma_Frame\<close>: what each of them leaves alone.  \<open>Qdma_Client\<close>: the invariant of queues, threads' and vectors' lists over
    every sequence of calls (an inductive relation) that keeps to the protocol.  \<open>Qdma_Io\<close>: a transfer from its submission to its
    end.  \<open>Qdma_Open\<close> (\<open>xdev.c\<close>): opening and closing devices.
    \<open>Qdma_Dump\<close> (\<open>libqdma_export.c\<close>, \<open>qdma_descq.c\<close>): what the dumps of a queue read, and that it lies in its rings.
  \<^item> \<open>Qdma_Cmd\<close>, \<open>Qdma_Cli\<close> (\<open>reg_cmd.c\<close>, \<open>cmd_parse.c\<close>): the tool's registers and its parser; options printed are read back, accesses
    stay within the mapped windows.  \<open>Qdma_Nl_Msg\<close> (\<open>nl_user.c\<close>, \<open>drv/nl.c\<close>): from an accepted command to the configuration
    that the driver gives to the library.

  \<^item> \<open>Qdma_Cdev\<close> (\<open>drv/cdev.c\<close>): reading and writing a queue through its character device; the pieces of the request are
    the user's buffer, and its pages are given back.  \<open>Qdma_Xpdev\<close> (\<open>drv/qdma_mod.c\<close>, \<open>drv/cdev.c\<close>): the table of
    queues and the devices that both directions of a queue share; no run of adding and deleting leaves a dangling pointer or a device without
    an entry.  \<open>Qdma_Nl\<close> (\<open>drv/nl.c\<close>): the commands that add, start, stop and delete queues; \<open>Qdma_Nl_Dump\<close>:
    those that list and dump, and what the tool learns of a device.  \<open>Qdma_Mod\<close>
    (\<open>drv/qdma_mod.c\<close>): probing and removing a device, its attributes, its virtual functions, its reset.

  Each theory ends with the lemmas on the cases in which the code does not do what it means to;
  they are the findings of the manifest.

  \<^bold>\<open>Not modelled.\<close>  The text that the library, the driver and the tool print: of a dump the values that are read, in their order, but no
  words, digits and lengths; names and warnings not at all.  What only
  registers with the kernel or calls it: the set-up and clean-up of the module, the recovery from PCI errors, the family of messages and
  its policy, the tool's socket and the mapping of the BAR's file.  The separate programs of \<open>src/tools\<close>, the tables of
  identifiers, the build files.  The builds with \<open>ERR_DEBUG\<close>, \<open>DEBUG\<close> and
  \<open>XMP_DISABLE_ST_C2H_CMPL\<close>.  Concurrency within a call: each operation runs alone, as under its lock, and the orders in which
  operations follow one another are the sequences of calls, thread steps and interrupts of the theories above.
\<close>

end
